(* ===== verification/FosPrelude.thy ===== *)
theory FosPrelude
  imports
    "HOL-Library.Word"
    "HOL-Library.Monad_Syntax"
begin

unbundle bit_operations_syntax

text \<open>
  The vocabulary shared by every component theory: the C integer types of
  \<^verbatim>\<open>kernel/include/list.h\<close>, the option monad in which C code that may fault or
  diverge is written (\<open>None\<close> stands for undefined behaviour, a failed \<open>OS_ASSERT\<close>
  or a loop that never ends), and the generic lemmas on options, lists, maps and words that
  the component proofs use.
\<close>

subsection \<open>Integer types\<close>

type_synonym u8 = "8 word"
type_synonym u16 = "16 word"
type_synonym u32 = "32 word"
type_synonym u64 = "64 word"

subsection \<open>Fact collections\<close>

named_theorems op_defs \<open>definitions of the modelled operations\<close>
named_theorems frame_simps \<open>what an operation leaves unchanged\<close>

subsection \<open>The option monad of faulting code\<close>

text \<open>\<open>guard b\<close> continues when \<open>b\<close> holds and is a fault otherwise: it models
  \<^verbatim>\<open>OS_ASSERT\<close>, which loops forever on a false condition, and accesses that C leaves
  undefined.\<close>

definition guard :: "bool \<Rightarrow> unit option" where
  "guard b = (if b then Some () else None)"

lemma guard_simps [simp]: "guard True = Some ()" "guard False = None"
  by (simp_all add: guard_def)

lemma guard_Some_iff [simp]: "guard b = Some u \<longleftrightarrow> b"
  by (simp add: guard_def)

lemma guard_None_iff [simp]: "guard b = None \<longleftrightarrow> \<not> b"
  by (simp add: guard_def)

lemma bind_SomeE:
  assumes "Option.bind m f = Some y"
  obtains x where "m = Some x" "f x = Some y"
  using assms by (cases m) auto

lemma bind_cong_Some:
  "m = Some x \<Longrightarrow> Option.bind m f = f x"
  by simp

text \<open>\<open>returns m P\<close>: the code does not fault, it returns, and the result satisfies \<open>P\<close>.\<close>

definition returns :: "'a option \<Rightarrow> ('a \<Rightarrow> bool) \<Rightarrow> bool" where
  "returns m P \<longleftrightarrow> (\<exists>x. m = Some x \<and> P x)"

lemma returns_simps [simp]: "returns (Some x) P \<longleftrightarrow> P x" "\<not> returns None P"
  by (simp_all add: returns_def)

lemma returns_bind [simp]:
  "returns (Option.bind m f) P \<longleftrightarrow> returns m (\<lambda>x. returns (f x) P)"
  by (cases m) simp_all

lemma returns_guard [simp]: "returns (guard b) P \<longleftrightarrow> b \<and> P ()"
  by (cases b) simp_all

lemma returns_mono: "returns m P \<Longrightarrow> (\<And>x. P x \<Longrightarrow> Q x) \<Longrightarrow> returns m Q"
  by (auto simp: returns_def)

lemma returns_obtain:
  assumes "returns m P"
  obtains x where "m = Some x" "P x"
  using assms by (auto simp: returns_def)

subsection \<open>Lists\<close>

lemma last_Cons_append [simp]: "last (x # xs @ [y]) = y"
  by simp

lemma rotate1_split: "xs \<noteq> [] \<Longrightarrow> rotate1 xs = tl xs @ [hd xs]"
  by (cases xs) auto

lemma rotate1_singleton_or_tail: "rotate1 (x # xs) = xs @ [x]"
  by simp

lemma in_set_split:
  assumes "x \<in> set xs"
  obtains ys zs where "xs = ys @ x # zs"
  using assms by (meson split_list)

lemma list_all_interval: "list_all P [0..<n] \<longleftrightarrow> (\<forall>i<n. P i)"
  by (auto simp: list_all_iff)

subsection \<open>Words as bytes\<close>

lemma unat_u8_bound [simp]: "unat (x :: u8) < 256"
  using unsigned_less [where 'a = nat, of x] by simp

lemma unat_u16_bound [simp]: "unat (x :: u16) < 65536"
  using unsigned_less [where 'a = nat, of x] by simp

lemma unat_u32_bound [simp]: "unat (x :: u32) < 4294967296"
  using unsigned_less [where 'a = nat, of x] by simp

lemma u8_all_by_nat:
  assumes "\<And>n. n < 256 \<Longrightarrow> P (word_of_nat n :: u8)"
  shows "P x"
  using assms [of "unat x"] by simp

lemma unat_minus_1: "(x :: u32) \<noteq> 0 \<Longrightarrow> unat (x - 1) = unat x - 1"
  by (simp add: unat_minus_one)

lemma unat_plus_1:
  assumes "(x :: u32) \<noteq> 0xffffffff"
  shows "unat (x + 1) = unat x + 1"
proof -
  have "1 + x \<noteq> 0"
  proof
    assume "1 + x = 0"
    then have "x = - 1" by (metis add_eq_0_iff)
    with assms show False by simp
  qed
  then show ?thesis by (simp add: unatSuc add.commute)
qed

lemma u32_less_plus_1:
  assumes "(x :: u32) < y"
  shows "unat (x + 1) = unat x + 1" "x + 1 \<le> y"
proof -
  have "unat x < 4294967295"
    using assms [unfolded word_less_nat_alt] unat_u32_bound [of y] by linarith
  then have "x \<noteq> 0xffffffff" by auto
  then show u: "unat (x + 1) = unat x + 1" by (rule unat_plus_1)
  then show "x + 1 \<le> y" using assms by (simp add: word_le_nat_alt word_less_nat_alt)
qed

end
