(* ===== verification/FosLinks.thy ===== *)
theory FosLinks
  imports FosPrelude
begin

text \<open>
  \<^verbatim>\<open>kernel/list.c\<close> and \<^verbatim>\<open>kernel/include/list.h\<close>: the intrusive doubly linked
  lists every kernel object is threaded on. A \<^verbatim>\<open>LIST\<close> node is a pair of nullable
  pointers; the last node of a list points to itself, and the \<open>prev\<close> field of a head is
  never maintained. The store is a function from node addresses to nodes; \<open>None\<close> is the
  NULL pointer as a field value and a fault as a result.

  The second half relates the store to the lists it holds (\<open>lrep\<close>), gives the effect of
  each operation on them, and lifts that to a store that holds many disjoint lists at once
  (\<open>store_rep\<close>), the view that the kernel components use.
\<close>

subsection \<open>Nodes and the store\<close>

record 'a links =
  prv :: "'a option"
  nxt :: "'a option"

type_synonym 'a lheap = "'a \<Rightarrow> 'a links"

definition set_nxt :: "'a \<Rightarrow> 'a option \<Rightarrow> 'a lheap \<Rightarrow> 'a lheap" where
  "set_nxt a v h = h(a := (h a)\<lparr>nxt := v\<rparr>)"

definition set_prv :: "'a \<Rightarrow> 'a option \<Rightarrow> 'a lheap \<Rightarrow> 'a lheap" where
  "set_prv a v h = h(a := (h a)\<lparr>prv := v\<rparr>)"

subsection \<open>The operations of list.c\<close>

definition list_init :: "'a \<Rightarrow> 'a lheap \<Rightarrow> 'a lheap" where
  "list_init head h = set_prv head (Some head) (set_nxt head (Some head) h)"

definition is_list_last :: "'a lheap \<Rightarrow> 'a \<Rightarrow> bool" where
  "is_list_last h head \<longleftrightarrow> nxt (h head) = Some head"

definition is_list_empty :: "'a lheap \<Rightarrow> 'a \<Rightarrow> bool" where
  "is_list_empty h l \<longleftrightarrow> nxt (h l) = Some l"

definition list_insert :: "'a \<Rightarrow> 'a \<Rightarrow> 'a lheap \<Rightarrow> 'a lheap" where
  "list_insert head node h =
     (let h = set_nxt node (Some node) h;
          h = set_prv node (Some head) h
      in set_nxt head (Some node) h)"

definition list_insert_spec :: "'a \<Rightarrow> 'a \<Rightarrow> 'a lheap \<Rightarrow> 'a lheap option" where
  "list_insert_spec head node h =
     (if is_list_last h head then Some (list_insert head node h)
      else do {
        let h = set_nxt node (nxt (h head)) h;
        let h = set_prv node (Some head) h;
        s \<leftarrow> nxt (h head);
        let h = set_prv s (Some node) h;
        Some (set_nxt head (Some node) h)
      })"

definition list_delete :: "'a \<Rightarrow> 'a lheap \<Rightarrow> 'a lheap option" where
  "list_delete node h =
     (if is_list_last h node then do {
        p \<leftarrow> prv (h node);
        Some (set_nxt p (Some p) h)
      } else do {
        p \<leftarrow> prv (h node);
        let h = set_nxt p (nxt (h node)) h;
        n \<leftarrow> nxt (h node);
        Some (set_prv n (prv (h node)) h)
      })"

text \<open>The loop of \<^verbatim>\<open>list_insert_behind\<close>: walk to the self-looping last node. On a
  store whose \<open>next\<close> pointers form a longer cycle it does not return.\<close>

partial_function (option) list_walk_last :: "'a lheap \<Rightarrow> 'a \<Rightarrow> 'a option" where
  "list_walk_last h l =
     (if is_list_last h l then Some l
      else Option.bind (nxt (h l)) (\<lambda>m. list_walk_last h m))"

definition list_insert_behind :: "'a \<Rightarrow> 'a \<Rightarrow> 'a lheap \<Rightarrow> 'a lheap option" where
  "list_insert_behind head node h = do {
     l \<leftarrow> list_walk_last h head;
     Some (list_insert l node h)
   }"

subsection \<open>The list a head holds\<close>

definition linked :: "'a lheap \<Rightarrow> 'a \<Rightarrow> 'a \<Rightarrow> bool" where
  "linked h x y \<longleftrightarrow> nxt (h x) = Some y \<and> prv (h y) = Some x"

text \<open>\<open>lrep h q xs\<close>: from the head \<open>q\<close> the store \<open>h\<close> holds exactly the nodes
  \<open>xs\<close>, linked in both directions, the last of them (or the head of an empty list)
  pointing to itself.\<close>

definition lrep :: "'a lheap \<Rightarrow> 'a \<Rightarrow> 'a list \<Rightarrow> bool" where
  "lrep h q xs \<longleftrightarrow>
     distinct (q # xs) \<and> successively (linked h) (q # xs) \<and>
     is_list_last h (last (q # xs))"

lemma set_nxt_simps [simp]:
  "nxt (set_nxt a v h b) = (if a = b then v else nxt (h b))"
  "prv (set_nxt a v h b) = prv (h b)"
  by (auto simp: set_nxt_def)

lemma set_prv_simps [simp]:
  "prv (set_prv a v h b) = (if a = b then v else prv (h b))"
  "nxt (set_prv a v h b) = nxt (h b)"
  by (auto simp: set_prv_def)

lemma set_nxt_other [simp]: "a \<noteq> b \<Longrightarrow> set_nxt a v h b = h b"
  by (simp add: set_nxt_def)

lemma set_prv_other [simp]: "a \<noteq> b \<Longrightarrow> set_prv a v h b = h b"
  by (simp add: set_prv_def)

text \<open>Two stores link a node sequence alike when they agree on the \<open>next\<close> fields of all
  but its last node and on the \<open>prev\<close> fields of all but its first.\<close>

lemma successively_linked_frame:
  assumes "successively (linked h) xs"
    and "\<And>a. a \<in> set (butlast xs) \<Longrightarrow> nxt (h' a) = nxt (h a)"
    and "\<And>a. a \<in> set (tl xs) \<Longrightarrow> prv (h' a) = prv (h a)"
  shows "successively (linked h') xs"
  using assms
proof (induction xs rule: induct_list012)
  case (3 x y zs)
  then have "successively (linked h') (y # zs)" by (cases zs) auto
  with 3 show ?case by (simp add: linked_def)
qed auto

lemma distinct_last_butlast: "distinct xs \<Longrightarrow> xs \<noteq> [] \<Longrightarrow> last xs \<notin> set (butlast xs)"
  by (metis append_butlast_last_id distinct_append disjoint_iff list.set_intros(1))

lemma successively_linked_cong:
  "(\<And>a. a \<in> set xs \<Longrightarrow> h' a = h a) \<Longrightarrow>
     successively (linked h') xs = successively (linked h) xs"
  by (induction xs rule: induct_list012) (auto simp: linked_def)

lemma lrep_cong:
  assumes "\<And>a. a \<in> set (q # xs) \<Longrightarrow> h' a = h a"
  shows "lrep h' q xs = lrep h q xs"
proof -
  have "h' (last (q # xs)) = h (last (q # xs))"
    by (rule assms, rule last_in_set) simp
  then show ?thesis
    using successively_linked_cong [of "q # xs" h' h] assms
    by (simp only: lrep_def is_list_last_def)
qed

lemma lrep_Nil: "lrep h q [] \<longleftrightarrow> is_list_last h q"
  by (simp add: lrep_def)

lemma lrep_Cons:
  "lrep h q (x # xs) \<longleftrightarrow> q \<noteq> x \<and> q \<notin> set xs \<and> linked h q x \<and> lrep h x xs"
  by (auto simp: lrep_def)

lemma lrep_is_last_iff: "lrep h q xs \<Longrightarrow> is_list_last h q \<longleftrightarrow> xs = []"
  by (cases xs) (auto simp: lrep_def linked_def is_list_last_def)

lemma lrep_first: "lrep h q (x # xs) \<Longrightarrow> nxt (h q) = Some x"
  by (simp add: lrep_Cons linked_def)

lemma lrep_suffix: "lrep h q (as @ x # bs) \<Longrightarrow> lrep h x bs"
  by (induction as arbitrary: q) (auto simp: lrep_Cons)

lemma lrep_node_last_iff:
  "lrep h q (as @ x # bs) \<Longrightarrow> is_list_last h x \<longleftrightarrow> bs = []"
  using lrep_suffix lrep_is_last_iff by fastforce

lemma lrep_unique: "lrep h q xs \<Longrightarrow> lrep h q ys \<Longrightarrow> xs = ys"
proof (induction xs arbitrary: q ys)
  case Nil
  then show ?case by (cases ys) (auto simp: lrep_def linked_def is_list_last_def)
next
  case (Cons x xs)
  then show ?case
    by (cases ys) (auto simp: lrep_Cons lrep_Nil linked_def is_list_last_def)
qed

subsection \<open>Effect of each operation on one list\<close>

lemma list_init_lrep: "lrep (list_init q h) q []"
  by (simp add: lrep_Nil is_list_last_def list_init_def)

lemma list_init_other: "a \<noteq> q \<Longrightarrow> list_init q h a = h a"
  by (simp add: list_init_def)

text \<open>The walk of \<open>list_insert_behind\<close> returns on every list.\<close>

lemma list_walk_last_lrep: "lrep h q xs \<Longrightarrow> list_walk_last h q = Some (last (q # xs))"
proof (induction xs arbitrary: q)
  case Nil
  then show ?case by (simp add: list_walk_last.simps lrep_Nil)
next
  case (Cons x xs)
  then have "\<not> is_list_last h q" and "nxt (h q) = Some x" and "lrep h x xs"
    by (auto simp: lrep_Cons linked_def is_list_last_def)
  with Cons.IH show ?case by (subst list_walk_last.simps) simp
qed

lemma list_insert_last_lrep:
  assumes "lrep h q xs" "x \<notin> set (q # xs)"
  shows "lrep (list_insert (last (q # xs)) x h) q (xs @ [x])"
proof -
  let ?l = "last (q # xs)" and ?h = "list_insert (last (q # xs)) x h"
  have d: "distinct (q # xs)" and s: "successively (linked h) (q # xs)"
    using assms(1) by (simp_all only: lrep_def)
  have lx: "?l \<noteq> x" using assms(2) last_in_set [of "q # xs"] by (metis list.distinct(1))
  have "?l \<notin> set (butlast (q # xs))" by (rule distinct_last_butlast [OF d]) simp
  moreover have "x \<notin> set (butlast (q # xs))" using assms(2) by (blast dest: in_set_butlastD)
  ultimately have "successively (linked ?h) (q # xs)"
    using assms(2)
    by (intro successively_linked_frame [OF s]) (auto simp: list_insert_def simp del: last.simps)
  moreover have "linked ?h ?l x" "is_list_last ?h x"
    using lx by (simp_all add: linked_def is_list_last_def list_insert_def del: last.simps)
  ultimately have "successively (linked ?h) ((q # xs) @ [x])"
    by (subst successively_append_iff) simp
  with assms(2) d \<open>is_list_last ?h x\<close> show ?thesis by (auto simp: lrep_def)
qed

lemma list_insert_behind_lrep:
  assumes "lrep h q xs" "x \<notin> set (q # xs)"
  shows "\<exists>h'. list_insert_behind q x h = Some h' \<and> lrep h' q (xs @ [x]) \<and>
    (\<forall>a. a \<notin> set (q # xs @ [x]) \<longrightarrow> h' a = h a)"
proof -
  have l: "last (q # xs) \<in> set (q # xs)" by (rule last_in_set) simp
  have "list_insert_behind q x h = Some (list_insert (last (q # xs)) x h)"
    using list_walk_last_lrep [OF assms(1)] by (simp add: list_insert_behind_def)
  moreover have "a \<notin> set (q # xs @ [x]) \<Longrightarrow> list_insert (last (q # xs)) x h a = h a" for a
    using l by (auto simp: list_insert_def Let_def set_nxt_def set_prv_def)
  ultimately show ?thesis
    using list_insert_last_lrep [OF assms] by blast
qed

lemma list_insert_spec_lrep:
  assumes "lrep h q xs" "x \<notin> set (q # xs)"
  shows "\<exists>h'. list_insert_spec q x h = Some h' \<and> lrep h' q (x # xs) \<and>
    (\<forall>a. a \<notin> set (q # x # xs) \<longrightarrow> h' a = h a)"
proof (cases xs)
  case Nil
  then have "list_insert_spec q x h = Some (list_insert q x h)"
    using assms(1) by (simp add: list_insert_spec_def lrep_Nil)
  moreover have "a \<notin> set (q # x # xs) \<Longrightarrow> list_insert q x h a = h a" for a
    by (auto simp: list_insert_def Let_def)
  ultimately show ?thesis
    using list_insert_last_lrep [of h q "[]" x] assms Nil by simp
next
  case (Cons y ys)
  define h' where
    "h' = set_nxt q (Some x) (set_prv y (Some x) (set_prv x (Some q) (set_nxt x (Some y) h)))"
  have n: "nxt (h' a) = (if a = q then Some x else if a = x then Some y else nxt (h a))"
    and p: "prv (h' a) = (if a = y then Some x else if a = x then Some q else prv (h a))" for a
    by (auto simp: h'_def)
  from assms Cons have ne: "x \<noteq> q" "x \<noteq> y" "q \<noteq> y" "x \<notin> set ys" "q \<notin> set ys" "y \<notin> set ys"
    and y: "lrep h y ys" and qy: "nxt (h q) = Some y"
    by (auto simp: lrep_Cons lrep_def linked_def)
  have "list_insert_spec q x h = Some h'"
    using ne qy by (simp add: list_insert_spec_def is_list_last_def h'_def)
  moreover from y have "successively (linked h) (y # ys)" by (simp add: lrep_def)
  then have "successively (linked h') (y # ys)"
    by (rule successively_linked_frame)
      (use ne in \<open>auto simp: n p split: if_splits dest: in_set_butlastD\<close>)
  then have "lrep h' y ys"
    using y ne last_in_set [of "y # ys"] by (auto simp: lrep_def is_list_last_def n)
  then have "lrep h' q (x # xs)"
    using ne Cons by (simp add: lrep_Cons linked_def n p)
  moreover have "a \<notin> set (q # x # xs) \<Longrightarrow> h' a = h a" for a
    using Cons by (simp add: h'_def set_nxt_def set_prv_def)
  ultimately show ?thesis by blast
qed

lemma list_delete_lrep:
  assumes "lrep h q (as @ x # bs)"
  shows "\<exists>h'. list_delete x h = Some h' \<and> lrep h' q (as @ bs) \<and>
    (\<forall>a. a \<notin> set (q # as @ bs) \<longrightarrow> h' a = h a)"
proof -
  let ?p = "last (q # as)"
  have d: "distinct ((q # as) @ x # bs)" and s: "successively (linked h) ((q # as) @ x # bs)"
    and e: "is_list_last h (last (x # bs))"
    using assms by (simp_all add: lrep_def)
  from s have pre: "successively (linked h) (q # as)" and link: "linked h ?p x"
    by (simp_all only: successively_append_iff) (simp_all split: if_splits)
  from link have px: "prv (h x) = Some ?p" and pn: "nxt (h ?p) = Some x"
    by (simp_all add: linked_def)
  have pin: "?p \<in> set (q # as)" by (rule last_in_set) simp
  with d have pnx: "?p \<noteq> x" "?p \<notin> set bs" by auto
  have pbut: "?p \<notin> set (butlast (q # as))"
    using d by (metis append_butlast_last_id distinct_append distinct.simps(2) disjoint_iff
        list.distinct(1) list.set_intros(1))
  show ?thesis
  proof (cases bs)
    case Nil
    then have "is_list_last h x" using e by simp
    then have "list_delete x h = Some (set_nxt ?p (Some ?p) h)"
      by (simp add: list_delete_def px)
    moreover have "successively (linked (set_nxt ?p (Some ?p) h)) (q # as)"
      using pbut by (intro successively_linked_frame [OF pre]) (auto simp del: last.simps)
    then have "lrep (set_nxt ?p (Some ?p) h) q as"
      using d by (simp add: lrep_def is_list_last_def)
    ultimately show ?thesis using Nil pin by (metis append_Nil2 set_nxt_other)
  next
    case (Cons y ys)
    let ?h = "set_prv y (Some ?p) (set_nxt ?p (Some y) h)"
    from s Cons have xy: "nxt (h x) = Some y" and yys: "successively (linked h) (y # ys)"
      by (simp_all only: successively_append_iff) (simp_all add: linked_def split: if_splits)
    from d Cons have ny: "x \<noteq> y" "y \<notin> set (q # as)" "y \<notin> set ys" "?p \<notin> set (y # ys)"
      using pnx by auto
    have "list_delete x h = Some ?h"
      using xy px pnx ny by (simp add: list_delete_def is_list_last_def)
    moreover have "successively (linked ?h) (q # as)"
      using pbut ny by (intro successively_linked_frame [OF pre]) (auto simp del: last.simps)
    moreover have "successively (linked ?h) (y # ys)"
      using ny by (intro successively_linked_frame [OF yys])
        (auto simp del: last.simps split: if_splits dest: in_set_butlastD)
    moreover have "linked ?h ?p y" by (simp add: linked_def)
    moreover have "nxt (?h (last (y # ys))) = nxt (h (last (y # ys)))"
      using ny last_in_set [of "y # ys"] by (metis list.distinct(1) set_nxt_simps(1) set_prv_simps(2))
    ultimately have "list_delete x h = Some ?h \<and> lrep ?h q (as @ bs)"
      using d e Cons
      by (simp add: lrep_def is_list_last_def successively_append_iff [of _ "q # as", simplified]
          del: last.simps) (auto simp: successively_append_iff [of _ "q # as" "y # ys", simplified])
    moreover have "a \<notin> set (q # as @ bs) \<Longrightarrow> ?h a = h a" for a
      using pin Cons by (metis UnCI list.set_intros(1) set_append set_ConsD list.set_intros(2)
          set_nxt_other set_prv_other)
    ultimately show ?thesis by blast
  qed
qed

subsection \<open>A store of disjoint lists\<close>

text \<open>The abstract state of a store: for every initialised head, the nodes it holds.\<close>

type_synonym 'a lists = "'a \<rightharpoonup> 'a list"

definition unthreaded :: "'a lists \<Rightarrow> 'a \<Rightarrow> bool" where
  "unthreaded A x \<longleftrightarrow> A x = None \<and> (\<forall>q xs. A q = Some xs \<longrightarrow> x \<notin> set xs)"

definition not_member :: "'a lists \<Rightarrow> 'a \<Rightarrow> bool" where
  "not_member A x \<longleftrightarrow> (\<forall>q xs. A q = Some xs \<longrightarrow> x \<notin> set xs)"

text \<open>All nodes that are on some list.\<close>

definition members :: "'a lists \<Rightarrow> 'a set" where
  "members A = (\<Union>q \<in> dom A. set (the (A q)))"

lemma members_iff: "x \<in> members A \<longleftrightarrow> (\<exists>q xs. A q = Some xs \<and> x \<in> set xs)"
  by (force simp: members_def)

lemma members_upd: "members (A(q \<mapsto> ys)) = set ys \<union> members (A(q := None))"
proof -
  have "members (A(q \<mapsto> ys)) = (\<Union>r \<in> insert q (dom A - {q}). set (the ((A(q \<mapsto> ys)) r)))"
    by (simp add: members_def)
  also have "\<dots> = set ys \<union> (\<Union>r \<in> dom A - {q}. set (the (A r)))"
    by (subst UN_insert) (auto split: if_splits)
  finally show ?thesis by (simp add: members_def)
qed

lemma members_split: "A q = Some xs \<Longrightarrow> members A = set xs \<union> members (A(q := None))"
  using members_upd [of A q xs] by (simp add: map_upd_triv)

lemma members_permute: "A q = Some xs \<Longrightarrow> set ys = set xs \<Longrightarrow> members (A(q \<mapsto> ys)) = members A"
  by (simp add: members_upd members_split)

lemma members_move:
  assumes "A q = Some xs" "A r = Some ys" "q \<noteq> r"
    and "set xs = insert x (set xs')" "set ys' = insert x (set ys)"
  shows "members (A(q \<mapsto> xs', r \<mapsto> ys')) = members A"
proof -
  have "members (A(q \<mapsto> xs', r \<mapsto> ys')) = set ys' \<union> set xs' \<union> members (A(r := None, q := None))"
    using assms(3) members_upd [of "A(r := None)" q xs'] members_upd [of "A(q \<mapsto> xs')" r ys']
    by (simp add: fun_upd_twist [of q r A "Some xs'" None] Un_assoc)
  moreover have "members A = set xs \<union> set ys \<union> members (A(r := None, q := None))"
    using assms(1-3) members_split [of A r ys] members_split [of "A(r := None)" q xs] by auto
  ultimately show ?thesis using assms(4,5) by auto
qed

lemma unthreaded_iff: "unthreaded A x \<longleftrightarrow> A x = None \<and> x \<notin> members A"
  by (auto simp: unthreaded_def members_iff)

definition store_rep :: "'a lheap \<Rightarrow> 'a lists \<Rightarrow> bool" where
  "store_rep h A \<longleftrightarrow>
     (\<forall>q xs. A q = Some xs \<longrightarrow> lrep h q xs) \<and>
     (\<forall>q xs r ys. A q = Some xs \<longrightarrow> A r = Some ys \<longrightarrow> q \<noteq> r \<longrightarrow>
        set (q # xs) \<inter> set (r # ys) = {})"

lemma unthreaded_not_member: "unthreaded A x \<Longrightarrow> not_member A x"
  by (simp add: unthreaded_def not_member_def)

lemma store_rep_lrep: "store_rep h A \<Longrightarrow> A q = Some xs \<Longrightarrow> lrep h q xs"
  by (simp add: store_rep_def)

lemma store_rep_disjoint:
  "store_rep h A \<Longrightarrow> A q = Some xs \<Longrightarrow> A r = Some ys \<Longrightarrow> q \<noteq> r \<Longrightarrow>
     set (q # xs) \<inter> set (r # ys) = {}"
  unfolding store_rep_def by blast

lemma store_rep_distinct: "store_rep h A \<Longrightarrow> A q = Some xs \<Longrightarrow> distinct xs \<and> q \<notin> set xs"
  by (auto simp: store_rep_def lrep_def)

lemma store_rep_same_list:
  "store_rep h A \<Longrightarrow> A q = Some xs \<Longrightarrow> A r = Some ys \<Longrightarrow> x \<in> set xs \<Longrightarrow> x \<in> set ys \<Longrightarrow> q = r"
  using store_rep_disjoint [of h A q xs r ys] by fastforce

lemma store_rep_head_not_member:
  "store_rep h A \<Longrightarrow> A q = Some xs \<Longrightarrow> A r = Some ys \<Longrightarrow> q \<notin> set ys"
  using store_rep_disjoint [of h A q xs r ys] store_rep_distinct [of h A q xs] by fastforce

text \<open>The one step all updates share: list \<open>q\<close> becomes \<open>ys\<close>, nodes outside the old and
  the new list keep their cells, and the new nodes were in no other list.\<close>

lemma store_rep_update:
  assumes "store_rep h A"
    and "lrep h' q ys"
    and "\<And>a. a \<notin> set (q # ys) \<Longrightarrow> a \<notin> W \<Longrightarrow> h' a = h a"
    and "\<And>r zs. A r = Some zs \<Longrightarrow> r \<noteq> q \<Longrightarrow> (set (q # ys) \<union> W) \<inter> set (r # zs) = {}"
  shows "store_rep h' (A(q \<mapsto> ys))"
proof -
  have "lrep h' r zs" if "A r = Some zs" "r \<noteq> q" for r zs
  proof -
    have "\<And>a. a \<in> set (r # zs) \<Longrightarrow> h' a = h a"
      using assms(3,4) that by (metis UnCI disjoint_iff)
    then show ?thesis using lrep_cong store_rep_lrep [OF assms(1) that(1)] by metis
  qed
  moreover have "set (q # ys) \<inter> set (r # zs) = {}" if "A r = Some zs" "r \<noteq> q" for r zs
    using assms(4) [OF that] by blast
  ultimately show ?thesis
    using assms(1,2) unfolding store_rep_def
    by (auto split: if_splits) blast+
qed

lemma list_init_store:
  assumes "store_rep h A" "not_member A q"
  shows "store_rep (list_init q h) (A(q \<mapsto> []))"
  by (rule store_rep_update [OF assms(1), where W = "{}"])
    (use assms(2) in \<open>auto simp: list_init_lrep list_init_other not_member_def\<close>)

lemma list_insert_behind_store:
  assumes "store_rep h A" "A q = Some xs" "unthreaded A x"
  shows "\<exists>h'. list_insert_behind q x h = Some h' \<and> store_rep h' (A(q \<mapsto> xs @ [x]))"
proof -
  have x: "x \<notin> set (q # xs)" using assms(2,3) by (auto simp: unthreaded_def)
  obtain h' where h': "list_insert_behind q x h = Some h'" "lrep h' q (xs @ [x])"
      "\<forall>a. a \<notin> set (q # xs @ [x]) \<longrightarrow> h' a = h a"
    using list_insert_behind_lrep [OF store_rep_lrep [OF assms(1,2)] x] by blast
  have "store_rep h' (A(q \<mapsto> xs @ [x]))"
    by (rule store_rep_update [OF assms(1) h'(2), where W = "{}"])
      (use h'(3) assms(3) store_rep_disjoint [OF assms(1,2)] in \<open>auto simp: unthreaded_def\<close>)
  with h'(1) show ?thesis by blast
qed

lemma list_insert_spec_store:
  assumes "store_rep h A" "A q = Some xs" "unthreaded A x"
  shows "\<exists>h'. list_insert_spec q x h = Some h' \<and> store_rep h' (A(q \<mapsto> x # xs))"
proof -
  have x: "x \<notin> set (q # xs)" using assms(2,3) by (auto simp: unthreaded_def)
  obtain h' where h': "list_insert_spec q x h = Some h'" "lrep h' q (x # xs)"
      "\<forall>a. a \<notin> set (q # x # xs) \<longrightarrow> h' a = h a"
    using list_insert_spec_lrep [OF store_rep_lrep [OF assms(1,2)] x] by blast
  have "store_rep h' (A(q \<mapsto> x # xs))"
    by (rule store_rep_update [OF assms(1) h'(2), where W = "{}"])
      (use h'(3) assms(3) store_rep_disjoint [OF assms(1,2)] in \<open>auto simp: unthreaded_def\<close>)
  with h'(1) show ?thesis by blast
qed

lemma list_delete_store:
  assumes "store_rep h A" "A q = Some (as @ x # bs)"
  shows "\<exists>h'. list_delete x h = Some h' \<and> store_rep h' (A(q \<mapsto> as @ bs))"
proof -
  obtain h' where h': "list_delete x h = Some h'" "lrep h' q (as @ bs)"
      "\<forall>a. a \<notin> set (q # as @ bs) \<longrightarrow> h' a = h a"
    using list_delete_lrep [OF store_rep_lrep [OF assms]] by blast
  have "store_rep h' (A(q \<mapsto> as @ bs))"
    by (rule store_rep_update [OF assms(1) h'(2), where W = "{}"])
      (use h'(3) store_rep_disjoint [OF assms] in auto)
  with h'(1) show ?thesis by blast
qed

subsection \<open>The list interface\<close>

text \<open>What the kernel components rely on: a representation relation and four operations.
  \<open>enq\<close> is \<^verbatim>\<open>list_insert_behind\<close>, \<open>push\<close> is \<^verbatim>\<open>list_insert_spec\<close>, \<open>del\<close> is
  \<^verbatim>\<open>list_delete\<close>. The derived laws (moving a node between lists, rotating a list) are
  proved from the contract alone.\<close>

locale list_store =
  fixes rep :: "'h \<Rightarrow> 'a lists \<Rightarrow> bool"
    and init :: "'a \<Rightarrow> 'h \<Rightarrow> 'h"
    and enq :: "'a \<Rightarrow> 'a \<Rightarrow> 'h \<Rightarrow> 'h option"
    and push :: "'a \<Rightarrow> 'a \<Rightarrow> 'h \<Rightarrow> 'h option"
    and del :: "'a \<Rightarrow> 'h \<Rightarrow> 'h option"
  assumes rep_distinct: "rep h A \<Longrightarrow> A q = Some xs \<Longrightarrow> distinct xs \<and> q \<notin> set xs"
    and rep_disjoint: "rep h A \<Longrightarrow> A q = Some xs \<Longrightarrow> A r = Some ys \<Longrightarrow> q \<noteq> r \<Longrightarrow>
      set (q # xs) \<inter> set (r # ys) = {}"
    and init_law: "rep h A \<Longrightarrow> not_member A q \<Longrightarrow> rep (init q h) (A(q \<mapsto> []))"
    and enq_law: "rep h A \<Longrightarrow> A q = Some xs \<Longrightarrow> unthreaded A x \<Longrightarrow>
      \<exists>h'. enq q x h = Some h' \<and> rep h' (A(q \<mapsto> xs @ [x]))"
    and push_law: "rep h A \<Longrightarrow> A q = Some xs \<Longrightarrow> unthreaded A x \<Longrightarrow>
      \<exists>h'. push q x h = Some h' \<and> rep h' (A(q \<mapsto> x # xs))"
    and del_law: "rep h A \<Longrightarrow> A q = Some (as @ x # bs) \<Longrightarrow>
      \<exists>h'. del x h = Some h' \<and> rep h' (A(q \<mapsto> as @ bs))"
begin

lemma unthreaded_after_del:
  assumes "rep h A" "A q = Some (as @ x # bs)"
  shows "unthreaded (A(q \<mapsto> as @ bs)) x"
proof -
  have "distinct (as @ x # bs)" "q \<notin> set (as @ x # bs)"
    using rep_distinct [OF assms] by blast+
  moreover have "A x = None"
  proof (cases "A x")
    case (Some ys)
    moreover have "x \<noteq> q" using \<open>q \<notin> set (as @ x # bs)\<close> by auto
    ultimately show ?thesis using rep_disjoint [OF assms Some] by auto
  qed
  moreover have "x \<notin> set ys" if "A r = Some ys" "r \<noteq> q" for r ys
    using rep_disjoint [OF assms that(1)] that(2) by auto
  ultimately show ?thesis by (auto simp: unthreaded_def)
qed

lemma move_to_tail:
  assumes "rep h A" "A q = Some (as @ x # bs)" "A r = Some ys" "q \<noteq> r"
  shows "\<exists>h'. Option.bind (del x h) (enq r x) = Some h' \<and>
    rep h' (A(q \<mapsto> as @ bs, r \<mapsto> ys @ [x]))"
proof -
  obtain h1 where h1: "del x h = Some h1" "rep h1 (A(q \<mapsto> as @ bs))"
    using del_law [OF assms(1,2)] by blast
  with assms(3,4) show ?thesis
    using enq_law [OF h1(2), of r ys x] unthreaded_after_del [OF assms(1,2)] by auto
qed

lemma move_to_front:
  assumes "rep h A" "A q = Some (as @ x # bs)" "A r = Some ys" "q \<noteq> r"
  shows "\<exists>h'. Option.bind (del x h) (push r x) = Some h' \<and>
    rep h' (A(q \<mapsto> as @ bs, r \<mapsto> x # ys))"
proof -
  obtain h1 where h1: "del x h = Some h1" "rep h1 (A(q \<mapsto> as @ bs))"
    using del_law [OF assms(1,2)] by blast
  with assms(3,4) show ?thesis
    using push_law [OF h1(2), of r ys x] unthreaded_after_del [OF assms(1,2)] by auto
qed

lemma rotate_list:
  assumes "rep h A" "A q = Some (x # xs)"
  shows "\<exists>h'. Option.bind (del x h) (enq q x) = Some h' \<and> rep h' (A(q \<mapsto> xs @ [x]))"
proof -
  have q: "A q = Some ([] @ x # xs)" using assms(2) by simp
  obtain h1 where h1: "del x h = Some h1" "rep h1 (A(q \<mapsto> xs))"
    using del_law [OF assms(1) q] by auto
  then show ?thesis
    using enq_law [OF h1(2), of q xs x] unthreaded_after_del [OF assms(1) q] by auto
qed

end

interpretation links: list_store store_rep list_init list_insert_behind list_insert_spec list_delete
proof unfold_locales
  show "\<And>h A q xs. store_rep h A \<Longrightarrow> A q = Some xs \<Longrightarrow> distinct xs \<and> q \<notin> set xs"
    by (rule store_rep_distinct)
qed (rule store_rep_disjoint list_init_store list_insert_behind_store list_insert_spec_store
  list_delete_store; assumption)+

subsection \<open>Correctness\<close>

text \<open>On any set of disjoint lists, \<open>list_insert_behind\<close> appends a free node to the list of
  the given head, \<open>list_insert_spec\<close> puts it in front, and \<open>list_delete\<close> then takes it out
  again wherever it is: all other lists stay as they are.\<close>

theorem list_insert_delete_roundtrip:
  assumes "store_rep h A" "A q = Some xs" "unthreaded A x"
  shows "(\<exists>h1 h2. list_insert_behind q x h = Some h1 \<and> store_rep h1 (A(q \<mapsto> xs @ [x])) \<and>
      list_delete x h1 = Some h2 \<and> store_rep h2 A) \<and>
    (\<exists>h1 h2. list_insert_spec q x h = Some h1 \<and> store_rep h1 (A(q \<mapsto> x # xs)) \<and>
      list_delete x h1 = Some h2 \<and> store_rep h2 A)"
proof
  have A: "A(q \<mapsto> xs) = A" using assms(2) by (simp add: fun_upd_idem)
  obtain h1 where h1: "list_insert_behind q x h = Some h1" "store_rep h1 (A(q \<mapsto> xs @ [x]))"
    using links.enq_law [OF assms] by blast
  moreover obtain h2 where "list_delete x h1 = Some h2" "store_rep h2 A"
    using links.del_law [OF h1(2), of q xs x "[]"] A by auto
  ultimately show "\<exists>h1 h2. list_insert_behind q x h = Some h1 \<and> store_rep h1 (A(q \<mapsto> xs @ [x])) \<and>
      list_delete x h1 = Some h2 \<and> store_rep h2 A" by blast
  obtain h3 where h3: "list_insert_spec q x h = Some h3" "store_rep h3 (A(q \<mapsto> x # xs))"
    using links.push_law [OF assms] by blast
  moreover obtain h4 where "list_delete x h3 = Some h4" "store_rep h4 A"
    using links.del_law [OF h3(2), of q "[]" x xs] A by auto
  ultimately show "\<exists>h1 h2. list_insert_spec q x h = Some h1 \<and> store_rep h1 (A(q \<mapsto> x # xs)) \<and>
      list_delete x h1 = Some h2 \<and> store_rep h2 A" by blast
qed

theorem list_insert_delete_roundtrip_witness:
  "let h = list_init (0 :: nat) (\<lambda>_. \<lparr>prv = None, nxt = None\<rparr>) in
    \<exists>h1 h2. list_insert_behind 0 7 h = Some h1 \<and> list_delete 7 h1 = Some h2 \<and>
      store_rep h2 [0 \<mapsto> []]"
proof -
  let ?h = "list_init (0 :: nat) (\<lambda>_. \<lparr>prv = None, nxt = None\<rparr>)"
  have r: "store_rep ?h [0 \<mapsto> []]"
    using list_init_store [of "\<lambda>_. \<lparr>prv = None, nxt = None\<rparr>" Map.empty "0 :: nat"]
    by (simp add: store_rep_def not_member_def)
  have u: "unthreaded [0 \<mapsto> []] (7 :: nat)" by (simp add: unthreaded_def)
  show ?thesis
    using list_insert_delete_roundtrip [OF r _ u, of 0 "[]"] by (auto simp: Let_def)
qed

text \<open>The walk of \<open>list_insert_behind\<close> to the last node returns on every well-formed list,
  and a list is determined by the store.\<close>

theorem list_walk_last_returns:
  assumes "lrep h q xs"
  shows "list_walk_last h q = Some (last (q # xs)) \<and> (\<forall>ys. lrep h q ys \<longrightarrow> ys = xs)"
  using list_walk_last_lrep [OF assms] lrep_unique [OF assms] by blast

theorem list_walk_last_returns_witness:
  "list_walk_last (list_init (0 :: nat) (\<lambda>_. \<lparr>prv = None, nxt = None\<rparr>)) 0 = Some 0"
  using list_walk_last_returns [OF list_init_lrep, of "0 :: nat" "\<lambda>_. \<lparr>prv = None, nxt = None\<rparr>"] by simp

end
