(* ===== verification/FosState.thy ===== *)
theory FosState
  imports FosLinks
begin

text \<open>
  The kernel's data model: the structures of \<^verbatim>\<open>kernel/include/var_define.h\<close>,
  \<^verbatim>\<open>queue.h\<close> and \<^verbatim>\<open>device.h\<close>, the globals of \<^verbatim>\<open>kernel/var_define.c\<close>,
  \<^verbatim>\<open>prio_sched.c\<close>, \<^verbatim>\<open>timer.c\<close> and \<^verbatim>\<open>device.c\<close>, and the well-formedness
  invariant of the whole state.

  Pointers are typed: a \<^verbatim>\<open>TCB*\<close> is either \<open>QTcb i\<close>, the address
  \<^verbatim>\<open>&task_prio_queue[i]\<close> of a ready-queue head, or \<open>Tcb n\<close>, any other task control
  block; NULL is \<open>None\<close>. The address of a \<^verbatim>\<open>LIST\<close> member embedded in an object is a
  constructor of \<open>klink\<close>, so \<^verbatim>\<open>list_entry\<close> is the partial inverse of that constructor:
  reading the wrong kind of object through it is a fault. Function pointers and opaque
  \<^verbatim>\<open>void*\<close> arguments are numbers; NULL functions are \<open>None\<close>.
\<close>

subsection \<open>Pointers\<close>

datatype tcbp = QTcb nat | Tcb nat

datatype tickp = TickQueue | DelayOf tcbp | Timer nat

datatype devp = DevQueue | Dev nat

datatype klink =
    TcbL tcbp
  | TickL tickp
  | SemL nat
  | MutexL nat
  | QueueL nat
  | QMsgL nat
  | MsgL nat
  | DevL devp

text \<open>\<^verbatim>\<open>list_entry(node, type, member)\<close>.\<close>

fun tcb_of_link :: "klink \<Rightarrow> tcbp option" where
  "tcb_of_link (TcbL t) = Some t"
| "tcb_of_link _ = None"

fun tick_of_link :: "klink \<Rightarrow> tickp option" where
  "tick_of_link (TickL t) = Some t"
| "tick_of_link _ = None"

fun msg_of_link :: "klink \<Rightarrow> nat option" where
  "msg_of_link (MsgL m) = Some m"
| "msg_of_link _ = None"

fun dev_of_link :: "klink \<Rightarrow> devp option" where
  "dev_of_link (DevL d) = Some d"
| "dev_of_link _ = None"

subsection \<open>Structures\<close>

text \<open>Task entry functions, and the 32-bit words of a task stack. A stack address is the stack's
  number with a word index into it.\<close>

datatype task_fn = TaskExit | IdleTask | ShellThread | UipThread | AppTask nat

datatype sword = Wd u32 | FnW task_fn

type_synonym stack_addr = "nat \<times> nat"

record TCB =
  stack_ptr :: "stack_addr option"
  tcb_name :: "string option"
  prio :: u8
  state :: u8

record TICK =
  style :: u8
  timeout :: u32
  tick_tcb :: "tcbp option"
  tick_func :: "nat option"
  func_arg :: nat
  period :: u8
  timeout_copy :: u32

record SEM =
  sem_count :: u32
  sem_name :: "string option"
  sem_tcb :: "tcbp option"

record MUTEX =
  enable :: u8
  mutex_name :: "string option"
  copy_prio :: u32
  mutex_tcb :: "tcbp option"

record QUEUE =
  q_length :: u32
  q_count :: u32
  q_name :: "string option"

record MSG =
  msg_type :: u8
  msg_length :: u32
  msg_buff :: "u8 list option"

record OPERATIONS =
  op_open :: "nat option"
  op_read :: "nat option"
  op_write :: "nat option"
  op_ioctrl :: "nat option"
  op_close :: "nat option"

record DEVICE =
  dev_enable :: u8
  dev_name :: "string option"
  dev_ops :: "nat option"
  open_count :: u8
  dev_flag :: u8

text \<open>The state: the link fields of every object (\<open>heap\<close>), the other fields per structure,
  and the globals. \<open>bm_y\<close> and \<open>bm_c\<close> are the statics \<^verbatim>\<open>y\<close> and \<^verbatim>\<open>c[8]\<close> of
  \<^verbatim>\<open>prio_sched.c\<close>; \<open>sr\<close> is the status register of the running task; \<open>switches\<close> records
  every context switch made by \<^verbatim>\<open>port_schedule\<close> and \<^verbatim>\<open>start_schedule\<close>, oldest first.\<close>

record kst =
  heap :: "klink lheap"
  tcbs :: "tcbp \<Rightarrow> TCB"
  ticks :: "tickp \<Rightarrow> TICK"
  sems :: "nat \<Rightarrow> SEM"
  mutexes :: "nat \<Rightarrow> MUTEX"
  queues :: "nat \<Rightarrow> QUEUE"
  msgs :: "nat \<Rightarrow> MSG"
  devices :: "devp \<Rightarrow> DEVICE"
  opss :: "nat \<Rightarrow> OPERATIONS"
  bm_y :: u8
  bm_c :: "u8 list"
  new_task :: "tcbp option"
  old_task :: "tcbp option"
  schedule_is_lock :: u8
  task_prio_map :: u32
  fos_tick :: u32
  device_init_times :: int
  sr :: u32
  stk :: "nat \<Rightarrow> nat \<Rightarrow> sword"
  switches :: "(tcbp option \<times> tcbp) list"

text \<open>The state of a zeroed BSS section: every pointer NULL, every number zero.\<close>

definition zero_tcb :: TCB where
  "zero_tcb = \<lparr>stack_ptr = None, tcb_name = None, prio = 0, state = 0\<rparr>"

definition zero_tick :: TICK where
  "zero_tick = \<lparr>style = 0, timeout = 0, tick_tcb = None, tick_func = None, func_arg = 0,
     period = 0, timeout_copy = 0\<rparr>"

definition bss_state :: kst where
  "bss_state = \<lparr>heap = (\<lambda>_. \<lparr>prv = None, nxt = None\<rparr>), tcbs = (\<lambda>_. zero_tcb),
     ticks = (\<lambda>_. zero_tick),
     sems = (\<lambda>_. \<lparr>sem_count = 0, sem_name = None, sem_tcb = None\<rparr>),
     mutexes = (\<lambda>_. \<lparr>enable = 0, mutex_name = None, copy_prio = 0, mutex_tcb = None\<rparr>),
     queues = (\<lambda>_. \<lparr>q_length = 0, q_count = 0, q_name = None\<rparr>),
     msgs = (\<lambda>_. \<lparr>msg_type = 0, msg_length = 0, msg_buff = None\<rparr>),
     devices = (\<lambda>_. \<lparr>dev_enable = 0, dev_name = None, dev_ops = None, open_count = 0,
       dev_flag = 0\<rparr>),
     opss = (\<lambda>_. \<lparr>op_open = None, op_read = None, op_write = None, op_ioctrl = None,
       op_close = None\<rparr>),
     bm_y = 0, bm_c = replicate 8 0, new_task = None, old_task = None, schedule_is_lock = 0,
     task_prio_map = 0, fos_tick = 0, device_init_times = 0, sr = 7, stk = (\<lambda>_ _. Wd 0), switches = []\<rparr>"

subsection \<open>Constants of var\_define.h and queue.h\<close>

abbreviation (input) "TRUE \<equiv> (1 :: u8)"
abbreviation (input) "FALSE \<equiv> (0 :: u8)"
abbreviation (input) "NO_SEMAPHORE \<equiv> (10 :: u8)"
abbreviation (input) "NO_MUTEX \<equiv> (11 :: u8)"
abbreviation (input) "NO_MSG \<equiv> (12 :: u8)"
abbreviation (input) "NO_TCB \<equiv> (13 :: u8)"
abbreviation (input) "NO_SCHED \<equiv> (14 :: u8)"
abbreviation (input) "SCHED \<equiv> (15 :: u8)"
abbreviation (input) "NO_DEVICE \<equiv> (16 :: int)"
abbreviation (input) "Q_FULL \<equiv> (10 :: u8)"
abbreviation (input) "Q_EMPTY \<equiv> (11 :: u8)"
abbreviation (input) "LIFO \<equiv> (0 :: u8)"
abbreviation (input) "FIFO \<equiv> (1 :: u8)"
abbreviation (input) "SYSTEM_WORD \<equiv> (32 :: nat)"
abbreviation (input) "SOFTWARE_TIMER \<equiv> (0 :: u8)"
abbreviation (input) "CYCLE \<equiv> (1 :: u8)"
abbreviation (input) "DELAY \<equiv> (2 :: u8)"
abbreviation (input) "TIMEOUT \<equiv> (0 :: u32)"
abbreviation (input) "PRIO_MUTEX \<equiv> (1 :: u8)"
abbreviation (input) "IDLE_STACK_SIZE \<equiv> (4096 :: u32)"

subsection \<open>The list operations on the kernel's store\<close>

definition on_heap :: "(klink lheap \<Rightarrow> klink lheap option) \<Rightarrow> kst \<Rightarrow> kst option" where
  "on_heap f k = do { h \<leftarrow> f (heap k); Some (k\<lparr>heap := h\<rparr>) }"

definition klist_init :: "klink \<Rightarrow> kst \<Rightarrow> kst" where
  "klist_init q k = k\<lparr>heap := list_init q (heap k)\<rparr>"

definition kenq :: "klink \<Rightarrow> klink \<Rightarrow> kst \<Rightarrow> kst option" where
  "kenq q x = on_heap (list_insert_behind q x)"

definition kpush :: "klink \<Rightarrow> klink \<Rightarrow> kst \<Rightarrow> kst option" where
  "kpush q x = on_heap (list_insert_spec q x)"

definition kdel :: "klink \<Rightarrow> kst \<Rightarrow> kst option" where
  "kdel x = on_heap (list_delete x)"

definition klast :: "kst \<Rightarrow> klink \<Rightarrow> bool" where
  "klast k q = is_list_last (heap k) q"

definition knext :: "kst \<Rightarrow> klink \<Rightarrow> klink option" where
  "knext k q = nxt (heap k q)"

text \<open>The kernel store is an instance of the list interface.\<close>

definition krep :: "kst \<Rightarrow> klink lists \<Rightarrow> bool" where
  "krep k A \<longleftrightarrow> store_rep (heap k) A"

interpretation kl: list_store krep klist_init kenq kpush kdel
proof unfold_locales
  fix k A q xs
  assume r: "krep k A" and q: "A q = Some xs"
  show "distinct xs \<and> q \<notin> set xs"
    using r q unfolding krep_def by (rule store_rep_distinct)
  show "set (q # xs) \<inter> set (r # ys) = {}" if "A r = Some ys" "q \<noteq> r" for r ys
    using r q that unfolding krep_def by (rule store_rep_disjoint)
  show "\<exists>k'. kenq q x k = Some k' \<and> krep k' (A(q \<mapsto> xs @ [x]))" if "unthreaded A x" for x
    using list_insert_behind_store [of "heap k" A q xs x] r q that
    by (auto simp: krep_def kenq_def on_heap_def)
  show "\<exists>k'. kpush q x k = Some k' \<and> krep k' (A(q \<mapsto> x # xs))" if "unthreaded A x" for x
    using list_insert_spec_store [of "heap k" A q xs x] r q that
    by (auto simp: krep_def kpush_def on_heap_def)
next
  fix k A q as x bs
  assume "krep k A" "A q = Some (as @ x # bs)"
  then show "\<exists>k'. kdel x k = Some k' \<and> krep k' (A(q \<mapsto> as @ bs))"
    using list_delete_store [of "heap k" A q as x bs]
    by (auto simp: krep_def kdel_def on_heap_def)
next
  fix k A q
  assume "krep k A" "not_member A q"
  then show "krep (klist_init q k) (A(q \<mapsto> []))"
    using list_init_store [of "heap k" A q] by (simp add: krep_def klist_init_def)
qed

text \<open>A list operation changes the link fields and nothing else.\<close>

definition same_but_heap :: "kst \<Rightarrow> kst \<Rightarrow> bool" where
  "same_but_heap k k' \<longleftrightarrow> k' = k\<lparr>heap := heap k'\<rparr>"

lemma klist_frame:
  "kenq q x k = Some k' \<Longrightarrow> same_but_heap k k'"
  "kpush q x k = Some k' \<Longrightarrow> same_but_heap k k'"
  "kdel x k = Some k' \<Longrightarrow> same_but_heap k k'"
  "same_but_heap k (klist_init q k)"
  by (auto simp: same_but_heap_def kenq_def kpush_def kdel_def klist_init_def on_heap_def
      elim!: bind_SomeE)

lemma same_but_heap_sel:
  assumes "same_but_heap k k'"
  shows "tcbs k' = tcbs k" "ticks k' = ticks k" "sems k' = sems k" "mutexes k' = mutexes k"
    "queues k' = queues k" "msgs k' = msgs k" "devices k' = devices k" "opss k' = opss k"
    "bm_y k' = bm_y k" "bm_c k' = bm_c k" "new_task k' = new_task k" "old_task k' = old_task k"
    "schedule_is_lock k' = schedule_is_lock k" "task_prio_map k' = task_prio_map k"
    "fos_tick k' = fos_tick k" "device_init_times k' = device_init_times k" "sr k' = sr k"
    "stk k' = stk k" "switches k' = switches k"
  using assms unfolding same_but_heap_def
  by (metis (no_types) kst.select_convs kst.surjective kst.update_convs(1))+

lemma klast_iff: "krep k A \<Longrightarrow> A q = Some xs \<Longrightarrow> klast k q \<longleftrightarrow> xs = []"
  by (simp add: krep_def klast_def store_rep_lrep lrep_is_last_iff)

lemma knext_first: "krep k A \<Longrightarrow> A q = Some (x # xs) \<Longrightarrow> knext k q = Some x"
  using store_rep_lrep lrep_first by (fastforce simp: krep_def knext_def)

lemma klast_node_iff: "krep k A \<Longrightarrow> A q = Some (as @ x # bs) \<Longrightarrow> klast k x \<longleftrightarrow> bs = []"
  using store_rep_lrep lrep_node_last_iff by (fastforce simp: krep_def klast_def)

lemma krep_heap_cong: "heap k' = heap k \<Longrightarrow> krep k' A = krep k A"
  by (simp add: krep_def)

end
