(* ===== verification/FosReady.thy ===== *)
theory FosReady
  imports FosState
begin

text \<open>
  \<^verbatim>\<open>kernel/prio_sched.c\<close>: the two-level priority bitmap with its first-set-bit table,
  the 32 ready queues, and the scheduler; with the interrupt primitives of the or1ksim port
  (\<^verbatim>\<open>cpu/or1ksim/interrupt.c\<close>), the port that really masks interrupts. The build's
  default \<^verbatim>\<open>MAPTABLE\<close> variant is modelled as the code and the \<^verbatim>\<open>#else\<close> bit scan as its
  reference.
\<close>

subsection \<open>Interrupt masking\<close>

definition SPR_SR_TEE :: u32 where "SPR_SR_TEE = 2"
definition SPR_SR_IEE :: u32 where "SPR_SR_IEE = 4"

definition interrupt_disable :: "kst \<Rightarrow> u32 \<times> kst" where
  "interrupt_disable k = (sr k, k\<lparr>sr := sr k AND NOT (SPR_SR_IEE OR SPR_SR_TEE)\<rparr>)"

definition interrupt_enable :: "u32 \<Rightarrow> kst \<Rightarrow> kst" where
  "interrupt_enable cpu_sr k = k\<lparr>sr := cpu_sr\<rparr>"

subsection \<open>The bitmap\<close>

definition bitmap :: "nat list" where
  "bitmap = [
     0, 0, 1, 0, 2, 0, 1, 0, 3, 0, 1, 0, 2, 0, 1, 0,
     4, 0, 1, 0, 2, 0, 1, 0, 3, 0, 1, 0, 2, 0, 1, 0,
     5, 0, 1, 0, 2, 0, 1, 0, 3, 0, 1, 0, 2, 0, 1, 0,
     4, 0, 1, 0, 2, 0, 1, 0, 3, 0, 1, 0, 2, 0, 1, 0,
     6, 0, 1, 0, 2, 0, 1, 0, 3, 0, 1, 0, 2, 0, 1, 0,
     4, 0, 1, 0, 2, 0, 1, 0, 3, 0, 1, 0, 2, 0, 1, 0,
     5, 0, 1, 0, 2, 0, 1, 0, 3, 0, 1, 0, 2, 0, 1, 0,
     4, 0, 1, 0, 2, 0, 1, 0, 3, 0, 1, 0, 2, 0, 1, 0,
     7, 0, 1, 0, 2, 0, 1, 0, 3, 0, 1, 0, 2, 0, 1, 0,
     4, 0, 1, 0, 2, 0, 1, 0, 3, 0, 1, 0, 2, 0, 1, 0,
     5, 0, 1, 0, 2, 0, 1, 0, 3, 0, 1, 0, 2, 0, 1, 0,
     4, 0, 1, 0, 2, 0, 1, 0, 3, 0, 1, 0, 2, 0, 1, 0,
     6, 0, 1, 0, 2, 0, 1, 0, 3, 0, 1, 0, 2, 0, 1, 0,
     4, 0, 1, 0, 2, 0, 1, 0, 3, 0, 1, 0, 2, 0, 1, 0,
     5, 0, 1, 0, 2, 0, 1, 0, 3, 0, 1, 0, 2, 0, 1, 0,
     4, 0, 1, 0, 2, 0, 1, 0, 3, 0, 1, 0, 2, 0, 1, 0]"

text \<open>The priority is a \<^verbatim>\<open>U8\<close> widened to \<^verbatim>\<open>int\<close>, so \<^verbatim>\<open>prio & 0x7\<close> is \<open>mod 8\<close> and
  \<^verbatim>\<open>prio >> 3\<close> is \<open>div 8\<close>; \<^verbatim>\<open>c\<close> has eight bytes, an index beyond them is a fault.\<close>

definition bitmap_set :: "u8 \<Rightarrow> kst \<Rightarrow> kst option" where
  "bitmap_set p k =
     (let a = unat p mod 8; b = unat p div 8 in do {
        guard (b < 8);
        let k = k\<lparr>bm_c := (bm_c k)[b := bm_c k ! b OR push_bit a 1]\<rparr>;
        Some (k\<lparr>bm_y := bm_y k OR push_bit b 1\<rparr>)
      })"

definition bitmap_get :: "kst \<Rightarrow> nat" where
  "bitmap_get k =
     (let b = bitmap ! unat (bm_y k);
          a = bitmap ! unat (bm_c k ! b)
      in b * 8 + a)"

definition bitmap_clear :: "u8 \<Rightarrow> kst \<Rightarrow> kst option" where
  "bitmap_clear p k =
     (let a = unat p mod 8; b = unat p div 8 in do {
        guard (b < 8);
        let k = k\<lparr>bm_c := (bm_c k)[b := bm_c k ! b AND NOT (push_bit a 1)]\<rparr>;
        Some (if bm_c k ! b = 0 then k\<lparr>bm_y := bm_y k AND NOT (push_bit b 1)\<rparr> else k)
      })"

subsection \<open>The ready queues\<close>

text \<open>\<^verbatim>\<open>&task_prio_queue[i].list\<close>: the array has \<^verbatim>\<open>SYSTEM_WORD\<close> elements.\<close>

definition ready_head :: "nat \<Rightarrow> klink option" where
  "ready_head i = (if i < SYSTEM_WORD then Some (TcbL (QTcb i)) else None)"

text \<open>The search over the table. The outer option is a fault, the inner one NULL: this
  variant never returns NULL.\<close>

definition bit_first_one_search :: "u32 \<Rightarrow> kst \<Rightarrow> tcbp option option" where
  "bit_first_one_search num k = do {
     q \<leftarrow> ready_head (bitmap_get k);
     n \<leftarrow> knext k q;
     t \<leftarrow> tcb_of_link n;
     Some (Some t)
   }"

text \<open>The \<^verbatim>\<open>#else\<close> branch: a scan of the 32 bits of \<open>num\<close> from \<open>i\<close> on.\<close>

function bit_scan_from :: "nat \<Rightarrow> u32 \<Rightarrow> kst \<Rightarrow> tcbp option option" where
  "bit_scan_from i num k =
     (if i < SYSTEM_WORD then
        (if bit num i then do {
           q \<leftarrow> ready_head i;
           n \<leftarrow> knext k q;
           t \<leftarrow> tcb_of_link n;
           Some (Some t)
         } else bit_scan_from (Suc i) num k)
      else Some None)"
  by pat_completeness auto
termination by (relation "measure (\<lambda>(i, _). 32 - i)") auto

declare bit_scan_from.simps [simp del]

definition bit_first_one_search_scan :: "u32 \<Rightarrow> kst \<Rightarrow> tcbp option option" where
  "bit_first_one_search_scan num k = bit_scan_from 0 num k"

definition prio_ready_queue_init :: "kst \<Rightarrow> kst" where
  "prio_ready_queue_init k = fold (\<lambda>i. klist_init (TcbL (QTcb i))) [0..<SYSTEM_WORD] k"

text \<open>A NULL argument fails \<^verbatim>\<open>OS_ASSERT\<close>, which never returns.\<close>

definition prio_ready_queue_insert_tail :: "tcbp option \<Rightarrow> kst \<Rightarrow> kst option" where
  "prio_ready_queue_insert_tail tcb k = do {
     t \<leftarrow> tcb;
     k \<leftarrow> bitmap_set (prio (tcbs k t)) k;
     q \<leftarrow> ready_head (unat (prio (tcbs k t)));
     kenq q (TcbL t) k
   }"

definition prio_ready_queue_insert_head :: "tcbp option \<Rightarrow> kst \<Rightarrow> kst option" where
  "prio_ready_queue_insert_head tcb k = do {
     t \<leftarrow> tcb;
     k \<leftarrow> bitmap_set (prio (tcbs k t)) k;
     q \<leftarrow> ready_head (unat (prio (tcbs k t)));
     kpush q (TcbL t) k
   }"

definition prio_ready_queue_delete :: "tcbp option \<Rightarrow> kst \<Rightarrow> kst option" where
  "prio_ready_queue_delete tcb k = do {
     t \<leftarrow> tcb;
     k \<leftarrow> kdel (TcbL t) k;
     q \<leftarrow> ready_head (unat (prio (tcbs k t)));
     (if klast k q then bitmap_clear (prio (tcbs k t)) k else Some k)
   }"

subsection \<open>The scheduler\<close>

definition prio_ready_queue_fetch :: "kst \<Rightarrow> (u8 \<times> kst) option" where
  "prio_ready_queue_fetch k = do {
     tmp \<leftarrow> bit_first_one_search (task_prio_map k) k;
     t \<leftarrow> tmp;
     k \<leftarrow> (if \<not> klast k (TcbL t) then do {
            k \<leftarrow> prio_ready_queue_delete tmp k;
            prio_ready_queue_insert_tail tmp k
          } else Some k);
     (if tmp = new_task k then Some (NO_SCHED, k)
      else do {
        let k = k\<lparr>old_task := new_task k\<rparr>;
        Some (SCHED, k\<lparr>new_task := tmp\<rparr>)
      })
   }"

text \<open>The context switch. \<^verbatim>\<open>l.sys 0\<close> traps to the handler of \<^verbatim>\<open>reset.S\<close>, which saves the
  stack pointer through \<^verbatim>\<open>old_task\<close> and loads it through \<^verbatim>\<open>new_task\<close>; the Linux port calls
  \<^verbatim>\<open>swapcontext\<close> on the same two fields. A NULL task or a target that has no context yet is
  a fault. What the kernel's own data sees of it is the pair of tasks switched.\<close>

definition port_schedule :: "kst \<Rightarrow> kst option" where
  "port_schedule k = do {
     old \<leftarrow> old_task k;
     new \<leftarrow> new_task k;
     guard (stack_ptr (tcbs k new) \<noteq> None);
     Some (k\<lparr>switches := switches k @ [(Some old, new)]\<rparr>)
   }"

definition schedule :: "kst \<Rightarrow> kst option" where
  "schedule k =
     (if schedule_is_lock k = TRUE then Some k
      else do {
        let (cpu_sr, k) = interrupt_disable k;
        (r, k) \<leftarrow> prio_ready_queue_fetch k;
        (if NO_SCHED = r then Some (interrupt_enable cpu_sr k)
         else do {
           k \<leftarrow> port_schedule k;
           Some (interrupt_enable cpu_sr k)
         })
      })"

definition start_schedule :: "tcbp \<Rightarrow> kst \<Rightarrow> kst option" where
  "start_schedule t k = do {
     guard (stack_ptr (tcbs k t) \<noteq> None);
     Some (k\<lparr>switches := switches k @ [(None, t)]\<rparr>)
   }"

definition start_which_task :: "tcbp option \<Rightarrow> kst \<Rightarrow> (u8 \<times> kst) option" where
  "start_which_task first_task k = do {
     t \<leftarrow> first_task;
     let k = k\<lparr>new_task := first_task\<rparr>;
     k \<leftarrow> start_schedule t k;
     Some (TRUE, k)
   }"

definition schedule_lock :: "kst \<Rightarrow> kst" where
  "schedule_lock k = k\<lparr>schedule_is_lock := TRUE\<rparr>"

definition schedule_unlock :: "kst \<Rightarrow> kst" where
  "schedule_unlock k = k\<lparr>schedule_is_lock := FALSE\<rparr>"

definition find_high_ready_task :: "kst \<Rightarrow> kst option" where
  "find_high_ready_task k =
     (let (cpu_sr, k) = interrupt_disable k in do {
        (_, k) \<leftarrow> prio_ready_queue_fetch k;
        Some (interrupt_enable cpu_sr k)
      })"

subsection \<open>The table gives the first set bit\<close>

fun first_bits_ok :: "int \<Rightarrow> nat list \<Rightarrow> bool" where
  "first_bits_ok n [] = (n = 256)"
| "first_bits_ok n (x # xs) =
     (x < 8 \<and> n mod 2 ^ x = 0 \<and> (n = 0 \<or> odd (n div 2 ^ x)) \<and> first_bits_ok (n + 1) xs)"

lemma bitmap_first_bits_ok: "first_bits_ok 0 bitmap"
  by code_simp

lemma first_bits_ok_nth:
  assumes "first_bits_ok n xs" "i < length xs"
  shows "xs ! i < 8 \<and> (n + int i) mod 2 ^ (xs ! i) = 0 \<and>
    (n + int i = 0 \<or> odd ((n + int i) div 2 ^ (xs ! i)))"
  using assms
proof (induction n xs arbitrary: i rule: first_bits_ok.induct)
  case (2 n x xs)
  show ?case
  proof (cases i)
    case 0
    with 2 show ?thesis by simp
  next
    case (Suc j)
    with 2 have "xs ! j < 8 \<and> (n + 1 + int j) mod 2 ^ (xs ! j) = 0 \<and>
      (n + 1 + int j = 0 \<or> odd ((n + 1 + int j) div 2 ^ (xs ! j)))" by simp
    moreover have "n + 1 + int j = n + int i" using Suc by simp
    ultimately show ?thesis using Suc by (simp only: nth_Cons_Suc)
  qed
qed simp

lemma multiple_of_power_low_bits:
  assumes "(n :: int) mod 2 ^ x = 0" "i < x"
  shows "\<not> bit n i"
proof -
  obtain d where x: "x = i + Suc d" using assms(2) less_iff_Suc_add by auto
  obtain m where "n = 2 ^ x * m" using assms(1) by (auto simp: dvd_def mod_0_imp_dvd elim: dvdE)
  then have "n div 2 ^ i = 2 * (2 ^ d * m)" using x by (simp add: power_add)
  then show ?thesis by (simp add: bit_iff_odd)
qed

lemma bitmap_first_bit:
  assumes "(w :: u8) \<noteq> 0"
  shows "bitmap ! unat w < 8" and "bit w (bitmap ! unat w)"
    and "\<And>i. i < bitmap ! unat w \<Longrightarrow> \<not> bit w i"
proof -
  have len: "length bitmap = 256" by (simp add: bitmap_def)
  have u: "int (unat w) = uint w" by simp
  have f: "bitmap ! unat w < 8 \<and> uint w mod 2 ^ (bitmap ! unat w) = 0 \<and>
      odd (uint w div 2 ^ (bitmap ! unat w))"
    using first_bits_ok_nth [OF bitmap_first_bits_ok, of "unat w"] assms len
    by (simp add: u uint_0_iff)
  have b: "i < 8 \<Longrightarrow> bit (uint w) i \<longleftrightarrow> bit w i" for i
    by (simp add: bit_unsigned_iff)
  show lt: "bitmap ! unat w < 8" using f by simp
  show "bit w (bitmap ! unat w)" using f b [OF lt] by (simp add: bit_iff_odd)
  show "\<not> bit w i" if "i < bitmap ! unat w" for i
    using multiple_of_power_low_bits [of "uint w" "bitmap ! unat w" i] f that b [of i] lt by auto
qed

lemma u8_zero_iff: "(w :: u8) = 0 \<longleftrightarrow> (\<forall>i<8. \<not> bit w i)"
  by (auto simp: bit_eq_iff)

lemma bit_u8_or_push: "i < 8 \<Longrightarrow> bit ((w :: u8) OR 2 ^ a) i \<longleftrightarrow> bit w i \<or> i = a"
  by (auto simp: bit_or_iff bit_exp_iff)

lemma bit_u8_clear: "i < 8 \<Longrightarrow> bit ((w :: u8) AND NOT (2 ^ a)) i \<longleftrightarrow> bit w i \<and> i \<noteq> a"
  by (auto simp: bit_and_iff bit_not_iff bit_exp_iff)

text \<open>\<open>bitmap_ok k S\<close>: the two levels of the bitmap agree and hold the priorities \<open>S\<close>.\<close>

definition bitmap_ok :: "kst \<Rightarrow> nat set \<Rightarrow> bool" where
  "bitmap_ok k S \<longleftrightarrow> length (bm_c k) = 8 \<and> S \<subseteq> {..<64} \<and>
     (\<forall>b<8. bit (bm_y k) b \<longleftrightarrow> bm_c k ! b \<noteq> 0) \<and>
     (\<forall>b<8. \<forall>a<8. bit (bm_c k ! b) a \<longleftrightarrow> 8 * b + a \<in> S)"

lemma bitmap_ok_cong: "bm_y k' = bm_y k \<Longrightarrow> bm_c k' = bm_c k \<Longrightarrow> bitmap_ok k' S = bitmap_ok k S"
  by (simp add: bitmap_ok_def)

lemma bitmap_ok_empty: "bm_y k = 0 \<Longrightarrow> bm_c k = replicate 8 0 \<Longrightarrow> bitmap_ok k {}"
  by (simp add: bitmap_ok_def)

lemma byte_bit_index_eq:
  "a < 8 \<Longrightarrow> i < 8 \<Longrightarrow> 8 * j + i = 8 * b + a \<longleftrightarrow> j = b \<and> i = (a :: nat)"
  by (cases "j < b"; cases "b < j") auto

lemma bitmap_okD:
  assumes "bitmap_ok k S"
  shows "length (bm_c k) = 8" and "S \<subseteq> {..<64}"
    and "\<And>b. b < 8 \<Longrightarrow> bit (bm_y k) b \<longleftrightarrow> bm_c k ! b \<noteq> 0"
    and "\<And>b a. b < 8 \<Longrightarrow> a < 8 \<Longrightarrow> bit (bm_c k ! b) a \<longleftrightarrow> 8 * b + a \<in> S"
  using assms by (simp_all add: bitmap_ok_def)

lemma bitmap_okI:
  assumes "length c = 8" "S \<subseteq> {..<64}"
    and "\<And>b. b < 8 \<Longrightarrow> bit y b \<longleftrightarrow> c ! b \<noteq> 0"
    and "\<And>b a. b < 8 \<Longrightarrow> a < 8 \<Longrightarrow> bit (c ! b) a \<longleftrightarrow> 8 * b + a \<in> S"
  shows "bitmap_ok (k\<lparr>bm_c := c, bm_y := y\<rparr>) S"
  using assms by (simp add: bitmap_ok_def)

lemma bitmap_set_ok:
  assumes "bitmap_ok k S" "unat p < 64"
  shows "\<exists>y c. bitmap_set p k = Some (k\<lparr>bm_c := c, bm_y := y\<rparr>) \<and>
    bitmap_ok (k\<lparr>bm_c := c, bm_y := y\<rparr>) (insert (unat p) S)"
proof -
  define a b where "a = unat p mod 8" and "b = unat p div 8"
  define c where "c = (bm_c k)[b := bm_c k ! b OR push_bit a 1]"
  define y where "y = bm_y k OR push_bit b 1"
  have b: "b < 8" and a: "a < 8" and l: "length (bm_c k) = 8" and p: "unat p = 8 * b + a"
    using assms by (auto simp: bitmap_ok_def a_def b_def)
  have "bitmap_set p k = Some (k\<lparr>bm_c := c, bm_y := y\<rparr>)"
    using b by (simp add: bitmap_set_def Let_def c_def y_def a_def b_def)
  moreover have "bitmap_ok (k\<lparr>bm_c := c, bm_y := y\<rparr>) (insert (unat p) S)"
  proof (rule bitmap_okI)
    have cbit: "bit (c ! j) i \<longleftrightarrow> bit (bm_c k ! j) i \<or> (j = b \<and> i = a)" if "j < 8" "i < 8" for i j
      using that l b by (simp add: c_def bit_u8_or_push nth_list_update)
    then have cz: "c ! j = 0 \<longleftrightarrow> bm_c k ! j = 0 \<and> j \<noteq> b" if "j < 8" for j
      using a that unfolding u8_zero_iff by blast
    show "length c = 8" using l by (simp add: c_def)
    show "insert (unat p) S \<subseteq> {..<64}" using assms bitmap_okD(2) by auto
    show "bit y j \<longleftrightarrow> c ! j \<noteq> 0" if "j < 8" for j
      using that bitmap_okD(3) [OF assms(1) that] by (simp add: y_def bit_u8_or_push cz)
    show "bit (c ! j) i \<longleftrightarrow> 8 * j + i \<in> insert (unat p) S" if "j < 8" "i < 8" for i j
    proof -
      have "8 * j + i = unat p \<longleftrightarrow> j = b \<and> i = a" using byte_bit_index_eq [OF a that(2)] p by simp
      then show ?thesis
        using bitmap_okD(4) [OF assms(1) that] cbit [OF that] by blast
    qed
  qed
  ultimately show ?thesis by blast
qed

lemma bitmap_clear_ok:
  assumes "bitmap_ok k S" "unat p < 64"
  shows "\<exists>y c. bitmap_clear p k = Some (k\<lparr>bm_c := c, bm_y := y\<rparr>) \<and>
    bitmap_ok (k\<lparr>bm_c := c, bm_y := y\<rparr>) (S - {unat p})"
proof -
  define a b where "a = unat p mod 8" and "b = unat p div 8"
  define c where "c = (bm_c k)[b := bm_c k ! b AND NOT (push_bit a 1)]"
  define y where "y = (if c ! b = 0 then bm_y k AND NOT (push_bit b 1) else bm_y k)"
  have b: "b < 8" and a: "a < 8" and l: "length (bm_c k) = 8" and p: "unat p = 8 * b + a"
    using assms by (auto simp: bitmap_ok_def a_def b_def)
  have "bitmap_clear p k = Some (k\<lparr>bm_c := c, bm_y := y\<rparr>)"
    using b by (simp add: bitmap_clear_def Let_def c_def y_def a_def b_def)
  moreover have "bitmap_ok (k\<lparr>bm_c := c, bm_y := y\<rparr>) (S - {unat p})"
  proof (rule bitmap_okI)
    have cj: "j \<noteq> b \<Longrightarrow> c ! j = bm_c k ! j" for j
      by (simp add: c_def)
    have cb: "c ! b \<noteq> 0 \<Longrightarrow> bm_c k ! b \<noteq> 0"
      using b l by (auto simp: c_def)
    show "length c = 8" using l by (simp add: c_def)
    show "S - {unat p} \<subseteq> {..<64}" using assms bitmap_okD(2) by auto
    have yj: "bit y j \<longleftrightarrow> (if j = b then bit (bm_y k) b \<and> c ! b \<noteq> 0 else bit (bm_y k) j)"
      if "j < 8" for j
      using that by (auto simp: y_def bit_u8_clear)
    show "bit y j \<longleftrightarrow> c ! j \<noteq> 0" if "j < 8" for j
      using bitmap_okD(3) [OF assms(1) that] yj [OF that] cj cb by auto
    show "bit (c ! j) i \<longleftrightarrow> 8 * j + i \<in> S - {unat p}" if "j < 8" "i < 8" for i j
    proof -
      have "8 * j + i = unat p \<longleftrightarrow> j = b \<and> i = a" using byte_bit_index_eq [OF a that(2)] p by simp
      moreover have "bit (c ! j) i \<longleftrightarrow> bit (bm_c k ! j) i \<and> \<not> (j = b \<and> i = a)"
        using that l b by (simp add: c_def bit_u8_clear nth_list_update)
      ultimately show ?thesis
        using bitmap_okD(4) [OF assms(1) that] by blast
    qed
  qed
  ultimately show ?thesis by blast
qed

lemma bitmap_get_least:
  assumes "bitmap_ok k S" "S \<noteq> {}"
  shows "bitmap_get k \<in> S" and "\<And>p. p \<in> S \<Longrightarrow> bitmap_get k \<le> p"
proof -
  let ?b = "bitmap ! unat (bm_y k)"
  let ?a = "bitmap ! unat (bm_c k ! ?b)"
  have bits: "\<And>b a. b < 8 \<Longrightarrow> a < 8 \<Longrightarrow> bit (bm_c k ! b) a \<longleftrightarrow> 8 * b + a \<in> S"
    and top: "\<And>b. b < 8 \<Longrightarrow> bit (bm_y k) b \<longleftrightarrow> bm_c k ! b \<noteq> 0"
    and S: "S \<subseteq> {..<64}"
    using assms(1) by (auto simp: bitmap_ok_def)
  have inS: "p div 8 < 8 \<and> bit (bm_c k ! (p div 8)) (p mod 8) \<and> bit (bm_y k) (p div 8)"
    if "p \<in> S" for p
    proof -
    have p: "p div 8 < 8" "p mod 8 < 8" using that S by auto
    then have bp: "bit (bm_c k ! (p div 8)) (p mod 8)" using bits that by simp
    then have "bm_c k ! (p div 8) \<noteq> 0" by auto
    then show ?thesis using p bp top by blast
  qed
  from assms(2) inS have y: "bm_y k \<noteq> 0" by auto
  have b: "?b < 8" "bit (bm_y k) ?b" "\<And>i. i < ?b \<Longrightarrow> \<not> bit (bm_y k) i"
    using bitmap_first_bit [OF y] by auto
  then have c: "bm_c k ! ?b \<noteq> 0" using top by auto
  have a: "?a < 8" "bit (bm_c k ! ?b) ?a" "\<And>i. i < ?a \<Longrightarrow> \<not> bit (bm_c k ! ?b) i"
    using bitmap_first_bit [OF c] by auto
  show "bitmap_get k \<in> S"
    using bits a b by (simp add: bitmap_get_def Let_def mult.commute)
  show "bitmap_get k \<le> p" if "p \<in> S" for p
  proof -
    have "?b \<le> p div 8" using inS [OF that] b(3) not_less by blast
    moreover have "?a \<le> p mod 8" if "?b = p div 8"
      using inS [OF \<open>p \<in> S\<close>] a(3) that not_less by metis
    ultimately have "?b * 8 + ?a \<le> p"
      using a(1) div_mult_mod_eq [of p 8]
      by (cases "?b = p div 8") (simp only: add_left_mono mult.commute, linarith+)
    then show ?thesis by (simp add: bitmap_get_def Let_def)
  qed
qed

subsection \<open>The scheduler invariant\<close>

abbreviation RQ :: "nat \<Rightarrow> klink" where "RQ p \<equiv> TcbL (QTcb p)"
abbreviation TL :: "nat \<Rightarrow> klink" where "TL n \<equiv> TcbL (Tcb n)"

definition ready :: "klink lists \<Rightarrow> nat \<Rightarrow> klink list" where
  "ready A p = (case A (RQ p) of None \<Rightarrow> [] | Some xs \<Rightarrow> xs)"

definition ready_set :: "klink lists \<Rightarrow> nat set" where
  "ready_set A = {p. p < SYSTEM_WORD \<and> ready A p \<noteq> []}"

definition task_at :: "kst \<Rightarrow> nat \<Rightarrow> klink \<Rightarrow> bool" where
  "task_at k p x \<longleftrightarrow> (\<exists>n. x = TL n \<and> unat (prio (tcbs k (Tcb n))) = p)"

text \<open>The store holds the lists \<open>A\<close>, every ready queue is initialised, the queue of priority
  \<open>p\<close> holds tasks of priority \<open>p\<close> only, and the bitmap names the non-empty queues.\<close>

definition sched_inv :: "kst \<Rightarrow> klink lists \<Rightarrow> bool" where
  "sched_inv k A \<longleftrightarrow> krep k A \<and> bitmap_ok k (ready_set A) \<and>
     (\<forall>p<SYSTEM_WORD. A (RQ p) \<noteq> None) \<and>
     (\<forall>p<SYSTEM_WORD. \<forall>x \<in> set (ready A p). task_at k p x)"

definition same_but_ready :: "kst \<Rightarrow> kst \<Rightarrow> bool" where
  "same_but_ready k k' \<longleftrightarrow> tcbs k' = tcbs k \<and> ticks k' = ticks k \<and> sems k' = sems k \<and>
     mutexes k' = mutexes k \<and> queues k' = queues k \<and> msgs k' = msgs k \<and>
     devices k' = devices k \<and> opss k' = opss k \<and> new_task k' = new_task k \<and>
     old_task k' = old_task k \<and> schedule_is_lock k' = schedule_is_lock k \<and>
     task_prio_map k' = task_prio_map k \<and> fos_tick k' = fos_tick k \<and>
     device_init_times k' = device_init_times k \<and> sr k' = sr k \<and> stk k' = stk k \<and>
     switches k' = switches k"

lemma same_but_ready_refl [simp]: "same_but_ready k k"
  by (simp add: same_but_ready_def)

lemma same_but_ready_trans: "same_but_ready k k' \<Longrightarrow> same_but_ready k' k'' \<Longrightarrow> same_but_ready k k''"
  by (simp add: same_but_ready_def)

lemma same_but_heap_ready: "same_but_heap k k' \<Longrightarrow> same_but_ready k k'"
  by (simp add: same_but_ready_def same_but_heap_sel)

lemma sched_inv_krep: "sched_inv k A \<Longrightarrow> krep k A"
  by (simp add: sched_inv_def)

lemma sched_inv_ready: "sched_inv k A \<Longrightarrow> p < 32 \<Longrightarrow> A (RQ p) = Some (ready A p)"
  by (auto simp: sched_inv_def ready_def)

lemma sched_inv_task_at: "sched_inv k A \<Longrightarrow> p < 32 \<Longrightarrow> x \<in> set (ready A p) \<Longrightarrow> task_at k p x"
  by (simp add: sched_inv_def)

lemma ready_upd [simp]:
  "ready (A(RQ p \<mapsto> ys)) q = (if q = p then ys else ready A q)"
  by (simp add: ready_def)

lemma ready_upd_other [simp]: "(\<And>i. q \<noteq> RQ i) \<Longrightarrow> ready (A(q \<mapsto> ys)) p = ready A p"
  by (metis fun_upd_other ready_def)

lemma ready_set_upd:
  "p < 32 \<Longrightarrow> ready_set (A(RQ p \<mapsto> ys)) =
     (if ys = [] then ready_set A - {p} else insert p (ready_set A))"
  by (auto simp: ready_set_def)

lemma ready_set_upd_other [simp]: "(\<And>i. q \<noteq> RQ i) \<Longrightarrow> ready_set (A(q \<mapsto> ys)) = ready_set A"
  by (simp add: ready_set_def)

text \<open>\<open>sched_inv\<close> depends on the store, the bitmap and the priorities alone.\<close>

lemma sched_inv_cong:
  assumes "heap k' = heap k" "bm_y k' = bm_y k" "bm_c k' = bm_c k" "tcbs k' = tcbs k"
  shows "sched_inv k' A = sched_inv k A"
  using assms by (simp add: sched_inv_def krep_def bitmap_ok_def task_at_def)

lemma sched_inv_upd:
  assumes "sched_inv k A" "p < 32" "krep k' (A(RQ p \<mapsto> ys))" "tcbs k' = tcbs k"
    and "bitmap_ok k' (if ys = [] then ready_set A - {p} else insert p (ready_set A))"
    and "\<And>x. x \<in> set ys \<Longrightarrow> task_at k p x"
  shows "sched_inv k' (A(RQ p \<mapsto> ys))"
  using assms unfolding sched_inv_def
  by (simp add: ready_set_upd task_at_def)

lemma sched_inv_other_upd:
  assumes "sched_inv k A" "krep k' (A(q \<mapsto> ys))" "\<And>i. q \<noteq> RQ i" "tcbs k' = tcbs k"
    "bm_y k' = bm_y k" "bm_c k' = bm_c k"
  shows "sched_inv k' (A(q \<mapsto> ys))"
proof -
  have "bitmap_ok k' (ready_set A)"
    using assms(1) bitmap_ok_cong [OF assms(5,6)] by (simp add: sched_inv_def)
  then show ?thesis
    using assms by (simp add: sched_inv_def task_at_def)
qed

text \<open>Enqueueing and pushing a task on its ready queue, for any of the two list operations.\<close>

lemma ready_insert:
  assumes inv: "sched_inv k A" and p: "unat (prio (tcbs k (Tcb n))) = p" "p < 32"
    and op: "\<And>k. krep k A \<Longrightarrow> \<exists>k'. f k = Some k' \<and> krep k' (A(RQ p \<mapsto> ys))"
    and fr: "\<And>k k'. f k = Some k' \<Longrightarrow> same_but_heap k k'"
    and ys: "set ys = insert (TL n) (set (ready A p))"
  shows "\<exists>k'. Option.bind (bitmap_set (prio (tcbs k (Tcb n))) k) f = Some k' \<and>
    sched_inv k' (A(RQ p \<mapsto> ys)) \<and> same_but_ready k k'"
proof -
  obtain y c where bm: "bitmap_set (prio (tcbs k (Tcb n))) k = Some (k\<lparr>bm_c := c, bm_y := y\<rparr>)"
    "bitmap_ok (k\<lparr>bm_c := c, bm_y := y\<rparr>) (insert p (ready_set A))"
    using bitmap_set_ok [of k "ready_set A" "prio (tcbs k (Tcb n))"] inv p
    by (auto simp: sched_inv_def)
  let ?k = "k\<lparr>bm_c := c, bm_y := y\<rparr>"
  have "krep ?k A" using sched_inv_krep [OF inv] by (simp add: krep_def)
  then obtain k' where k': "f ?k = Some k'" "krep k' (A(RQ p \<mapsto> ys))"
    using op by blast
  have same: "same_but_heap ?k k'" using fr [OF k'(1)] .
  have "sched_inv k' (A(RQ p \<mapsto> ys))"
  proof (rule sched_inv_upd [OF inv p(2) k'(2)])
    show "tcbs k' = tcbs k" using same_but_heap_sel [OF same] by simp
    show "bitmap_ok k' (if ys = [] then ready_set A - {p} else insert p (ready_set A))"
      using ys bm(2) bitmap_ok_cong [of k' ?k] same_but_heap_sel [OF same] by auto
    show "task_at k p x" if "x \<in> set ys" for x
      using that ys p sched_inv_task_at [OF inv p(2)] by (auto simp: task_at_def)
  qed
  moreover have "same_but_ready k k'"
    using same_but_heap_sel [OF same] by (simp add: same_but_ready_def)
  ultimately show ?thesis using bm(1) k'(1) by auto
qed

lemma prio_ready_queue_insert_tail_ok:
  assumes "sched_inv k A" "unthreaded A (TL n)" "unat (prio (tcbs k (Tcb n))) = p" "p < 32"
  shows "\<exists>k'. prio_ready_queue_insert_tail (Some (Tcb n)) k = Some k' \<and>
    sched_inv k' (A(RQ p \<mapsto> ready A p @ [TL n])) \<and> same_but_ready k k'"
proof -
  have "\<exists>k'. Option.bind (bitmap_set (prio (tcbs k (Tcb n))) k) (kenq (RQ p) (TL n)) = Some k' \<and>
    sched_inv k' (A(RQ p \<mapsto> ready A p @ [TL n])) \<and> same_but_ready k k'"
    using assms sched_inv_ready [OF assms(1,4)]
    by (intro ready_insert klist_frame kl.enq_law) auto
  then show ?thesis
    using assms(3,4) bitmap_set_ok [of k "ready_set A" "prio (tcbs k (Tcb n))"] assms(1)
    by (auto simp: prio_ready_queue_insert_tail_def ready_head_def sched_inv_def)
qed

lemma prio_ready_queue_insert_head_ok:
  assumes "sched_inv k A" "unthreaded A (TL n)" "unat (prio (tcbs k (Tcb n))) = p" "p < 32"
  shows "\<exists>k'. prio_ready_queue_insert_head (Some (Tcb n)) k = Some k' \<and>
    sched_inv k' (A(RQ p \<mapsto> TL n # ready A p)) \<and> same_but_ready k k'"
proof -
  have "\<exists>k'. Option.bind (bitmap_set (prio (tcbs k (Tcb n))) k) (kpush (RQ p) (TL n)) = Some k' \<and>
    sched_inv k' (A(RQ p \<mapsto> TL n # ready A p)) \<and> same_but_ready k k'"
    using assms sched_inv_ready [OF assms(1,4)]
    by (intro ready_insert klist_frame kl.push_law) auto
  then show ?thesis
    using assms(3,4) bitmap_set_ok [of k "ready_set A" "prio (tcbs k (Tcb n))"] assms(1)
    by (auto simp: prio_ready_queue_insert_head_def ready_head_def sched_inv_def)
qed

lemma prio_ready_queue_delete_ok:
  assumes inv: "sched_inv k A" and p: "p < 32" and r: "ready A p = as @ TL n # bs"
  shows "\<exists>k'. prio_ready_queue_delete (Some (Tcb n)) k = Some k' \<and>
    sched_inv k' (A(RQ p \<mapsto> as @ bs)) \<and> same_but_ready k k'"
proof -
  have pn: "unat (prio (tcbs k (Tcb n))) = p"
    using sched_inv_task_at [OF inv p, of "TL n"] r by (auto simp: task_at_def)
  obtain k1 where k1: "kdel (TL n) k = Some k1" "krep k1 (A(RQ p \<mapsto> as @ bs))"
    using kl.del_law [OF sched_inv_krep [OF inv]] sched_inv_ready [OF inv p] r by metis
  have same: "same_but_heap k k1" using klist_frame(3) [OF k1(1)] .
  have last: "klast k1 (RQ p) \<longleftrightarrow> as @ bs = []"
    using klast_iff [OF k1(2)] by simp
  have mem: "p \<in> ready_set A" using p r by (simp add: ready_set_def)
  have bm: "bitmap_ok k1 (ready_set A)"
    using inv bitmap_ok_cong same_but_heap_sel [OF same] by (simp add: sched_inv_def bitmap_ok_def)
  have ty: "\<And>x. x \<in> set (as @ bs) \<Longrightarrow> task_at k p x"
    using sched_inv_task_at [OF inv p] r by simp
  show ?thesis
  proof (cases "as @ bs = []")
    case True
    obtain y c where bc: "bitmap_clear (prio (tcbs k (Tcb n))) k1 = Some (k1\<lparr>bm_c := c, bm_y := y\<rparr>)"
      "bitmap_ok (k1\<lparr>bm_c := c, bm_y := y\<rparr>) (ready_set A - {p})"
      using bitmap_clear_ok [OF bm, of "prio (tcbs k (Tcb n))"] pn p by auto
    let ?k = "k1\<lparr>bm_c := c, bm_y := y\<rparr>"
    have "prio_ready_queue_delete (Some (Tcb n)) k = Some ?k"
      using k1(1) last True pn p bc(1) same_but_heap_sel [OF same]
      by (simp add: prio_ready_queue_delete_def ready_head_def)
    moreover have "sched_inv ?k (A(RQ p \<mapsto> as @ bs))"
      using bc(2) True k1(2) same_but_heap_sel [OF same] ty
      by (intro sched_inv_upd [OF inv p]) (auto simp: krep_def)
    ultimately show ?thesis
      using same_but_heap_sel [OF same] by (simp add: same_but_ready_def)
  next
    case False
    have "prio_ready_queue_delete (Some (Tcb n)) k = Some k1"
      using k1(1) last False pn p same_but_heap_sel(1) [OF same]
      by (auto simp: prio_ready_queue_delete_def ready_head_def)
    moreover have "sched_inv k1 (A(RQ p \<mapsto> as @ bs))"
      using bm False k1(2) same_but_heap_sel [OF same] ty mem
      by (intro sched_inv_upd [OF inv p]) (auto simp: insert_absorb)
    ultimately show ?thesis using same_but_heap_ready [OF same] by simp
  qed
qed

subsection \<open>What the scheduler does\<close>

definition top_prio :: "klink lists \<Rightarrow> nat" where
  "top_prio A = (LEAST p. p \<in> ready_set A)"

text \<open>The abstract scheduling step: the first task of the most urgent non-empty queue is
  chosen, and that queue is rotated.\<close>

definition asched :: "klink lists \<Rightarrow> klink lists" where
  "asched A = A(RQ (top_prio A) \<mapsto> rotate1 (ready A (top_prio A)))"

definition chosen :: "klink lists \<Rightarrow> tcbp option" where
  "chosen A = tcb_of_link (hd (ready A (top_prio A)))"

lemma top_prio_in: "ready_set A \<noteq> {} \<Longrightarrow> top_prio A \<in> ready_set A"
  unfolding top_prio_def by (rule LeastI_ex) blast

lemma top_prio_le: "p \<in> ready_set A \<Longrightarrow> top_prio A \<le> p"
  unfolding top_prio_def by (rule Least_le)

lemma top_prio_lt: "ready_set A \<noteq> {} \<Longrightarrow> top_prio A < 32"
  using top_prio_in by (auto simp: ready_set_def)

lemma bitmap_get_top_prio:
  assumes "sched_inv k A" "ready_set A \<noteq> {}"
  shows "bitmap_get k = top_prio A"
  using bitmap_get_least [of k "ready_set A"] assms top_prio_in top_prio_le
  by (metis le_antisym sched_inv_def)

lemma chosen_ready:
  assumes "sched_inv k A" "ready_set A \<noteq> {}"
  obtains n xs where "ready A (top_prio A) = TL n # xs" "chosen A = Some (Tcb n)"
    "unat (prio (tcbs k (Tcb n))) = top_prio A"
proof -
  from top_prio_in [OF assms(2)] obtain x xs where x: "ready A (top_prio A) = x # xs"
    by (auto simp: ready_set_def neq_Nil_conv)
  then obtain n where "x = TL n" "unat (prio (tcbs k (Tcb n))) = top_prio A"
    using sched_inv_task_at [OF assms(1) top_prio_lt [OF assms(2)], of x] by (auto simp: task_at_def)
  with x that show thesis by (simp add: chosen_def)
qed

lemma bit_first_one_search_chosen:
  assumes "sched_inv k A" "ready_set A \<noteq> {}"
  shows "bit_first_one_search num k = Some (chosen A)"
proof -
  obtain n xs where x: "ready A (top_prio A) = TL n # xs" "chosen A = Some (Tcb n)"
    using chosen_ready [OF assms] .
  have "A (RQ (top_prio A)) = Some (TL n # xs)"
    using sched_inv_ready [OF assms(1) top_prio_lt [OF assms(2)]] x by simp
  from knext_first [OF sched_inv_krep [OF assms(1)] this] x(2) show ?thesis
    using bitmap_get_top_prio [OF assms] top_prio_lt [OF assms(2)]
    by (simp add: bit_first_one_search_def ready_head_def)
qed

lemma bit_scan_from_least:
  assumes "p < 32" "bit num p" "\<And>q. q < p \<Longrightarrow> \<not> bit num q" "i \<le> p"
  shows "bit_scan_from i num k = Option.bind (knext k (RQ p))
    (\<lambda>n. Option.bind (tcb_of_link n) (\<lambda>t. Some (Some t)))"
  using assms
proof (induction "p - i" arbitrary: i)
  case 0
  then show ?case by (subst bit_scan_from.simps) (simp add: ready_head_def)
next
  case (Suc d)
  then have "\<not> bit num i" "i < 32" "Suc i \<le> p" "d = p - Suc i" by auto
  with Suc show ?case by (subst bit_scan_from.simps) simp
qed

definition same_but_sched :: "kst \<Rightarrow> kst \<Rightarrow> bool" where
  "same_but_sched k k' \<longleftrightarrow> tcbs k' = tcbs k \<and> ticks k' = ticks k \<and> sems k' = sems k \<and>
     mutexes k' = mutexes k \<and> queues k' = queues k \<and> msgs k' = msgs k \<and>
     devices k' = devices k \<and> opss k' = opss k \<and>
     schedule_is_lock k' = schedule_is_lock k \<and> task_prio_map k' = task_prio_map k \<and>
     fos_tick k' = fos_tick k \<and> device_init_times k' = device_init_times k \<and> sr k' = sr k \<and> stk k' = stk k"

lemma same_but_sched_refl [simp]: "same_but_sched k k"
  by (simp add: same_but_sched_def)

lemma same_but_sched_trans: "same_but_sched k k' \<Longrightarrow> same_but_sched k' k'' \<Longrightarrow> same_but_sched k k''"
  by (simp add: same_but_sched_def)

lemma same_but_ready_sched: "same_but_ready k k' \<Longrightarrow> same_but_sched k k'"
  by (simp add: same_but_ready_def same_but_sched_def)

lemma prio_ready_queue_fetch_ok:
  assumes inv: "sched_inv k A" and ne: "ready_set A \<noteq> {}"
  shows "\<exists>k'. prio_ready_queue_fetch k =
      Some (if chosen A = new_task k then NO_SCHED else SCHED, k') \<and>
    sched_inv k' (asched A) \<and> new_task k' = chosen A \<and>
    old_task k' = (if chosen A = new_task k then old_task k else new_task k) \<and>
    switches k' = switches k \<and> same_but_sched k k'"
proof -
  let ?p = "top_prio A"
  obtain n xs where x: "ready A ?p = TL n # xs" "chosen A = Some (Tcb n)"
      "unat (prio (tcbs k (Tcb n))) = ?p"
    using chosen_ready [OF inv ne] .
  have p: "?p < 32" by (rule top_prio_lt [OF ne])
  have last: "klast k (TL n) \<longleftrightarrow> xs = []"
    using klast_node_iff [OF sched_inv_krep [OF inv], of "RQ ?p" "[]" "TL n" xs]
      sched_inv_ready [OF inv p] x(1) by simp
  have "\<exists>k1. (if \<not> klast k (TL n) then Option.bind (prio_ready_queue_delete (Some (Tcb n)) k)
        (prio_ready_queue_insert_tail (Some (Tcb n))) else Some k) = Some k1 \<and>
      sched_inv k1 (asched A) \<and> same_but_ready k k1"
  proof (cases "xs = []")
    case True
    then have "asched A = A"
      using sched_inv_ready [OF inv p] x(1) by (simp add: asched_def fun_upd_idem)
    with True last inv show ?thesis by simp
  next
    case False
    obtain k1 where k1: "prio_ready_queue_delete (Some (Tcb n)) k = Some k1"
      "sched_inv k1 (A(RQ ?p \<mapsto> xs))" "same_but_ready k k1"
      using prio_ready_queue_delete_ok [OF inv p, of "[]" n xs] x(1) by auto
    have "unthreaded (A(RQ ?p \<mapsto> xs)) (TL n)"
      using kl.unthreaded_after_del [OF sched_inv_krep [OF inv], of "RQ ?p" "[]" "TL n" xs]
        sched_inv_ready [OF inv p] x(1) by simp
    then obtain k2 where "prio_ready_queue_insert_tail (Some (Tcb n)) k1 = Some k2"
      "sched_inv k2 (A(RQ ?p \<mapsto> xs @ [TL n]))" "same_but_ready k1 k2"
      using prio_ready_queue_insert_tail_ok [OF k1(2), of n ?p] x(3) k1(3) p
      by (auto simp: same_but_ready_def)
    with k1 False last x(1) show ?thesis
      by (auto simp: asched_def intro: same_but_ready_trans)
  qed
  then obtain k1 where k1: "(if \<not> klast k (TL n) then
        Option.bind (prio_ready_queue_delete (Some (Tcb n)) k)
          (prio_ready_queue_insert_tail (Some (Tcb n))) else Some k) = Some k1"
      "sched_inv k1 (asched A)" "same_but_ready k k1" by blast
  let ?r = "k1\<lparr>old_task := new_task k1\<rparr>\<lparr>new_task := Some (Tcb n)\<rparr>"
  have "prio_ready_queue_fetch k = (if Some (Tcb n) = new_task k1 then Some (NO_SCHED, k1)
      else Some (SCHED, ?r))"
    using bit_first_one_search_chosen [OF inv ne] x(2) k1(1)
    by (simp add: prio_ready_queue_fetch_def del: if_not_P if_P cong: if_cong)
  moreover have "new_task k1 = new_task k" "old_task k1 = old_task k" "switches k1 = switches k"
    using k1(3) by (simp_all add: same_but_ready_def)
  moreover have "sched_inv ?r (asched A)"
    using k1(2) sched_inv_cong [of ?r k1] by simp
  ultimately show ?thesis
    using x(2) k1(2,3) by (auto simp: same_but_sched_def same_but_ready_def)
qed

text \<open>The whole of \<open>schedule\<close> with the scheduler unlocked.\<close>

definition contexts_ready :: "kst \<Rightarrow> klink lists \<Rightarrow> bool" where
  "contexts_ready k A \<longleftrightarrow>
     (\<forall>p<SYSTEM_WORD. \<forall>n. TL n \<in> set (ready A p) \<longrightarrow> stack_ptr (tcbs k (Tcb n)) \<noteq> None)"

lemma schedule_ok:
  assumes inv: "sched_inv k A" and ne: "ready_set A \<noteq> {}" and ctx: "contexts_ready k A"
    and cur: "new_task k \<noteq> None" and lock: "schedule_is_lock k \<noteq> TRUE"
  shows "\<exists>k' t. schedule k = Some k' \<and> chosen A = Some t \<and> sched_inv k' (asched A) \<and>
    new_task k' = Some t \<and> same_but_sched k k' \<and>
    switches k' = switches k @ (if new_task k = Some t then [] else [(new_task k, t)])"
proof -
  obtain n xs where x: "ready A (top_prio A) = TL n # xs" "chosen A = Some (Tcb n)"
    using chosen_ready [OF inv ne] .
  then have sp: "stack_ptr (tcbs k (Tcb n)) \<noteq> None"
    using ctx top_prio_lt [OF ne] by (auto simp: contexts_ready_def)
  let ?k = "snd (interrupt_disable k)"
  have "sched_inv ?k A"
    using inv sched_inv_cong [of ?k k] by (simp add: interrupt_disable_def)
  from prio_ready_queue_fetch_ok [OF this ne] obtain k1 where k1:
    "prio_ready_queue_fetch ?k = Some (if chosen A = new_task k then NO_SCHED else SCHED, k1)"
    "sched_inv k1 (asched A)" "new_task k1 = chosen A"
    "old_task k1 = (if chosen A = new_task k then old_task k else new_task k)"
    "switches k1 = switches k" "same_but_sched ?k k1"
    by (auto simp: interrupt_disable_def)
  have t: "tcbs k1 = tcbs k" using k1(6) by (simp add: same_but_sched_def interrupt_disable_def)
  show ?thesis
  proof (cases "chosen A = new_task k")
    case True
    then have "schedule k = Some (interrupt_enable (sr k) k1)"
      using k1(1) lock by (simp add: schedule_def interrupt_disable_def)
    moreover have "sched_inv (interrupt_enable (sr k) k1) (asched A)"
      using k1(2) sched_inv_cong [of "interrupt_enable (sr k) k1" k1]
      by (simp add: interrupt_enable_def)
    moreover have "new_task k = Some (Tcb n)" using True x(2) by simp
    ultimately show ?thesis
      using True k1 x(2)
      by (auto simp: interrupt_enable_def interrupt_disable_def same_but_sched_def)
  next
    case False
    let ?r = "interrupt_enable (sr k) (k1\<lparr>switches := switches k1 @ [(new_task k, Tcb n)]\<rparr>)"
    obtain c where c: "new_task k = Some c" using cur by blast
    have "schedule k = Some ?r"
      using k1 lock False x(2) sp c t
      by (simp add: schedule_def interrupt_disable_def port_schedule_def)
    moreover have "sched_inv ?r (asched A)"
      using k1(2) sched_inv_cong [of ?r k1] by (simp add: interrupt_enable_def)
    ultimately show ?thesis
      using False k1 x(2)
      by (auto simp: interrupt_enable_def interrupt_disable_def same_but_sched_def)
  qed
qed

lemma schedule_locked: "schedule_is_lock k = TRUE \<Longrightarrow> schedule k = Some k"
  by (simp add: schedule_def)

subsection \<open>Correctness of the bitmap\<close>

text \<open>The two-level bitmap computes the least element of the set of priorities it holds: after
  \<open>bitmap_set\<close> and \<open>bitmap_clear\<close> of any priority below 64 the table search of
  \<open>bitmap_get\<close> returns the minimum of the resulting set.\<close>

theorem bitmap_get_is_min:
  assumes "bitmap_ok k S" "unat p < 64"
  shows "(\<exists>k'. bitmap_set p k = Some k' \<and> bitmap_ok k' (insert (unat p) S) \<and>
      bitmap_get k' = Min (insert (unat p) S)) \<and>
    (\<exists>k'. bitmap_clear p k = Some k' \<and> bitmap_ok k' (S - {unat p}) \<and>
      (S - {unat p} \<noteq> {} \<longrightarrow> bitmap_get k' = Min (S - {unat p})))"
proof
  have fin: "finite S" using assms(1) finite_subset by (auto simp: bitmap_ok_def)
  have least: "bitmap_get k' = Min T" if "bitmap_ok k' T" "T \<noteq> {}" for k' T
  proof -
    have "finite T" using that(1) finite_subset by (auto simp: bitmap_ok_def)
    then show ?thesis
      using bitmap_get_least [OF that] by (metis Min_eqI)
  qed
  show "\<exists>k'. bitmap_set p k = Some k' \<and> bitmap_ok k' (insert (unat p) S) \<and>
      bitmap_get k' = Min (insert (unat p) S)"
    using bitmap_set_ok [OF assms] least by blast
  show "\<exists>k'. bitmap_clear p k = Some k' \<and> bitmap_ok k' (S - {unat p}) \<and>
      (S - {unat p} \<noteq> {} \<longrightarrow> bitmap_get k' = Min (S - {unat p}))"
    using bitmap_clear_ok [OF assms] least by blast
qed

theorem bitmap_get_is_min_witness:
  "\<exists>k'. bitmap_set 31 bss_state = Some k' \<and> bitmap_get k' = Min {31}"
  using bitmap_get_is_min [of bss_state "{}" 31] bitmap_ok_empty [of bss_state]
  by (auto simp: bss_state_def)

text \<open>The table search and the bit scan that replaces it in the other build select the same
  task, whenever the scanned word has a bit for exactly the non-empty ready queues.\<close>

theorem bit_first_one_search_variants:
  assumes "sched_inv k A" "ready_set A \<noteq> {}" "\<forall>i<32. bit num i \<longleftrightarrow> i \<in> ready_set A"
  shows "bit_first_one_search num k = bit_first_one_search_scan num k \<and>
    bit_first_one_search num k = Some (chosen A)"
proof -
  let ?p = "top_prio A"
  obtain n xs where x: "ready A ?p = TL n # xs" "chosen A = Some (Tcb n)"
    using chosen_ready [OF assms(1,2)] .
  have p: "?p < 32" by (rule top_prio_lt [OF assms(2)])
  have "knext k (RQ ?p) = Some (TL n)"
    using knext_first [OF sched_inv_krep [OF assms(1)]] sched_inv_ready [OF assms(1) p] x(1) by simp
  moreover have "\<not> bit num q" if "q < ?p" for q
    using that p assms(3) top_prio_le [of q A] by auto
  moreover have "bit num ?p" using p assms(3) top_prio_in [OF assms(2)] by blast
  ultimately have "bit_first_one_search_scan num k = Some (chosen A)"
    using bit_scan_from_least [OF p, of num 0 k] x(2) by (simp add: bit_first_one_search_scan_def)
  then show ?thesis using bit_first_one_search_chosen [OF assms(1,2)] by simp
qed

text \<open>With no ready task the two variants differ: the scan returns NULL, which the caller's
  assertion catches, but the table search returns \<^verbatim>\<open>&task_prio_queue[0]\<close>, which is no task.\<close>

theorem bit_first_one_search_empty:
  assumes "sched_inv k A" "ready_set A = {}"
  shows "bit_first_one_search num k = Some (Some (QTcb 0)) \<and>
    bit_first_one_search_scan 0 k = Some None"
proof
  have bm: "bitmap_ok k {}" using assms by (simp add: sched_inv_def)
  have y: "bm_y k = 0"
    using bm by (auto simp: bitmap_ok_def u8_zero_iff)
  have "bm_c k ! 0 = 0" using bm by (auto simp: bitmap_ok_def u8_zero_iff)
  with y have "bitmap_get k = 0" by (simp add: bitmap_get_def bitmap_def)
  moreover have "ready A 0 = []" using assms(2) by (auto simp: ready_set_def)
  then have "klast k (RQ 0)"
    using klast_iff [OF sched_inv_krep [OF assms(1)]] sched_inv_ready [OF assms(1), of 0] by simp
  then have "knext k (RQ 0) = Some (RQ 0)" by (simp add: klast_def knext_def is_list_last_def)
  ultimately show "bit_first_one_search num k = Some (Some (QTcb 0))"
    by (simp add: bit_first_one_search_def ready_head_def)
  have "bit_scan_from i 0 k = Some None" if "i \<le> 32" for i
    using that
  proof (induction "32 - i" arbitrary: i)
    case 0
    then show ?case by (subst bit_scan_from.simps) simp
  next
    case (Suc d)
    then show ?case by (subst bit_scan_from.simps) simp
  qed
  then show "bit_first_one_search_scan 0 k = Some None" by (simp add: bit_first_one_search_scan_def)
qed

end
