(* ===== verification/FosWait.thy ===== *)
theory FosWait
  imports FosReady
begin

text \<open>
  The invariant of the whole kernel state and the contract that semaphores, mutexes and
  message queues share: each owns a list of blocked tasks, on which the running task is put
  when it blocks and from which the first task is put back at the head of its ready queue.
\<close>

subsection \<open>The kernel invariant\<close>

definition live :: "kst \<Rightarrow> klink \<Rightarrow> bool" where
  "live k x \<longleftrightarrow> (\<exists>n. x = TL n \<and> unat (prio (tcbs k (Tcb n))) < SYSTEM_WORD \<and>
     stack_ptr (tcbs k (Tcb n)) \<noteq> None)"

text \<open>An entry of the tick queue: the delay member of a task that sleeps and is on no other
  list, or a software timer with a function to call.\<close>

definition tick_ok :: "kst \<Rightarrow> klink lists \<Rightarrow> klink \<Rightarrow> bool" where
  "tick_ok k A x \<longleftrightarrow>
     (\<exists>n. x = TickL (DelayOf (Tcb n)) \<and> style (ticks k (DelayOf (Tcb n))) = DELAY \<and>
        tick_tcb (ticks k (DelayOf (Tcb n))) = Some (Tcb n) \<and>
        live k (TL n) \<and> unthreaded A (TL n)) \<or>
     (\<exists>i. x = TickL (Timer i) \<and> style (ticks k (Timer i)) = SOFTWARE_TIMER \<and>
        tick_func (ticks k (Timer i)) \<noteq> None)"

text \<open>What each kind of list may hold.\<close>

fun list_ok :: "kst \<Rightarrow> klink lists \<Rightarrow> klink \<Rightarrow> klink list \<Rightarrow> bool" where
  "list_ok k A (TcbL (QTcb p)) xs \<longleftrightarrow> p < SYSTEM_WORD \<and> (\<forall>x \<in> set xs. live k x)"
| "list_ok k A (SemL s) xs \<longleftrightarrow> (\<forall>x \<in> set xs. live k x)"
| "list_ok k A (MutexL m) xs \<longleftrightarrow> (\<forall>x \<in> set xs. live k x) \<and> unat (copy_prio (mutexes k m)) < SYSTEM_WORD"
| "list_ok k A (QueueL i) xs \<longleftrightarrow> (\<forall>x \<in> set xs. live k x)"
| "list_ok k A (TickL TickQueue) xs \<longleftrightarrow> (\<forall>x \<in> set xs. tick_ok k A x)"
| "list_ok k A (QMsgL i) xs \<longleftrightarrow> (\<forall>x \<in> set xs. \<exists>m. x = MsgL m) \<and>
     length xs = unat (q_count (queues k i)) \<and> q_count (queues k i) \<le> q_length (queues k i)"
| "list_ok k A (DevL DevQueue) xs \<longleftrightarrow> (\<forall>x \<in> set xs. \<exists>d. x = DevL (Dev d))"
| "list_ok k A _ xs \<longleftrightarrow> False"

definition running :: "kst \<Rightarrow> klink lists \<Rightarrow> nat \<Rightarrow> bool" where
  "running k A c \<longleftrightarrow> new_task k = Some (Tcb c) \<and> TL c \<in> set (ready A (unat (prio (tcbs k (Tcb c)))))"

text \<open>\<open>kbase\<close> holds between any two list operations of a kernel call; \<open>kinv\<close> also says that
  the running task is ready, which is true whenever task code runs.\<close>

definition kbase :: "kst \<Rightarrow> klink lists \<Rightarrow> bool" where
  "kbase k A \<longleftrightarrow> sched_inv k A \<and> (\<forall>q xs. A q = Some xs \<longrightarrow> list_ok k A q xs) \<and>
     A (TickL TickQueue) \<noteq> None"

definition kinv :: "kst \<Rightarrow> klink lists \<Rightarrow> bool" where
  "kinv k A \<longleftrightarrow> kbase k A \<and> (\<exists>c. running k A c)"

lemma kbase_sched: "kbase k A \<Longrightarrow> sched_inv k A"
  by (simp add: kbase_def)

lemma kbase_krep: "kbase k A \<Longrightarrow> krep k A"
  by (simp add: kbase_sched sched_inv_krep)

lemma kbase_list_ok: "kbase k A \<Longrightarrow> A q = Some xs \<Longrightarrow> list_ok k A q xs"
  by (simp add: kbase_def)

lemma kbase_ready_live: "kbase k A \<Longrightarrow> x \<in> set (ready A p) \<Longrightarrow> live k x"
  using kbase_list_ok [of k A "RQ p"] by (cases "A (RQ p)") (auto simp: ready_def)

lemma kbase_contexts: "kbase k A \<Longrightarrow> contexts_ready k A"
  using kbase_ready_live by (fastforce simp: contexts_ready_def live_def)

lemma kinv_kbase: "kinv k A \<Longrightarrow> kbase k A"
  by (simp add: kinv_def)

text \<open>The task lists: those whose nodes are \<open>list\<close> members of tasks.\<close>

fun task_list :: "klink \<Rightarrow> bool" where
  "task_list (TcbL (QTcb p)) = (p < SYSTEM_WORD)"
| "task_list (SemL _) = True"
| "task_list (MutexL _) = True"
| "task_list (QueueL _) = True"
| "task_list _ = False"

lemma task_list_ok:
  "task_list q \<Longrightarrow> list_ok k A q xs \<longleftrightarrow> (\<forall>x \<in> set xs. live k x) \<and>
     (\<forall>m. q = MutexL m \<longrightarrow> unat (copy_prio (mutexes k m)) < SYSTEM_WORD)"
  by (cases q rule: task_list.cases) auto

lemma task_list_live: "kbase k A \<Longrightarrow> task_list q \<Longrightarrow> A q = Some xs \<Longrightarrow> x \<in> set xs \<Longrightarrow> live k x"
  using kbase_list_ok task_list_ok by blast

lemma member_of_task_list:
  assumes "kbase k A" "A q = Some xs" "TL n \<in> set xs"
  shows "task_list q"
  using kbase_list_ok [OF assms(1,2)] assms(3)
  by (cases q rule: task_list.cases; cases "(k, A, q, xs)" rule: list_ok.cases)
    (auto simp: tick_ok_def)

text \<open>A sleeping task has its delay member on the tick queue, and is on no other list.\<close>

definition asleep :: "klink lists \<Rightarrow> nat \<Rightarrow> bool" where
  "asleep A n \<longleftrightarrow> TickL (DelayOf (Tcb n)) \<in> members A"

lemma asleep_tick:
  assumes "kbase k A" "asleep A n"
  obtains xs where "A (TickL TickQueue) = Some xs" "TickL (DelayOf (Tcb n)) \<in> set xs"
    "tick_ok k A (TickL (DelayOf (Tcb n)))"
proof -
  obtain q xs where q: "A q = Some xs" "TickL (DelayOf (Tcb n)) \<in> set xs"
    using assms(2) by (auto simp: asleep_def members_iff)
  have "list_ok k A q xs" by (rule kbase_list_ok [OF assms(1) q(1)])
  then have "q = TickL TickQueue \<and> tick_ok k A (TickL (DelayOf (Tcb n)))"
    using q(2) by (cases "(k, A, q, xs)" rule: list_ok.cases) (auto simp: live_def)
  with q that show thesis by blast
qed

lemma threaded_awake: "kbase k A \<Longrightarrow> TL n \<in> members A \<Longrightarrow> \<not> asleep A n"
  by (erule contrapos_pn, erule (1) asleep_tick) (auto simp: tick_ok_def unthreaded_iff)

text \<open>\<open>list_ok\<close> only depends on what the task, tick, mutex and queue tables say and on which
  tasks are threaded.\<close>

lemma live_cong: "tcbs k' = tcbs k \<Longrightarrow> live k' x = live k x"
  by (simp add: live_def)

lemma list_ok_cong:
  assumes "tcbs k' = tcbs k" "ticks k' = ticks k"
    and "\<And>m. copy_prio (mutexes k' m) = copy_prio (mutexes k m)" "queues k' = queues k"
    and "\<And>n. asleep A n \<Longrightarrow> unthreaded A (TL n) \<Longrightarrow> unthreaded A' (TL n)"
    and "A q = Some xs"
  shows "list_ok k A q xs \<Longrightarrow> list_ok k' A' q xs"
proof (cases "q = TickL TickQueue")
  case True
  assume "list_ok k A q xs"
  moreover have "\<And>n. TickL (DelayOf (Tcb n)) \<in> set xs \<Longrightarrow> asleep A n"
    using assms(6) by (auto simp: asleep_def members_iff)
  ultimately show ?thesis
    using True assms(1,2,5) by (fastforce simp: tick_ok_def live_def)
next
  case False
  assume "list_ok k A q xs"
  with False show ?thesis
    using assms(1,3,4) by (cases "(k, A, q, xs)" rule: list_ok.cases) (auto simp: live_def)
qed

lemma kbase_cong:
  assumes "kbase k A" "heap k' = heap k" "bm_y k' = bm_y k" "bm_c k' = bm_c k" "tcbs k' = tcbs k"
    "ticks k' = ticks k" "\<And>m. copy_prio (mutexes k' m) = copy_prio (mutexes k m)"
    "queues k' = queues k"
  shows "kbase k' A"
  using assms sched_inv_cong [of k' k A] list_ok_cong [of k' k A A] by (simp add: kbase_def)

lemma running_cong: "new_task k' = new_task k \<Longrightarrow> tcbs k' = tcbs k \<Longrightarrow> running k' A c = running k A c"
  by (simp add: running_def)

lemma kinv_cong:
  assumes "kinv k A" "heap k' = heap k" "bm_y k' = bm_y k" "bm_c k' = bm_c k" "tcbs k' = tcbs k"
    "ticks k' = ticks k" "\<And>m. copy_prio (mutexes k' m) = copy_prio (mutexes k m)"
    "queues k' = queues k" "new_task k' = new_task k"
  shows "kinv k' A"
proof -
  obtain c where "kbase k A" "running k A c" using assms(1) by (auto simp: kinv_def)
  moreover have "kbase k' A" by (rule kbase_cong [OF _ assms(2-8)]) fact
  ultimately show ?thesis
    using running_cong [OF assms(9,5)] by (auto simp: kinv_def)
qed

text \<open>Changing task lists: the new state is again well formed when the scheduler part is,
  the changed lists hold live tasks, and no sleeping task got threaded.\<close>

lemma kbase_task_lists:
  assumes b: "kbase k A" and s: "sched_inv k' A'"
    and t: "tcbs k' = tcbs k" "ticks k' = ticks k"
      "\<And>m. copy_prio (mutexes k' m) = copy_prio (mutexes k m)" "queues k' = queues k"
    and d: "\<And>q. \<not> task_list q \<Longrightarrow> A' q = A q"
    and e: "\<And>q. task_list q \<Longrightarrow> A' q \<noteq> None \<Longrightarrow> A q \<noteq> None"
    and l: "\<And>q xs x. task_list q \<Longrightarrow> A' q = Some xs \<Longrightarrow> x \<in> set xs \<Longrightarrow> live k x"
    and u: "\<And>n. asleep A n \<Longrightarrow> unthreaded A (TL n) \<Longrightarrow> unthreaded A' (TL n)"
  shows "kbase k' A'"
  unfolding kbase_def
proof (intro conjI allI impI)
  show "sched_inv k' A'" by (rule s)
  show "A' (TickL TickQueue) \<noteq> None" using b d by (simp add: kbase_def)
  fix q xs assume q: "A' q = Some xs"
  show "list_ok k' A' q xs"
  proof (cases "task_list q")
    case True
    then obtain ys where "A q = Some ys" using e q by blast
    with True b have "list_ok k A q ys" by (simp add: kbase_def)
    with True have "\<forall>m. q = MutexL m \<longrightarrow> unat (copy_prio (mutexes k m)) < SYSTEM_WORD"
      by (simp add: task_list_ok)
    with True show ?thesis using l [OF True q] t live_cong [OF t(1)] by (simp add: task_list_ok)
  next
    case False
    with d q have "A q = Some xs" by metis
    then show ?thesis using list_ok_cong [OF t u _ kbase_list_ok [OF b]] by blast
  qed
qed

subsection \<open>Tasks on lists\<close>

text \<open>The tasks the kernel knows: on a ready queue, on a wait list, or asleep.\<close>

definition tasks_of :: "klink lists \<Rightarrow> nat set" where
  "tasks_of A = {n. TL n \<in> members A \<or> TickL (DelayOf (Tcb n)) \<in> members A}"

lemma tasks_of_members: "members A' = members A \<Longrightarrow> tasks_of A' = tasks_of A"
  by (simp add: tasks_of_def)

subsection \<open>Between calls\<close>

text \<open>The scheduler keeps the invariant and the set of tasks.\<close>

lemma asched_lists:
  assumes "kbase k A" "ready_set A \<noteq> {}"
  shows "kbase k' (asched A) \<longleftrightarrow> sched_inv k' (asched A) \<and>
      (\<forall>q xs. asched A q = Some xs \<longrightarrow> list_ok k' (asched A) q xs)"
    and "members (asched A) = members A"
    and "\<And>n. unthreaded A (TL n) \<Longrightarrow> unthreaded (asched A) (TL n)"
proof -
  have A: "A (RQ (top_prio A)) = Some (ready A (top_prio A))"
    using sched_inv_ready [OF kbase_sched [OF assms(1)] top_prio_lt [OF assms(2)]] .
  show m: "members (asched A) = members A"
    unfolding asched_def by (rule members_permute [where A = A and q = "RQ (top_prio A)", OF A]) simp
  show "kbase k' (asched A) \<longleftrightarrow> sched_inv k' (asched A) \<and>
      (\<forall>q xs. asched A q = Some xs \<longrightarrow> list_ok k' (asched A) q xs)"
    using assms(1) by (simp add: kbase_def asched_def)
  show "unthreaded A (TL n) \<Longrightarrow> unthreaded (asched A) (TL n)" for n
    using m by (simp add: unthreaded_iff asched_def)
qed

lemma kbase_asched:
  assumes b: "kbase k A" and ne: "ready_set A \<noteq> {}" and s: "sched_inv k' (asched A)"
    and "tcbs k' = tcbs k" "ticks k' = ticks k"
      "\<And>m. copy_prio (mutexes k' m) = copy_prio (mutexes k m)" "queues k' = queues k"
  shows "kbase k' (asched A)"
proof (rule kbase_task_lists [OF b s assms(4-7)])
  have p: "top_prio A < 32" by (rule top_prio_lt [OF ne])
  show "asched A q = A q" if "\<not> task_list q" for q
    using that p by (auto simp: asched_def)
  show "A q \<noteq> None" if "task_list q" "asched A q \<noteq> None" for q
    using that sched_inv_ready [OF kbase_sched [OF b] p] by (auto simp: asched_def split: if_splits)
  show "live k x" if "task_list q" "asched A q = Some xs" "x \<in> set xs" for q xs x
    using that kbase_ready_live [OF b] task_list_live [OF b]
    by (auto simp: asched_def split: if_splits)
qed (rule asched_lists(3) [OF b ne])

text \<open>\<open>schedule\<close> re-establishes the full invariant: afterwards the running task is the one
  chosen, and it is ready.\<close>

lemma running_chosen:
  assumes "kbase k A" "ready_set A \<noteq> {}" "new_task k' = chosen A" "tcbs k' = tcbs k"
  obtains c where "running k' (asched A) c" "chosen A = Some (Tcb c)"
proof -
  obtain n xs where x: "ready A (top_prio A) = TL n # xs" "chosen A = Some (Tcb n)"
      "unat (prio (tcbs k (Tcb n))) = top_prio A"
    using chosen_ready [OF kbase_sched [OF assms(1)] assms(2)] .
  then have "running k' (asched A) n"
    using assms(3,4) by (simp add: running_def asched_def)
  with x(2) that show thesis by blast
qed

lemma schedule_kinv:
  assumes b: "kbase k A" and ne: "ready_set A \<noteq> {}" and cur: "new_task k \<noteq> None"
    and lock: "schedule_is_lock k \<noteq> TRUE"
  shows "\<exists>k' t. schedule k = Some k' \<and> chosen A = Some t \<and> kinv k' (asched A) \<and>
    new_task k' = Some t \<and> same_but_sched k k' \<and>
    switches k' = switches k @ (if new_task k = Some t then [] else [(new_task k, t)])"
proof -
  obtain k' t where k': "schedule k = Some k'" "chosen A = Some t" "sched_inv k' (asched A)"
    "new_task k' = Some t" "same_but_sched k k'"
    "switches k' = switches k @ (if new_task k = Some t then [] else [(new_task k, t)])"
    using schedule_ok [OF kbase_sched [OF b] ne kbase_contexts [OF b] cur lock] by blast
  have "kbase k' (asched A)"
    using k'(5) by (intro kbase_asched [OF b ne k'(3)]) (simp_all add: same_but_sched_def)
  moreover obtain c where "running k' (asched A) c"
    using running_chosen [OF b ne, of k'] k'(2,4,5) by (metis same_but_sched_def)
  ultimately have "kinv k' (asched A)" by (auto simp: kinv_def)
  with k' show ?thesis by blast
qed

lemma running_ready: "running k A c \<Longrightarrow> kbase k A \<Longrightarrow> unat (prio (tcbs k (Tcb c))) \<in> ready_set A"
  using kbase_ready_live [of k A "TL c"]
  by (auto simp: running_def ready_set_def live_def)

text \<open>Taking the running task off its ready queue leaves it on no list.\<close>

lemma delete_running:
  assumes b: "kbase k A" and r: "running k A c"
  defines "p \<equiv> unat (prio (tcbs k (Tcb c)))"
  defines "A' \<equiv> A(RQ p \<mapsto> remove1 (TL c) (ready A p))"
  shows "\<exists>k'. prio_ready_queue_delete (Some (Tcb c)) k = Some k' \<and> kbase k' A' \<and>
    same_but_ready k k' \<and> unthreaded A' (TL c) \<and> members A = insert (TL c) (members A')"
proof -
  have p: "p < 32" using running_ready [OF r b] by (simp add: ready_set_def p_def)
  have mem: "TL c \<in> set (ready A p)" using r by (simp add: running_def p_def)
  then obtain as bs where ab: "ready A p = as @ TL c # bs" "TL c \<notin> set as"
    by (meson split_list_first)
  have rm: "A' = A(RQ p \<mapsto> as @ bs)" using ab by (simp add: A'_def remove1_append)
  have s: "sched_inv k A" by (rule kbase_sched [OF b])
  have Ap: "A (RQ p) = Some (as @ TL c # bs)" using sched_inv_ready [OF s p] ab by simp
  obtain k' where k': "prio_ready_queue_delete (Some (Tcb c)) k = Some k'" "sched_inv k' A'"
    "same_but_ready k k'"
    using prio_ready_queue_delete_ok [OF s p ab(1)] rm by auto
  have u: "unthreaded A' (TL c)"
    using kl.unthreaded_after_del [OF sched_inv_krep [OF s] Ap] rm by simp
  have m: "members A = insert (TL c) (members A')"
    using members_split [where A = A and q = "RQ p", OF Ap] by (auto simp: rm members_upd)
  have "kbase k' A'"
  proof (rule kbase_task_lists [OF b k'(2)])
    show "A' q = A q" if "\<not> task_list q" for q
      using that p by (auto simp: A'_def)
    show "A q \<noteq> None" if "task_list q" "A' q \<noteq> None" for q
      using that Ap by (auto simp: A'_def split: if_splits)
    show "live k x" if "task_list q" "A' q = Some xs" "x \<in> set xs" for q xs x
      using that kbase_ready_live [OF b, of x p] task_list_live [OF b, of q xs x] ab(1)
      by (auto simp: rm split: if_splits)
    show "unthreaded A' (TL n)" if "unthreaded A (TL n)" for n
      using that m Ap by (auto simp: unthreaded_iff A'_def)
  qed (use k'(3) in \<open>simp_all add: same_but_ready_def\<close>)
  with k' u m show ?thesis by blast
qed

text \<open>Making a task ready that is on no list and not asleep.\<close>

lemma kbase_make_ready:
  assumes b: "kbase k A" and u: "unthreaded A (TL n)" and a: "\<not> asleep A n"
    and l: "live k (TL n)" and p: "unat (prio (tcbs k (Tcb n))) = p"
    and s: "sched_inv k' (A(RQ p \<mapsto> ys))" and f: "same_but_ready k k'"
    and ys: "set ys = insert (TL n) (set (ready A p))"
  shows "kbase k' (A(RQ p \<mapsto> ys))"
proof (rule kbase_task_lists [OF b s])
  have pl: "p < 32" using l p by (auto simp: live_def)
  have Ap: "A (RQ p) = Some (ready A p)" using sched_inv_ready [OF kbase_sched [OF b] pl] .
  show "(A(RQ p \<mapsto> ys)) q = A q" if "\<not> task_list q" for q
    using that pl by auto
  show "A q \<noteq> None" if "task_list q" "(A(RQ p \<mapsto> ys)) q \<noteq> None" for q
    using that Ap by (auto split: if_splits)
  show "live k x" if "task_list q" "(A(RQ p \<mapsto> ys)) q = Some xs" "x \<in> set xs" for q xs x
    using that l ys kbase_ready_live [OF b, of x p] task_list_live [OF b, of q xs x]
    by (auto split: if_splits)
  show "unthreaded (A(RQ p \<mapsto> ys)) (TL m)" if "asleep A m" "unthreaded A (TL m)" for m
  proof -
    have "m \<noteq> n" using that(1) a by blast
    with that(2) show ?thesis
      using ys members_split [where A = A and q = "RQ p", OF Ap]
      by (auto simp: unthreaded_iff members_upd)
  qed
qed (use f in \<open>simp_all add: same_but_ready_def\<close>)

lemma insert_head_kbase:
  assumes "kbase k A" "unthreaded A (TL n)" "\<not> asleep A n" "live k (TL n)"
    and p: "unat (prio (tcbs k (Tcb n))) = p"
  shows "\<exists>k'. prio_ready_queue_insert_head (Some (Tcb n)) k = Some k' \<and>
    kbase k' (A(RQ p \<mapsto> TL n # ready A p)) \<and> same_but_ready k k'"
proof -
  have pl: "p < 32" using assms(4) p by (auto simp: live_def)
  from prio_ready_queue_insert_head_ok [OF kbase_sched [OF assms(1)] assms(2) p pl]
  obtain k' where "prio_ready_queue_insert_head (Some (Tcb n)) k = Some k'"
    "sched_inv k' (A(RQ p \<mapsto> TL n # ready A p))" "same_but_ready k k'" by blast
  then show ?thesis using kbase_make_ready [OF assms] by auto
qed

lemma insert_tail_kbase:
  assumes "kbase k A" "unthreaded A (TL n)" "\<not> asleep A n" "live k (TL n)"
    and p: "unat (prio (tcbs k (Tcb n))) = p"
  shows "\<exists>k'. prio_ready_queue_insert_tail (Some (Tcb n)) k = Some k' \<and>
    kbase k' (A(RQ p \<mapsto> ready A p @ [TL n])) \<and> same_but_ready k k'"
proof -
  have pl: "p < 32" using assms(4) p by (auto simp: live_def)
  from prio_ready_queue_insert_tail_ok [OF kbase_sched [OF assms(1)] assms(2) p pl]
  obtain k' where "prio_ready_queue_insert_tail (Some (Tcb n)) k = Some k'"
    "sched_inv k' (A(RQ p \<mapsto> ready A p @ [TL n]))" "same_but_ready k k'" by blast
  then show ?thesis using kbase_make_ready [OF assms] by auto
qed

text \<open>A task other than \<open>c\<close> is ready: what a call of \<open>c\<close> that blocks needs.\<close>

definition others_ready :: "klink lists \<Rightarrow> nat \<Rightarrow> bool" where
  "others_ready A c \<longleftrightarrow> (\<exists>p<SYSTEM_WORD. \<exists>x \<in> set (ready A p). x \<noteq> TL c)"

lemma others_ready_after_remove:
  assumes "others_ready A c"
  shows "ready_set (A(RQ p \<mapsto> remove1 (TL c) (ready A p))) \<noteq> {}"
proof -
  obtain q x where q: "q < 32" "x \<in> set (ready A q)" "x \<noteq> TL c"
    using assms by (auto simp: others_ready_def)
  then have "x \<in> set (ready (A(RQ p \<mapsto> remove1 (TL c) (ready A p))) q)"
    by (auto simp: in_set_remove1)
  with q(1) show ?thesis unfolding ready_set_def by (metis (mono_tags, lifting) empty_iff
      empty_set mem_Collect_eq)
qed

lemma running_only_there:
  assumes b: "kbase k A" and r: "running k A c" and "q \<noteq> unat (prio (tcbs k (Tcb c)))"
  shows "TL c \<notin> set (ready A q)"
proof
  assume c: "TL c \<in> set (ready A q)"
  then have "q < 32" using kbase_list_ok [OF b, of "RQ q"] by (cases "A (RQ q)") (auto simp: ready_def)
  with c show False
    using sched_inv_task_at [OF kbase_sched [OF b], of q] assms(3) by (auto simp: task_at_def)
qed

subsection \<open>New lists\<close>

text \<open>The heads of wait lists and message lists are members of no list, so that they can be
  initialised at any time.\<close>

fun object_head :: "klink \<Rightarrow> bool" where
  "object_head (SemL _) = True"
| "object_head (MutexL _) = True"
| "object_head (QueueL _) = True"
| "object_head (QMsgL _) = True"
| "object_head _ = False"

lemma object_head_not_member:
  assumes "kbase k A" "object_head q"
  shows "not_member A q"
  unfolding not_member_def
proof (intro allI impI notI)
  fix r ys assume r: "A r = Some ys" "q \<in> set ys"
  have "list_ok k A r ys" by (rule kbase_list_ok [OF assms(1) r(1)])
  with r(2) assms(2) show False
    by (cases "(k, A, r, ys)" rule: list_ok.cases) (auto simp: live_def tick_ok_def)
qed

lemma kbase_new_list:
  assumes b: "kbase k A" and q: "object_head q"
    and e: "heap k' = heap (klist_init q k)" "bm_y k' = bm_y k" "bm_c k' = bm_c k"
      "tcbs k' = tcbs k" "ticks k' = ticks k"
    and ok: "list_ok k' (A(q \<mapsto> [])) q []"
    and oth: "\<And>r xs. r \<noteq> q \<Longrightarrow> list_ok k A r xs \<Longrightarrow> list_ok k' A r xs"
  shows "kbase k' (A(q \<mapsto> []))"
proof -
  have nr: "q \<noteq> RQ p" "q \<noteq> TL n" for p n using q by auto
  have "krep (klist_init q k) (A(q \<mapsto> []))"
    using kl.init_law [OF kbase_krep [OF b] object_head_not_member [OF b q]] .
  then have "krep k' (A(q \<mapsto> []))" using e(1) by (simp add: krep_def)
  then have "sched_inv k' (A(q \<mapsto> []))"
    using kbase_sched [OF b] nr e by (intro sched_inv_other_upd [where k = k]) auto
  moreover have un: "unthreaded (A(q \<mapsto> [])) (TL n)" if "unthreaded A (TL n)" for n
    using that nr by (auto simp: unthreaded_def)
  have "list_ok k' (A(q \<mapsto> [])) r xs" if r: "(A(q \<mapsto> [])) r = Some xs" for r xs
  proof (cases "r = q")
    case True
    then show ?thesis using r ok by simp
  next
    case False
    then have "list_ok k' A r xs" using r oth kbase_list_ok [OF b] by simp
    then show ?thesis
      using un by (cases "(k', A, r, xs)" rule: list_ok.cases) (auto simp: tick_ok_def)
  qed
  moreover have "(A(q \<mapsto> [])) TQ0 \<noteq> None" if "A TQ0 \<noteq> None" for TQ0 using that by simp
  ultimately show ?thesis using b by (simp add: kbase_def)
qed

subsection \<open>Objects tasks wait on\<close>

text \<open>The shared contract of semaphores, mutexes and message queues: object \<open>i\<close> owns the list
  at \<open>whead i\<close>.\<close>

locale wait_object =
  fixes whead :: "nat \<Rightarrow> klink"
  assumes whead_task_list: "task_list (whead i)"
    and whead_not_ready: "whead i \<noteq> RQ p"
    and whead_not_task: "whead i \<noteq> TL n"
begin

lemma waiter_live: "kbase k A \<Longrightarrow> A (whead i) = Some ws \<Longrightarrow> x \<in> set ws \<Longrightarrow> live k x"
  using task_list_live whead_task_list by blast

text \<open>Blocking the running task puts it last on the wait list.\<close>

lemma block_running:
  assumes b: "kbase k A" and r: "running k A c" and w: "A (whead i) = Some ws"
  defines "p \<equiv> unat (prio (tcbs k (Tcb c)))"
  defines "A' \<equiv> A(RQ p \<mapsto> remove1 (TL c) (ready A p), whead i \<mapsto> ws @ [TL c])"
  shows "\<exists>k'. Option.bind (prio_ready_queue_delete (Some (Tcb c)) k) (kenq (whead i) (TL c)) =
      Some k' \<and> kbase k' A' \<and> same_but_ready k k' \<and> members A' = members A"
proof -
  define A1 where "A1 = A(RQ p \<mapsto> remove1 (TL c) (ready A p))"
  obtain k1 where k1: "prio_ready_queue_delete (Some (Tcb c)) k = Some k1" "kbase k1 A1"
    "same_but_ready k k1" "unthreaded A1 (TL c)" "members A = insert (TL c) (members A1)"
    using delete_running [OF b r] by (auto simp: A1_def p_def)
  have w1: "A1 (whead i) = Some ws" using w whead_not_ready by (simp add: A1_def)
  obtain k2 where k2: "kenq (whead i) (TL c) k1 = Some k2" "krep k2 (A1(whead i \<mapsto> ws @ [TL c]))"
    using kl.enq_law [OF kbase_krep [OF k1(2)] w1 k1(4)] by blast
  have A': "A' = A1(whead i \<mapsto> ws @ [TL c])" by (simp add: A'_def A1_def)
  note h = same_but_heap_sel [OF klist_frame(1) [OF k2(1)]]
  have s: "sched_inv k2 A'"
    unfolding A' using k1(2) k2(2) h whead_not_ready
    by (intro sched_inv_other_upd [where k = k1]) (simp_all add: kbase_sched)
  have lc: "live k1 (TL c)"
    using kbase_ready_live [OF b, of "TL c"] r k1(3)
    by (auto simp: running_def live_def same_but_ready_def)
  have awake: "\<not> asleep A1 c"
  proof -
    have "\<not> asleep A c" using threaded_awake [OF b] k1(5) by simp
    then show ?thesis using k1(5) by (simp add: asleep_def)
  qed
  have mem: "members A' = members A"
    using k1(5) members_split [where A = A1 and q = "whead i", OF w1]
    by (simp add: A' members_upd)
  have "kbase k2 A'"
  proof (rule kbase_task_lists [OF k1(2) s])
    show "A' q = A1 q" if "\<not> task_list q" for q
      using that whead_task_list by (auto simp: A')
    show "A1 q \<noteq> None" if "task_list q" "A' q \<noteq> None" for q
      using that w1 by (auto simp: A' split: if_splits)
    show "live k1 x" if "task_list q" "A' q = Some xs" "x \<in> set xs" for q xs x
      using that lc waiter_live [OF k1(2) w1] task_list_live [OF k1(2), of q xs x]
      by (auto simp: A' split: if_splits)
    show "unthreaded A' (TL n)" if "asleep A1 n" "unthreaded A1 (TL n)" for n
      using that awake mem k1(5) whead_not_task [THEN not_sym]
      by (auto simp: unthreaded_iff A')
  qed (use h in simp_all)
  moreover have "same_but_ready k k2"
    using same_but_ready_trans [OF k1(3) same_but_heap_ready [OF klist_frame(1) [OF k2(1)]]] .
  ultimately show ?thesis using k1(1) k2(1) mem by auto
qed

text \<open>The whole blocking sequence, the switch included. It needs another task to run.\<close>

lemma block_and_schedule:
  assumes b: "kbase k A" and r: "running k A c" and w: "A (whead i) = Some ws"
    and o: "others_ready A c" and lock: "schedule_is_lock k \<noteq> TRUE"
  defines "p \<equiv> unat (prio (tcbs k (Tcb c)))"
  defines "A' \<equiv> A(RQ p \<mapsto> remove1 (TL c) (ready A p), whead i \<mapsto> ws @ [TL c])"
  shows "\<exists>k1 k2 k' t. prio_ready_queue_delete (Some (Tcb c)) k = Some k1 \<and>
    kenq (whead i) (TL c) k1 = Some k2 \<and> schedule k2 = Some k' \<and> chosen A' = Some t \<and>
    t \<noteq> Tcb c \<and> kinv k' (asched A') \<and> same_but_ready k k1 \<and> same_but_sched k k' \<and>
    new_task k' = Some t \<and> switches k' = switches k @ [(Some (Tcb c), t)] \<and>
    members (asched A') = members A"
proof -
  obtain k1 k2 where k2: "prio_ready_queue_delete (Some (Tcb c)) k = Some k1"
    "kenq (whead i) (TL c) k1 = Some k2" "kbase k2 A'" "same_but_ready k k2"
    "members A' = members A"
    using block_running [OF b r w] by (auto simp: A'_def p_def elim!: bind_SomeE)
  have "same_but_ready k1 k2" using same_but_heap_ready [OF klist_frame(1) [OF k2(2)]] .
  with k2(4) have f1: "same_but_ready k k1" by (simp add: same_but_ready_def)
  have ne: "ready_set A' \<noteq> {}"
    using others_ready_after_remove [OF o] whead_not_ready by (simp add: A'_def)
  have nt: "new_task k2 = Some (Tcb c)" using r k2(4) by (simp add: running_def same_but_ready_def)
  obtain k' t where k': "schedule k2 = Some k'" "chosen A' = Some t" "kinv k' (asched A')"
    "new_task k' = Some t" "same_but_sched k2 k'"
    "switches k' = switches k2 @ (if new_task k2 = Some t then [] else [(new_task k2, t)])"
    using schedule_kinv [OF k2(3) ne] nt lock k2(4) by (auto simp: same_but_ready_def)
  have "TL c \<notin> set (ready A' q)" for q
  proof -
    have "distinct (ready A p)"
      using sched_inv_ready [OF kbase_sched [OF b], of p] kl.rep_distinct [OF kbase_krep [OF b]]
        running_ready [OF r b] by (auto simp: p_def ready_set_def)
    moreover have "TL c \<notin> set (ready A q)" if "q \<noteq> p"
      using running_only_there [OF b r] that by (simp add: p_def)
    ultimately show ?thesis using whead_not_ready by (simp add: A'_def)
  qed
  then have "t \<noteq> Tcb c"
    using chosen_ready [OF kbase_sched [OF k2(3)] ne] k'(2)
    by (metis list.set_intros(1) option.inject)
  then show ?thesis
    using k2 k' f1 nt asched_lists(2) [OF k2(3) ne]
    by (auto simp: same_but_ready_def same_but_sched_def)
qed

text \<open>Waking moves the longest-waiting task to the head of its ready queue.\<close>

lemma wake_first:
  assumes b: "kbase k A" and w: "A (whead i) = Some (TL n # ws)"
  defines "p \<equiv> unat (prio (tcbs k (Tcb n)))"
  defines "A' \<equiv> A(whead i \<mapsto> ws, RQ p \<mapsto> TL n # ready A p)"
  shows "\<exists>k'. Option.bind (kdel (TL n) k) (prio_ready_queue_insert_head (Some (Tcb n))) =
      Some k' \<and> kbase k' A' \<and> same_but_ready k k' \<and> members A' = members A"
proof -
  define A1 where "A1 = A(whead i \<mapsto> ws)"
  have l: "live k (TL n)" using waiter_live [OF b w] by simp
  then have p: "p < 32" by (simp add: live_def p_def)
  obtain k1 where k1: "kdel (TL n) k = Some k1" "krep k1 A1"
    using kl.del_law [OF kbase_krep [OF b], of "whead i" "[]"] w by (auto simp: A1_def)
  note h = same_but_heap_sel [OF klist_frame(3) [OF k1(1)]]
  have u: "unthreaded A1 (TL n)"
    using kl.unthreaded_after_del [OF kbase_krep [OF b], of "whead i" "[]" "TL n" ws] w
    by (simp add: A1_def)
  have s: "sched_inv k1 A1"
    unfolding A1_def using b k1(2) h whead_not_ready
    by (intro sched_inv_other_upd [where k = k]) (simp_all add: kbase_sched A1_def)
  have m1: "members A = insert (TL n) (members A1)"
    using members_split [where A = A and q = "whead i", OF w] by (simp add: A1_def members_upd)
  have b1: "kbase k1 A1"
  proof (rule kbase_task_lists [OF b s])
    show "A1 q = A q" if "\<not> task_list q" for q
      using that whead_task_list by (auto simp: A1_def)
    show "A q \<noteq> None" if "task_list q" "A1 q \<noteq> None" for q
      using that w by (auto simp: A1_def split: if_splits)
    show "live k x" if "task_list q" "A1 q = Some xs" "x \<in> set xs" for q xs x
      using that waiter_live [OF b w] task_list_live [OF b, of q xs x]
      by (auto simp: A1_def split: if_splits)
    show "unthreaded A1 (TL j)" if "asleep A j" "unthreaded A (TL j)" for j
      using that m1 whead_not_task [THEN not_sym] by (auto simp: unthreaded_iff A1_def)
  qed (use h in simp_all)
  have "\<not> asleep A n" using threaded_awake [OF b] m1 by simp
  then have awake: "\<not> asleep A1 n" using m1 by (simp add: asleep_def)
  have rp: "ready A1 p = ready A p" using whead_not_ready by (simp add: A1_def)
  obtain k2 where k2: "prio_ready_queue_insert_head (Some (Tcb n)) k1 = Some k2"
    "kbase k2 (A1(RQ p \<mapsto> TL n # ready A p))" "same_but_ready k1 k2"
    using insert_head_kbase [OF b1 u awake, of p] l h(1) rp by (auto simp: live_def p_def)
  have A': "A' = A1(RQ p \<mapsto> TL n # ready A p)" by (simp add: A'_def A1_def)
  have "A1 (RQ p) = Some (ready A p)"
    using sched_inv_ready [OF kbase_sched [OF b1] p] rp by simp
  then have "members A' = members A"
    using m1 members_split [of A1 "RQ p" "ready A p"] by (simp add: A' members_upd)
  moreover have "same_but_ready k k2"
    using same_but_ready_trans [OF same_but_heap_ready [OF klist_frame(3) [OF k1(1)]] k2(3)] .
  ultimately show ?thesis using k1(1) k2 by (auto simp: A')
qed

lemma wake_first_waiter:
  assumes b: "kbase k A" and w: "A (whead i) = Some (TL n # ws)"
  defines "p \<equiv> unat (prio (tcbs k (Tcb n)))"
  defines "A' \<equiv> A(whead i \<mapsto> ws, RQ p \<mapsto> TL n # ready A p)"
  shows "\<exists>k1 k2. kdel (TL n) k = Some k1 \<and>
    prio_ready_queue_insert_head (Some (Tcb n)) k1 = Some k2 \<and> kbase k2 A' \<and>
    same_but_ready k k2 \<and> ready_set A' \<noteq> {} \<and> members A' = members A \<and>
    klast k (whead i) = False \<and> knext k (whead i) = Some (TL n)"
proof -
  obtain k1 k2 where k2: "kdel (TL n) k = Some k1"
    "prio_ready_queue_insert_head (Some (Tcb n)) k1 = Some k2" "kbase k2 A'"
    "same_but_ready k k2" "members A' = members A"
    using wake_first [OF b w] by (auto simp: A'_def p_def elim!: bind_SomeE)
  have "p < 32" using waiter_live [OF b w, of "TL n"] by (simp add: live_def p_def)
  then have "p \<in> ready_set A'" by (simp add: ready_set_def A'_def)
  then show ?thesis
    using k2 klast_iff [OF kbase_krep [OF b] w] knext_first [OF kbase_krep [OF b] w] by auto
qed

text \<open>The waking step of a release: with no waiter nothing happens, otherwise the task that has
  waited longest goes to the head of its ready queue.\<close>

lemma wake_step:
  assumes b: "kbase k A" and w: "A (whead i) = Some ws" and ne: "ready_set A \<noteq> {}"
  shows "\<exists>k' A'. (if \<not> klast k (whead i) then do {
                 n \<leftarrow> knext k (whead i);
                 t \<leftarrow> tcb_of_link n;
                 k \<leftarrow> kdel (TcbL t) k;
                 prio_ready_queue_insert_head (Some t) k
               } else Some k) = Some k' \<and> kbase k' A' \<and> same_but_ready k k' \<and> ready_set A' \<noteq> {} \<and>
    members A' = members A \<and> A' (whead i) = Some (tl ws) \<and>
    (\<forall>p. set (ready A p) \<subseteq> set (ready A' p)) \<and>
    (\<forall>q. q \<noteq> whead i \<and> (\<forall>p. q \<noteq> RQ p) \<longrightarrow> A' q = A q) \<and>
    (\<forall>n. ws \<noteq> [] \<and> hd ws = TL n \<longrightarrow> TL n \<in> set (ready A' (unat (prio (tcbs k (Tcb n))))))"
proof (cases ws)
  case Nil
  then have "klast k (whead i)" using klast_iff [OF kbase_krep [OF b] w] by simp
  then show ?thesis using Nil b w ne by (intro exI [of _ k] exI [of _ A]) simp
next
  case (Cons x xs)
  then obtain n where x: "x = TL n"
    using waiter_live [OF b w, of x] by (auto simp: live_def)
  let ?p = "unat (prio (tcbs k (Tcb n)))"
  let ?A = "A(whead i \<mapsto> xs, RQ ?p \<mapsto> TL n # ready A ?p)"
  have w': "A (whead i) = Some (TL n # xs)" using w Cons x by simp
  obtain k1 k2 where k2: "kdel (TL n) k = Some k1"
    "prio_ready_queue_insert_head (Some (Tcb n)) k1 = Some k2" "kbase k2 ?A"
    "same_but_ready k k2" "ready_set ?A \<noteq> {}" "members ?A = members A"
    "klast k (whead i) = False" "knext k (whead i) = Some (TL n)"
    using wake_first_waiter [OF b w'] by blast
  then show ?thesis
    using Cons x whead_not_ready by (intro exI [of _ k2] exI [of _ ?A]) auto
qed

end

interpretation semw: wait_object SemL by unfold_locales auto

interpretation mutexw: wait_object MutexL by unfold_locales auto

interpretation msgw: wait_object QueueL by unfold_locales auto

subsection \<open>Scheduling properties\<close>

text \<open>C7: \<open>schedule\<close> runs a task of the most urgent priority that has one: the first of its ready
  queue, which then moves to the end; the task switch is made exactly when that is another
  task than the running one.\<close>

theorem schedule_runs_most_urgent:
  assumes "kinv k A" "schedule_is_lock k \<noteq> TRUE"
  shows "\<exists>k' n xs. schedule k = Some k' \<and> ready A (top_prio A) = TL n # xs \<and>
    new_task k' = Some (Tcb n) \<and> kinv k' (A(RQ (top_prio A) \<mapsto> xs @ [TL n])) \<and>
    (\<forall>p. ready A p \<noteq> [] \<longrightarrow> unat (prio (tcbs k (Tcb n))) \<le> p) \<and>
    switches k' = switches k @ (if new_task k = Some (Tcb n) then [] else [(new_task k, Tcb n)])"
proof -
  note b = kinv_kbase [OF assms(1)]
  obtain c where c: "running k A c" using assms(1) by (auto simp: kinv_def)
  have ne: "ready_set A \<noteq> {}" using running_ready [OF c b] by auto
  have nt: "new_task k \<noteq> None" using c by (simp add: running_def)
  obtain n xs where x: "ready A (top_prio A) = TL n # xs" "chosen A = Some (Tcb n)"
      "unat (prio (tcbs k (Tcb n))) = top_prio A"
    using chosen_ready [OF kbase_sched [OF b] ne] .
  have "p \<in> ready_set A" if "ready A p \<noteq> []" for p
    using that kbase_list_ok [OF b, of "RQ p"]
    by (cases "A (RQ p)") (auto simp: ready_def ready_set_def)
  then have "top_prio A \<le> p" if "ready A p \<noteq> []" for p using that top_prio_le by blast
  moreover have "asched A = A(RQ (top_prio A) \<mapsto> xs @ [TL n])" using x(1) by (simp add: asched_def)
  ultimately show ?thesis using schedule_kinv [OF b ne nt assms(2)] x by auto
qed

text \<open>Calling \<open>schedule\<close> again and again.\<close>

fun schedules :: "nat \<Rightarrow> kst \<Rightarrow> kst option" where
  "schedules 0 k = Some k"
| "schedules (Suc i) k = Option.bind (schedule k) (schedules i)"

lemma asched_top: "ready_set A \<noteq> {} \<Longrightarrow> ready_set (asched A) = ready_set A \<and> top_prio (asched A) = top_prio A"
proof -
  assume ne: "ready_set A \<noteq> {}"
  have "ready A (top_prio A) \<noteq> []" using top_prio_in [OF ne] by (simp add: ready_set_def)
  then have "ready_set (asched A) = ready_set A"
    by (auto simp: asched_def ready_set_def rotate1_is_Nil_conv)
  then show ?thesis by (simp add: top_prio_def)
qed

lemma schedules_rotate:
  assumes "kinv k A" "schedule_is_lock k \<noteq> TRUE"
  shows "\<exists>k' B. schedules i k = Some k' \<and> kinv k' B \<and> schedule_is_lock k' \<noteq> TRUE \<and>
    ready_set B = ready_set A \<and> top_prio B = top_prio A \<and>
    ready B (top_prio A) = rotate i (ready A (top_prio A))"
  using assms
proof (induction i arbitrary: k A)
  case 0
  then show ?case by auto
next
  case (Suc i)
  note b = kinv_kbase [OF Suc.prems(1)]
  obtain c where c: "running k A c" using Suc.prems(1) by (auto simp: kinv_def)
  have ne: "ready_set A \<noteq> {}" using running_ready [OF c b] by auto
  have nt: "new_task k \<noteq> None" using c by (simp add: running_def)
  obtain k1 t where k1: "schedule k = Some k1" "kinv k1 (asched A)" "same_but_sched k k1"
    using schedule_kinv [OF b ne nt Suc.prems(2)] by blast
  have "schedule_is_lock k1 \<noteq> TRUE" using k1(3) Suc.prems(2) by (simp add: same_but_sched_def)
  from Suc.IH [OF k1(2) this] obtain k' B where "schedules i k1 = Some k'" "kinv k' B"
    "schedule_is_lock k' \<noteq> TRUE" "ready_set B = ready_set (asched A)"
    "top_prio B = top_prio (asched A)"
    "ready B (top_prio (asched A)) = rotate i (ready (asched A) (top_prio (asched A)))"
    by blast
  moreover have "ready (asched A) (top_prio A) = rotate1 (ready A (top_prio A))"
    by (simp add: asched_def)
  ultimately show ?case
    using k1(1) asched_top [OF ne] by (intro exI [of _ k'] exI [of _ B]) (simp add: rotate1_rotate_swap)
qed

text \<open>The ready tasks of the most urgent priority share the processor in turn: the
  \<open>(i+1)\<close>-th call of \<open>schedule\<close> runs the task at position \<open>i mod n\<close> of the queue of
  \<open>n\<close> tasks, so each runs once in every \<open>n\<close> calls.\<close>

theorem schedule_round_robin:
  assumes "kinv k A" "schedule_is_lock k \<noteq> TRUE"
  shows "\<exists>k'. schedules (Suc i) k = Some k' \<and>
    new_task k' = tcb_of_link (ready A (top_prio A) ! (i mod length (ready A (top_prio A))))"
proof -
  obtain k1 B where k1: "schedules i k = Some k1" "kinv k1 B" "schedule_is_lock k1 \<noteq> TRUE"
    "ready_set B = ready_set A" "top_prio B = top_prio A"
    "ready B (top_prio A) = rotate i (ready A (top_prio A))"
    using schedules_rotate [OF assms] by blast
  obtain c where c: "running k1 B c" using k1(2) by (auto simp: kinv_def)
  have ne: "ready_set B \<noteq> {}" using running_ready [OF c kinv_kbase [OF k1(2)]] by auto
  have nt: "new_task k1 \<noteq> None" using c by (simp add: running_def)
  obtain k' t where k': "schedule k1 = Some k'" "chosen B = Some t" "new_task k' = Some t"
    using schedule_kinv [OF kinv_kbase [OF k1(2)] ne nt k1(3)] by blast
  have add: "schedules (i + j) k = Option.bind (schedules i k) (schedules j)" for i j and k :: kst
    by (induction i arbitrary: k) (auto split: Option.bind_splits)
  have "schedules (Suc i) k = Some k'"
    using add [of i 1 k] k1(1) k'(1) by simp
  moreover have "top_prio A \<in> ready_set A" using top_prio_in [OF ne] k1(4,5) by simp
  then have "ready A (top_prio A) \<noteq> []" by (simp add: ready_set_def)
  then have "hd (ready B (top_prio B)) = ready A (top_prio A) ! (i mod length (ready A (top_prio A)))"
    using k1(5,6) by (simp add: hd_rotate_conv_nth)
  ultimately show ?thesis using k'(2,3) by (simp add: chosen_def)
qed

end
