(* ===== verification/FosSem.thy ===== *)
theory FosSem
  imports FosWait
begin

text \<open>
  \<^verbatim>\<open>kernel/semaphore.c\<close>: counting semaphores. A semaphore pointer is an index into
  \<open>sems\<close>; NULL is \<open>None\<close>. Each call returns the C return code and the new state; a call
  that blocks returns (\<open>TRUE\<close>) when its task is switched back in, so the state given is the
  one at the switch.
\<close>

subsection \<open>The operations\<close>

definition sem_block_queue_init :: "nat option \<Rightarrow> kst \<Rightarrow> kst option" where
  "sem_block_queue_init sem_block_queue_head k = do {
     s \<leftarrow> sem_block_queue_head;
     Some (klist_init (SemL s) k)
   }"

definition sem_block_queue_insert :: "nat option \<Rightarrow> kst \<Rightarrow> kst option" where
  "sem_block_queue_insert semphore k = do {
     s \<leftarrow> semphore;
     t \<leftarrow> sem_tcb (sems k s);
     kenq (SemL s) (TcbL t) k
   }"

definition sem_block_queue_delete :: "tcbp option \<Rightarrow> kst \<Rightarrow> kst option" where
  "sem_block_queue_delete tcb k = do { t \<leftarrow> tcb; kdel (TcbL t) k }"

definition sem_upd :: "nat \<Rightarrow> (SEM \<Rightarrow> SEM) \<Rightarrow> kst \<Rightarrow> kst" where
  "sem_upd s f k = k\<lparr>sems := (sems k)(s := f (sems k s))\<rparr>"

definition sem_init :: "nat option \<Rightarrow> string option \<Rightarrow> u32 \<Rightarrow> kst \<Rightarrow> (u8 \<times> kst) option" where
  "sem_init semaphore name num k =
     (case semaphore of
        None \<Rightarrow> Some (NO_SEMAPHORE, k)
      | Some s \<Rightarrow> do {
          let k = sem_upd s (sem_count_update (\<lambda>_. num)) k;
          let k = sem_upd s (sem_name_update (\<lambda>_. name)) k;
          k \<leftarrow> sem_block_queue_init semaphore k;
          Some (TRUE, k)
        })"

definition sem_get :: "nat option \<Rightarrow> kst \<Rightarrow> (u8 \<times> kst) option" where
  "sem_get semaphore k =
     (case semaphore of
        None \<Rightarrow> Some (NO_SEMAPHORE, k)
      | Some s \<Rightarrow> do {
          let (cpu_sr, k) = interrupt_disable k;
          k \<leftarrow> (if sem_count (sems k s) = 0 then do {
                 let k = sem_upd s (sem_tcb_update (\<lambda>_. new_task k)) k;
                 k \<leftarrow> prio_ready_queue_delete (sem_tcb (sems k s)) k;
                 k \<leftarrow> sem_block_queue_insert semaphore k;
                 schedule k
               } else Some (sem_upd s (sem_count_update (\<lambda>c. c - 1)) k));
          Some (TRUE, interrupt_enable cpu_sr k)
        })"

definition sem_put :: "nat option \<Rightarrow> kst \<Rightarrow> (u8 \<times> kst) option" where
  "sem_put semaphore k =
     (case semaphore of
        None \<Rightarrow> Some (NO_SEMAPHORE, k)
      | Some s \<Rightarrow> do {
          let (cpu_sr, k) = interrupt_disable k;
          k \<leftarrow> (if \<not> klast k (SemL s) then do {
                 n \<leftarrow> knext k (SemL s);
                 tcb_tmp \<leftarrow> tcb_of_link n;
                 k \<leftarrow> sem_block_queue_delete (Some tcb_tmp) k;
                 prio_ready_queue_insert_head (Some tcb_tmp) k
               } else if sem_count (sems k s) \<noteq> 0xffffffff
                 then Some (sem_upd s (sem_count_update (\<lambda>c. c + 1)) k)
               else Some k);
          k \<leftarrow> schedule (interrupt_enable cpu_sr k);
          Some (TRUE, k)
        })"

subsection \<open>The abstract semaphore\<close>

text \<open>A semaphore is a number of free units and the tasks waiting for one, oldest first.\<close>

definition sem_view :: "kst \<Rightarrow> klink lists \<Rightarrow> nat \<Rightarrow> (nat \<times> klink list) option" where
  "sem_view k A s = map_option (Pair (unat (sem_count (sems k s)))) (A (SemL s))"

fun asem_get :: "klink \<Rightarrow> nat \<times> klink list \<Rightarrow> nat \<times> klink list" where
  "asem_get c (n, ws) = (if n = 0 then (0, ws @ [c]) else (n - 1, ws))"

fun asem_put :: "nat \<times> klink list \<Rightarrow> nat \<times> klink list" where
  "asem_put (n, []) = (if n = 4294967295 then n else n + 1, [])"
| "asem_put (n, w # ws) = (n, ws)"

lemma sem_view_Some:
  "sem_view k A s = Some (n, ws) \<longleftrightarrow> A (SemL s) = Some ws \<and> n = unat (sem_count (sems k s))"
  by (auto simp: sem_view_def)

lemma kbase_sr_sem:
  "kbase (sem_upd s f (k\<lparr>sr := v\<rparr>)) A = kbase k A"
  "kbase (sem_upd s f k) A = kbase k A"
  "kbase (k\<lparr>sr := v\<rparr>) A = kbase k A"
  by (rule iffI; rule kbase_cong, assumption; simp add: sem_upd_def)+

lemma kinv_sr_sem:
  "kinv (sem_upd s f (k\<lparr>sr := v\<rparr>)) A = kinv k A"
  "kinv (sem_upd s f k) A = kinv k A"
  "kinv (k\<lparr>sr := v\<rparr>) A = kinv k A"
  by (rule iffI; rule kinv_cong, assumption; simp add: sem_upd_def)+

lemma sem_count_sr [simp]: "sems (k\<lparr>sr := v\<rparr>) = sems k"
  by simp

lemma kl_waiters_tail: "A q = Some (x # xs) \<Longrightarrow> A q = Some ([] @ x # xs)"
  by simp

text \<open>Initialising gives a semaphore with the given count that no task waits for.\<close>

lemma sem_init_ok:
  assumes b: "kbase k A"
  shows "\<exists>k'. sem_init (Some s) name n k = Some (TRUE, k') \<and> kbase k' (A(SemL s \<mapsto> [])) \<and>
    sem_view k' (A(SemL s \<mapsto> [])) s = Some (unat n, []) \<and> same_but_heap (k\<lparr>sems := sems k'\<rparr>) k'"
proof -
  let ?k = "klist_init (SemL s) (sem_upd s (sem_name_update (\<lambda>_. name))
      (sem_upd s (sem_count_update (\<lambda>_. n)) k))"
  have "list_ok k A r xs \<Longrightarrow> list_ok ?k A r xs" for r xs
    by (cases "(k, A, r, xs)" rule: list_ok.cases)
      (auto simp: live_def tick_ok_def sem_upd_def klist_init_def)
  then have "kbase ?k (A(SemL s \<mapsto> []))"
    by (intro kbase_new_list [OF b]) (simp_all add: sem_upd_def klist_init_def)
  then show ?thesis
    by (simp add: sem_init_def sem_block_queue_init_def sem_view_def sem_upd_def klist_init_def
        same_but_heap_def)
qed

subsection \<open>Correctness\<close>

text \<open>When a unit is free, \<open>sem_get\<close> takes it: the count goes down by one, nothing else in
  the kernel changes, and the caller keeps running with its interrupt state restored.\<close>

theorem sem_get_takes_unit:
  assumes "sem_count (sems k s) \<noteq> 0"
  shows "sem_get (Some s) k = Some (TRUE, sem_upd s (sem_count_update (\<lambda>c. c - 1)) k)"
  using assms by (simp add: sem_get_def interrupt_disable_def interrupt_enable_def sem_upd_def)

lemma sem_get_blocks_caller:
  assumes inv: "kinv k A" and r: "running k A c" and w: "A (SemL s) = Some ws"
    and z: "sem_count (sems k s) = 0" and o: "others_ready A c"
    and lock: "schedule_is_lock k \<noteq> TRUE"
  defines "p \<equiv> unat (prio (tcbs k (Tcb c)))"
  defines "A' \<equiv> A(RQ p \<mapsto> remove1 (TL c) (ready A p), SemL s \<mapsto> ws @ [TL c])"
  shows "\<exists>k' t. sem_get (Some s) k = Some (TRUE, k') \<and> kinv k' (asched A') \<and>
    chosen A' = Some t \<and> t \<noteq> Tcb c \<and> new_task k' = Some t \<and>
    switches k' = switches k @ [(Some (Tcb c), t)] \<and>
    sem_count (sems k' s) = 0 \<and> members (asched A') = members A \<and> sr k' = sr k \<and>
    schedule_is_lock k' = schedule_is_lock k"
proof -
  let ?v = "sr k AND NOT (SPR_SR_IEE OR SPR_SR_TEE)"
  let ?k = "sem_upd s (sem_tcb_update (\<lambda>_. new_task k)) (k\<lparr>sr := ?v\<rparr>)"
  have nt: "new_task k = Some (Tcb c)" using r by (simp add: running_def)
  have b: "kbase ?k A" using inv by (simp add: kbase_sr_sem kinv_kbase)
  have rk: "running ?k A c" using r running_cong [of ?k k] by (simp add: sem_upd_def)
  obtain k1 k2 k' t where k': "prio_ready_queue_delete (Some (Tcb c)) ?k = Some k1"
    "kenq (SemL s) (TL c) k1 = Some k2" "schedule k2 = Some k'" "chosen A' = Some t"
    "t \<noteq> Tcb c" "kinv k' (asched A')" "same_but_ready ?k k1" "same_but_sched ?k k'"
    "new_task k' = Some t" "switches k' = switches ?k @ [(Some (Tcb c), t)]"
    "members (asched A') = members A"
    using semw.block_and_schedule [OF b rk w o] lock
    by (auto simp: A'_def p_def sem_upd_def)
  have "sem_get (Some s) k = Some (TRUE, interrupt_enable (sr k) k')"
    using k'(1-3,7) z nt
    by (simp add: sem_get_def interrupt_disable_def sem_block_queue_insert_def sem_upd_def
        same_but_ready_def)
  moreover have "sems k' s = sems ?k s" "schedule_is_lock k' = schedule_is_lock k"
    using k'(8) by (simp_all add: same_but_sched_def sem_upd_def)
  ultimately show ?thesis
    using k' z by (auto simp: interrupt_enable_def kinv_sr_sem sem_upd_def)
qed

text \<open>The two outcomes of \<open>sem_put\<close>, before it reschedules.\<close>

lemma sem_put_wakes:
  assumes inv: "kinv k A" and w: "A (SemL s) = Some (TL n # ws)"
    and lock: "schedule_is_lock k \<noteq> TRUE"
  defines "p \<equiv> unat (prio (tcbs k (Tcb n)))"
  defines "A' \<equiv> A(SemL s \<mapsto> ws, RQ p \<mapsto> TL n # ready A p)"
  shows "\<exists>k'. sem_put (Some s) k = Some (TRUE, k') \<and> kinv k' (asched A') \<and>
    sems k' = sems k \<and> new_task k' = chosen A' \<and> members (asched A') = members A \<and> sr k' = sr k \<and>
    schedule_is_lock k' = schedule_is_lock k"
proof -
  let ?k = "k\<lparr>sr := sr k AND NOT (SPR_SR_IEE OR SPR_SR_TEE)\<rparr>"
  have b: "kbase ?k A" using inv by (simp add: kbase_sr_sem kinv_kbase)
  obtain k1 k2 where k2: "kdel (TL n) ?k = Some k1"
    "prio_ready_queue_insert_head (Some (Tcb n)) k1 = Some k2" "kbase k2 A'"
    "same_but_ready ?k k2" "ready_set A' \<noteq> {}" "members A' = members A"
    "klast ?k (SemL s) = False" "knext ?k (SemL s) = Some (TL n)"
    using semw.wake_first_waiter [OF b w] by (auto simp: A'_def p_def)
  let ?k2 = "interrupt_enable (sr k) k2"
  have "new_task k \<noteq> None" using inv by (auto simp: kinv_def running_def)
  then obtain k' t where k': "schedule ?k2 = Some k'" "chosen A' = Some t" "kinv k' (asched A')"
    "new_task k' = Some t" "same_but_sched ?k2 k'"
    using schedule_kinv [of ?k2 A'] k2(3-5) lock
    by (auto simp: interrupt_enable_def kbase_sr_sem same_but_ready_def)
  have "sem_put (Some s) k = Some (TRUE, k')"
    using k2 k'(1) by (simp add: sem_put_def interrupt_disable_def sem_block_queue_delete_def)
  then show ?thesis
    using k' k2(4,6) asched_lists(2) [OF k2(3,5)]
    by (auto simp: same_but_sched_def same_but_ready_def interrupt_enable_def)
qed

lemma sem_put_releases:
  assumes inv: "kinv k A" and w: "A (SemL s) = Some []"
    and lock: "schedule_is_lock k \<noteq> TRUE"
  shows "\<exists>k'. sem_put (Some s) k = Some (TRUE, k') \<and> kinv k' (asched A) \<and>
    sems k' = (if sem_count (sems k s) = 0xffffffff then sems k
      else sems (sem_upd s (sem_count_update (\<lambda>c. c + 1)) k)) \<and>
    new_task k' = chosen A \<and> members (asched A) = members A \<and> sr k' = sr k \<and>
    schedule_is_lock k' = schedule_is_lock k"
proof -
  let ?k = "k\<lparr>sr := sr k AND NOT (SPR_SR_IEE OR SPR_SR_TEE)\<rparr>"
  let ?k2 = "if sem_count (sems k s) = 0xffffffff then k
    else sem_upd s (sem_count_update (\<lambda>c. c + 1)) k"
  have last: "klast ?k (SemL s)" using klast_iff [of k A "SemL s" "[]"] w inv
    by (simp add: kinv_kbase kbase_krep klast_def)
  obtain c where c: "running k A c" using inv by (auto simp: kinv_def)
  have b: "kbase ?k2 A" using inv by (simp add: kbase_sr_sem kinv_kbase)
  have ne: "ready_set A \<noteq> {}" using running_ready [OF c kinv_kbase [OF inv]] by auto
  have nt: "new_task ?k2 \<noteq> None" and lk: "schedule_is_lock ?k2 \<noteq> TRUE"
    using c lock by (auto simp: running_def sem_upd_def)
  obtain k' t where k': "schedule ?k2 = Some k'" "chosen A = Some t" "kinv k' (asched A)"
    "new_task k' = Some t" "same_but_sched ?k2 k'"
    using schedule_kinv [OF b ne nt lk] by blast
  have "sem_put (Some s) k = Some (TRUE, k')"
    using last k'(1) by (simp add: sem_put_def interrupt_disable_def interrupt_enable_def
        sem_upd_def split: if_splits)
  then show ?thesis
    using k' asched_lists(2) [OF kinv_kbase [OF inv] ne]
    by (auto simp: same_but_sched_def sem_upd_def split: if_splits)
qed

text \<open>C8: \<open>sem_get\<close> implements the abstract semaphore: it takes a unit, or queues the caller
  behind the tasks already waiting and runs another task; no task is lost, the kernel
  invariant holds again, and the caller's interrupt state is restored.\<close>

theorem sem_get_refines:
  assumes "kinv k A" "running k A c" "schedule_is_lock k \<noteq> TRUE"
    and "sem_view k A s = Some v" "others_ready A c"
  shows "\<exists>k' A'. sem_get (Some s) k = Some (TRUE, k') \<and> kinv k' A' \<and>
      sem_view k' A' s = Some (asem_get (TL c) v) \<and> members A' = members A \<and> sr k' = sr k"
proof -
  obtain n ws where v: "v = (n, ws)" "A (SemL s) = Some ws" "n = unat (sem_count (sems k s))"
    using assms(4) by (cases v) (auto simp: sem_view_Some)
  show ?thesis
  proof (cases "sem_count (sems k s) = 0")
    case True
    from sem_get_blocks_caller [OF assms(1,2) v(2) True assms(5,3)] show ?thesis
      using v True by (fastforce simp: sem_view_Some asched_def)
  next
    case False
    let ?k = "sem_upd s (sem_count_update (\<lambda>c. c - 1)) k"
    have "sem_get (Some s) k = Some (TRUE, ?k)"
      using False by (simp add: sem_get_def interrupt_disable_def interrupt_enable_def sem_upd_def)
    moreover have "kinv ?k A" using assms(1) by (simp add: kinv_sr_sem)
    moreover have "sem_view ?k A s = Some (asem_get (TL c) v)"
      using v False by (simp add: sem_view_Some sem_upd_def unat_minus_1 unat_eq_0)
    ultimately show ?thesis by (auto simp: sem_upd_def)
  qed
qed

text \<open>C9: \<open>sem_put\<close> implements the abstract semaphore: it hands its unit to the task that has
  waited longest, or stores it up to the 32-bit limit when none waits; no task is lost, the
  kernel invariant holds again, and the caller's interrupt state is restored.\<close>

theorem sem_put_refines:
  assumes "kinv k A" "schedule_is_lock k \<noteq> TRUE" "sem_view k A s = Some v"
  shows "\<exists>k' A'. sem_put (Some s) k = Some (TRUE, k') \<and> kinv k' A' \<and>
      sem_view k' A' s = Some (asem_put v) \<and> members A' = members A \<and> sr k' = sr k"
proof -
  obtain n ws where v: "v = (n, ws)" "A (SemL s) = Some ws" "n = unat (sem_count (sems k s))"
    using assms(3) by (cases v) (auto simp: sem_view_Some)
  show ?thesis
  proof (cases ws)
    case Nil
    from sem_put_releases [OF assms(1) _ assms(2), of s] show ?thesis
      using v Nil unat_plus_1 [of "sem_count (sems k s)"]
      by (fastforce simp: sem_view_Some asched_def sem_upd_def word_unat_eq_iff)
  next
    case (Cons x xs)
    obtain m where "x = TL m"
      using semw.waiter_live [OF kinv_kbase [OF assms(1)] v(2), of x] Cons by (auto simp: live_def)
    with sem_put_wakes [OF assms(1) _ assms(2), of s m xs] show ?thesis
      using v Cons by (fastforce simp: sem_view_Some asched_def)
  qed
qed

end
