(* ===== verification/FosTask.thy ===== *)
theory FosTask
  imports FosWait
begin

text \<open>
  \<^verbatim>\<open>kernel/task.c\<close> with the stack frame of the or1ksim port
  (\<^verbatim>\<open>cpu/or1ksim/stack_ready.c\<close>): creating a task, changing the running task's priority,
  and the check for unused stack. A stack is an array of 32-bit words.
\<close>

subsection \<open>The initial stack frame\<close>

text \<open>\<^verbatim>\<open>*stk-- = w\<close> for each word in turn, from word index \<open>i\<close> down. A write below the
  array is a fault.\<close>

fun push_words :: "nat \<Rightarrow> nat \<Rightarrow> sword list \<Rightarrow> kst \<Rightarrow> kst option" where
  "push_words sid i [] k = Some k"
| "push_words sid i (w # ws) k = do {
     guard (0 < i);
     push_words sid (i - 1) ws (k\<lparr>stk := (stk k)(sid := (stk k sid)(i - 1 := w))\<rparr>)
   }"

definition SPR_SR_SM :: u32 where "SPR_SR_SM = 1"

text \<open>The 32 words of the frame, highest address first: r31 to r10, the link register (where
  the task returns to), r8 to r4, the argument, the frame pointer, the status word and the
  program counter.\<close>

definition initial_frame :: "task_fn \<Rightarrow> u32 \<Rightarrow> task_fn \<Rightarrow> sword list" where
  "initial_frame p_task arg task_exit =
     map Wd [31, 30, 29, 28, 27, 26, 25, 24, 23, 22, 21, 20, 19, 18, 17, 16, 15, 14, 13, 12, 11, 10] @
     [FnW task_exit, Wd 8, Wd 7, Wd 6, Wd 5, Wd 4, Wd arg, Wd 2,
      Wd (4 OR 2 OR SPR_SR_SM), FnW p_task]"

definition stack_init :: "nat \<Rightarrow> u32 \<Rightarrow> task_fn \<Rightarrow> u32 \<Rightarrow> task_fn \<Rightarrow> kst \<Rightarrow>
    (stack_addr \<times> kst) option" where
  "stack_init p_stk_base stk_size p_task arg task_exit k = do {
     guard (128 \<le> unat stk_size);
     k \<leftarrow> push_words p_stk_base (unat stk_size - 128) (initial_frame p_task arg task_exit) k;
     Some ((p_stk_base, unat stk_size - 128 - 32), k)
   }"

text \<open>\<^verbatim>\<open>memset(stack, 0, n)\<close> counts bytes: a word is cleared when all four of its bytes are
  below \<open>n\<close>; of a word that straddles \<open>n\<close> the leading (big-endian: high) bytes are cleared.\<close>

definition memset_zero_word :: "nat \<Rightarrow> nat \<Rightarrow> sword \<Rightarrow> sword" where
  "memset_zero_word n i w =
     (if 4 * i + 4 \<le> n then Wd 0
      else if n \<le> 4 * i then w
      else (case w of Wd v \<Rightarrow> Wd (v AND mask (8 * (4 - n mod 4))) | FnW f \<Rightarrow> w))"

definition stack_memset :: "nat \<Rightarrow> u32 \<Rightarrow> kst \<Rightarrow> kst" where
  "stack_memset sid n k =
     k\<lparr>stk := (stk k)(sid := (\<lambda>i. memset_zero_word (unat n) i (stk k sid i)))\<rparr>"

subsection \<open>task.c\<close>

definition tcb_upd :: "tcbp \<Rightarrow> (TCB \<Rightarrow> TCB) \<Rightarrow> kst \<Rightarrow> kst" where
  "tcb_upd t f k = k\<lparr>tcbs := (tcbs k)(t := f (tcbs k t))\<rparr>"

definition task_create :: "tcbp option \<Rightarrow> string option \<Rightarrow> task_fn option \<Rightarrow> u32 \<Rightarrow> nat option \<Rightarrow>
    u32 \<Rightarrow> u8 \<Rightarrow> u8 \<Rightarrow> kst \<Rightarrow> (u8 \<times> kst) option" where
  "task_create tcb name func arg stack stack_size pr st k =
     (case (tcb, func, stack) of
        (Some t, Some f, Some sid) \<Rightarrow> do {
          let k = stack_memset sid stack_size k;
          (sp, k) \<leftarrow> stack_init sid stack_size f arg TaskExit k;
          let k = tcb_upd t (stack_ptr_update (\<lambda>_. Some sp)) k;
          let k = tcb_upd t (tcb_name_update (\<lambda>_. name)) k;
          let k = tcb_upd t (prio_update (\<lambda>_. pr)) k;
          let k = tcb_upd t (state_update (\<lambda>_. st)) k;
          k \<leftarrow> prio_ready_queue_insert_tail tcb k;
          Some (TRUE, k)
        }
      | _ \<Rightarrow> Some (NO_TCB, k))"

definition task_prio_change :: "tcbp option \<Rightarrow> u32 \<Rightarrow> kst \<Rightarrow> (u8 \<times> kst) option" where
  "task_prio_change tcb pr k =
     (case tcb of
        None \<Rightarrow> Some (NO_TCB, k)
      | Some t \<Rightarrow>
          if pr < 1 \<or> pr > 32 then Some (NO_TCB, k)
          else do {
            guard (new_task k = tcb);
            k \<leftarrow> prio_ready_queue_delete tcb k;
            let k = tcb_upd t (prio_update (\<lambda>_. ucast pr)) k;
            k \<leftarrow> prio_ready_queue_insert_head tcb k;
            Some (TRUE, k)
          })"

text \<open>The loop of \<^verbatim>\<open>task_check_stack\<close> in the \<^verbatim>\<open>STACK_GROW_DOWN == 0\<close> build: from word
  \<open>stack_ptr + stack_size\<close> down while words are zero and fewer than \<open>stack_size\<close> were
  counted; both operands of \<^verbatim>\<open>&\<close> are evaluated, so a word is read in every round. A read
  below the array is a fault.\<close>

function check_stack_loop :: "(nat \<Rightarrow> sword) \<Rightarrow> nat \<Rightarrow> u32 \<Rightarrow> nat \<Rightarrow> nat option" where
  "check_stack_loop m i stack_size free_stk =
     (if m i = Wd 0 \<and> free_stk < unat stack_size
      then (if i = 0 then None else check_stack_loop m (i - 1) stack_size (free_stk + 1))
      else Some free_stk)"
  by pat_completeness auto
termination by (relation "measure (\<lambda>(m, i, n, f). unat n - f)") auto

declare check_stack_loop.simps [simp del]

definition task_check_stack :: "tcbp \<Rightarrow> u32 \<Rightarrow> kst \<Rightarrow> u32 option" where
  "task_check_stack t stack_size k = do {
     (sid, i) \<leftarrow> stack_ptr (tcbs k t);
     n \<leftarrow> check_stack_loop (stk k sid) (i + unat stack_size) stack_size 0;
     Some (word_of_nat n)
   }"

subsection \<open>The initial frame\<close>

text \<open>What \<open>push_words\<close> writes: the words below index \<open>i\<close>, in reverse.\<close>

lemma push_words_ok:
  assumes "length ws \<le> i"
  shows "push_words sid i ws k = Some (k\<lparr>stk := (stk k)(sid :=
    (\<lambda>j. if i - length ws \<le> j \<and> j < i then ws ! (i - 1 - j) else stk k sid j))\<rparr>)"
  using assms
proof (induction ws arbitrary: i k)
  case Nil
  have "(\<lambda>j. if i \<le> j \<and> j < i then [] ! (i - 1 - j) else stk k sid j) = stk k sid"
    by (rule ext) auto
  then show ?case by simp
next
  case (Cons w ws)
  let ?m = "(stk k)(sid := (stk k sid)(i - 1 := w))"
  have i: "0 < i" "length ws \<le> i - 1" using Cons.prems by auto
  have "(\<lambda>j. if i - 1 - length ws \<le> j \<and> j < i - 1 then ws ! (i - 1 - 1 - j) else ?m sid j) =
      (\<lambda>j. if i - length (w # ws) \<le> j \<and> j < i then (w # ws) ! (i - 1 - j) else stk k sid j)"
    (is "?l = ?r")
  proof
    fix j
    consider "j = i - 1" | "j < i - 1" | "j \<ge> i" by linarith
    then show "?l j = ?r j" using i by cases (auto simp: nth_Cons')
  qed
  then have "?m(sid := ?l) = (stk k)(sid := ?r)" by (simp only: fun_upd_upd)
  moreover have "push_words sid i (w # ws) k = Some (k\<lparr>stk := ?m(sid := ?l)\<rparr>)"
    unfolding push_words.simps Cons.IH [OF i(2)] using i(1) by (simp cong: if_cong)
  ultimately show ?case by (simp only:)
qed

lemma length_initial_frame [simp]: "length (initial_frame f arg x) = 32"
  by (simp add: initial_frame_def)

lemma stack_init_ok:
  assumes "160 \<le> unat n"
  shows "stack_init sid n f arg x k = Some ((sid, unat n - 160), k\<lparr>stk := (stk k)(sid :=
    (\<lambda>j. if unat n - 160 \<le> j \<and> j < unat n - 128
         then initial_frame f arg x ! (unat n - 129 - j) else stk k sid j))\<rparr>)"
proof -
  have "unat n - 128 - 1 - j = unat n - 129 - j" for j by simp
  then show ?thesis
    using assms push_words_ok [of "initial_frame f arg x" "unat n - 128" sid k]
    by (simp only: stack_init_def) simp
qed

lemma stack_init_small: "unat n < 160 \<Longrightarrow> stack_init sid n f arg x k = None"
proof -
  assume n: "unat n < 160"
  have "push_words sid i ws k = None" if "i < length ws" for i ws k
    using that by (induction ws arbitrary: i k) (auto simp: guard_def)
  with n show ?thesis by (simp add: stack_init_def guard_def)
qed

subsection \<open>Tasks that are on no list\<close>

text \<open>The control block of a task that is neither threaded nor asleep may be changed freely.\<close>

definition off_lists :: "klink lists \<Rightarrow> nat \<Rightarrow> bool" where
  "off_lists A n \<longleftrightarrow> n \<notin> tasks_of A"

lemma off_lists_iff: "off_lists A n \<longleftrightarrow> TL n \<notin> members A \<and> \<not> asleep A n"
  by (simp add: off_lists_def tasks_of_def asleep_def)

lemma kbase_no_task_head: "kbase k A \<Longrightarrow> A (TL n) = None"
  using kbase_list_ok [of k A "TL n"] by (cases "A (TL n)") auto

lemma off_lists_unthreaded: "kbase k A \<Longrightarrow> off_lists A n \<Longrightarrow> unthreaded A (TL n)"
  by (simp add: off_lists_iff unthreaded_iff kbase_no_task_head)

lemma kbase_change_off:
  assumes b: "kbase k A" and off: "off_lists A n" and t: "tcbs k' = (tcbs k)(Tcb n := v)"
    and e: "heap k' = heap k" "bm_y k' = bm_y k" "bm_c k' = bm_c k" "ticks k' = ticks k"
      "mutexes k' = mutexes k" "queues k' = queues k"
  shows "kbase k' A"
proof -
  have lv: "live k' x = live k x" if "x \<noteq> TL n" for x
    using that t by (auto simp: live_def)
  have mem: "x \<noteq> TL n \<and> x \<noteq> TickL (DelayOf (Tcb n))" if "A q = Some xs" "x \<in> set xs" for q xs x
    using that off by (auto simp: off_lists_iff asleep_def members_iff)
  have "sched_inv k' A"
    using kbase_sched [OF b] mem t e unfolding sched_inv_def krep_def
    by (fastforce simp: bitmap_ok_def task_at_def ready_def split: option.splits)
  moreover have "list_ok k' A q xs" if q: "A q = Some xs" for q xs
  proof -
    have "live k' x = live k x \<and> tick_ok k' A x = tick_ok k A x" if "x \<in> set xs" for x
      using mem [OF q that] lv e(4) by (auto simp: tick_ok_def)
    then show ?thesis
      using kbase_list_ok [OF b q] e(5,6) by (cases "(k, A, q, xs)" rule: list_ok.cases) auto
  qed
  ultimately show ?thesis using b by (simp add: kbase_def)
qed

lemma ready_members: "x \<in> set (ready A p) \<Longrightarrow> x \<in> members A"
  by (cases "A (RQ p)") (auto simp: ready_def members_iff)

lemma running_member: "running k A c \<Longrightarrow> TL c \<in> members A"
  unfolding running_def by (blast intro: ready_members)

lemma running_on_list: "running k A c \<Longrightarrow> c \<in> tasks_of A"
  by (auto simp: running_def ready_def tasks_of_def members_iff split: option.splits)

lemma tasks_of_ready_upd:
  assumes "A (RQ p) = Some xs"
  shows "set ys = insert (TL n) (set xs) \<Longrightarrow> tasks_of (A(RQ p \<mapsto> ys)) = insert n (tasks_of A)"
  using members_split [where A = A and q = "RQ p", OF assms]
  by (auto simp: tasks_of_def members_upd)

subsection \<open>Creating a task\<close>

lemma off_lists_upd_ready:
  assumes "A (RQ p) = Some xs" "set ys \<subseteq> set xs" "off_lists A n"
  shows "off_lists (A(RQ p \<mapsto> ys)) n"
  using assms members_split [where A = A and q = "RQ p", OF assms(1)]
  by (auto simp: off_lists_iff asleep_def members_upd)

lemma task_create_ok:
  assumes "kbase k A" "off_lists A n" "160 \<le> unat sz" "unat pr < 32"
  shows "\<exists>k'. task_create (Some (Tcb n)) name (Some f) arg (Some sid) sz pr st k = Some (TRUE, k') \<and>
    kbase k' (A(RQ (unat pr) \<mapsto> ready A (unat pr) @ [TL n])) \<and>
    tasks_of (A(RQ (unat pr) \<mapsto> ready A (unat pr) @ [TL n])) = insert n (tasks_of A) \<and>
    tcbs k' (Tcb n) = \<lparr>stack_ptr = Some (sid, unat sz - 160), tcb_name = name, prio = pr, state = st\<rparr> \<and>
    (\<forall>j<32. stk k' sid (unat sz - 129 - j) = initial_frame f arg TaskExit ! j) \<and>
    new_task k' = new_task k \<and> switches k' = switches k \<and>
    same_but_ready (k\<lparr>tcbs := tcbs k', stk := stk k'\<rparr>) k'"
proof -
  obtain m where si: "stack_init sid sz f arg TaskExit (stack_memset sid sz k) =
      Some ((sid, unat sz - 160), stack_memset sid sz k\<lparr>stk := m\<rparr>)"
    "\<And>j. unat sz - 160 \<le> j \<Longrightarrow> j < unat sz - 128 \<Longrightarrow>
      m sid j = initial_frame f arg TaskExit ! (unat sz - 129 - j)"
    using stack_init_ok [OF assms(3), of sid f arg TaskExit "stack_memset sid sz k"] by auto
  define v where "v = \<lparr>stack_ptr = Some (sid, unat sz - 160), tcb_name = name, prio = pr, state = st\<rparr>"
  define k1 where "k1 = k\<lparr>stk := m, tcbs := (tcbs k)(Tcb n := v)\<rparr>"
  have b1: "kbase k1 A"
    by (rule kbase_change_off [OF assms(1,2)]) (auto simp: k1_def)
  have l1: "live k1 (TL n)" using assms(4) by (simp add: live_def k1_def v_def)
  have p1: "unat (prio (tcbs k1 (Tcb n))) = unat pr" by (simp add: k1_def v_def)
  have off: "unthreaded A (TL n)" "\<not> asleep A n"
    using off_lists_unthreaded assms(1,2) by (auto simp: off_lists_iff)
  obtain k2 where k2: "prio_ready_queue_insert_tail (Some (Tcb n)) k1 = Some k2"
    "kbase k2 (A(RQ (unat pr) \<mapsto> ready A (unat pr) @ [TL n]))" "same_but_ready k1 k2"
    using insert_tail_kbase [OF b1 off l1 p1] by blast
  have "r\<lparr>stack_ptr := Some (sid, unat sz - 160), tcb_name := name, prio := pr, state := st\<rparr> = v"
    for r :: TCB by (simp add: v_def)
  then have "task_create (Some (Tcb n)) name (Some f) arg (Some sid) sz pr st k = Some (TRUE, k2)"
    using si(1) k2(1)
    by (simp add: task_create_def tcb_upd_def stack_memset_def k1_def)
  moreover have "A (RQ (unat pr)) = Some (ready A (unat pr))"
    using sched_inv_ready [OF kbase_sched [OF assms(1)] assms(4)] .
  moreover have "m sid (unat sz - 129 - j) = initial_frame f arg TaskExit ! j" if "j < 32" for j
    using si(2) [of "unat sz - 129 - j"] that assms(3) by simp
  ultimately show ?thesis
    using k2(2,3) tasks_of_ready_upd [of A "unat pr"]
    by (auto simp: same_but_ready_def k1_def v_def)
qed

text \<open>C37: \<open>task_create\<close> on a new control block builds its stack frame, fills the block in and
  appends the task to the ready queue of its priority: the kernel invariant still holds and
  the known tasks are the old ones and the new one.\<close>

theorem task_create_adds_task:
  assumes "kbase k A" "off_lists A n" "160 \<le> unat sz" "unat pr < 32"
  shows "\<exists>k'. task_create (Some (Tcb n)) name (Some f) arg (Some sid) sz pr st k = Some (TRUE, k') \<and>
    kbase k' (A(RQ (unat pr) \<mapsto> ready A (unat pr) @ [TL n])) \<and>
    tasks_of (A(RQ (unat pr) \<mapsto> ready A (unat pr) @ [TL n])) = insert n (tasks_of A) \<and>
    tcbs k' (Tcb n) = \<lparr>stack_ptr = Some (sid, unat sz - 160), tcb_name = name, prio = pr, state = st\<rparr> \<and>
    (\<forall>j<32. stk k' sid (unat sz - 129 - j) = initial_frame f arg TaskExit ! j) \<and>
    new_task k' = new_task k \<and> switches k' = switches k"
  using task_create_ok [OF assms, of name f arg sid st] by blast

text \<open>A stack of fewer than 160 words has no room for the frame and the 128 words of
  headroom: creating the task writes below the array.\<close>

theorem task_create_small_stack:
  assumes "unat sz < 160"
  shows "task_create (Some t) name (Some f) arg (Some sid) sz pr st k = None"
  using assms stack_init_small by (simp add: task_create_def)

lemma task_create_null:
  "tcb = None \<or> fn = None \<or> stack = None \<Longrightarrow>
    task_create tcb name fn arg stack sz pr st k = Some (NO_TCB, k)"
  by (auto simp: task_create_def split: option.splits)

subsection \<open>Changing the priority of the running task\<close>

text \<open>The running task is taken off its queue, its control block is changed, and it is pushed
  on the queue of its new priority; \<open>mutex_get\<close> and \<open>mutex_put\<close> do this as well.\<close>

lemma requeue_running:
  assumes b: "kbase k A" and r: "running k A c" and pr: "unat pr < 32"
  defines "A1 \<equiv> A(RQ (unat (prio (tcbs k (Tcb c)))) \<mapsto>
      remove1 (TL c) (ready A (unat (prio (tcbs k (Tcb c))))))"
  defines "A2 \<equiv> A1(RQ (unat pr) \<mapsto> TL c # ready A1 (unat pr))"
  shows "\<exists>k1 k2. prio_ready_queue_delete (Some (Tcb c)) k = Some k1 \<and>
    prio_ready_queue_insert_head (Some (Tcb c)) (tcb_upd (Tcb c) (prio_update (\<lambda>_. pr)) k1) = Some k2 \<and>
    kbase k2 A2 \<and> running k2 A2 c \<and> members A2 = members A \<and>
    same_but_ready (tcb_upd (Tcb c) (prio_update (\<lambda>_. pr)) k) k2 \<and> same_but_ready k k1"
proof -
  let ?p = "unat (prio (tcbs k (Tcb c)))"
  let ?u = "tcb_upd (Tcb c) (prio_update (\<lambda>_. pr))"
  obtain k1 where k1: "prio_ready_queue_delete (Some (Tcb c)) k = Some k1" "kbase k1 A1"
    "same_but_ready k k1" "unthreaded A1 (TL c)" "members A = insert (TL c) (members A1)"
    using delete_running [OF b r] by (auto simp: A1_def)
  have "\<not> asleep A c" using threaded_awake [OF b] k1(5) by simp
  then have awake: "\<not> asleep A1 c" using k1(5) by (simp add: asleep_def)
  have off: "off_lists A1 c" using k1(4) awake by (simp add: off_lists_iff unthreaded_iff)
  have b1: "kbase (?u k1) A1"
    by (rule kbase_change_off [OF k1(2) off, where v = "tcbs k1 (Tcb c)\<lparr>prio := pr\<rparr>"])
      (simp_all add: tcb_upd_def)
  have "live k (TL c)" using r kbase_ready_live [OF b] unfolding running_def by blast
  then have l: "live (?u k1) (TL c)"
    using pr k1(3) by (auto simp: live_def tcb_upd_def same_but_ready_def)
  obtain k2 where k2: "prio_ready_queue_insert_head (Some (Tcb c)) (?u k1) = Some k2"
    "kbase k2 A2" "same_but_ready (?u k1) k2"
    using insert_head_kbase [OF b1 k1(4) awake l, of "unat pr"] by (auto simp: A2_def tcb_upd_def)
  have "A1 (RQ (unat pr)) = Some (ready A1 (unat pr))"
    using sched_inv_ready [OF kbase_sched [OF b1] pr] .
  then have "members A2 = members A"
    using k1(5) members_split [where A = A1 and q = "RQ (unat pr)"] by (simp add: A2_def members_upd)
  moreover have "same_but_ready (?u k) k2"
    using k2(3) k1(3) by (simp add: same_but_ready_def tcb_upd_def)
  moreover have "running k2 A2 c"
    using r k2(3) k1(3) by (simp add: running_def same_but_ready_def tcb_upd_def A2_def)
  ultimately show ?thesis using k1(1,3) k2(1,2) by blast
qed

lemma task_prio_change_moves:
  assumes "kinv k A" "running k A c" "1 \<le> unat pr" "unat pr < 32"
  shows "\<exists>k' A'. task_prio_change (Some (Tcb c)) pr k = Some (TRUE, k') \<and> kinv k' A' \<and>
    running k' A' c \<and> hd (ready A' (unat pr)) = TL c \<and> unat (prio (tcbs k' (Tcb c))) = unat pr \<and>
    members A' = members A \<and> switches k' = switches k \<and>
    schedule_is_lock k' = schedule_is_lock k \<and> (\<forall>q. (\<forall>p. q \<noteq> RQ p) \<longrightarrow> A' q = A q)"
proof -
  have u: "unat (ucast pr :: u8) = unat pr"
    using assms(4) by (simp add: unsigned_ucast_eq take_bit_nat_eq_self)
  have g: "\<not> (pr < 1 \<or> 32 < pr)"
    using assms(3,4) by (auto simp: word_less_nat_alt)
  have nt: "new_task k = Some (Tcb c)" using assms(2) by (simp add: running_def)
  let ?p = "unat (prio (tcbs k (Tcb c)))"
  let ?A1 = "A(RQ ?p \<mapsto> remove1 (TL c) (ready A ?p))"
  let ?A2 = "?A1(RQ (unat pr) \<mapsto> TL c # ready ?A1 (unat pr))"
  obtain k1 k2 where k: "prio_ready_queue_delete (Some (Tcb c)) k = Some k1"
    "prio_ready_queue_insert_head (Some (Tcb c)) (tcb_upd (Tcb c) (prio_update (\<lambda>_. ucast pr)) k1) =
      Some k2" "kbase k2 ?A2" "running k2 ?A2 c" "members ?A2 = members A"
    "same_but_ready (tcb_upd (Tcb c) (prio_update (\<lambda>_. ucast pr)) k) k2"
    using requeue_running [OF kinv_kbase [OF assms(1)] assms(2), of "ucast pr"] assms(4)
    by (simp only: u) blast
  have "task_prio_change (Some (Tcb c)) pr k = Some (TRUE, k2)"
    using k(1,2) g nt by (simp add: task_prio_change_def)
  moreover have "hd (ready ?A2 (unat pr)) = TL c" by simp
  moreover have "unat (prio (tcbs k2 (Tcb c))) = unat pr" "switches k2 = switches k"
    "schedule_is_lock k2 = schedule_is_lock k"
    using k(6) u by (simp_all add: same_but_ready_def tcb_upd_def)
  moreover have "\<forall>q. (\<forall>p. q \<noteq> RQ p) \<longrightarrow> ?A2 q = A q" by simp
  ultimately show ?thesis using k(3-5) unfolding kinv_def by blast
qed

text \<open>\<open>task_prio_change\<close> moves the calling task to the head of the ready queue of its new
  priority, without rescheduling: the caller keeps running, even when a more urgent task is
  ready, and no task is lost.\<close>

theorem task_prio_change_ok:
  assumes "kinv k A" "running k A c" "1 \<le> unat pr" "unat pr < 32"
  shows "\<exists>k' A'. task_prio_change (Some (Tcb c)) pr k = Some (TRUE, k') \<and> kinv k' A' \<and>
    running k' A' c \<and> hd (ready A' (unat pr)) = TL c \<and> unat (prio (tcbs k' (Tcb c))) = unat pr \<and>
    members A' = members A \<and> switches k' = switches k"
  using task_prio_change_moves [OF assms] by blast

lemma prio_ready_queue_insert_head_fault:
  assumes "32 \<le> unat (prio (tcbs k t))"
  shows "prio_ready_queue_insert_head (Some t) k = None"
proof -
  have "bitmap_set p k = Some k' \<Longrightarrow> tcbs k' = tcbs k" for p k'
    by (auto simp: bitmap_set_def Let_def elim!: bind_SomeE)
  with assms show ?thesis
    by (cases "bitmap_set (prio (tcbs k t)) k")
      (auto simp: prio_ready_queue_insert_head_def ready_head_def)
qed

text \<open>Priority 32 passes the range check of \<open>task_prio_change\<close>, and the task is then
  inserted in \<^verbatim>\<open>task_prio_queue[32]\<close>, one past the end of the array.\<close>

theorem task_prio_change_32_faults:
  "task_prio_change (Some t) 32 k = None"
proof -
  have "prio_ready_queue_insert_head (Some t) (tcb_upd t (prio_update (\<lambda>_. 32)) k) = None" for k
    by (rule prio_ready_queue_insert_head_fault) (simp add: tcb_upd_def)
  then show ?thesis by (simp add: task_prio_change_def bind_eq_None_conv)
qed

subsection \<open>Unused stack\<close>

lemma check_stack_loop_total:
  "unat n - f \<le> i \<Longrightarrow> \<exists>r. check_stack_loop m i n f = Some r"
proof (induction m i n f rule: check_stack_loop.induct)
  case (1 m i n f)
  then show ?case by (subst check_stack_loop.simps) auto
qed

lemma check_stack_loop_counts:
  "check_stack_loop m i n f = Some r \<Longrightarrow> f \<le> unat n \<Longrightarrow>
    f \<le> r \<and> r \<le> unat n \<and> r - f \<le> i \<and> (\<forall>j<r - f. m (i - j) = Wd 0) \<and>
    (r < unat n \<longrightarrow> m (i - (r - f)) \<noteq> Wd 0)"
proof (induction m i n f rule: check_stack_loop.induct)
  case (1 m i n f)
  show ?case
  proof (cases "m i = Wd 0 \<and> f < unat n")
    case False
    then show ?thesis using "1.prems" by (subst (asm) check_stack_loop.simps) auto
  next
    case True
    then have i: "i \<noteq> 0" "check_stack_loop m (i - 1) n (f + 1) = Some r"
      using "1.prems"(1) by (subst (asm) check_stack_loop.simps, simp split: if_splits)+
    have ih: "f + 1 \<le> r" "r \<le> unat n" "r - (f + 1) \<le> i - 1"
        "\<forall>j<r - (f + 1). m (i - 1 - j) = Wd 0"
        "r < unat n \<longrightarrow> m (i - 1 - (r - (f + 1))) \<noteq> Wd 0"
      using "1.IH" [OF True i(1) i(2)] True by auto
    have "m (i - j) = Wd 0" if "j < r - f" for j
    proof (cases j)
      case 0
      then show ?thesis using True by simp
    next
      case (Suc j')
      then have "j' < r - (f + 1)" using that by simp
      then have "m (i - 1 - j') = Wd 0" using ih(4) by blast
      moreover have "i - 1 - j' = i - j" using Suc by simp
      ultimately show ?thesis by metis
    qed
    moreover have "i - 1 - (r - (f + 1)) = i - (r - f)" using ih(1) by simp
    ultimately show ?thesis using ih i(1) by auto
  qed
qed

text \<open>\<open>task_check_stack\<close> returns, and its result is the number of zero words from
  \<open>stack_ptr + stack_size\<close> down to the first word that is not zero, at most \<open>stack_size\<close>.\<close>

theorem task_check_stack_counts:
  assumes "stack_ptr (tcbs k t) = Some (sid, i)"
  shows "\<exists>r. task_check_stack t n k = Some r \<and> r \<le> n \<and>
    (\<forall>j<unat r. stk k sid (i + unat n - j) = Wd 0) \<and>
    (r < n \<longrightarrow> stk k sid (i + unat n - unat r) \<noteq> Wd 0)"
proof -
  obtain r where r: "check_stack_loop (stk k sid) (i + unat n) n 0 = Some r"
    using check_stack_loop_total [of n 0 "i + unat n"] by auto
  note c = check_stack_loop_counts [OF r]
  have le: "r \<le> unat n" using c by simp
  have "r < 4294967296" using le_less_trans [OF le unat_u32_bound] .
  then have u: "unat (word_of_nat r :: u32) = r" by (simp add: unat_of_nat)
  have "task_check_stack t n k = Some (word_of_nat r)"
    using assms r by (simp add: task_check_stack_def)
  then show ?thesis using c le u by (auto simp: word_le_nat_alt word_less_nat_alt)
qed

end
