(* ===== verification/FosMutex.thy ===== *)
theory FosMutex
  imports FosTask
begin

text \<open>
  \<^verbatim>\<open>kernel/mutex.c\<close>: mutexes with a priority ceiling. A mutex pointer is an index into
  \<open>mutexes\<close>; NULL is \<open>None\<close>. As for semaphores, a call that blocks gives the state at the
  switch.
\<close>

subsection \<open>The operations\<close>

definition mutex_block_queue_init :: "nat option \<Rightarrow> kst \<Rightarrow> kst option" where
  "mutex_block_queue_init mutex_block_queue_head k = do {
     m \<leftarrow> mutex_block_queue_head;
     Some (klist_init (MutexL m) k)
   }"

definition mutex_block_queue_insert :: "nat option \<Rightarrow> kst \<Rightarrow> kst option" where
  "mutex_block_queue_insert mutex k = do {
     m \<leftarrow> mutex;
     t \<leftarrow> mutex_tcb (mutexes k m);
     kenq (MutexL m) (TcbL t) k
   }"

definition mutex_block_queue_delete :: "tcbp option \<Rightarrow> kst \<Rightarrow> kst option" where
  "mutex_block_queue_delete tcb k = do { t \<leftarrow> tcb; kdel (TcbL t) k }"

definition mutex_upd :: "nat \<Rightarrow> (MUTEX \<Rightarrow> MUTEX) \<Rightarrow> kst \<Rightarrow> kst" where
  "mutex_upd m f k = k\<lparr>mutexes := (mutexes k)(m := f (mutexes k m))\<rparr>"

definition mutex_init :: "nat option \<Rightarrow> string option \<Rightarrow> kst \<Rightarrow> (u8 \<times> kst) option" where
  "mutex_init mutex name k =
     (case mutex of
        None \<Rightarrow> Some (NO_MUTEX, k)
      | Some m \<Rightarrow> do {
          k \<leftarrow> mutex_block_queue_init mutex k;
          let k = mutex_upd m (mutex_name_update (\<lambda>_. name)) k;
          let k = mutex_upd m (enable_update (\<lambda>_. 1)) k;
          Some (TRUE, k)
        })"

definition mutex_get :: "nat option \<Rightarrow> kst \<Rightarrow> (u8 \<times> kst) option" where
  "mutex_get mutex k =
     (case mutex of
        None \<Rightarrow> Some (NO_MUTEX, k)
      | Some m \<Rightarrow> do {
          let (cpu_sr, k) = interrupt_disable k;
          k \<leftarrow> (if enable (mutexes k m) = 0 then do {
                 let k = mutex_upd m (mutex_tcb_update (\<lambda>_. new_task k)) k;
                 k \<leftarrow> prio_ready_queue_delete (new_task k) k;
                 k \<leftarrow> mutex_block_queue_insert mutex k;
                 schedule k
               } else do {
                 t \<leftarrow> new_task k;
                 let k = mutex_upd m (copy_prio_update (\<lambda>_. ucast (prio (tcbs k t)))) k;
                 k \<leftarrow> prio_ready_queue_delete (new_task k) k;
                 let k = tcb_upd t (prio_update (\<lambda>_. PRIO_MUTEX)) k;
                 k \<leftarrow> prio_ready_queue_insert_head (new_task k) k;
                 Some (mutex_upd m (enable_update (\<lambda>_. 0)) k)
               });
          Some (TRUE, interrupt_enable cpu_sr k)
        })"

definition mutex_put :: "nat option \<Rightarrow> kst \<Rightarrow> (u8 \<times> kst) option" where
  "mutex_put mutex k =
     (case mutex of
        None \<Rightarrow> Some (NO_MUTEX, k)
      | Some m \<Rightarrow> do {
          let (cpu_sr, k) = interrupt_disable k;
          k \<leftarrow> prio_ready_queue_delete (new_task k) k;
          t \<leftarrow> new_task k;
          let k = tcb_upd t (prio_update (\<lambda>_. ucast (copy_prio (mutexes k m)))) k;
          k \<leftarrow> prio_ready_queue_insert_head (new_task k) k;
          let k = mutex_upd m (enable_update (\<lambda>_. 1)) k;
          k \<leftarrow> (if \<not> klast k (MutexL m) then do {
                 n \<leftarrow> knext k (MutexL m);
                 tcb_tmp \<leftarrow> tcb_of_link n;
                 k \<leftarrow> mutex_block_queue_delete (Some tcb_tmp) k;
                 prio_ready_queue_insert_head (Some tcb_tmp) k
               } else Some k);
          k \<leftarrow> schedule (interrupt_enable cpu_sr k);
          Some (TRUE, k)
        })"

definition mutex_delete :: "nat option \<Rightarrow> kst \<Rightarrow> u8 \<times> kst" where
  "mutex_delete mutex k = (TRUE, k)"

subsection \<open>The invariant and the mutex table\<close>

lemma kbase_mutexes:
  assumes b: "kbase k A" and e: "heap k' = heap k" "bm_y k' = bm_y k" "bm_c k' = bm_c k"
      "tcbs k' = tcbs k" "ticks k' = ticks k" "queues k' = queues k"
    and c: "\<And>m. copy_prio (mutexes k' m) = copy_prio (mutexes k m) \<or> unat (copy_prio (mutexes k' m)) < 32"
  shows "kbase k' A"
proof -
  have "list_ok k' A q xs" if q: "A q = Some xs" for q xs
  proof (cases "task_list q")
    case True
    then show ?thesis
      using kbase_list_ok [OF b q] c live_cong [OF e(4)] by (simp add: task_list_ok) metis
  next
    case False
    then show ?thesis
      using kbase_list_ok [OF b q] e live_cong [OF e(4)]
      by (cases "(k, A, q, xs)" rule: list_ok.cases) (auto simp: tick_ok_def)
  qed
  moreover have "sched_inv k' A" using kbase_sched [OF b] sched_inv_cong [OF e(1-4)] by simp
  ultimately show ?thesis using b by (simp add: kbase_def)
qed

lemma kbase_mutex_simps:
  "kbase (k\<lparr>sr := v\<rparr>) A = kbase k A"
  "kbase (mutex_upd m (enable_update f) k) A = kbase k A"
  "kbase (mutex_upd m (mutex_tcb_update g) k) A = kbase k A"
  by (rule iffI; rule kbase_mutexes, assumption; simp add: mutex_upd_def)+

lemma kinv_mutex_sr: "kinv (k\<lparr>sr := v\<rparr>) A = kinv k A"
  by (simp add: kinv_def kbase_mutex_simps running_def)

subsection \<open>Taking a free mutex\<close>

lemma mutex_get_free:
  assumes inv: "kinv k A" and r: "running k A c" and f: "enable (mutexes k m) \<noteq> 0"
  shows "\<exists>k' A'. mutex_get (Some m) k = Some (TRUE, k') \<and> kinv k' A' \<and> running k' A' c \<and>
    hd (ready A' 1) = TL c \<and> prio (tcbs k' (Tcb c)) = PRIO_MUTEX \<and>
    mutexes k' m = (mutexes k m)\<lparr>copy_prio := ucast (prio (tcbs k (Tcb c))), enable := 0\<rparr> \<and>
    members A' = members A \<and> (\<forall>q. (\<forall>p. q \<noteq> RQ p) \<longrightarrow> A' q = A q) \<and>
    switches k' = switches k \<and> sr k' = sr k \<and> schedule_is_lock k' = schedule_is_lock k"
proof -
  let ?v = "sr k AND NOT (SPR_SR_IEE OR SPR_SR_TEE)"
  let ?k = "mutex_upd m (copy_prio_update (\<lambda>_. ucast (prio (tcbs k (Tcb c))))) (k\<lparr>sr := ?v\<rparr>)"
  let ?p = "unat (prio (tcbs k (Tcb c)))"
  let ?A1 = "A(RQ ?p \<mapsto> remove1 (TL c) (ready A ?p))"
  let ?A2 = "?A1(RQ 1 \<mapsto> TL c # ready ?A1 1)"
  let ?u = "tcb_upd (Tcb c) (prio_update (\<lambda>_. PRIO_MUTEX))"
  note b = kinv_kbase [OF inv]
  have p: "?p < 32" using running_ready [OF r b] by (simp add: ready_set_def)
  have cp: "unat (ucast (prio (tcbs k (Tcb c))) :: u32) = ?p"
    by (simp add: unsigned_ucast_eq take_bit_nat_eq_self less_trans [OF unat_u8_bound])
  have nt: "new_task k = Some (Tcb c)" using r by (simp add: running_def)
  have bk: "kbase ?k A"
    by (rule kbase_mutexes [OF b]) (auto simp: mutex_upd_def cp p)
  have rk: "running ?k A c" using r running_cong [of ?k k] by (simp add: mutex_upd_def)
  obtain k1 k2 where k2: "prio_ready_queue_delete (Some (Tcb c)) ?k = Some k1"
    "prio_ready_queue_insert_head (Some (Tcb c)) (?u k1) = Some k2"
    "kbase k2 ?A2" "running k2 ?A2 c" "members ?A2 = members A"
    "same_but_ready (?u ?k) k2" "same_but_ready ?k k1"
    using requeue_running [OF bk rk, of 1] by (auto simp: mutex_upd_def)
  let ?k' = "interrupt_enable (sr k) (mutex_upd m (enable_update (\<lambda>_. 0)) k2)"
  have "mutex_get (Some m) k = Some (TRUE, ?k')"
  proof -
    have "new_task k1 = Some (Tcb c)" using k2(7) nt by (simp add: same_but_ready_def mutex_upd_def)
    then show ?thesis
      using f nt k2(1,2) by (simp add: mutex_get_def interrupt_disable_def mutex_upd_def tcb_upd_def)
  qed
  moreover have "kbase ?k' ?A2"
    using k2(3) by (simp add: interrupt_enable_def kbase_mutex_simps)
  moreover have "running ?k' ?A2 c"
    using k2(4) by (simp add: interrupt_enable_def mutex_upd_def running_def)
  moreover have "hd (ready ?A2 1) = TL c" by simp
  ultimately show ?thesis
    using k2(5,6)
    by (intro exI [of _ ?k'] exI [of _ ?A2])
      (auto simp: kinv_def interrupt_enable_def mutex_upd_def same_but_ready_def tcb_upd_def)
qed

subsection \<open>Waiting for a taken mutex\<close>

lemma mutex_get_blocks:
  assumes inv: "kinv k A" and r: "running k A c" and w: "A (MutexL m) = Some ws"
    and z: "enable (mutexes k m) = 0" and o: "others_ready A c"
    and lock: "schedule_is_lock k \<noteq> TRUE"
  defines "p \<equiv> unat (prio (tcbs k (Tcb c)))"
  defines "A' \<equiv> A(RQ p \<mapsto> remove1 (TL c) (ready A p), MutexL m \<mapsto> ws @ [TL c])"
  shows "\<exists>k' t. mutex_get (Some m) k = Some (TRUE, k') \<and> kinv k' (asched A') \<and>
    chosen A' = Some t \<and> t \<noteq> Tcb c \<and> new_task k' = Some t \<and>
    switches k' = switches k @ [(Some (Tcb c), t)] \<and> enable (mutexes k' m) = 0 \<and>
    members (asched A') = members A \<and> tcbs k' = tcbs k \<and> sr k' = sr k \<and>
    schedule_is_lock k' = schedule_is_lock k"
proof -
  let ?v = "sr k AND NOT (SPR_SR_IEE OR SPR_SR_TEE)"
  let ?k = "mutex_upd m (mutex_tcb_update (\<lambda>_. new_task k)) (k\<lparr>sr := ?v\<rparr>)"
  have nt: "new_task k = Some (Tcb c)" using r by (simp add: running_def)
  have b: "kbase ?k A" using inv by (simp add: kbase_mutex_simps kinv_kbase)
  have rk: "running ?k A c" using r running_cong [of ?k k] by (simp add: mutex_upd_def)
  obtain k1 k2 k' t where k': "prio_ready_queue_delete (Some (Tcb c)) ?k = Some k1"
    "kenq (MutexL m) (TL c) k1 = Some k2" "schedule k2 = Some k'" "chosen A' = Some t"
    "t \<noteq> Tcb c" "kinv k' (asched A')" "same_but_ready ?k k1" "same_but_sched ?k k'"
    "new_task k' = Some t" "switches k' = switches ?k @ [(Some (Tcb c), t)]"
    "members (asched A') = members A"
    using mutexw.block_and_schedule [OF b rk w o] lock
    by (auto simp: A'_def p_def mutex_upd_def)
  have "mutex_get (Some m) k = Some (TRUE, interrupt_enable (sr k) k')"
    using k'(1-3,7) z nt
    by (simp add: mutex_get_def interrupt_disable_def mutex_block_queue_insert_def mutex_upd_def
        same_but_ready_def)
  moreover have "mutexes k' m = mutexes ?k m" "tcbs k' = tcbs k" "schedule_is_lock k' = schedule_is_lock k"
    using k'(8) by (simp_all add: same_but_sched_def mutex_upd_def)
  ultimately show ?thesis
    using k' z by (auto simp: interrupt_enable_def kinv_mutex_sr mutex_upd_def)
qed

subsection \<open>Releasing\<close>

lemma mutex_block_queue_delete_Some: "mutex_block_queue_delete (Some t) k = kdel (TcbL t) k"
  by (simp add: mutex_block_queue_delete_def)

lemma mutex_put_ok:
  assumes inv: "kinv k A" and r: "running k A c" and w: "A (MutexL m) = Some ws"
    and lock: "schedule_is_lock k \<noteq> TRUE"
  shows "\<exists>k' A'. mutex_put (Some m) k = Some (TRUE, k') \<and> kinv k' A' \<and>
    A' (MutexL m) = Some (tl ws) \<and>
    mutexes k' m = (mutexes k m)\<lparr>enable := 1\<rparr> \<and>
    tcbs k' = (tcbs k)(Tcb c := (tcbs k (Tcb c))\<lparr>prio := ucast (copy_prio (mutexes k m))\<rparr>) \<and>
    (\<forall>n. ws \<noteq> [] \<and> hd ws = TL n \<longrightarrow> TL n \<in> set (ready A' (unat (prio (tcbs k' (Tcb n)))))) \<and>
    members A' = members A \<and> sr k' = sr k \<and> schedule_is_lock k' = schedule_is_lock k \<and>
    (\<forall>q. q \<noteq> MutexL m \<and> (\<forall>p. q \<noteq> RQ p) \<longrightarrow> A' q = A q)"
proof -
  let ?k = "snd (interrupt_disable k)"
  let ?pr = "ucast (copy_prio (mutexes k m)) :: u8"
  let ?p = "unat (prio (tcbs k (Tcb c)))"
  let ?A1 = "A(RQ ?p \<mapsto> remove1 (TL c) (ready A ?p))"
  let ?A2 = "?A1(RQ (unat ?pr) \<mapsto> TL c # ready ?A1 (unat ?pr))"
  let ?u = "tcb_upd (Tcb c) (prio_update (\<lambda>_. ?pr))"
  have b: "kbase ?k A" using inv by (simp add: interrupt_disable_def kbase_mutex_simps kinv_kbase)
  have nt: "new_task k = Some (Tcb c)" using r by (simp add: running_def)
  have rk: "running ?k A c" using r running_cong [of ?k k] by (simp add: interrupt_disable_def)
  have "unat (copy_prio (mutexes k m)) < 32"
    using kbase_list_ok [OF kinv_kbase [OF inv] w] by simp
  then have pr: "unat ?pr < 32" by (simp add: unsigned_ucast_eq take_bit_nat_eq_self)
  obtain k1 k2 where k2: "prio_ready_queue_delete (Some (Tcb c)) ?k = Some k1"
    "prio_ready_queue_insert_head (Some (Tcb c)) (?u k1) = Some k2"
    "kbase k2 ?A2" "running k2 ?A2 c" "members ?A2 = members A"
    "same_but_ready (?u ?k) k2" "same_but_ready ?k k1"
    using requeue_running [OF b rk pr] by (auto simp: interrupt_disable_def)
  let ?k3 = "mutex_upd m (enable_update (\<lambda>_. 1)) k2"
  have b3: "kbase ?k3 ?A2" using k2(3) by (simp add: kbase_mutex_simps)
  have ne2: "ready_set ?A2 \<noteq> {}" using pr by (auto simp: ready_set_def)
  have w2: "?A2 (MutexL m) = Some ws" using w by simp
  obtain k4 A4 where k4: "(if \<not> klast ?k3 (MutexL m) then do {
                 n \<leftarrow> knext ?k3 (MutexL m);
                 tcb_tmp \<leftarrow> tcb_of_link n;
                 k \<leftarrow> kdel (TcbL tcb_tmp) ?k3;
                 prio_ready_queue_insert_head (Some tcb_tmp) k
               } else Some ?k3) = Some k4" "kbase k4 A4" "same_but_ready ?k3 k4" "ready_set A4 \<noteq> {}"
    "members A4 = members ?A2" "A4 (MutexL m) = Some (tl ws)"
    "\<forall>p. set (ready ?A2 p) \<subseteq> set (ready A4 p)"
    "\<forall>q. q \<noteq> MutexL m \<and> (\<forall>p. q \<noteq> RQ p) \<longrightarrow> A4 q = ?A2 q"
    "\<forall>n. ws \<noteq> [] \<and> hd ws = TL n \<longrightarrow> TL n \<in> set (ready A4 (unat (prio (tcbs ?k3 (Tcb n)))))"
    using mutexw.wake_step [OF b3 w2 ne2] by (elim exE conjE) (rule that)
  let ?k4 = "interrupt_enable (sr k) k4"
  have b4: "kbase ?k4 A4" using k4(2) by (simp add: interrupt_enable_def kbase_mutex_simps)
  have n1: "new_task k1 = new_task k"
    using k2(7) by (simp add: same_but_ready_def interrupt_disable_def)
  have n4: "new_task k4 = new_task k" "schedule_is_lock k4 = schedule_is_lock k"
    "tcbs k4 = (tcbs k)(Tcb c := (tcbs k (Tcb c))\<lparr>prio := ?pr\<rparr>)"
    "mutexes k4 = (mutexes k)(m := (mutexes k m)\<lparr>enable := 1\<rparr>)"
    using k4(3) k2(6)
    by (simp_all add: same_but_ready_def mutex_upd_def tcb_upd_def interrupt_disable_def)
  obtain k' t where k': "schedule ?k4 = Some k'" "kinv k' (asched A4)" "same_but_sched ?k4 k'"
    using schedule_kinv [OF b4 k4(4)] nt n4(1,2) lock by (auto simp: interrupt_enable_def)
  have "mutex_put (Some m) k = Some (TRUE, k')"
  proof -
    have "mutexes k1 = mutexes k" using k2(7) by (simp add: same_but_ready_def interrupt_disable_def)
    moreover have "new_task (?u k1) = Some (Tcb c)" using n1 nt by (simp add: tcb_upd_def)
    ultimately show ?thesis
      using k2(1,2) k4(1) k'(1) nt n1 
      by (cases "klast ?k3 (MutexL m)")
        (auto simp: mutex_put_def interrupt_disable_def mutex_block_queue_delete_Some elim!: bind_SomeE)
  qed
  moreover have "tcbs ?k3 = tcbs k'" "mutexes k' = mutexes k4" "tcbs k' = tcbs k4"
    "sr k' = sr k" "schedule_is_lock k' = schedule_is_lock k4"
    using k'(3) k4(3) by (simp_all add: same_but_sched_def same_but_ready_def interrupt_enable_def)
  moreover have "members (asched A4) = members A"
    using asched_lists(2) [OF b4 k4(4)] k4(5) k2(5) by simp
  moreover have "asched A4 (MutexL m) = Some (tl ws)" using k4(6) by (simp add: asched_def)
  moreover have "asched A4 q = A q" if "q \<noteq> MutexL m" "\<forall>p. q \<noteq> RQ p" for q
    using k4(8) that by (simp add: asched_def)
  moreover have "set (ready (asched A4) p) = set (ready A4 p)" for p by (simp add: asched_def)
  ultimately show ?thesis
    using k'(2) k4(9) n4 by (intro exI [of _ k'] exI [of _ "asched A4"]) simp
qed

subsection \<open>The abstract mutex\<close>

text \<open>A mutex is a flag that says whether it can be taken, and the tasks waiting for it,
  oldest first.\<close>

definition mutex_view :: "kst \<Rightarrow> klink lists \<Rightarrow> nat \<Rightarrow> (bool \<times> klink list) option" where
  "mutex_view k A m = map_option (Pair (enable (mutexes k m) \<noteq> 0)) (A (MutexL m))"

fun amutex_get :: "klink \<Rightarrow> bool \<times> klink list \<Rightarrow> bool \<times> klink list" where
  "amutex_get c (True, ws) = (False, ws)"
| "amutex_get c (False, ws) = (False, ws @ [c])"

fun amutex_put :: "bool \<times> klink list \<Rightarrow> bool \<times> klink list" where
  "amutex_put (f, ws) = (True, tl ws)"

lemma mutex_view_Some:
  "mutex_view k A m = Some (f, ws) \<longleftrightarrow> A (MutexL m) = Some ws \<and> f = (enable (mutexes k m) \<noteq> 0)"
  by (auto simp: mutex_view_def)

text \<open>A new mutex is free; the saved priority of the \<open>MUTEX\<close> structure stays as it was.\<close>

lemma mutex_init_ok:
  assumes b: "kbase k A" and c: "unat (copy_prio (mutexes k m)) < 32"
  shows "\<exists>k'. mutex_init (Some m) name k = Some (TRUE, k') \<and> kbase k' (A(MutexL m \<mapsto> [])) \<and>
    mutex_view k' (A(MutexL m \<mapsto> [])) m = Some (True, []) \<and>
    same_but_heap (k\<lparr>mutexes := mutexes k'\<rparr>) k'"
proof -
  let ?k = "mutex_upd m (enable_update (\<lambda>_. 1)) (mutex_upd m (mutex_name_update (\<lambda>_. name))
      (klist_init (MutexL m) k))"
  have "list_ok k A r xs \<Longrightarrow> list_ok ?k A r xs" for r xs
    by (cases "(k, A, r, xs)" rule: list_ok.cases)
      (auto simp: live_def tick_ok_def mutex_upd_def klist_init_def)
  then have "kbase ?k (A(MutexL m \<mapsto> []))"
    using c by (intro kbase_new_list [OF b]) (simp_all add: mutex_upd_def klist_init_def)
  then show ?thesis
    by (simp add: mutex_init_def mutex_block_queue_init_def mutex_view_def mutex_upd_def
        klist_init_def same_but_heap_def)
qed

subsection \<open>Correctness\<close>

text \<open>C10: \<open>mutex_get\<close> implements the abstract mutex. A free mutex is taken and its owner goes
  on at the ceiling priority 1 with its own priority saved; otherwise the caller is queued
  behind the waiting tasks, keeps its priority, and another task runs. No task is lost.\<close>

theorem mutex_get_refines:
  assumes "kinv k A" "running k A c" "schedule_is_lock k \<noteq> TRUE"
    and "mutex_view k A m = Some v" "others_ready A c"
  shows "\<exists>k' A'. mutex_get (Some m) k = Some (TRUE, k') \<and> kinv k' A' \<and>
      mutex_view k' A' m = Some (amutex_get (TL c) v) \<and> members A' = members A \<and> sr k' = sr k \<and>
      (if fst v then running k' A' c \<and> prio (tcbs k' (Tcb c)) = PRIO_MUTEX \<and>
         copy_prio (mutexes k' m) = ucast (prio (tcbs k (Tcb c)))
       else new_task k' \<noteq> Some (Tcb c) \<and> tcbs k' = tcbs k)"
proof -
  obtain f ws where v: "v = (f, ws)" "A (MutexL m) = Some ws" "f = (enable (mutexes k m) \<noteq> 0)"
    using assms(4) by (cases v) (auto simp: mutex_view_Some)
  show ?thesis
  proof (cases f)
    case True
    then have e: "enable (mutexes k m) \<noteq> 0" using v(3) by simp
    obtain k' A' where k': "mutex_get (Some m) k = Some (TRUE, k')" "kinv k' A'" "running k' A' c"
      "prio (tcbs k' (Tcb c)) = PRIO_MUTEX"
      "mutexes k' m = (mutexes k m)\<lparr>copy_prio := ucast (prio (tcbs k (Tcb c))), enable := 0\<rparr>"
      "members A' = members A" "\<And>q. (\<And>p. q \<noteq> RQ p) \<Longrightarrow> A' q = A q" "sr k' = sr k"
      using mutex_get_free [OF assms(1,2) e] by blast
    have "mutex_view k' A' m = Some (amutex_get (TL c) v)"
      using k'(5) k'(7) [of "MutexL m"] v True by (simp add: mutex_view_Some)
    with k' v(1) True show ?thesis by (intro exI [of _ k'] exI [of _ A']) simp
  next
    case False
    then have e: "enable (mutexes k m) = 0" using v(3) by simp
    let ?p = "unat (prio (tcbs k (Tcb c)))"
    let ?A = "A(RQ ?p \<mapsto> remove1 (TL c) (ready A ?p), MutexL m \<mapsto> ws @ [TL c])"
    obtain k' t where k': "mutex_get (Some m) k = Some (TRUE, k')" "kinv k' (asched ?A)"
      "t \<noteq> Tcb c" "new_task k' = Some t" "enable (mutexes k' m) = 0"
      "members (asched ?A) = members A" "tcbs k' = tcbs k" "sr k' = sr k"
      using mutex_get_blocks [OF assms(1,2) v(2) e assms(5,3)] by blast
    have "mutex_view k' (asched ?A) m = Some (amutex_get (TL c) v)"
      using k'(5) v False by (simp add: mutex_view_Some asched_def)
    with k' v(1) False show ?thesis by (intro exI [of _ k'] exI [of _ "asched ?A"]) simp
  qed
qed

text \<open>C11: \<open>mutex_put\<close> implements the abstract mutex: it restores the priority saved in the
  mutex, makes the mutex free, and makes the task ready that has waited longest. No task is
  lost.\<close>

theorem mutex_put_refines:
  assumes "kinv k A" "running k A c" "schedule_is_lock k \<noteq> TRUE" "mutex_view k A m = Some v"
  shows "\<exists>k' A'. mutex_put (Some m) k = Some (TRUE, k') \<and> kinv k' A' \<and>
      mutex_view k' A' m = Some (amutex_put v) \<and>
      prio (tcbs k' (Tcb c)) = ucast (copy_prio (mutexes k m)) \<and>
      (\<forall>n. snd v \<noteq> [] \<and> hd (snd v) = TL n \<longrightarrow>
        TL n \<in> set (ready A' (unat (prio (tcbs k' (Tcb n)))))) \<and>
      members A' = members A \<and> sr k' = sr k"
proof -
  obtain f ws where v: "v = (f, ws)" "A (MutexL m) = Some ws"
    using assms(4) by (cases v) (auto simp: mutex_view_Some)
  obtain k' A' where k': "mutex_put (Some m) k = Some (TRUE, k')" "kinv k' A'"
    "A' (MutexL m) = Some (tl ws)" "mutexes k' m = (mutexes k m)\<lparr>enable := 1\<rparr>"
    "tcbs k' = (tcbs k)(Tcb c := (tcbs k (Tcb c))\<lparr>prio := ucast (copy_prio (mutexes k m))\<rparr>)"
    "\<forall>n. ws \<noteq> [] \<and> hd ws = TL n \<longrightarrow> TL n \<in> set (ready A' (unat (prio (tcbs k' (Tcb n)))))"
    "members A' = members A" "sr k' = sr k"
    using mutex_put_ok [OF assms(1,2) v(2) assms(3)] by (elim exE conjE) (rule that)
  moreover have "mutex_view k' A' m = Some (amutex_put v)"
    using k'(3,4) v by (simp add: mutex_view_Some)
  ultimately show ?thesis using v(1) by (intro exI [of _ k'] exI [of _ A']) simp
qed

text \<open>C12: releasing a mutex that a task \<open>w\<close> waits for leaves it free although \<open>w\<close>, whose
  \<open>mutex_get\<close> then returns \<open>TRUE\<close>, was made ready: whichever task runs next can take the
  mutex as well without blocking, so two tasks hold it.\<close>

theorem mutex_handover_not_exclusive:
  assumes "kinv k A" "running k A c" "schedule_is_lock k \<noteq> TRUE"
    and "A (MutexL m) = Some (TL w # ws)"
  shows "\<exists>k1 A1. mutex_put (Some m) k = Some (TRUE, k1) \<and> kinv k1 A1 \<and>
      TL w \<in> set (ready A1 (unat (prio (tcbs k1 (Tcb w))))) \<and>
      (\<forall>d. running k1 A1 d \<longrightarrow> (\<exists>k2. mutex_get (Some m) k1 = Some (TRUE, k2) \<and>
         enable (mutexes k2 m) = 0 \<and> switches k2 = switches k1))"
proof -
  obtain k1 A1 where k1: "mutex_put (Some m) k = Some (TRUE, k1)" "kinv k1 A1"
    "mutexes k1 m = (mutexes k m)\<lparr>enable := 1\<rparr>"
    "TL w \<in> set (ready A1 (unat (prio (tcbs k1 (Tcb w)))))"
    using mutex_put_ok [OF assms(1,2,4,3)] by auto
  have "\<exists>k2. mutex_get (Some m) k1 = Some (TRUE, k2) \<and> enable (mutexes k2 m) = 0 \<and>
      switches k2 = switches k1" if "running k1 A1 d" for d
    using mutex_get_free [OF k1(2) that, of m] k1(3) by auto
  with k1 show ?thesis by blast
qed

end
