(* ===== verification/FosMsgq.thy ===== *)
theory FosMsgq
  imports FosTask
begin

text \<open>
  \<^verbatim>\<open>kernel/queue.c\<close>: message queues. A queue pointer is an index into \<open>queues\<close>, a message
  pointer an index into \<open>msgs\<close>; NULL is \<open>None\<close>. \<open>QueueL i\<close> is the list of the
  blocked tasks of queue \<open>i\<close>, \<open>QMsgL i\<close> (\<^verbatim>\<open>msg_head\<close>) its messages. The caller's buffer is
  the list of its bytes.
\<close>

subsection \<open>The operations\<close>

definition msg_block_queue_init :: "nat option \<Rightarrow> kst \<Rightarrow> kst option" where
  "msg_block_queue_init msg_block_queue_msg_head k = do {
     i \<leftarrow> msg_block_queue_msg_head;
     Some (klist_init (QueueL i) k)
   }"

definition msg_block_queue_insert :: "nat option \<Rightarrow> kst \<Rightarrow> kst option" where
  "msg_block_queue_insert msg_queue k = do {
     i \<leftarrow> msg_queue;
     t \<leftarrow> new_task k;
     kenq (QueueL i) (TcbL t) k
   }"

definition msg_block_queue_delete :: "tcbp option \<Rightarrow> kst \<Rightarrow> kst option" where
  "msg_block_queue_delete tcb k = do { t \<leftarrow> tcb; kdel (TcbL t) k }"

definition queue_upd :: "nat \<Rightarrow> (QUEUE \<Rightarrow> QUEUE) \<Rightarrow> kst \<Rightarrow> kst" where
  "queue_upd i f k = k\<lparr>queues := (queues k)(i := f (queues k i))\<rparr>"

definition msg_queue_create :: "nat option \<Rightarrow> u32 \<Rightarrow> string option \<Rightarrow> kst \<Rightarrow> (u8 \<times> kst) option" where
  "msg_queue_create entry len name k =
     (case entry of
        None \<Rightarrow> Some (FALSE, k)
      | Some i \<Rightarrow>
          if len \<le> 0 then Some (FALSE, k)
          else do {
            let (cpu_sr, k) = interrupt_disable k;
            k \<leftarrow> msg_block_queue_init entry k;
            let k = klist_init (QMsgL i) k;
            let k = queue_upd i (q_length_update (\<lambda>_. len)) k;
            let k = queue_upd i (q_count_update (\<lambda>_. 0)) k;
            let k = queue_upd i (q_name_update (\<lambda>_. name)) k;
            Some (TRUE, interrupt_enable cpu_sr k)
          })"

definition msg_put :: "nat option \<Rightarrow> nat option \<Rightarrow> u8 \<Rightarrow> kst \<Rightarrow> (u8 \<times> kst) option" where
  "msg_put entry msg mthd k =
     (case (entry, msg) of
        (Some i, Some m) \<Rightarrow>
          if q_count (queues k i) > q_length (queues k i) then Some (FALSE, k)
          else do {
            let (cpu_sr, k) = interrupt_disable k;
            k \<leftarrow> (if \<not> klast k (QueueL i) then do {
                   n \<leftarrow> knext k (QueueL i);
                   tcb_tmp \<leftarrow> tcb_of_link n;
                   k \<leftarrow> msg_block_queue_delete (Some tcb_tmp) k;
                   prio_ready_queue_insert_head (Some tcb_tmp) k
                 } else Some k);
            (if q_count (queues k i) = q_length (queues k i)
             then Some (Q_FULL, interrupt_enable cpu_sr k)
             else do {
               let k = queue_upd i (q_count_update (\<lambda>c. c + 1)) k;
               k \<leftarrow> (if mthd = FIFO then kenq (QMsgL i) (MsgL m) k
                     else kpush (QMsgL i) (MsgL m) k);
               Some (TRUE, interrupt_enable cpu_sr k)
             })
          }
      | _ \<Rightarrow> Some (FALSE, k))"

text \<open>\<^verbatim>\<open>memcpy(buffer, src, n)\<close>: the first \<open>n\<close> bytes of the buffer are replaced; reading or
  writing past the end of either array is a fault.\<close>

definition copy_bytes :: "nat \<Rightarrow> u8 list \<Rightarrow> u8 list \<Rightarrow> u8 list option" where
  "copy_bytes n src dst =
     (if n \<le> length src \<and> n \<le> length dst then Some (take n src @ drop n dst) else None)"

definition msg_get :: "nat option \<Rightarrow> u8 list option \<Rightarrow> kst \<Rightarrow> (u8 \<times> u8 list option \<times> kst) option" where
  "msg_get entry buffer k =
     (case (entry, buffer) of
        (Some i, Some buf) \<Rightarrow> do {
          let (cpu_sr, k) = interrupt_disable k;
          (retval, buf, k) \<leftarrow>
            (if klast k (QMsgL i) then do {
               k \<leftarrow> prio_ready_queue_delete (new_task k) k;
               k \<leftarrow> msg_block_queue_insert entry k;
               Some (Q_EMPTY, buf, k)
             } else do {
               n \<leftarrow> knext k (QMsgL i);
               m \<leftarrow> msg_of_link n;
               src \<leftarrow> msg_buff (msgs k m);
               buf \<leftarrow> copy_bytes 5 src buf;
               n' \<leftarrow> knext k (QMsgL i);
               k \<leftarrow> kdel n' k;
               Some (TRUE, buf,
                 if q_count (queues k i) > 0 then queue_upd i (q_count_update (\<lambda>c. c - 1)) k else k)
             });
          let k = interrupt_enable cpu_sr k;
          k \<leftarrow> (if retval = Q_EMPTY then schedule k else Some k);
          Some (retval, Some buf, k)
        }
      | _ \<Rightarrow> Some (FALSE, buffer, k))"

subsection \<open>The invariant and the message lists\<close>

lemma kbase_msg_list:
  assumes b: "kbase k A" and r: "krep k' (A(QMsgL i \<mapsto> ys))"
    and e: "bm_y k' = bm_y k" "bm_c k' = bm_c k" "tcbs k' = tcbs k" "ticks k' = ticks k"
      "mutexes k' = mutexes k" "queues k' = (queues k)(i := q)"
    and ys: "\<And>y. y \<in> set ys \<Longrightarrow> \<exists>m. y = MsgL m" and n: "length ys = unat (q_count q)"
      "q_count q \<le> q_length q"
  shows "kbase k' (A(QMsgL i \<mapsto> ys))"
proof -
  let ?A = "A(QMsgL i \<mapsto> ys)"
  have un: "unthreaded ?A (TL n)" if "unthreaded A (TL n)" for n
    using that ys by (auto simp: unthreaded_def)
  have tk: "tick_ok k' ?A x" if "tick_ok k A x" for x
    using that un e live_cong [OF e(3)] by (auto simp: tick_ok_def)
  have "list_ok k' ?A q' xs" if q': "?A q' = Some xs" for q' xs
  proof (cases "q' = QMsgL i")
    case True
    then show ?thesis using q' ys n e(6) by simp
  next
    case False
    then have "A q' = Some xs" using q' by simp
    then show ?thesis
      using kbase_list_ok [OF b, of q' xs] tk e live_cong [OF e(3)] False
      by (cases "(k, A, q', xs)" rule: list_ok.cases) auto
  qed
  moreover have "sched_inv k' ?A"
    using kbase_sched [OF b] r e by (intro sched_inv_other_upd [where k = k]) auto
  ultimately show ?thesis using b by (simp add: kbase_def)
qed

lemma kbase_msgq_sr: "kbase (k\<lparr>sr := v\<rparr>) A = kbase k A"
  by (rule iffI; rule kbase_cong, assumption; simp)

lemma qmsg_ok:
  assumes "kbase k A" "A (QMsgL i) = Some ms"
  shows "length ms = unat (q_count (queues k i))" "q_count (queues k i) \<le> q_length (queues k i)"
    "\<And>x. x \<in> set ms \<Longrightarrow> \<exists>m. x = MsgL m"
  using kbase_list_ok [OF assms] by auto

lemma msg_block_queue_delete_Some: "msg_block_queue_delete (Some t) k = kdel (TcbL t) k"
  by (simp add: msg_block_queue_delete_def)

subsection \<open>The abstract message queue\<close>

text \<open>A queue has a capacity, the messages it holds in the order they will be read, and the
  tasks waiting for a message, oldest first.\<close>

definition msgq_view :: "kst \<Rightarrow> klink lists \<Rightarrow> nat \<Rightarrow> (nat \<times> klink list \<times> klink list) option" where
  "msgq_view k A i = (case (A (QMsgL i), A (QueueL i)) of
     (Some ms, Some ws) \<Rightarrow> Some (unat (q_length (queues k i)), ms, ws) | _ \<Rightarrow> None)"

fun amsg_put :: "u8 \<Rightarrow> klink \<Rightarrow> nat \<times> klink list \<times> klink list \<Rightarrow> nat \<times> klink list \<times> klink list" where
  "amsg_put mthd m (cap, ms, ws) =
     (cap, if length ms = cap then ms else if mthd = FIFO then ms @ [m] else m # ms, tl ws)"

fun amsg_get :: "klink \<Rightarrow> nat \<times> klink list \<times> klink list \<Rightarrow> nat \<times> klink list \<times> klink list" where
  "amsg_get c (cap, [], ws) = (cap, [], ws @ [c])"
| "amsg_get c (cap, m # ms, ws) = (cap, ms, ws)"

lemma msgq_view_Some:
  "msgq_view k A i = Some (cap, ms, ws) \<longleftrightarrow>
     A (QMsgL i) = Some ms \<and> A (QueueL i) = Some ws \<and> cap = unat (q_length (queues k i))"
  by (auto simp: msgq_view_def split: option.splits)

text \<open>A new queue is empty.\<close>

lemma msg_queue_create_ok:
  assumes b: "kbase k A" and len: "len \<noteq> 0"
  shows "\<exists>k'. msg_queue_create (Some i) len name k = Some (TRUE, k') \<and>
    kbase k' (A(QueueL i \<mapsto> [], QMsgL i \<mapsto> [])) \<and>
    msgq_view k' (A(QueueL i \<mapsto> [], QMsgL i \<mapsto> [])) i = Some (unat len, [], []) \<and>
    same_but_heap (k\<lparr>queues := queues k'\<rparr>) k'"
proof -
  let ?k1 = "klist_init (QueueL i) (snd (interrupt_disable k))"
  let ?k = "interrupt_enable (sr k) (queue_upd i (q_name_update (\<lambda>_. name))
      (queue_upd i (q_count_update (\<lambda>_. 0)) (queue_upd i (q_length_update (\<lambda>_. len))
      (klist_init (QMsgL i) ?k1))))"
  have "list_ok k A r xs \<Longrightarrow> list_ok ?k1 A r xs" for r xs
    by (cases "(k, A, r, xs)" rule: list_ok.cases)
      (auto simp: live_def tick_ok_def klist_init_def interrupt_disable_def)
  then have b1: "kbase ?k1 (A(QueueL i \<mapsto> []))"
    by (intro kbase_new_list [OF b]) (simp_all add: klist_init_def interrupt_disable_def)
  have "r \<noteq> QMsgL i \<Longrightarrow> list_ok ?k1 B r xs \<Longrightarrow> list_ok ?k B r xs" for r xs B
    by (cases "(?k1, B, r, xs)" rule: list_ok.cases)
      (auto simp: live_def tick_ok_def queue_upd_def klist_init_def interrupt_enable_def
        interrupt_disable_def)
  then have "kbase ?k (A(QueueL i \<mapsto> [], QMsgL i \<mapsto> []))"
    by (intro kbase_new_list [OF b1])
      (simp_all add: queue_upd_def klist_init_def interrupt_enable_def interrupt_disable_def)
  then show ?thesis
    using len by (simp add: msg_queue_create_def msg_block_queue_init_def msgq_view_def queue_upd_def
        klist_init_def same_but_heap_def interrupt_disable_def interrupt_enable_def)
qed

text \<open>Putting a message on the list of a queue that has room.\<close>

lemma msg_store:
  fixes mthd :: u8
  assumes b: "kbase k A" and q: "A (QMsgL i) = Some ms" and u: "unthreaded A (MsgL m)"
    and room: "q_count (queues k i) \<noteq> q_length (queues k i)"
  defines "k1 \<equiv> queue_upd i (q_count_update (\<lambda>c. c + 1)) k"
  defines "ys \<equiv> (if mthd = FIFO then ms @ [MsgL m] else MsgL m # ms)"
  shows "\<exists>k'. (if mthd = FIFO then kenq (QMsgL i) (MsgL m) k1 else kpush (QMsgL i) (MsgL m) k1) = Some k' \<and>
    kbase k' (A(QMsgL i \<mapsto> ys)) \<and> same_but_heap k1 k'"
proof -
  have r1: "krep k1 A" using kbase_krep [OF b] by (simp add: k1_def queue_upd_def krep_def)
  have "\<exists>k'. (if mthd = FIFO then kenq (QMsgL i) (MsgL m) k1 else kpush (QMsgL i) (MsgL m) k1) = Some k' \<and>
      krep k' (A(QMsgL i \<mapsto> ys))"
    using kl.enq_law [OF r1 q u] kl.push_law [OF r1 q u] by (simp add: ys_def)
  then obtain k' where k': "(if mthd = FIFO then kenq (QMsgL i) (MsgL m) k1
      else kpush (QMsgL i) (MsgL m) k1) = Some k'" "krep k' (A(QMsgL i \<mapsto> ys))" by blast
  have same: "same_but_heap k1 k'"
    using k'(1) klist_frame(1,2) by (simp split: if_splits)
  note h = same_but_heap_sel [OF same]
  note ok = qmsg_ok [OF b q]
  have lt: "q_count (queues k i) < q_length (queues k i)" using ok(2) room by simp
  note nx = u32_less_plus_1(2) [OF lt]
  note un = u32_less_plus_1(1) [OF lt]
  have "kbase k' (A(QMsgL i \<mapsto> ys))"
  proof (rule kbase_msg_list [OF b k'(2), where q = "q_count_update (\<lambda>c. c + 1) (queues k i)"])
    show "length ys = unat (q_count (q_count_update (\<lambda>c. c + 1) (queues k i)))"
      using ok(1) un by (simp add: ys_def)
    show "q_count (q_count_update (\<lambda>c. c + 1) (queues k i)) \<le>
        q_length (q_count_update (\<lambda>c. c + 1) (queues k i))" using nx by simp
    show "\<exists>m. y = MsgL m" if "y \<in> set ys" for y
      using that ok(3) by (auto simp: ys_def split: if_splits)
  qed (use h in \<open>simp_all add: k1_def queue_upd_def\<close>)
  then show ?thesis using k'(1) same by blast
qed

lemma msg_put_ok:
  assumes inv: "kinv k A" and v: "msgq_view k A i = Some (cap, ms, ws)" and u: "unthreaded A (MsgL m)"
  shows "\<exists>k' A'. msg_put (Some i) (Some m) mthd k =
      Some (if length ms = cap then Q_FULL else TRUE, k') \<and> kinv k' A' \<and>
      msgq_view k' A' i = Some (amsg_put mthd (MsgL m) (cap, ms, ws)) \<and>
      (\<forall>n. ws \<noteq> [] \<and> hd ws = TL n \<longrightarrow> TL n \<in> set (ready A' (unat (prio (tcbs k (Tcb n)))))) \<and>
      tasks_of A' = tasks_of A \<and> new_task k' = new_task k \<and> switches k' = switches k \<and> sr k' = sr k \<and>
      schedule_is_lock k' = schedule_is_lock k \<and>
      (\<forall>q. q \<noteq> QueueL i \<and> q \<noteq> QMsgL i \<and> (\<forall>p. q \<noteq> RQ p) \<longrightarrow> A' q = A q) \<and>
      (\<forall>p. set (ready A p) \<subseteq> set (ready A' p))"
proof -
  let ?k = "snd (interrupt_disable k)"
  have q: "A (QMsgL i) = Some ms" "A (QueueL i) = Some ws" "cap = unat (q_length (queues k i))"
    using v by (auto simp: msgq_view_Some)
  note ok = qmsg_ok [OF kinv_kbase [OF inv] q(1)]
  have full: "length ms = cap \<longleftrightarrow> q_count (queues k i) = q_length (queues k i)"
    using ok(1) q(3) by (simp add: word_unat_eq_iff)
  have b: "kbase ?k A" using inv by (simp add: interrupt_disable_def kbase_msgq_sr kinv_kbase)
  obtain c where c: "running k A c" using inv by (auto simp: kinv_def)
  have ne: "ready_set A \<noteq> {}" using running_ready [OF c kinv_kbase [OF inv]] by auto
  obtain k1 A1 where k1: "(if \<not> klast ?k (QueueL i) then do {
                 n \<leftarrow> knext ?k (QueueL i);
                 t \<leftarrow> tcb_of_link n;
                 k \<leftarrow> kdel (TcbL t) ?k;
                 prio_ready_queue_insert_head (Some t) k
               } else Some ?k) = Some k1" "kbase k1 A1" "same_but_ready ?k k1"
    "members A1 = members A" "A1 (QueueL i) = Some (tl ws)"
    "\<forall>p. set (ready A p) \<subseteq> set (ready A1 p)"
    "\<forall>q. q \<noteq> QueueL i \<and> (\<forall>p. q \<noteq> RQ p) \<longrightarrow> A1 q = A q"
    "\<forall>n. ws \<noteq> [] \<and> hd ws = TL n \<longrightarrow> TL n \<in> set (ready A1 (unat (prio (tcbs ?k (Tcb n)))))"
    using msgw.wake_step [OF b q(2) ne] by (elim exE conjE) (rule that)
  have f1: "queues k1 = queues k" "tcbs k1 = tcbs k" "new_task k1 = new_task k"
    "switches k1 = switches k" "schedule_is_lock k1 = schedule_is_lock k"
    using k1(3) by (simp_all add: same_but_ready_def interrupt_disable_def)
  have w: "\<forall>n. ws \<noteq> [] \<and> hd ws = TL n \<longrightarrow> TL n \<in> set (ready A1 (unat (prio (tcbs k (Tcb n)))))"
    using k1(8) by (simp add: interrupt_disable_def)
  have f2: "sr k1 = sr ?k" using k1(3) by (simp add: same_but_ready_def)
  have cnt: "\<not> q_count (queues k i) > q_length (queues k i)" using ok(2) by simp
  have put: "msg_put (Some i) (Some m) mthd k =
    (if q_count (queues k i) = q_length (queues k i) then Some (Q_FULL, interrupt_enable (sr k) k1)
     else Option.bind (if mthd = FIFO
         then kenq (QMsgL i) (MsgL m) (queue_upd i (q_count_update (\<lambda>c. c + 1)) k1)
         else kpush (QMsgL i) (MsgL m) (queue_upd i (q_count_update (\<lambda>c. c + 1)) k1))
       (\<lambda>k'. Some (TRUE, interrupt_enable (sr k) k')))"
    using k1(1) cnt f1(1)
    by (cases "klast ?k (QueueL i)")
      (auto simp: msg_put_def interrupt_disable_def msg_block_queue_delete_Some elim!: bind_SomeE)
  have run: "running k' A' c"
    if "tcbs k' = tcbs k" "new_task k' = new_task k" "\<And>p. ready A' p = ready A1 p" for k' A'
    using that c k1(6) by (auto simp: running_def)
  have tsk: "tasks_of A1 = tasks_of A" by (rule tasks_of_members [OF k1(4)])
  show ?thesis
  proof (cases "length ms = cap")
    case True
    let ?k' = "interrupt_enable (sr k) k1"
    have "kbase ?k' A1" using k1(2) by (simp add: interrupt_enable_def kbase_msgq_sr)
    moreover have "running ?k' A1 c" using f1 by (intro run) (simp_all add: interrupt_enable_def)
    moreover have "msgq_view ?k' A1 i = Some (amsg_put mthd (MsgL m) (cap, ms, ws))"
      using True q k1(5,7) f1 by (simp add: msgq_view_Some interrupt_enable_def)
    ultimately show ?thesis
      using put full True w f1 tsk k1(6,7)
      by (intro exI [of _ ?k'] exI [of _ A1]) (auto simp: kinv_def interrupt_enable_def)
  next
    case False
    have u1: "unthreaded A1 (MsgL m)" using u k1(4,7) by (simp add: unthreaded_iff)
    have q1: "A1 (QMsgL i) = Some ms" using q(1) k1(7) by simp
    let ?ys = "if mthd = FIFO then ms @ [MsgL m] else MsgL m # ms"
    let ?A = "A1(QMsgL i \<mapsto> ?ys)"
    obtain k2 where k2: "(if mthd = FIFO
         then kenq (QMsgL i) (MsgL m) (queue_upd i (q_count_update (\<lambda>c. c + 1)) k1)
         else kpush (QMsgL i) (MsgL m) (queue_upd i (q_count_update (\<lambda>c. c + 1)) k1)) = Some k2"
      "kbase k2 ?A" "same_but_heap (queue_upd i (q_count_update (\<lambda>c. c + 1)) k1) k2"
      using msg_store [OF k1(2) q1 u1, of mthd] full False f1(1) by auto
    note h = same_but_heap_sel [OF k2(3)]
    let ?k' = "interrupt_enable (sr k) k2"
    have e: "tcbs k2 = tcbs k" "new_task k2 = new_task k" "switches k2 = switches k" "schedule_is_lock k2 = schedule_is_lock k"
      "q_length (queues k2 i) = q_length (queues k i)"
      using h f1 by (simp_all add: queue_upd_def)
    have "kbase ?k' ?A" using k2(2) by (simp add: interrupt_enable_def kbase_msgq_sr)
    moreover have "running ?k' ?A c" using e by (intro run) (simp_all add: interrupt_enable_def)
    moreover have "msgq_view ?k' ?A i = Some (amsg_put mthd (MsgL m) (cap, ms, ws))"
      using False q k1(5,7) e by (simp add: msgq_view_Some interrupt_enable_def)
    moreover have "tasks_of ?A = tasks_of A1"
      using members_split [where A = A1 and q = "QMsgL i", OF q1] by (auto simp: tasks_of_def members_upd)
    moreover have "ready ?A p = ready A1 p" for p by simp
    ultimately show ?thesis
      using put full False w e tsk k2(1) k1(6,7)
      by (intro exI [of _ ?k'] exI [of _ ?A]) (auto simp: kinv_def interrupt_enable_def)
  qed
qed

text \<open>C13: \<open>msg_put\<close> implements the abstract queue. A message goes to the end or to the front
  of the queue, or is refused with \<open>FULL\<close> when the queue holds its capacity; in every case
  the task that has waited longest becomes ready, and the caller keeps running.\<close>

theorem msg_put_refines:
  assumes inv: "kinv k A" and v: "msgq_view k A i = Some (cap, ms, ws)" and u: "unthreaded A (MsgL m)"
  shows "\<exists>k' A'. msg_put (Some i) (Some m) mthd k =
      Some (if length ms = cap then Q_FULL else TRUE, k') \<and> kinv k' A' \<and>
      msgq_view k' A' i = Some (amsg_put mthd (MsgL m) (cap, ms, ws)) \<and>
      (\<forall>n. ws \<noteq> [] \<and> hd ws = TL n \<longrightarrow> TL n \<in> set (ready A' (unat (prio (tcbs k (Tcb n)))))) \<and>
      tasks_of A' = tasks_of A \<and> new_task k' = new_task k \<and> switches k' = switches k \<and> sr k' = sr k"
  using msg_put_ok [OF assms, of mthd] by blast

lemma msg_get_reads_ok:
  assumes inv: "kinv k A" and v: "msgq_view k A i = Some (cap, MsgL m # ms, ws)"
    and src: "msg_buff (msgs k m) = Some src" "5 \<le> length src" "5 \<le> length buf"
  shows "\<exists>k' A'. msg_get (Some i) (Some buf) k = Some (TRUE, Some (take 5 src @ drop 5 buf), k') \<and>
      kinv k' A' \<and> msgq_view k' A' i = Some (amsg_get x (cap, MsgL m # ms, ws)) \<and>
      unthreaded A' (MsgL m) \<and> tasks_of A' = tasks_of A \<and> new_task k' = new_task k \<and>
      switches k' = switches k \<and> sr k' = sr k \<and>
      schedule_is_lock k' = schedule_is_lock k \<and> A' = A(QMsgL i \<mapsto> ms)"
proof -
  let ?k = "snd (interrupt_disable k)"
  let ?A = "A(QMsgL i \<mapsto> ms)"
  have q: "A (QMsgL i) = Some (MsgL m # ms)" "A (QueueL i) = Some ws"
    "cap = unat (q_length (queues k i))"
    using v by (auto simp: msgq_view_Some)
  then have q0: "A (QMsgL i) = Some ([] @ MsgL m # ms)" by simp
  have b: "kbase ?k A" using inv by (simp add: interrupt_disable_def kbase_msgq_sr kinv_kbase)
  note ok = qmsg_ok [OF b q(1)]
  have nz: "q_count (queues k i) \<noteq> 0" using ok(1) by (auto simp: interrupt_disable_def)
  obtain k1 where k1: "kdel (MsgL m) ?k = Some k1" "krep k1 ?A"
    using kl.del_law [OF kbase_krep [OF b] q0] by auto
  note h = same_but_heap_sel [OF klist_frame(3) [OF k1(1)]]
  have f1: "queues k1 = queues k" "tcbs k1 = tcbs k" "new_task k1 = new_task k"
    "switches k1 = switches k" "schedule_is_lock k1 = schedule_is_lock k"
    using h by (simp_all add: interrupt_disable_def)
  let ?k2 = "queue_upd i (q_count_update (\<lambda>c. c - 1)) k1"
  have b2: "kbase ?k2 ?A"
  proof (rule kbase_msg_list [OF b])
    show "krep ?k2 ?A" using k1(2) by (simp add: krep_def queue_upd_def)
    show "queues ?k2 = (queues ?k)(i := q_count_update (\<lambda>c. c - 1) (queues k i))"
      using f1 by (simp add: queue_upd_def interrupt_disable_def)
    show "length ms = unat (q_count (q_count_update (\<lambda>c. c - 1) (queues k i)))"
      using ok(1) nz by (simp add: unat_minus_1 interrupt_disable_def)
    show "q_count (q_count_update (\<lambda>c. c - 1) (queues k i)) \<le>
        q_length (q_count_update (\<lambda>c. c - 1) (queues k i))"
      using ok(2) nz by (simp add: word_le_nat_alt unat_minus_1 interrupt_disable_def)
    show "\<exists>m. y = MsgL m" if "y \<in> set ms" for y using that ok(3) by simp
  qed (use h in \<open>simp_all add: queue_upd_def\<close>)
  let ?k' = "interrupt_enable (sr k) ?k2"
  have "klast ?k (QMsgL i) = False" "knext ?k (QMsgL i) = Some (MsgL m)"
    using klast_iff [OF kbase_krep [OF b] q(1)] knext_first [OF kbase_krep [OF b] q(1)] by simp_all
  then have "msg_get (Some i) (Some buf) k = Some (TRUE, Some (take 5 src @ drop 5 buf), ?k')"
    using k1(1) src nz f1(1)
    by (simp add: msg_get_def interrupt_disable_def copy_bytes_def word_gt_0)
  moreover have "kbase ?k' ?A" using b2 by (simp add: interrupt_enable_def kbase_msgq_sr)
  moreover obtain c where "running k A c" using inv by (auto simp: kinv_def)
  then have "running ?k' ?A c"
    using f1 by (simp add: running_def interrupt_enable_def queue_upd_def)
  moreover have "unthreaded ?A (MsgL m)"
    using kl.unthreaded_after_del [OF kbase_krep [OF b] q0] by simp
  moreover have "tasks_of ?A = tasks_of A"
    using members_split [where A = A and q = "QMsgL i", OF q(1)] by (auto simp: tasks_of_def members_upd)
  moreover have "msgq_view ?k' ?A i = Some (amsg_get x (cap, MsgL m # ms, ws))"
    using q f1 by (simp add: msgq_view_Some interrupt_enable_def queue_upd_def)
  ultimately show ?thesis
    using f1 by (intro exI [of _ ?k'] exI [of _ ?A])
      (auto simp: kinv_def interrupt_enable_def queue_upd_def)
qed

text \<open>C14: \<open>msg_get\<close> on a queue with messages implements the abstract queue: the first message
  leaves it, its first five bytes are in the caller's buffer, and the caller keeps running.\<close>

theorem msg_get_reads:
  assumes inv: "kinv k A" and v: "msgq_view k A i = Some (cap, MsgL m # ms, ws)"
    and src: "msg_buff (msgs k m) = Some src" "5 \<le> length src" "5 \<le> length buf"
  shows "\<exists>k' A'. msg_get (Some i) (Some buf) k = Some (TRUE, Some (take 5 src @ drop 5 buf), k') \<and>
      kinv k' A' \<and> msgq_view k' A' i = Some (amsg_get x (cap, MsgL m # ms, ws)) \<and>
      unthreaded A' (MsgL m) \<and> tasks_of A' = tasks_of A \<and> new_task k' = new_task k \<and>
      switches k' = switches k \<and> sr k' = sr k"
  using msg_get_reads_ok [OF assms] by blast

lemma msg_get_blocks_ok:
  assumes inv: "kinv k A" and r: "running k A c" and lock: "schedule_is_lock k \<noteq> TRUE"
    and v: "msgq_view k A i = Some (cap, [], ws)" and o: "others_ready A c"
  shows "\<exists>k' A'. msg_get (Some i) (Some buf) k = Some (Q_EMPTY, Some buf, k') \<and> kinv k' A' \<and>
      msgq_view k' A' i = Some (amsg_get (TL c) (cap, [], ws)) \<and> members A' = members A \<and>
      new_task k' \<noteq> Some (Tcb c) \<and> sr k' = sr k \<and>
      schedule_is_lock k' = schedule_is_lock k \<and>
      A' = asched (A(RQ (unat (prio (tcbs k (Tcb c)))) \<mapsto>
        remove1 (TL c) (ready A (unat (prio (tcbs k (Tcb c))))), QueueL i \<mapsto> ws @ [TL c]))"
proof -
  let ?k = "snd (interrupt_disable k)"
  let ?p = "unat (prio (tcbs k (Tcb c)))"
  let ?A = "A(RQ ?p \<mapsto> remove1 (TL c) (ready A ?p), QueueL i \<mapsto> ws @ [TL c])"
  have q: "A (QMsgL i) = Some []" "A (QueueL i) = Some ws" "cap = unat (q_length (queues k i))"
    using v by (auto simp: msgq_view_Some)
  have b: "kbase ?k A" using inv by (simp add: interrupt_disable_def kbase_msgq_sr kinv_kbase)
  have rk: "running ?k A c" using r running_cong [of ?k k] by (simp add: interrupt_disable_def)
  have nt: "new_task k = Some (Tcb c)" using r by (simp add: running_def)
  obtain k2 where k2: "Option.bind (prio_ready_queue_delete (Some (Tcb c)) ?k) (kenq (QueueL i) (TL c)) =
      Some k2" "kbase k2 ?A" "same_but_ready ?k k2" "members ?A = members A"
    using msgw.block_running [OF b rk q(2)] by (auto simp: interrupt_disable_def)
  obtain k1 where k1: "prio_ready_queue_delete (Some (Tcb c)) ?k = Some k1"
    "kenq (QueueL i) (TL c) k1 = Some k2"
    using k2(1) by (auto elim!: bind_SomeE)
  have n1: "new_task k1 = Some (Tcb c)"
    using k2(3) same_but_heap_sel [OF klist_frame(1) [OF k1(2)]] nt
    by (simp add: same_but_ready_def interrupt_disable_def)
  let ?k2 = "interrupt_enable (sr k) k2"
  have b2: "kbase ?k2 ?A" using k2(2) by (simp add: interrupt_enable_def kbase_msgq_sr)
  have ne: "ready_set ?A \<noteq> {}" using others_ready_after_remove [OF o] by simp
  have f2: "new_task k2 = Some (Tcb c)" "schedule_is_lock k2 = schedule_is_lock k" "queues k2 = queues k"
    using k2(3) nt by (simp_all add: same_but_ready_def interrupt_disable_def)
  obtain k' t where k': "schedule ?k2 = Some k'" "chosen ?A = Some t" "kinv k' (asched ?A)"
    "new_task k' = Some t" "same_but_sched ?k2 k'"
    using schedule_kinv [OF b2 ne] f2(1,2) lock by (auto simp: interrupt_enable_def)
  obtain k3 k4 k5 t' where d: "prio_ready_queue_delete (Some (Tcb c)) ?k = Some k3"
    "kenq (QueueL i) (TL c) k3 = Some k4" "schedule k4 = Some k5" "chosen ?A = Some t'" "t' \<noteq> Tcb c"
    using msgw.block_and_schedule [OF b rk q(2) o] lock by (auto simp: interrupt_disable_def)
  have "klast ?k (QMsgL i)" using klast_iff [OF kbase_krep [OF b] q(1)] by simp
  then have "msg_get (Some i) (Some buf) k = Some (Q_EMPTY, Some buf, k')"
    using k1 n1 nt k'(1)
    by (simp add: msg_get_def interrupt_disable_def msg_block_queue_insert_def)
  moreover have "members (asched ?A) = members A" using asched_lists(2) [OF b2 ne] k2(4) by simp
  moreover have "msgq_view k' (asched ?A) i = Some (amsg_get (TL c) (cap, [], ws))"
    using q k'(5) f2(3)
    by (simp add: msgq_view_Some asched_def same_but_sched_def interrupt_enable_def)
  moreover have "new_task k' \<noteq> Some (Tcb c)" using k'(2,4) d(4,5) by simp
  moreover have "schedule_is_lock k' = schedule_is_lock k"
    using k'(5) f2(2) by (simp add: same_but_sched_def interrupt_enable_def)
  moreover have "sr k' = sr k" using k'(5) by (simp add: same_but_sched_def interrupt_enable_def)
  ultimately show ?thesis using k'(3) by blast
qed

text \<open>C15: \<open>msg_get\<close> on an empty queue implements the abstract queue: the caller is queued behind
  the waiting tasks and another task runs; the call answers \<open>EMPTY\<close> with the buffer as it was,
  so also after the wake-up the caller has no message.\<close>

theorem msg_get_blocks:
  assumes inv: "kinv k A" and r: "running k A c" and lock: "schedule_is_lock k \<noteq> TRUE"
    and v: "msgq_view k A i = Some (cap, [], ws)" and o: "others_ready A c"
  shows "\<exists>k' A'. msg_get (Some i) (Some buf) k = Some (Q_EMPTY, Some buf, k') \<and> kinv k' A' \<and>
      msgq_view k' A' i = Some (amsg_get (TL c) (cap, [], ws)) \<and> members A' = members A \<and>
      new_task k' \<noteq> Some (Tcb c) \<and> sr k' = sr k"
  using msg_get_blocks_ok [OF assms] by blast

end
