(* ===== verification/FosTimer.thy ===== *)
theory FosTimer
  imports FosTask
begin

text \<open>
  \<^verbatim>\<open>kernel/timer.c\<close>: the tick interrupt, software timers and task delays. The function a
  software timer calls is application code: it is the parameter \<open>cb\<close> of the handler,
  applied to the function's number and its argument.
\<close>

subsection \<open>The operations\<close>

abbreviation TQ :: klink where "TQ \<equiv> TickL TickQueue"

definition tick_queue_init :: "kst \<Rightarrow> kst" where
  "tick_queue_init k = klist_init TQ k"

definition tick_queue_insert :: "tickp \<Rightarrow> kst \<Rightarrow> kst option" where
  "tick_queue_insert tick k = kenq TQ (TickL tick) k"

definition tick_queue_delete :: "tickp \<Rightarrow> kst \<Rightarrow> kst option" where
  "tick_queue_delete tick k = kdel (TickL tick) k"

definition tick_get :: "kst \<Rightarrow> u32" where
  "tick_get k = fos_tick k"

definition tick_upd :: "tickp \<Rightarrow> (TICK \<Rightarrow> TICK) \<Rightarrow> kst \<Rightarrow> kst" where
  "tick_upd t f k = k\<lparr>ticks := (ticks k)(t := f (ticks k t))\<rparr>"

text \<open>The body of the traversal for the entry \<open>t\<close>.\<close>

definition tick_entry :: "(nat \<Rightarrow> nat \<Rightarrow> kst \<Rightarrow> kst option) \<Rightarrow> tickp \<Rightarrow> kst \<Rightarrow> kst option" where
  "tick_entry cb t k =
     (if timeout (ticks k t) = TIMEOUT then
        (if style (ticks k t) = SOFTWARE_TIMER then do {
           f \<leftarrow> tick_func (ticks k t);
           k \<leftarrow> cb f (func_arg (ticks k t)) k;
           (if period (ticks k t) = CYCLE
            then Some (tick_upd t (timeout_update (\<lambda>_. timeout_copy (ticks k t))) k)
            else tick_queue_delete t k)
         }
         else if style (ticks k t) = DELAY then do {
           k \<leftarrow> tick_queue_delete t k;
           prio_ready_queue_insert_tail (tick_tcb (ticks k t)) k
         }
         else Some k)
      else Some (tick_upd t (timeout_update (\<lambda>n. n - 1)) k))"

partial_function (option) tick_traverse ::
  "(nat \<Rightarrow> nat \<Rightarrow> kst \<Rightarrow> kst option) \<Rightarrow> klink \<Rightarrow> kst \<Rightarrow> kst option" where
  "tick_traverse cb tmp k =
     (if klast k tmp then Some k
      else Option.bind (knext k tmp) (\<lambda>n.
        Option.bind (tick_of_link n) (\<lambda>t.
        Option.bind (tick_entry cb t k) (\<lambda>k. tick_traverse cb n k))))"

text \<open>\<^verbatim>\<open>hw_timer_clear_interrupt\<close> writes a device register and touches no kernel data.\<close>

definition hardware_timer :: "(nat \<Rightarrow> nat \<Rightarrow> kst \<Rightarrow> kst option) \<Rightarrow> kst \<Rightarrow> kst option" where
  "hardware_timer cb k = do {
     let (cpu, k) = interrupt_disable k;
     let k = k\<lparr>fos_tick := fos_tick k + 1\<rparr>;
     k \<leftarrow> tick_traverse cb TQ k;
     schedule (interrupt_enable cpu k)
   }"

definition timer_req :: "tickp option \<Rightarrow> nat option \<Rightarrow> u32 \<Rightarrow> u8 \<Rightarrow> nat \<Rightarrow> kst \<Rightarrow> kst option" where
  "timer_req timer func tmo per arg k =
     (case (func, timer) of
        (Some f, Some t) \<Rightarrow>
          if tmo \<le> 0 then Some k
          else do {
            let (cpu, k) = interrupt_disable k;
            let k = tick_upd t (tick_func_update (\<lambda>_. func)) k;
            let k = tick_upd t (timeout_update (\<lambda>_. tmo)) k;
            let k = tick_upd t (period_update (\<lambda>_. per)) k;
            let k = tick_upd t (timeout_copy_update (\<lambda>_. tmo)) k;
            let k = tick_upd t (style_update (\<lambda>_. SOFTWARE_TIMER)) k;
            let k = tick_upd t (func_arg_update (\<lambda>_. arg)) k;
            k \<leftarrow> tick_queue_insert t k;
            Some (interrupt_enable cpu k)
          }
      | _ \<Rightarrow> Some k)"

definition os_delay :: "u32 \<Rightarrow> kst \<Rightarrow> kst option" where
  "os_delay timeslice k = do {
     let (cpu, k) = interrupt_disable k;
     nt \<leftarrow> new_task k;
     let timer_delay = DelayOf nt;
     let k = tick_upd timer_delay (tick_tcb_update (\<lambda>_. new_task k)) k;
     let k = tick_upd timer_delay (timeout_update (\<lambda>_. timeslice)) k;
     let k = tick_upd timer_delay (timeout_copy_update (\<lambda>_. timeslice)) k;
     let k = tick_upd timer_delay (style_update (\<lambda>_. DELAY)) k;
     k \<leftarrow> prio_ready_queue_delete (tick_tcb (ticks k timer_delay)) k;
     k \<leftarrow> tick_queue_insert timer_delay k;
     schedule (interrupt_enable cpu k)
   }"

text \<open>\<^verbatim>\<open>idle_task\<close> (\<^verbatim>\<open>kernel/idle.c\<close>) calls \<open>schedule\<close> forever and \<^verbatim>\<open>task_exit\<close> calls
  \<open>os_delay(100)\<close> forever: one round of each loop.\<close>

definition idle_task :: "kst \<Rightarrow> kst option" where
  "idle_task k = schedule k"

definition task_exit :: "kst \<Rightarrow> kst option" where
  "task_exit k = os_delay 100 k"

subsection \<open>Link fields kept by the list operations\<close>

text \<open>The traversal reads the \<open>next\<close> field of an entry it may have deleted: a deletion leaves
  that field as it was.\<close>

lemma list_delete_keeps_nxt:
  "list_delete x h = Some h' \<Longrightarrow> prv (h x) \<noteq> Some x \<Longrightarrow> nxt (h' x) = nxt (h x)"
  by (auto simp: list_delete_def set_nxt_def set_prv_def elim!: bind_SomeE split: if_splits)

lemma kdel_keeps_knext:
  assumes "krep k A" "A q = Some (as @ x # bs)" "kdel x k = Some k'"
  shows "knext k' x = knext k x"
proof -
  have l: "lrep (heap k) q (as @ x # bs)"
    using assms(1,2) by (simp add: krep_def store_rep_lrep)
  let ?p = "last (q # as)"
  have "linked (heap k) ?p x"
    using l by (cases as rule: rev_cases)
      (auto simp: lrep_def successively_append_iff simp flip: append_Cons)
  moreover have "?p \<noteq> x" using l by (cases as rule: rev_cases) (auto simp: lrep_def)
  ultimately have "prv (heap k x) \<noteq> Some x" by (auto simp: linked_def)
  then show ?thesis
    using assms(3) list_delete_keeps_nxt
    by (auto simp: kdel_def on_heap_def knext_def elim!: bind_SomeE)
qed

lemma kenq_keeps_knext:
  assumes "krep k A" "A q = Some xs" "kenq q x k = Some k'" "y \<noteq> x" "y \<notin> set (q # xs)"
  shows "knext k' y = knext k y"
proof -
  have "list_walk_last (heap k) q = Some (last (q # xs))"
    using assms(1,2) by (intro list_walk_last_lrep) (simp add: krep_def store_rep_lrep)
  moreover have "y \<noteq> last (q # xs)" using assms(5) last_in_set [of "q # xs"] by fastforce
  ultimately show ?thesis
    using assms(3,4)
    by (auto simp: kenq_def on_heap_def knext_def list_insert_behind_def list_insert_def Let_def
        set_nxt_def set_prv_def elim!: bind_SomeE)
qed

lemma insert_tail_keeps_knext:
  assumes s: "sched_inv k A" and p: "unat (prio (tcbs k (Tcb n))) = p" "p < 32"
    and i: "prio_ready_queue_insert_tail (Some (Tcb n)) k = Some k'"
    and y: "y \<noteq> TL n" "y \<noteq> RQ p" "y \<notin> set (ready A p)"
  shows "knext k' y = knext k y"
proof -
  obtain k1 where k1: "bitmap_set (prio (tcbs k (Tcb n))) k = Some k1"
    "heap k1 = heap k" "tcbs k1 = tcbs k" "kenq (RQ p) (TL n) k1 = Some k'"
    using i p by (auto simp: prio_ready_queue_insert_tail_def ready_head_def bitmap_set_def Let_def
        elim!: bind_SomeE)
  have "krep k1 A" using k1(2) sched_inv_krep [OF s] by (simp add: krep_def)
  then have "knext k' y = knext k1 y"
    using kenq_keeps_knext [where A = A, OF _ sched_inv_ready [OF s p(2)] k1(4)] y by simp
  then show ?thesis using k1(2) by (simp add: knext_def)
qed

subsection \<open>The tick queue\<close>

lemma kbase_tick_list:
  assumes b: "kbase k A" and r: "krep k' (A(TQ \<mapsto> ys))"
    and e: "bm_y k' = bm_y k" "bm_c k' = bm_c k" "tcbs k' = tcbs k" "mutexes k' = mutexes k"
      "queues k' = queues k"
    and ys: "\<And>y. y \<in> set ys \<Longrightarrow> tick_ok k' (A(TQ \<mapsto> ys)) y"
  shows "kbase k' (A(TQ \<mapsto> ys))"
proof -
  have "sched_inv k' (A(TQ \<mapsto> ys))"
    using kbase_sched [OF b] r e by (intro sched_inv_other_upd [where k = k]) auto
  moreover have "list_ok k' (A(TQ \<mapsto> ys)) q xs" if q: "(A(TQ \<mapsto> ys)) q = Some xs" for q xs
  proof (cases "q = TQ")
    case True
    then show ?thesis using q ys by simp
  next
    case False
    with q have "A q = Some xs" by simp
    then show ?thesis
      using kbase_list_ok [OF b, of q xs] False e live_cong [OF e(3)]
      by (cases "(k, A, q, xs)" rule: list_ok.cases) auto
  qed
  ultimately show ?thesis by (simp add: kbase_def)
qed

lemma kbase_tick_times:
  assumes b: "kbase k A"
    and e: "heap k' = heap k" "bm_y k' = bm_y k" "bm_c k' = bm_c k" "tcbs k' = tcbs k"
      "mutexes k' = mutexes k" "queues k' = queues k"
    and t: "\<And>t. style (ticks k' t) = style (ticks k t)" "\<And>t. tick_tcb (ticks k' t) = tick_tcb (ticks k t)"
      "\<And>t. tick_func (ticks k' t) = tick_func (ticks k t)"
  shows "kbase k' A"
proof -
  obtain ys where q: "A TQ = Some ys" using b by (auto simp: kbase_def)
  then have A: "A(TQ \<mapsto> ys) = A" by (simp add: fun_upd_idem)
  have "kbase k' (A(TQ \<mapsto> ys))"
  proof (rule kbase_tick_list [OF b _ e(2-6)])
    show "krep k' (A(TQ \<mapsto> ys))" using A kbase_krep [OF b] e(1) by (simp add: krep_def)
    show "tick_ok k' (A(TQ \<mapsto> ys)) y" if "y \<in> set ys" for y
      using kbase_list_ok [OF b q] that t live_cong [OF e(4)] unfolding A by (simp add: tick_ok_def)
  qed
  with A show ?thesis by simp
qed

text \<open>What one tick does to an entry: whether it stays on the queue, and its new counters.\<close>

definition stays :: "(tickp \<Rightarrow> TICK) \<Rightarrow> klink \<Rightarrow> bool" where
  "stays ts x \<longleftrightarrow> (\<exists>t. x = TickL t \<and> (timeout (ts t) \<noteq> 0 \<or>
     style (ts t) = SOFTWARE_TIMER \<and> period (ts t) = CYCLE))"

definition tick_after :: "(tickp \<Rightarrow> TICK) \<Rightarrow> tickp \<Rightarrow> TICK" where
  "tick_after ts t =
     (if timeout (ts t) \<noteq> 0 then (ts t)\<lparr>timeout := timeout (ts t) - 1\<rparr>
      else if style (ts t) = SOFTWARE_TIMER \<and> period (ts t) = CYCLE
        then (ts t)\<lparr>timeout := timeout_copy (ts t)\<rparr>
      else ts t)"

text \<open>The contract of timer functions: they return, keep the invariant and the tasks, and leave
  the tick queue, the ready tasks and the running task in place. They may wake tasks.\<close>

definition callbacks_ok :: "(nat \<Rightarrow> nat \<Rightarrow> kst \<Rightarrow> kst option) \<Rightarrow> bool" where
  "callbacks_ok cb \<longleftrightarrow> (\<forall>f a k A. kbase k A \<longrightarrow> (\<exists>k' A'. cb f a k = Some k' \<and> kbase k' A' \<and>
     A' TQ = A TQ \<and> ticks k' = ticks k \<and> tcbs k' = tcbs k \<and> tasks_of A' = tasks_of A \<and>
     (\<forall>p. set (ready A p) \<subseteq> set (ready A' p)) \<and> new_task k' = new_task k \<and>
     schedule_is_lock k' = schedule_is_lock k \<and> fos_tick k' = fos_tick k \<and> dom A' = dom A))"

text \<open>What a tick keeps, apart from the tick queue and the entries' counters.\<close>

definition tick_frame :: "kst \<Rightarrow> klink lists \<Rightarrow> kst \<Rightarrow> klink lists \<Rightarrow> bool" where
  "tick_frame k A k' A' \<longleftrightarrow> tcbs k' = tcbs k \<and> tasks_of A' = tasks_of A \<and>
     (\<forall>p. set (ready A p) \<subseteq> set (ready A' p)) \<and> new_task k' = new_task k \<and>
     schedule_is_lock k' = schedule_is_lock k \<and> fos_tick k' = fos_tick k \<and> dom A' = dom A"

lemma tick_frame_trans:
  "tick_frame k A k' A' \<Longrightarrow> tick_frame k' A' k'' A'' \<Longrightarrow> tick_frame k A k'' A''"
  unfolding tick_frame_def by (metis subset_trans)

lemma callbacks_okD:
  assumes "callbacks_ok cb" "kbase k A"
  obtains k' A' where "cb f a k = Some k'" "kbase k' A'" "A' TQ = A TQ" "ticks k' = ticks k"
    "tick_frame k A k' A'"
  using assms unfolding callbacks_ok_def tick_frame_def by metis

lemma tick_next:
  assumes "kbase k A" "A TQ = Some (as @ x # bs)"
  shows "knext k x = Some (hd (bs @ [x]))"
proof -
  have "lrep (heap k) x bs"
    using assms lrep_suffix by (fastforce simp: kbase_krep krep_def dest: store_rep_lrep [OF kbase_krep [OF assms(1), unfolded krep_def]])
  then show ?thesis
    by (cases bs) (auto simp: knext_def lrep_first lrep_Nil is_list_last_def)
qed

lemma tick_delete_ok:
  assumes b: "kbase k A" and q: "A TQ = Some (as @ TickL t # bs)"
  shows "\<exists>k'. tick_queue_delete t k = Some k' \<and> kbase k' (A(TQ \<mapsto> as @ bs)) \<and>
    same_but_heap k k' \<and> members A = insert (TickL t) (members (A(TQ \<mapsto> as @ bs))) \<and>
    unthreaded (A(TQ \<mapsto> as @ bs)) (TickL t) \<and> knext k' (TickL t) = Some (hd (bs @ [TickL t]))"
proof -
  let ?A = "A(TQ \<mapsto> as @ bs)"
  obtain k' where k': "kdel (TickL t) k = Some k'" "krep k' ?A"
    using kl.del_law [OF kbase_krep [OF b]] q by blast
  note h = same_but_heap_sel [OF klist_frame(3) [OF k'(1)]]
  have m: "members A = insert (TickL t) (members ?A)"
    using members_split [where A = A and q = TQ, OF q] by (auto simp: members_upd)
  have tk: "tick_ok k' ?A y" if "y \<in> set (as @ bs)" for y
  proof -
    have "tick_ok k A y" using kbase_list_ok [OF b q] that by auto
    then show ?thesis
      using h m by (auto simp: tick_ok_def live_def unthreaded_iff)
  qed
  have "kbase k' ?A" using k'(2) h tk by (intro kbase_tick_list [OF b]) auto
  moreover have "unthreaded ?A (TickL t)"
    using kl.unthreaded_after_del [OF kbase_krep [OF b] q] .
  moreover have "knext k' (TickL t) = Some (hd (bs @ [TickL t]))"
    using kdel_keeps_knext [OF kbase_krep [OF b] q k'(1)] tick_next [OF b q] by simp
  ultimately show ?thesis
    using k'(1) m klist_frame(3) [OF k'(1)] by (auto simp: tick_queue_delete_def)
qed

text \<open>One entry of the traversal.\<close>

lemma TICK_dec: "timeout_update (\<lambda>n. n - 1) r = r\<lparr>timeout := timeout r - 1\<rparr>"
  by (cases r) simp

lemma tick_entry_wakes:
  assumes b: "kbase k A" and q: "A TQ = Some (as @ TickL t # bs)"
    and z: "timeout (ticks k t) = 0" and d: "t = DelayOf (Tcb n)"
  defines "A1 \<equiv> A(TQ \<mapsto> as @ bs)"
  defines "A2 \<equiv> A1(RQ (unat (prio (tcbs k (Tcb n)))) \<mapsto>
      ready A1 (unat (prio (tcbs k (Tcb n)))) @ [TL n])"
  shows "\<exists>k'. tick_entry cb t k = Some k' \<and> kbase k' A2 \<and> tick_frame k A k' A2 \<and>
    ticks k' = ticks k \<and> knext k' (TickL t) = Some (hd (bs @ [TickL t]))"
proof -
  let ?p = "unat (prio (tcbs k (Tcb n)))"
  have "tick_ok k A (TickL t)" using kbase_list_ok [OF b q] by auto
  then have e: "style (ticks k t) = DELAY" "tick_tcb (ticks k t) = Some (Tcb n)" "live k (TL n)"
    "unthreaded A (TL n)" using d by (auto simp: tick_ok_def)
  obtain k1 where k1: "tick_queue_delete t k = Some k1" "kbase k1 A1" "same_but_heap k k1"
    "members A = insert (TickL t) (members A1)" "unthreaded A1 (TickL t)"
    "knext k1 (TickL t) = Some (hd (bs @ [TickL t]))"
    using tick_delete_ok [OF b q] by (auto simp: A1_def)
  note h = same_but_heap_sel [OF k1(3)]
  have u: "unthreaded A1 (TL n)" using e(4) k1(4) by (auto simp: unthreaded_iff A1_def)
  have awake: "\<not> asleep A1 n" using k1(5) d by (simp add: asleep_def unthreaded_iff)
  have l: "live k1 (TL n)" using e(3) live_cong [OF h(1)] by simp
  have p: "unat (prio (tcbs k1 (Tcb n))) = ?p" "?p < 32"
    using h(1) e(3) by (auto simp: live_def)
  obtain k2 where k2: "prio_ready_queue_insert_tail (Some (Tcb n)) k1 = Some k2"
    "kbase k2 A2" "same_but_ready k1 k2"
    using insert_tail_kbase [OF k1(2) u awake l p(1)] by (auto simp: A2_def)
  have rp: "A1 (RQ ?p) = Some (ready A1 ?p)" using sched_inv_ready [OF kbase_sched [OF k1(2)] p(2)] .
  have "TickL t \<notin> set (ready A1 ?p)" using k1(5) rp by (auto simp: unthreaded_iff members_iff)
  then have "knext k2 (TickL t) = Some (hd (bs @ [TickL t]))"
    using insert_tail_keeps_knext [OF kbase_sched [OF k1(2)] p k2(1), of "TickL t"] k1(6) by simp
  moreover have "tick_entry cb t k = Some k2"
    using z e(1,2) k1(1) k2(1) h(2) by (simp add: tick_entry_def)
  moreover have "tasks_of A2 = tasks_of A"
  proof -
    have "tasks_of A2 = insert n (tasks_of A1)"
      unfolding A2_def by (rule tasks_of_ready_upd [where A = A1, OF rp]) simp
    moreover have "tasks_of A = insert n (tasks_of A1)" using k1(4) d by (auto simp: tasks_of_def)
    ultimately show ?thesis by simp
  qed
  moreover have "set (ready A p) \<subseteq> set (ready A2 p)" for p by (auto simp: A2_def A1_def)
  moreover have d2: "dom A2 = dom A" using q rp by (auto simp: A2_def A1_def)
  ultimately show ?thesis
    using k2(2,3) h d2 by (simp add: tick_frame_def same_but_ready_def)
qed

lemma tick_entry_ok:
  assumes b: "kbase k A" and q: "A TQ = Some (as @ TickL t # bs)" and cb: "callbacks_ok cb"
  shows "\<exists>k' A'. tick_entry cb t k = Some k' \<and> kbase k' A' \<and> tick_frame k A k' A' \<and>
    A' TQ = Some (as @ (if stays (ticks k) (TickL t) then [TickL t] else []) @ bs) \<and>
    ticks k' = (ticks k)(t := tick_after (ticks k) t) \<and>
    knext k' (TickL t) = Some (hd (bs @ [TickL t])) \<and>
    (\<forall>n. t = DelayOf (Tcb n) \<and> timeout (ticks k t) = 0 \<longrightarrow>
      TL n \<in> set (ready A' (unat (prio (tcbs k (Tcb n))))))"
proof (cases "timeout (ticks k t) = 0")
  case False
  let ?k = "tick_upd t (timeout_update (\<lambda>n. n - 1)) k"
  have bk: "kbase ?k A" by (rule kbase_tick_times [OF b]) (auto simp: tick_upd_def)
  have "tick_entry cb t k = Some ?k" using False by (simp add: tick_entry_def)
  moreover have "knext ?k (TickL t) = Some (hd (bs @ [TickL t]))" by (rule tick_next [OF bk q])
  ultimately show ?thesis
    using bk q False
    by (intro exI [of _ ?k] exI [of _ A])
      (simp add: tick_frame_def stays_def tick_after_def tick_upd_def TICK_dec)
next
  case z: True
  have "tick_ok k A (TickL t)" using kbase_list_ok [OF b q] by auto
  then consider n where "t = DelayOf (Tcb n)" "style (ticks k t) = DELAY"
    | i f where "t = Timer i" "style (ticks k t) = SOFTWARE_TIMER" "tick_func (ticks k t) = Some f"
    by (auto simp: tick_ok_def)
  then show ?thesis
  proof cases
    case 1
    from tick_entry_wakes [OF b q z 1(1), of cb] show ?thesis
      using 1 z by (fastforce simp: stays_def tick_after_def)
  next
    case 2
    obtain k1 A1 where k1: "cb f (func_arg (ticks k t)) k = Some k1" "kbase k1 A1" "A1 TQ = A TQ"
      "ticks k1 = ticks k" "tick_frame k A k1 A1"
      using callbacks_okD [OF cb b] by metis
    have q1: "A1 TQ = Some (as @ TickL t # bs)" using q k1(3) by simp
    show ?thesis
    proof (cases "period (ticks k t) = CYCLE")
      case True
      let ?k = "tick_upd t (timeout_update (\<lambda>_. timeout_copy (ticks k1 t))) k1"
      have bk: "kbase ?k A1" by (rule kbase_tick_times [OF k1(2)]) (auto simp: tick_upd_def)
      have "tick_entry cb t k = Some ?k"
        using z 2 k1(1,4) True by (simp add: tick_entry_def)
      moreover have "knext ?k (TickL t) = Some (hd (bs @ [TickL t]))" by (rule tick_next [OF bk q1])
      moreover have "tick_frame k A ?k A1" using k1(5) by (simp add: tick_frame_def tick_upd_def)
      ultimately show ?thesis
        using bk q1 True 2 z k1(4)
        by (intro exI [of _ ?k] exI [of _ A1]) (simp add: stays_def tick_after_def tick_upd_def)
    next
      case False
      obtain k2 where k2: "tick_queue_delete t k1 = Some k2" "kbase k2 (A1(TQ \<mapsto> as @ bs))"
        "same_but_heap k1 k2" "members A1 = insert (TickL t) (members (A1(TQ \<mapsto> as @ bs)))"
        "knext k2 (TickL t) = Some (hd (bs @ [TickL t]))"
        using tick_delete_ok [OF k1(2) q1] by blast
      note h = same_but_heap_sel [OF k2(3)]
      have "tasks_of (A1(TQ \<mapsto> as @ bs)) = tasks_of A1"
        using k2(4) 2(1) by (auto simp: tasks_of_def)
      then have "tick_frame k A k2 (A1(TQ \<mapsto> as @ bs))"
        using k1(5) h q by (auto simp: tick_frame_def)
      moreover have "tick_entry cb t k = Some k2"
        using z 2 k1(1,4) False k2(1) by (simp add: tick_entry_def)
      ultimately show ?thesis
        using k2(2,5) h k1(4) 2 z False
        by (intro exI [of _ k2] exI [of _ "A1(TQ \<mapsto> as @ bs)"]) (simp add: stays_def tick_after_def)
    qed
  qed
qed

text \<open>The traversal, from a cursor whose \<open>next\<close> field names the rest of the queue.\<close>

lemma tick_traverse_ok:
  assumes "kbase k A" "A TQ = Some (as @ bs)" "callbacks_ok cb"
    and "knext k tmp = Some (hd (bs @ [tmp]))" "tmp \<notin> set bs"
  shows "\<exists>k' A'. tick_traverse cb tmp k = Some k' \<and> kbase k' A' \<and> tick_frame k A k' A' \<and>
    A' TQ = Some (as @ filter (stays (ticks k)) bs) \<and>
    ticks k' = (\<lambda>t. if TickL t \<in> set bs then tick_after (ticks k) t else ticks k t) \<and>
    (\<forall>n. TickL (DelayOf (Tcb n)) \<in> set bs \<and> timeout (ticks k (DelayOf (Tcb n))) = 0 \<longrightarrow>
      TL n \<in> set (ready A' (unat (prio (tcbs k (Tcb n))))))"
  using assms(1,2,4,5)
proof (induction bs arbitrary: k A as tmp)
  case Nil
  have "klast k tmp" using Nil.prems(3) by (simp add: klast_def knext_def is_list_last_def)
  then have "tick_traverse cb tmp k = Some k" by (subst tick_traverse.simps) simp
  then show ?case using Nil.prems by (auto simp: tick_frame_def)
next
  case (Cons x bs)
  obtain t where x: "x = TickL t" using kbase_list_ok [OF Cons.prems(1,2)] by (auto simp: tick_ok_def)
  have q: "A TQ = Some (as @ TickL t # bs)" using Cons.prems(2) x by simp
  have dx: "distinct (as @ x # bs)" using kl.rep_distinct [OF kbase_krep [OF Cons.prems(1)] Cons.prems(2)] ..
  let ?x = "if stays (ticks k) (TickL t) then [TickL t] else []"
  obtain k1 A1 where k1: "tick_entry cb t k = Some k1" "kbase k1 A1" "tick_frame k A k1 A1"
    "A1 TQ = Some ((as @ ?x) @ bs)" "ticks k1 = (ticks k)(t := tick_after (ticks k) t)"
    "knext k1 (TickL t) = Some (hd (bs @ [TickL t]))"
    "\<And>n. t = DelayOf (Tcb n) \<Longrightarrow> timeout (ticks k t) = 0 \<Longrightarrow>
      TL n \<in> set (ready A1 (unat (prio (tcbs k (Tcb n)))))"
    using tick_entry_ok [OF Cons.prems(1) q assms(3)] by auto
  have nx: "TickL t \<notin> set bs" using dx x by simp
  obtain k' A' where k': "tick_traverse cb (TickL t) k1 = Some k'" "kbase k' A'"
    "tick_frame k1 A1 k' A'" "A' TQ = Some ((as @ ?x) @ filter (stays (ticks k1)) bs)"
    "ticks k' = (\<lambda>t. if TickL t \<in> set bs then tick_after (ticks k1) t else ticks k1 t)"
    "\<And>n. TickL (DelayOf (Tcb n)) \<in> set bs \<Longrightarrow> timeout (ticks k1 (DelayOf (Tcb n))) = 0 \<Longrightarrow>
      TL n \<in> set (ready A' (unat (prio (tcbs k1 (Tcb n)))))"
    using Cons.IH [OF k1(2,4,6) nx] by blast
  have "\<not> klast k tmp" "knext k tmp = Some (TickL t)"
    using Cons.prems(3,4) x by (auto simp: klast_def knext_def is_list_last_def)
  then have "tick_traverse cb tmp k = Some k'"
    using k1(1) k'(1) by (subst tick_traverse.simps) simp
  moreover have "tick_frame k A k' A'" using tick_frame_trans [OF k1(3) k'(3)] .
  moreover have same: "ticks k1 u = ticks k u" if "TickL u \<in> set bs" for u
    using that nx k1(5) by auto
  have fl: "filter (stays (ticks k1)) bs = filter (stays (ticks k)) bs"
    by (rule filter_cong) (auto simp: stays_def same)
  have "A' TQ = Some (as @ filter (stays (ticks k)) (x # bs))" using k'(4) x fl by simp
  moreover have "ticks k' = (\<lambda>u. if TickL u \<in> set (x # bs) then tick_after (ticks k) u else ticks k u)"
    using k'(5) same nx k1(5) x by (auto simp: fun_eq_iff tick_after_def)
  moreover have "TL n \<in> set (ready A' (unat (prio (tcbs k (Tcb n)))))"
    if "TickL (DelayOf (Tcb n)) \<in> set (x # bs)" "timeout (ticks k (DelayOf (Tcb n))) = 0" for n
  proof -
    have "set (ready A1 p) \<subseteq> set (ready A' p)" for p using k'(3) by (simp add: tick_frame_def)
    then show ?thesis
      using that k1(3,7) k'(6) same x by (auto simp: tick_frame_def)
  qed
  ultimately show ?case using k'(2) by blast
qed

subsection \<open>The tick interrupt\<close>

lemma asched_sets: "set (ready (asched A) p) = set (ready A p)"
  by (simp add: asched_def)

lemma asched_other [simp]: "(\<And>p. q \<noteq> RQ p) \<Longrightarrow> asched A q = A q"
  by (simp add: asched_def)

lemma dom_asched: "kbase k A \<Longrightarrow> ready_set A \<noteq> {} \<Longrightarrow> dom (asched A) = dom A"
  using sched_inv_ready [OF kbase_sched top_prio_lt, of k A A] by (auto simp: asched_def)

lemma hardware_timer_queue:
  assumes inv: "kinv k A" and q: "A TQ = Some xs" and cb: "callbacks_ok cb"
    and lock: "schedule_is_lock k \<noteq> TRUE"
  shows "\<exists>k' A'. hardware_timer cb k = Some k' \<and> kinv k' A' \<and>
    A' TQ = Some (filter (stays (ticks k)) xs) \<and>
    ticks k' = (\<lambda>t. if TickL t \<in> set xs then tick_after (ticks k) t else ticks k t) \<and>
    fos_tick k' = fos_tick k + 1 \<and> tasks_of A' = tasks_of A \<and> tcbs k' = tcbs k \<and> sr k' = sr k \<and>
    schedule_is_lock k' = schedule_is_lock k \<and>
    (\<forall>p. set (ready A p) \<subseteq> set (ready A' p)) \<and>
    (\<forall>n. TickL (DelayOf (Tcb n)) \<in> set xs \<and> timeout (ticks k (DelayOf (Tcb n))) = 0 \<longrightarrow>
      TL n \<in> set (ready A' (unat (prio (tcbs k (Tcb n)))))) \<and> dom A' = dom A"
proof -
  let ?k = "(snd (interrupt_disable k))\<lparr>fos_tick := fos_tick k + 1\<rparr>"
  have b: "kbase ?k A"
    by (rule kbase_cong [OF kinv_kbase [OF inv]]) (auto simp: interrupt_disable_def)
  have ks: "ticks ?k = ticks k" "tcbs ?k = tcbs k" by (simp_all add: interrupt_disable_def)
  have qh: "TQ \<notin> set xs" using kl.rep_distinct [OF kbase_krep [OF b] q] by simp
  have nx: "knext ?k TQ = Some (hd (xs @ [TQ]))"
    using q klast_iff [OF kbase_krep [OF b] q] knext_first [OF kbase_krep [OF b], of TQ]
    by (cases xs) (auto simp: klast_def is_list_last_def knext_def)
  obtain k1 A1 where k1: "tick_traverse cb TQ ?k = Some k1" "kbase k1 A1" "tick_frame ?k A k1 A1"
    "A1 TQ = Some (filter (stays (ticks k)) xs)"
    "ticks k1 = (\<lambda>t. if TickL t \<in> set xs then tick_after (ticks k) t else ticks k t)"
    "\<forall>n. TickL (DelayOf (Tcb n)) \<in> set xs \<and> timeout (ticks k (DelayOf (Tcb n))) = 0 \<longrightarrow>
      TL n \<in> set (ready A1 (unat (prio (tcbs k (Tcb n)))))"
    using tick_traverse_ok [OF b _ cb nx qh, of "[]", unfolded ks append_Nil, OF q]
    by (elim exE conjE) (rule that)
  note f = k1(3) [unfolded tick_frame_def]
  let ?k1 = "interrupt_enable (sr k) k1"
  have b1: "kbase ?k1 A1"
    by (rule kbase_cong [OF k1(2)]) (auto simp: interrupt_enable_def)
  obtain c where c: "running k A c" using inv by (auto simp: kinv_def)
  let ?p = "unat (prio (tcbs k (Tcb c)))"
  have sub: "set (ready A p) \<subseteq> set (ready A1 p)" for p using f by simp
  then have "TL c \<in> set (ready A1 ?p)" using c by (auto simp: running_def)
  moreover have "?p < 32" using running_ready [OF c kinv_kbase [OF inv]] by (simp add: ready_set_def)
  ultimately have "?p \<in> ready_set A1" by (auto simp: ready_set_def)
  then have ne: "ready_set A1 \<noteq> {}" by blast
  have nt: "new_task k1 = new_task k" "schedule_is_lock k1 = schedule_is_lock k"
    "fos_tick k1 = fos_tick k + 1" "tcbs k1 = tcbs k" "tasks_of A1 = tasks_of A"
    using f by (simp_all add: interrupt_disable_def)
  have "new_task ?k1 \<noteq> None" "schedule_is_lock ?k1 \<noteq> TRUE"
    using c nt lock by (simp_all add: running_def interrupt_enable_def)
  then obtain k' t where k': "schedule ?k1 = Some k'" "kinv k' (asched A1)" "same_but_sched ?k1 k'"
    using schedule_kinv [OF b1 ne] by blast
  have "hardware_timer cb k = Some k'"
    using k1(1) k'(1) by (simp add: hardware_timer_def interrupt_disable_def)
  moreover have "tasks_of (asched A1) = tasks_of A"
    using tasks_of_members [OF asched_lists(2) [OF k1(2) ne]] nt(5) by simp
  moreover have "asched A1 TQ = Some (filter (stays (ticks k)) xs)" using k1(4) by simp
  moreover have "ticks k' = (\<lambda>t. if TickL t \<in> set xs then tick_after (ticks k) t else ticks k t)"
    "fos_tick k' = fos_tick k + 1" "tcbs k' = tcbs k" "sr k' = sr k"
    "schedule_is_lock k' = schedule_is_lock k"
    using k'(3) k1(5) nt by (simp_all add: same_but_sched_def interrupt_enable_def)
  moreover have "set (ready A p) \<subseteq> set (ready (asched A1) p)" for p
    using sub by (simp add: asched_sets)
  moreover have "TL n \<in> set (ready (asched A1) (unat (prio (tcbs k (Tcb n)))))"
    if "TickL (DelayOf (Tcb n)) \<in> set xs" "timeout (ticks k (DelayOf (Tcb n))) = 0" for n
    using k1(6) that by (simp add: asched_sets)
  moreover have "dom (asched A1) = dom A" using dom_asched [OF k1(2) ne] f by simp
  ultimately show ?thesis using k'(2) by blast
qed

text \<open>C16: a tick interrupt serves the whole tick queue: exactly the entries that did not expire
  and the periodic timers stay, every counter goes down by one or is reloaded, each task
  whose delay is over becomes ready, no ready task is lost, and the scheduler has run.\<close>

theorem hardware_timer_serves_queue:
  assumes inv: "kinv k A" and q: "A TQ = Some xs" and cb: "callbacks_ok cb"
    and lock: "schedule_is_lock k \<noteq> TRUE"
  shows "\<exists>k' A'. hardware_timer cb k = Some k' \<and> kinv k' A' \<and>
    A' TQ = Some (filter (stays (ticks k)) xs) \<and>
    ticks k' = (\<lambda>t. if TickL t \<in> set xs then tick_after (ticks k) t else ticks k t) \<and>
    fos_tick k' = fos_tick k + 1 \<and> tasks_of A' = tasks_of A \<and> tcbs k' = tcbs k \<and> sr k' = sr k \<and>
    schedule_is_lock k' = schedule_is_lock k \<and>
    (\<forall>p. set (ready A p) \<subseteq> set (ready A' p)) \<and>
    (\<forall>n. TickL (DelayOf (Tcb n)) \<in> set xs \<and> timeout (ticks k (DelayOf (Tcb n))) = 0 \<longrightarrow>
      TL n \<in> set (ready A' (unat (prio (tcbs k (Tcb n))))))"
  using hardware_timer_queue [OF assms] by blast

fun timer_ticks :: "(nat \<Rightarrow> nat \<Rightarrow> kst \<Rightarrow> kst option) \<Rightarrow> nat \<Rightarrow> kst \<Rightarrow> kst option" where
  "timer_ticks cb 0 k = Some k"
| "timer_ticks cb (Suc m) k = Option.bind (hardware_timer cb k) (timer_ticks cb m)"

subsection \<open>Delays\<close>

lemma ticks_only_there: "kbase k A \<Longrightarrow> TickL t \<in> members A \<longleftrightarrow> (\<exists>xs. A TQ = Some xs \<and> TickL t \<in> set xs)"
proof
  assume b: "kbase k A" and "TickL t \<in> members A"
  then obtain q xs where q: "A q = Some xs" "TickL t \<in> set xs" by (auto simp: members_iff)
  then have "q = TQ"
    using kbase_list_ok [OF b q(1)] by (cases "(k, A, q, xs)" rule: list_ok.cases) (auto simp: live_def)
  with q show "\<exists>xs. A TQ = Some xs \<and> TickL t \<in> set xs" by blast
qed (auto simp: members_iff)

text \<open>\<open>kbase\<close> after an entry is put on the tick queue.\<close>

lemma tick_insert_ok:
  assumes b: "kbase k A" and q: "A TQ = Some xs" and u: "unthreaded A (TickL t)"
    and e: "heap k1 = heap k" "bm_y k1 = bm_y k" "bm_c k1 = bm_c k" "tcbs k1 = tcbs k"
      "mutexes k1 = mutexes k" "queues k1 = queues k"
    and t: "ticks k1 = (ticks k)(t := v)" and ok: "tick_ok k1 A (TickL t)"
  shows "\<exists>k'. tick_queue_insert t k1 = Some k' \<and> kbase k' (A(TQ \<mapsto> xs @ [TickL t])) \<and>
    same_but_heap k1 k' \<and> members (A(TQ \<mapsto> xs @ [TickL t])) = insert (TickL t) (members A)"
proof -
  let ?A = "A(TQ \<mapsto> xs @ [TickL t])"
  have r1: "krep k1 A" using kbase_krep [OF b] e(1) by (simp add: krep_def)
  obtain k' where k': "kenq TQ (TickL t) k1 = Some k'" "krep k' ?A"
    using kl.enq_law [OF r1 q u] by blast
  note h = same_but_heap_sel [OF klist_frame(1) [OF k'(1)]]
  have m: "members ?A = insert (TickL t) (members A)"
    using members_split [where A = A and q = TQ, OF q] by (simp add: members_upd)
  have "tick_ok k' ?A y" if "y \<in> set (xs @ [TickL t])" for y
  proof -
    have "tick_ok k1 A y"
    proof (cases "y = TickL t")
      case False
      then have "tick_ok k A y" using kbase_list_ok [OF b q] that by auto
      then show ?thesis using False t e(4) by (auto simp: tick_ok_def live_def)
    qed (use ok in simp)
    then show ?thesis using h m by (auto simp: tick_ok_def live_def unthreaded_iff)
  qed
  then have "kbase k' ?A"
    using k'(2) h e by (intro kbase_tick_list [OF b]) auto
  then show ?thesis using k'(1) klist_frame(1) [OF k'(1)] m by (simp add: tick_queue_insert_def)
qed

lemma os_delay_ok:
  assumes inv: "kinv k A" and r: "running k A c" and lock: "schedule_is_lock k \<noteq> TRUE"
    and o: "others_ready A c" and q: "A TQ = Some xs"
  shows "\<exists>k' A'. os_delay n k = Some k' \<and> kinv k' A' \<and> asleep A' c \<and>
    A' TQ = Some (xs @ [TickL (DelayOf (Tcb c))]) \<and>
    timeout (ticks k' (DelayOf (Tcb c))) = n \<and> (\<forall>t. t \<noteq> DelayOf (Tcb c) \<longrightarrow> ticks k' t = ticks k t) \<and>
    new_task k' \<noteq> Some (Tcb c) \<and> tasks_of A' = tasks_of A \<and> tcbs k' = tcbs k \<and> sr k' = sr k \<and>
    schedule_is_lock k' = schedule_is_lock k \<and>
    (\<forall>q. q \<noteq> TQ \<and> (\<forall>p. q \<noteq> RQ p) \<longrightarrow> A' q = A q) \<and>
    (\<forall>p. set (ready A p) - {TL c} \<subseteq> set (ready A' p))"
proof -
  let ?d = "DelayOf (Tcb c)"
  let ?p = "unat (prio (tcbs k (Tcb c)))"
  let ?f = "\<lambda>r. r\<lparr>tick_tcb := Some (Tcb c), timeout := n, timeout_copy := n, style := DELAY\<rparr>"
  define k0 where "k0 = tick_upd ?d ?f (snd (interrupt_disable k))"
  define A1 where "A1 = A(RQ ?p \<mapsto> remove1 (TL c) (ready A ?p))"
  have nt: "new_task k = Some (Tcb c)" using r by (simp add: running_def)
  have tq: "ticks k0 = (ticks k)(?d := ?f (ticks k ?d))"
    by (simp add: k0_def tick_upd_def interrupt_disable_def)
  have f0: "heap k0 = heap k" "bm_y k0 = bm_y k" "bm_c k0 = bm_c k" "tcbs k0 = tcbs k"
    "mutexes k0 = mutexes k" "queues k0 = queues k" "new_task k0 = new_task k"
    "schedule_is_lock k0 = schedule_is_lock k"
    by (simp_all add: k0_def tick_upd_def interrupt_disable_def)
  note b = kinv_kbase [OF inv]
  have c_in: "TL c \<in> members A" by (rule running_member [OF r])
  have awake: "\<not> asleep A c" by (rule threaded_awake [OF b c_in])
  have tok: "tick_ok k0 A y" if "A TQ = Some ys" "y \<in> set ys" for ys y
  proof -
    have "y \<noteq> TickL ?d" using awake that by (auto simp: asleep_def members_iff)
    moreover have "tick_ok k A y" using kbase_list_ok [OF b that(1)] that(2) by auto
    ultimately show ?thesis using tq f0(4) by (auto simp: tick_ok_def live_def fun_eq_iff)
  qed
  have A_id: "A(TQ \<mapsto> xs) = A" using q by (simp add: fun_upd_idem)
  have b0: "kbase k0 A"
    using kbase_tick_list [OF b, of k0 xs] tok [OF q] f0 kbase_krep [OF b]
    unfolding A_id by (simp add: krep_def)
  have r0: "running k0 A c" using r running_cong [OF f0(7,4)] by simp
  obtain k1 where k1: "prio_ready_queue_delete (Some (Tcb c)) k0 = Some k1" "kbase k1 A1"
    "same_but_ready k0 k1" "unthreaded A1 (TL c)" "members A = insert (TL c) (members A1)"
    using delete_running [OF b0 r0] f0(4) by (auto simp: A1_def)
  have q1: "A1 TQ = Some xs" using q by (simp add: A1_def)
  have "A1 (TickL ?d) = None"
    using kbase_list_ok [OF k1(2), of "TickL ?d"] by (cases "A1 (TickL ?d)") auto
  then have u1: "unthreaded A1 (TickL ?d)"
    using awake k1(5) by (simp add: unthreaded_iff asleep_def)
  have "live k (TL c)" using r kbase_ready_live [OF b] unfolding running_def by blast
  then have "tick_ok k1 A1 (TickL ?d)"
    using k1(3,4) tq f0(4) by (auto simp: tick_ok_def same_but_ready_def live_def fun_eq_iff)
  moreover have "ticks k1 = (ticks k1)(?d := ticks k1 ?d)" by simp
  ultimately obtain k2 where k2: "tick_queue_insert ?d k1 = Some k2"
    "kbase k2 (A1(TQ \<mapsto> xs @ [TickL ?d]))" "same_but_heap k1 k2"
    "members (A1(TQ \<mapsto> xs @ [TickL ?d])) = insert (TickL ?d) (members A1)"
    using tick_insert_ok [OF k1(2) q1 u1, of k1] by blast
  let ?A2 = "A1(TQ \<mapsto> xs @ [TickL ?d])"
  let ?k2 = "interrupt_enable (sr k) k2"
  note h = same_but_heap_sel [OF k2(3)]
  have b2: "kbase ?k2 ?A2" by (rule kbase_cong [OF k2(2)]) (auto simp: interrupt_enable_def)
  have ne: "ready_set ?A2 \<noteq> {}"
    using others_ready_after_remove [OF o] by (simp add: A1_def)
  obtain k' t where k': "schedule ?k2 = Some k'" "chosen ?A2 = Some t" "kinv k' (asched ?A2)"
    "new_task k' = Some t" "same_but_sched ?k2 k'"
    using schedule_kinv [OF b2 ne] nt lock f0 h k1(3)
    by (auto simp: interrupt_enable_def same_but_ready_def)
  have "TL c \<notin> members ?A2" using k1(4) k2(4) by (simp add: unthreaded_iff)
  then have "t \<noteq> Tcb c"
    using chosen_ready [OF kbase_sched [OF b2] ne] k'(2)
    by (metis list.set_intros(1) option.inject ready_members)
  moreover have "os_delay n k = Some k'"
    using nt k1(1) k2(1) k'(1)
    by (simp add: os_delay_def k0_def tick_upd_def interrupt_disable_def)
  moreover have "tasks_of (asched ?A2) = tasks_of A"
    using asched_lists(2) [OF b2 ne] k1(5) k2(4) by (auto simp: tasks_of_def)
  moreover have "asleep (asched ?A2) c"
    using asched_lists(2) [OF b2 ne] k2(4) by (simp add: asleep_def)
  moreover have "ticks k' = ticks k0"
    using k'(5) h k1(3) by (simp add: same_but_sched_def interrupt_enable_def same_but_ready_def)
  moreover have "asched ?A2 q = A q" if "q \<noteq> TQ" "\<forall>p. q \<noteq> RQ p" for q
    using that by (simp add: A1_def)
  moreover have "set (ready A p) - {TL c} \<subseteq> set (ready (asched ?A2) p)" for p
  proof -
    have "set xs - {y} \<subseteq> set (remove1 y xs)" for xs and y :: klink
      by (induction xs) auto
    then show ?thesis by (auto simp: A1_def asched_sets)
  qed
  moreover have "tcbs k' = tcbs k" "sr k' = sr k" "schedule_is_lock k' = schedule_is_lock k"
    using k'(5) h k1(3) f0 by (simp_all add: same_but_sched_def interrupt_enable_def same_but_ready_def)
  ultimately show ?thesis
    using k'(3,4) tq
    by (intro exI [of _ k'] exI [of _ "asched ?A2"]) (auto simp: fun_eq_iff)
qed

text \<open>\<open>os_delay\<close> takes the calling task off its ready queue, appends its delay entry to the
  tick queue with the given number of ticks, and runs another task.\<close>

theorem os_delay_sleeps:
  assumes inv: "kinv k A" and r: "running k A c" and lock: "schedule_is_lock k \<noteq> TRUE"
    and o: "others_ready A c" and q: "A TQ = Some xs"
  shows "\<exists>k' A'. os_delay n k = Some k' \<and> kinv k' A' \<and> asleep A' c \<and>
    A' TQ = Some (xs @ [TickL (DelayOf (Tcb c))]) \<and>
    timeout (ticks k' (DelayOf (Tcb c))) = n \<and> (\<forall>t. t \<noteq> DelayOf (Tcb c) \<longrightarrow> ticks k' t = ticks k t) \<and>
    new_task k' \<noteq> Some (Tcb c) \<and> tasks_of A' = tasks_of A \<and> tcbs k' = tcbs k \<and> sr k' = sr k"
  using os_delay_ok [OF assms, of n] by blast

subsection \<open>How long a delay lasts\<close>

text \<open>One tick of a sleeping task that has time left.\<close>

lemma hardware_timer_sleeper:
  assumes "kinv k A" "asleep A n" "callbacks_ok cb" "schedule_is_lock k \<noteq> TRUE"
    and "timeout (ticks k (DelayOf (Tcb n))) \<noteq> 0"
  shows "\<exists>k' A'. hardware_timer cb k = Some k' \<and> kinv k' A' \<and> asleep A' n \<and>
    schedule_is_lock k' \<noteq> TRUE \<and> tcbs k' = tcbs k \<and>
    timeout (ticks k' (DelayOf (Tcb n))) = timeout (ticks k (DelayOf (Tcb n))) - 1"
proof -
  let ?x = "TickL (DelayOf (Tcb n))"
  obtain xs where q: "A TQ = Some xs" "?x \<in> set xs"
    using asleep_tick [OF kinv_kbase [OF assms(1)] assms(2)] by metis
  obtain k' A' where k': "hardware_timer cb k = Some k'" "kinv k' A'"
    "A' TQ = Some (filter (stays (ticks k)) xs)"
    "ticks k' = (\<lambda>t. if TickL t \<in> set xs then tick_after (ticks k) t else ticks k t)"
    "schedule_is_lock k' = schedule_is_lock k" "tcbs k' = tcbs k"
    using hardware_timer_queue [OF assms(1) q(1) assms(3,4)] by (elim exE conjE) (rule that)
  have "stays (ticks k) ?x" using assms(5) by (simp add: stays_def)
  then have "asleep A' n"
    using k'(3) q(2) unfolding asleep_def members_iff
    by (intro exI [of _ TQ] exI [of _ "filter (stays (ticks k)) xs"]) simp
  moreover have "timeout (ticks k' (DelayOf (Tcb n))) = timeout (ticks k (DelayOf (Tcb n))) - 1"
    using k'(4) q(2) assms(5) by (simp add: tick_after_def)
  ultimately show ?thesis using k'(1,2,5,6) assms(4) by auto
qed

lemma hardware_timer_waker:
  assumes "kinv k A" "asleep A n" "callbacks_ok cb" "schedule_is_lock k \<noteq> TRUE"
    and "timeout (ticks k (DelayOf (Tcb n))) = 0"
  shows "\<exists>k' A'. hardware_timer cb k = Some k' \<and> kinv k' A' \<and>
    TL n \<in> set (ready A' (unat (prio (tcbs k (Tcb n)))))"
proof -
  obtain xs where q: "A TQ = Some xs" "TickL (DelayOf (Tcb n)) \<in> set xs"
    using asleep_tick [OF kinv_kbase [OF assms(1)] assms(2)] by metis
  obtain k' A' where "hardware_timer cb k = Some k'" "kinv k' A'"
    "\<forall>n. TickL (DelayOf (Tcb n)) \<in> set xs \<and> timeout (ticks k (DelayOf (Tcb n))) = 0 \<longrightarrow>
      TL n \<in> set (ready A' (unat (prio (tcbs k (Tcb n)))))"
    using hardware_timer_queue [OF assms(1) q(1) assms(3,4)] by (elim exE conjE) (rule that)
  with q(2) assms(5) show ?thesis by blast
qed

lemma timer_ticks_asleep:
  assumes "callbacks_ok cb"
  shows "kinv k A \<Longrightarrow> asleep A n \<Longrightarrow> schedule_is_lock k \<noteq> TRUE \<Longrightarrow>
    m \<le> unat (timeout (ticks k (DelayOf (Tcb n)))) \<Longrightarrow>
    \<exists>k' A'. timer_ticks cb m k = Some k' \<and> kinv k' A' \<and> asleep A' n"
proof (induction m arbitrary: k A)
  case 0
  then show ?case by auto
next
  case (Suc m)
  then have nz: "timeout (ticks k (DelayOf (Tcb n))) \<noteq> 0" by auto
  obtain k1 A1 where k1: "hardware_timer cb k = Some k1" "kinv k1 A1" "asleep A1 n"
    "schedule_is_lock k1 \<noteq> TRUE"
    "timeout (ticks k1 (DelayOf (Tcb n))) = timeout (ticks k (DelayOf (Tcb n))) - 1"
    using hardware_timer_sleeper [OF Suc.prems(1,2) assms Suc.prems(3) nz] by blast
  have "m \<le> unat (timeout (ticks k1 (DelayOf (Tcb n))))"
    using k1(5) Suc.prems(4) unat_minus_one [OF nz] by simp
  from Suc.IH [OF k1(2-4) this] k1(1) show ?case by simp
qed

lemma timer_ticks_awake:
  assumes "callbacks_ok cb"
  shows "kinv k A \<Longrightarrow> asleep A n \<Longrightarrow> schedule_is_lock k \<noteq> TRUE \<Longrightarrow>
    unat (timeout (ticks k (DelayOf (Tcb n)))) = d \<Longrightarrow>
    \<exists>k' A'. timer_ticks cb (Suc d) k = Some k' \<and> kinv k' A' \<and>
      TL n \<in> set (ready A' (unat (prio (tcbs k (Tcb n)))))"
proof (induction d arbitrary: k A)
  case 0
  then have "timeout (ticks k (DelayOf (Tcb n))) = 0" by (simp add: unat_eq_0)
  from hardware_timer_waker [OF 0(1,2) assms 0(3) this] show ?case by auto
next
  case (Suc d)
  then have nz: "timeout (ticks k (DelayOf (Tcb n))) \<noteq> 0" by auto
  obtain k1 A1 where k1: "hardware_timer cb k = Some k1" "kinv k1 A1" "asleep A1 n"
    "schedule_is_lock k1 \<noteq> TRUE" "tcbs k1 = tcbs k"
    "timeout (ticks k1 (DelayOf (Tcb n))) = timeout (ticks k (DelayOf (Tcb n))) - 1"
    using hardware_timer_sleeper [OF Suc.prems(1,2) assms Suc.prems(3) nz] by blast
  have "unat (timeout (ticks k1 (DelayOf (Tcb n)))) = d"
    using k1(6) Suc.prems(4) unat_minus_one [OF nz] by simp
  from Suc.IH [OF k1(2-4) this] k1(1,5) show ?case by simp
qed

text \<open>C6: a task whose delay entry holds \<open>d\<close> sleeps through \<open>d\<close> tick interrupts and is
  ready after the next one: \<open>os_delay n\<close> lasts until the tick \<open>n + 1\<close>.\<close>

theorem delay_wakes_in_time:
  assumes "kinv k A" "asleep A n" "callbacks_ok cb" "schedule_is_lock k \<noteq> TRUE"
    and "unat (timeout (ticks k (DelayOf (Tcb n)))) = d"
  shows "(\<forall>m\<le>d. \<exists>k' A'. timer_ticks cb m k = Some k' \<and> kinv k' A' \<and> asleep A' n) \<and>
    (\<exists>k' A'. timer_ticks cb (Suc d) k = Some k' \<and> kinv k' A' \<and>
      TL n \<in> set (ready A' (unat (prio (tcbs k (Tcb n))))))"
  using timer_ticks_asleep [OF assms(3,1,2,4)] timer_ticks_awake [OF assms(3,1,2,4,5)] assms(5)
  by blast

subsection \<open>Software timers\<close>

text \<open>\<open>timer_req\<close> on a timer that is on no list appends it to the tick queue with its
  function, argument, time and period; NULL arguments and a time of zero change nothing.\<close>

theorem timer_req_ok:
  assumes inv: "kinv k A" and q: "A TQ = Some xs" and u: "unthreaded A (TickL (Timer i))"
  shows "(tmo = 0 \<longrightarrow> timer_req (Some (Timer i)) (Some f) tmo per arg k = Some k) \<and>
    (tmo \<noteq> 0 \<longrightarrow> (\<exists>k'. timer_req (Some (Timer i)) (Some f) tmo per arg k = Some k' \<and>
      kinv k' (A(TQ \<mapsto> xs @ [TickL (Timer i)])) \<and>
      ticks k' = (ticks k)(Timer i := \<lparr>style = SOFTWARE_TIMER, timeout = tmo,
        tick_tcb = tick_tcb (ticks k (Timer i)), tick_func = Some f, func_arg = arg,
        period = per, timeout_copy = tmo\<rparr>) \<and> sr k' = sr k \<and>
      schedule_is_lock k' = schedule_is_lock k))"
proof (intro conjI impI)
  show "timer_req (Some (Timer i)) (Some f) tmo per arg k = Some k" if "tmo = 0"
    using that by (simp add: timer_req_def)
  assume nz: "tmo \<noteq> 0"
  define v where "v = \<lparr>style = SOFTWARE_TIMER, timeout = tmo,
        tick_tcb = tick_tcb (ticks k (Timer i)), tick_func = Some f, func_arg = arg,
        period = per, timeout_copy = tmo\<rparr>"
  define k1 where "k1 = snd (interrupt_disable k)\<lparr>ticks := (ticks k)(Timer i := v)\<rparr>"
  have rec: "r\<lparr>tick_func := Some f, timeout := tmo, period := per, timeout_copy := tmo,
      style := SOFTWARE_TIMER, func_arg := arg\<rparr> = v" if "tick_tcb r = tick_tcb (ticks k (Timer i))" for r
    using that by (cases r) (simp add: v_def)
  have f1: "heap k1 = heap k" "bm_y k1 = bm_y k" "bm_c k1 = bm_c k" "tcbs k1 = tcbs k"
    "mutexes k1 = mutexes k" "queues k1 = queues k" "new_task k1 = new_task k"
    "ticks k1 = (ticks k)(Timer i := v)" "schedule_is_lock k1 = schedule_is_lock k"
    by (simp_all add: k1_def interrupt_disable_def)
  have "tick_ok k1 A (TickL (Timer i))" using f1(8) by (simp add: tick_ok_def v_def)
  then obtain k2 where k2: "tick_queue_insert (Timer i) k1 = Some k2"
    "kbase k2 (A(TQ \<mapsto> xs @ [TickL (Timer i)]))" "same_but_heap k1 k2"
    using tick_insert_ok [OF kinv_kbase [OF inv] q u f1(1-6,8)] by blast
  note h = same_but_heap_sel [OF k2(3)]
  let ?k2 = "interrupt_enable (sr k) k2"
  have "kbase ?k2 (A(TQ \<mapsto> xs @ [TickL (Timer i)]))"
    by (rule kbase_cong [OF k2(2)]) (auto simp: interrupt_enable_def)
  moreover obtain c where "running k A c" using inv by (auto simp: kinv_def)
  then have "running ?k2 (A(TQ \<mapsto> xs @ [TickL (Timer i)])) c"
    using h f1 by (simp add: running_def interrupt_enable_def)
  moreover have "timer_req (Some (Timer i)) (Some f) tmo per arg k = Some ?k2"
  proof -
    have "timer_req (Some (Timer i)) (Some f) tmo per arg k =
        Option.bind (tick_queue_insert (Timer i) k1) (\<lambda>k'. Some (interrupt_enable (sr k) k'))"
      using nz rec by (simp add: timer_req_def k1_def tick_upd_def interrupt_disable_def)
    with k2(1) show ?thesis by simp
  qed
  ultimately show "\<exists>k'. timer_req (Some (Timer i)) (Some f) tmo per arg k = Some k' \<and>
      kinv k' (A(TQ \<mapsto> xs @ [TickL (Timer i)])) \<and>
      ticks k' = (ticks k)(Timer i := \<lparr>style = SOFTWARE_TIMER, timeout = tmo,
        tick_tcb = tick_tcb (ticks k (Timer i)), tick_func = Some f, func_arg = arg,
        period = per, timeout_copy = tmo\<rparr>) \<and> sr k' = sr k \<and>
      schedule_is_lock k' = schedule_is_lock k"
    using h f1(8,9) unfolding v_def by (auto simp: kinv_def interrupt_enable_def)
qed

end
