(* ===== verification/FosDevice.thy ===== *)
theory FosDevice
  imports FosWait
begin

text \<open>
  \<^verbatim>\<open>kernel/device.c\<close>: the device table. A driver function is a number; calling one is the
  parameter \<open>drv\<close>, applied to the number, the call's arguments and the state. A NULL
  \<^verbatim>\<open>ops\<close> pointer that is dereferenced is a fault.
\<close>

subsection \<open>The operations\<close>

datatype drv_call = OpenCall string u8 | ReadCall nat u8 | WriteCall nat u8 | CtrlCall u8 nat | CloseCall

type_synonym driver = "nat \<Rightarrow> drv_call \<Rightarrow> kst \<Rightarrow> kst option"

abbreviation DQ :: klink where "DQ \<equiv> DevL DevQueue"

text \<open>The head of the device list is initialised by the first call only.\<close>

definition device_queue_init :: "kst \<Rightarrow> kst" where
  "device_queue_init k =
     (let k = k\<lparr>device_init_times := device_init_times k + 1\<rparr>
      in if device_init_times k \<ge> 2 then k else klist_init DQ k)"

definition dev_upd :: "devp \<Rightarrow> (DEVICE \<Rightarrow> DEVICE) \<Rightarrow> kst \<Rightarrow> kst" where
  "dev_upd d f k = k\<lparr>devices := (devices k)(d := f (devices k d))\<rparr>"

definition device_register :: "devp option \<Rightarrow> string option \<Rightarrow> nat option \<Rightarrow> kst \<Rightarrow> (int \<times> kst) option" where
  "device_register device name ops k =
     (case device of
        None \<Rightarrow> Some (NO_DEVICE, k)
      | Some d \<Rightarrow> do {
          let k = dev_upd d (dev_name_update (\<lambda>_. name)) k;
          let k = dev_upd d (dev_ops_update (\<lambda>_. ops)) k;
          let k = dev_upd d (dev_flag_update (\<lambda>_. 0)) k;
          let k = dev_upd d (open_count_update (\<lambda>c. c + 1)) k;
          k \<leftarrow> kenq DQ (DevL d) k;
          Some (0, k)
        })"

definition ops_init :: "nat option \<Rightarrow> nat option \<Rightarrow> nat option \<Rightarrow> nat option \<Rightarrow> nat option \<Rightarrow>
    nat option \<Rightarrow> kst \<Rightarrow> (int \<times> kst) option" where
  "ops_init ops opn wrt rd ctl cls k = do {
     i \<leftarrow> ops;
     Some (0, k\<lparr>opss := (opss k)(i := \<lparr>op_open = opn, op_read = rd, op_write = wrt,
       op_ioctrl = ctl, op_close = cls\<rparr>)\<rparr>)
   }"

definition device_unregister :: "devp option \<Rightarrow> kst \<Rightarrow> (int \<times> kst) option" where
  "device_unregister device k =
     (case device of
        None \<Rightarrow> Some (NO_DEVICE, k)
      | Some d \<Rightarrow> do {
          (_, k) \<leftarrow> ops_init (dev_ops (devices k d)) None None None None None k;
          k \<leftarrow> kdel (DevL d) k;
          Some (0, k)
        })"

definition call_op :: "driver \<Rightarrow> (OPERATIONS \<Rightarrow> nat option) \<Rightarrow> drv_call \<Rightarrow> devp \<Rightarrow> kst \<Rightarrow> kst option" where
  "call_op drv sel c d k = do {
     i \<leftarrow> dev_ops (devices k d);
     (case sel (opss k i) of Some f \<Rightarrow> drv f c k | None \<Rightarrow> Some k)
   }"

definition device_read :: "driver \<Rightarrow> devp option \<Rightarrow> nat \<Rightarrow> u8 \<Rightarrow> kst \<Rightarrow> (int \<times> kst) option" where
  "device_read drv device buff sz k =
     (case device of
        None \<Rightarrow> Some (NO_DEVICE, k)
      | Some d \<Rightarrow> do { k \<leftarrow> call_op drv op_read (ReadCall buff sz) d k; Some (0, k) })"

definition device_write :: "driver \<Rightarrow> devp option \<Rightarrow> nat \<Rightarrow> u8 \<Rightarrow> kst \<Rightarrow> (int \<times> kst) option" where
  "device_write drv device buff sz k =
     (case device of
        None \<Rightarrow> Some (NO_DEVICE, k)
      | Some d \<Rightarrow> do { k \<leftarrow> call_op drv op_write (WriteCall buff sz) d k; Some (0, k) })"

definition device_ioctrl :: "driver \<Rightarrow> devp option \<Rightarrow> u8 \<Rightarrow> nat \<Rightarrow> kst \<Rightarrow> (int \<times> kst) option" where
  "device_ioctrl drv device cmd arg k =
     (case device of
        None \<Rightarrow> Some (NO_DEVICE, k)
      | Some d \<Rightarrow> do { k \<leftarrow> call_op drv op_ioctrl (CtrlCall cmd arg) d k; Some (0, k) })"

text \<open>\<^verbatim>\<open>strcmp(a, b) == 0\<close> on two strings; a NULL name is a fault.\<close>

partial_function (option) device_find_from :: "kst \<Rightarrow> klink \<Rightarrow> string \<Rightarrow> devp option option" where
  "device_find_from k tmp name =
     (if klast k tmp then Some None
      else Option.bind (knext k tmp) (\<lambda>n.
        Option.bind (dev_of_link n) (\<lambda>d.
        Option.bind (dev_name (devices k d)) (\<lambda>s.
          if s = name then Some (Some d) else device_find_from k n name))))"

definition device_find :: "string \<Rightarrow> kst \<Rightarrow> devp option option" where
  "device_find name k = device_find_from k DQ name"

definition device_open :: "driver \<Rightarrow> devp option \<Rightarrow> string \<Rightarrow> u8 \<Rightarrow> kst \<Rightarrow> (int \<times> kst) option" where
  "device_open drv device name flag k =
     (case device of
        None \<Rightarrow> Some (NO_DEVICE, k)
      | Some d \<Rightarrow> do {
          k \<leftarrow> call_op drv op_open (OpenCall name flag) d k;
          let k = dev_upd d (dev_flag_update (\<lambda>f. f OR flag)) k;
          let k = dev_upd d (open_count_update (\<lambda>c. c + 1)) k;
          Some (0, k)
        })"

definition device_close :: "driver \<Rightarrow> devp option \<Rightarrow> kst \<Rightarrow> (int \<times> kst) option" where
  "device_close drv device k =
     (case device of
        None \<Rightarrow> Some (NO_DEVICE, k)
      | Some d \<Rightarrow> do {
          k \<leftarrow> call_op drv op_close CloseCall d k;
          let k = dev_upd d (dev_flag_update (\<lambda>_. 0)) k;
          let k = dev_upd d (open_count_update (\<lambda>c. c - 1)) k;
          Some (0, k)
        })"

text \<open>The names \<^verbatim>\<open>device_traverse\<close> prints.\<close>

partial_function (option) device_traverse_from :: "kst \<Rightarrow> klink \<Rightarrow> string list option" where
  "device_traverse_from k tmp =
     (if klast k tmp then Some []
      else Option.bind (knext k tmp) (\<lambda>n.
        Option.bind (dev_of_link n) (\<lambda>d.
        Option.bind (device_traverse_from k n) (\<lambda>out.
          Some (case dev_name (devices k d) of Some s \<Rightarrow> s # out | None \<Rightarrow> out)))))"

definition device_traverse :: "kst \<Rightarrow> (int \<times> string list) option" where
  "device_traverse k = map_option (Pair 0) (device_traverse_from k DQ)"

subsection \<open>The device list\<close>

lemma dev_list_nodes:
  "kbase k A \<Longrightarrow> A DQ = Some ds \<Longrightarrow> x \<in> set ds \<Longrightarrow> \<exists>d. x = DevL (Dev d)"
  using kbase_list_ok [of k A DQ ds] by auto

lemma knext_in_list:
  assumes "krep k A" "A q = Some xs" "q # xs = as @ x # bs"
  shows "klast k x \<longleftrightarrow> bs = []" and "bs \<noteq> [] \<Longrightarrow> knext k x = Some (hd bs)"
proof -
  have "lrep (heap k) q xs" using assms(1,2) by (simp add: krep_def store_rep_lrep)
  then have l: "lrep (heap k) x bs"
    using assms(3) by (cases as) (auto intro: lrep_suffix)
  show "klast k x \<longleftrightarrow> bs = []" using l by (simp add: klast_def lrep_is_last_iff)
  show "bs \<noteq> [] \<Longrightarrow> knext k x = Some (hd bs)"
    using l lrep_first by (cases bs) (auto simp: knext_def)
qed

definition dev_named :: "kst \<Rightarrow> string \<Rightarrow> klink \<Rightarrow> bool" where
  "dev_named k name x \<longleftrightarrow> (\<exists>d. x = DevL d \<and> dev_name (devices k d) = Some name)"

lemma device_find_from_ok:
  assumes r: "krep k A" "A DQ = Some xs" "DQ # xs = as @ x # bs"
    and nodes: "\<forall>y \<in> set bs. \<exists>d. y = DevL d \<and> dev_name (devices k d) \<noteq> None"
  shows "device_find_from k x name = Some (Option.bind (find (dev_named k name) bs) dev_of_link)"
  using r(3) nodes
proof (induction bs arbitrary: as x)
  case Nil
  then show ?case using knext_in_list(1) [OF r(1,2) Nil(1)] by (subst device_find_from.simps) simp
next
  case (Cons b bs)
  obtain d s where d: "b = DevL d" "dev_name (devices k d) = Some s" using Cons.prems(2) by auto
  have "\<not> klast k x" "knext k x = Some b" using knext_in_list [OF r(1,2) Cons.prems(1)] by simp_all
  moreover have "device_find_from k b name = Some (Option.bind (find (dev_named k name) bs) dev_of_link)"
    using Cons.IH [of "as @ [x]" b] Cons.prems by simp
  ultimately show ?case
    using d by (subst device_find_from.simps) (simp add: dev_named_def)
qed

text \<open>\<open>device_find\<close> returns the first device of the list with the given name, and NULL when
  there is none, as long as every registered device has a name.\<close>

theorem device_find_first:
  assumes "kbase k A" "A DQ = Some ds"
    and "\<forall>y \<in> set ds. \<exists>d. y = DevL d \<and> dev_name (devices k d) \<noteq> None"
  shows "device_find name k = Some (Option.bind (find (dev_named k name) ds) dev_of_link)"
  using device_find_from_ok [OF kbase_krep [OF assms(1)] assms(2) _ assms(3), of "[]" DQ]
  by (simp add: device_find_def)

text \<open>\<open>kbase\<close> does not depend on the device and driver tables.\<close>

lemma kbase_dev_list:
  assumes b: "kbase k A" and r: "krep k' (A(DQ \<mapsto> ys))"
    and e: "bm_y k' = bm_y k" "bm_c k' = bm_c k" "tcbs k' = tcbs k" "ticks k' = ticks k"
      "mutexes k' = mutexes k" "queues k' = queues k"
    and ys: "\<And>y. y \<in> set ys \<Longrightarrow> \<exists>d. y = DevL (Dev d)"
  shows "kbase k' (A(DQ \<mapsto> ys))"
proof -
  let ?A = "A(DQ \<mapsto> ys)"
  have un: "unthreaded ?A (TL n)" if "unthreaded A (TL n)" for n
    using that ys by (auto simp: unthreaded_def)
  have tk: "tick_ok k' ?A x" if "tick_ok k A x" for x
    using that un e live_cong [OF e(3)] by (auto simp: tick_ok_def)
  have "list_ok k' ?A q xs" if q: "?A q = Some xs" for q xs
  proof (cases "q = DQ")
    case True
    then show ?thesis using q ys by simp
  next
    case False
    then have "A q = Some xs" using q by simp
    then show ?thesis
      using kbase_list_ok [OF b, of q xs] tk e live_cong [OF e(3)] False
      by (cases "(k, A, q, xs)" rule: list_ok.cases) auto
  qed
  moreover have "sched_inv k' ?A"
    using kbase_sched [OF b] r e by (intro sched_inv_other_upd [where k = k]) auto
  ultimately show ?thesis using b by (simp add: kbase_def)
qed

text \<open>Registering a device that is on no list appends it to the device list with its name
  and operations, its flag cleared and its open count one higher; unregistering it afterwards
  clears its operations and restores the list.\<close>

theorem device_register_unregister:
  assumes b: "kbase k A" and q: "A DQ = Some ds" and u: "unthreaded A (DevL (Dev d))"
  shows "\<exists>k1. device_register (Some (Dev d)) name (Some ops) k = Some (0, k1) \<and>
    kbase k1 (A(DQ \<mapsto> ds @ [DevL (Dev d)])) \<and>
    dev_name (devices k1 (Dev d)) = name \<and> dev_ops (devices k1 (Dev d)) = Some ops \<and>
    dev_flag (devices k1 (Dev d)) = 0 \<and>
    open_count (devices k1 (Dev d)) = open_count (devices k (Dev d)) + 1 \<and>
    (\<exists>k2. device_unregister (Some (Dev d)) k1 = Some (0, k2) \<and> kbase k2 A \<and>
      opss k2 ops = \<lparr>op_open = None, op_read = None, op_write = None, op_ioctrl = None, op_close = None\<rparr>)"
proof -
  let ?f = "\<lambda>r. r\<lparr>dev_name := name, dev_ops := Some ops, dev_flag := 0, open_count := open_count r + 1\<rparr>"
  define k0 where "k0 = dev_upd (Dev d) ?f k"
  have r0: "krep k0 A" using kbase_krep [OF b] by (simp add: k0_def dev_upd_def krep_def)
  let ?A = "A(DQ \<mapsto> ds @ [DevL (Dev d)])"
  obtain k1 where k1: "kenq DQ (DevL (Dev d)) k0 = Some k1" "krep k1 ?A"
    using kl.enq_law [OF r0 q u] by blast
  note h = same_but_heap_sel [OF klist_frame(1) [OF k1(1)]]
  have reg: "device_register (Some (Dev d)) name (Some ops) k = Some (0, k1)"
    using k1(1)
    by (cases "devices k (Dev d)") (simp add: device_register_def k0_def dev_upd_def)
  have b1: "kbase k1 ?A"
    using k1(2) h dev_list_nodes [OF b q]
    by (intro kbase_dev_list [OF b]) (auto simp: k0_def dev_upd_def)
  have dev1: "devices k1 (Dev d) = ?f (devices k (Dev d))" using h by (simp add: k0_def dev_upd_def)
  let ?z = "\<lparr>op_open = None, op_read = None, op_write = None, op_ioctrl = None, op_close = None\<rparr> :: OPERATIONS"
  let ?k = "k1\<lparr>opss := (opss k1)(ops := ?z)\<rparr>"
  have "krep ?k ?A" using k1(2) by (simp add: krep_def)
  then obtain k2 where k2: "kdel (DevL (Dev d)) ?k = Some k2" "krep k2 (A(DQ \<mapsto> ds))"
    using kl.del_law [of ?k ?A DQ ds "DevL (Dev d)" "[]"] by auto
  note h2 = same_but_heap_sel [OF klist_frame(3) [OF k2(1)]]
  have "device_unregister (Some (Dev d)) k1 = Some (0, k2)"
    using dev1 k2(1) by (simp add: device_unregister_def ops_init_def)
  moreover have "kbase k2 A"
  proof -
    have "kbase k2 (A(DQ \<mapsto> ds))"
      using k2(2) h h2 dev_list_nodes [OF b q]
      by (intro kbase_dev_list [OF b]) (auto simp: k0_def dev_upd_def)
    moreover have "A(DQ \<mapsto> ds) = A" using q by (simp add: fun_upd_idem)
    ultimately show ?thesis by simp
  qed
  moreover have "opss k2 ops = ?z" using h2 by simp
  ultimately show ?thesis using reg b1 dev1 by auto
qed

lemma device_unregister_no_ops:
  "dev_ops (devices k d) = None \<Longrightarrow> device_unregister (Some d) k = None"
  by (simp add: device_unregister_def ops_init_def)

end
