(* ===== verification/FosBoot.thy ===== *)
theory FosBoot
  imports FosSem FosMutex FosMsgq FosTimer FosDevice
begin

text \<open>
  \<^verbatim>\<open>app/system_start.c\<close> and the initialisation of the application
  (\<^verbatim>\<open>app/app_start.c\<close>), the shell and the uIP thread: from the zeroed memory of the boot
  loader to the first task. The task control blocks are numbered in the order they are created:
  0 is \<^verbatim>\<open>idle_tcb\<close>, 1 \<^verbatim>\<open>tcb_shell\<close>, 2 \<^verbatim>\<open>tcb_uip\<close>, 3 and 4 are \<^verbatim>\<open>tcb1\<close> and
  \<^verbatim>\<open>tcb2\<close>; a stack has the number of its task. Hardware initialisation changes no kernel
  data. The three switches \<^verbatim>\<open>sem_test\<close>, \<^verbatim>\<open>mutex_test\<close> and \<^verbatim>\<open>msg_queue_test\<close>
  of the application are arguments.
\<close>

subsection \<open>Start-up code\<close>

abbreviation (input) "STACK_SIZE \<equiv> (4096 :: u32)"

definition system_init :: "kst \<Rightarrow> kst option" where
  "system_init k = do {
     let k = prio_ready_queue_init k;
     let k = tick_queue_init k;
     let k = device_queue_init k;
     let k = k\<lparr>old_task := None\<rparr>;
     (_, k) \<leftarrow> task_create (Some (Tcb 0)) (Some ''idle_task'') (Some IdleTask) 0 (Some 0)
       IDLE_STACK_SIZE 31 1 k;
     Some k
   }"

text \<open>The kernel part of \<^verbatim>\<open>shell_init\<close>; its symbol table is in theory \<open>FosShell\<close>.\<close>

definition shell_task_init :: "kst \<Rightarrow> kst option" where
  "shell_task_init k = do {
     (_, k) \<leftarrow> task_create (Some (Tcb 1)) (Some ''shell_task'') (Some ShellThread) 0 (Some 1)
       STACK_SIZE 30 1 k;
     Some k
   }"

definition uip_thread_init :: "kst \<Rightarrow> (int \<times> kst) option" where
  "uip_thread_init k = do {
     (_, k) \<leftarrow> task_create (Some (Tcb 2)) (Some ''uip_task'') (Some UipThread) 0 (Some 2)
       STACK_SIZE 29 1 k;
     Some (0, k)
   }"

definition str_bytes :: "string \<Rightarrow> u8 list" where
  "str_bytes s = map (\<lambda>c. of_char c) s @ [0]"

definition set_msg :: "nat \<times> string \<Rightarrow> kst \<Rightarrow> kst" where
  "set_msg p k = k\<lparr>msgs := (msgs k)(fst p := msg_buff_update (\<lambda>_. Some (str_bytes (snd p))) (msgs k (fst p)))\<rparr>"

definition app_main :: "bool \<Rightarrow> bool \<Rightarrow> bool \<Rightarrow> kst \<Rightarrow> kst option" where
  "app_main sem_test mutex_test msg_queue_test k = do {
     k \<leftarrow> (if sem_test then map_option snd (sem_init (Some 0) (Some ''sem1'') 1 k) else Some k);
     k \<leftarrow> (if mutex_test then map_option snd (mutex_init (Some 0) (Some ''mutex1'') k) else Some k);
     k \<leftarrow> (if msg_queue_test then do {
            (_, k) \<leftarrow> msg_queue_create (Some 0) 2 (Some ''queue'') k;
            (_, k) \<leftarrow> msg_queue_create (Some 1) 1 (Some ''queue1'') k;
            (_, k) \<leftarrow> msg_queue_create (Some 2) 1 (Some ''queue2'') k;
            Some (fold set_msg [(1, ''1aaa''), (2, ''2bbb''), (3, ''3ccc''), (4, ''4aaa''), (5, ''5bbb''),
              (6, ''6ccc''), (7, ''7aaa''), (8, ''8bbb''), (9, ''9ccc'')] k)
          } else Some k);
     (_, k) \<leftarrow> task_create (Some (Tcb 3)) (Some ''task1'') (Some (AppTask 1)) 0 (Some 3) STACK_SIZE 3 1 k;
     (_, k) \<leftarrow> task_create (Some (Tcb 4)) (Some ''task2'') (Some (AppTask 2)) 0 (Some 4) STACK_SIZE 4 1 k;
     Some k
   }"

definition fos_main :: "bool \<Rightarrow> bool \<Rightarrow> bool \<Rightarrow> kst \<Rightarrow> kst option" where
  "fos_main sem_test mutex_test msg_queue_test k = do {
     k \<leftarrow> system_init k;
     k \<leftarrow> shell_task_init k;
     (_, k) \<leftarrow> uip_thread_init k;
     k \<leftarrow> app_main sem_test mutex_test msg_queue_test k;
     (result, k) \<leftarrow> start_which_task (Some (Tcb 0)) k;
     guard (result \<noteq> 0);
     Some k
   }"

subsection \<open>The empty lists\<close>

definition nil_lists :: "klink set \<Rightarrow> klink lists" where
  "nil_lists Q = (\<lambda>q. if q \<in> Q then Some [] else None)"

lemma nil_lists_upd: "(nil_lists Q)(q \<mapsto> []) = nil_lists (insert q Q)"
  by (auto simp: nil_lists_def)

lemma not_member_nil: "not_member (nil_lists Q) q"
  by (auto simp: not_member_def nil_lists_def)

lemma krep_nil_init: "krep k (nil_lists Q) \<Longrightarrow> krep (klist_init q k) (nil_lists (insert q Q))"
  using kl.init_law [OF _ not_member_nil] by (simp add: nil_lists_upd)

lemma krep_bss: "heap k = heap bss_state \<Longrightarrow> krep k (nil_lists {})"
  by (simp add: krep_def store_rep_def nil_lists_def)

lemma krep_ready_init:
  "krep k (nil_lists Q) \<Longrightarrow>
    krep (fold (\<lambda>i. klist_init (RQ i)) [0..<n] k) (nil_lists (RQ ` {..<n} \<union> Q))"
  by (induction n) (auto simp: lessThan_Suc dest: krep_nil_init)

lemma same_but_heap_trans:
  assumes "same_but_heap a b" "same_but_heap b c"
  shows "same_but_heap a c"
proof -
  have "c = b\<lparr>heap := heap c\<rparr>" using assms(2) by (simp add: same_but_heap_def)
  also have "... = (a\<lparr>heap := heap b\<rparr>)\<lparr>heap := heap c\<rparr>"
    using assms(1) by (metis same_but_heap_def)
  finally show ?thesis by (simp add: same_but_heap_def)
qed

lemma fold_klist_init_frame: "same_but_heap k (fold (\<lambda>i. klist_init (RQ i)) xs k)"
proof (induction xs arbitrary: k)
  case Nil
  then show ?case by (simp add: same_but_heap_def)
next
  case (Cons x xs)
  have "same_but_heap (klist_init (RQ x) k) (fold (\<lambda>i. klist_init (RQ i)) (x # xs) k)"
    using Cons by simp
  then show ?case by (rule same_but_heap_trans [OF klist_frame(4)])
qed

text \<open>The lists after the queue heads are initialised.\<close>

definition boot_heads :: "klink lists" where
  "boot_heads = nil_lists (insert DQ (insert TQ (RQ ` {..<32})))"

definition boot_queues :: "kst \<Rightarrow> kst" where
  "boot_queues k = (device_queue_init (tick_queue_init (prio_ready_queue_init k)))\<lparr>old_task := None\<rparr>"

lemma boot_heads_RQ: "boot_heads (RQ p) = (if p < 32 then Some [] else None)"
  by (auto simp: boot_heads_def nil_lists_def)

lemma boot_heads_ready [simp]: "ready boot_heads p = []"
  by (simp add: ready_def boot_heads_RQ)

lemma boot_heads_members [simp]: "members boot_heads = {}"
  by (auto simp: members_iff boot_heads_def nil_lists_def split: if_splits)

lemma boot_queues_kbase: "kbase (boot_queues bss_state) boot_heads"
proof -
  let ?k1 = "fold (\<lambda>i. klist_init (RQ i)) [0..<32] bss_state"
  have h: "same_but_heap bss_state ?k1" by (rule fold_klist_init_frame)
  note f = same_but_heap_sel [OF h]
  have "krep ?k1 (nil_lists (RQ ` {..<32} \<union> {}))" by (rule krep_ready_init) (rule krep_bss, simp)
  then have "krep (klist_init TQ ?k1) (nil_lists (insert TQ (RQ ` {..<32})))"
    by (auto dest: krep_nil_init)
  then have "krep (klist_init DQ (klist_init TQ ?k1)) boot_heads"
    unfolding boot_heads_def by (rule krep_nil_init)
  then have r: "krep (boot_queues bss_state) boot_heads"
    using f by (simp add: boot_queues_def device_queue_init_def tick_queue_init_def
        prio_ready_queue_init_def Let_def krep_def klist_init_def bss_state_def del: upt_rec_numeral)
  have bm: "bm_y (boot_queues bss_state) = 0" "bm_c (boot_queues bss_state) = replicate 8 0"
    using f by (simp_all add: boot_queues_def device_queue_init_def tick_queue_init_def
        prio_ready_queue_init_def Let_def klist_init_def bss_state_def del: upt_rec_numeral)
  have "ready_set boot_heads = {}" by (simp add: ready_set_def)
  then have "sched_inv (boot_queues bss_state) boot_heads"
    using r bitmap_ok_empty [OF bm] by (simp add: sched_inv_def boot_heads_RQ)
  moreover have "list_ok k boot_heads q xs" if "boot_heads q = Some xs" for k q xs
    using that by (auto simp: boot_heads_def nil_lists_def split: if_splits)
  ultimately show ?thesis by (simp add: kbase_def boot_heads_def nil_lists_def)
qed

subsection \<open>The start-up stages\<close>

text \<open>What every stage keeps; \<open>ns\<close> are the tasks created so far.\<close>

definition stage :: "kst \<Rightarrow> klink lists \<Rightarrow> nat set \<Rightarrow> bool" where
  "stage k A ns \<longleftrightarrow> kbase k A \<and> tasks_of A = ns \<and> schedule_is_lock k = 0 \<and>
     ticks k = (\<lambda>_. zero_tick) \<and> (\<forall>m. copy_prio (mutexes k m) = 0)"

lemma stage_boot: "stage (boot_queues bss_state) boot_heads {}"
proof -
  let ?k1 = "fold (\<lambda>i. klist_init (RQ i)) [0..<32] bss_state"
  note f = same_but_heap_sel [OF fold_klist_init_frame, of "[0..<32]" bss_state]
  have "schedule_is_lock (boot_queues bss_state) = 0" "ticks (boot_queues bss_state) = (\<lambda>_. zero_tick)"
    "mutexes (boot_queues bss_state) = mutexes bss_state"
    using f by (simp_all add: boot_queues_def device_queue_init_def tick_queue_init_def
        prio_ready_queue_init_def Let_def klist_init_def bss_state_def del: upt_rec_numeral)
  then show ?thesis
    using boot_queues_kbase by (simp add: stage_def tasks_of_def bss_state_def)
qed

lemma stage_task_create:
  assumes "stage k A ns" "n \<notin> ns" "160 \<le> unat sz" "unat pr < 32"
  shows "\<exists>k'. task_create (Some (Tcb n)) name (Some f) arg (Some sid) sz pr st k = Some (TRUE, k') \<and>
    stage k' (A(RQ (unat pr) \<mapsto> ready A (unat pr) @ [TL n])) (insert n ns) \<and>
    sems k' = sems k \<and> mutexes k' = mutexes k \<and> queues k' = queues k \<and> msgs k' = msgs k"
proof -
  have "off_lists A n" using assms(1,2) by (simp add: stage_def off_lists_def)
  moreover have "kbase k A" using assms(1) by (simp add: stage_def)
  ultimately obtain k' where k': "task_create (Some (Tcb n)) name (Some f) arg (Some sid) sz pr st k =
      Some (TRUE, k')" "kbase k' (A(RQ (unat pr) \<mapsto> ready A (unat pr) @ [TL n]))"
    "tasks_of (A(RQ (unat pr) \<mapsto> ready A (unat pr) @ [TL n])) = insert n (tasks_of A)"
    "same_but_ready (k\<lparr>tcbs := tcbs k', stk := stk k'\<rparr>) k'"
    using task_create_ok [OF _ _ assms(3,4)] by blast
  then show ?thesis using assms(1) by (auto simp: stage_def same_but_ready_def)
qed

lemma tasks_of_new_list: "A q = None \<Longrightarrow> tasks_of (A(q \<mapsto> [])) = tasks_of A"
  by (simp add: tasks_of_def members_upd fun_upd_idem)

lemma stage_sem:
  assumes "stage k A ns" "A (SemL s) = None"
  shows "\<exists>k'. sem_init (Some s) name n k = Some (TRUE, k') \<and> stage k' (A(SemL s \<mapsto> [])) ns \<and>
    sem_count (sems k' s) = n \<and> mutexes k' = mutexes k \<and> queues k' = queues k"
proof -
  obtain k' where k': "sem_init (Some s) name n k = Some (TRUE, k')" "kbase k' (A(SemL s \<mapsto> []))"
    "sem_view k' (A(SemL s \<mapsto> [])) s = Some (unat n, [])" "same_but_heap (k\<lparr>sems := sems k'\<rparr>) k'"
    using sem_init_ok assms(1) unfolding stage_def by blast
  have "sem_count (sems k' s) = n" using k'(3) by (simp add: sem_view_Some word_unat_eq_iff)
  then show ?thesis
    using k' assms same_but_heap_sel [OF k'(4)] by (simp add: stage_def tasks_of_new_list)
qed

lemma stage_mutex:
  assumes "stage k A ns" "A (MutexL m) = None"
  shows "\<exists>k'. mutex_init (Some m) name k = Some (TRUE, k') \<and> stage k' (A(MutexL m \<mapsto> [])) ns \<and>
    enable (mutexes k' m) = 1 \<and> sems k' = sems k \<and> queues k' = queues k"
proof -
  let ?k = "mutex_upd m (enable_update (\<lambda>_. 1)) (mutex_upd m (mutex_name_update (\<lambda>_. name))
      (klist_init (MutexL m) k))"
  have b: "kbase k A" and c: "copy_prio (mutexes k m) = 0" using assms(1) by (simp_all add: stage_def)
  have "mutex_init (Some m) name k = Some (TRUE, ?k)"
    by (simp add: mutex_init_def mutex_block_queue_init_def)
  moreover have "kbase ?k (A(MutexL m \<mapsto> []))"
    using mutex_init_ok [OF b, of m name] c by (simp add: mutex_init_def mutex_block_queue_init_def)
  ultimately show ?thesis
    using assms by (simp add: stage_def tasks_of_new_list mutex_upd_def klist_init_def)
qed

lemma stage_queue:
  assumes "stage k A ns" "A (QueueL i) = None" "A (QMsgL i) = None" "len \<noteq> 0"
  shows "\<exists>k'. msg_queue_create (Some i) len name k = Some (TRUE, k') \<and>
    stage k' (A(QueueL i \<mapsto> [], QMsgL i \<mapsto> [])) ns \<and> q_length (queues k' i) = len \<and>
    (\<forall>j. j \<noteq> i \<longrightarrow> queues k' j = queues k j) \<and> sems k' = sems k \<and> mutexes k' = mutexes k"
proof -
  let ?k = "interrupt_enable (sr k) (queue_upd i (q_name_update (\<lambda>_. name))
      (queue_upd i (q_count_update (\<lambda>_. 0)) (queue_upd i (q_length_update (\<lambda>_. len))
      (klist_init (QMsgL i) (klist_init (QueueL i) (snd (interrupt_disable k)))))))"
  have e: "msg_queue_create (Some i) len name k = Some (TRUE, ?k)"
    using assms(4) by (simp add: msg_queue_create_def msg_block_queue_init_def interrupt_disable_def)
  have "kbase ?k (A(QueueL i \<mapsto> [], QMsgL i \<mapsto> []))"
    using msg_queue_create_ok [of k A len i name] assms(1,4) e by (simp add: stage_def)
  then show ?thesis
    using e assms(1-3)
    by (simp add: stage_def tasks_of_new_list queue_upd_def klist_init_def interrupt_enable_def
        interrupt_disable_def)
qed

subsection \<open>The booted system\<close>

text \<open>The lists after \<^verbatim>\<open>main\<close>, for the three switches of the application.\<close>

definition boot_tasks :: "klink lists" where
  "boot_tasks = boot_heads(RQ 31 \<mapsto> [TL 0], RQ 30 \<mapsto> [TL 1], RQ 29 \<mapsto> [TL 2])"

definition boot_lists :: "bool \<Rightarrow> bool \<Rightarrow> bool \<Rightarrow> klink lists" where
  "boot_lists s m q =
     (let A = boot_tasks;
          A = (if s then A(SemL 0 \<mapsto> []) else A);
          A = (if m then A(MutexL 0 \<mapsto> []) else A);
          A = (if q then A(QueueL 0 \<mapsto> [], QMsgL 0 \<mapsto> [], QueueL 1 \<mapsto> [], QMsgL 1 \<mapsto> [],
                 QueueL 2 \<mapsto> [], QMsgL 2 \<mapsto> []) else A)
      in A(RQ 3 \<mapsto> [TL 3], RQ 4 \<mapsto> [TL 4]))"

lemma system_start_stages:
  "\<exists>k1 k2 k3. system_init bss_state = Some k1 \<and> shell_task_init k1 = Some k2 \<and>
    uip_thread_init k2 = Some (0, k3) \<and> stage k3 boot_tasks {0, 1, 2}"
proof -
  obtain k1 where k1: "task_create (Some (Tcb 0)) (Some ''idle_task'') (Some IdleTask) 0 (Some 0)
      4096 31 1 (boot_queues bss_state) = Some (TRUE, k1)"
    "stage k1 (boot_heads(RQ 31 \<mapsto> [TL 0])) {0}"
    using stage_task_create [OF stage_boot, where n = 0 and sz = 4096 and pr = 31 and name = "Some ''idle_task''" and f = IdleTask
      and arg = 0 and sid = 0 and st = 1] by auto
  obtain k2 where k2: "task_create (Some (Tcb 1)) (Some ''shell_task'') (Some ShellThread) 0 (Some 1)
      4096 30 1 k1 = Some (TRUE, k2)" "stage k2 (boot_heads(RQ 31 \<mapsto> [TL 0], RQ 30 \<mapsto> [TL 1])) {0, 1}"
    using stage_task_create [OF k1(2), where n = 1 and sz = 4096 and pr = 30 and name = "Some ''shell_task''" and f = ShellThread
      and arg = 0 and sid = 1 and st = 1] by (auto simp: insert_commute)
  obtain k3 where k3: "task_create (Some (Tcb 2)) (Some ''uip_task'') (Some UipThread) 0 (Some 2)
      4096 29 1 k2 = Some (TRUE, k3)" "stage k3 boot_tasks {0, 1, 2}"
    using stage_task_create [OF k2(2), where n = 2 and sz = 4096 and pr = 29 and name = "Some ''uip_task''" and f = UipThread
      and arg = 0 and sid = 2 and st = 1] by (auto simp: insert_commute boot_tasks_def)
  show ?thesis
    using k1 k2 k3 by (simp add: system_init_def shell_task_init_def uip_thread_init_def boot_queues_def Let_def)
qed

lemma app_objects:
  assumes "stage k boot_tasks {0, 1, 2}"
  defines "B \<equiv> (\<lambda>s m. let A = boot_tasks; A = (if s then A(SemL 0 \<mapsto> []) else A)
      in if m then A(MutexL 0 \<mapsto> []) else A)"
  defines "C \<equiv> (\<lambda>s m q. if q then (B s m)(QueueL 0 \<mapsto> [], QMsgL 0 \<mapsto> [], QueueL 1 \<mapsto> [], QMsgL 1 \<mapsto> [],
      QueueL 2 \<mapsto> [], QMsgL 2 \<mapsto> []) else B s m)"
  shows "\<exists>k1 k2 k3. (if s then map_option snd (sem_init (Some 0) (Some ''sem1'') 1 k) else Some k) = Some k1 \<and>
    (if m then map_option snd (mutex_init (Some 0) (Some ''mutex1'') k1) else Some k1) = Some k2 \<and>
    (if q then do {
            (_, k) \<leftarrow> msg_queue_create (Some 0) 2 (Some ''queue'') k2;
            (_, k) \<leftarrow> msg_queue_create (Some 1) 1 (Some ''queue1'') k;
            (_, k) \<leftarrow> msg_queue_create (Some 2) 1 (Some ''queue2'') k;
            Some (fold set_msg [(1, ''1aaa''), (2, ''2bbb''), (3, ''3ccc''), (4, ''4aaa''), (5, ''5bbb''),
              (6, ''6ccc''), (7, ''7aaa''), (8, ''8bbb''), (9, ''9ccc'')] k)
          } else Some k2) = Some k3 \<and> stage k3 (C s m q) {0, 1, 2} \<and>
    (s \<longrightarrow> sem_count (sems k3 0) = 1) \<and> (m \<longrightarrow> enable (mutexes k3 0) = 1) \<and>
    (q \<longrightarrow> q_length (queues k3 0) = 2 \<and> msg_buff (msgs k3 1) = Some (str_bytes ''1aaa''))"
proof -
  have fresh: "boot_tasks (SemL i) = None" "boot_tasks (MutexL i) = None" "boot_tasks (QueueL i) = None"
    "boot_tasks (QMsgL i) = None" for i
    by (auto simp: boot_tasks_def boot_heads_def nil_lists_def)
  obtain k1 where k1: "(if s then map_option snd (sem_init (Some 0) (Some ''sem1'') 1 k) else Some k) = Some k1"
    "stage k1 (if s then boot_tasks(SemL 0 \<mapsto> []) else boot_tasks) {0, 1, 2}"
    "s \<longrightarrow> sem_count (sems k1 0) = 1"
    using stage_sem [OF assms(1) fresh(1), of 0 "Some ''sem1''" 1] assms(1) by (cases s) auto
  have "(if s then boot_tasks(SemL 0 \<mapsto> []) else boot_tasks) (MutexL 0) = None" by (simp add: fresh)
  note sm = stage_mutex [OF k1(2) this, of "Some ''mutex1''"]
  obtain k2 where k2: "(if m then map_option snd (mutex_init (Some 0) (Some ''mutex1'') k1) else Some k1) = Some k2"
    "stage k2 (B s m) {0, 1, 2}" "m \<longrightarrow> enable (mutexes k2 0) = 1" "sems k2 = sems k1"
    using sm k1(2) by (cases m) (auto simp: B_def Let_def)
  have fB: "B s m (QueueL i) = None" "B s m (QMsgL i) = None" for i
    by (auto simp: B_def Let_def fresh)
  show ?thesis
  proof (cases q)
    case False
    then show ?thesis using k1 k2 by (auto simp: C_def)
  next
    case True
    let ?B0 = "(B s m)(QueueL 0 \<mapsto> [], QMsgL 0 \<mapsto> [])"
    let ?B1 = "?B0(QueueL 1 \<mapsto> [], QMsgL 1 \<mapsto> [])"
    obtain q0 where q0: "msg_queue_create (Some 0) 2 (Some ''queue'') k2 = Some (TRUE, q0)"
      "stage q0 ?B0 {0, 1, 2}" "q_length (queues q0 0) = 2" "sems q0 = sems k2" "mutexes q0 = mutexes k2"
      using stage_queue [OF k2(2) fB, where i = 0 and len = 2 and name = "Some ''queue''"] by auto
    obtain q1 where q1: "msg_queue_create (Some 1) 1 (Some ''queue1'') q0 = Some (TRUE, q1)"
      "stage q1 ?B1 {0, 1, 2}" "queues q1 0 = queues q0 0" "sems q1 = sems q0" "mutexes q1 = mutexes q0"
      using stage_queue [OF q0(2), where i = 1 and len = 1 and name = "Some ''queue1''"] fB by auto
    obtain q2 where q2: "msg_queue_create (Some 2) 1 (Some ''queue2'') q1 = Some (TRUE, q2)"
      "stage q2 (?B1(QueueL 2 \<mapsto> [], QMsgL 2 \<mapsto> [])) {0, 1, 2}" "queues q2 0 = queues q1 0"
      "sems q2 = sems q1" "mutexes q2 = mutexes q1"
      using stage_queue [OF q1(2), where i = 2 and len = 1 and name = "Some ''queue2''"] fB by auto
    let ?k3 = "fold set_msg [(1, ''1aaa''), (2, ''2bbb''), (3, ''3ccc''), (4, ''4aaa''), (5, ''5bbb''),
              (6, ''6ccc''), (7, ''7aaa''), (8, ''8bbb''), (9, ''9ccc'')] q2"
    have "kbase ?k3 X = kbase q2 X" for X
      by (rule iffI; rule kbase_cong, assumption; simp add: set_msg_def)
    then have "stage ?k3 (C s m q) {0, 1, 2}"
      using q2(2) True by (simp add: stage_def C_def set_msg_def)
    moreover have "msg_buff (msgs ?k3 1) = Some (str_bytes ''1aaa'')" by (simp add: set_msg_def)
    moreover have "sems ?k3 = sems k1" "mutexes ?k3 = mutexes k2" "queues ?k3 0 = queues q0 0"
      using q2 q1 q0 k2 by (simp_all add: set_msg_def)
    ultimately show ?thesis
      using True k1 k2 q0 q1 q2 by (intro exI [of _ k1] exI [of _ k2] exI [of _ ?k3]) simp
  qed
qed

lemma boot_lists_simps [simp]:
  "boot_lists s m q (SemL 0) = (if s then Some [] else None)"
  "boot_lists s m q (MutexL 0) = (if m then Some [] else None)"
  "boot_lists s m q (QueueL 0) = (if q then Some [] else None)"
  "boot_lists s m q (QMsgL 0) = (if q then Some [] else None)"
  "boot_lists s m q TQ = Some []" "boot_lists s m q DQ = Some []"
  "boot_lists s m q (MsgL i) = None" "boot_lists s m q (TickL (Timer i)) = None"
  "boot_lists s m q (DevL (Dev i)) = None"
  by (auto simp: boot_lists_def Let_def boot_tasks_def boot_heads_def nil_lists_def)

lemma boot_lists_ready:
  "ready (boot_lists s m q) 31 = [TL 0]" "ready (boot_lists s m q) 3 = [TL 3]"
  by (simp_all add: boot_lists_def Let_def boot_tasks_def)

lemma boot_lists_members: "members (boot_lists s m q) = {TL 0, TL 1, TL 2, TL 3, TL 4}"
proof -
  have "x \<in> members (boot_lists s m q) \<longleftrightarrow> x \<in> {TL 0, TL 1, TL 2, TL 3, TL 4}" for x
  proof
    assume "x \<in> members (boot_lists s m q)"
    then obtain r xs where "boot_lists s m q r = Some xs" "x \<in> set xs" by (auto simp: members_iff)
    then show "x \<in> {TL 0, TL 1, TL 2, TL 3, TL 4}"
      by (auto simp: boot_lists_def Let_def boot_tasks_def boot_heads_def nil_lists_def
          split: if_splits)
  next
    have r: "ready (boot_lists s m q) 31 = [TL 0]" "ready (boot_lists s m q) 30 = [TL 1]"
      "ready (boot_lists s m q) 29 = [TL 2]" "ready (boot_lists s m q) 3 = [TL 3]"
      "ready (boot_lists s m q) 4 = [TL 4]"
      by (simp_all add: boot_lists_def Let_def boot_tasks_def)
    assume "x \<in> {TL 0, TL 1, TL 2, TL 3, TL 4}"
    then show "x \<in> members (boot_lists s m q)"
      using ready_members [of x "boot_lists s m q" 31] ready_members [of x "boot_lists s m q" 30]
        ready_members [of x "boot_lists s m q" 29] ready_members [of x "boot_lists s m q" 3]
        ready_members [of x "boot_lists s m q" 4] r by auto
  qed
  then show ?thesis by blast
qed

text \<open>\<^verbatim>\<open>main\<close> ends in the idle task, with the invariant and the objects asked for.\<close>

lemma fos_main_boots:
  "\<exists>k. fos_main s m q bss_state = Some k \<and> kinv k (boot_lists s m q) \<and>
    running k (boot_lists s m q) 0 \<and> tasks_of (boot_lists s m q) = {0, 1, 2, 3, 4} \<and>
    schedule_is_lock k = 0 \<and>
    (s \<longrightarrow> sem_view k (boot_lists s m q) 0 = Some (1, [])) \<and>
    (m \<longrightarrow> mutex_view k (boot_lists s m q) 0 = Some (True, [])) \<and>
    (q \<longrightarrow> msgq_view k (boot_lists s m q) 0 = Some (2, [], []) \<and>
       msg_buff (msgs k 1) = Some (str_bytes ''1aaa''))"
proof -
  obtain k1 k2 k3 where start: "system_init bss_state = Some k1" "shell_task_init k1 = Some k2"
    "uip_thread_init k2 = Some (0, k3)" "stage k3 boot_tasks {0, 1, 2}"
    using system_start_stages by blast
  let ?B = "let A = boot_tasks; A = (if s then A(SemL 0 \<mapsto> []) else A)
      in if m then A(MutexL 0 \<mapsto> []) else A"
  let ?C = "if q then ?B(QueueL 0 \<mapsto> [], QMsgL 0 \<mapsto> [], QueueL 1 \<mapsto> [], QMsgL 1 \<mapsto> [],
      QueueL 2 \<mapsto> [], QMsgL 2 \<mapsto> []) else ?B"
  obtain a1 a2 a3 where a: "(if s then map_option snd (sem_init (Some 0) (Some ''sem1'') 1 k3) else Some k3) = Some a1"
    "(if m then map_option snd (mutex_init (Some 0) (Some ''mutex1'') a1) else Some a1) = Some a2"
    "(if q then do {
            (_, k) \<leftarrow> msg_queue_create (Some 0) 2 (Some ''queue'') a2;
            (_, k) \<leftarrow> msg_queue_create (Some 1) 1 (Some ''queue1'') k;
            (_, k) \<leftarrow> msg_queue_create (Some 2) 1 (Some ''queue2'') k;
            Some (fold set_msg [(1, ''1aaa''), (2, ''2bbb''), (3, ''3ccc''), (4, ''4aaa''), (5, ''5bbb''),
              (6, ''6ccc''), (7, ''7aaa''), (8, ''8bbb''), (9, ''9ccc'')] k)
          } else Some a2) = Some a3"
    "stage a3 ?C {0, 1, 2}" "s \<longrightarrow> sem_count (sems a3 0) = 1" "m \<longrightarrow> enable (mutexes a3 0) = 1"
    "q \<longrightarrow> q_length (queues a3 0) = 2 \<and> msg_buff (msgs a3 1) = Some (str_bytes ''1aaa'')"
    using app_objects [OF start(4), of s m q] by (elim exE conjE) (rule that)
  have rC: "ready ?C 3 = []" "ready (?C(RQ 3 \<mapsto> [TL 3])) 4 = []"
    by (simp_all add: Let_def boot_tasks_def)
  obtain b1 where b1: "task_create (Some (Tcb 3)) (Some ''task1'') (Some (AppTask 1)) 0 (Some 3) 4096 3 1 a3 =
      Some (TRUE, b1)" "stage b1 (?C(RQ 3 \<mapsto> [TL 3])) {0, 1, 2, 3}" "sems b1 = sems a3"
    "mutexes b1 = mutexes a3" "queues b1 = queues a3" "msgs b1 = msgs a3"
    using stage_task_create [OF a(4), where n = 3 and sz = 4096 and pr = 3 and name = "Some ''task1''"
        and f = "AppTask 1" and arg = 0 and sid = 3 and st = 1] rC(1)
    by (auto simp: insert_commute simp del: fun_upd_apply)
  obtain b2 where b2: "task_create (Some (Tcb 4)) (Some ''task2'') (Some (AppTask 2)) 0 (Some 4) 4096 4 1 b1 =
      Some (TRUE, b2)" "stage b2 (boot_lists s m q) {0, 1, 2, 3, 4}" "sems b2 = sems a3"
    "mutexes b2 = mutexes a3" "queues b2 = queues a3" "msgs b2 = msgs a3"
  proof -
    have "(?C(RQ 3 \<mapsto> [TL 3]))(RQ 4 \<mapsto> [TL 4]) = boot_lists s m q"
      by (simp add: boot_lists_def Let_def)
    with stage_task_create [OF b1(2), where n = 4 and sz = 4096 and pr = 4 and name = "Some ''task2''"
        and f = "AppTask 2" and arg = 0 and sid = 4 and st = 1] rC(2) b1 that
    show thesis by (auto simp: insert_commute simp del: fun_upd_apply)
  qed
  have kb: "kbase b2 (boot_lists s m q)" using b2(2) by (simp add: stage_def)
  have "live b2 (TL 0)" using kbase_ready_live [OF kb, of "TL 0" 31] by (simp add: boot_lists_ready)
  then have sp: "stack_ptr (tcbs b2 (Tcb 0)) \<noteq> None" by (simp add: live_def)
  have pr: "unat (prio (tcbs b2 (Tcb 0))) = 31"
    using sched_inv_task_at [OF kbase_sched [OF kb], of 31 "TL 0"]
    by (simp add: boot_lists_ready task_at_def)
  let ?k = "b2\<lparr>new_task := Some (Tcb 0), switches := switches b2 @ [(None, Tcb 0)]\<rparr>"
  have "fos_main s m q bss_state = Some ?k"
    using start a(1-3) b1(1) b2(1) sp
    by (simp add: fos_main_def app_main_def start_which_task_def start_schedule_def)
  moreover have "kbase ?k (boot_lists s m q)" by (rule kbase_cong [OF kb]) auto
  moreover have "running ?k (boot_lists s m q) 0" using pr by (simp add: running_def boot_lists_ready)
  ultimately show ?thesis
    using a(5-7) b2
    by (intro exI [of _ ?k])
      (auto simp: kinv_def stage_def sem_view_Some mutex_view_Some msgq_view_Some)
qed

text \<open>C33: started from zeroed memory, \<^verbatim>\<open>main\<close> reaches the idle task with the kernel invariant
  established, its five tasks on the ready queues, the scheduler unlocked, and each of the
  application's objects in its initial state, for all settings of the test switches.\<close>

theorem fos_main_establishes:
  "\<exists>k. fos_main s m q bss_state = Some k \<and> kinv k (boot_lists s m q) \<and>
    running k (boot_lists s m q) 0 \<and> tasks_of (boot_lists s m q) = {0, 1, 2, 3, 4} \<and>
    schedule_is_lock k = 0 \<and>
    (s \<longrightarrow> sem_view k (boot_lists s m q) 0 = Some (1, [])) \<and>
    (m \<longrightarrow> mutex_view k (boot_lists s m q) 0 = Some (True, [])) \<and>
    (q \<longrightarrow> msgq_view k (boot_lists s m q) 0 = Some (2, [], []))"
  using fos_main_boots [of s m q] by blast

subsection \<open>A sample state\<close>

text \<open>The state after \<^verbatim>\<open>main\<close> with all objects, in which the idle task runs; the witnesses of
  the kernel theorems use it.\<close>

definition boot_state :: kst where
  "boot_state = the (fos_main True True True bss_state)"

abbreviation "demo_lists \<equiv> boot_lists True True True"

lemma boot_state_facts:
  "kinv boot_state demo_lists" "running boot_state demo_lists 0" "schedule_is_lock boot_state \<noteq> TRUE"
  "sem_view boot_state demo_lists 0 = Some (1, [])"
  "mutex_view boot_state demo_lists 0 = Some (True, [])"
  "msgq_view boot_state demo_lists 0 = Some (2, [], [])"
  "msg_buff (msgs boot_state 1) = Some (str_bytes ''1aaa'')"
  using fos_main_boots [of True True True] unfolding boot_state_def by auto

lemma boot_others_ready: "others_ready demo_lists 0"
  unfolding others_ready_def using boot_lists_ready(2) [of True True True]
  by (intro exI [of _ 3]) simp

lemma boot_unthreaded:
  "unthreaded demo_lists (MsgL i)" "unthreaded demo_lists (TickL (Timer j))"
  "unthreaded demo_lists (DevL (Dev d))"
  by (simp_all add: unthreaded_iff boot_lists_members)

end
