(* ===== verification/FosKernel.thy ===== *)
theory FosKernel
  imports FosBoot
begin

text \<open>
  The kernel as a state machine: the running task makes system calls, the timer interrupt comes
  at any moment between them. A step is one whole call, since a call runs with interrupts
  disabled until it reschedules. The invariant of the single operations is carried over to
  every state a booted system can reach, and no step of it can fault.
\<close>

subsection \<open>Steps\<close>

text \<open>The system calls of a task, on the objects of the application.\<close>

datatype call =
    Sem_get nat | Sem_put nat | Mutex_get nat | Mutex_put nat
  | Msg_put nat nat u8 | Msg_get nat "u8 list"
  | Os_delay u32 | Prio_change u32 | Timer_req nat nat u32 u8 nat | Yield

definition run_call :: "call \<Rightarrow> kst \<Rightarrow> kst option" where
  "run_call cl k = (case cl of
     Sem_get s \<Rightarrow> map_option snd (sem_get (Some s) k)
   | Sem_put s \<Rightarrow> map_option snd (sem_put (Some s) k)
   | Mutex_get m \<Rightarrow> map_option snd (mutex_get (Some m) k)
   | Mutex_put m \<Rightarrow> map_option snd (mutex_put (Some m) k)
   | Msg_put i m mthd \<Rightarrow> map_option snd (msg_put (Some i) (Some m) mthd k)
   | Msg_get i buf \<Rightarrow> map_option (\<lambda>r. snd (snd r)) (msg_get (Some i) (Some buf) k)
   | Os_delay n \<Rightarrow> os_delay n k
   | Prio_change pr \<Rightarrow> map_option snd (task_prio_change (new_task k) pr k)
   | Timer_req i f tmo per arg \<Rightarrow> timer_req (Some (Timer i)) (Some f) tmo per arg k
   | Yield \<Rightarrow> schedule k)"

text \<open>The initialised objects.\<close>

record objs =
  o_sems :: "nat set"
  o_mutexes :: "nat set"
  o_queues :: "nat set"

text \<open>A node hangs on the list of \<open>q\<close> when the \<^verbatim>\<open>next\<close> pointers lead from \<open>q\<close> to it.\<close>

inductive hangs_on :: "kst \<Rightarrow> klink \<Rightarrow> klink \<Rightarrow> bool" for k q where
  hangs_first: "knext k q = Some x \<Longrightarrow> hangs_on k q x"
| hangs_next: "hangs_on k q x \<Longrightarrow> knext k x = Some y \<Longrightarrow> hangs_on k q y"

fun blocking :: "call \<Rightarrow> bool" where
  "blocking (Sem_get _) = True"
| "blocking (Mutex_get _) = True"
| "blocking (Msg_get _ _) = True"
| "blocking (Os_delay _) = True"
| "blocking _ = False"

text \<open>What the kernel expects of its caller: initialised objects; no message and no timer that is
  still queued; a message of at least the five bytes that \<^verbatim>\<open>msg_get\<close> copies, and room for
  them; no priority 32; and no blocking call by the idle task, which is task 0.\<close>

definition allowed :: "objs \<Rightarrow> nat \<Rightarrow> call \<Rightarrow> kst \<Rightarrow> bool" where
  "allowed ob c cl k \<longleftrightarrow> (blocking cl \<longrightarrow> c \<noteq> 0) \<and> (case cl of
     Sem_get s \<Rightarrow> s \<in> o_sems ob
   | Sem_put s \<Rightarrow> s \<in> o_sems ob
   | Mutex_get m \<Rightarrow> m \<in> o_mutexes ob
   | Mutex_put m \<Rightarrow> m \<in> o_mutexes ob
   | Msg_put i m mthd \<Rightarrow> i \<in> o_queues ob \<and> (\<forall>j \<in> o_queues ob. \<not> hangs_on k (QMsgL j) (MsgL m))
   | Msg_get i buf \<Rightarrow> i \<in> o_queues ob \<and> 5 \<le> length buf \<and>
       (\<forall>m. knext k (QMsgL i) = Some (MsgL m) \<longrightarrow> (\<exists>src. msg_buff (msgs k m) = Some src \<and> 5 \<le> length src))
   | Os_delay n \<Rightarrow> True
   | Prio_change pr \<Rightarrow> pr \<noteq> 32
   | Timer_req i f tmo per arg \<Rightarrow> \<not> hangs_on k TQ (TickL (Timer i))
   | Yield \<Rightarrow> True)"

inductive kstep :: "objs \<Rightarrow> (nat \<Rightarrow> nat \<Rightarrow> kst \<Rightarrow> kst option) \<Rightarrow> kst \<Rightarrow> kst \<Rightarrow> bool" for ob cb where
  kstep_call: "new_task k = Some (Tcb c) \<Longrightarrow> allowed ob c cl k \<Longrightarrow> run_call cl k = Some k' \<Longrightarrow> kstep ob cb k k'"
| kstep_tick: "hardware_timer cb k = Some k' \<Longrightarrow> kstep ob cb k k'"

inductive_cases kstepE: "kstep ob cb k k'"

inductive reachable :: "objs \<Rightarrow> (nat \<Rightarrow> nat \<Rightarrow> kst \<Rightarrow> kst option) \<Rightarrow> kst \<Rightarrow> kst \<Rightarrow> bool" for ob cb k0 where
  reach_start: "reachable ob cb k0 k0"
| reach_step: "reachable ob cb k0 k \<Longrightarrow> kstep ob cb k k' \<Longrightarrow> reachable ob cb k0 k'"

subsection \<open>The invariant of the system\<close>

definition on_ready :: "klink lists \<Rightarrow> nat \<Rightarrow> bool" where
  "on_ready A n \<longleftrightarrow> (\<exists>p. TL n \<in> set (ready A p))"

definition sys_lists :: "objs \<Rightarrow> nat set \<Rightarrow> kst \<Rightarrow> klink lists \<Rightarrow> bool" where
  "sys_lists ob ns k A \<longleftrightarrow> kinv k A \<and> schedule_is_lock k \<noteq> TRUE \<and> tasks_of A = ns \<and> on_ready A 0 \<and>
     SemL ` o_sems ob \<union> MutexL ` o_mutexes ob \<union> QueueL ` o_queues ob \<union> QMsgL ` o_queues ob \<subseteq> dom A \<and>
     (\<forall>j. QMsgL j \<in> dom A \<longrightarrow> j \<in> o_queues ob)"

lemma sys_listsD:
  assumes "sys_lists ob ns k A"
  shows "kinv k A" "kbase k A" "schedule_is_lock k \<noteq> TRUE" "on_ready A 0"
    "s \<in> o_sems ob \<Longrightarrow> \<exists>ws. A (SemL s) = Some ws" "m \<in> o_mutexes ob \<Longrightarrow> \<exists>ws. A (MutexL m) = Some ws"
    "i \<in> o_queues ob \<Longrightarrow> \<exists>ws. A (QueueL i) = Some ws" "i \<in> o_queues ob \<Longrightarrow> \<exists>ms. A (QMsgL i) = Some ms"
    "\<exists>xs. A TQ = Some xs"
proof -
  have s: "kinv k A" "schedule_is_lock k \<noteq> TRUE" "on_ready A 0" and
    d: "SemL ` o_sems ob \<union> MutexL ` o_mutexes ob \<union> QueueL ` o_queues ob \<union> QMsgL ` o_queues ob \<subseteq> dom A"
    using assms unfolding sys_lists_def by blast+
  then show "kinv k A" "schedule_is_lock k \<noteq> TRUE" "on_ready A 0" by blast+
  show "kbase k A" using s(1) by (rule kinv_kbase)
  then show "\<exists>xs. A TQ = Some xs" by (simp add: kbase_def)
  show "s \<in> o_sems ob \<Longrightarrow> \<exists>ws. A (SemL s) = Some ws" "m \<in> o_mutexes ob \<Longrightarrow> \<exists>ws. A (MutexL m) = Some ws"
    "i \<in> o_queues ob \<Longrightarrow> \<exists>ws. A (QueueL i) = Some ws" "i \<in> o_queues ob \<Longrightarrow> \<exists>ms. A (QMsgL i) = Some ms"
    using d by blast+
qed

lemma sys_lists_step:
  assumes "sys_lists ob ns k A" "kinv k' A'" "schedule_is_lock k' = schedule_is_lock k"
    "tasks_of A' = tasks_of A" "on_ready A' 0" "dom A' = dom A"
  shows "sys_lists ob ns k' A'"
  using assms by (simp add: sys_lists_def)

text \<open>The ready queues' heads are there in every well-formed state.\<close>

lemma dom_kept:
  assumes "kbase k A" "kbase k' A'"
    "\<And>q. (\<And>p. q \<noteq> RQ p) \<Longrightarrow> A' q = None \<longleftrightarrow> A q = None"
  shows "dom A' = dom A"
proof -
  have "B (RQ p) = None \<longleftrightarrow> \<not> p < 32" if "kbase l B" for B l p
    using sched_inv_ready [OF kbase_sched [OF that], of p] kbase_list_ok [OF that, of "RQ p"]
    by (cases "B (RQ p)") auto
  then have "A' q = None \<longleftrightarrow> A q = None" for q
    using assms by (cases "\<exists>p. q = RQ p") auto
  then show ?thesis by (simp add: dom_def)
qed

text \<open>A ready task that is still threaded, but on no other list than before, is ready.\<close>

lemma ready_kept:
  assumes b: "kbase k A" and r: "on_ready A n" and m: "TL n \<in> members A'"
    and l: "\<And>q xs. (\<And>p. q \<noteq> RQ p) \<Longrightarrow> A' q = Some xs \<Longrightarrow> TL n \<in> set xs \<Longrightarrow>
      \<exists>ys. A q = Some ys \<and> TL n \<in> set ys"
  shows "on_ready A' n"
proof -
  obtain q xs where q: "A' q = Some xs" "TL n \<in> set xs" using m by (auto simp: members_iff)
  have "\<exists>p. q = RQ p"
  proof (rule ccontr)
    assume "\<not> (\<exists>p. q = RQ p)"
    then obtain ys where ys: "A q = Some ys" "TL n \<in> set ys" using l [of q xs] q by auto
    obtain p where p: "TL n \<in> set (ready A p)" using r by (auto simp: on_ready_def)
    then obtain zs where "A (RQ p) = Some zs" "TL n \<in> set zs"
      by (cases "A (RQ p)") (auto simp: ready_def)
    moreover have "set (q # ys) \<inter> set (RQ p # zs) = {}"
      using kl.rep_disjoint [OF kbase_krep [OF b] ys(1)] \<open>A (RQ p) = Some zs\<close> \<open>\<not> (\<exists>p. q = RQ p)\<close> by auto
    ultimately show False using ys(2) by auto
  qed
  then obtain p where "q = RQ p" ..
  then show ?thesis using q by (auto simp: on_ready_def ready_def intro!: exI [of _ p])
qed

lemma on_ready_member: "on_ready A n \<Longrightarrow> TL n \<in> members A"
  by (auto simp: on_ready_def ready_members)

lemma idle_others: "on_ready A 0 \<Longrightarrow> kbase k A \<Longrightarrow> c \<noteq> 0 \<Longrightarrow> others_ready A c"
  unfolding on_ready_def others_ready_def
  by (metis klink.inject(1) tcbp.inject(2) ready_def option.case_eq_if kbase_list_ok list_ok.simps(1)
      empty_iff empty_set option.collapse)

subsection \<open>Links and lists\<close>

lemma hangs_on_later:
  "lrep (heap k) y xs \<Longrightarrow> y = q \<or> hangs_on k q y \<Longrightarrow> x \<in> set xs \<Longrightarrow> hangs_on k q x"
proof (induction xs arbitrary: y)
  case (Cons z zs)
  have "knext k y = Some z" using Cons.prems(1) by (simp add: knext_def lrep_first)
  then have z: "hangs_on k q z" using Cons.prems(2) by (auto intro: hangs_on.intros)
  have "lrep (heap k) z zs" using Cons.prems(1) by (simp add: lrep_Cons)
  then show ?case using Cons.IH z Cons.prems(3) by auto
qed simp

lemma hangs_on_member: "krep k A \<Longrightarrow> A q = Some xs \<Longrightarrow> x \<in> set xs \<Longrightarrow> hangs_on k q x"
  using hangs_on_later [of k q xs q x] by (simp add: krep_def store_rep_lrep)

lemma msg_unthreaded:
  assumes "sys_lists ob ns k A" "\<forall>j \<in> o_queues ob. \<not> hangs_on k (QMsgL j) (MsgL m)"
  shows "unthreaded A (MsgL m)"
proof -
  note b = sys_listsD(2) [OF assms(1)]
  have "A (MsgL m) = None" using kbase_list_ok [OF b, of "MsgL m"] by (cases "A (MsgL m)") auto
  moreover have False if "A q = Some xs" "MsgL m \<in> set xs" for q xs
  proof -
    have "\<exists>j. q = QMsgL j"
      using kbase_list_ok [OF b that(1)] that(2)
      by (cases "(k, A, q, xs)" rule: list_ok.cases) (auto simp: live_def tick_ok_def)
    then show False
      using that assms hangs_on_member [OF kbase_krep [OF b] that] by (auto simp: sys_lists_def)
  qed
  ultimately show ?thesis by (auto simp: unthreaded_def)
qed

lemma timer_unthreaded:
  assumes b: "kbase k A" and "\<not> hangs_on k TQ (TickL (Timer i))"
  shows "unthreaded A (TickL (Timer i))"
proof -
  have "A (TickL (Timer i)) = None"
    using kbase_list_ok [OF b, of "TickL (Timer i)"] by (cases "A (TickL (Timer i))") auto
  then show ?thesis
    using assms(2) hangs_on_member [OF kbase_krep [OF b], of TQ] ticks_only_there [OF b, of "Timer i"]
    by (auto simp: unthreaded_iff)
qed

subsection \<open>Every call is a step of the invariant\<close>

text \<open>The lists of a call that moves tasks between lists and keeps all members.\<close>

lemma sys_lists_move:
  assumes s: "sys_lists ob ns k A" and k': "kinv k' A'" "schedule_is_lock k' = schedule_is_lock k"
    and m: "members A' = members A"
    and d: "\<And>q. (\<And>p. q \<noteq> RQ p) \<Longrightarrow> A' q = None \<longleftrightarrow> A q = None"
    and i: "\<And>q xs. (\<And>p. q \<noteq> RQ p) \<Longrightarrow> A' q = Some xs \<Longrightarrow> TL 0 \<in> set xs \<Longrightarrow>
      \<exists>ys. A q = Some ys \<and> TL 0 \<in> set ys"
  shows "sys_lists ob ns k' A'"
proof (rule sys_lists_step [OF s k' tasks_of_members [OF m]])
  note b = sys_listsD(2) [OF s] and r = sys_listsD(4) [OF s]
  show "on_ready A' 0" by (rule ready_kept [OF b r _ i]) (use on_ready_member [OF r] m in simp_all)
  show "dom A' = dom A" by (rule dom_kept [OF b kinv_kbase [OF k'(1)] d])
qed

definition keeps :: "objs \<Rightarrow> nat set \<Rightarrow> kst option \<Rightarrow> bool" where
  "keeps ob ns r \<longleftrightarrow> (\<exists>k' A'. r = Some k' \<and> sys_lists ob ns k' A')"

lemma keepsI: "r = Some k' \<Longrightarrow> sys_lists ob ns k' A' \<Longrightarrow> keeps ob ns r"
  unfolding keeps_def by blast

lemma sem_get_keeps:
  assumes s: "sys_lists ob ns k A" and r: "running k A c" "c \<noteq> 0" and o: "x \<in> o_sems ob"
  shows "keeps ob ns (map_option snd (sem_get (Some x) k))"
proof (cases "sem_count (sems k x) = 0")
  case True
  obtain ws where w: "A (SemL x) = Some ws" using sys_listsD(5) [OF s o] ..
  let ?A = "A(RQ (unat (prio (tcbs k (Tcb c)))) \<mapsto> remove1 (TL c) (ready A (unat (prio (tcbs k (Tcb c))))),
      SemL x \<mapsto> ws @ [TL c])"
  obtain k' where k': "sem_get (Some x) k = Some (TRUE, k')" "kinv k' (asched ?A)"
    "members (asched ?A) = members A" "schedule_is_lock k' = schedule_is_lock k"
    using sem_get_blocks_caller [OF sys_listsD(1) [OF s] r(1) w True
        idle_others [OF sys_listsD(4,2) [OF s] r(2)] sys_listsD(3) [OF s]] by blast
  have "sys_lists ob ns k' (asched ?A)"
    by (rule sys_lists_move [OF s k'(2,4,3)]) (use w r(2) in \<open>auto split: if_splits\<close>)
  with k'(1) show ?thesis by (auto intro: keepsI)
next
  case False
  have lock: "schedule_is_lock (sem_upd x f k) = schedule_is_lock k" for f by (simp add: sem_upd_def)
  have "sys_lists ob ns (sem_upd x (sem_count_update (\<lambda>c. c - 1)) k) A"
    by (rule sys_lists_move [OF s]) (use lock sys_listsD(1) [OF s] kinv_sr_sem(2) in \<open>auto simp: sem_upd_def [symmetric]\<close>)
  then show ?thesis using sem_get_takes_unit [OF False] by (auto intro: keepsI)
qed

lemma sem_put_keeps:
  assumes s: "sys_lists ob ns k A" and o: "x \<in> o_sems ob"
  shows "keeps ob ns (map_option snd (sem_put (Some x) k))"
proof -
  obtain ws where w: "A (SemL x) = Some ws" using sys_listsD(5) [OF s o] ..
  note inv = sys_listsD(1) [OF s] and lock = sys_listsD(3) [OF s]
  show ?thesis
  proof (cases ws)
    case Nil
    then obtain k' where k': "sem_put (Some x) k = Some (TRUE, k')" "kinv k' (asched A)"
      "members (asched A) = members A" "schedule_is_lock k' = schedule_is_lock k"
      using sem_put_releases [OF inv _ lock, of x] w by blast
    have "sys_lists ob ns k' (asched A)" by (rule sys_lists_move [OF s k'(2,4,3)]) auto
    with k'(1) show ?thesis by (auto intro: keepsI)
  next
    case (Cons y ys)
    then obtain n where y: "A (SemL x) = Some (TL n # ys)"
      using w kbase_list_ok [OF kinv_kbase [OF inv] w] by (auto simp: live_def)
    let ?A = "A(SemL x \<mapsto> ys, RQ (unat (prio (tcbs k (Tcb n)))) \<mapsto> TL n # ready A (unat (prio (tcbs k (Tcb n)))))"
    obtain k' where k': "sem_put (Some x) k = Some (TRUE, k')" "kinv k' (asched ?A)"
      "members (asched ?A) = members A" "schedule_is_lock k' = schedule_is_lock k"
      using sem_put_wakes [OF inv y lock] by blast
    have "sys_lists ob ns k' (asched ?A)"
      by (rule sys_lists_move [OF s k'(2,4,3)]) (use y in \<open>auto split: if_splits\<close>)
    with k'(1) show ?thesis by (auto intro: keepsI)
  qed
qed

lemma mutex_get_keeps:
  assumes s: "sys_lists ob ns k A" and r: "running k A c" "c \<noteq> 0" and o: "x \<in> o_mutexes ob"
  shows "keeps ob ns (map_option snd (mutex_get (Some x) k))"
proof (cases "enable (mutexes k x) = 0")
  case True
  obtain ws where w: "A (MutexL x) = Some ws" using sys_listsD(6) [OF s o] ..
  let ?A = "A(RQ (unat (prio (tcbs k (Tcb c)))) \<mapsto> remove1 (TL c) (ready A (unat (prio (tcbs k (Tcb c))))),
      MutexL x \<mapsto> ws @ [TL c])"
  obtain k' where k': "mutex_get (Some x) k = Some (TRUE, k')" "kinv k' (asched ?A)"
    "members (asched ?A) = members A" "schedule_is_lock k' = schedule_is_lock k"
    using mutex_get_blocks [OF sys_listsD(1) [OF s] r(1) w True
        idle_others [OF sys_listsD(4,2) [OF s] r(2)] sys_listsD(3) [OF s]] by blast
  have "sys_lists ob ns k' (asched ?A)"
    by (rule sys_lists_move [OF s k'(2,4,3)]) (use w r(2) in \<open>auto split: if_splits\<close>)
  with k'(1) show ?thesis by (auto intro: keepsI)
next
  case False
  obtain k' A' where k': "mutex_get (Some x) k = Some (TRUE, k')" "kinv k' A'" "members A' = members A"
    "schedule_is_lock k' = schedule_is_lock k" "\<And>q. (\<And>p. q \<noteq> RQ p) \<Longrightarrow> A' q = A q"
    using mutex_get_free [OF sys_listsD(1) [OF s] r(1) False] by blast
  have "sys_lists ob ns k' A'" by (rule sys_lists_move [OF s k'(2,4,3)]) (simp_all add: k'(5))
  with k'(1) show ?thesis by (auto intro: keepsI)
qed

lemma mutex_put_keeps:
  assumes s: "sys_lists ob ns k A" and r: "running k A c" and o: "x \<in> o_mutexes ob"
  shows "keeps ob ns (map_option snd (mutex_put (Some x) k))"
proof -
  obtain ws where w: "A (MutexL x) = Some ws" using sys_listsD(6) [OF s o] ..
  obtain k' A' where k': "mutex_put (Some x) k = Some (TRUE, k')" "kinv k' A'" "members A' = members A"
    "schedule_is_lock k' = schedule_is_lock k" "A' (MutexL x) = Some (tl ws)"
    "\<And>q. q \<noteq> MutexL x \<Longrightarrow> (\<And>p. q \<noteq> RQ p) \<Longrightarrow> A' q = A q"
    using mutex_put_ok [OF sys_listsD(1) [OF s] r w sys_listsD(3) [OF s]] by blast
  have "sys_lists ob ns k' A'"
  proof (rule sys_lists_move [OF s k'(2,4,3)])
    fix q assume q: "\<And>p. q \<noteq> RQ p"
    show "A' q = None \<longleftrightarrow> A q = None" using k'(5) k'(6) [OF _ q] w by (cases "q = MutexL x") auto
    have "set (tl ws) \<subseteq> set ws" by (cases ws) auto
    then show "\<exists>ys. A q = Some ys \<and> TL 0 \<in> set ys" if "A' q = Some xs" "TL 0 \<in> set xs" for xs
      using k'(5) k'(6) [OF _ q] w that by (metis option.inject subsetD)
  qed
  with k'(1) show ?thesis by (auto intro: keepsI)
qed

lemma msg_put_keeps:
  assumes s: "sys_lists ob ns k A" and o: "i \<in> o_queues ob"
    and m: "\<forall>j \<in> o_queues ob. \<not> hangs_on k (QMsgL j) (MsgL m)"
  shows "keeps ob ns (map_option snd (msg_put (Some i) (Some m) mthd k))"
proof -
  obtain ws ms where w: "A (QueueL i) = Some ws" "A (QMsgL i) = Some ms"
    using sys_listsD(7,8) [OF s o] by blast
  then have v: "msgq_view k A i = Some (unat (q_length (queues k i)), ms, ws)" by (simp add: msgq_view_def)
  obtain rc k' A' where k': "msg_put (Some i) (Some m) mthd k = Some (rc, k')" "kinv k' A'"
    "msgq_view k' A' i = Some (amsg_put mthd (MsgL m) (unat (q_length (queues k i)), ms, ws))"
    "tasks_of A' = tasks_of A" "schedule_is_lock k' = schedule_is_lock k"
    "\<And>q. q \<noteq> QueueL i \<Longrightarrow> q \<noteq> QMsgL i \<Longrightarrow> (\<And>p. q \<noteq> RQ p) \<Longrightarrow> A' q = A q"
    "\<And>p. set (ready A p) \<subseteq> set (ready A' p)"
    using msg_put_ok [OF sys_listsD(1) [OF s] v msg_unthreaded [OF s m], of mthd] by blast
  have "dom A' = dom A"
  proof (rule dom_kept [OF sys_listsD(2) [OF s] kinv_kbase [OF k'(2)]])
    fix q assume q: "\<And>p. q \<noteq> RQ p"
    show "A' q = None \<longleftrightarrow> A q = None"
      using k'(3) k'(6) [OF _ _ q] w
      by (cases "q = QueueL i \<or> q = QMsgL i") (auto simp: msgq_view_def split: option.splits)
  qed
  moreover have "on_ready A' 0" using sys_listsD(4) [OF s] k'(7) unfolding on_ready_def by blast
  ultimately have "sys_lists ob ns k' A'" using sys_lists_step [OF s k'(2,5,4)] by blast
  with k'(1) show ?thesis by (auto intro: keepsI)
qed

lemma msg_get_keeps:
  assumes s: "sys_lists ob ns k A" and r: "running k A c" "c \<noteq> 0" and o: "i \<in> o_queues ob"
    and buf: "5 \<le> length buf"
    and src: "\<forall>m. knext k (QMsgL i) = Some (MsgL m) \<longrightarrow> (\<exists>src. msg_buff (msgs k m) = Some src \<and> 5 \<le> length src)"
  shows "keeps ob ns (map_option (\<lambda>r. snd (snd r)) (msg_get (Some i) (Some buf) k))"
proof -
  note inv = sys_listsD(1) [OF s] and b = sys_listsD(2) [OF s]
  obtain ws ms where w: "A (QueueL i) = Some ws" "A (QMsgL i) = Some ms"
    using sys_listsD(7,8) [OF s o] by blast
  then have v: "msgq_view k A i = Some (unat (q_length (queues k i)), ms, ws)" by (simp add: msgq_view_def)
  show ?thesis
  proof (cases ms)
    case Nil
    let ?A = "A(RQ (unat (prio (tcbs k (Tcb c)))) \<mapsto> remove1 (TL c) (ready A (unat (prio (tcbs k (Tcb c))))),
        QueueL i \<mapsto> ws @ [TL c])"
    obtain k' A' where k': "msg_get (Some i) (Some buf) k = Some (Q_EMPTY, Some buf, k')" "kinv k' A'"
      "members A' = members A" "schedule_is_lock k' = schedule_is_lock k" "A' = asched ?A"
      using msg_get_blocks_ok [OF inv r(1) sys_listsD(3) [OF s] v [unfolded Nil]
          idle_others [OF sys_listsD(4,2) [OF s] r(2)], of buf] by blast
    have "sys_lists ob ns k' A'"
      by (rule sys_lists_move [OF s k'(2,4,3)]) (use w r(2) in \<open>auto simp: k'(5) split: if_splits\<close>)
    with k'(1) show ?thesis by (auto intro: keepsI)
  next
    case (Cons y ys)
    then obtain m where m: "y = MsgL m" using kbase_list_ok [OF b w(2)] by auto
    have "knext k (QMsgL i) = Some (MsgL m)" using knext_first [OF kbase_krep [OF b]] w(2) Cons m by simp
    then obtain sb where sb: "msg_buff (msgs k m) = Some sb" "5 \<le> length sb" using src by blast
    obtain k' A' where k': "msg_get (Some i) (Some buf) k = Some (TRUE, Some (take 5 sb @ drop 5 buf), k')"
      "kinv k' A'" "tasks_of A' = tasks_of A" "schedule_is_lock k' = schedule_is_lock k" "A' = A(QMsgL i \<mapsto> ys)"
      using msg_get_reads_ok [OF inv v [unfolded Cons m] sb buf] by blast
    have "on_ready A' 0" "dom A' = dom A"
      using sys_listsD(4) [OF s] w(2) by (auto simp: k'(5) on_ready_def)
    then have "sys_lists ob ns k' A'" using sys_lists_step [OF s k'(2,4,3)] by blast
    with k'(1) show ?thesis by (auto intro: keepsI)
  qed
qed

lemma os_delay_keeps:
  assumes s: "sys_lists ob ns k A" and r: "running k A c" "c \<noteq> 0"
  shows "keeps ob ns (os_delay n k)"
proof -
  obtain xs where q: "A TQ = Some xs" using sys_listsD(9) [OF s] ..
  obtain k' A' where k': "os_delay n k = Some k'" "kinv k' A'" "A' TQ = Some (xs @ [TickL (DelayOf (Tcb c))])"
    "tasks_of A' = tasks_of A" "schedule_is_lock k' = schedule_is_lock k"
    "\<And>q. q \<noteq> TQ \<Longrightarrow> (\<And>p. q \<noteq> RQ p) \<Longrightarrow> A' q = A q" "\<And>p. set (ready A p) - {TL c} \<subseteq> set (ready A' p)"
    using os_delay_ok [OF sys_listsD(1) [OF s] r(1) sys_listsD(3) [OF s] idle_others [OF sys_listsD(4,2) [OF s] r(2)] q]
    by blast
  have "dom A' = dom A"
  proof (rule dom_kept [OF sys_listsD(2) [OF s] kinv_kbase [OF k'(2)]])
    fix q' assume "\<And>p. q' \<noteq> RQ p"
    then show "A' q' = None \<longleftrightarrow> A q' = None" using k'(3) k'(6) [of q'] q by (cases "q' = TQ") auto
  qed
  moreover have "on_ready A' 0" using sys_listsD(4) [OF s] k'(7) r(2) unfolding on_ready_def by blast
  ultimately have "sys_lists ob ns k' A'" using sys_lists_step [OF s k'(2,5,4)] by blast
  with k'(1) show ?thesis by (auto intro: keepsI)
qed

lemma prio_change_keeps:
  assumes s: "sys_lists ob ns k A" and r: "running k A c" and p: "pr \<noteq> 32"
  shows "keeps ob ns (map_option snd (task_prio_change (new_task k) pr k))"
proof (cases "pr < 1 \<or> pr > 32")
  case True
  then show ?thesis using s r by (auto simp: task_prio_change_def running_def intro: keepsI)
next
  case False
  moreover have "unat pr \<noteq> unat (32 :: u32)" using p by (metis word_unat_eq_iff)
  ultimately have pr: "1 \<le> unat pr" "unat pr < 32" by (simp_all add: word_less_nat_alt)
  obtain k' A' where k': "task_prio_change (Some (Tcb c)) pr k = Some (TRUE, k')" "kinv k' A'"
    "members A' = members A" "schedule_is_lock k' = schedule_is_lock k" "\<And>q. (\<And>p. q \<noteq> RQ p) \<Longrightarrow> A' q = A q"
    using task_prio_change_moves [OF sys_listsD(1) [OF s] r pr] by blast
  have "sys_lists ob ns k' A'" by (rule sys_lists_move [OF s k'(2,4,3)]) (simp_all add: k'(5))
  with k'(1) r show ?thesis by (auto simp: running_def intro: keepsI)
qed

lemma timer_req_keeps:
  assumes s: "sys_lists ob ns k A" and u: "\<not> hangs_on k TQ (TickL (Timer i))"
  shows "keeps ob ns (timer_req (Some (Timer i)) (Some f) tmo per arg k)"
proof (cases "tmo = 0")
  case True
  then show ?thesis using s by (auto simp: timer_req_def intro: keepsI)
next
  case False
  obtain xs where q: "A TQ = Some xs" using sys_listsD(9) [OF s] ..
  let ?A = "A(TQ \<mapsto> xs @ [TickL (Timer i)])"
  obtain k' where k': "timer_req (Some (Timer i)) (Some f) tmo per arg k = Some k'" "kinv k' ?A"
    "schedule_is_lock k' = schedule_is_lock k"
    using timer_req_ok [OF sys_listsD(1) [OF s] q timer_unthreaded [OF sys_listsD(2) [OF s] u]] False by blast
  have "members ?A = insert (TickL (Timer i)) (members A)"
    using members_split [where A = A, OF q] by (auto simp: members_upd)
  then have "tasks_of ?A = tasks_of A" by (simp add: tasks_of_def)
  moreover have "on_ready ?A 0" "dom ?A = dom A" using sys_listsD(4) [OF s] q by (auto simp: on_ready_def)
  ultimately have "sys_lists ob ns k' ?A" using sys_lists_step [OF s k'(2,3)] by blast
  with k'(1) show ?thesis by (auto intro: keepsI)
qed

lemma yield_keeps:
  assumes s: "sys_lists ob ns k A"
  shows "keeps ob ns (schedule k)"
proof -
  note inv = sys_listsD(1) [OF s]
  obtain c where c: "running k A c" using inv by (auto simp: kinv_def)
  have ne: "ready_set A \<noteq> {}" using running_ready [OF c kinv_kbase [OF inv]] by blast
  obtain k' where k': "schedule k = Some k'" "kinv k' (asched A)" "same_but_sched k k'"
    using schedule_kinv [OF kinv_kbase [OF inv] ne _ sys_listsD(3) [OF s]] c by (auto simp: running_def)
  have "sys_lists ob ns k' (asched A)"
    by (rule sys_lists_move [OF s k'(2)])
      (use k'(3) asched_lists(2) [OF kinv_kbase [OF inv] ne] in \<open>auto simp: same_but_sched_def\<close>)
  with k'(1) show ?thesis by (auto intro: keepsI)
qed

lemma call_keeps:
  assumes s: "sys_lists ob ns k A" and r: "running k A c" and a: "allowed ob c cl k"
  shows "keeps ob ns (run_call cl k)"
proof (cases cl)
  case (Sem_get x) then show ?thesis using a sem_get_keeps [OF s r] by (simp add: allowed_def run_call_def)
next
  case (Sem_put x) then show ?thesis using a sem_put_keeps [OF s] by (simp add: allowed_def run_call_def)
next
  case (Mutex_get x) then show ?thesis using a mutex_get_keeps [OF s r] by (simp add: allowed_def run_call_def)
next
  case (Mutex_put x) then show ?thesis using a mutex_put_keeps [OF s r] by (simp add: allowed_def run_call_def)
next
  case (Msg_put i m mthd) then show ?thesis using a msg_put_keeps [OF s] by (simp add: allowed_def run_call_def)
next
  case (Msg_get i buf) then show ?thesis using a msg_get_keeps [OF s r] by (simp add: allowed_def run_call_def)
next
  case (Os_delay n) then show ?thesis using a os_delay_keeps [OF s r] by (simp add: allowed_def run_call_def)
next
  case (Prio_change pr) then show ?thesis using a prio_change_keeps [OF s r] by (simp add: allowed_def run_call_def)
next
  case (Timer_req i f tmo per arg)
  then show ?thesis using a timer_req_keeps [OF s] by (simp add: allowed_def run_call_def)
next
  case Yield then show ?thesis using yield_keeps [OF s] by (simp add: run_call_def)
qed

lemma tick_keeps:
  assumes s: "sys_lists ob ns k A" and cb: "callbacks_ok cb"
  shows "keeps ob ns (hardware_timer cb k)"
proof -
  obtain xs where q: "A TQ = Some xs" using sys_listsD(9) [OF s] ..
  obtain k' A' where k': "hardware_timer cb k = Some k'" "kinv k' A'" "tasks_of A' = tasks_of A"
    "schedule_is_lock k' = schedule_is_lock k" "\<And>p. set (ready A p) \<subseteq> set (ready A' p)" "dom A' = dom A"
    using hardware_timer_queue [OF sys_listsD(1) [OF s] q cb sys_listsD(3) [OF s]] by blast
  have "on_ready A' 0" using sys_listsD(4) [OF s] k'(5) unfolding on_ready_def by blast
  then have "sys_lists ob ns k' A'" using sys_lists_step [OF s k'(2,4,3) _ k'(6)] by blast
  with k'(1) show ?thesis by (rule keepsI)
qed

lemma sys_lists_running:
  assumes "sys_lists ob ns k A" "new_task k = Some (Tcb c)"
  shows "running k A c"
proof -
  obtain c' where "running k A c'" using sys_listsD(1) [OF assms(1)] by (auto simp: kinv_def)
  then show ?thesis using assms(2) by (simp add: running_def)
qed

lemma reachable_sys_lists:
  assumes "reachable ob cb k0 k" "callbacks_ok cb" "sys_lists ob ns k0 A"
  shows "\<exists>A. sys_lists ob ns k A"
  using assms(1,3)
proof (induction rule: reachable.induct)
  case (reach_step k k')
  then obtain A where A: "sys_lists ob ns k A" by blast
  from reach_step.hyps(2) have "keeps ob ns (Some k')"
  proof (cases rule: kstep.cases)
    case (kstep_call c cl)
    then show ?thesis
      using call_keeps [OF A sys_lists_running [OF A kstep_call(1)] kstep_call(2)] by simp
  next
    case kstep_tick
    then show ?thesis using tick_keeps [OF A assms(2)] by simp
  qed
  then show ?case by (simp add: keeps_def)
qed blast

subsection \<open>The booted system\<close>

definition boot_objs :: "bool \<Rightarrow> bool \<Rightarrow> bool \<Rightarrow> objs" where
  "boot_objs s m q = \<lparr>o_sems = (if s then {0} else {}), o_mutexes = (if m then {0} else {}),
     o_queues = (if q then {0, 1, 2} else {})\<rparr>"

lemma boot_sys_lists:
  assumes "fos_main s m q bss_state = Some k"
  shows "sys_lists (boot_objs s m q) {0, 1, 2, 3, 4} k (boot_lists s m q)"
proof -
  let ?ob = "boot_objs s m q"
  have "on_ready (boot_lists s m q) 0"
    using boot_lists_ready(1) [of s m q] unfolding on_ready_def by (intro exI [of _ 31]) simp
  moreover have "SemL ` o_sems ?ob \<union> MutexL ` o_mutexes ?ob \<union> QueueL ` o_queues ?ob \<union> QMsgL ` o_queues ?ob
      \<subseteq> dom (boot_lists s m q)"
    by (cases s; cases m; cases q) (simp_all add: boot_objs_def boot_lists_def Let_def)
  moreover have "\<forall>j. QMsgL j \<in> dom (boot_lists s m q) \<longrightarrow> j \<in> o_queues ?ob"
    by (cases s; cases m; cases q)
      (auto simp: boot_objs_def boot_lists_def Let_def boot_tasks_def boot_heads_def nil_lists_def split: if_splits)
  moreover have "kinv k (boot_lists s m q)" "schedule_is_lock k \<noteq> TRUE" "tasks_of (boot_lists s m q) = {0, 1, 2, 3, 4}"
    using fos_main_boots [of s m q] assms by auto
  ultimately show ?thesis unfolding sys_lists_def by blast
qed



end
