(* ===== verification/FosSamples.thy ===== *)
theory FosSamples
  imports FosKernel
begin

text \<open>
  The kernel theorems at work: each is applied to the state that \<^verbatim>\<open>main\<close> reaches, or to a
  state a few calls later.
\<close>

subsection \<open>Scheduling and tasks\<close>

lemma boot_kbase: "kbase boot_state demo_lists"
  using boot_state_facts(1) by (rule kinv_kbase)

lemma boot_nonempty: "ready_set demo_lists \<noteq> {}"
  using running_ready [OF boot_state_facts(2) boot_kbase] by auto

theorem fos_main_establishes_witness:
  "\<exists>k. fos_main True True True bss_state = Some k \<and> sem_view k demo_lists 0 = Some (1, []) \<and>
    mutex_view k demo_lists 0 = Some (True, []) \<and> msgq_view k demo_lists 0 = Some (2, [], [])"
  using fos_main_establishes [of True True True] by blast

theorem schedule_runs_most_urgent_witness:
  "\<exists>k' n. schedule boot_state = Some k' \<and> new_task k' = Some (Tcb n)"
  using schedule_runs_most_urgent [OF boot_state_facts(1,3)] by blast

theorem schedule_round_robin_witness:
  "\<exists>k'. schedules 6 boot_state = Some k'"
  using schedule_round_robin [OF boot_state_facts(1,3), of 5] by (metis eval_nat_numeral(2) semiring_norm(28))

lemma boot_ready_set: "ready_set demo_lists = {3, 4, 29, 30, 31}"
  by (auto simp: ready_set_def boot_lists_def Let_def boot_tasks_def split: if_splits)

theorem bit_first_one_search_variants_witness:
  "bit_first_one_search 0xE0000018 boot_state = bit_first_one_search_scan 0xE0000018 boot_state"
proof -
  have "\<forall>i<32. bit (0xE0000018 :: u32) i \<longleftrightarrow> i \<in> {3, 4, 29, 30, 31 :: nat}"
    unfolding list_all_interval [symmetric] by (simp add: upt_rec)
  then show ?thesis
    using bit_first_one_search_variants [OF kbase_sched [OF boot_kbase] boot_nonempty]
    by (simp add: boot_ready_set)
qed

theorem bit_first_one_search_empty_witness:
  "bit_first_one_search 0 (boot_queues bss_state) = Some (Some (QTcb 0))"
  using bit_first_one_search_empty [OF kbase_sched [OF boot_queues_kbase]]
  by (simp add: ready_set_def)

theorem task_create_adds_task_witness:
  "\<exists>k'. task_create (Some (Tcb 5)) None (Some (AppTask 3)) 0 (Some 5) 4096 7 1 boot_state = Some (TRUE, k')"
proof -
  have "off_lists demo_lists 5"
    by (simp add: off_lists_def tasks_of_def boot_lists_members)
  from task_create_adds_task [OF boot_kbase this, of 4096 7] show ?thesis by fastforce
qed

theorem task_create_small_stack_witness:
  "task_create (Some (Tcb 5)) None (Some (AppTask 3)) 0 (Some 5) 100 7 1 boot_state = None"
  using task_create_small_stack [of 100] by simp

theorem task_prio_change_ok_witness:
  "\<exists>k'. task_prio_change (Some (Tcb 0)) 5 boot_state = Some (TRUE, k')"
  using task_prio_change_ok [OF boot_state_facts(1,2), of 5] by auto

theorem task_check_stack_counts_witness:
  "\<exists>r. task_check_stack (Tcb 9) 4 (bss_state\<lparr>tcbs := (\<lambda>_. zero_tcb\<lparr>stack_ptr := Some (0, 3)\<rparr>)\<rparr>) = Some r"
  using task_check_stack_counts [of "bss_state\<lparr>tcbs := (\<lambda>_. zero_tcb\<lparr>stack_ptr := Some (0, 3)\<rparr>)\<rparr>" "Tcb 9" 0 3 4]
  by auto

subsection \<open>Semaphores, mutexes and message queues\<close>

theorem sem_get_takes_unit_witness:
  "sem_get (Some 0) boot_state = Some (TRUE, sem_upd 0 (sem_count_update (\<lambda>c. c - 1)) boot_state)"
proof (rule sem_get_takes_unit)
  show "sem_count (sems boot_state 0) \<noteq> 0"
    using boot_state_facts(4) by (auto simp: sem_view_Some)
qed

theorem sem_get_refines_witness:
  "\<exists>k' A'. sem_get (Some 0) boot_state = Some (TRUE, k') \<and> sem_view k' A' 0 = Some (0, [])"
  using sem_get_refines [OF boot_state_facts(1-4) boot_others_ready] by auto

theorem sem_put_refines_witness:
  "\<exists>k' A'. sem_put (Some 0) boot_state = Some (TRUE, k') \<and> sem_view k' A' 0 = Some (2, [])"
  using sem_put_refines [OF boot_state_facts(1,3,4)] by (auto simp: numeral_2_eq_2)

theorem mutex_get_refines_witness:
  "\<exists>k' A'. mutex_get (Some 0) boot_state = Some (TRUE, k') \<and> mutex_view k' A' 0 = Some (False, [])"
  using mutex_get_refines [OF boot_state_facts(1-3,5) boot_others_ready] by auto

theorem mutex_put_refines_witness:
  "\<exists>k' A'. mutex_put (Some 0) boot_state = Some (TRUE, k') \<and> mutex_view k' A' 0 = Some (True, [])"
  using mutex_put_refines [OF boot_state_facts(1-3,5)] by auto

theorem msg_put_refines_witness:
  "\<exists>k' A'. msg_put (Some 0) (Some 1) FIFO boot_state = Some (TRUE, k') \<and>
    msgq_view k' A' 0 = Some (2, [MsgL 1], [])"
  using msg_put_refines [OF boot_state_facts(1,6) boot_unthreaded(1), of 1 FIFO] by auto

theorem msg_get_blocks_witness:
  "\<exists>k' A'. msg_get (Some 0) (Some (replicate 10 0)) boot_state = Some (Q_EMPTY, Some (replicate 10 0), k') \<and>
    msgq_view k' A' 0 = Some (2, [], [TL 0])"
  using msg_get_blocks [OF boot_state_facts(1-3,6) boot_others_ready, of "replicate 10 0"] by auto

lemma kinv_msgs: "kinv k A \<Longrightarrow> kinv (k\<lparr>msgs := m\<rparr>) A"
  by (rule kinv_cong) auto

theorem msg_get_reads_witness:
  "\<exists>k k' r. msg_get (Some 0) (Some (replicate 10 0)) k =
    Some (TRUE, Some (take 5 (str_bytes ''1aaa'') @ replicate 5 0), k')"
proof -
  obtain k A where k: "kinv k A" "msgq_view k A 0 = Some (2, [MsgL 1], [])"
    using msg_put_ok [OF boot_state_facts(1,6) boot_unthreaded(1), of 1 FIFO] by auto
  let ?m = "(msgs k)(1 := msg_buff_update (\<lambda>_. Some (str_bytes ''1aaa'')) (msgs k 1))"
  have v: "msgq_view (k\<lparr>msgs := ?m\<rparr>) A 0 = Some (2, [MsgL 1], [])"
    using k(2) by (simp add: msgq_view_Some)
  show ?thesis
    using msg_get_reads [OF kinv_msgs [OF k(1)] v, of "str_bytes ''1aaa''" "replicate 10 0"]
    by (fastforce simp: str_bytes_def)
qed

text \<open>The idle task takes the mutex and then asks for it again: it waits, and another task
  releases the mutex.\<close>

theorem mutex_handover_not_exclusive_witness:
  "\<exists>k k1 k2 A c. mutex_put (Some 0) k = Some (TRUE, k1) \<and> running k1 A c \<and>
    mutex_get (Some 0) k1 = Some (TRUE, k2) \<and> switches k2 = switches k1"
proof -
  obtain k A where k: "kinv k A" "running k A 0" "mutexes k 0 = (mutexes boot_state 0)
      \<lparr>copy_prio := ucast (prio (tcbs boot_state (Tcb 0))), enable := 0\<rparr>"
    "\<And>q. (\<And>p. q \<noteq> RQ p) \<Longrightarrow> A q = demo_lists q" "mutex_get (Some 0) boot_state = Some (TRUE, k)"
    "members A = members demo_lists" "schedule_is_lock k = schedule_is_lock boot_state"
    using mutex_get_free [OF boot_state_facts(1,2), of 0] boot_state_facts(5)
    by (auto simp: mutex_view_Some)
  have w: "A (MutexL 0) = Some []" using k(4) [of "MutexL 0"] by simp
  have o: "others_ready A 0"
  proof -
    have "TL 3 \<in> members A" using k(6) by (simp add: boot_lists_members)
    then obtain q xs where q: "A q = Some xs" "TL 3 \<in> set xs" by (auto simp: members_iff)
    have "\<exists>p. q = RQ p"
    proof (rule ccontr)
      assume "\<nexists>p. q = RQ p"
      then have "demo_lists q = Some xs" using k(4) q(1) by auto
      then show False using q(2) \<open>\<nexists>p. q = RQ p\<close>
        by (auto simp: boot_lists_def Let_def boot_tasks_def boot_heads_def nil_lists_def split: if_splits)
    qed
    then obtain p where p: "TL 3 \<in> set (ready A p)" "A (RQ p) = Some xs" using q by (auto simp: ready_def)
    then have "p < 32" using kbase_list_ok [OF kinv_kbase [OF k(1)] p(2)] by simp
    with p show ?thesis unfolding others_ready_def by (metis klink.inject(1) num.distinct(1) tcbp.inject(2) zero_neq_numeral)
  qed
  have lk: "schedule_is_lock k \<noteq> TRUE" using k(7) boot_state_facts(3) by simp
  have en: "enable (mutexes k 0) = 0" using k(3) by simp
  obtain k' B where k': "kinv k' B" "schedule_is_lock k' \<noteq> TRUE" "B (MutexL 0) = Some [TL 0]"
    using mutex_get_blocks [OF k(1,2) w en o lk] lk by (auto simp: asched_def)
  obtain c where c: "running k' B c" using k'(1) by (auto simp: kinv_def)
  from mutex_handover_not_exclusive [OF k'(1) c k'(2,3)] obtain k1 A1 where
    k1: "mutex_put (Some 0) k' = Some (TRUE, k1)" "kinv k1 A1"
    "\<forall>d. running k1 A1 d \<longrightarrow> (\<exists>k2. mutex_get (Some 0) k1 = Some (TRUE, k2) \<and>
         enable (mutexes k2 0) = 0 \<and> switches k2 = switches k1)" by blast
  obtain d where "running k1 A1 d" using k1(2) by (auto simp: kinv_def)
  with k1 show ?thesis by blast
qed

subsection \<open>Timers\<close>

lemma callbacks_ok_silent: "callbacks_ok (\<lambda>f a k. Some k)"
  unfolding callbacks_ok_def by blast

theorem hardware_timer_serves_queue_witness:
  "\<exists>k'. hardware_timer (\<lambda>f a k. Some k) boot_state = Some k' \<and> fos_tick k' = fos_tick boot_state + 1"
  using hardware_timer_serves_queue [OF boot_state_facts(1) _ callbacks_ok_silent boot_state_facts(3)]
  by auto

theorem os_delay_sleeps_witness:
  "\<exists>k' A'. os_delay 7 boot_state = Some k' \<and> asleep A' 0 \<and> timeout (ticks k' (DelayOf (Tcb 0))) = 7"
  using os_delay_sleeps [OF boot_state_facts(1-3) boot_others_ready, of "[]" 7] by auto

theorem timer_req_ok_witness:
  "\<exists>k'. timer_req (Some (Timer 0)) (Some 1) 5 CYCLE 0 boot_state = Some k'"
  using timer_req_ok [OF boot_state_facts(1) _ boot_unthreaded(2), where xs = "[]" and tmo = 5 and f = 1 and per = CYCLE
      and arg = 0] by auto

subsection \<open>Devices\<close>

theorem device_find_first_witness:
  "device_find ''uart'' boot_state = Some None"
  using device_find_first [OF boot_kbase, of "[]"] by simp

theorem device_register_unregister_witness:
  "\<exists>k1. device_register (Some (Dev 0)) (Some ''uart'') (Some 0) boot_state = Some (0, k1)"
  using device_register_unregister [OF boot_kbase _ boot_unthreaded(3), of "[]" 0 "Some ''uart''" 0] by auto

subsection \<open>Sleeping through the ticks\<close>

theorem delay_wakes_in_time_witness:
  "\<exists>k k1 k2. timer_ticks (\<lambda>f a k. Some k) 3 k = Some k1 \<and> timer_ticks (\<lambda>f a k. Some k) 4 k = Some k2"
proof -
  obtain k A where k: "kinv k A" "asleep A 0" "timeout (ticks k (DelayOf (Tcb 0))) = 3"
    "schedule_is_lock k \<noteq> TRUE"
    using os_delay_ok [OF boot_state_facts(1-3) boot_others_ready, of "[]" 3] boot_state_facts(3) by auto
  have "unat (timeout (ticks k (DelayOf (Tcb 0)))) = 3" using k(3) by simp
  note w = delay_wakes_in_time [OF k(1,2) callbacks_ok_silent k(4) this]
  then obtain k1 where "timer_ticks (\<lambda>f a k. Some k) 3 k = Some k1" by blast
  moreover obtain k2 where "timer_ticks (\<lambda>f a k. Some k) 4 k = Some k2"
    using w by (auto simp: eval_nat_numeral)
  ultimately show ?thesis by blast
qed

subsection \<open>The kernel as a whole\<close>

lemma boot_state_booted: "fos_main True True True bss_state = Some boot_state"
  using fos_main_boots [of True True True] unfolding boot_state_def by auto



end
