(* ===== verification/FosLibc.thy ===== *)
theory FosLibc
  imports FosPrelude
begin

text \<open>
  \<^verbatim>\<open>libc/lib.c\<close> and \<^verbatim>\<open>libc/printf.c\<close>: the small C library of the kernel. Functions on
  memory work on a map from addresses to bytes, so that overlapping areas alias as they do in
  C; \<^verbatim>\<open>itoa\<close> and \<^verbatim>\<open>print\<close> work on byte arrays of a known length, where a write past the
  end is a fault.
\<close>

subsection \<open>Memory and string functions of lib.c\<close>

type_synonym memory = "nat \<Rightarrow> u8"

fun memcpy_loop :: "nat \<Rightarrow> nat \<Rightarrow> nat \<Rightarrow> memory \<Rightarrow> memory" where
  "memcpy_loop r1 r2 0 m = m"
| "memcpy_loop r1 r2 (Suc n) m = memcpy_loop (r1 + 1) (r2 + 1) n (m(r1 := m r2))"

definition fos_memcpy :: "nat \<Rightarrow> nat \<Rightarrow> u32 \<Rightarrow> memory \<Rightarrow> nat \<times> memory" where
  "fos_memcpy s1 s2 n m = (s1, memcpy_loop s1 s2 (unat n) m)"

text \<open>A string without a terminator makes \<^verbatim>\<open>fos_strlen\<close> run off: \<open>None\<close>.\<close>

partial_function (option) strlen_from :: "memory \<Rightarrow> nat \<Rightarrow> nat option" where
  "strlen_from m p = (if m p = 0 then Some p else strlen_from m (p + 1))"

definition fos_strlen :: "memory \<Rightarrow> nat \<Rightarrow> u32 option" where
  "fos_strlen m s = map_option (\<lambda>p. word_of_nat (p - s)) (strlen_from m s)"

fun memchr_loop :: "memory \<Rightarrow> u8 \<Rightarrow> nat \<Rightarrow> nat \<Rightarrow> nat option" where
  "memchr_loop m c r 0 = None"
| "memchr_loop m c r (Suc n) = (if m r = c then Some r else memchr_loop m c (r + 1) n)"

definition fos_memchr :: "memory \<Rightarrow> nat \<Rightarrow> u32 \<Rightarrow> u32 \<Rightarrow> nat option" where
  "fos_memchr m s c n = memchr_loop m (ucast c) s (unat n)"

text \<open>The linear feedback shift register of \<^verbatim>\<open>fos_rand\<close>: the next value is also the result.\<close>

definition fos_rand :: "u32 \<Rightarrow> u32" where
  "fos_rand lfsr = (drop_bit 1 lfsr) XOR ((0 - (lfsr AND 1)) AND 0xd0000001)"

fun memset_loop :: "nat \<Rightarrow> u8 \<Rightarrow> nat \<Rightarrow> memory \<Rightarrow> memory" where
  "memset_loop xs byt 0 m = m"
| "memset_loop xs byt (Suc n) m = memset_loop (xs + 1) byt n (m(xs := byt))"

definition fos_memset :: "nat \<Rightarrow> u8 \<Rightarrow> u32 \<Rightarrow> memory \<Rightarrow> nat \<times> memory" where
  "fos_memset src byt count m = (src, memset_loop src byt (unat count) m)"

partial_function (option) fos_strcmp :: "memory \<Rightarrow> nat \<Rightarrow> nat \<Rightarrow> int option" where
  "fos_strcmp m cs ct =
     (let c1 = m cs; c2 = m ct in
      if c1 \<noteq> c2 then Some (if c1 < c2 then - 1 else 1)
      else if c1 = 0 then Some 0
      else fos_strcmp m (cs + 1) (ct + 1))"

definition is_digit :: "u8 \<Rightarrow> bool" where
  "is_digit c \<longleftrightarrow> 48 \<le> unat c \<and> unat c < 58"

text \<open>\<^verbatim>\<open>i = i * 10 + *((*s)++) - '0'\<close> on a 32-bit \<^verbatim>\<open>int\<close>: an overflow of the sum before
  the subtraction is already a fault.\<close>

partial_function (option) skip_atoi_from :: "memory \<Rightarrow> nat \<Rightarrow> nat \<Rightarrow> (nat \<times> nat) option" where
  "skip_atoi_from m s i =
     (if is_digit (m s) then
        (if i * 10 + unat (m s) < 2147483648
         then skip_atoi_from m (s + 1) (i * 10 + unat (m s) - 48)
         else None)
      else Some (i, s))"

definition skip_atoi :: "memory \<Rightarrow> nat \<Rightarrow> (nat \<times> nat) option" where
  "skip_atoi m s = skip_atoi_from m s 0"

text \<open>\<^verbatim>\<open>divide\<close> replaces \<^verbatim>\<open>*n\<close> by the quotient and returns the remainder.\<close>

definition divide :: "u64 \<Rightarrow> u32 \<Rightarrow> u32 \<times> u64" where
  "divide n bas =
     (if bas = 10 then ((ucast n) mod 10, ucast ((ucast n :: u32) div 10))
      else ((ucast n) mod 16, ucast ((ucast n :: u32) div 16)))"

subsection \<open>itoa\<close>

definition dig_char :: "u32 \<Rightarrow> u8" where
  "dig_char digval = (if digval > 9 then ucast (digval - 10 + 97) else ucast (digval + 48))"

text \<open>The digit loop: from array index \<open>p\<close> on, least significant digit first. A division by
  zero and a write past the array are faults.\<close>

function itoa_digits :: "u64 \<Rightarrow> u32 \<Rightarrow> nat \<Rightarrow> u8 list \<Rightarrow> (nat \<times> u8 list) option" where
  "itoa_digits val radix p buf =
     (if radix = 0 \<or> length buf \<le> p then None
      else let digval = ucast (val mod ucast radix);
               val = val div ucast radix;
               buf = buf[p := dig_char digval];
               p = p + 1
           in if val > 0 then itoa_digits val radix p buf else Some (p, buf))"
  by pat_completeness auto
termination by (relation "measure (\<lambda>(_, _, p, buf). length buf - p)") auto

declare itoa_digits.simps [simp del]

text \<open>The reversing loop. Its last \<^verbatim>\<open>--p\<close> may leave the array (at \<open>p = 0\<close>), where the
  comparison that follows ends the loop; so it does with \<open>0 - 1 = 0\<close>.\<close>

function itoa_reverse :: "nat \<Rightarrow> nat \<Rightarrow> u8 list \<Rightarrow> u8 list" where
  "itoa_reverse firstdig p buf =
     (let temp = buf ! p;
          buf = buf[p := buf ! firstdig];
          buf = buf[firstdig := temp];
          p = p - 1;
          firstdig = firstdig + 1
      in if firstdig < p then itoa_reverse firstdig p buf else buf)"
  by pat_completeness auto
termination by (relation "measure (\<lambda>(f, p, _). p - f)") auto

declare itoa_reverse.simps [simp del]

definition itoa :: "u64 \<Rightarrow> u8 list \<Rightarrow> u32 \<Rightarrow> u8 list option" where
  "itoa val buf radix = do {
     (p, buf) \<leftarrow> itoa_digits val radix 0 buf;
     guard (p < length buf);
     let buf = buf[p := 0];
     Some (itoa_reverse 0 (p - 1) buf)
   }"

subsection \<open>print\<close>

text \<open>The arguments of \<^verbatim>\<open>print\<close>: an \<^verbatim>\<open>int\<close> or the bytes of a string. Reading an argument of
  the wrong kind or one too many is a fault. The result is the bytes written.\<close>

datatype print_arg = IntArg u32 | StrArg "u8 list"

definition c_string :: "u8 list \<Rightarrow> u8 list" where
  "c_string bs = takeWhile (\<lambda>b. b \<noteq> 0) bs"

text \<open>\<^verbatim>\<open>itoa(i, store, radix)\<close> on \<^verbatim>\<open>char store[20]\<close>; the \<^verbatim>\<open>int\<close> is converted to
  \<^verbatim>\<open>unsigned long\<close>, which sign-extends it to 64 bits.\<close>

definition print_int :: "u32 \<Rightarrow> u32 \<Rightarrow> u8 list option" where
  "print_int i radix = map_option c_string (itoa (scast i) (replicate 20 0) radix)"

fun print :: "u8 list \<Rightarrow> print_arg list \<Rightarrow> u8 list option" where
  "print [] args = Some []"
| "print [c] args = (if c = 37 then None else Some [c])"
| "print (c # d # fs) args =
     (if c \<noteq> 37 then map_option (Cons c) (print (d # fs) args)
      else if d = 99 then (case args of
          IntArg i # args \<Rightarrow> map_option (Cons (ucast i)) (print fs args) | _ \<Rightarrow> None)
      else if d = 100 \<or> d = 105 then (case args of
          IntArg i # args \<Rightarrow> do { s \<leftarrow> print_int i 10; r \<leftarrow> print fs args; Some (s @ r) } | _ \<Rightarrow> None)
      else if d = 111 then (case args of
          IntArg i # args \<Rightarrow> do { s \<leftarrow> print_int i 8; r \<leftarrow> print fs args; Some (s @ r) } | _ \<Rightarrow> None)
      else if d = 120 then (case args of
          IntArg i # args \<Rightarrow> do { s \<leftarrow> print_int i 16; r \<leftarrow> print fs args; Some (s @ r) } | _ \<Rightarrow> None)
      else if d = 115 then (case args of
          StrArg s # args \<Rightarrow> map_option (append (c_string s)) (print fs args) | _ \<Rightarrow> None)
      else print fs args)"

subsection \<open>What the memory functions compute\<close>

lemma memcpy_loop_copies:
  "r1 \<le> r2 \<or> r2 + n \<le> r1 \<Longrightarrow>
    memcpy_loop r1 r2 n m = (\<lambda>a. if r1 \<le> a \<and> a < r1 + n then m (r2 + (a - r1)) else m a)"
proof (induction n arbitrary: r1 r2 m)
  case (Suc n)
  have "r1 + 1 \<le> r2 + 1 \<or> r2 + 1 + n \<le> r1 + 1" using Suc.prems by auto
  note ih = Suc.IH [OF this, of "m(r1 := m r2)"]
  show ?case
    unfolding memcpy_loop.simps ih
  proof
    fix a
    consider "a = r1" | "r1 < a" "a < r1 + Suc n" | "a < r1 \<or> r1 + Suc n \<le> a" by linarith
    then show "(if r1 + 1 \<le> a \<and> a < r1 + 1 + n then (m(r1 := m r2)) (r2 + 1 + (a - (r1 + 1)))
        else (m(r1 := m r2)) a) = (if r1 \<le> a \<and> a < r1 + Suc n then m (r2 + (a - r1)) else m a)"
    proof cases
      case 2
      then have "r2 + 1 + (a - (r1 + 1)) = r2 + (a - r1)" "r2 + (a - r1) \<noteq> r1"
        using Suc.prems by auto
      with 2 show ?thesis by simp
    qed auto
  qed
qed (auto simp: fun_eq_iff)

text \<open>\<open>fos_memcpy\<close> copies \<open>n\<close> bytes and changes nothing else, whenever the areas are
  disjoint or the destination starts before the source.\<close>

theorem fos_memcpy_copies:
  assumes "s1 \<le> s2 \<or> s2 + unat n \<le> s1"
  shows "fos_memcpy s1 s2 n m =
    (s1, \<lambda>a. if s1 \<le> a \<and> a < s1 + unat n then m (s2 + (a - s1)) else m a)"
  using memcpy_loop_copies [OF assms] by (simp add: fos_memcpy_def)

lemma fos_memset_sets:
  "fos_memset src byt n m = (src, \<lambda>a. if src \<le> a \<and> a < src + unat n then byt else m a)"
proof -
  have "memset_loop xs byt k m = (\<lambda>a. if xs \<le> a \<and> a < xs + k then byt else m a)" for xs k m
    by (induction k arbitrary: xs m) (auto simp: fun_eq_iff)
  then show ?thesis by (simp add: fos_memset_def)
qed

lemma fos_memchr_find: "fos_memchr m s c n = find (\<lambda>a. m a = ucast c) [s..<s + unat n]"
proof -
  have "memchr_loop m b r k = find (\<lambda>a. m a = b) [r..<r + k]" for b r k
    by (induction k arbitrary: r) (auto simp: upt_rec)
  then show ?thesis by (simp add: fos_memchr_def)
qed

text \<open>A C string in memory.\<close>

definition cstr :: "memory \<Rightarrow> nat \<Rightarrow> u8 list \<Rightarrow> bool" where
  "cstr m p bs \<longleftrightarrow> (\<forall>i<length bs. m (p + i) = bs ! i) \<and> 0 \<notin> set bs \<and> m (p + length bs) = 0"

lemma cstr_simps:
  "cstr m p [] \<longleftrightarrow> m p = 0"
  "cstr m p (b # bs) \<longleftrightarrow> m p = b \<and> b \<noteq> 0 \<and> cstr m (p + 1) bs"
  by (auto simp: cstr_def All_less_Suc2 nth_Cons split: nat.splits)

lemma fos_strlen_cstr:
  assumes "cstr m s bs"
  shows "fos_strlen m s = Some (word_of_nat (length bs))"
proof -
  have "strlen_from m p = Some (p + length bs)" if "cstr m p bs" for p
    using that by (induction bs arbitrary: p) (subst strlen_from.simps, simp add: cstr_simps)+
  then show ?thesis using assms by (simp add: fos_strlen_def)
qed

text \<open>On two C strings \<open>fos_strcmp\<close> returns, with 0 exactly for equal strings and
  otherwise the sign of their lexicographic order.\<close>

theorem fos_strcmp_orders:
  assumes "cstr m p bs" "cstr m q cs"
  shows "fos_strcmp m p q = Some (if bs = cs then 0
    else if (bs, cs) \<in> lexord {(a, b). a < b} then - 1 else 1)"
  using assms
proof (induction bs arbitrary: p q cs)
  case Nil
  then show ?case by (cases cs; subst fos_strcmp.simps) (auto simp: cstr_simps Let_def word_gt_0)
next
  case (Cons b bs)
  show ?case
  proof (cases cs)
    case Nil
    then show ?thesis using Cons.prems by (subst fos_strcmp.simps) (auto simp: cstr_simps Let_def)
  next
    case (Cons c cs')
    then have "cstr m (p + 1) bs" "cstr m (q + 1) cs'" "m p = b" "m q = c" "b \<noteq> 0" "c \<noteq> 0"
      using Cons.prems by (auto simp: cstr_simps)
    with Cons.IH Cons show ?thesis by (subst fos_strcmp.simps) (auto simp: Let_def)
  qed
qed

subsection \<open>The random numbers\<close>

lemma fos_rand_alt: "fos_rand x = drop_bit 1 x XOR (if odd x then 0xd0000001 else 0)"
proof -
  have "x AND 1 = of_bool (odd x)" by (simp add: and_one_eq mod_2_eq_odd)
  then show ?thesis by (simp add: fos_rand_def)
qed

lemma fos_rand_top_bit: "bit (fos_rand x) 31 \<longleftrightarrow> odd x"
proof -
  have "\<not> bit x 32" using bit_imp_le_length [of x 32] by auto
  then have "\<not> bit (drop_bit 1 x) 31" by (simp add: bit_drop_bit_eq)
  moreover have "bit (0xd0000001 :: u32) 31" by simp
  ultimately show ?thesis by (simp add: fos_rand_alt bit_xor_iff)
qed

text \<open>The step of the random generator is a permutation of the 32-bit numbers, and from a
  start value other than zero it never reaches zero.\<close>

theorem fos_rand_permutes: "bij fos_rand \<and> (\<forall>x. x \<noteq> 0 \<longrightarrow> fos_rand x \<noteq> 0)"
proof -
  have inj: "x = y" if "fos_rand x = fos_rand y" for x y
  proof -
    have o: "odd x = odd y" using fos_rand_top_bit that by metis
    let ?c = "if odd x then 0xd0000001 else 0 :: u32"
    have "drop_bit 1 x XOR ?c = drop_bit 1 y XOR ?c" using that o by (simp add: fos_rand_alt)
    then have "(drop_bit 1 x XOR ?c) XOR ?c = (drop_bit 1 y XOR ?c) XOR ?c" by (simp only:)
    then have d: "drop_bit 1 x = drop_bit 1 y" by (simp only: xor.assoc xor_self_eq xor.right_neutral)
    show ?thesis
    proof (rule bit_eqI)
      fix n
      show "bit x n = bit y n"
      proof (cases n)
        case 0
        then show ?thesis using o by (simp add: bit_0)
      next
        case (Suc j)
        have "bit (drop_bit 1 x) j = bit (drop_bit 1 y) j" using d by simp
        with Suc show ?thesis by (simp add: bit_drop_bit_eq)
      qed
    qed
  qed
  have "fos_rand 0 = 0" by (simp add: fos_rand_def)
  then have "x \<noteq> 0 \<longrightarrow> fos_rand x \<noteq> 0" for x using inj [of x 0] by auto
  moreover have "inj fos_rand" using inj by (rule injI)
  then have "bij fos_rand" using finite_UNIV_inj_surj [OF finite] by (blast intro: bijI)
  ultimately show ?thesis by blast
qed

subsection \<open>divide\<close>

text \<open>\<open>divide\<close> splits a number below $2^{32}$ into quotient and remainder for base 10 and,
  whatever other base is passed, for base 16.\<close>

theorem divide_quotient:
  assumes "unat n < 2 ^ 32" "b = (if bas = 10 then 10 else 16)"
  shows "unat (snd (divide n bas)) = unat n div b \<and> unat (fst (divide n bas)) = unat n mod b"
proof -
  have u: "unat (ucast n :: u32) = unat n"
    using assms(1) by (simp add: unsigned_ucast_eq take_bit_nat_eq_self)
  have "unat (ucast w :: u64) = unat w" for w :: u32
    using unat_u32_bound [of w]
    by (simp add: unsigned_ucast_eq take_bit_nat_eq_self less_trans [OF unat_u32_bound])
  then show ?thesis using assms(2) u by (simp add: divide_def unat_div unat_mod)
qed

subsection \<open>itoa\<close>

text \<open>The digits of a number, most significant first.\<close>

function digits :: "nat \<Rightarrow> nat \<Rightarrow> nat list" where
  "digits r n = (if r < 2 \<or> n < r then [n] else digits r (n div r) @ [n mod r])"
  by pat_completeness auto
termination by (relation "measure snd") auto

declare digits.simps [simp del]

lemma digits_nonempty [simp]: "digits r n \<noteq> []"
  by (subst digits.simps) simp

lemma digits_less: "2 \<le> r \<Longrightarrow> d \<in> set (digits r n) \<Longrightarrow> d < r"
  by (induction r n rule: digits.induct) (subst (asm) (2) digits.simps, auto split: if_splits)

definition digit_char :: "nat \<Rightarrow> u8" where
  "digit_char d = (if 9 < d then word_of_nat (d + 87) else word_of_nat (d + 48))"

lemma dig_char_digit:
  assumes "d < 36"
  shows "dig_char (word_of_nat d) = digit_char d"
proof -
  have "list_all (\<lambda>d. dig_char (word_of_nat d) = digit_char d) [0..<36]"
    by (simp add: dig_char_def digit_char_def upt_rec)
  with assms show ?thesis by (auto simp: list_all_iff)
qed

lemma itoa_digits_ok:
  assumes "2 \<le> unat radix" "unat radix \<le> 36" "p + length (digits (unat radix) (unat val)) \<le> length buf"
  shows "itoa_digits val radix p buf = Some (p + length (digits (unat radix) (unat val)),
    take p buf @ map digit_char (rev (digits (unat radix) (unat val))) @
      drop (p + length (digits (unat radix) (unat val))) buf)"
  using assms
proof (induction val radix p buf rule: itoa_digits.induct)
  case (1 val radix p buf)
  let ?r = "unat radix"
  have r: "radix \<noteq> 0" using "1.prems"(1) by auto
  have p: "p < length buf"
    using "1.prems"(3) by (metis add_leE digits_nonempty length_greater_0_conv le_add1
        less_le_trans nat_add_left_cancel_less add.right_neutral)
  have ur: "unat (ucast radix :: u64) = ?r"
    by (simp add: unsigned_ucast_eq take_bit_nat_eq_self less_trans [OF unat_u32_bound])
  define d where "d = unat val mod ?r"
  have dl: "d < 36" using "1.prems"(1,2) mod_less_divisor [of ?r "unat val"] unfolding d_def by linarith
  have dw: "dig_char (ucast (val mod ucast radix)) = digit_char d"
  proof -
    have "unat (val mod ucast radix) = d" by (simp add: unat_mod ur d_def)
    then have "unat (ucast (val mod ucast radix) :: u32) = d"
      using dl unfolding unsigned_ucast_eq by (simp add: take_bit_nat_eq_self)
    then have "(ucast (val mod ucast radix) :: u32) = word_of_nat d"
      using dl by (simp add: word_unat_eq_iff unat_of_nat)
    then show ?thesis using dig_char_digit [OF dl] by simp
  qed
  have uv: "unat (val div ucast radix) = unat val div ?r" by (simp add: unat_div ur)
  let ?b = "buf[p := digit_char d]"
  have step: "itoa_digits val radix p buf =
      (if 0 < val div ucast radix then itoa_digits (val div ucast radix) radix (p + 1) ?b
       else Some (p + 1, ?b))"
    using r p by (subst itoa_digits.simps) (simp add: Let_def dw not_le)
  show ?case
  proof (cases "unat val < ?r")
    case True
    then have "\<not> 0 < val div ucast radix" using uv by (simp add: word_gt_0 unat_eq_0 [symmetric])
    moreover have "digits ?r (unat val) = [d]"
      using True by (subst digits.simps) (simp add: d_def)
    ultimately show ?thesis using step p by (simp add: upd_conv_take_nth_drop)
  next
    case False
    then have pos: "0 < val div ucast radix"
      using uv "1.prems"(1) by (simp add: word_gt_0 unat_eq_0 [symmetric] div_eq_0_iff)
    have ds: "digits ?r (unat val) = digits ?r (unat (val div ucast radix)) @ [d]"
      using False "1.prems"(1) by (subst digits.simps) (simp add: d_def uv)
    have "itoa_digits (val div ucast radix) radix (p + 1) ?b =
        Some (p + 1 + length (digits ?r (unat (val div ucast radix))),
          take (p + 1) ?b @ map digit_char (rev (digits ?r (unat (val div ucast radix)))) @
          drop (p + 1 + length (digits ?r (unat (val div ucast radix)))) ?b)"
      using "1.IH" [OF _ refl refl refl refl pos] "1.prems" ds r p dw by simp
    moreover have "take (p + 1) ?b = take p buf @ [digit_char d]"
      using p by (simp add: take_Suc_conv_app_nth)
    ultimately show ?thesis using step pos ds by simp
  qed
qed

lemma itoa_reverse_nth:
  assumes "f \<le> p" "p < length buf"
  shows "length (itoa_reverse f p buf) = length buf \<and>
    (\<forall>j<length buf. itoa_reverse f p buf ! j = (if f \<le> j \<and> j \<le> p then buf ! (f + p - j) else buf ! j))"
  using assms
proof (induction f p buf rule: itoa_reverse.induct)
  case (1 f p buf)
  let ?b = "buf[p := buf ! f, f := buf ! p]"
  have b: "?b ! j = (if j = f then buf ! p else if j = p then buf ! f else buf ! j)"
    if "j < length buf" for j
    using that "1.prems" by (simp add: nth_list_update)
  have step: "itoa_reverse f p buf = (if f + 1 < p - 1 then itoa_reverse (f + 1) (p - 1) ?b else ?b)"
    by (subst itoa_reverse.simps) (simp add: Let_def)
  show ?case
  proof (cases "f + 1 < p - 1")
    case True
    have ih: "length (itoa_reverse (f + 1) (p - 1) ?b) = length buf"
      "\<forall>j<length buf. itoa_reverse (f + 1) (p - 1) ?b ! j =
        (if f + 1 \<le> j \<and> j \<le> p - 1 then ?b ! (f + 1 + (p - 1) - j) else ?b ! j)"
      using "1.IH" [OF refl refl refl refl refl True] True "1.prems" by auto
    have "itoa_reverse f p buf ! j = (if f \<le> j \<and> j \<le> p then buf ! (f + p - j) else buf ! j)"
      if j: "j < length buf" for j
    proof -
      have e: "f + 1 + (p - 1) - j = f + p - j" using True by simp
      consider "f + 1 \<le> j" "j \<le> p - 1" | "j = f" | "j = p" | "j < f \<or> p < j"
        using True by linarith
      then show ?thesis
      proof cases
        case 1
        then have "f + p - j < length buf" "f + p - j \<noteq> f" "f + p - j \<noteq> p"
          using "1.prems" True by auto
        then show ?thesis using 1 ih(2) step True b e j by auto
      qed (use ih(2) step True b j in auto)
    qed
    with ih(1) step True show ?thesis by simp
  next
    case False
    then have "p = f \<or> p = f + 1 \<or> p = f + 2" using "1.prems"(1) by linarith
    then have "?b ! j = (if f \<le> j \<and> j \<le> p then buf ! (f + p - j) else buf ! j)"
      if "j < length buf" for j
      using b [OF that] by (elim disjE) (auto simp: le_Suc_eq numeral_2_eq_2)
    with False step show ?thesis by simp
  qed
qed

lemma itoa_reverse_rev:
  "xs \<noteq> [] \<Longrightarrow> itoa_reverse 0 (length xs - 1) (rev xs @ ys) = xs @ ys"
proof (rule nth_equalityI)
  assume ne: "xs \<noteq> []"
  have "length xs - 1 < length (rev xs @ ys)" using ne by (cases xs) auto
  note r = itoa_reverse_nth [OF _ this, of 0]
  show l: "length (itoa_reverse 0 (length xs - 1) (rev xs @ ys)) = length (xs @ ys)"
    using r ne by simp
  have c: "i \<le> length xs - 1 \<longleftrightarrow> i < length xs" for i using ne by (cases xs) auto
  fix i assume "i < length (itoa_reverse 0 (length xs - 1) (rev xs @ ys))"
  then have i: "i < length (rev xs @ ys)" using l by simp
  then have "itoa_reverse 0 (length xs - 1) (rev xs @ ys) ! i =
      (if i < length xs then (rev xs @ ys) ! (length xs - Suc i) else (rev xs @ ys) ! i)"
    using r c [of i] by simp
  then show "itoa_reverse 0 (length xs - 1) (rev xs @ ys) ! i = (xs @ ys) ! i"
    using i ne by (cases "i < length xs") (auto simp: nth_append rev_nth)
qed

text \<open>\<open>itoa\<close> writes the digits of its argument, most significant first, and a terminator,
  and leaves the rest of the array as it was, for every radix from 2 to 36 and every array
  with room for them.\<close>

theorem itoa_digits_string:
  assumes "2 \<le> unat radix" "unat radix \<le> 36"
    and "length (digits (unat radix) (unat val)) < length buf"
  shows "itoa val buf radix = Some (map digit_char (digits (unat radix) (unat val)) @ [0] @
    drop (length (digits (unat radix) (unat val)) + 1) buf)"
proof -
  let ?d = "map digit_char (digits (unat radix) (unat val))"
  have n: "length (digits (unat radix) (unat val)) = length ?d" by simp
  have "itoa_digits val radix 0 buf = Some (length ?d, rev ?d @ drop (length ?d) buf)"
    using itoa_digits_ok [OF assms(1,2), of 0 val buf] assms(3) by (simp add: rev_map)
  moreover have "(rev ?d @ drop (length ?d) buf)[length ?d := 0] = rev ?d @ [0] @ drop (length ?d + 1) buf"
    using assms(3) by (simp add: list_update_append Cons_nth_drop_Suc [symmetric])
  ultimately show ?thesis
    using assms(3) itoa_reverse_rev [of ?d "[0] @ drop (length ?d + 1) buf"] unfolding n
    by (simp add: itoa_def)
qed

theorem itoa_digits_string_witness:
  "itoa 255 [7, 7, 7, 7, 7, 7] 16 = Some [102, 102, 0, 7, 7, 7]"
proof -
  have "digits 16 255 = [15, 15]" by (simp add: digits.simps)
  then show ?thesis
    using itoa_digits_string [of 16 255 "[7, 7, 7, 7, 7, 7]"] by (simp add: digit_char_def)
qed

theorem fos_memcpy_copies_witness:
  "snd (fos_memcpy 0 4 2 (\<lambda>a. if a = 5 then 9 else 1)) 1 = 9"
  using fos_memcpy_copies [of 0 4 2 "\<lambda>a. if a = 5 then 9 else 1"] by simp

theorem fos_strcmp_orders_witness:
  "fos_strcmp (\<lambda>a. if a = 0 then 65 else if a = 2 then 66 else 0) 0 2 = Some (- 1)"
  using fos_strcmp_orders [of "\<lambda>a. if a = 0 then 65 else if a = 2 then 66 else 0" 0 "[65]" 2 "[66]"]
  by (simp add: cstr_simps)

theorem fos_rand_permutes_witness: "fos_rand 0x14b6bc3c \<noteq> 0"
  using fos_rand_permutes by (auto dest!: conjunct2)

end
