(* ===== verification/FosFsm.thy ===== *)
theory FosFsm
  imports FosLinks
begin

text \<open>
  The state machine library (\<^verbatim>\<open>kernel/fsm.c\<close>): a linked list of the states with their
  functions, the current state \<^verbatim>\<open>fsm_obj\<close>, and transitions that look a state up by its
  number. What \<^verbatim>\<open>malloc\<close> returns is an argument: the address of the new node, or NULL, and the
  contents of the new object. The link is the first member of \<^verbatim>\<open>STATE_DIS\<close>, so a node and
  its link have the same address. The error messages are left out.
\<close>

subsection \<open>Data\<close>

type_synonym s32 = "32 word"

record STATE_DIS =
  sd_state :: s32
  sd_func :: "nat option"
  sd_name :: string

record FSM =
  fsm_state :: s32
  fsm_func :: "nat option"
  fsm_name :: string
  fsm_message :: "u8 list"

abbreviation (input) "MSG_LEN \<equiv> (1024 :: nat)"

record fsm =
  node :: "nat lheap"
  dis :: "nat \<Rightarrow> STATE_DIS"
  fsm_obj :: "FSM option"
  fsm_default :: FSM
  state_obj :: "nat option"
  state_obj_copy :: "nat option"

subsection \<open>Operations\<close>

text \<open>\<open>p\<close> and \<open>f\<close> are the results of the two calls of \<^verbatim>\<open>malloc\<close>.\<close>

definition fsm_init :: "nat option \<Rightarrow> FSM option \<Rightarrow> fsm \<Rightarrow> fsm" where
  "fsm_init p f s = (let s = s\<lparr>state_obj := p\<rparr> in
     if p = None then s else s\<lparr>fsm_obj := f\<rparr>)"

text \<open>A NULL pointer is only reported, and then used.\<close>

definition state_init ::
    "nat option \<Rightarrow> FSM option \<Rightarrow> s32 \<Rightarrow> nat option \<Rightarrow> string \<Rightarrow> fsm \<Rightarrow> fsm option" where
  "state_init p f st func name s = do {
     let s = fsm_init p f s;
     o' \<leftarrow> fsm_obj s;
     let s = s\<lparr>fsm_obj := Some (o'\<lparr>fsm_state := st, fsm_func := func, fsm_name := name\<rparr>)\<rparr>;
     n \<leftarrow> state_obj s;
     let s = s\<lparr>dis := (dis s)(n := \<lparr>sd_state = st, sd_func = func, sd_name = name\<rparr>)\<rparr>;
     let s = s\<lparr>state_obj_copy := state_obj s\<rparr>;
     Some (s\<lparr>node := list_init n (node s)\<rparr>) }"

definition state_add :: "nat option \<Rightarrow> s32 \<Rightarrow> nat option \<Rightarrow> string \<Rightarrow> fsm \<Rightarrow> fsm option" where
  "state_add p st func name s = do {
     n \<leftarrow> p;
     let s = s\<lparr>dis := (dis s)(n := \<lparr>sd_state = st, sd_func = func, sd_name = name\<rparr>)\<rparr>;
     so \<leftarrow> state_obj s;
     let s = s\<lparr>node := list_insert so n (node s)\<rparr>;
     Some (s\<lparr>state_obj := nxt (node s so)\<rparr>) }"

text \<open>The loop of \<^verbatim>\<open>state_remove\<close> and \<^verbatim>\<open>state_tran\<close>: the first node from \<open>tmp\<close> with the
  number, the last node being looked at behind the loop.\<close>

partial_function (option) fsm_search :: "s32 \<Rightarrow> fsm \<Rightarrow> nat \<Rightarrow> nat option option" where
  "fsm_search st s tmp =
     (if \<not> is_list_empty (node s) tmp then
        (if sd_state (dis s tmp) = st then Some (Some tmp)
         else do { tmp \<leftarrow> nxt (node s tmp); fsm_search st s tmp })
      else if sd_state (dis s tmp) = st then Some (Some tmp)
      else Some None)"

definition state_remove :: "s32 \<Rightarrow> fsm \<Rightarrow> fsm option" where
  "state_remove st s = do {
     tmp \<leftarrow> state_obj_copy s;
     found \<leftarrow> fsm_search st s tmp;
     case found of
       None \<Rightarrow> Some s
     | Some n \<Rightarrow> do {
         h \<leftarrow> list_delete n (node s);
         Some (s\<lparr>node := h, dis := (dis s)(n := \<lparr>sd_state = 10000, sd_func = None, sd_name = []\<rparr>)\<rparr>) } }"

definition state_default :: "s32 \<Rightarrow> nat option \<Rightarrow> string \<Rightarrow> fsm \<Rightarrow> fsm option" where
  "state_default st func name s = do {
     o' \<leftarrow> fsm_obj s;
     Some (s\<lparr>fsm_obj := Some (o'\<lparr>fsm_state := st, fsm_func := func, fsm_name := name\<rparr>)\<rparr>) }"

text \<open>\<^verbatim>\<open>memcpy\<close> of the characters of a message without their terminator into the cleared array; more
  than \<^verbatim>\<open>MSG_LEN\<close> of them are a fault.\<close>

definition fsm_message_copy :: "u8 list option \<Rightarrow> FSM \<Rightarrow> FSM option" where
  "fsm_message_copy msg f = (case msg of
     None \<Rightarrow> Some f
   | Some bs \<Rightarrow> (if length bs \<le> length (fsm_message f)
       then Some (f\<lparr>fsm_message := bs @ drop (length bs) (fsm_message f)\<rparr>) else None))"

definition state_tran :: "s32 \<Rightarrow> u8 list option \<Rightarrow> fsm \<Rightarrow> fsm option" where
  "state_tran st msg s = do {
     tmp \<leftarrow> state_obj_copy s;
     f \<leftarrow> fsm_obj s;
     let s = s\<lparr>fsm_obj := Some (f\<lparr>fsm_message := replicate MSG_LEN 0\<rparr>)\<rparr>;
     found \<leftarrow> fsm_search st s tmp;
     case found of
       Some n \<Rightarrow> do {
         f \<leftarrow> fsm_obj s;
         f \<leftarrow> fsm_message_copy msg
           (f\<lparr>fsm_func := sd_func (dis s n), fsm_name := sd_name (dis s n), fsm_state := st\<rparr>);
         Some (s\<lparr>fsm_obj := Some f\<rparr>) }
     | None \<Rightarrow> state_default (fsm_state (fsm_default s)) (fsm_func (fsm_default s))
                 (fsm_name (fsm_default s)) s }"

text \<open>One round of the endless loop of \<^verbatim>\<open>fsm_while\<close>; \<open>call\<close> runs the state's function on the
  message.\<close>

definition fsm_while_round :: "(nat \<Rightarrow> u8 list \<Rightarrow> fsm \<Rightarrow> fsm option) \<Rightarrow> fsm \<Rightarrow> fsm option" where
  "fsm_while_round call s = do {
     f \<leftarrow> fsm_obj s;
     func \<leftarrow> fsm_func f;
     call func (fsm_message f) s }"

subsection \<open>The table of states\<close>

text \<open>The state \<open>s\<close> holds the nodes \<open>q # xs\<close>, new ones being added behind the last.\<close>

definition fsm_holds :: "fsm \<Rightarrow> nat \<Rightarrow> nat list \<Rightarrow> bool" where
  "fsm_holds s q xs \<longleftrightarrow> lrep (node s) q xs \<and> state_obj_copy s = Some q \<and>
     state_obj s = Some (last (q # xs))"

lemma fsm_search_finds:
  "lrep (node s) q xs \<Longrightarrow> fsm_search st s q = Some (find (\<lambda>n. sd_state (dis s n) = st) (q # xs))"
proof (induction xs arbitrary: q)
  case Nil
  then have "is_list_empty (node s) q" by (simp add: lrep_Nil is_list_last_def is_list_empty_def)
  then show ?case by (subst fsm_search.simps) simp
next
  case (Cons x xs)
  then have x: "nxt (node s q) = Some x" "q \<noteq> x" "lrep (node s) x xs"
    by (auto simp: lrep_Cons linked_def)
  then have "\<not> is_list_empty (node s) q" by (simp add: is_list_empty_def)
  then show ?case using x(1) Cons.IH [OF x(3)] by (subst fsm_search.simps) simp
qed

lemma state_init_holds:
  "state_init (Some n) (Some f) st func name s = Some s' \<Longrightarrow> fsm_holds s' n []"
  by (auto simp: state_init_def fsm_init_def Let_def fsm_holds_def list_init_lrep)

lemma state_add_holds:
  assumes "fsm_holds s q xs" "n \<notin> set (q # xs)"
  shows "\<exists>s'. state_add (Some n) st func name s = Some s' \<and> fsm_holds s' q (xs @ [n]) \<and>
    dis s' = (dis s)(n := \<lparr>sd_state = st, sd_func = func, sd_name = name\<rparr>) \<and>
    fsm_obj s' = fsm_obj s \<and> fsm_default s' = fsm_default s"
  using assms list_insert_last_lrep [of "node s" q xs n]
  by (auto simp: state_add_def fsm_holds_def Let_def list_insert_def)

text \<open>The states added one after the other: node, number, function, name.\<close>

type_synonym entry = "nat \<times> s32 \<times> nat option \<times> string"

fun state_adds :: "entry list \<Rightarrow> fsm \<Rightarrow> fsm option" where
  "state_adds [] s = Some s"
| "state_adds ((n, st, func, name) # es) s = do {
     s \<leftarrow> state_add (Some n) st func name s;
     state_adds es s }"

definition in_table :: "fsm \<Rightarrow> entry \<Rightarrow> bool" where
  "in_table s e = (case e of (n, st, func, name) \<Rightarrow>
     dis s n = \<lparr>sd_state = st, sd_func = func, sd_name = name\<rparr>)"

lemma state_adds_hold:
  assumes "fsm_holds s q xs" "distinct (q # xs @ map fst es)"
  shows "\<exists>s'. state_adds es s = Some s' \<and> fsm_holds s' q (xs @ map fst es) \<and>
    list_all (in_table s') es \<and> (\<forall>n. n \<notin> fst ` set es \<longrightarrow> dis s' n = dis s n) \<and>
    fsm_obj s' = fsm_obj s \<and> fsm_default s' = fsm_default s"
  using assms
proof (induction es arbitrary: s xs)
  case (Cons e es)
  obtain n st func name where e: "e = (n, st, func, name)" by (cases e) auto
  have d: "distinct (q # (xs @ [n]) @ map fst es)" and n: "n \<notin> set (q # xs)" and m: "n \<notin> set (map fst es)"
    using Cons.prems(2) by (simp_all add: e)
  obtain s1 where s1: "state_add (Some n) st func name s = Some s1" "fsm_holds s1 q (xs @ [n])"
    "dis s1 = (dis s)(n := \<lparr>sd_state = st, sd_func = func, sd_name = name\<rparr>)"
    "fsm_obj s1 = fsm_obj s" "fsm_default s1 = fsm_default s"
    using state_add_holds [OF Cons.prems(1) n, of st func name] by blast
  obtain s2 where s2: "state_adds es s1 = Some s2" "fsm_holds s2 q ((xs @ [n]) @ map fst es)"
    "list_all (in_table s2) es" "\<And>m. m \<notin> fst ` set es \<Longrightarrow> dis s2 m = dis s1 m"
    "fsm_obj s2 = fsm_obj s1" "fsm_default s2 = fsm_default s1"
    using Cons.IH [OF s1(2) d] by blast
  have "n \<notin> fst ` set es" using m by (simp only: set_map not_False_eq_True)
  then have t: "in_table s2 e" using s2(4) s1(3) e by (simp add: in_table_def)
  have "state_adds (e # es) s = Some s2" using s1(1) s2(1) e by simp
  moreover have "\<forall>m. m \<notin> fst ` set (e # es) \<longrightarrow> dis s2 m = dis s m" using s2(4) s1(3) e by simp
  moreover have "list_all (in_table s2) (e # es)" "fsm_holds s2 q (xs @ map fst (e # es))"
    using t s2(2,3) e by simp_all
  moreover have "fsm_obj s2 = fsm_obj s" "fsm_default s2 = fsm_default s" using s1(4,5) s2(5,6) by simp_all
  ultimately show ?case by blast
qed simp

lemma find_in_table:
  "list_all (in_table s) es \<Longrightarrow> find (\<lambda>n. sd_state (dis s n) = st) (map fst es) =
     map_option fst (find (\<lambda>e. fst (snd e) = st) es)"
  by (induction es) (auto simp: in_table_def)

lemma find_in_tableD:
  "list_all (in_table s) es \<Longrightarrow> find (\<lambda>e. fst (snd e) = st) es = Some e \<Longrightarrow> in_table s e"
  by (auto simp: find_Some_iff list_all_iff)

lemma state_tran_result:
  assumes "fsm_holds s q xs" "fsm_obj s = Some f" "length msg \<le> MSG_LEN"
  shows "\<exists>s'. state_tran st (Some msg) s = Some s' \<and> fsm_obj s' = Some
    (case find (\<lambda>n. sd_state (dis s n) = st) (q # xs) of
       Some n \<Rightarrow> f\<lparr>fsm_state := st, fsm_func := sd_func (dis s n), fsm_name := sd_name (dis s n),
         fsm_message := msg @ replicate (MSG_LEN - length msg) 0\<rparr>
     | None \<Rightarrow> (fsm_default s)\<lparr>fsm_message := replicate MSG_LEN 0\<rparr>)"
proof -
  define s1 where "s1 = s\<lparr>fsm_obj := Some (f\<lparr>fsm_message := replicate MSG_LEN 0\<rparr>)\<rparr>"
  have "lrep (node s1) q xs" using assms(1) by (simp add: fsm_holds_def s1_def)
  from fsm_search_finds [OF this, of st]
  have "fsm_search st s1 q = Some (find (\<lambda>n. sd_state (dis s n) = st) (q # xs))" by (simp add: s1_def)
  moreover obtain r where r: "find (\<lambda>n. sd_state (dis s n) = st) (q # xs) = r" by blast
  ultimately have s1: "fsm_search st s1 q = Some r" "state_obj_copy s = Some q"
    using assms(1) by (simp_all add: fsm_holds_def)
  obtain dst dfn dnm dms where d: "fsm_default s = \<lparr>fsm_state = dst, fsm_func = dfn, fsm_name = dnm, fsm_message = dms\<rparr>"
    by (cases "fsm_default s")
  show ?thesis
    unfolding r using s1 assms(2,3) d
    by (cases r; cases f) (simp_all add: state_tran_def Let_def s1_def fsm_message_copy_def state_default_def)
qed

text \<open>C39: A machine built from a table of states dispatches by the first entry with the number: after
  \<^verbatim>\<open>state_init\<close> and one \<^verbatim>\<open>state_add\<close> per entry, \<^verbatim>\<open>state_tran\<close> selects that
  entry's function and name and stores the message, padded with zeroes; a number that is not in
  the table leads to the default state with an empty message.\<close>

theorem fsm_dispatches:
  assumes "distinct (map fst (e # es))" "length msg \<le> MSG_LEN" "e = (q, st0, func0, name0)"
  shows "\<exists>s1 s2 s3. state_init (Some q) (Some f) st0 func0 name0 s = Some s1 \<and>
    state_adds es s1 = Some s2 \<and> state_tran st (Some msg) s2 = Some s3 \<and>
    fsm_obj s3 = Some (case find (\<lambda>e. fst (snd e) = st) (e # es) of
       Some (n, _, func, name) \<Rightarrow> \<lparr>fsm_state = st, fsm_func = func, fsm_name = name,
         fsm_message = msg @ replicate (MSG_LEN - length msg) 0\<rparr>
     | None \<Rightarrow> (fsm_default s)\<lparr>fsm_message := replicate MSG_LEN 0\<rparr>)"
proof -
  obtain s1 where s1: "state_init (Some q) (Some f) st0 func0 name0 s = Some s1" "in_table s1 e"
    "fsm_obj s1 = Some (f\<lparr>fsm_state := st0, fsm_func := func0, fsm_name := name0\<rparr>)"
    "fsm_default s1 = fsm_default s"
    by (simp add: state_init_def fsm_init_def Let_def in_table_def assms(3))
  obtain s2 where s2: "state_adds es s1 = Some s2" "fsm_holds s2 q (map fst es)"
    "list_all (in_table s2) es" "\<And>n. n \<notin> fst ` set es \<Longrightarrow> dis s2 n = dis s1 n"
    "fsm_obj s2 = fsm_obj s1" "fsm_default s2 = fsm_default s1"
    using state_adds_hold [OF state_init_holds [OF s1(1)], of es] assms(1,3) by auto
  have "q \<notin> fst ` set es" using assms(1,3) by (simp add: set_map)
  then have all: "list_all (in_table s2) (e # es)"
    using s2(3,4) s1(2) assms(3) by (simp add: in_table_def)
  obtain s3 where "state_tran st (Some msg) s2 = Some s3" and o3: "fsm_obj s3 = Some
    (case find (\<lambda>n. sd_state (dis s2 n) = st) (map fst (e # es)) of
       Some n \<Rightarrow> (f\<lparr>fsm_state := st0, fsm_func := func0, fsm_name := name0\<rparr>)\<lparr>fsm_state := st,
         fsm_func := sd_func (dis s2 n), fsm_name := sd_name (dis s2 n),
         fsm_message := msg @ replicate (MSG_LEN - length msg) 0\<rparr>
     | None \<Rightarrow> (fsm_default s2)\<lparr>fsm_message := replicate MSG_LEN 0\<rparr>)"
    using state_tran_result [OF s2(2) _ assms(2), of _ st] s1(3) s2(5) assms(3) by auto
  moreover have "fsm_obj s3 = Some (case find (\<lambda>e. fst (snd e) = st) (e # es) of
       Some (n, _, func, name) \<Rightarrow> \<lparr>fsm_state = st, fsm_func = func, fsm_name = name,
         fsm_message = msg @ replicate (MSG_LEN - length msg) 0\<rparr>
     | None \<Rightarrow> (fsm_default s)\<lparr>fsm_message := replicate MSG_LEN 0\<rparr>)"
    unfolding o3 find_in_table [OF all]
    using find_in_tableD [OF all, of st] s1(4) s2(6)
    by (cases "find (\<lambda>e. fst (snd e) = st) (e # es)") (auto simp: in_table_def)
  ultimately show ?thesis using s1(1) s2(1) by blast
qed

text \<open>Removing the state that was added last leaves \<^verbatim>\<open>state_obj\<close> at its node, so a state that is
  added afterwards is linked behind a node that is on no list any more.\<close>

theorem state_add_after_remove_lost:
  assumes "fsm_holds s q (xs @ [x])" "fsm_search st s q = Some (Some x)" "n \<notin> set (q # xs @ [x])"
  shows "\<exists>s1 s2. state_remove st s = Some s1 \<and> state_add (Some n) st' func name s1 = Some s2 \<and>
    fsm_search st' s2 q = Some (find (\<lambda>n. sd_state (dis s n) = st') (q # xs))"
proof -
  have l: "lrep (node s) q (xs @ [x])" "state_obj_copy s = Some q" "state_obj s = Some x"
    using assms(1) by (simp_all add: fsm_holds_def)
  have d: "x \<notin> set (q # xs)" using l(1) by (auto simp: lrep_def)
  obtain h where h: "list_delete x (node s) = Some h" "lrep h q xs"
    using list_delete_lrep [of "node s" q xs x "[]"] l(1) by auto
  let ?s1 = "s\<lparr>node := h, dis := (dis s)(x := \<lparr>sd_state = 10000, sd_func = None, sd_name = []\<rparr>)\<rparr>"
  let ?s2 = "?s1\<lparr>dis := (dis ?s1)(n := \<lparr>sd_state = st', sd_func = func, sd_name = name\<rparr>),
    node := list_insert x n h, state_obj := nxt (list_insert x n h x)\<rparr>"
  have r: "state_remove st s = Some ?s1" using l(2) assms(2) h(1) by (simp add: state_remove_def)
  have a: "state_add (Some n) st' func name ?s1 = Some ?s2" using l(3) by (simp add: state_add_def Let_def)
  have "list_insert x n h m = h m" if "m \<in> set (q # xs)" for m
    using that d assms(3) by (auto simp: list_insert_def Let_def set_nxt_def set_prv_def)
  then have "lrep (node ?s2) q xs" using h(2) lrep_cong [of q xs "list_insert x n h" h] by simp
  from fsm_search_finds [OF this, of st']
  have "fsm_search st' ?s2 q = Some (find (\<lambda>n. sd_state (dis ?s2 n) = st') (q # xs))" .
  also have "find (\<lambda>n. sd_state (dis ?s2 n) = st') (q # xs) = find (\<lambda>n. sd_state (dis s n) = st') (q # xs)"
    by (rule find_cong) (use d assms(3) in auto)
  finally show ?thesis using r a by blast
qed

definition demo_fsm :: fsm where
  "demo_fsm = \<lparr>node = (\<lambda>_. \<lparr>prv = None, nxt = None\<rparr>),
     dis = (\<lambda>_. \<lparr>sd_state = 0, sd_func = None, sd_name = []\<rparr>), fsm_obj = None,
     fsm_default = \<lparr>fsm_state = 0, fsm_func = None, fsm_name = ''state_default'', fsm_message = []\<rparr>,
     state_obj = None, state_obj_copy = None\<rparr>"

theorem fsm_dispatches_witness:
  "\<exists>s1 s2 s3. state_init (Some 1) (Some (fsm_default demo_fsm)) 1 (Some 10) ''one'' demo_fsm = Some s1 \<and>
     state_adds [(2, 2, Some 20, ''two'')] s1 = Some s2 \<and> state_tran 2 (Some [65]) s2 = Some s3 \<and>
     map_option fsm_func (fsm_obj s3) = Some (Some 20)"
  using fsm_dispatches [of "(1, 1, Some 10, ''one'')" "[(2, 2, Some 20, ''two'')]" "[65]" 1 1 "Some 10" "''one''"
    "fsm_default demo_fsm" demo_fsm 2]
  by fastforce

end
