(* ===== verification/FosMemBlock.thy ===== *)
theory FosMemBlock
  imports FosLinks
begin

text \<open>
  The pool allocator (\<^verbatim>\<open>kernel/mem_block.c\<close>). Addresses are 32-bit numbers; the pool's list
  links the blocks' descriptors, each of which is a local variable of the call that made it:
  its address is an argument of \<open>mem_alloca\<close>. \<open>masked\<close> says that the interrupts are off.
\<close>

subsection \<open>Data\<close>

datatype mlink = PoolHead | BlockL nat

record MEM_BLOCK =
  mb_ptr :: u32
  if_valid :: u8
  mb_flag :: u32

record mem_pool =
  mlist :: "mlink lheap"
  mblocks :: "nat \<Rightarrow> MEM_BLOCK"
  msize :: u32
  mvalid :: u32
  valid_ptr :: u32
  masked :: bool

subsection \<open>Operations\<close>

definition mem_create :: "u32 \<Rightarrow> u32 \<Rightarrow> u32 \<Rightarrow> mem_pool \<Rightarrow> mem_pool option" where
  "mem_create start len block_size p = do {
     let p = p\<lparr>msize := block_size\<rparr>;
     guard (block_size \<noteq> 0);
     let p = p\<lparr>mvalid := len div block_size\<rparr>;
     let p = p\<lparr>valid_ptr := start\<rparr>;
     Some (p\<lparr>mlist := list_init PoolHead (mlist p)\<rparr>) }"

definition mem_alloca :: "nat \<Rightarrow> u32 \<Rightarrow> mem_pool \<Rightarrow> (u32 option \<times> mem_pool) option" where
  "mem_alloca mb sz p = do {
     let cpu_status = masked p;
     let p = p\<lparr>masked := True\<rparr>;
     guard (msize p \<noteq> 0);
     let n = sz div msize p;
     let p = p\<lparr>mvalid := mvalid p - n - 1\<rparr>;
     (address, p) \<leftarrow> (if mvalid p > 0 then do {
         let address = valid_ptr p;
         let p = p\<lparr>valid_ptr := valid_ptr p + mvalid p * msize p\<rparr>;
         let p = p\<lparr>mblocks := (mblocks p)(mb := \<lparr>mb_ptr = address, if_valid = 0, mb_flag = n + 1\<rparr>)\<rparr>;
         h \<leftarrow> list_insert_behind PoolHead (BlockL mb) (mlist p);
         Some (Some address, p\<lparr>mlist := h\<rparr>) }
       else Some (None, p));
     Some (address, p\<lparr>masked := cpu_status\<rparr>) }"

text \<open>The search of \<^verbatim>\<open>mem_free\<close>, from the node \<open>tmp\<close>.\<close>

partial_function (option) mem_search :: "u32 \<Rightarrow> mem_pool \<Rightarrow> mlink \<Rightarrow> nat option option" where
  "mem_search address p tmp =
     (if is_list_last (mlist p) tmp then Some None
      else do {
        tmp \<leftarrow> nxt (mlist p tmp);
        (case tmp of
           PoolHead \<Rightarrow> None
         | BlockL b \<Rightarrow> if mb_ptr (mblocks p b) = address then Some (Some b) else mem_search address p tmp) })"

definition mem_free :: "u32 \<Rightarrow> mem_pool \<Rightarrow> (bool \<times> mem_pool) option" where
  "mem_free address p = do {
     let cpu_status = masked p;
     let p = p\<lparr>masked := True\<rparr>;
     found \<leftarrow> mem_search address p PoolHead;
     case found of
       Some b \<Rightarrow> Some (True, p\<lparr>mblocks := (mblocks p)(b := (mblocks p b)\<lparr>if_valid := 1\<rparr>)\<rparr>)
     | None \<Rightarrow> Some (False, p\<lparr>masked := cpu_status\<rparr>) }"

subsection \<open>What the allocator hands out\<close>

text \<open>A pool whose list is empty or holds the one descriptor \<open>mb\<close>, which is where the calls from
  one place of the program put it.\<close>

definition one_descriptor :: "nat \<Rightarrow> mem_pool \<Rightarrow> bool" where
  "one_descriptor mb p \<longleftrightarrow> is_list_last (mlist p) PoolHead \<or>
     nxt (mlist p PoolHead) = Some (BlockL mb) \<and> is_list_last (mlist p) (BlockL mb)"

lemma insert_one_descriptor:
  assumes "one_descriptor mb p"
  obtains h where "list_insert_behind PoolHead (BlockL mb) (mlist p) = Some h"
    "nxt (h PoolHead) = Some (BlockL mb)" "is_list_last h (BlockL mb)"
proof -
  have "list_walk_last (mlist p) PoolHead = Some (if is_list_last (mlist p) PoolHead then PoolHead else BlockL mb)"
    using assms
    by (subst list_walk_last.simps) (auto simp: one_descriptor_def list_walk_last.simps [of _ "BlockL mb"])
  then show ?thesis
    using assms that
    by (cases "is_list_last (mlist p) PoolHead")
      (simp_all add: list_insert_behind_def list_insert_def Let_def one_descriptor_def is_list_last_def)
qed

lemma mem_alloca_one:
  assumes "one_descriptor mb p" "sz < msize p" "1 < mvalid p"
  shows "\<exists>p'. mem_alloca mb sz p = Some (Some (valid_ptr p), p') \<and> one_descriptor mb p' \<and> msize p' = msize p \<and>
    mvalid p' = mvalid p - 1 \<and> valid_ptr p' = valid_ptr p + (mvalid p - 1) * msize p \<and> masked p' = masked p"
proof -
  have z: "msize p \<noteq> 0" "sz div msize p = 0" using assms(2) by (auto simp: word_less_nat_alt word_unat_eq_iff unat_div)
  have g: "0 < mvalid p - 1" using assms(3) by (auto simp: word_less_nat_alt unat_minus_one unat_gt_0)
  obtain h where "list_insert_behind PoolHead (BlockL mb) (mlist p) = Some h"
    "nxt (h PoolHead) = Some (BlockL mb)" "is_list_last h (BlockL mb)"
    by (rule insert_one_descriptor [OF assms(1)])
  then show ?thesis using z g by (simp add: mem_alloca_def Let_def one_descriptor_def)
qed

text \<open>The third block lies outside the pool: the next address is advanced by the blocks that are
  left and not by those that were given away.\<close>

theorem mem_alloca_leaves_pool:
  assumes "s1 < bs" "s2 < bs" "s3 < bs" "4 \<le> unat len div unat bs" "unat start + 3 * unat len < 2 ^ 32"
  shows "\<exists>p1 p2 p3 p4 a2 a3. mem_create start len bs p = Some p1 \<and>
    mem_alloca mb s1 p1 = Some (Some start, p2) \<and> mem_alloca mb s2 p2 = Some (Some a2, p3) \<and>
    mem_alloca mb s3 p3 = Some (Some a3, p4) \<and> unat start + unat len \<le> unat a3"
proof -
  define k where "k = unat len div unat bs"
  let ?p1 = "p\<lparr>msize := bs, mvalid := len div bs, valid_ptr := start, mlist := list_init PoolHead (mlist p)\<rparr>"
  have b: "0 < unat bs" using assms(1) by (simp add: word_less_nat_alt)
  then have "bs \<noteq> 0" by auto
  then have c: "mem_create start len bs p = Some ?p1" by (simp add: mem_create_def Let_def)
  have o1: "one_descriptor mb ?p1" by (simp add: one_descriptor_def list_init_def is_list_last_def)
  have v: "unat (len div bs) = k" by (simp add: unat_div k_def)
  have k: "4 \<le> k" "k * unat bs \<le> unat len" using assms(4) by (simp_all add: k_def)
  have len: "unat len < (k + 1) * unat bs"
    using b dividend_less_div_times [of "unat bs" "unat len"] by (simp add: k_def algebra_simps)
  have v1: "1 < len div bs" using k(1) v by (simp add: word_less_nat_alt)
  have "len div bs \<noteq> 0" using k(1) v by auto
  then have v2a: "unat (len div bs - 1) = k - 1" using v by (simp add: unat_minus_one)
  then have "len div bs - 1 \<noteq> 0" using k(1) by auto
  then have "unat (len div bs - 1 - 1) = k - 1 - 1" using v2a unat_minus_one [of "len div bs - 1"] by metis
  with v2a have v2: "unat (len div bs - 1) = k - 1" "unat (len div bs - 1 - 1) = k - 2" by (simp_all only: diff_diff_left one_add_one)
  then have v2': "1 < len div bs - 1" "1 < len div bs - 1 - 1" using k(1) by (simp_all add: word_less_nat_alt)
  obtain p2 where p2: "mem_alloca mb s1 ?p1 = Some (Some start, p2)" "one_descriptor mb p2" "msize p2 = bs"
    "mvalid p2 = len div bs - 1" "valid_ptr p2 = start + (len div bs - 1) * bs"
    using mem_alloca_one [OF o1, of s1] assms(1) v1 by auto
  obtain p3 where p3: "mem_alloca mb s2 p2 = Some (Some (valid_ptr p2), p3)" "one_descriptor mb p3" "msize p3 = bs"
    "mvalid p3 = len div bs - 1 - 1" "valid_ptr p3 = valid_ptr p2 + (len div bs - 1 - 1) * bs"
    using mem_alloca_one [OF p2(2), of s2] assms(2) v2' p2(3,4) by auto
  obtain p4 where p4: "mem_alloca mb s3 p3 = Some (Some (valid_ptr p3), p4)"
    using mem_alloca_one [OF p3(2), of s3] assms(3) v2' p3(3,4) by auto
  have m: "(k - 1) * unat bs \<le> k * unat bs" "(k - 2) * unat bs \<le> k * unat bs" by simp_all
  have bnd: "unat start + ((k - 1) * unat bs + (k - 2) * unat bs) < 2 ^ 32"
    using m k(2) assms(5) by linarith
  have "unat ((len div bs - 1) * bs) = (k - 1) * unat bs" "unat ((len div bs - 1 - 1) * bs) = (k - 2) * unat bs"
    unfolding unat_word_ariths(2) v2 using bnd by (simp_all add: mod_less)
  then have "unat (valid_ptr p3) = unat start + ((k - 1) * unat bs + (k - 2) * unat bs)"
    unfolding p3(5) p2(5) unat_word_ariths(1) using bnd by (simp add: mod_less add.assoc)
  moreover have "(k + 1) * unat bs \<le> (k - 1) * unat bs + (k - 2) * unat bs"
  proof -
    have "(k + 1) * unat bs \<le> ((k - 1) + (k - 2)) * unat bs" by (rule mult_le_mono1) (use k(1) in simp)
    then show ?thesis by (simp only: add_mult_distrib)
  qed
  ultimately have "unat start + unat len \<le> unat (valid_ptr p3)" using len by linarith
  then show ?thesis using c p2(1) p3(1) p4 by blast
qed

text \<open>When \<^verbatim>\<open>mem_free\<close> finds the block, it returns with the interrupts still off.\<close>

theorem mem_free_keeps_masked:
  assumes "mem_free address p = Some (True, p')"
  shows "masked p' \<and> mvalid p' = mvalid p \<and> valid_ptr p' = valid_ptr p"
  using assms by (auto simp: mem_free_def Let_def split: option.splits elim!: bind_SomeE)

definition demo_pool :: mem_pool where
  "demo_pool = \<lparr>mlist = (\<lambda>_. \<lparr>prv = None, nxt = None\<rparr>),
     mblocks = (\<lambda>_. \<lparr>mb_ptr = 0, if_valid = 0, mb_flag = 0\<rparr>), msize = 0, mvalid = 0, valid_ptr = 0,
     masked = False\<rparr>"

theorem mem_alloca_leaves_pool_witness:
  "\<exists>p1 p2 p3 p4 a2 a3. mem_create 1000 100 10 demo_pool = Some p1 \<and> mem_alloca 7 9 p1 = Some (Some 1000, p2) \<and>
     mem_alloca 7 9 p2 = Some (Some a2, p3) \<and> mem_alloca 7 9 p3 = Some (Some a3, p4) \<and> 1100 \<le> unat a3"
  using mem_alloca_leaves_pool [of 9 10 9 9 100 1000 demo_pool 7] by fastforce

end
