(* ===== verification/FosShell.thy ===== *)
theory FosShell
  imports FosPrelude
begin

text \<open>
  The shell (\<^verbatim>\<open>middleware/shell_parser\<close>): the singly linked list of exported commands, the
  search for a command, the reading of a line and one round of the shell's task. The
  commands are numbers, called through a parameter, and the characters typed come from a list;
  waiting for a character is not modelled. Strings are lists of characters without the
  terminating zero.
\<close>

subsection \<open>The list of symbols\<close>

text \<open>An address of a \<^verbatim>\<open>SYMBOL\<close>: the head or an element of the array \<^verbatim>\<open>_malloc\<close>.\<close>

datatype symp = SymHead | Malloc nat

record SYMBOL =
  sym_func :: nat
  sym_name :: "u8 list"

record shell =
  sym_next :: "symp \<Rightarrow> symp option"
  symbols :: "nat \<Rightarrow> SYMBOL"
  temp :: nat
  buff_cmd :: "u8 list"

definition slist_init :: "symp \<Rightarrow> shell \<Rightarrow> shell" where
  "slist_init n s = s\<lparr>sym_next := (sym_next s)(n := None)\<rparr>"

definition slist_insert :: "symp \<Rightarrow> symp \<Rightarrow> shell \<Rightarrow> shell" where
  "slist_insert hdr n s = (let s = s\<lparr>sym_next := (sym_next s)(n := sym_next s hdr)\<rparr>
     in s\<lparr>sym_next := (sym_next s)(hdr := Some n)\<rparr>)"

definition slist_empty :: "symp \<Rightarrow> shell \<Rightarrow> bool" where
  "slist_empty n s \<longleftrightarrow> sym_next s n = None"

text \<open>\<^verbatim>\<open>export\<close> takes the next element of the array of ten; the eleventh call runs past its end.\<close>

definition export_sym :: "nat \<Rightarrow> u8 list \<Rightarrow> shell \<Rightarrow> shell option" where
  "export_sym func name s = (let t = temp s; s = s\<lparr>temp := temp s + 1\<rparr> in do {
     guard (t < 10);
     Some (slist_insert SymHead (Malloc t)
       (s\<lparr>symbols := (symbols s)(t := \<lparr>sym_func = func, sym_name = name\<rparr>)\<rparr>)) })"

text \<open>The loop of \<^verbatim>\<open>parser\<close> from the link \<open>tmp\<close>: the function of the first symbol with the name.\<close>

partial_function (option) parser_from :: "u8 list \<Rightarrow> shell \<Rightarrow> symp \<Rightarrow> nat option option" where
  "parser_from cmd s tmp = (case sym_next s tmp of
     None \<Rightarrow> Some None
   | Some SymHead \<Rightarrow> None
   | Some (Malloc i) \<Rightarrow> if sym_name (symbols s i) = cmd then Some (Some (sym_func (symbols s i)))
       else parser_from cmd s (Malloc i))"

text \<open>\<open>call\<close> runs a command.\<close>

definition parser :: "(nat \<Rightarrow> 'w \<Rightarrow> 'w) \<Rightarrow> u8 list \<Rightarrow> shell \<Rightarrow> 'w \<Rightarrow> (bool \<times> 'w) option" where
  "parser call cmd s w = do {
     r \<leftarrow> parser_from cmd s SymHead;
     case r of None \<Rightarrow> Some (False, w) | Some f \<Rightarrow> Some (True, call f w) }"

text \<open>\<^verbatim>\<open>help\<close> prints the names in list order.\<close>

partial_function (option) help_from :: "shell \<Rightarrow> symp \<Rightarrow> u8 list list option" where
  "help_from s tmp = (case sym_next s tmp of
     None \<Rightarrow> Some []
   | Some SymHead \<Rightarrow> None
   | Some (Malloc i) \<Rightarrow> do { ns \<leftarrow> help_from s (Malloc i); Some (sym_name (symbols s i) # ns) })"

subsection \<open>The task\<close>

text \<open>The line is stored character by character; the index \<^verbatim>\<open>i\<close> is a \<^verbatim>\<open>U8\<close>, and an index
  behind the 128 elements is a fault. \<open>None\<close> as inner result: the input ended and the task waits
  for a character.\<close>

fun read_line :: "u8 \<Rightarrow> u8 list \<Rightarrow> u8 list \<Rightarrow> ((u8 \<times> u8 list \<times> u8 list) option) option" where
  "read_line i buf [] = Some None"
| "read_line i buf (c # cs) = do {
     guard (unat i < length buf);
     let buf = buf[unat i := c];
     if c = 0x0a then Some (Some (i, buf, cs)) else read_line (i + 1) buf cs }"

text \<open>A C string in the buffer.\<close>

definition c_string :: "u8 list \<Rightarrow> u8 list" where
  "c_string buf = takeWhile (\<lambda>c. c \<noteq> 0) buf"

text \<open>What a round does: nothing (the line is empty), a command, or the message that there is no such
  command. Every round ends with \<^verbatim>\<open>os_delay(1)\<close>.\<close>

datatype round = Empty_line | Command nat | Not_found "u8 list"

definition shell_round :: "u8 list \<Rightarrow> shell \<Rightarrow> ((round \<times> u8 list \<times> shell) option) option" where
  "shell_round inp s = do {
     r \<leftarrow> read_line 0 (buff_cmd s) inp;
     case r of
       None \<Rightarrow> Some None
     | Some (i, buf, inp) \<Rightarrow>
         if buf ! 0 = 0x0a then Some (Some (Empty_line, inp, s\<lparr>buff_cmd := buf\<rparr>))
         else do {
           let buf = buf[unat i := 0];
           f \<leftarrow> parser_from (c_string buf) s SymHead;
           let res = (case f of Some f \<Rightarrow> Command f | None \<Rightarrow> Not_found (c_string buf));
           Some (Some (res, inp, s\<lparr>buff_cmd := map (\<lambda>_. 0) buf\<rparr>)) } }"

definition shell_exports :: "shell \<Rightarrow> shell option" where
  "shell_exports s = do {
     s \<leftarrow> export_sym 0 (map of_char ''help'') s;
     s \<leftarrow> export_sym 1 (map of_char ''version'') s;
     s \<leftarrow> export_sym 2 (map of_char ''show'') s;
     export_sym 3 (map of_char ''show memory use'') s }"

subsection \<open>The exported commands\<close>

text \<open>The shell holds the exported symbols, the last one first.\<close>

fun chain :: "(symp \<Rightarrow> symp option) \<Rightarrow> symp \<Rightarrow> nat list \<Rightarrow> bool" where
  "chain nx p [] \<longleftrightarrow> nx p = None"
| "chain nx p (i # is) \<longleftrightarrow> nx p = Some (Malloc i) \<and> chain nx (Malloc i) is"

definition shell_holds :: "shell \<Rightarrow> (u8 list \<times> nat) list \<Rightarrow> bool" where
  "shell_holds s es \<longleftrightarrow> temp s = length es \<and> length es \<le> 10 \<and> chain (sym_next s) SymHead (rev [0 ..< length es]) \<and>
     (\<forall>i < length es. symbols s i = \<lparr>sym_func = snd (es ! i), sym_name = fst (es ! i)\<rparr>)"

lemma chain_cong: "(\<And>i. i \<in> set is \<Longrightarrow> nx' (Malloc i) = nx (Malloc i)) \<Longrightarrow> nx' p = nx p \<Longrightarrow>
    chain nx' p is = chain nx p is"
  by (induction "is" arbitrary: p) auto

lemma chain_from: "chain nx p is \<Longrightarrow> nx' p' = nx p \<Longrightarrow> (\<And>i. i \<in> set is \<Longrightarrow> nx' (Malloc i) = nx (Malloc i)) \<Longrightarrow>
    chain nx' p' is"
  by (cases "is") (auto simp: chain_cong [of _ nx' nx])

lemma export_holds:
  assumes "shell_holds s es" "length es < 10"
  shows "\<exists>s'. export_sym f nm s = Some s' \<and> shell_holds s' (es @ [(nm, f)]) \<and> buff_cmd s' = buff_cmd s"
proof -
  let ?n = "length es" and ?s = "s\<lparr>temp := temp s + 1, symbols := (symbols s)(length es := \<lparr>sym_func = f, sym_name = nm\<rparr>)\<rparr>"
  let ?s' = "slist_insert SymHead (Malloc ?n) ?s"
  have t: "temp s = ?n" and c0: "chain (sym_next s) SymHead (rev [0 ..< ?n])"
    using assms(1) by (simp_all only: shell_holds_def)
  have "chain ((sym_next s)(Malloc ?n := sym_next s SymHead, SymHead := Some (Malloc ?n))) (Malloc ?n) (rev [0 ..< ?n])"
    by (rule chain_from [OF c0]) auto
  then have c: "chain (sym_next ?s') SymHead (rev [0 ..< length (es @ [(nm, f)])])"
    by (simp add: slist_insert_def Let_def)
  have "symbols ?s' i = \<lparr>sym_func = snd ((es @ [(nm, f)]) ! i), sym_name = fst ((es @ [(nm, f)]) ! i)\<rparr>"
    if "i < length (es @ [(nm, f)])" for i
  proof (cases "i = ?n")
    case False
    then have "i < ?n" using that by simp
    then show ?thesis using assms(1) by (simp add: slist_insert_def Let_def shell_holds_def nth_append)
  qed (simp add: slist_insert_def Let_def)
  moreover have "temp ?s' = length (es @ [(nm, f)])" "length (es @ [(nm, f)]) \<le> 10" "buff_cmd ?s' = buff_cmd s"
    using t assms(2) by (simp_all add: slist_insert_def Let_def)
  ultimately have "shell_holds ?s' (es @ [(nm, f)])" using c unfolding shell_holds_def by blast
  moreover have "export_sym f nm s = Some ?s'"
    using t assms(2) by (simp add: export_sym_def Let_def)
  ultimately show ?thesis using \<open>buff_cmd ?s' = buff_cmd s\<close> by blast
qed

lemma parser_from_chain:
  "chain (sym_next s) p is \<Longrightarrow> parser_from cmd s p =
     Some (map_option (\<lambda>i. sym_func (symbols s i)) (find (\<lambda>i. sym_name (symbols s i) = cmd) is))"
proof (induction "is" arbitrary: p)
  case Nil
  then show ?case by (subst parser_from.simps) simp
next
  case (Cons i "is")
  then show ?case by (subst parser_from.simps) simp
qed

lemma find_rev_index:
  assumes "\<And>i. i < length es \<Longrightarrow> P i = Q (es ! i)" "\<And>i. i < length es \<Longrightarrow> f i = g (es ! i)"
  shows "map_option f (find P (rev [0 ..< length es])) = map_option g (find Q (rev es))"
  using assms
proof (induction es rule: rev_induct)
  case (snoc x xs)
  have "map_option f (find P (rev [0 ..< length xs])) = map_option g (find Q (rev xs))"
  proof (rule snoc.IH)
    fix i assume i: "i < length xs"
    show "P i = Q (xs ! i)" using snoc.prems(1) [of i] i by (simp add: nth_append)
    show "f i = g (xs ! i)" using snoc.prems(2) [of i] i by (simp add: nth_append)
  qed
  then show ?case using snoc.prems(1,2) [of "length xs"] by simp
qed simp

lemma parser_finds:
  assumes "shell_holds s es"
  shows "parser_from cmd s SymHead = Some (map_option snd (find (\<lambda>e. fst e = cmd) (rev es)))"
proof -
  have "parser_from cmd s SymHead =
      Some (map_option (\<lambda>i. sym_func (symbols s i)) (find (\<lambda>i. sym_name (symbols s i) = cmd) (rev [0 ..< length es])))"
    using assms by (intro parser_from_chain) (simp add: shell_holds_def)
  also have "map_option (\<lambda>i. sym_func (symbols s i)) (find (\<lambda>i. sym_name (symbols s i) = cmd) (rev [0 ..< length es])) =
      map_option snd (find (\<lambda>e. fst e = cmd) (rev es))"
    by (rule find_rev_index) (use assms in \<open>simp_all add: shell_holds_def\<close>)
  finally show ?thesis .
qed

text \<open>Exporting a list of commands.\<close>

fun export_all :: "(u8 list \<times> nat) list \<Rightarrow> shell \<Rightarrow> shell option" where
  "export_all [] s = Some s"
| "export_all ((nm, f) # es) s = do { s \<leftarrow> export_sym f nm s; export_all es s }"

lemma export_all_holds:
  assumes "shell_holds s es" "length es + length fs \<le> 10"
  shows "\<exists>s'. export_all fs s = Some s' \<and> shell_holds s' (es @ fs) \<and> buff_cmd s' = buff_cmd s"
  using assms
proof (induction fs arbitrary: s es)
  case (Cons e fs)
  obtain nm f where e: "e = (nm, f)" by (cases e)
  obtain s1 where s1: "export_sym f nm s = Some s1" "shell_holds s1 (es @ [e])" "buff_cmd s1 = buff_cmd s"
    using export_holds [OF Cons.prems(1), of f nm] Cons.prems(2) e by auto
  from Cons.IH [OF s1(2)] Cons.prems(2) obtain s2 where "export_all fs s1 = Some s2"
    "shell_holds s2 ((es @ [e]) @ fs)" "buff_cmd s2 = buff_cmd s1" by auto
  then show ?case using s1 e by simp
qed simp

lemma export_all_too_many:
  "shell_holds s es \<Longrightarrow> 10 < length es + length fs \<Longrightarrow> export_all fs s = None"
proof (induction fs arbitrary: s es)
  case Nil
  then show ?case by (simp add: shell_holds_def)
next
  case (Cons e fs)
  obtain nm f where e: "e = (nm, f)" by (cases e)
  show ?case
  proof (cases "length es < 10")
    case True
    obtain s1 where s1: "export_sym f nm s = Some s1" "shell_holds s1 (es @ [e])"
      using export_holds [OF Cons.prems(1) True, of f nm] e by auto
    then show ?thesis using Cons.IH [OF s1(2)] Cons.prems(2) e by simp
  next
    case False
    then have "export_sym f nm s = None"
      using Cons.prems(1) by (simp add: export_sym_def Let_def shell_holds_def)
    then show ?thesis using e by simp
  qed
qed

subsection \<open>Lines\<close>

text \<open>A line of fewer than 128 characters is stored with its terminator; one of 128 or more runs past
  the buffer.\<close>

lemma read_line_ok:
  assumes "unat i + length ln < length buf" "length buf \<le> 128" "0x0a \<notin> set ln"
  shows "read_line i buf (ln @ 0x0a # rest) = Some (Some (i + of_nat (length ln),
    take (unat i) buf @ ln @ 0x0a # drop (unat i + length ln + 1) buf, rest))"
  using assms
proof (induction ln arbitrary: i buf)
  case Nil
  then show ?case by (simp add: upd_conv_take_nth_drop)
next
  case (Cons c ln)
  have i: "unat (i + 1) = unat i + 1" using Cons.prems(1,2) by (simp add: unat_word_ariths(1) mod_less)
  have "read_line (i + 1) (buf[unat i := c]) (ln @ 0x0a # rest) =
     Some (Some (i + 1 + of_nat (length ln),
       take (unat (i + 1)) (buf[unat i := c]) @ ln @ 0x0a # drop (unat (i + 1) + length ln + 1) (buf[unat i := c]), rest))"
    by (rule Cons.IH) (use Cons.prems i in auto)
  moreover have "take (unat i + 1) (buf[unat i := c]) = take (unat i) buf @ [c]"
    using Cons.prems(1) by (simp add: upd_conv_take_nth_drop)
  ultimately show ?case using Cons.prems by (simp add: i add.assoc [of i 1, symmetric] del: add.assoc)
qed

lemma read_line_overflow:
  assumes "length buf \<le> unat i + length ln" "length buf \<le> 128" "unat i \<le> length buf" "0x0a \<notin> set ln"
  shows "read_line i buf (ln @ [c]) = None"
  using assms
proof (induction ln arbitrary: i buf)
  case (Cons d ln)
  show ?case
  proof (cases "unat i < length buf")
    case True
    then have "unat (i + 1) = unat i + 1" using Cons.prems(2) by (simp add: unat_word_ariths(1) mod_less)
    then have "read_line (i + 1) (buf[unat i := d]) (ln @ [c]) = None"
      by (intro Cons.IH) (use Cons.prems True in auto)
    then show ?thesis using Cons.prems True by simp
  qed simp
qed simp

text \<open>C38: The shell runs what was typed. After any ten or fewer exports, a line of 1 to 127 characters
  without zeroes runs the command exported last under that name, or reports that there is none;
  the rest of the input is left for the next round and the buffer is cleared. An
  eleventh export, and a line of 128 characters or more, write past their arrays.\<close>

theorem shell_runs_line:
  assumes "length ln < 128" "ln \<noteq> []" "0x0a \<notin> set ln" "0 \<notin> set ln"
    and "temp s = 0" "sym_next s SymHead = None" "length (buff_cmd s) = 128"
  shows "(length es \<le> 10 \<longrightarrow> (\<exists>s1. export_all es s = Some s1 \<and>
      (\<exists>s2. shell_round (ln @ 0x0a # rest) s1 = Some (Some
        (case find (\<lambda>e. fst e = ln) (rev es) of Some (_, f) \<Rightarrow> Command f | None \<Rightarrow> Not_found ln, rest, s2)) \<and>
        buff_cmd s2 = replicate 128 0))) \<and>
    (10 < length es \<longrightarrow> export_all es s = None)"
proof (intro conjI impI)
  have s: "shell_holds s []" using assms(5,6) by (simp add: shell_holds_def)
  show "export_all es s = None" if "10 < length es" using export_all_too_many [OF s] that by simp
  assume "length es \<le> 10"
  then obtain s1 where s1: "export_all es s = Some s1" "shell_holds s1 es" "buff_cmd s1 = buff_cmd s"
    using export_all_holds [OF s, of es] by auto
  define buf where "buf = ln @ 0x0a # drop (length ln + 1) (buff_cmd s)"
  define r where "r = find (\<lambda>e. fst e = ln) (rev es)"
  have rl: "read_line 0 (buff_cmd s1) (ln @ 0x0a # rest) = Some (Some (of_nat (length ln), buf, rest))"
    using read_line_ok [of 0 ln "buff_cmd s1" rest] assms(1,3,7) s1(3) by (simp add: buf_def)
  have b0: "buf ! 0 \<noteq> 0x0a" using assms(2,3) by (cases ln) (auto simp: buf_def)
  have n: "unat (of_nat (length ln) :: u8) = length ln" using assms(1) by (simp add: unat_of_nat)
  have cs: "c_string (buf[length ln := 0]) = ln"
  proof -
    have "takeWhile (\<lambda>c. c \<noteq> 0) ln = ln" using assms(4) by (auto simp: takeWhile_eq_all_conv)
    then show ?thesis by (simp add: c_string_def buf_def list_update_append takeWhile_append)
  qed
  have l: "length buf = 128" using assms(1,7) by (simp add: buf_def)
  have p: "parser_from ln s1 SymHead = Some (map_option snd r)" using parser_finds [OF s1(2), of ln] by (simp add: r_def)
  have "shell_round (ln @ 0x0a # rest) s1 = Some (Some
      (case map_option snd r of Some f \<Rightarrow> Command f | None \<Rightarrow> Not_found ln, rest,
       s1\<lparr>buff_cmd := map (\<lambda>_. 0) (buf[length ln := 0])\<rparr>))"
    using b0 cs by (simp add: shell_round_def rl n p Let_def cong: option.case_cong)
  moreover have "map (\<lambda>_. 0 :: u8) (buf[length ln := 0]) = replicate 128 0" using l by (simp add: map_replicate_const)
  moreover have "(case map_option snd r of Some f \<Rightarrow> Command f | None \<Rightarrow> Not_found ln) =
      (case r of Some (_, f) \<Rightarrow> Command f | None \<Rightarrow> Not_found ln)"
    by (auto split: option.splits)
  ultimately have "\<exists>s2. shell_round (ln @ 0x0a # rest) s1 = Some (Some
      (case r of Some (_, f) \<Rightarrow> Command f | None \<Rightarrow> Not_found ln, rest, s2)) \<and> buff_cmd s2 = replicate 128 0"
    by (intro exI [of _ "s1\<lparr>buff_cmd := replicate 128 0\<rparr>"]) simp
  then show "\<exists>s1. export_all es s = Some s1 \<and> (\<exists>s2. shell_round (ln @ 0x0a # rest) s1 = Some (Some
        (case find (\<lambda>e. fst e = ln) (rev es) of Some (_, f) \<Rightarrow> Command f | None \<Rightarrow> Not_found ln, rest, s2)) \<and>
        buff_cmd s2 = replicate 128 0)"
    unfolding r_def [symmetric] using s1(1) by blast
qed

theorem shell_overlong_line:
  assumes "128 \<le> length ln" "0x0a \<notin> set ln" "length (buff_cmd s) = 128"
  shows "shell_round (ln @ c # rest) s = None"
proof -
  have "read_line i buf (xs @ ys) = None" if "read_line i buf xs = None" for i buf xs ys
    using that
    by (induction i buf xs rule: read_line.induct) (auto simp: Let_def guard_def split: if_splits)
  from this [OF read_line_overflow [of "buff_cmd s" 0 ln c], of rest] assms
  show ?thesis by (simp add: shell_round_def)
qed

definition demo_shell :: shell where
  "demo_shell = \<lparr>sym_next = (\<lambda>_. None), symbols = (\<lambda>_. \<lparr>sym_func = 0, sym_name = []\<rparr>), temp = 0,
     buff_cmd = replicate 128 0\<rparr>"

theorem shell_runs_line_witness:
  "\<exists>s1 s2. export_all [([104, 105], 4), ([121], 5)] demo_shell = Some s1 \<and>
     shell_round [104, 105, 10] s1 = Some (Some (Command 4, [], s2))"
  using shell_runs_line [of "[104, 105]" demo_shell "[([104, 105], 4), ([121], 5)]" "[]"]
  by (auto simp: demo_shell_def)

end
