(* ===== verification/UipState.thy ===== *)
theory UipState
  imports FosPrelude
begin

text \<open>
  The data of the uIP stack (\<^verbatim>\<open>middleware/uip/uip/uip.h\<close>, the globals of \<^verbatim>\<open>uip.c\<close>)
  in the configuration of \<^verbatim>\<open>fos/uip-conf.h\<close>: 40 connections, 40 listening ports, a packet
  buffer of 420 + 2 bytes behind a 14 byte link-level header, little-endian, IPv4.

  The packet buffer is a list of bytes. The C code overlays packed structures on it
  (\<^verbatim>\<open>BUF->flags\<close>); here a field of such a structure is a constructor and its place is a
  number, so two fields overlap exactly when they do in C. Pointers into the buffer
  (\<^verbatim>\<open>uip_appdata\<close>) are offsets, pointers to connections are indexes, NULL is \<open>None\<close>.
  Reads at computed offsets are guarded; the fields of the headers lie in the first 68 bytes.
\<close>

subsection \<open>Configuration\<close>

abbreviation (input) "UIP_BUFSIZE \<equiv> (420 :: nat)"
abbreviation (input) "UIP_LLH_LEN \<equiv> (14 :: nat)"
abbreviation (input) "UIP_IPH_LEN \<equiv> (20 :: nat)"
abbreviation (input) "UIP_TCPH_LEN \<equiv> (20 :: nat)"
abbreviation (input) "UIP_UDPH_LEN \<equiv> (8 :: nat)"
abbreviation (input) "UIP_IPUDPH_LEN \<equiv> (28 :: nat)"
abbreviation (input) "UIP_IPTCPH_LEN \<equiv> (40 :: nat)"
abbreviation (input) "UIP_TCPIP_HLEN \<equiv> (40 :: nat)"
abbreviation (input) "UIP_TCP_MSS \<equiv> (366 :: u16)"
abbreviation (input) "UIP_RECEIVE_WINDOW \<equiv> (366 :: u16)"
abbreviation (input) "UIP_CONNS \<equiv> (40 :: nat)"
abbreviation (input) "UIP_LISTENPORTS \<equiv> (40 :: nat)"
abbreviation (input) "UIP_UDP_CONNS \<equiv> (10 :: nat)"
abbreviation (input) "UIP_TTL \<equiv> (64 :: u8)"
abbreviation (input) "UIP_RTO \<equiv> (3 :: u8)"
abbreviation (input) "UIP_MAXRTX \<equiv> (8 :: u8)"
abbreviation (input) "UIP_MAXSYNRTX \<equiv> (5 :: u8)"
abbreviation (input) "UIP_TIME_WAIT_TIMEOUT \<equiv> (120 :: u8)"
abbreviation (input) "UIP_REASS_MAXAGE \<equiv> (40 :: u8)"
abbreviation (input) "UIP_PROTO_ICMP \<equiv> (1 :: u8)"
abbreviation (input) "UIP_PROTO_TCP \<equiv> (6 :: u8)"
abbreviation (input) "UIP_PROTO_UDP \<equiv> (17 :: u8)"

subsection \<open>Flags and states\<close>

abbreviation (input) "UIP_ACKDATA \<equiv> (1 :: u8)"
abbreviation (input) "UIP_NEWDATA \<equiv> (2 :: u8)"
abbreviation (input) "UIP_REXMIT \<equiv> (4 :: u8)"
abbreviation (input) "UIP_POLL \<equiv> (8 :: u8)"
abbreviation (input) "UIP_CLOSE \<equiv> (16 :: u8)"
abbreviation (input) "UIP_ABORT \<equiv> (32 :: u8)"
abbreviation (input) "UIP_CONNECTED \<equiv> (64 :: u8)"
abbreviation (input) "UIP_TIMEDOUT \<equiv> (128 :: u8)"

text \<open>The argument of \<^verbatim>\<open>uip_process\<close>.\<close>

datatype uip_event = UIP_DATA | UIP_TIMER | UIP_POLL_REQUEST | UIP_UDP_SEND_CONN | UIP_UDP_TIMER

text \<open>The TCP states; the field \<^verbatim>\<open>tcpstateflags\<close> holds one of them in its low four bits and
  \<open>UIP_STOPPED\<close> in the next bit.\<close>

abbreviation (input) "UIP_CLOSED \<equiv> (0 :: u8)"
abbreviation (input) "UIP_SYN_RCVD \<equiv> (1 :: u8)"
abbreviation (input) "UIP_SYN_SENT \<equiv> (2 :: u8)"
abbreviation (input) "UIP_ESTABLISHED \<equiv> (3 :: u8)"
abbreviation (input) "UIP_FIN_WAIT_1 \<equiv> (4 :: u8)"
abbreviation (input) "UIP_FIN_WAIT_2 \<equiv> (5 :: u8)"
abbreviation (input) "UIP_CLOSING \<equiv> (6 :: u8)"
abbreviation (input) "UIP_TIME_WAIT \<equiv> (7 :: u8)"
abbreviation (input) "UIP_LAST_ACK \<equiv> (8 :: u8)"
abbreviation (input) "UIP_TS_MASK \<equiv> (15 :: u8)"
abbreviation (input) "UIP_STOPPED \<equiv> (16 :: u8)"

abbreviation (input) "TCP_FIN \<equiv> (0x01 :: u8)"
abbreviation (input) "TCP_SYN \<equiv> (0x02 :: u8)"
abbreviation (input) "TCP_RST \<equiv> (0x04 :: u8)"
abbreviation (input) "TCP_PSH \<equiv> (0x08 :: u8)"
abbreviation (input) "TCP_ACK \<equiv> (0x10 :: u8)"
abbreviation (input) "TCP_URG \<equiv> (0x20 :: u8)"
abbreviation (input) "TCP_CTL \<equiv> (0x3f :: u8)"

subsection \<open>Structures\<close>

text \<open>\<^verbatim>\<open>uip_ipaddr_t\<close> is two 16-bit numbers in network byte order; sequence numbers are
  four bytes, most significant first.\<close>

type_synonym ip4 = "u16 \<times> u16"
type_synonym u8x4 = "u8 \<times> u8 \<times> u8 \<times> u8"

text \<open>The parameter \<open>'a\<close> is the application's \<^verbatim>\<open>uip_tcp_appstate_t\<close>.\<close>

record 'a conn =
  ripaddr :: ip4
  lport :: u16
  rport :: u16
  rcv_nxt :: u8x4
  snd_nxt :: u8x4
  outlen :: u16
  mss :: u16
  initialmss :: u16
  sa :: u8
  sv :: u8
  rto :: u8
  tcpstateflags :: u8
  rtimer :: u8
  nrtx :: u8
  appstate :: 'a

record udp_conn =
  u_ripaddr :: ip4
  u_lport :: u16
  u_rport :: u16
  u_ttl :: u8

datatype uip_stats =
    Ip_drop | Ip_recv | Ip_sent | Ip_vhlerr | Ip_hblenerr | Ip_lblenerr | Ip_fragerr
  | Ip_chkerr | Ip_protoerr
  | Icmp_drop | Icmp_recv | Icmp_sent | Icmp_typeerr
  | Tcp_drop | Tcp_recv | Tcp_sent | Tcp_chkerr | Tcp_ackerr | Tcp_rst | Tcp_rexmit
  | Tcp_syndrop | Tcp_synrst
  | Udp_drop | Udp_recv | Udp_sent | Udp_chkerr

record 'a uip =
  uip_buf :: "u8 list"
  uip_len :: u16
  uip_slen :: u16
  uip_flags :: u8
  uip_appdata :: nat
  uip_sappdata :: nat
  uip_conn :: "nat option"
  uip_conns :: "'a conn list"
  uip_listenports :: "u16 list"
  uip_udp_conn :: "nat option"
  uip_udp_conns :: "udp_conn list"
  uip_hostaddr :: ip4
  uip_draddr :: ip4
  uip_netmask :: ip4
  uip_ethaddr :: "u8 list"
  ipid :: u16
  iss :: u8x4
  lastport :: u16
  uip_stat :: "uip_stats \<Rightarrow> u16"
  reassbuf :: "u8 list"
  reassbitmap :: "u8 list"
  reasslen :: u16
  reassflags :: u8
  reasstmr :: u8

text \<open>The compile-time switches whose two sides are modelled; \<open>fos_build\<close> is the setting of
  \<^verbatim>\<open>fos/uip-conf.h\<close> and \<^verbatim>\<open>uipopt.h\<close>.\<close>

record build =
  UIP_UDP :: bool
  UIP_REASSEMBLY :: bool

definition fos_build :: build where
  "fos_build = \<lparr>UIP_UDP = False, UIP_REASSEMBLY = False\<rparr>"

text \<open>The sizes of the static arrays.\<close>

definition uip_wf :: "'a uip \<Rightarrow> bool" where
  "uip_wf s \<longleftrightarrow> length (uip_buf s) = UIP_BUFSIZE + 2 \<and> length (uip_conns s) = UIP_CONNS \<and>
     length (uip_listenports s) = UIP_LISTENPORTS \<and> length (uip_udp_conns s) = UIP_UDP_CONNS \<and>
     length (uip_ethaddr s) = 6 \<and> length (reassbuf s) = UIP_BUFSIZE - UIP_LLH_LEN \<and>
     length (reassbitmap s) = 6"

subsection \<open>Header layouts\<close>

datatype hdr =
    H_vhl | H_tos | H_len | H_ipid | H_ipoffset | H_ttl | H_proto | H_ipchksum
  | H_srcipaddr | H_destipaddr
  | H_srcport | H_destport | H_seqno | H_ackno | H_tcpoffset | H_flags | H_wnd
  | H_tcpchksum | H_urgp | H_optdata
  | H_icmptype | H_icode | H_icmpchksum | H_icmpid | H_icmpseqno
  | H_udplen | H_udpchksum

fun ip_off :: "hdr \<Rightarrow> nat" where
  "ip_off H_vhl = 0"
| "ip_off H_tos = 1"
| "ip_off H_len = 2"
| "ip_off H_ipid = 4"
| "ip_off H_ipoffset = 6"
| "ip_off H_ttl = 8"
| "ip_off H_proto = 9"
| "ip_off H_ipchksum = 10"
| "ip_off H_srcipaddr = 12"
| "ip_off H_destipaddr = 16"
| "ip_off H_srcport = 20"
| "ip_off H_destport = 22"
| "ip_off H_seqno = 24"
| "ip_off H_ackno = 28"
| "ip_off H_tcpoffset = 32"
| "ip_off H_flags = 33"
| "ip_off H_wnd = 34"
| "ip_off H_tcpchksum = 36"
| "ip_off H_urgp = 38"
| "ip_off H_optdata = 40"
| "ip_off H_icmptype = 20"
| "ip_off H_icode = 21"
| "ip_off H_icmpchksum = 22"
| "ip_off H_icmpid = 24"
| "ip_off H_icmpseqno = 26"
| "ip_off H_udplen = 24"
| "ip_off H_udpchksum = 26"

subsection \<open>Access to the buffer\<close>

definition lo8 :: "u16 \<Rightarrow> u8" where
  "lo8 x = ucast (x AND 0xff)"

definition hi8 :: "u16 \<Rightarrow> u8" where
  "hi8 x = ucast (drop_bit 8 x)"

text \<open>A 16-bit number from its high and its low byte.\<close>

definition mk16 :: "u8 \<Rightarrow> u8 \<Rightarrow> u16" where
  "mk16 h l = push_bit 8 (ucast h) OR ucast l"

text \<open>\<^verbatim>\<open>((u8_t *)uip_buf)[i]\<close> and 16-bit accesses of the little-endian host.\<close>

definition rd8 :: "nat \<Rightarrow> 'a uip \<Rightarrow> u8" where
  "rd8 i s = uip_buf s ! i"

definition wr8 :: "nat \<Rightarrow> u8 \<Rightarrow> 'a uip \<Rightarrow> 'a uip" where
  "wr8 i v s = s\<lparr>uip_buf := (uip_buf s)[i := v]\<rparr>"

definition rd16 :: "nat \<Rightarrow> 'a uip \<Rightarrow> u16" where
  "rd16 i s = mk16 (rd8 (i + 1) s) (rd8 i s)"

definition wr16 :: "nat \<Rightarrow> u16 \<Rightarrow> 'a uip \<Rightarrow> 'a uip" where
  "wr16 i v s = wr8 (i + 1) (hi8 v) (wr8 i (lo8 v) s)"

text \<open>\<^verbatim>\<open>BUF->f[k]\<close> for a byte field, \<^verbatim>\<open>BUF->f\<close> for a 16-bit one, an address and a
  sequence number.\<close>

definition get8 :: "hdr \<Rightarrow> nat \<Rightarrow> 'a uip \<Rightarrow> u8" where
  "get8 f k s = rd8 (UIP_LLH_LEN + ip_off f + k) s"

definition put8 :: "hdr \<Rightarrow> nat \<Rightarrow> u8 \<Rightarrow> 'a uip \<Rightarrow> 'a uip" where
  "put8 f k v s = wr8 (UIP_LLH_LEN + ip_off f + k) v s"

definition get16 :: "hdr \<Rightarrow> 'a uip \<Rightarrow> u16" where
  "get16 f s = rd16 (UIP_LLH_LEN + ip_off f) s"

definition put16 :: "hdr \<Rightarrow> u16 \<Rightarrow> 'a uip \<Rightarrow> 'a uip" where
  "put16 f v s = wr16 (UIP_LLH_LEN + ip_off f) v s"

definition get_ip :: "hdr \<Rightarrow> 'a uip \<Rightarrow> ip4" where
  "get_ip f s = (rd16 (UIP_LLH_LEN + ip_off f) s, rd16 (UIP_LLH_LEN + ip_off f + 2) s)"

definition put_ip :: "hdr \<Rightarrow> ip4 \<Rightarrow> 'a uip \<Rightarrow> 'a uip" where
  "put_ip f a s = wr16 (UIP_LLH_LEN + ip_off f + 2) (snd a) (wr16 (UIP_LLH_LEN + ip_off f) (fst a) s)"

definition get_seq :: "hdr \<Rightarrow> 'a uip \<Rightarrow> u8x4" where
  "get_seq f s = (get8 f 0 s, get8 f 1 s, get8 f 2 s, get8 f 3 s)"

definition put_seq :: "hdr \<Rightarrow> u8x4 \<Rightarrow> 'a uip \<Rightarrow> 'a uip" where
  "put_seq f n s = (case n of (n0, n1, n2, n3) \<Rightarrow>
     put8 f 3 n3 (put8 f 2 n2 (put8 f 1 n1 (put8 f 0 n0 s))))"

text \<open>\<^verbatim>\<open>(BUF->len[0] << 8) + BUF->len[1]\<close> and the like.\<close>

definition get_be :: "hdr \<Rightarrow> 'a uip \<Rightarrow> u16" where
  "get_be f s = mk16 (get8 f 0 s) (get8 f 1 s)"

definition put_be :: "hdr \<Rightarrow> u16 \<Rightarrow> 'a uip \<Rightarrow> 'a uip" where
  "put_be f v s = put8 f 1 (lo8 v) (put8 f 0 (hi8 v) s)"

text \<open>A read and a write at a computed offset.\<close>

definition rd8_at :: "nat \<Rightarrow> 'a uip \<Rightarrow> u8 option" where
  "rd8_at i s = (if i < length (uip_buf s) then Some (rd8 i s) else None)"

definition slice :: "nat \<Rightarrow> nat \<Rightarrow> 'b list \<Rightarrow> 'b list option" where
  "slice i n xs = (if i + n \<le> length xs then Some (take n (drop i xs)) else None)"

text \<open>\<^verbatim>\<open>memcpy\<close> into an array: the bytes \<open>bs\<close> are written from index \<open>i\<close> on.\<close>

definition blit :: "nat \<Rightarrow> 'b list \<Rightarrow> 'b list \<Rightarrow> 'b list option" where
  "blit i bs xs = (if i + length bs \<le> length xs
     then Some (take i xs @ bs @ drop (i + length bs) xs) else None)"

subsection \<open>Macros\<close>

definition HTONS :: "u16 \<Rightarrow> u16" where
  "HTONS n = push_bit 8 n OR drop_bit 8 n"

definition htons :: "u16 \<Rightarrow> u16" where
  "htons val = HTONS val"

definition uip_ipaddr :: "u8 \<Rightarrow> u8 \<Rightarrow> u8 \<Rightarrow> u8 \<Rightarrow> ip4" where
  "uip_ipaddr a0 a1 a2 a3 =
     (HTONS (push_bit 8 (ucast a0) OR ucast a1), HTONS (push_bit 8 (ucast a2) OR ucast a3))"

definition uip_ipaddr_cmp :: "ip4 \<Rightarrow> ip4 \<Rightarrow> bool" where
  "uip_ipaddr_cmp a b \<longleftrightarrow> fst a = fst b \<and> snd a = snd b"

definition uip_ipaddr_maskcmp :: "ip4 \<Rightarrow> ip4 \<Rightarrow> ip4 \<Rightarrow> bool" where
  "uip_ipaddr_maskcmp a b m \<longleftrightarrow>
     fst a AND fst m = fst b AND fst m \<and> snd a AND snd m = snd b AND snd m"

definition uip_ipaddr_mask :: "ip4 \<Rightarrow> ip4 \<Rightarrow> ip4" where
  "uip_ipaddr_mask src m = (fst src AND fst m, snd src AND snd m)"

definition uip_ipaddr1 :: "ip4 \<Rightarrow> u16" where
  "uip_ipaddr1 a = drop_bit 8 (htons (fst a))"

definition uip_ipaddr2 :: "ip4 \<Rightarrow> u16" where
  "uip_ipaddr2 a = htons (fst a) AND 0xff"

definition uip_ipaddr3 :: "ip4 \<Rightarrow> u16" where
  "uip_ipaddr3 a = drop_bit 8 (htons (snd a))"

definition uip_ipaddr4 :: "ip4 \<Rightarrow> u16" where
  "uip_ipaddr4 a = htons (snd a) AND 0xff"

definition uip_outstanding :: "'a conn \<Rightarrow> u16" where
  "uip_outstanding c = outlen c"

abbreviation (input) all_ones_addr :: ip4 where "all_ones_addr \<equiv> (0xffff, 0xffff)"
abbreviation (input) all_zeroes_addr :: ip4 where "all_zeroes_addr \<equiv> (0, 0)"

text \<open>\<^verbatim>\<open>UIP_STAT(++uip_stat.x)\<close>.\<close>

definition bump :: "uip_stats \<Rightarrow> 'a uip \<Rightarrow> 'a uip" where
  "bump x s = s\<lparr>uip_stat := (uip_stat s)(x := uip_stat s x + 1)\<rparr>"

text \<open>The connection \<open>r\<close> and its update through a pointer.\<close>

definition cn :: "nat \<Rightarrow> 'a uip \<Rightarrow> 'a conn" where
  "cn r s = uip_conns s ! r"

definition upd :: "nat \<Rightarrow> ('a conn \<Rightarrow> 'a conn) \<Rightarrow> 'a uip \<Rightarrow> 'a uip" where
  "upd r f s = s\<lparr>uip_conns := (uip_conns s)[r := f (uip_conns s ! r)]\<rparr>"

subsection \<open>The application's requests\<close>

definition uip_close :: "'a uip \<Rightarrow> 'a uip" where
  "uip_close s = s\<lparr>uip_flags := UIP_CLOSE\<rparr>"

definition uip_abort :: "'a uip \<Rightarrow> 'a uip" where
  "uip_abort s = s\<lparr>uip_flags := UIP_ABORT\<rparr>"

definition uip_stop :: "'a uip \<Rightarrow> 'a uip option" where
  "uip_stop s = do { r \<leftarrow> uip_conn s;
     Some (upd r (\<lambda>c. c\<lparr>tcpstateflags := tcpstateflags c OR UIP_STOPPED\<rparr>) s) }"

definition uip_restart :: "'a uip \<Rightarrow> 'a uip option" where
  "uip_restart s = do {
     let s = s\<lparr>uip_flags := uip_flags s OR UIP_NEWDATA\<rparr>;
     r \<leftarrow> uip_conn s;
     Some (upd r (\<lambda>c. c\<lparr>tcpstateflags := tcpstateflags c AND NOT UIP_STOPPED\<rparr>) s) }"

text \<open>\<^verbatim>\<open>uip_send\<close>: \<open>data\<close> is \<open>None\<close> for the caller's own \<^verbatim>\<open>uip_sappdata\<close>, which is not
  copied. A length above 65535 is cut by the 16-bit \<^verbatim>\<open>uip_slen\<close>.\<close>

definition uip_send :: "u8 list option \<Rightarrow> int \<Rightarrow> 'a uip \<Rightarrow> 'a uip option" where
  "uip_send data n s =
     (if n > 0 then do {
        let s = s\<lparr>uip_slen := word_of_int n\<rparr>;
        case data of
          None \<Rightarrow> Some s
        | Some bs \<Rightarrow> do {
            part \<leftarrow> slice 0 (unat (uip_slen s)) bs;
            b \<leftarrow> blit (uip_sappdata s) part (uip_buf s);
            Some (s\<lparr>uip_buf := b\<rparr>) } }
      else Some s)"

subsection \<open>Bytes of 16-bit numbers\<close>

lemma and_ff: "(x :: 'a :: len word) AND 0xff = take_bit 8 x"
  by (simp add: take_bit_eq_mask mask_eq_exp_minus_1)

lemma unat_take_bit8: "unat (take_bit 8 (x :: u16)) = unat x mod 256"
  by (simp add: unsigned_take_bit_eq take_bit_eq_mod [where 'a = nat])

lemma unat_lo8: "unat (lo8 x) = unat x mod 256"
  unfolding lo8_def and_ff unsigned_ucast_eq unat_take_bit8
  by (simp add: take_bit_eq_mod [where 'a = nat])

lemma unat_hi8: "unat (hi8 x) = unat x div 256"
proof -
  have "unat x div 256 < 256" using unat_u16_bound [of x] by linarith
  then show ?thesis
    by (simp add: hi8_def unsigned_ucast_eq unsigned_drop_bit_eq drop_bit_eq_div [where 'a = nat]
        take_bit_nat_eq_self)
qed

lemma unat_ucast_u8 [simp]: "unat (ucast (l :: u8) :: u16) = unat l"
  by (simp add: unsigned_ucast_eq take_bit_nat_eq_self order_less_trans [OF unat_u8_bound])

lemma unat_shift8: "unat (push_bit 8 (ucast (h :: u8)) :: u16) = 256 * unat h"
proof -
  have "256 * unat h < 65536" using unat_u8_bound [of h] by linarith
  then show ?thesis
    by (simp add: unsigned_push_bit_eq push_bit_eq_mult [where 'a = nat] take_bit_nat_eq_self
        mult.commute)
qed

lemma unat_u16_plus: "unat (x + y) = (unat x + unat y) mod 65536" for x y :: u16
  by (simp add: unat_word_ariths)

lemma unat_u8_plus: "unat (x + y) = (unat x + unat y) mod 256" for x y :: u8
  by (simp add: unat_word_ariths)

lemma mk16_plus: "mk16 h l = push_bit 8 (ucast h) + ucast l"
proof -
  have "push_bit 8 (ucast h :: u16) AND ucast l = 0"
    by (rule bit_word_eqI) (auto simp: bit_simps dest: bit_imp_le_length)
  then show ?thesis
    using word_plus_and_or [of "push_bit 8 (ucast h :: u16)" "ucast l"] by (simp add: mk16_def)
qed

lemma unat_mk16: "unat (mk16 h l) = 256 * unat h + unat l"
proof -
  have "256 * unat h + unat l < 65536" using unat_u8_bound [of h] unat_u8_bound [of l] by linarith
  then show ?thesis by (simp add: mk16_plus unat_u16_plus unat_shift8)
qed

lemma mk16_split [simp]: "mk16 (hi8 x) (lo8 x) = x"
  by (rule unsigned_word_eqI [where 'a = nat]) (simp add: unat_mk16 unat_hi8 unat_lo8)

lemma hi8_mk16 [simp]: "hi8 (mk16 h l) = h"
  by (rule unsigned_word_eqI [where 'a = nat]) (simp add: unat_mk16 unat_hi8)

lemma lo8_mk16 [simp]: "lo8 (mk16 h l) = l"
  by (rule unsigned_word_eqI [where 'a = nat]) (simp add: unat_mk16 unat_lo8)

lemma HTONS_mk16: "HTONS x = mk16 (lo8 x) (hi8 x)"
  by (rule bit_word_eqI) (auto simp: HTONS_def mk16_def lo8_def hi8_def and_ff bit_simps dest: bit_imp_le_length)

lemma HTONS_HTONS [simp]: "HTONS (HTONS x) = x"
  by (simp add: HTONS_mk16)

lemma HTONS_not: "HTONS (NOT x) = NOT (HTONS x)"
  by (rule bit_word_eqI) (auto simp: HTONS_def bit_simps dest: bit_imp_le_length)

lemma unat_HTONS: "unat (HTONS x) = 256 * (unat x mod 256) + unat x div 256"
  by (simp add: HTONS_mk16 unat_mk16 unat_lo8 unat_hi8)

subsection \<open>What the accesses leave unchanged\<close>

lemmas put_defs = put8_def put16_def put_be_def put_ip_def put_seq_def wr16_def wr8_def

lemma put_sel [simp]:
  "uip_len (put8 f k v s) = uip_len s"
  "uip_slen (put8 f k v s) = uip_slen s"
  "uip_flags (put8 f k v s) = uip_flags s"
  "uip_appdata (put8 f k v s) = uip_appdata s"
  "uip_sappdata (put8 f k v s) = uip_sappdata s"
  "uip_conn (put8 f k v s) = uip_conn s"
  "uip_conns (put8 f k v s) = uip_conns s"
  "uip_listenports (put8 f k v s) = uip_listenports s"
  "uip_udp_conn (put8 f k v s) = uip_udp_conn s"
  "uip_udp_conns (put8 f k v s) = uip_udp_conns s"
  "uip_hostaddr (put8 f k v s) = uip_hostaddr s"
  "uip_draddr (put8 f k v s) = uip_draddr s"
  "uip_netmask (put8 f k v s) = uip_netmask s"
  "uip_ethaddr (put8 f k v s) = uip_ethaddr s"
  "ipid (put8 f k v s) = ipid s"
  "iss (put8 f k v s) = iss s"
  "lastport (put8 f k v s) = lastport s"
  "uip_stat (put8 f k v s) = uip_stat s"
  "reassbuf (put8 f k v s) = reassbuf s"
  "reassbitmap (put8 f k v s) = reassbitmap s"
  "reasslen (put8 f k v s) = reasslen s"
  "reassflags (put8 f k v s) = reassflags s"
  "reasstmr (put8 f k v s) = reasstmr s"
  "uip_len (put16 f w s) = uip_len s"
  "uip_slen (put16 f w s) = uip_slen s"
  "uip_flags (put16 f w s) = uip_flags s"
  "uip_appdata (put16 f w s) = uip_appdata s"
  "uip_sappdata (put16 f w s) = uip_sappdata s"
  "uip_conn (put16 f w s) = uip_conn s"
  "uip_conns (put16 f w s) = uip_conns s"
  "uip_listenports (put16 f w s) = uip_listenports s"
  "uip_udp_conn (put16 f w s) = uip_udp_conn s"
  "uip_udp_conns (put16 f w s) = uip_udp_conns s"
  "uip_hostaddr (put16 f w s) = uip_hostaddr s"
  "uip_draddr (put16 f w s) = uip_draddr s"
  "uip_netmask (put16 f w s) = uip_netmask s"
  "uip_ethaddr (put16 f w s) = uip_ethaddr s"
  "ipid (put16 f w s) = ipid s"
  "iss (put16 f w s) = iss s"
  "lastport (put16 f w s) = lastport s"
  "uip_stat (put16 f w s) = uip_stat s"
  "reassbuf (put16 f w s) = reassbuf s"
  "reassbitmap (put16 f w s) = reassbitmap s"
  "reasslen (put16 f w s) = reasslen s"
  "reassflags (put16 f w s) = reassflags s"
  "reasstmr (put16 f w s) = reasstmr s"
  "uip_len (put_be f w s) = uip_len s"
  "uip_slen (put_be f w s) = uip_slen s"
  "uip_flags (put_be f w s) = uip_flags s"
  "uip_appdata (put_be f w s) = uip_appdata s"
  "uip_sappdata (put_be f w s) = uip_sappdata s"
  "uip_conn (put_be f w s) = uip_conn s"
  "uip_conns (put_be f w s) = uip_conns s"
  "uip_listenports (put_be f w s) = uip_listenports s"
  "uip_udp_conn (put_be f w s) = uip_udp_conn s"
  "uip_udp_conns (put_be f w s) = uip_udp_conns s"
  "uip_hostaddr (put_be f w s) = uip_hostaddr s"
  "uip_draddr (put_be f w s) = uip_draddr s"
  "uip_netmask (put_be f w s) = uip_netmask s"
  "uip_ethaddr (put_be f w s) = uip_ethaddr s"
  "ipid (put_be f w s) = ipid s"
  "iss (put_be f w s) = iss s"
  "lastport (put_be f w s) = lastport s"
  "uip_stat (put_be f w s) = uip_stat s"
  "reassbuf (put_be f w s) = reassbuf s"
  "reassbitmap (put_be f w s) = reassbitmap s"
  "reasslen (put_be f w s) = reasslen s"
  "reassflags (put_be f w s) = reassflags s"
  "reasstmr (put_be f w s) = reasstmr s"
  "uip_len (put_ip f a s) = uip_len s"
  "uip_slen (put_ip f a s) = uip_slen s"
  "uip_flags (put_ip f a s) = uip_flags s"
  "uip_appdata (put_ip f a s) = uip_appdata s"
  "uip_sappdata (put_ip f a s) = uip_sappdata s"
  "uip_conn (put_ip f a s) = uip_conn s"
  "uip_conns (put_ip f a s) = uip_conns s"
  "uip_listenports (put_ip f a s) = uip_listenports s"
  "uip_udp_conn (put_ip f a s) = uip_udp_conn s"
  "uip_udp_conns (put_ip f a s) = uip_udp_conns s"
  "uip_hostaddr (put_ip f a s) = uip_hostaddr s"
  "uip_draddr (put_ip f a s) = uip_draddr s"
  "uip_netmask (put_ip f a s) = uip_netmask s"
  "uip_ethaddr (put_ip f a s) = uip_ethaddr s"
  "ipid (put_ip f a s) = ipid s"
  "iss (put_ip f a s) = iss s"
  "lastport (put_ip f a s) = lastport s"
  "uip_stat (put_ip f a s) = uip_stat s"
  "reassbuf (put_ip f a s) = reassbuf s"
  "reassbitmap (put_ip f a s) = reassbitmap s"
  "reasslen (put_ip f a s) = reasslen s"
  "reassflags (put_ip f a s) = reassflags s"
  "reasstmr (put_ip f a s) = reasstmr s"
  "uip_len (put_seq f n s) = uip_len s"
  "uip_slen (put_seq f n s) = uip_slen s"
  "uip_flags (put_seq f n s) = uip_flags s"
  "uip_appdata (put_seq f n s) = uip_appdata s"
  "uip_sappdata (put_seq f n s) = uip_sappdata s"
  "uip_conn (put_seq f n s) = uip_conn s"
  "uip_conns (put_seq f n s) = uip_conns s"
  "uip_listenports (put_seq f n s) = uip_listenports s"
  "uip_udp_conn (put_seq f n s) = uip_udp_conn s"
  "uip_udp_conns (put_seq f n s) = uip_udp_conns s"
  "uip_hostaddr (put_seq f n s) = uip_hostaddr s"
  "uip_draddr (put_seq f n s) = uip_draddr s"
  "uip_netmask (put_seq f n s) = uip_netmask s"
  "uip_ethaddr (put_seq f n s) = uip_ethaddr s"
  "ipid (put_seq f n s) = ipid s"
  "iss (put_seq f n s) = iss s"
  "lastport (put_seq f n s) = lastport s"
  "uip_stat (put_seq f n s) = uip_stat s"
  "reassbuf (put_seq f n s) = reassbuf s"
  "reassbitmap (put_seq f n s) = reassbitmap s"
  "reasslen (put_seq f n s) = reasslen s"
  "reassflags (put_seq f n s) = reassflags s"
  "reasstmr (put_seq f n s) = reasstmr s"
  by (simp_all add: put_defs split: prod.splits)

lemma bump_sel [simp]:
  "uip_buf (bump x s) = uip_buf s"
  "uip_len (bump x s) = uip_len s"
  "uip_slen (bump x s) = uip_slen s"
  "uip_flags (bump x s) = uip_flags s"
  "uip_appdata (bump x s) = uip_appdata s"
  "uip_sappdata (bump x s) = uip_sappdata s"
  "uip_conn (bump x s) = uip_conn s"
  "uip_conns (bump x s) = uip_conns s"
  "uip_listenports (bump x s) = uip_listenports s"
  "uip_udp_conn (bump x s) = uip_udp_conn s"
  "uip_udp_conns (bump x s) = uip_udp_conns s"
  "uip_hostaddr (bump x s) = uip_hostaddr s"
  "uip_draddr (bump x s) = uip_draddr s"
  "uip_netmask (bump x s) = uip_netmask s"
  "uip_ethaddr (bump x s) = uip_ethaddr s"
  "ipid (bump x s) = ipid s"
  "iss (bump x s) = iss s"
  "lastport (bump x s) = lastport s"
  "reassbuf (bump x s) = reassbuf s"
  "reassbitmap (bump x s) = reassbitmap s"
  "reasslen (bump x s) = reasslen s"
  "reassflags (bump x s) = reassflags s"
  "reasstmr (bump x s) = reasstmr s"
  by (simp_all add: bump_def)

lemma upd_sel [simp]:
  "uip_buf (upd r g s) = uip_buf s"
  "uip_len (upd r g s) = uip_len s"
  "uip_slen (upd r g s) = uip_slen s"
  "uip_flags (upd r g s) = uip_flags s"
  "uip_appdata (upd r g s) = uip_appdata s"
  "uip_sappdata (upd r g s) = uip_sappdata s"
  "uip_conn (upd r g s) = uip_conn s"
  "uip_listenports (upd r g s) = uip_listenports s"
  "uip_udp_conn (upd r g s) = uip_udp_conn s"
  "uip_udp_conns (upd r g s) = uip_udp_conns s"
  "uip_hostaddr (upd r g s) = uip_hostaddr s"
  "uip_draddr (upd r g s) = uip_draddr s"
  "uip_netmask (upd r g s) = uip_netmask s"
  "uip_ethaddr (upd r g s) = uip_ethaddr s"
  "ipid (upd r g s) = ipid s"
  "iss (upd r g s) = iss s"
  "lastport (upd r g s) = lastport s"
  "uip_stat (upd r g s) = uip_stat s"
  "reassbuf (upd r g s) = reassbuf s"
  "reassbitmap (upd r g s) = reassbitmap s"
  "reasslen (upd r g s) = reasslen s"
  "reassflags (upd r g s) = reassflags s"
  "reasstmr (upd r g s) = reasstmr s"
  by (simp_all add: upd_def)

lemma put_length [simp]:
  "length (uip_buf (put8 f k v s)) = length (uip_buf s)"
  "length (uip_buf (put16 f w s)) = length (uip_buf s)"
  "length (uip_buf (put_be f w s)) = length (uip_buf s)"
  "length (uip_buf (put_ip f a s)) = length (uip_buf s)"
  "length (uip_buf (put_seq f n s)) = length (uip_buf s)"
  by (simp_all add: put_defs split: prod.splits)

lemma put_buf:
  "uip_buf (put8 f k v s) = (uip_buf s)[14 + ip_off f + k := v]"
  "uip_buf (put16 f w s) = (uip_buf s)[14 + ip_off f := lo8 w, Suc (14 + ip_off f) := hi8 w]"
  "uip_buf (put_be f w s) = (uip_buf s)[14 + ip_off f := hi8 w, Suc (14 + ip_off f) := lo8 w]"
  by (simp_all add: put_defs)

lemma zero_bytes [simp]: "lo8 0 = 0" "hi8 0 = 0" "mk16 0 0 = 0"
  by (simp_all add: lo8_def hi8_def mk16_def)

lemma htons_max [simp]: "htons 0xffff = 0xffff"
  by (simp add: htons_def HTONS_def)

lemma length_blit: "blit i bs xs = Some ys \<Longrightarrow> length ys = length xs"
  by (auto simp: blit_def split: if_splits)

lemma slice_update:
  "slice i n (xs[j := v]) = (if i \<le> j \<and> j < i + n
     then map_option (\<lambda>ys. ys[j - i := v]) (slice i n xs) else slice i n xs)"
  by (auto simp: slice_def drop_update_swap take_update_swap drop_update_cancel list_update_beyond)

end
