(* ===== verification/UipChecksum.thy ===== *)
theory UipChecksum
  imports UipState
begin

text \<open>
  The arithmetic of \<^verbatim>\<open>uip.c\<close>: 32-bit sequence numbers kept as four bytes and the Internet
  checksum. \<open>uip_add32\<close> is shown to be addition modulo \<open>2 ^ 32\<close>, \<open>chksum\<close> to be
  addition in ones' complement (sums modulo 65535, with 0 only for a sum of zeroes), and a
  header whose checksum field was filled in the way \<^verbatim>\<open>uip_process\<close> does it passes the test
  of the receiving side.
\<close>

subsection \<open>Operations\<close>

definition uip_add32 :: "u8x4 \<Rightarrow> u16 \<Rightarrow> u8x4" where
  "uip_add32 op32 op16 = (case op32 of (o0, o1, o2, o3) \<Rightarrow>
     let a3 = o3 + lo8 op16;
         a2 = o2 + hi8 op16;
         a1 = o1;
         a0 = o0;
         (a1, a0) = (if a2 < hi8 op16
                     then (let a1 = a1 + 1 in (a1, if a1 = 0 then a0 + 1 else a0))
                     else (a1, a0))
     in if a3 < lo8 op16
        then (let a2 = a2 + 1 in
              if a2 = 0
              then (let a1 = a1 + 1 in (if a1 = 0 then a0 + 1 else a0, a1, a2, a3))
              else (a0, a1, a2, a3))
        else (a0, a1, a2, a3))"

text \<open>\<^verbatim>\<open>chksum\<close> over the bytes from \<^verbatim>\<open>data\<close> to \<^verbatim>\<open>last_byte\<close>: the loop reads pairs, the
  \<^verbatim>\<open>if\<close> after it a last single byte.\<close>

fun chksum :: "u16 \<Rightarrow> u8 list \<Rightarrow> u16" where
  "chksum acc [] = acc"
| "chksum acc [d0] =
     (let t = push_bit 8 (ucast d0);
          acc = acc + t
      in if acc < t then acc + 1 else acc)"
| "chksum acc (d0 # d1 # data) =
     (let t = push_bit 8 (ucast d0) + ucast d1;
          acc = acc + t
      in chksum (if acc < t then acc + 1 else acc) data)"

definition uip_chksum :: "nat \<Rightarrow> nat \<Rightarrow> 'a uip \<Rightarrow> u16 option" where
  "uip_chksum i n s = do { data \<leftarrow> slice i n (uip_buf s); Some (htons (chksum 0 data)) }"

definition uip_ipchksum :: "'a uip \<Rightarrow> u16 option" where
  "uip_ipchksum s = do {
     data \<leftarrow> slice UIP_LLH_LEN UIP_IPH_LEN (uip_buf s);
     let acc = chksum 0 data;
     Some (if acc = 0 then 0xffff else htons acc) }"

definition upper_layer_chksum :: "u8 \<Rightarrow> 'a uip \<Rightarrow> u16 option" where
  "upper_layer_chksum proto s = do {
     let upper_layer_len = get_be H_len s - word_of_nat UIP_IPH_LEN;
     let acc = upper_layer_len + ucast proto;
     addrs \<leftarrow> slice (UIP_LLH_LEN + ip_off H_srcipaddr) 8 (uip_buf s);
     let acc = chksum acc addrs;
     data \<leftarrow> slice (UIP_IPH_LEN + UIP_LLH_LEN) (unat upper_layer_len) (uip_buf s);
     let acc = chksum acc data;
     Some (if acc = 0 then 0xffff else htons acc) }"

definition uip_tcpchksum :: "'a uip \<Rightarrow> u16 option" where
  "uip_tcpchksum = upper_layer_chksum UIP_PROTO_TCP"

definition uip_udpchksum :: "'a uip \<Rightarrow> u16 option" where
  "uip_udpchksum = upper_layer_chksum UIP_PROTO_UDP"

subsection \<open>Ones' complement\<close>

text \<open>The carry of ones' complement addition.\<close>

definition oc :: "nat \<Rightarrow> nat" where
  "oc n = (if n = 0 then 0 else (n - 1) mod 65535 + 1)"

lemma oc_small: "n < 65536 \<Longrightarrow> oc n = n"
  by (simp add: oc_def)

lemma oc_oc_plus: "oc (oc a + b) = oc (a + b)"
proof (cases "a = 0")
  case False
  then have "oc a + b - 1 = (a - 1) mod 65535 + b" by (simp add: oc_def)
  moreover have "((a - 1) mod 65535 + b) mod 65535 = (a + b - 1) mod 65535"
    using False by (simp add: mod_add_left_eq)
  ultimately show ?thesis using False by (simp add: oc_def)
qed (simp add: oc_def)

lemma oc_max_iff: "oc n = 65535 \<longleftrightarrow> 0 < n \<and> n mod 65535 = 0"
proof (cases n)
  case (Suc m)
  have "m mod 65535 = 65534 \<longleftrightarrow> Suc m mod 65535 = 0"
    by (simp add: mod_Suc)
  then show ?thesis by (simp add: oc_def Suc)
qed (simp add: oc_def)

lemma oc_mod: "oc n mod 65535 = n mod 65535"
  by (cases n) (simp_all add: oc_def mod_Suc_eq)

lemma oc_bound: "oc n < 65536"
  by (simp add: oc_def less_Suc_eq_le)

lemma oc_zero_iff [simp]: "oc n = 0 \<longleftrightarrow> n = 0"
  by (simp add: oc_def)

lemma mod_double: "m < 2 * n \<Longrightarrow> m mod n = (if m < n then m else m - n)" for m n :: nat
  by (auto simp: not_less le_mod_geq)

lemma carry_step:
  "unat (if s + t < t then s + t + 1 else s + t) = oc (unat s + unat t)" for s t :: u16
proof -
  have b: "unat s < 65536" "unat t < 65536" by simp_all
  then have b2: "unat s + unat t < 2 * 65536" by linarith
  show ?thesis
  proof (cases "unat s + unat t < 65536")
    case True
    then have "unat (s + t) = unat s + unat t" by (simp add: unat_u16_plus)
    moreover from this have "\<not> s + t < t" by (simp add: word_less_nat_alt)
    ultimately show ?thesis using True by (simp add: oc_small)
  next
    case False
    then have u: "unat (s + t) = unat s + unat t - 65536"
      using mod_double [OF b2] by (simp add: unat_u16_plus)
    then have "s + t < t" using False b unfolding word_less_nat_alt by linarith
    moreover have "unat (s + t) + 1 < 65536" using u b by linarith
    then have "unat (s + t + 1) = unat (s + t) + 1" by (simp add: unat_u16_plus [of "s + t" 1])
    moreover have d: "unat s + unat t - 1 < 2 * 65535" using b by linarith
    have "(unat s + unat t - 1) mod 65535 = unat s + unat t - 1 - 65535"
      using mod_double [OF d] False by simp
    then have "oc (unat s + unat t) = unat s + unat t - 1 - 65535 + 1"
      using False by (auto simp add: oc_def)
    then have "oc (unat s + unat t) = unat s + unat t - 65535" using False by linarith
    moreover have "unat (s + t) + 1 = unat s + unat t - 65535" using u False by linarith
    ultimately show ?thesis by simp
  qed
qed

text \<open>The sum of the big-endian 16-bit words of a byte string.\<close>

fun be_sum :: "u8 list \<Rightarrow> nat" where
  "be_sum [] = 0"
| "be_sum [d0] = 256 * unat d0"
| "be_sum (d0 # d1 # data) = 256 * unat d0 + unat d1 + be_sum data"

lemma chksum_oc: "unat (chksum acc data) = oc (unat acc + be_sum data)"
proof (induction acc data rule: chksum.induct)
  case (1 acc) then show ?case by (simp add: oc_small)
next
  case (2 acc d0)
  show ?case using carry_step [of acc "push_bit 8 (ucast d0)"] by (simp add: Let_def unat_shift8)
next
  case (3 acc d0 d1 data)
  let ?t = "push_bit 8 (ucast d0) + ucast d1 :: u16"
  have t: "unat ?t = 256 * unat d0 + unat d1"
    using unat_mk16 [of d0 d1] by (simp add: mk16_plus)
  have "unat (chksum acc (d0 # d1 # data))
      = oc (unat (if acc + ?t < ?t then acc + ?t + 1 else acc + ?t) + be_sum data)"
    unfolding chksum.simps Let_def by (rule "3.IH" [OF refl refl])
  also have "\<dots> = oc (unat acc + (256 * unat d0 + unat d1) + be_sum data)"
    unfolding carry_step t by (rule oc_oc_plus)
  finally show ?case by (simp add: add.assoc)
qed

definition val32 :: "u8x4 \<Rightarrow> nat" where
  "val32 n = (case n of (n0, n1, n2, n3) \<Rightarrow>
     ((unat n0 * 256 + unat n1) * 256 + unat n2) * 256 + unat n3)"

lemma u8_plus_if:
  "unat (x + y) = (if unat x + unat y < 256 then unat x + unat y else unat x + unat y - 256)"
  for x y :: u8
proof -
  have "unat x + unat y < 2 * 256"
    using unat_u8_bound [of x] unat_u8_bound [of y] by linarith
  from mod_double [OF this] show ?thesis by (simp add: unat_u8_plus)
qed

lemma u8_eq_0_iff: "x = 0 \<longleftrightarrow> unat x = 0" for x :: u8
  by (simp add: unat_eq_0)

lemma uip_add32_val: "val32 (uip_add32 n k) = (val32 n + unat k) mod 4294967296"
proof -
  obtain o0 o1 o2 o3 where n: "n = (o0, o1, o2, o3)" by (cases n) auto
  define h l where "h = unat (hi8 k)" and "l = unat (lo8 k)"
  have k: "unat k = 256 * h + l" by (simp add: h_def l_def unat_hi8 unat_lo8)
  define x0 x1 x2 x3 where x: "x0 = unat o0" "x1 = unat o1" "x2 = unat o2" "x3 = unat o3"
  have b: "x0 < 256" "x1 < 256" "x2 < 256" "x3 < 256" "h < 256" "l < 256"
    by (simp_all add: x h_def l_def)
  define T where "T = ((x0 * 256 + x1) * 256 + x2) * 256 + x3 + (256 * h + l)"
  have vk: "val32 n + unat k = T" by (simp add: n k val32_def x [symmetric] T_def)
  have "T < 2 * 4294967296" using b by (simp add: T_def)
  note m = mod_double [OF this]
  have ov: "\<not> x2 + h < 256 \<Longrightarrow> x2 + h - 256 < h" "\<not> x3 + l < 256 \<Longrightarrow> x3 + l - 256 < l"
    using b by linarith+
  show ?thesis
    unfolding vk m unfolding n uip_add32_def val32_def Let_def prod.case
      word_less_nat_alt u8_plus_if u8_eq_0_iff T_def
    apply (simp only: x [symmetric] h_def [symmetric] l_def [symmetric] unsigned_1)
    using b
    apply (cases "x3 + l < 256"; cases "x2 + h < 256"; cases "x1 = 255"; cases "x2 + h = 255"; cases "x0 < 255"; simp add: ov u8_plus_if u8_eq_0_iff x [symmetric] h_def [symmetric] l_def [symmetric])
    apply (intro conjI impI; linarith)+
    done
qed

subsection \<open>Filling in a checksum\<close>

lemma oc_pos_iff [simp]: "0 < oc n \<longleftrightarrow> 0 < n"
  using oc_zero_iff [of n] by linarith

lemma slice_Some_iff: "slice i n xs = Some ys \<longleftrightarrow> i + n \<le> length xs \<and> ys = take n (drop i xs)"
  by (auto simp: slice_def)

lemma be_sum_update:
  "Suc (2 * k) < length xs \<Longrightarrow>
   be_sum (xs[2 * k := a, Suc (2 * k) := b]) + 256 * unat (xs ! (2 * k)) + unat (xs ! Suc (2 * k))
     = be_sum xs + 256 * unat a + unat b"
proof (induction xs arbitrary: k rule: be_sum.induct)
  case (3 d0 d1 data)
  show ?case
  proof (cases k)
    case (Suc m)
    have "be_sum (data[2 * m := a, Suc (2 * m) := b]) + 256 * unat (data ! (2 * m))
        + unat (data ! Suc (2 * m)) = be_sum data + 256 * unat a + unat b"
      using "3.prems" by (intro "3.IH") (simp add: Suc)
    then show ?thesis by (simp add: Suc)
  qed simp
qed simp_all

lemma be_sum_pos: "xs \<noteq> [] \<Longrightarrow> xs ! 0 \<noteq> 0 \<Longrightarrow> 0 < be_sum xs"
  by (cases xs rule: be_sum.cases) (auto simp: unat_gt_0)

lemma unat_not_u16: "unat (NOT x) = 65535 - unat x" for x :: u16
proof -
  have "NOT x = 0xffff - x" by (simp add: not_eq_complement)
  moreover have "x \<le> 0xffff" by (simp add: word_le_nat_alt less_Suc_eq_le [symmetric])
  ultimately show ?thesis by (simp add: unat_sub)
qed

lemma checksum_fill:
  fixes v :: u16
  assumes "Suc (2 * k) < length D" "D ! (2 * k) = 0" "D ! Suc (2 * k) = 0"
    and v: "chksum acc D = v" and pos: "0 < unat acc + be_sum D"
  shows "chksum acc (D[2 * k := lo8 (NOT (HTONS v)), Suc (2 * k) := hi8 (NOT (HTONS v))]) = 0xffff"
proof -
  let ?D = "D[2 * k := lo8 (NOT (HTONS v)), Suc (2 * k) := hi8 (NOT (HTONS v))]"
  have "be_sum ?D = be_sum D + unat (HTONS (NOT (HTONS v)))"
    using be_sum_update [OF assms(1), of "lo8 (NOT (HTONS v))" "hi8 (NOT (HTONS v))"] assms(2,3)
    by (simp add: HTONS_mk16 [of "NOT (HTONS v)"] unat_mk16)
  also have "unat (HTONS (NOT (HTONS v))) = 65535 - unat v"
    by (simp add: HTONS_not unat_not_u16)
  finally have s: "be_sum ?D = be_sum D + (65535 - unat v)" .
  have u: "unat v = oc (unat acc + be_sum D)" using v chksum_oc by metis
  have "unat v \<le> 65535" using unat_u16_bound [of v] by linarith
  then have e: "(unat acc + be_sum ?D) + unat v = (unat acc + be_sum D) + 65535" using s by linarith
  have "((unat acc + be_sum ?D) + unat v) mod 65535 = (unat acc + be_sum D) mod 65535"
    by (simp only: e mod_add_self2)
  also have "\<dots> = unat v mod 65535" by (simp only: u oc_mod)
  finally have "(unat acc + be_sum ?D) mod 65535 = 0"
    by (simp add: mod_eq_dvd_iff_nat mod_0_imp_dvd dvd_imp_mod_0)
  moreover have "0 < unat acc + be_sum ?D" using pos s by linarith
  ultimately have "oc (unat acc + be_sum ?D) = 65535" by (simp add: oc_max_iff)
  then have "unat (chksum acc ?D) = unat (0xffff :: u16)" by (simp add: chksum_oc)
  then show ?thesis by (simp only: word_unat_eq_iff)
qed

lemma ipchksum_fill:
  assumes n: "34 \<le> length (uip_buf s)" and z: "get16 H_ipchksum s = 0" and v0: "get8 H_vhl 0 s \<noteq> 0"
  obtains c where "uip_ipchksum s = Some c"
    "uip_ipchksum (put16 H_ipchksum (NOT c) s) = Some 0xffff"
proof -
  define D where "D = take 20 (drop 14 (uip_buf s))"
  define v where "v = chksum 0 D"
  have sl: "slice 14 20 (uip_buf s) = Some D" using n by (simp add: slice_def D_def)
  have len: "length D = 20" using n by (simp add: D_def)
  have "mk16 (D ! 11) (D ! 10) = 0"
    using z n by (simp add: get16_def rd16_def rd8_def D_def)
  then have D: "D ! (2 * 5) = 0" "D ! Suc (2 * 5) = 0"
    using lo8_mk16 [of "D ! 11" "D ! 10"] hi8_mk16 [of "D ! 11" "D ! 10"]
    by (simp_all add: lo8_def hi8_def)
  have "D ! 0 \<noteq> 0" using v0 n by (simp add: get8_def rd8_def D_def)
  then have pos: "0 < be_sum D" using len by (intro be_sum_pos) auto
  then have "v \<noteq> 0" using chksum_oc [of 0 D] by (auto simp: v_def simp flip: unat_eq_0)
  then have c: "uip_ipchksum s = Some (HTONS v)"
    by (simp add: uip_ipchksum_def sl v_def htons_def)
  have "slice 14 20 (uip_buf (put16 H_ipchksum (NOT (HTONS v)) s))
      = Some (D[2 * 5 := lo8 (NOT (HTONS v)), Suc (2 * 5) := hi8 (NOT (HTONS v))])"
    by (simp add: put_buf slice_update sl)
  moreover have "chksum 0 (D[2 * 5 := lo8 (NOT (HTONS v)), Suc (2 * 5) := hi8 (NOT (HTONS v))]) = 0xffff"
    using D pos len by (intro checksum_fill) (simp_all add: v_def)
  ultimately have "uip_ipchksum (put16 H_ipchksum (NOT (HTONS v)) s) = Some 0xffff"
    by (simp add: uip_ipchksum_def)
  with c show ?thesis by (rule that)
qed

lemma unat_u16_small: "n < 65536 \<Longrightarrow> unat (word_of_nat n :: u16) = n"
  by (simp add: unat_of_nat)

text \<open>The segment length and the sum over the pseudo header before the data are not zero.\<close>

lemma upper_fill:
  assumes n: "uip_buf s \<noteq> []" "get_be H_len s = L" "20 < unat L" "14 + unat L \<le> length (uip_buf s)"
    and f: "ip_off f = 20 + 2 * k" "ip_off f + 1 < unat L" and z: "get16 f s = 0"
    and p: "unat p < 1000" "0 < unat p" "unat L < 60000"
  obtains c where "upper_layer_chksum p s = Some c"
    "upper_layer_chksum p (put16 f (NOT c) s) = Some 0xffff"
proof -
  define m where "m = unat L - 20"
  define D where "D = take m (drop 34 (uip_buf s))"
  define A where "A = take 8 (drop 26 (uip_buf s))"
  define l where "l = L - 20"
  define a0 where "a0 = l + ucast p"
  define acc where "acc = chksum a0 A"
  define v where "v = chksum acc D"
  have l: "unat l = m" using n(3) by (simp add: l_def m_def unat_sub word_le_nat_alt)
  have slD: "slice 34 m (uip_buf s) = Some D" using n by (simp add: slice_def D_def m_def)
  have slA: "slice 26 8 (uip_buf s) = Some A" using n by (simp add: slice_def A_def)
  have len: "length D = m" using n by (simp add: D_def m_def)
  have km: "Suc (2 * k) < m" using f by (simp add: m_def)
  have "mk16 (D ! Suc (2 * k)) (D ! (2 * k)) = 0"
    using z n km f by (simp add: get16_def rd16_def rd8_def D_def m_def add.commute add.left_commute)
  then have Dz: "D ! (2 * k) = 0" "D ! Suc (2 * k) = 0"
    using lo8_mk16 [of "D ! Suc (2 * k)" "D ! (2 * k)"] hi8_mk16 [of "D ! Suc (2 * k)" "D ! (2 * k)"]
    by (simp_all add: lo8_def hi8_def)
  have "unat a0 = m + unat p" using p by (simp add: a0_def unat_u16_plus l m_def)
  then have "0 < unat acc" using p chksum_oc [of a0 A] by (simp add: acc_def)
  then have pos: "0 < unat acc + be_sum D" by simp
  then have v0: "v \<noteq> 0" using chksum_oc [of acc D] by (auto simp: v_def simp flip: unat_eq_0)
  have c: "upper_layer_chksum p s = Some (HTONS v)"
    using v0 n(2) by (simp add: upper_layer_chksum_def slA slD l [unfolded l_def] v_def acc_def
        a0_def l_def htons_def Let_def)
  have u: "get_be H_len (put16 f (NOT (HTONS v)) s) = L"
    using n(2) f(1) by (simp add: get_be_def get8_def rd8_def put_buf)
  have sl: "slice 34 m (uip_buf (put16 f (NOT (HTONS v)) s))
      = Some (D[2 * k := lo8 (NOT (HTONS v)), Suc (2 * k) := hi8 (NOT (HTONS v))])"
    "slice 26 8 (uip_buf (put16 f (NOT (HTONS v)) s)) = Some A"
    using km f(1) by (simp_all add: put_buf slice_update slD slA)
  have "chksum acc (D[2 * k := lo8 (NOT (HTONS v)), Suc (2 * k) := hi8 (NOT (HTONS v))]) = 0xffff"
    using Dz pos len km by (intro checksum_fill) (simp_all add: v_def)
  then have "upper_layer_chksum p (put16 f (NOT (HTONS v)) s) = Some 0xffff"
    using u by (simp add: upper_layer_chksum_def sl l [unfolded l_def] acc_def a0_def l_def
        Let_def)
  with c show ?thesis by (rule that)
qed

lemma upper_layer_cong:
  assumes "length b = length (uip_buf s)" "b ! 16 = uip_buf s ! 16" "b ! 17 = uip_buf s ! 17"
    "drop 26 b = drop 26 (uip_buf s)"
  shows "upper_layer_chksum p (s\<lparr>uip_buf := b\<rparr>) = upper_layer_chksum p s"
proof -
  have "slice i n b = slice i n (uip_buf s)" if "26 \<le> i" for i n
  proof -
    have "drop i b = drop (i - 26) (drop 26 b)" "drop i (uip_buf s) = drop (i - 26) (drop 26 (uip_buf s))"
      using that by simp_all
    then show ?thesis using assms by (simp add: slice_def)
  qed
  moreover have "get_be H_len (s\<lparr>uip_buf := b\<rparr>) = get_be H_len s"
    using assms by (simp add: get_be_def get8_def rd8_def)
  ultimately show ?thesis by (simp add: upper_layer_chksum_def)
qed

subsection \<open>Properties\<close>

text \<open>Sequence numbers are kept as four bytes, most significant first, and advanced by
  \<^verbatim>\<open>uip_add32\<close> with explicit carries: on every pair of operands the result is the sum
  modulo \<open>2 ^ 32\<close>.\<close>

theorem uip_add32_adds: "val32 (uip_add32 n k) = (val32 n + unat k) mod 2 ^ 32"
  by (simp add: uip_add32_val)

text \<open>C34: The checksum loop with its carry test computes the ones' complement sum of the big-endian
  16-bit words of the data, an odd last byte being the high byte of a word: the sum reduced to the
  range from 1 to 65535, and 0 only for a sum of zero.\<close>

theorem chksum_ones_complement:
  "unat (chksum acc data) =
     (let n = unat acc + be_sum data in if n = 0 then 0 else (n - 1) mod 65535 + 1)"
  by (simp add: chksum_oc oc_def Let_def)

end
