(* ===== verification/UipProcess.thy ===== *)
theory UipProcess
  imports UipConn
begin

text \<open>
  \<^verbatim>\<open>uip_process\<close>, the TCP/IP stack itself. Every label of the C function that is the target
  of a \<^verbatim>\<open>goto\<close> is a definition holding the code from that label to its next jump or, where
  the code falls through, a call of the following label; so a jump is a call in tail position.
  \<open>uip_connr\<close>, the local pointer to the current connection, is the parameter \<open>r\<close>.
  \<open>app\<close> and \<open>uapp\<close> are the application's functions \<^verbatim>\<open>UIP_APPCALL\<close> and
  \<^verbatim>\<open>UIP_UDP_APPCALL\<close>, which work on the whole state. A result \<open>None\<close> is an access outside
  the packet buffer or through a NULL pointer, or an application function that does not return.
  The printed log messages are left out.
\<close>

type_synonym 'a appcall = "'a uip \<Rightarrow> 'a uip option"

subsection \<open>Leaving\<close>

definition uip_drop :: "'a uip \<Rightarrow> 'a uip" where
  "uip_drop s = s\<lparr>uip_len := 0, uip_flags := 0\<rparr>"

definition send_label :: "'a uip \<Rightarrow> 'a uip" where
  "send_label s = (bump Ip_sent s)\<lparr>uip_flags := 0\<rparr>"

definition ip_send_nolen :: "'a uip \<Rightarrow> 'a uip option" where
  "ip_send_nolen s = do {
     let s = put8 H_vhl 0 0x45 s;
     let s = put8 H_tos 0 0 s;
     let s = put_be H_ipoffset 0 s;
     let s = s\<lparr>ipid := ipid s + 1\<rparr>;
     let s = put_be H_ipid (ipid s) s;
     let s = put16 H_ipchksum 0 s;
     c \<leftarrow> uip_ipchksum s;
     let s = put16 H_ipchksum (NOT c) s;
     let s = bump Tcp_sent s;
     Some (send_label s) }"

subsection \<open>Sending a TCP segment\<close>

definition tcp_send_noconn :: "'a uip \<Rightarrow> 'a uip option" where
  "tcp_send_noconn s = do {
     let s = put8 H_ttl 0 UIP_TTL s;
     let s = put_be H_len (uip_len s) s;
     let s = put_be H_urgp 0 s;
     let s = put16 H_tcpchksum 0 s;
     c \<leftarrow> uip_tcpchksum s;
     let s = put16 H_tcpchksum (NOT c) s;
     ip_send_nolen s }"

definition tcp_send :: "nat \<Rightarrow> 'a uip \<Rightarrow> 'a uip option" where
  "tcp_send r s = (let
     s = put_seq H_ackno (rcv_nxt (cn r s)) s;
     s = put_seq H_seqno (snd_nxt (cn r s)) s;
     s = put8 H_proto 0 UIP_PROTO_TCP s;
     s = put16 H_srcport (lport (cn r s)) s;
     s = put16 H_destport (rport (cn r s)) s;
     s = put_ip H_srcipaddr (uip_hostaddr s) s;
     s = put_ip H_destipaddr (ripaddr (cn r s)) s;
     s = (if tcpstateflags (cn r s) AND UIP_STOPPED \<noteq> 0
          then put_be H_wnd 0 s else put_be H_wnd UIP_RECEIVE_WINDOW s)
   in tcp_send_noconn s)"

definition tcp_send_noopts :: "nat \<Rightarrow> 'a uip \<Rightarrow> 'a uip option" where
  "tcp_send_noopts r s = tcp_send r (put8 H_tcpoffset 0 (push_bit 4 5) s)"

definition tcp_send_nodata :: "nat \<Rightarrow> 'a uip \<Rightarrow> 'a uip option" where
  "tcp_send_nodata r s = tcp_send_noopts r (s\<lparr>uip_len := word_of_nat UIP_IPTCPH_LEN\<rparr>)"

definition tcp_send_ack :: "nat \<Rightarrow> 'a uip \<Rightarrow> 'a uip option" where
  "tcp_send_ack r s = tcp_send_nodata r (put8 H_flags 0 TCP_ACK s)"

definition tcp_send_finack :: "nat \<Rightarrow> 'a uip \<Rightarrow> 'a uip option" where
  "tcp_send_finack r s = tcp_send_nodata r (put8 H_flags 0 (TCP_FIN OR TCP_ACK) s)"

definition tcp_send_syn :: "nat \<Rightarrow> 'a uip \<Rightarrow> 'a uip option" where
  "tcp_send_syn r s = (let
     s = put8 H_flags 0 (get8 H_flags 0 s OR TCP_SYN) s;
     s = put8 H_optdata 0 2 s;
     s = put8 H_optdata 1 4 s;
     s = put8 H_optdata 2 (hi8 UIP_TCP_MSS) s;
     s = put8 H_optdata 3 (lo8 UIP_TCP_MSS) s;
     s = s\<lparr>uip_len := word_of_nat (UIP_IPTCPH_LEN + 4)\<rparr>;
     s = put8 H_tcpoffset 0 (push_bit 4 6) s
   in tcp_send r s)"

definition tcp_send_synack :: "nat \<Rightarrow> 'a uip \<Rightarrow> 'a uip option" where
  "tcp_send_synack r s = tcp_send_syn r (put8 H_flags 0 TCP_ACK s)"

subsection \<open>Resets\<close>

text \<open>\<^verbatim>\<open>++x[3] == 0\<close> and the carry to the other bytes.\<close>

definition inc32 :: "u8x4 \<Rightarrow> u8x4" where
  "inc32 n = (case n of (n0, n1, n2, n3) \<Rightarrow>
     if n3 + 1 = 0 then
       (if n2 + 1 = 0 then
          (if n1 + 1 = 0 then (n0 + 1, n1 + 1, n2 + 1, n3 + 1) else (n0, n1 + 1, n2 + 1, n3 + 1))
        else (n0, n1, n2 + 1, n3 + 1))
     else (n0, n1, n2, n3 + 1))"

definition reset_label :: "'a uip \<Rightarrow> 'a uip option" where
  "reset_label s =
     (if get8 H_flags 0 s AND TCP_RST \<noteq> 0 then Some (uip_drop s)
      else (let
        s = bump Tcp_rst s;
        s = put8 H_flags 0 (TCP_RST OR TCP_ACK) s;
        s = s\<lparr>uip_len := word_of_nat UIP_IPTCPH_LEN\<rparr>;
        s = put8 H_tcpoffset 0 (push_bit 4 5) s;
        n = get_seq H_seqno s;
        s = put_seq H_seqno (get_seq H_ackno s) s;
        s = put_seq H_ackno n s;
        s = put_seq H_ackno (inc32 (get_seq H_ackno s)) s;
        tmp16 = get16 H_srcport s;
        s = put16 H_srcport (get16 H_destport s) s;
        s = put16 H_destport tmp16 s;
        s = put_ip H_destipaddr (get_ip H_srcipaddr s) s;
        s = put_ip H_srcipaddr (uip_hostaddr s) s
      in tcp_send_noconn s))"

subsection \<open>After the application has run\<close>

definition apprexmit :: "nat \<Rightarrow> 'a uip \<Rightarrow> 'a uip option" where
  "apprexmit r s = (let s = s\<lparr>uip_appdata := uip_sappdata s\<rparr> in
     if uip_slen s > 0 \<and> outlen (cn r s) > 0
     then (let s = s\<lparr>uip_len := outlen (cn r s) + word_of_nat UIP_TCPIP_HLEN\<rparr>
           in tcp_send_noopts r (put8 H_flags 0 (TCP_ACK OR TCP_PSH) s))
     else if uip_flags s AND UIP_NEWDATA \<noteq> 0
     then (let s = s\<lparr>uip_len := word_of_nat UIP_TCPIP_HLEN\<rparr>
           in tcp_send_noopts r (put8 H_flags 0 TCP_ACK s))
     else Some (uip_drop s))"

definition appsend :: "nat \<Rightarrow> 'a uip \<Rightarrow> 'a uip option" where
  "appsend r s =
     (if uip_flags s AND UIP_ABORT \<noteq> 0 then (let
        s = s\<lparr>uip_slen := 0\<rparr>;
        s = upd r (\<lambda>c. c\<lparr>tcpstateflags := UIP_CLOSED\<rparr>) s
      in tcp_send_nodata r (put8 H_flags 0 (TCP_RST OR TCP_ACK) s))
      else if uip_flags s AND UIP_CLOSE \<noteq> 0 then (let
        s = s\<lparr>uip_slen := 0\<rparr>;
        s = upd r (\<lambda>c. c\<lparr>outlen := 1, tcpstateflags := UIP_FIN_WAIT_1, nrtx := 0\<rparr>) s
      in tcp_send_nodata r (put8 H_flags 0 (TCP_FIN OR TCP_ACK) s))
      else (let
        s = (if uip_slen s > 0 then (let
               s = (if uip_flags s AND UIP_ACKDATA \<noteq> 0
                    then upd r (\<lambda>c. c\<lparr>outlen := 0\<rparr>) s else s)
             in if outlen (cn r s) = 0
                then (let s = (if uip_slen s > mss (cn r s)
                               then s\<lparr>uip_slen := mss (cn r s)\<rparr> else s)
                      in upd r (\<lambda>c. c\<lparr>outlen := uip_slen s\<rparr>) s)
                else s\<lparr>uip_slen := outlen (cn r s)\<rparr>)
             else s);
        s = upd r (\<lambda>c. c\<lparr>nrtx := 0\<rparr>) s
      in apprexmit r s))"

subsection \<open>Acknowledged sequence numbers\<close>

text \<open>\<^verbatim>\<open>uip_add_rcv_nxt\<close> works on the global \<^verbatim>\<open>uip_conn\<close>.\<close>

definition uip_add_rcv_nxt :: "u16 \<Rightarrow> 'a uip \<Rightarrow> 'a uip option" where
  "uip_add_rcv_nxt n s = do {
     r \<leftarrow> uip_conn s;
     guard (r < length (uip_conns s));
     Some (upd r (\<lambda>c. c\<lparr>rcv_nxt := uip_add32 (rcv_nxt c) n\<rparr>) s) }"

text \<open>Van Jacobson's estimate of the round-trip time; \<^verbatim>\<open>m\<close> is a \<^verbatim>\<open>signed char\<close>.\<close>

definition rtt_update :: "'a conn \<Rightarrow> 'a conn" where
  "rtt_update c = (let
     m = rto c - rtimer c;
     m = m - drop_bit 3 (sa c);
     c = c\<lparr>sa := sa c + m\<rparr>;
     m = (if sint m < 0 then - m else m);
     m = m - drop_bit 2 (sv c);
     c = c\<lparr>sv := sv c + m\<rparr>
   in c\<lparr>rto := drop_bit 3 (sa c) + sv c\<rparr>)"

definition ack_update :: "nat \<Rightarrow> 'a uip \<Rightarrow> 'a uip" where
  "ack_update r s =
     (if get8 H_flags 0 s AND TCP_ACK \<noteq> 0 \<and> uip_outstanding (cn r s) \<noteq> 0 then (let
        acc32 = uip_add32 (snd_nxt (cn r s)) (outlen (cn r s))
      in if get_seq H_ackno s = acc32 then (let
           s = upd r (\<lambda>c. c\<lparr>snd_nxt := acc32\<rparr>) s;
           s = (if nrtx (cn r s) = 0 then upd r rtt_update s else s);
           s = s\<lparr>uip_flags := UIP_ACKDATA\<rparr>
         in upd r (\<lambda>c. c\<lparr>rtimer := rto c, outlen := 0\<rparr>) s)
         else s)
      else s)"

subsection \<open>The MSS option\<close>

text \<open>The loop over the TCP options from offset \<open>c\<close> on, an 8-bit number that wraps around;
  \<open>Some None\<close> when it ends without an MSS option. It is a loop that may run forever.\<close>

partial_function (option) parse_mss :: "nat \<Rightarrow> u8 \<Rightarrow> u8 list \<Rightarrow> u16 option option" where
  "parse_mss n c buf =
     (if unat c < n then (let
        p = UIP_TCPIP_HLEN + UIP_LLH_LEN + unat c;
        opt = buf ! p
      in if opt = 0 then Some None
         else if opt = 1 then parse_mss n (c + 1) buf
         else if opt = 2 \<and> buf ! (p + 1) = 4 then (let
           tmp16 = mk16 (buf ! (p + 2)) (buf ! (p + 3))
         in Some (Some (if tmp16 > UIP_TCP_MSS then UIP_TCP_MSS else tmp16)))
         else if buf ! (p + 1) = 0 then Some None
         else parse_mss n (c + buf ! (p + 1)) buf)
      else Some None)"

definition tcp_options :: "nat \<Rightarrow> 'a uip \<Rightarrow> 'a uip option" where
  "tcp_options r s =
     (if get8 H_tcpoffset 0 s AND 0xf0 > 0x50 then do {
        m \<leftarrow> parse_mss ((unat (get8 H_tcpoffset 0 s) div 16 - 5) * 4) 0 (uip_buf s);
        Some (case m of None \<Rightarrow> s
          | Some v \<Rightarrow> upd r (\<lambda>c. c\<lparr>initialmss := v, mss := v\<rparr>) s) }
      else Some s)"

subsection \<open>TCP states\<close>

definition st_syn_rcvd :: "'a appcall \<Rightarrow> nat \<Rightarrow> 'a uip \<Rightarrow> 'a uip option" where
  "st_syn_rcvd app r s =
     (if uip_flags s AND UIP_ACKDATA \<noteq> 0 then do {
        let s = upd r (\<lambda>c. c\<lparr>tcpstateflags := UIP_ESTABLISHED\<rparr>) s;
        let s = s\<lparr>uip_flags := UIP_CONNECTED\<rparr>;
        let s = upd r (\<lambda>c. c\<lparr>outlen := 0\<rparr>) s;
        s \<leftarrow> (if uip_len s > 0
               then uip_add_rcv_nxt (uip_len s) (s\<lparr>uip_flags := uip_flags s OR UIP_NEWDATA\<rparr>)
               else Some s);
        s \<leftarrow> app (s\<lparr>uip_slen := 0\<rparr>);
        appsend r s }
      else Some (uip_drop s))"

definition st_syn_sent :: "'a appcall \<Rightarrow> nat \<Rightarrow> 'a uip \<Rightarrow> 'a uip option" where
  "st_syn_sent app r s =
     (if uip_flags s AND UIP_ACKDATA \<noteq> 0 \<and> get8 H_flags 0 s AND TCP_CTL = TCP_SYN OR TCP_ACK
      then do {
        s \<leftarrow> tcp_options r s;
        let s = upd r (\<lambda>c. c\<lparr>tcpstateflags := UIP_ESTABLISHED, rcv_nxt := get_seq H_seqno s\<rparr>) s;
        s \<leftarrow> uip_add_rcv_nxt 1 s;
        let s = s\<lparr>uip_flags := UIP_CONNECTED OR UIP_NEWDATA\<rparr>;
        let s = upd r (\<lambda>c. c\<lparr>outlen := 0\<rparr>) s;
        s \<leftarrow> app (s\<lparr>uip_len := 0, uip_slen := 0\<rparr>);
        appsend r s }
      else do {
        s \<leftarrow> app (s\<lparr>uip_flags := UIP_ABORT\<rparr>);
        q \<leftarrow> uip_conn s;
        guard (q < length (uip_conns s));
        reset_label (upd q (\<lambda>c. c\<lparr>tcpstateflags := UIP_CLOSED\<rparr>) s) })"

text \<open>A FIN in ESTABLISHED.\<close>

definition est_fin :: "'a appcall \<Rightarrow> nat \<Rightarrow> 'a uip \<Rightarrow> 'a uip option" where
  "est_fin app r s =
     (if uip_outstanding (cn r s) \<noteq> 0 then Some (uip_drop s)
      else do {
        s \<leftarrow> uip_add_rcv_nxt (1 + uip_len s) s;
        let s = s\<lparr>uip_flags := uip_flags s OR UIP_CLOSE\<rparr>;
        let s = (if uip_len s > 0 then s\<lparr>uip_flags := uip_flags s OR UIP_NEWDATA\<rparr> else s);
        s \<leftarrow> app s;
        let s = upd r (\<lambda>c. c\<lparr>outlen := 1, tcpstateflags := UIP_LAST_ACK, nrtx := 0\<rparr>) s;
        tcp_send_finack r s })"

text \<open>The window the peer advertises bounds the segment size.\<close>

definition wnd_mss :: "nat \<Rightarrow> 'a uip \<Rightarrow> 'a uip" where
  "wnd_mss r s = (let tmp16 = get_be H_wnd s in
     upd r (\<lambda>c. c\<lparr>mss := (if tmp16 > initialmss c \<or> tmp16 = 0 then initialmss c else tmp16)\<rparr>) s)"

definition st_established :: "'a appcall \<Rightarrow> nat \<Rightarrow> 'a uip \<Rightarrow> 'a uip option" where
  "st_established app r s =
     (if get8 H_flags 0 s AND TCP_FIN \<noteq> 0 \<and> tcpstateflags (cn r s) AND UIP_STOPPED = 0
      then est_fin app r s
      else do {
        let s = (if get8 H_flags 0 s AND TCP_URG \<noteq> 0
          then s\<lparr>uip_appdata := uip_appdata s + unat (get_be H_urgp s),
                 uip_len := uip_len s - get_be H_urgp s\<rparr>
          else s);
        s \<leftarrow> (if uip_len s > 0 \<and> tcpstateflags (cn r s) AND UIP_STOPPED = 0
               then uip_add_rcv_nxt (uip_len s) (s\<lparr>uip_flags := uip_flags s OR UIP_NEWDATA\<rparr>)
               else Some s);
        let s = wnd_mss r s;
        if uip_flags s AND (UIP_NEWDATA OR UIP_ACKDATA) \<noteq> 0 then do {
          s \<leftarrow> app (s\<lparr>uip_slen := 0\<rparr>);
          appsend r s }
        else Some (uip_drop s) })"

definition st_last_ack :: "'a appcall \<Rightarrow> nat \<Rightarrow> 'a uip \<Rightarrow> 'a uip option" where
  "st_last_ack app r s =
     (if uip_flags s AND UIP_ACKDATA \<noteq> 0 then do {
        let s = upd r (\<lambda>c. c\<lparr>tcpstateflags := UIP_CLOSED\<rparr>) s;
        s \<leftarrow> app (s\<lparr>uip_flags := UIP_CLOSE\<rparr>);
        Some (uip_drop s) }
      else Some (uip_drop s))"

definition st_fin_wait_1 :: "'a appcall \<Rightarrow> nat \<Rightarrow> 'a uip \<Rightarrow> 'a uip option" where
  "st_fin_wait_1 app r s = do {
     s \<leftarrow> (if uip_len s > 0 then uip_add_rcv_nxt (uip_len s) s else Some s);
     if get8 H_flags 0 s AND TCP_FIN \<noteq> 0 then do {
       let s = (if uip_flags s AND UIP_ACKDATA \<noteq> 0
         then upd r (\<lambda>c. c\<lparr>tcpstateflags := UIP_TIME_WAIT, rtimer := 0, outlen := 0\<rparr>) s
         else upd r (\<lambda>c. c\<lparr>tcpstateflags := UIP_CLOSING\<rparr>) s);
       s \<leftarrow> uip_add_rcv_nxt 1 s;
       s \<leftarrow> app (s\<lparr>uip_flags := UIP_CLOSE\<rparr>);
       tcp_send_ack r s }
     else if uip_flags s AND UIP_ACKDATA \<noteq> 0 then
       Some (uip_drop (upd r (\<lambda>c. c\<lparr>tcpstateflags := UIP_FIN_WAIT_2, outlen := 0\<rparr>) s))
     else if uip_len s > 0 then tcp_send_ack r s
     else Some (uip_drop s) }"

definition st_fin_wait_2 :: "'a appcall \<Rightarrow> nat \<Rightarrow> 'a uip \<Rightarrow> 'a uip option" where
  "st_fin_wait_2 app r s = do {
     s \<leftarrow> (if uip_len s > 0 then uip_add_rcv_nxt (uip_len s) s else Some s);
     if get8 H_flags 0 s AND TCP_FIN \<noteq> 0 then do {
       let s = upd r (\<lambda>c. c\<lparr>tcpstateflags := UIP_TIME_WAIT, rtimer := 0\<rparr>) s;
       s \<leftarrow> uip_add_rcv_nxt 1 s;
       s \<leftarrow> app (s\<lparr>uip_flags := UIP_CLOSE\<rparr>);
       tcp_send_ack r s }
     else if uip_len s > 0 then tcp_send_ack r s
     else Some (uip_drop s) }"

definition st_closing :: "nat \<Rightarrow> 'a uip \<Rightarrow> 'a uip option" where
  "st_closing r s =
     (if uip_flags s AND UIP_ACKDATA \<noteq> 0
      then Some (uip_drop (upd r (\<lambda>c. c\<lparr>tcpstateflags := UIP_TIME_WAIT, rtimer := 0\<rparr>) s))
      else Some (uip_drop s))"

text \<open>The \<^verbatim>\<open>switch\<close> over the state of the connection.\<close>

definition tcp_state :: "'a appcall \<Rightarrow> nat \<Rightarrow> 'a uip \<Rightarrow> 'a uip option" where
  "tcp_state app r s = (let st = tcpstateflags (cn r s) AND UIP_TS_MASK in
     if st = UIP_SYN_RCVD then st_syn_rcvd app r s
     else if st = UIP_SYN_SENT then st_syn_sent app r s
     else if st = UIP_ESTABLISHED then st_established app r s
     else if st = UIP_LAST_ACK then st_last_ack app r s
     else if st = UIP_FIN_WAIT_1 then st_fin_wait_1 app r s
     else if st = UIP_FIN_WAIT_2 then st_fin_wait_2 app r s
     else if st = UIP_TIME_WAIT then tcp_send_ack r s
     else if st = UIP_CLOSING then st_closing r s
     else Some (uip_drop s))"

subsection \<open>A segment for a connection\<close>

text \<open>The segment carries data or SYN or FIN and does not have the expected sequence number, and is
  not a SYNACK answering our SYN.\<close>

definition out_of_order :: "nat \<Rightarrow> 'a uip \<Rightarrow> bool" where
  "out_of_order r s \<longleftrightarrow>
     \<not> (tcpstateflags (cn r s) AND UIP_TS_MASK = UIP_SYN_SENT \<and>
        get8 H_flags 0 s AND TCP_CTL = TCP_SYN OR TCP_ACK) \<and>
     (uip_len s > 0 \<or> get8 H_flags 0 s AND (TCP_SYN OR TCP_FIN) \<noteq> 0) \<and>
     get_seq H_seqno s \<noteq> rcv_nxt (cn r s)"

definition found :: "'a appcall \<Rightarrow> nat \<Rightarrow> 'a uip \<Rightarrow> 'a uip option" where
  "found app r s = (let s = s\<lparr>uip_conn := Some r, uip_flags := 0\<rparr> in
     if get8 H_flags 0 s AND TCP_RST \<noteq> 0 then do {
       let s = upd r (\<lambda>c. c\<lparr>tcpstateflags := UIP_CLOSED\<rparr>) s;
       s \<leftarrow> app (s\<lparr>uip_flags := UIP_ABORT\<rparr>);
       Some (uip_drop s) }
     else (let
       c = push_bit 2 (drop_bit 4 (get8 H_tcpoffset 0 s));
       s = s\<lparr>uip_len := uip_len s - ucast c - word_of_nat UIP_IPH_LEN\<rparr>
     in if out_of_order r s then tcp_send_ack r s
        else tcp_state app r (ack_update r s)))"

subsection \<open>A SYN for a listening port\<close>

definition found_listen :: "'a uip \<Rightarrow> 'a uip option" where
  "found_listen s = (case find_conn (uip_conns s) 0 None of
     None \<Rightarrow> Some (uip_drop (bump Tcp_syndrop s))
   | Some (r, _) \<Rightarrow> do {
       let s = s\<lparr>uip_conn := Some r\<rparr>;
       let s = upd r (\<lambda>c. c\<lparr>rto := UIP_RTO, rtimer := UIP_RTO, sa := 0, sv := 4, nrtx := 0,
         lport := get16 H_destport s, rport := get16 H_srcport s, ripaddr := get_ip H_srcipaddr s,
         tcpstateflags := UIP_SYN_RCVD, snd_nxt := iss s, outlen := 1,
         rcv_nxt := get_seq H_seqno s\<rparr>) s;
       s \<leftarrow> uip_add_rcv_nxt 1 s;
       s \<leftarrow> tcp_options r s;
       tcp_send_synack r s })"

subsection \<open>TCP input\<close>

fun demux :: "u16 \<Rightarrow> u16 \<Rightarrow> ip4 \<Rightarrow> 'a conn list \<Rightarrow> nat \<Rightarrow> nat option" where
  "demux dport sport src [] i = None"
| "demux dport sport src (c # cs) i =
     (if tcpstateflags c \<noteq> UIP_CLOSED \<and> dport = lport c \<and> sport = rport c \<and>
         uip_ipaddr_cmp src (ripaddr c)
      then Some i else demux dport sport src cs (i + 1))"

definition tcp_input :: "'a appcall \<Rightarrow> 'a uip \<Rightarrow> 'a uip option" where
  "tcp_input app s = (let s = bump Tcp_recv s in do {
     c \<leftarrow> uip_tcpchksum s;
     if c \<noteq> 0xffff then Some (uip_drop (bump Tcp_chkerr (bump Tcp_drop s)))
     else case demux (get16 H_destport s) (get16 H_srcport s) (get_ip H_srcipaddr s)
                 (uip_conns s) 0 of
       Some r \<Rightarrow> found app r s
     | None \<Rightarrow>
         if get8 H_flags 0 s AND TCP_CTL \<noteq> TCP_SYN then reset_label s
         else if get16 H_destport s \<in> set (uip_listenports s) then found_listen s
         else reset_label (bump Tcp_synrst s) })"

subsection \<open>UDP\<close>

text \<open>The label \<^verbatim>\<open>udp_send\<close>; the checksum is computed over a zero checksum field and a result of
  zero is sent as 0xffff.\<close>

definition udp_send :: "'a uip \<Rightarrow> 'a uip option" where
  "udp_send s =
     (if uip_slen s = 0 then Some (uip_drop s)
      else do {
        let s = s\<lparr>uip_len := uip_slen s + word_of_nat UIP_IPUDPH_LEN\<rparr>;
        let s = put_be H_len (uip_len s) s;
        q \<leftarrow> uip_udp_conn s;
        guard (q < length (uip_udp_conns s));
        let u = uip_udp_conns s ! q;
        let s = put8 H_ttl 0 (u_ttl u) s;
        let s = put8 H_proto 0 UIP_PROTO_UDP s;
        let s = put16 H_udplen (HTONS (uip_slen s + word_of_nat UIP_UDPH_LEN)) s;
        let s = put16 H_udpchksum 0 s;
        let s = put16 H_srcport (u_lport u) s;
        let s = put16 H_destport (u_rport u) s;
        let s = put_ip H_srcipaddr (uip_hostaddr s) s;
        let s = put_ip H_destipaddr (u_ripaddr u) s;
        let s = s\<lparr>uip_appdata := UIP_LLH_LEN + UIP_IPTCPH_LEN\<rparr>;
        c \<leftarrow> uip_udpchksum s;
        let s = put16 H_udpchksum (NOT c) s;
        let s = (if get16 H_udpchksum s = 0 then put16 H_udpchksum 0xffff s else s);
        ip_send_nolen s })"

definition udp_match :: "'a uip \<Rightarrow> udp_conn \<Rightarrow> bool" where
  "udp_match s u \<longleftrightarrow>
     u_lport u \<noteq> 0 \<and> get16 H_destport s = u_lport u \<and>
     (u_rport u = 0 \<or> get16 H_srcport s = u_rport u) \<and>
     (uip_ipaddr_cmp (u_ripaddr u) all_zeroes_addr \<or> uip_ipaddr_cmp (u_ripaddr u) all_ones_addr \<or>
      uip_ipaddr_cmp (get_ip H_srcipaddr s) (u_ripaddr u))"

fun udp_demux :: "'a uip \<Rightarrow> udp_conn list \<Rightarrow> nat \<Rightarrow> nat option" where
  "udp_demux s [] i = None"
| "udp_demux s (u # us) i = (if udp_match s u then Some i else udp_demux s us (i + 1))"

definition udp_input :: "'a appcall \<Rightarrow> 'a uip \<Rightarrow> 'a uip option" where
  "udp_input uapp s = do {
     let s = s\<lparr>uip_len := uip_len s - word_of_nat UIP_IPUDPH_LEN,
               uip_appdata := UIP_LLH_LEN + UIP_IPUDPH_LEN\<rparr>;
     bad \<leftarrow> (if get16 H_udpchksum s \<noteq> 0 then do { c \<leftarrow> uip_udpchksum s; Some (c \<noteq> 0xffff) }
             else Some False);
     if bad then Some (uip_drop (bump Udp_chkerr (bump Udp_drop s)))
     else case udp_demux s (uip_udp_conns s) 0 of
       None \<Rightarrow> Some (uip_drop (s\<lparr>uip_udp_conn := Some (length (uip_udp_conns s))\<rparr>))
     | Some q \<Rightarrow> do {
         let s = s\<lparr>uip_udp_conn := Some q, uip_conn := None, uip_flags := UIP_NEWDATA,
                   uip_sappdata := UIP_LLH_LEN + UIP_IPUDPH_LEN,
                   uip_appdata := UIP_LLH_LEN + UIP_IPUDPH_LEN, uip_slen := 0\<rparr>;
         s \<leftarrow> uapp s;
         udp_send s } }"

subsection \<open>ICMP\<close>

definition icmp_input :: "'a uip \<Rightarrow> 'a uip" where
  "icmp_input s = (let s = bump Icmp_recv s in
     if get8 H_icmptype 0 s \<noteq> 8 then uip_drop (bump Icmp_typeerr (bump Icmp_drop s))
     else (let
       s = put8 H_icmptype 0 0 s;
       s = (if get16 H_icmpchksum s \<ge> HTONS (0xffff - 0x0800)
            then put16 H_icmpchksum (get16 H_icmpchksum s + (HTONS 0x0800 + 1)) s
            else put16 H_icmpchksum (get16 H_icmpchksum s + HTONS 0x0800) s);
       s = put_ip H_destipaddr (get_ip H_srcipaddr s) s;
       s = put_ip H_srcipaddr (uip_hostaddr s) s;
       s = bump Icmp_sent s
     in send_label s))"

subsection \<open>IP input\<close>

text \<open>The check of the fragment fields.\<close>

definition ip_fragment :: "build \<Rightarrow> 'a uip \<Rightarrow> ('a uip \<times> bool) option" where
  "ip_fragment b s =
     (if get8 H_ipoffset 0 s AND 0x3f \<noteq> 0 \<or> get8 H_ipoffset 1 s \<noteq> 0 then
        (if UIP_REASSEMBLY b then do {
           (s, n) \<leftarrow> uip_reass s;
           let s = s\<lparr>uip_len := n\<rparr>;
           Some (s, uip_len s \<noteq> 0) }
         else Some (bump Ip_fragerr (bump Ip_drop s), False))
      else Some (s, True))"

definition ip_input :: "build \<Rightarrow> 'a appcall \<Rightarrow> 'a appcall \<Rightarrow> 'a uip \<Rightarrow> 'a uip option" where
  "ip_input b app uapp s = (let s = bump Ip_recv s in
     if get8 H_vhl 0 s \<noteq> 0x45 then Some (uip_drop (bump Ip_vhlerr (bump Ip_drop s)))
     else if get_be H_len s > uip_len s then Some (uip_drop s)
     else do {
       (s, ok) \<leftarrow> ip_fragment b (s\<lparr>uip_len := get_be H_len s\<rparr>);
       if \<not> ok then Some (uip_drop s)
       else if \<not> uip_ipaddr_cmp (uip_hostaddr s) all_zeroes_addr \<and>
               \<not> uip_ipaddr_cmp (get_ip H_destipaddr s) (uip_hostaddr s)
       then Some (uip_drop (bump Ip_drop s))
       else do {
         c \<leftarrow> uip_ipchksum s;
         if c \<noteq> 0xffff then Some (uip_drop (bump Ip_chkerr (bump Ip_drop s)))
         else if get8 H_proto 0 s = UIP_PROTO_TCP then tcp_input app s
         else if UIP_UDP b \<and> get8 H_proto 0 s = UIP_PROTO_UDP then udp_input uapp s
         else if get8 H_proto 0 s \<noteq> UIP_PROTO_ICMP
         then Some (uip_drop (bump Ip_protoerr (bump Ip_drop s)))
         else Some (icmp_input s) } })"

subsection \<open>The periodic timer\<close>

text \<open>The retransmission timer of connection \<open>r\<close> has run out.\<close>

definition timer_rexmit :: "'a appcall \<Rightarrow> nat \<Rightarrow> 'a uip \<Rightarrow> 'a uip option" where
  "timer_rexmit app r s =
     (if nrtx (cn r s) = UIP_MAXRTX \<or>
         (tcpstateflags (cn r s) = UIP_SYN_SENT \<or> tcpstateflags (cn r s) = UIP_SYN_RCVD) \<and>
         nrtx (cn r s) = UIP_MAXSYNRTX
      then do {
        let s = upd r (\<lambda>c. c\<lparr>tcpstateflags := UIP_CLOSED\<rparr>) s;
        s \<leftarrow> app (s\<lparr>uip_flags := UIP_TIMEDOUT\<rparr>);
        tcp_send_nodata r (put8 H_flags 0 (TCP_RST OR TCP_ACK) s) }
      else (let
        s = upd r (\<lambda>c. c\<lparr>rtimer := push_bit (if nrtx c > 4 then 4 else unat (nrtx c)) UIP_RTO\<rparr>) s;
        s = upd r (\<lambda>c. c\<lparr>nrtx := nrtx c + 1\<rparr>) s;
        s = bump Tcp_rexmit s;
        st = tcpstateflags (cn r s) AND UIP_TS_MASK
      in if st = UIP_SYN_RCVD then tcp_send_synack r s
         else if st = UIP_SYN_SENT then tcp_send_syn r (put8 H_flags 0 0 s)
         else if st = UIP_ESTABLISHED then do {
           s \<leftarrow> app (s\<lparr>uip_flags := UIP_REXMIT\<rparr>);
           apprexmit r s }
         else if st = UIP_FIN_WAIT_1 \<or> st = UIP_CLOSING \<or> st = UIP_LAST_ACK
         then tcp_send_finack r s
         else Some (uip_drop s)))"

definition process_timer :: "build \<Rightarrow> 'a appcall \<Rightarrow> nat \<Rightarrow> 'a uip \<Rightarrow> 'a uip option" where
  "process_timer b app r s = (let
     s = (if UIP_REASSEMBLY b \<and> reasstmr s \<noteq> 0 then s\<lparr>reasstmr := reasstmr s - 1\<rparr> else s);
     s = s\<lparr>iss := inc32 (iss s)\<rparr>;
     s = s\<lparr>uip_len := 0, uip_slen := 0\<rparr>
   in if tcpstateflags (cn r s) = UIP_TIME_WAIT \<or> tcpstateflags (cn r s) = UIP_FIN_WAIT_2 then (let
        s = upd r (\<lambda>c. c\<lparr>rtimer := rtimer c + 1\<rparr>) s
      in Some (uip_drop (if rtimer (cn r s) = UIP_TIME_WAIT_TIMEOUT
           then upd r (\<lambda>c. c\<lparr>tcpstateflags := UIP_CLOSED\<rparr>) s else s)))
      else if tcpstateflags (cn r s) \<noteq> UIP_CLOSED then
        (if uip_outstanding (cn r s) \<noteq> 0 then (let
           t = rtimer (cn r s);
           s = upd r (\<lambda>c. c\<lparr>rtimer := rtimer c - 1\<rparr>) s
         in if t = 0 then timer_rexmit app r s else Some (uip_drop s))
         else if tcpstateflags (cn r s) AND UIP_TS_MASK = UIP_ESTABLISHED then do {
           s \<leftarrow> app (s\<lparr>uip_flags := UIP_POLL\<rparr>);
           appsend r s }
         else Some (uip_drop s))
      else Some (uip_drop s))"

definition process_poll :: "'a appcall \<Rightarrow> nat \<Rightarrow> 'a uip \<Rightarrow> 'a uip option" where
  "process_poll app r s =
     (if tcpstateflags (cn r s) AND UIP_TS_MASK = UIP_ESTABLISHED \<and> uip_outstanding (cn r s) = 0
      then do {
        s \<leftarrow> app (s\<lparr>uip_flags := UIP_POLL\<rparr>);
        appsend r s }
      else Some (uip_drop s))"

definition process_udp_timer :: "'a appcall \<Rightarrow> 'a uip \<Rightarrow> 'a uip option" where
  "process_udp_timer uapp s = do {
     q \<leftarrow> uip_udp_conn s;
     guard (q < length (uip_udp_conns s));
     if u_lport (uip_udp_conns s ! q) \<noteq> 0 then do {
       let s = s\<lparr>uip_conn := None, uip_sappdata := UIP_LLH_LEN + UIP_IPUDPH_LEN,
                 uip_appdata := UIP_LLH_LEN + UIP_IPUDPH_LEN, uip_slen := 0, uip_len := 0,
                 uip_flags := UIP_POLL\<rparr>;
       s \<leftarrow> uapp s;
       udp_send s }
     else Some (uip_drop s) }"

subsection \<open>uip\_process\<close>

text \<open>A timer or poll event needs a current connection; the pointer is followed unchecked.\<close>

definition uip_process ::
    "build \<Rightarrow> 'a appcall \<Rightarrow> 'a appcall \<Rightarrow> uip_event \<Rightarrow> 'a uip \<Rightarrow> 'a uip option" where
  "uip_process b app uapp flag s =
     (if UIP_UDP b \<and> flag = UIP_UDP_SEND_CONN then udp_send s
      else (let
        s = s\<lparr>uip_sappdata := UIP_IPTCPH_LEN + UIP_LLH_LEN,
              uip_appdata := UIP_IPTCPH_LEN + UIP_LLH_LEN\<rparr>
      in if flag = UIP_POLL_REQUEST then do {
           r \<leftarrow> uip_conn s; guard (r < length (uip_conns s)); process_poll app r s }
         else if flag = UIP_TIMER then do {
           r \<leftarrow> uip_conn s; guard (r < length (uip_conns s)); process_timer b app r s }
         else if UIP_UDP b \<and> flag = UIP_UDP_TIMER then process_udp_timer uapp s
         else ip_input b app uapp s))"

text \<open>The macros \<^verbatim>\<open>uip_input\<close>, \<^verbatim>\<open>uip_periodic\<close>, \<^verbatim>\<open>uip_poll_conn\<close> and
  \<^verbatim>\<open>uip_udp_periodic\<close>.\<close>

definition uip_input :: "build \<Rightarrow> 'a appcall \<Rightarrow> 'a appcall \<Rightarrow> 'a uip \<Rightarrow> 'a uip option" where
  "uip_input b app uapp s = uip_process b app uapp UIP_DATA s"

definition uip_periodic ::
    "build \<Rightarrow> 'a appcall \<Rightarrow> 'a appcall \<Rightarrow> nat \<Rightarrow> 'a uip \<Rightarrow> 'a uip option" where
  "uip_periodic b app uapp r s = uip_process b app uapp UIP_TIMER (s\<lparr>uip_conn := Some r\<rparr>)"

definition uip_poll_conn ::
    "build \<Rightarrow> 'a appcall \<Rightarrow> 'a appcall \<Rightarrow> nat \<Rightarrow> 'a uip \<Rightarrow> 'a uip option" where
  "uip_poll_conn b app uapp r s = uip_process b app uapp UIP_POLL_REQUEST (s\<lparr>uip_conn := Some r\<rparr>)"

definition uip_udp_periodic ::
    "build \<Rightarrow> 'a appcall \<Rightarrow> 'a appcall \<Rightarrow> nat \<Rightarrow> 'a uip \<Rightarrow> 'a uip option" where
  "uip_udp_periodic b app uapp q s = uip_process b app uapp UIP_UDP_TIMER (s\<lparr>uip_udp_conn := Some q\<rparr>)"

end
