(* ===== verification/UipPsock.thy ===== *)
theory UipPsock
  imports UipProcess
begin

text \<open>
  Protosockets (\<^verbatim>\<open>uip/psock.c\<close>) and the protothreads below them (\<^verbatim>\<open>uip/pt.h\<close>,
  \<^verbatim>\<open>uip/lc-switch.h\<close>). A local continuation is the number of the line at which the
  function waits, 0 before its first statement; a function that is called with a
  continuation that is none of its own jumps to its end.

  The buffer for incoming data belongs to the application; it is passed along as a list of bytes,
  and pointers into it are indexes. Pointers into the packet buffer are offsets, as in the stack.
\<close>

subsection \<open>Protothreads\<close>

type_synonym lc = nat

datatype pt_result = PT_WAITING | PT_EXITED | PT_ENDED | PT_YIELDED

subsection \<open>Data\<close>

datatype psock_state =
    STATE_NONE | STATE_ACKED | STATE_READ | STATE_BLOCKED_NEWDATA | STATE_BLOCKED_CLOSE
  | STATE_BLOCKED_SEND | STATE_DATA_SENT

record psock_buf =
  bptr :: nat
  left :: u16

text \<open>What \<^verbatim>\<open>sendptr\<close> points to: constant data, given by the bytes from there to its end, or the
  packet buffer.\<close>

datatype sptr = Data "u8 list" | Packet nat

record psock =
  pt :: lc
  psockpt :: lc
  sendptr :: sptr
  readptr :: nat
  bufptr :: nat
  sendlen :: u16
  readlen :: u16
  psbuf :: psock_buf
  bufsize :: u32
  psstate :: psock_state

subsection \<open>The application's view of the stack\<close>

definition uip_newdata :: "'a uip \<Rightarrow> bool" where
  "uip_newdata s \<longleftrightarrow> uip_flags s AND UIP_NEWDATA \<noteq> 0"

definition uip_acked :: "'a uip \<Rightarrow> bool" where
  "uip_acked s \<longleftrightarrow> uip_flags s AND UIP_ACKDATA \<noteq> 0"

definition uip_rexmit :: "'a uip \<Rightarrow> bool" where
  "uip_rexmit s \<longleftrightarrow> uip_flags s AND UIP_REXMIT \<noteq> 0"

definition uip_mss :: "'a uip \<Rightarrow> u16 option" where
  "uip_mss s = do { r \<leftarrow> uip_conn s; Some (mss (cn r s)) }"

subsection \<open>Buffering\<close>

abbreviation (input) "BUF_NOT_FULL \<equiv> (0 :: u8)"
abbreviation (input) "BUF_NOT_FOUND \<equiv> (0 :: u8)"
abbreviation (input) "BUF_FULL \<equiv> (1 :: u8)"
abbreviation (input) "BUF_FOUND \<equiv> (2 :: u8)"

definition buf_setup :: "nat \<Rightarrow> u16 \<Rightarrow> psock_buf" where
  "buf_setup p n = \<lparr>bptr = p, left = n\<rparr>"

text \<open>\<open>ib\<close> is the application's buffer, \<open>ub\<close> the packet buffer, \<open>dp\<close> and \<open>dl\<close> the data pointer and
  length, which are updated.\<close>

definition buf_bufdata ::
    "psock_buf \<Rightarrow> u8 list \<Rightarrow> u8 list \<Rightarrow> nat \<Rightarrow> u16 \<Rightarrow> (u8 \<times> psock_buf \<times> u8 list \<times> nat \<times> u16) option" where
  "buf_bufdata b ib ub dp dl =
     (if dl < left b then do {
        part \<leftarrow> slice dp (unat dl) ub;
        ib \<leftarrow> blit (bptr b) part ib;
        Some (BUF_NOT_FULL, \<lparr>bptr = bptr b + unat dl, left = left b - dl\<rparr>, ib, dp + unat dl, 0) }
      else if dl = left b then do {
        part \<leftarrow> slice dp (unat dl) ub;
        ib \<leftarrow> blit (bptr b) part ib;
        Some (BUF_FULL, \<lparr>bptr = bptr b + unat dl, left = 0\<rparr>, ib, dp + unat dl, 0) }
      else do {
        part \<leftarrow> slice dp (unat (left b)) ub;
        ib \<leftarrow> blit (bptr b) part ib;
        Some (BUF_FULL, \<lparr>bptr = bptr b + unat (left b), left = 0\<rparr>, ib, dp + unat (left b), dl - left b) })"

text \<open>The two loops of \<^verbatim>\<open>buf_bufto\<close>: the first fills the buffer, the second discards what does not
  fit. The result says whether the end marker was met.\<close>

function bufto_fill ::
    "u8 \<Rightarrow> u8 list \<Rightarrow> u8 list \<Rightarrow> psock_buf \<Rightarrow> nat \<Rightarrow> u16 \<Rightarrow>
     (bool \<times> u8 list \<times> psock_buf \<times> nat \<times> u16) option" where
  "bufto_fill endmarker ub ib b dp dl =
     (if left b > 0 \<and> dl > 0 then do {
        guard (dp < length ub);
        guard (bptr b < length ib);
        let c = ub ! dp;
        let ib = ib[bptr b := c];
        let b = \<lparr>bptr = bptr b + 1, left = left b - 1\<rparr>;
        if c = endmarker then Some (True, ib, b, dp + 1, dl - 1)
        else bufto_fill endmarker ub ib b (dp + 1) (dl - 1) }
      else Some (False, ib, b, dp, dl))"
  by pat_completeness auto
termination
  by (relation "measure (\<lambda>(e, ub, ib, b, dp, dl). unat dl)") (auto simp: unat_minus_one unat_gt_0)

function bufto_skip :: "u8 \<Rightarrow> u8 list \<Rightarrow> nat \<Rightarrow> u16 \<Rightarrow> (bool \<times> nat \<times> u16) option" where
  "bufto_skip endmarker ub dp dl =
     (if dl > 0 then do {
        guard (dp < length ub);
        if ub ! dp = endmarker then Some (True, dp + 1, dl - 1)
        else bufto_skip endmarker ub (dp + 1) (dl - 1) }
      else Some (False, dp, dl))"
  by pat_completeness auto
termination
  by (relation "measure (\<lambda>(e, ub, dp, dl). unat dl)") (auto simp: unat_minus_one unat_gt_0)

declare bufto_fill.simps [simp del] bufto_skip.simps [simp del]

definition buf_bufto ::
    "psock_buf \<Rightarrow> u8 \<Rightarrow> u8 list \<Rightarrow> u8 list \<Rightarrow> nat \<Rightarrow> u16 \<Rightarrow>
     (u8 \<times> psock_buf \<times> u8 list \<times> nat \<times> u16) option" where
  "buf_bufto b endmarker ib ub dp dl = do {
     (found, ib, b, dp, dl) \<leftarrow> bufto_fill endmarker ub ib b dp dl;
     if found then Some (BUF_FOUND, b, ib, dp, dl)
     else if dl = 0 then Some (BUF_NOT_FOUND, b, ib, dp, dl)
     else do {
       (found, dp, dl) \<leftarrow> bufto_skip endmarker ub dp dl;
       Some (if found then BUF_FOUND OR BUF_FULL else BUF_FULL, b, ib, dp, dl) } }"

subsection \<open>Sending\<close>

text \<open>\<^verbatim>\<open>uip_send\<close> of what \<^verbatim>\<open>sendptr\<close> points to.\<close>

definition uip_send_ptr :: "sptr \<Rightarrow> u16 \<Rightarrow> 'a uip \<Rightarrow> 'a uip option" where
  "uip_send_ptr d n s = (case d of
     Data bs \<Rightarrow> uip_send (Some bs) (uint n) s
   | Packet o' \<Rightarrow> if o' = uip_sappdata s then uip_send None (uint n) s
       else uip_send (Some (drop o' (uip_buf s))) (uint n) s)"

definition advance :: "sptr \<Rightarrow> u16 \<Rightarrow> sptr" where
  "advance d n = (case d of Data bs \<Rightarrow> Data (drop (unat n) bs) | Packet o' \<Rightarrow> Packet (o' + unat n))"

definition send_data :: "psock \<Rightarrow> 'a uip \<Rightarrow> (bool \<times> psock \<times> 'a uip) option" where
  "send_data p s =
     (if psstate p \<noteq> STATE_DATA_SENT \<or> uip_rexmit s then do {
        m \<leftarrow> uip_mss s;
        s \<leftarrow> (if sendlen p > m then uip_send_ptr (sendptr p) m s
             else uip_send_ptr (sendptr p) (sendlen p) s);
        Some (True, p\<lparr>psstate := STATE_DATA_SENT\<rparr>, s) }
      else Some (False, p, s))"

definition data_acked :: "psock \<Rightarrow> 'a uip \<Rightarrow> (bool \<times> psock) option" where
  "data_acked p s =
     (if psstate p = STATE_DATA_SENT \<and> uip_acked s then do {
        m \<leftarrow> uip_mss s;
        let p = (if sendlen p > m then p\<lparr>sendlen := sendlen p - m, sendptr := advance (sendptr p) m\<rparr>
          else p\<lparr>sendptr := advance (sendptr p) (sendlen p), sendlen := 0\<rparr>);
        Some (True, p\<lparr>psstate := STATE_ACKED\<rparr>) }
      else Some (False, p))"

text \<open>The condition \<^verbatim>\<open>data_acked(s) & send_data(s)\<close>: both are called.\<close>

definition acked_and_sent :: "psock \<Rightarrow> 'a uip \<Rightarrow> (bool \<times> psock \<times> 'a uip) option" where
  "acked_and_sent p s = do {
     (a, p) \<leftarrow> data_acked p s;
     (b, p, s) \<leftarrow> send_data p s;
     Some (a \<and> b, p, s) }"

text \<open>\<^verbatim>\<open>psock_send\<close> from its \<^verbatim>\<open>PT_WAIT_UNTIL\<close> in line 207 on, with the loop around it.\<close>

partial_function (option) psock_send_wait :: "psock \<Rightarrow> 'a uip \<Rightarrow> (pt_result \<times> psock \<times> 'a uip) option" where
  "psock_send_wait p s = (let p = p\<lparr>psockpt := 207\<rparr> in do {
     (ok, p, s) \<leftarrow> acked_and_sent p s;
     if \<not> ok then Some (PT_WAITING, p, s)
     else if sendlen p > 0 then psock_send_wait p s
     else Some (PT_ENDED, p\<lparr>psstate := STATE_NONE, psockpt := 0\<rparr>, s) })"

definition psock_send :: "u8 list \<Rightarrow> u32 \<Rightarrow> psock \<Rightarrow> 'a uip \<Rightarrow> (pt_result \<times> psock \<times> 'a uip) option" where
  "psock_send buf len p s =
     (if psockpt p = 0 then
        (if len = 0 then Some (PT_EXITED, p\<lparr>psockpt := 0\<rparr>, s)
         else let p = p\<lparr>sendptr := Data buf, sendlen := ucast len, psstate := STATE_NONE\<rparr> in
           if sendlen p > 0 then psock_send_wait p s
           else Some (PT_ENDED, p\<lparr>psstate := STATE_NONE, psockpt := 0\<rparr>, s))
      else if psockpt p = 207 then psock_send_wait p s
      else Some (PT_ENDED, p\<lparr>psockpt := 0\<rparr>, s))"

text \<open>A generator fills the packet buffer at \<^verbatim>\<open>uip_appdata\<close> and returns the number of bytes; \<open>'c\<close> is
  the state behind its argument.\<close>

type_synonym ('c, 'a) generator = "'c \<Rightarrow> 'a uip \<Rightarrow> (u16 \<times> 'c \<times> 'a uip) option"

text \<open>\<^verbatim>\<open>psock_generator_send\<close>, from the wait in line 238 on; \<open>fresh\<close> says that control comes
  from above and the first statement of the loop's body is executed.\<close>

partial_function (option) generator_send_loop ::
    "('c, 'a) generator \<Rightarrow> bool \<Rightarrow> psock \<Rightarrow> 'c \<Rightarrow> 'a uip \<Rightarrow> (pt_result \<times> psock \<times> 'c \<times> 'a uip) option" where
  "generator_send_loop generate fresh p c s = do {
     (c, s) \<leftarrow> (if fresh \<and> uip_rexmit s then do {
         (_, c, s) \<leftarrow> generate c s;
         Some (c, s) }
       else Some (c, s));
     let p = p\<lparr>psockpt := 238\<rparr>;
     (ok, p, s) \<leftarrow> acked_and_sent p s;
     if \<not> ok then Some (PT_WAITING, p, c, s)
     else if sendlen p > 0 then generator_send_loop generate True p c s
     else Some (PT_ENDED, p\<lparr>psstate := STATE_NONE, psockpt := 0\<rparr>, c, s) }"

definition psock_generator_send ::
    "('c, 'a) generator option \<Rightarrow> psock \<Rightarrow> 'c \<Rightarrow> 'a uip \<Rightarrow> (pt_result \<times> psock \<times> 'c \<times> 'a uip) option" where
  "psock_generator_send gen p c s =
     (if psockpt p = 0 then
        (case gen of
           None \<Rightarrow> Some (PT_EXITED, p\<lparr>psockpt := 0\<rparr>, c, s)
         | Some generate \<Rightarrow> do {
             (n, c, s) \<leftarrow> generate c s;
             let p = p\<lparr>sendlen := n, sendptr := Packet (uip_appdata s), psstate := STATE_NONE\<rparr>;
             generator_send_loop generate True p c s })
      else if psockpt p = 238 then do {
        generate \<leftarrow> gen;
        generator_send_loop generate False p c s }
      else Some (PT_ENDED, p\<lparr>psockpt := 0\<rparr>, c, s))"

subsection \<open>Receiving\<close>

definition psock_datalen :: "psock \<Rightarrow> u16" where
  "psock_datalen p = ucast (bufsize p) - left (psbuf p)"

definition psock_newdata :: "psock \<Rightarrow> 'a uip \<Rightarrow> bool \<times> psock" where
  "psock_newdata p s =
     (if readlen p > 0 then (True, p)
      else if psstate p = STATE_READ then (False, p\<lparr>psstate := STATE_BLOCKED_NEWDATA\<rparr>)
      else if uip_newdata s then (True, p)
      else (False, p))"

text \<open>The wait for new data at line \<open>l\<close>; \<open>None\<close> as inner result: the protothread waits.\<close>

definition await_newdata :: "lc \<Rightarrow> psock \<Rightarrow> 'a uip \<Rightarrow> bool \<times> psock" where
  "await_newdata l p s = (let
     p = p\<lparr>psockpt := l\<rparr>;
     (ok, p) = psock_newdata p s
   in (ok, if ok then p\<lparr>psstate := STATE_READ, readptr := uip_appdata s, readlen := uip_len s\<rparr> else p))"

text \<open>The loop of \<^verbatim>\<open>psock_readto\<close>; \<open>resumed\<close>: control comes from the wait in line 283.\<close>

partial_function (option) readto_loop ::
    "bool \<Rightarrow> u8 \<Rightarrow> u8 list \<Rightarrow> psock \<Rightarrow> 'a uip \<Rightarrow> (pt_result \<times> u8 list \<times> psock) option" where
  "readto_loop resumed c ib p s =
     (let (ok, p) = (if resumed \<or> readlen p = 0 then await_newdata 283 p s else (True, p)) in
      if \<not> ok then Some (PT_WAITING, ib, p)
      else do {
        (f, b, ib, rp, rl) \<leftarrow> buf_bufto (psbuf p) c ib (uip_buf s) (readptr p) (readlen p);
        let p = p\<lparr>psbuf := b, readptr := rp, readlen := rl\<rparr>;
        if f AND BUF_FOUND = 0 then readto_loop False c ib p s
        else if psock_datalen p = 0 then Some (PT_WAITING, ib, p\<lparr>psstate := STATE_NONE, psockpt := 0\<rparr>)
        else Some (PT_ENDED, ib, p\<lparr>psockpt := 0\<rparr>) })"

definition psock_readto :: "u8 \<Rightarrow> u8 list \<Rightarrow> psock \<Rightarrow> 'a uip \<Rightarrow> (pt_result \<times> u8 list \<times> psock) option" where
  "psock_readto c ib p s =
     (if psockpt p = 0
      then readto_loop False c ib (p\<lparr>psbuf := buf_setup (bufptr p) (ucast (bufsize p))\<rparr>) s
      else if psockpt p = 283 then readto_loop True c ib p s
      else Some (PT_ENDED, ib, p\<lparr>psockpt := 0\<rparr>))"

partial_function (option) readbuf_loop ::
    "bool \<Rightarrow> u8 list \<Rightarrow> psock \<Rightarrow> 'a uip \<Rightarrow> (pt_result \<times> u8 list \<times> psock) option" where
  "readbuf_loop resumed ib p s =
     (let (ok, p) = (if resumed \<or> readlen p = 0 then await_newdata 310 p s else (True, p)) in
      if \<not> ok then Some (PT_WAITING, ib, p)
      else do {
        (f, b, ib, rp, rl) \<leftarrow> buf_bufdata (psbuf p) ib (uip_buf s) (readptr p) (readlen p);
        let p = p\<lparr>psbuf := b, readptr := rp, readlen := rl\<rparr>;
        if f \<noteq> BUF_FULL then readbuf_loop False ib p s
        else if psock_datalen p = 0 then Some (PT_WAITING, ib, p\<lparr>psstate := STATE_NONE, psockpt := 0\<rparr>)
        else Some (PT_ENDED, ib, p\<lparr>psockpt := 0\<rparr>) })"

definition psock_readbuf :: "u8 list \<Rightarrow> psock \<Rightarrow> 'a uip \<Rightarrow> (pt_result \<times> u8 list \<times> psock) option" where
  "psock_readbuf ib p s =
     (if psockpt p = 0
      then readbuf_loop False ib (p\<lparr>psbuf := buf_setup (bufptr p) (ucast (bufsize p))\<rparr>) s
      else if psockpt p = 310 then readbuf_loop True ib p s
      else Some (PT_ENDED, ib, p\<lparr>psockpt := 0\<rparr>))"

definition psock_init :: "nat \<Rightarrow> u32 \<Rightarrow> psock \<Rightarrow> psock" where
  "psock_init buffer buffersize p = p\<lparr>psstate := STATE_NONE, readlen := 0, bufptr := buffer,
     bufsize := buffersize, psbuf := buf_setup buffer (ucast buffersize), pt := 0, psockpt := 0\<rparr>"

subsection \<open>Reading up to a marker\<close>

text \<open>\<open>upto c xs\<close>: the bytes up to and with the first \<open>c\<close>, all without one.\<close>

definition upto_marker :: "u8 \<Rightarrow> u8 list \<Rightarrow> u8 list" where
  "upto_marker c xs = takeWhile (\<lambda>x. x \<noteq> c) xs @ (if c \<in> set xs then [c] else [])"

lemma upto_marker_simps [simp]:
  "upto_marker c [] = []"
  "upto_marker c (x # xs) = (if x = c then [c] else x # upto_marker c xs)"
  by (auto simp: upto_marker_def)

lemma upto_marker_append:
  "upto_marker c (xs @ ys) = (if c \<in> set xs then upto_marker c xs else xs @ upto_marker c ys)"
  by (induction xs) auto

lemma upto_marker_none: "c \<notin> set xs \<Longrightarrow> upto_marker c xs = xs"
  by (induction xs) auto

lemma length_upto_marker: "length (upto_marker c xs) \<le> length xs"
  by (induction xs) auto

lemma upto_marker_prefix: "upto_marker c xs = take (length (upto_marker c xs)) xs"
  by (induction xs) auto

definition patch :: "u8 list \<Rightarrow> nat \<Rightarrow> u8 list \<Rightarrow> u8 list" where
  "patch ib i bs = take i ib @ bs @ drop (i + length bs) ib"

lemma patch_Nil [simp]: "patch ib i [] = ib"
  by (simp add: patch_def)

lemma length_patch: "i + length bs \<le> length ib \<Longrightarrow> length (patch ib i bs) = length ib"
  by (simp add: patch_def)

lemma patch_Cons:
  assumes "i < length ib"
  shows "patch (ib[i := x]) (i + 1) bs = patch ib i (x # bs)"
  using assms by (simp add: patch_def take_Suc_conv_app_nth)

lemma patch_patch:
  assumes "i + length bs + length cs \<le> length ib"
  shows "patch (patch ib i bs) (i + length bs) cs = patch ib i (bs @ cs)"
proof (cases "length ib \<le> i")
  case True
  then have "length bs = 0" "length cs = 0" using assms by linarith+
  then show ?thesis by simp
next
  case False
  then show ?thesis using assms by (simp add: patch_def min_def ac_simps)
qed

lemma blit_patch: "i + length bs \<le> length ib \<Longrightarrow> blit i bs ib = Some (patch ib i bs)"
  by (simp add: blit_def patch_def)

lemma slice_ConsD:
  assumes "slice dp (unat (dl :: u16)) ub = Some (x # xs)"
  shows "0 < dl" "dp < length ub" "ub ! dp = x" "slice (Suc dp) (unat (dl - 1)) ub = Some xs"
    "unat dl = Suc (length xs)"
proof -
  have l: "dp + unat dl \<le> length ub" "take (unat dl) (drop dp ub) = x # xs"
    using assms by (auto simp: slice_def split: if_splits)
  then have "length (x # xs) = unat dl" by (metis length_drop length_take min_absorb2 le_diff_conv2 add_leD1 add.commute)
  then show n: "unat dl = Suc (length xs)" by simp
  then show g: "0 < dl" by (simp add: word_less_nat_alt)
  show "dp < length ub" using l(1) n by linarith
  then have d: "drop dp ub = ub ! dp # drop (Suc dp) ub" by (simp add: Cons_nth_drop_Suc)
  then show "ub ! dp = x" using l(2) n by simp
  have "unat (dl - 1) = length xs" using g n by (simp add: unat_minus_one unat_gt_0)
  then show "slice (Suc dp) (unat (dl - 1)) ub = Some xs" using l n d by (simp add: slice_def)
qed

lemma slice_length: "slice dp n ub = Some xs \<Longrightarrow> length xs = n"
  by (auto simp: slice_def split: if_splits)

lemma slice_NilD: "slice dp (unat (dl :: u16)) ub = Some [] \<Longrightarrow> dl = 0"
  by (drule slice_length) (simp add: unat_eq_zero)

lemma bufto_fill_spec:
  assumes "slice dp (unat dl) ub = Some xs" "bptr b + unat (left b) \<le> length ib"
  shows "bufto_fill c ub ib b dp dl = (let ys = upto_marker c (take (unat (left b)) xs); k = length ys in
    Some (c \<in> set (take (unat (left b)) xs), patch ib (bptr b) ys,
      \<lparr>bptr = bptr b + k, left = left b - of_nat k\<rparr>, dp + k, dl - of_nat k))"
  using assms
proof (induction xs arbitrary: dp dl ib b)
  case Nil
  have "dl = 0" by (rule slice_NilD) (rule Nil.prems(1))
  then show ?case by (subst bufto_fill.simps) (cases b, simp)
next
  case (Cons x xs)
  note x = slice_ConsD [OF Cons.prems(1)]
  show ?case
  proof (cases "left b = 0")
    case True
    then show ?thesis by (subst bufto_fill.simps) (cases b, simp)
  next
    case False
    then have n: "0 < left b" "unat (left b) = Suc (unat (left b - 1))"
      by (auto simp: unat_minus_one unat_gt_0 word_neq_0_conv)
    then have i: "bptr b < length ib" using Cons.prems(2) by linarith
    let ?b = "\<lparr>bptr = bptr b + 1, left = left b - 1\<rparr>"
    have "bptr ?b + unat (left ?b) \<le> length (ib[bptr b := x])" using n(2) Cons.prems(2) by simp
    note IH = Cons.IH [OF x(4) this]
    have u: "unat dl = Suc (unat (dl - 1))" using x(1) by (simp add: unat_minus_one unat_gt_0)
    show ?thesis
      by (subst bufto_fill.simps)
        (use x n i IH in \<open>simp add: Let_def patch_Cons [simplified] patch_def take_Suc_conv_app_nth upd_conv_take_nth_drop algebra_simps\<close>)
  qed
qed

lemma bufto_skip_spec:
  assumes "slice dp (unat dl) ub = Some xs"
  shows "bufto_skip c ub dp dl = (let k = length (upto_marker c xs) in
    Some (c \<in> set xs, dp + k, dl - of_nat k))"
  using assms
proof (induction xs arbitrary: dp dl)
  case Nil
  have "dl = 0" by (rule slice_NilD) (rule Nil.prems(1))
  then show ?case by (subst bufto_skip.simps) simp
next
  case (Cons x xs)
  note x = slice_ConsD [OF Cons.prems(1)]
  show ?case
    by (subst bufto_skip.simps) (use x Cons.IH [OF x(4)] in \<open>simp add: Let_def algebra_simps\<close>)
qed

text \<open>What \<^verbatim>\<open>buf_bufto\<close> does with the data \<open>xs\<close>: everything up to the marker is consumed, as much
  as fits is stored.\<close>

lemma buf_bufto_spec:
  assumes "slice dp (unat dl) ub = Some xs" "bptr b + unat (left b) \<le> length ib"
  shows "\<exists>f. buf_bufto b c ib ub dp dl = (let us = upto_marker c xs; ys = take (unat (left b)) us in
    Some (f, \<lparr>bptr = bptr b + length ys, left = left b - of_nat (length ys)\<rparr>, patch ib (bptr b) ys,
      dp + length us, dl - of_nat (length us))) \<and> (f AND BUF_FOUND = 0 \<longleftrightarrow> c \<notin> set xs)"
proof -
  define n where "n = unat (left b)"
  define ys where "ys = upto_marker c (take n xs)"
  have fill: "bufto_fill c ub ib b dp dl = Some (c \<in> set (take n xs), patch ib (bptr b) ys,
      \<lparr>bptr = bptr b + length ys, left = left b - of_nat (length ys)\<rparr>, dp + length ys, dl - of_nat (length ys))"
    using bufto_fill_spec [OF assms, of c] by (simp add: Let_def n_def ys_def)
  have us: "upto_marker c xs = (if c \<in> set (take n xs) then ys else ys @ upto_marker c (drop n xs))"
    using upto_marker_append [of c "take n xs" "drop n xs"] upto_marker_none [of c "take n xs"] by (simp add: ys_def)
  have lys: "length ys \<le> n" using length_upto_marker [of c "take n xs"] by (simp add: ys_def)
  have lxs: "length xs = unat dl" by (rule slice_length [OF assms(1)])
  show ?thesis
  proof (cases "c \<in> set (take n xs)")
    case True
    then have "c \<in> set xs" by (rule in_set_takeD)
    then show ?thesis using fill True us lys by (simp add: buf_bufto_def Let_def n_def [symmetric])
  next
    case False
    then have ys: "ys = take n xs" by (simp add: ys_def upto_marker_none)
    then have ty: "take n (ys @ upto_marker c (drop n xs)) = ys"
      using length_upto_marker [of c "drop n xs"] by (cases "length xs \<le> n") simp_all
    have cs: "c \<in> set xs \<longleftrightarrow> c \<in> set (drop n xs)" using False by (metis Un_iff append_take_drop_id set_append)
    show ?thesis
    proof (cases "length xs \<le> n")
      case True
      then have "dl - of_nat (length ys) = 0" using ys lxs by simp
      moreover have "c \<notin> set xs" using False True by simp
      ultimately show ?thesis using fill False us True ys by (simp add: buf_bufto_def Let_def n_def [symmetric])
    next
      case l: False
      then have n: "length ys = n" using ys by simp
      have "n < 65536" using l lxs unat_u16_bound [of dl] by linarith
      then have un: "unat (of_nat n :: u16) = n" by (simp add: unat_of_nat)
      then have m: "unat (dl - of_nat n) = unat dl - n"
        using l lxs unat_sub [of "of_nat n" dl] by (simp add: word_le_nat_alt)
      then have nz: "dl - of_nat n \<noteq> 0" using l lxs by auto
      have "slice (dp + n) (unat (dl - of_nat n)) ub = Some (drop n xs)"
        using assms(1) l lxs m by (auto simp: slice_def drop_take ac_simps split: if_splits)
      from bufto_skip_spec [OF this, of c]
      have "bufto_skip c ub (dp + n) (dl - of_nat n) = Some (c \<in> set xs, dp + length (upto_marker c xs),
          dl - of_nat (length (upto_marker c xs)))"
        using us False n by (simp add: Let_def cs algebra_simps)
      then show ?thesis using fill False us ty n nz by (simp add: buf_bufto_def Let_def n_def [symmetric])
    qed
  qed
qed

text \<open>The bytes a reading function finds: those it has not consumed yet, or those of the event.\<close>

definition available :: "psock \<Rightarrow> 'a uip \<Rightarrow> u8 list option" where
  "available p s =
     (if readlen p > 0 then slice (readptr p) (unat (readlen p)) (uip_buf s)
      else if psstate p \<noteq> STATE_READ \<and> uip_newdata s then slice (uip_appdata s) (unat (uip_len s)) (uip_buf s)
      else Some [])"

text \<open>The buffer, which was \<open>ib0\<close> before the call, holds the first \<open>n\<close> bytes of \<open>line\<close>.\<close>

definition reading :: "nat \<Rightarrow> u8 list \<Rightarrow> u8 list \<Rightarrow> u8 list \<Rightarrow> psock \<Rightarrow> bool" where
  "reading n ib0 line ib p \<longleftrightarrow> bufsize p = of_nat n \<and> n < 65536 \<and> bufptr p + n \<le> length ib0 \<and>
     psbuf p = \<lparr>bptr = bufptr p + min n (length line), left = of_nat (n - length line)\<rparr> \<and>
     ib = patch ib0 (bufptr p) (take n line)"

lemma reading_cong:
  "psbuf q = psbuf p \<Longrightarrow> bufptr q = bufptr p \<Longrightarrow> bufsize q = bufsize p \<Longrightarrow>
   reading n ib0 line ib q = reading n ib0 line ib p"
  by (simp add: reading_def)

lemma ucast_small: "n < 65536 \<Longrightarrow> ucast (of_nat n :: u32) = (of_nat n :: u16)"
  by (simp add: unsigned_of_nat take_bit_nat_eq_self)

lemma reading_start:
  "bufsize p = of_nat n \<Longrightarrow> n < 65536 \<Longrightarrow> bufptr p + n \<le> length ib \<Longrightarrow>
   reading n ib [] ib (p\<lparr>psbuf := buf_setup (bufptr p) (ucast (bufsize p))\<rparr>)"
  by (simp add: reading_def buf_setup_def ucast_small)

lemma unat_small: "n < 65536 \<Longrightarrow> unat (of_nat n :: u16) = n"
  by (simp add: unat_of_nat)

lemma reading_length: "reading n ib0 line ib p \<Longrightarrow> length ib = length ib0"
  by (auto simp: reading_def intro!: length_patch)

lemma reading_datalen:
  assumes "reading n ib0 line ib p"
  shows "unat (psock_datalen p) = min n (length line)"
proof -
  have n: "n < 65536" "bufsize p = of_nat n" "left (psbuf p) = of_nat (n - length line)"
    using assms by (simp_all add: reading_def)
  have "psock_datalen p = of_nat n - of_nat (n - length line)"
    by (simp add: psock_datalen_def n(2,3) ucast_small [OF n(1)])
  also have "\<dots> = of_nat (n - (n - length line))" by (rule of_nat_diff [symmetric]) simp
  also have "n - (n - length line) = min n (length line)" by simp
  finally show ?thesis using n(1) by (simp add: unat_of_nat min_def)
qed

lemma reading_data:
  assumes "reading n ib0 line ib p" "slice (readptr p) (unat (readlen p)) ub = Some xs"
  shows "\<exists>f b ib'. buf_bufto (psbuf p) c ib ub (readptr p) (readlen p) = Some (f, b, ib',
      readptr p + length (upto_marker c xs), readlen p - of_nat (length (upto_marker c xs))) \<and>
    (f AND BUF_FOUND = 0 \<longleftrightarrow> c \<notin> set xs) \<and>
    (\<forall>q. psbuf q = b \<and> bufptr q = bufptr p \<and> bufsize q = bufsize p \<longrightarrow> reading n ib0 (line @ upto_marker c xs) ib' q)"
proof -
  have r: "n < 65536" "bufptr p + n \<le> length ib0"
    "psbuf p = \<lparr>bptr = bufptr p + min n (length line), left = of_nat (n - length line)\<rparr>"
    "ib = patch ib0 (bufptr p) (take n line)"
    using assms(1) by (simp_all add: reading_def)
  have l: "unat (of_nat (n - length line) :: u16) = n - length line" using r(1) by (intro unat_small) simp
  have "bptr (psbuf p) + unat (left (psbuf p)) \<le> length ib"
    using r reading_length [OF assms(1)] l by simp
  from buf_bufto_spec [OF assms(2) this, of c] obtain f where
    f: "f AND BUF_FOUND = 0 \<longleftrightarrow> c \<notin> set xs" and
    b: "buf_bufto (psbuf p) c ib ub (readptr p) (readlen p) = (let us = upto_marker c xs; ys = take (n - length line) us in
      Some (f, \<lparr>bptr = bptr (psbuf p) + length ys, left = left (psbuf p) - of_nat (length ys)\<rparr>,
        patch ib (bptr (psbuf p)) ys, readptr p + length us, readlen p - of_nat (length us)))"
    using l r(3) by auto
  let ?ys = "take (n - length line) (upto_marker c xs)"
  have "patch (patch ib0 (bufptr p) (take n line)) (bufptr p + length (take n line)) ?ys =
      patch ib0 (bufptr p) (take n line @ ?ys)"
    by (rule patch_patch) (use r(2) in simp)
  then have "patch ib (bptr (psbuf p)) ?ys = patch ib0 (bufptr p) (take n (line @ upto_marker c xs))"
    by (simp add: r(3,4) min.commute)
  moreover have "(of_nat (n - length line) - of_nat (length ?ys) :: u16) = of_nat (n - length line - length ?ys)"
    by (rule of_nat_diff [symmetric]) simp
  moreover have "n - length line - length ?ys = n - length (line @ upto_marker c xs)"
    by simp
  moreover have "min n (length line) + length ?ys = min n (length (line @ upto_marker c xs))"
    by (simp only: length_take length_append)
  ultimately show ?thesis using b f r assms(1) by (simp add: Let_def reading_def)
qed

text \<open>What one call reads. Without a marker in the bytes it finds, \<^verbatim>\<open>psock_readto\<close> has consumed
  them all and waits; otherwise it ends behind the marker.\<close>

definition readto_result :: "u8 \<Rightarrow> nat \<Rightarrow> u8 list \<Rightarrow> u8 list \<Rightarrow> u8 list \<Rightarrow> psock \<Rightarrow> 'a uip \<Rightarrow>
    pt_result \<times> u8 list \<times> psock \<Rightarrow> bool" where
  "readto_result c n ib0 line xs p s r = (case r of (res, ib', p') \<Rightarrow>
     reading n ib0 (line @ upto_marker c xs) ib' p' \<and> pt p' = pt p \<and> bufptr p' = bufptr p \<and> bufsize p' = bufsize p \<and>
     (if c \<in> set xs then res = PT_ENDED \<and> psockpt p' = 0 \<and> psstate p' = STATE_READ \<and>
        slice (readptr p') (unat (readlen p')) (uip_buf s) = Some (drop (length (upto_marker c xs)) xs)
      else res = PT_WAITING \<and> psockpt p' = 283 \<and> psstate p' \<noteq> STATE_READ \<and> readlen p' = 0))"

lemma readto_loop_waits:
  assumes "reading n ib0 line ib p" "readlen p = 0" "psstate p = STATE_READ \<or> \<not> uip_newdata s"
  shows "\<exists>r. readto_loop resumed c ib p s = Some r \<and> readto_result c n ib0 line [] p s r"
proof -
  obtain p1 where p1: "await_newdata 283 p s = (False, p1)" "psstate p1 \<noteq> STATE_READ" "readlen p1 = 0" "psockpt p1 = 283"
    "pt p1 = pt p" "psbuf p1 = psbuf p" "bufptr p1 = bufptr p" "bufsize p1 = bufsize p"
    using assms(2,3) that
    by (cases "psstate p = STATE_READ") (simp_all add: await_newdata_def psock_newdata_def Let_def)
  then show ?thesis
    using assms(1,2) reading_cong [of p1 p n ib0 line ib]
    by (subst readto_loop.simps) (simp add: readto_result_def)
qed

lemma reading_marker:
  assumes "reading n ib0 line ib p" "0 < n" "line \<noteq> []"
  shows "psock_datalen p \<noteq> 0"
proof -
  have "0 < unat (psock_datalen p)" using reading_datalen [OF assms(1)] assms(2,3) by simp
  then show ?thesis by auto
qed

lemma upto_marker_eq: "c \<in> set xs \<Longrightarrow> upto_marker c xs \<noteq> []"
  by (cases xs) auto

lemma readto_loop_data:
  assumes "reading n ib0 line ib p" "psstate p = STATE_READ" "0 < n"
    and "slice (readptr p) (unat (readlen p)) (uip_buf s) = Some xs"
    and "(ok, p) = (if resumed \<or> readlen q = 0 then await_newdata 283 q s else (True, q))" "ok"
    and "pt p = pt q" "bufptr p = bufptr q" "bufsize p = bufsize q"
  shows "\<exists>r. readto_loop resumed c ib q s = Some r \<and> readto_result c n ib0 line xs q s r"
proof -
  let ?us = "upto_marker c xs"
  obtain f b ib' where b: "buf_bufto (psbuf p) c ib (uip_buf s) (readptr p) (readlen p) = Some (f, b, ib',
      readptr p + length ?us, readlen p - of_nat (length ?us))"
    "f AND BUF_FOUND = 0 \<longleftrightarrow> c \<notin> set xs"
    "\<And>q. psbuf q = b \<Longrightarrow> bufptr q = bufptr p \<Longrightarrow> bufsize q = bufsize p \<Longrightarrow> reading n ib0 (line @ ?us) ib' q"
    using reading_data [OF assms(1,4), of c] by blast
  define p1 where "p1 = p\<lparr>psbuf := b, readptr := readptr p + length ?us, readlen := readlen p - of_nat (length ?us)\<rparr>"
  have r1: "reading n ib0 (line @ ?us) ib' p1" by (rule b(3)) (simp_all add: p1_def)
  have xl: "length xs = unat (readlen p)" by (rule slice_length [OF assms(4)])
  have step: "readto_loop resumed c ib q s =
     (if c \<notin> set xs then readto_loop False c ib' p1 s
      else if psock_datalen p1 = 0 then Some (PT_WAITING, ib', p1\<lparr>psstate := STATE_NONE, psockpt := 0\<rparr>)
      else Some (PT_ENDED, ib', p1\<lparr>psockpt := 0\<rparr>))"
    using assms(6) b(2) by (subst readto_loop.simps) (simp add: assms(5) [symmetric] b(1) Let_def p1_def [symmetric])
  show ?thesis
  proof (cases "c \<in> set xs")
    case True
    have "psock_datalen p1 \<noteq> 0" by (rule reading_marker [OF r1 assms(3)]) (simp add: upto_marker_eq [OF True])
    then have "readto_loop resumed c ib q s = Some (PT_ENDED, ib', p1\<lparr>psockpt := 0\<rparr>)" using step True by simp
    moreover have "slice (readptr p1) (unat (readlen p1)) (uip_buf s) = Some (drop (length ?us) xs)"
    proof -
      have "length ?us \<le> unat (readlen p)" using length_upto_marker [of c xs] xl by simp
      moreover then have "unat (of_nat (length ?us) :: u16) = length ?us"
        using unat_u16_bound [of "readlen p"] by (intro unat_small) linarith
      ultimately have "unat (readlen p1) = unat (readlen p) - length ?us"
        using unat_sub [of "of_nat (length ?us)" "readlen p"] by (simp add: p1_def word_le_nat_alt)
      then show ?thesis using assms(4) \<open>length ?us \<le> unat (readlen p)\<close>
        by (auto simp: slice_def p1_def drop_take ac_simps split: if_splits)
    qed
    ultimately show ?thesis
      using True r1 assms(2,7-9) reading_cong [of "p1\<lparr>psockpt := 0\<rparr>" p1 n ib0 "line @ ?us" ib']
      by (simp add: readto_result_def p1_def)
  next
    case False
    then have us: "?us = xs" by (rule upto_marker_none)
    then have "readlen p1 = 0" "psstate p1 = STATE_READ" using xl assms(2) by (simp_all add: p1_def)
    from readto_loop_waits [OF r1 this(1), of s False c] this(2)
    obtain r where "readto_loop False c ib' p1 s = Some r" "readto_result c n ib0 (line @ ?us) [] p1 s r" by auto
    then show ?thesis using step False us assms(7-9)
      by (auto simp: readto_result_def p1_def split: prod.splits)
  qed
qed

lemma readto_loop_spec:
  assumes "reading n ib0 line ib p" "0 < n" "readlen p > 0 \<longrightarrow> psstate p = STATE_READ \<and> \<not> resumed"
    and "available p s = Some xs"
  shows "\<exists>r. readto_loop resumed c ib p s = Some r \<and> readto_result c n ib0 line xs p s r"
proof (cases "readlen p > 0")
  case True
  then have "readlen p \<noteq> 0" by auto
  with True show ?thesis
    using readto_loop_data [OF assms(1) _ assms(2), of s xs True resumed p c] assms(3,4)
    by (simp add: available_def)
next
  case False
  then have z: "readlen p = 0" by (simp add: word_neq_0_conv [symmetric])
  show ?thesis
  proof (cases "psstate p \<noteq> STATE_READ \<and> uip_newdata s")
    case True
    let ?p = "p\<lparr>psockpt := 283, psstate := STATE_READ, readptr := uip_appdata s, readlen := uip_len s\<rparr>"
    have a: "await_newdata 283 p s = (True, ?p)"
      using True z by (simp add: await_newdata_def psock_newdata_def Let_def)
    have "reading n ib0 line ib ?p" using reading_cong [of ?p p n ib0 line ib] assms(1) by simp
    moreover have "slice (readptr ?p) (unat (readlen ?p)) (uip_buf s) = Some xs"
      using assms(4) True z by (simp add: available_def)
    ultimately show ?thesis
      using a z by (intro readto_loop_data [of n ib0 line ib ?p s xs True resumed p c]) (simp_all add: assms(2))
  next
    case no: False
    then have "xs = []" using assms(4) z by (simp add: available_def split: if_splits)
    moreover have "psstate p = STATE_READ \<or> \<not> uip_newdata s" using no by blast
    ultimately show ?thesis using readto_loop_waits [OF assms(1) z, of s resumed c] by simp
  qed
qed

text \<open>A protosocket at the start of a read, or waiting within one that has met \<open>line\<close> so far.\<close>

definition reader :: "nat \<Rightarrow> u8 list \<Rightarrow> u8 list \<Rightarrow> u8 list \<Rightarrow> psock \<Rightarrow> bool" where
  "reader n ib0 line ib p \<longleftrightarrow> (readlen p > 0 \<longrightarrow> psstate p = STATE_READ) \<and>
     (if psockpt p = 0 then line = [] \<and> ib0 = ib \<and> bufsize p = of_nat n \<and> n < 65536 \<and> bufptr p + n \<le> length ib
      else psockpt p = 283 \<and> readlen p = 0 \<and> reading n ib0 line ib p)"

lemma psock_readto_spec:
  assumes "reader n ib0 line ib p" "0 < n" "available p s = Some xs"
  shows "\<exists>r. psock_readto c ib p s = Some r \<and> readto_result c n ib0 line xs p s r"
proof (cases "psockpt p = 0")
  case True
  let ?p = "p\<lparr>psbuf := buf_setup (bufptr p) (ucast (bufsize p))\<rparr>"
  have "reading n ib0 line ib ?p" using assms(1) True reading_start [of p n ib] by (auto simp: reader_def)
  moreover have "available ?p s = available p s" by (simp add: available_def)
  ultimately obtain r where "readto_loop False c ib ?p s = Some r" "readto_result c n ib0 line xs ?p s r"
    using readto_loop_spec [of n ib0 line ib ?p False s xs c] assms by (auto simp: reader_def)
  then show ?thesis using True by (simp add: psock_readto_def readto_result_def)
next
  case False
  then show ?thesis
    using assms readto_loop_spec [of n ib0 line ib p True s xs c] by (simp add: psock_readto_def reader_def)
qed

lemma readto_result_waiting:
  "readto_result c n ib0 line xs p s (res, ib', p') \<Longrightarrow> c \<notin> set xs \<Longrightarrow>
    res = PT_WAITING \<and> reader n ib0 (line @ xs) ib' p' \<and> psstate p' \<noteq> STATE_READ \<and> readlen p' = 0"
  by (simp add: readto_result_def reader_def upto_marker_none)

text \<open>The events after one another, until the protothread does not wait any more.\<close>

fun readto_events :: "u8 \<Rightarrow> u8 list \<Rightarrow> psock \<Rightarrow> 'a uip list \<Rightarrow> (pt_result \<times> u8 list \<times> psock) option" where
  "readto_events c ib p [] = Some (PT_WAITING, ib, p)"
| "readto_events c ib p (s # ss) = do {
     (res, ib, p) \<leftarrow> psock_readto c ib p s;
     if res = PT_WAITING then readto_events c ib p ss else Some (res, ib, p) }"

definition brings :: "'a uip \<Rightarrow> u8 list \<Rightarrow> bool" where
  "brings s xs \<longleftrightarrow> uip_newdata s \<and> slice (uip_appdata s) (unat (uip_len s)) (uip_buf s) = Some xs"

lemma readto_events_spec:
  assumes "reader n ib0 line ib p" "readlen p = 0" "psstate p \<noteq> STATE_READ" "0 < n"
    and "list_all2 brings ss xss" "c \<notin> set (concat xss)" "brings s xs" "c \<in> set xs"
  shows "\<exists>ib' p'. readto_events c ib p (ss @ [s]) = Some (PT_ENDED, ib', p') \<and>
    reading n ib0 (line @ concat xss @ upto_marker c xs) ib' p' \<and> psockpt p' = 0 \<and> psstate p' = STATE_READ \<and>
    slice (readptr p') (unat (readlen p')) (uip_buf s) = Some (drop (length (upto_marker c xs)) xs) \<and>
    pt p' = pt p \<and> bufptr p' = bufptr p \<and> bufsize p' = bufsize p"
  using assms(5,1-3,6)
proof (induction ss xss arbitrary: line ib p rule: list_all2_induct)
  case Nil
  have "available p s = Some xs" using Nil.prems(2,3) assms(7) by (simp add: available_def brings_def)
  from psock_readto_spec [OF Nil.prems(1) assms(4) this, of c] show ?case
    using assms(8) by (auto simp: readto_result_def)
next
  case (Cons s1 ss ys xss)
  have "available p s1 = Some ys" using Cons.prems(2,3) Cons.hyps(1) by (simp add: available_def brings_def)
  from psock_readto_spec [OF Cons.prems(1) assms(4) this, of c] obtain res ib1 p1 where
    r: "psock_readto c ib p s1 = Some (res, ib1, p1)" "readto_result c n ib0 line ys p s1 (res, ib1, p1)"
    by (metis prod_cases3)
  have c: "c \<notin> set ys" "c \<notin> set (concat xss)" using Cons.prems(4) by auto
  note w = readto_result_waiting [OF r(2) c(1)]
  obtain ib' p' where "readto_events c ib1 p1 (ss @ [s]) = Some (PT_ENDED, ib', p')"
    "reading n ib0 ((line @ ys) @ concat xss @ upto_marker c xs) ib' p'" "psockpt p' = 0" "psstate p' = STATE_READ"
    "slice (readptr p') (unat (readlen p')) (uip_buf s) = Some (drop (length (upto_marker c xs)) xs)"
    "pt p' = pt p1" "bufptr p' = bufptr p1" "bufsize p' = bufsize p1"
    using Cons.IH [of "line @ ys" ib1 p1] w c(2) by blast
  then show ?case using r w by (auto simp: readto_result_def)
qed

text \<open>C20: Reading a line does not depend on how the bytes are cut into segments. A fresh
  protosocket with a buffer of \<open>n\<close> bytes waits in \<^verbatim>\<open>PSOCK_READTO\<close> through any events whose
  data lack the marker and ends in the event that brings it: the buffer then holds the first
  \<open>n\<close> bytes of everything up to the marker, \<^verbatim>\<open>psock_datalen\<close> is their number, and the
  bytes behind the marker are kept for the next read.\<close>

theorem psock_readto_stream:
  assumes "psockpt p = 0" "readlen p = 0" "psstate p \<noteq> STATE_READ"
    and "bufsize p = of_nat n" "0 < n" "n < 65536" "bufptr p + n \<le> length ib"
    and "list_all2 brings ss xss" "c \<notin> set (concat xss)" "brings s (ys @ c # zs)" "c \<notin> set ys"
  shows "\<exists>ib' p'. readto_events c ib p (ss @ [s]) = Some (PT_ENDED, ib', p') \<and>
    slice (bufptr p) (unat (psock_datalen p')) ib' = Some (take n (concat xss @ ys @ [c])) \<and>
    length ib' = length ib \<and> slice (readptr p') (unat (readlen p')) (uip_buf s) = Some zs"
proof -
  have r: "reader n ib [] ib p" using assms by (simp add: reader_def)
  have u: "upto_marker c (ys @ c # zs) = ys @ [c]" using assms(11) by (simp add: upto_marker_append)
  obtain ib' p' where p': "readto_events c ib p (ss @ [s]) = Some (PT_ENDED, ib', p')"
    "reading n ib (concat xss @ ys @ [c]) ib' p'" "bufptr p' = bufptr p"
    "slice (readptr p') (unat (readlen p')) (uip_buf s) = Some zs"
    using readto_events_spec [OF r assms(2,3,5,8,9,10), simplified u] by auto
  define line where "line = take n (concat xss @ ys @ [c])"
  have "unat (psock_datalen p') = length line" unfolding line_def using reading_datalen [OF p'(2)] by simp
  moreover have b: "ib' = patch ib (bufptr p) line" using p'(2,3) by (simp add: reading_def line_def)
  moreover have "length line \<le> n" by (simp add: line_def)
  then have "bufptr p + length line \<le> length ib" using assms(7) by linarith
  ultimately have l: "slice (bufptr p) (unat (psock_datalen p')) ib' = Some line" by (simp add: slice_def patch_def)
  show ?thesis using p'(1,4) l reading_length [OF p'(2)] unfolding line_def by blast
qed

subsection \<open>Sending a buffer\<close>

definition room :: "nat \<Rightarrow> 'a uip \<Rightarrow> bool" where
  "room n s \<longleftrightarrow> uip_sappdata s + n \<le> length (uip_buf s)"

text \<open>The state after \<^verbatim>\<open>uip_send\<close> of \<open>bs\<close>.\<close>

definition put_chunk :: "u8 list \<Rightarrow> 'a uip \<Rightarrow> 'a uip" where
  "put_chunk bs s = s\<lparr>uip_slen := of_nat (length bs), uip_buf := patch (uip_buf s) (uip_sappdata s) bs\<rparr>"

lemma put_chunk_sel [simp]:
  "uip_flags (put_chunk bs s) = uip_flags s"
  "uip_sappdata (put_chunk bs s) = uip_sappdata s"
  "uip_conn (put_chunk bs s) = uip_conn s"
  "uip_conns (put_chunk bs s) = uip_conns s"
  "uip_slen (put_chunk bs s) = of_nat (length bs)"
  "uip_buf (put_chunk bs s) = patch (uip_buf s) (uip_sappdata s) bs"
  by (simp_all add: put_chunk_def)

lemma put_chunk_flags [simp]:
  "uip_acked (put_chunk bs s) = uip_acked s" "uip_rexmit (put_chunk bs s) = uip_rexmit s"
  "uip_newdata (put_chunk bs s) = uip_newdata s" "uip_mss (put_chunk bs s) = uip_mss s"
  by (simp_all add: uip_acked_def uip_rexmit_def uip_newdata_def uip_mss_def cn_def)

lemma room_mono: "room n s \<Longrightarrow> m \<le> n \<Longrightarrow> room m s"
  by (simp add: room_def)

lemma room_put_chunk: "room (length bs) s \<Longrightarrow> room n (put_chunk bs s) = room n s"
  by (simp add: room_def length_patch)

lemma put_chunk_read: "room (length bs) s \<Longrightarrow> slice (uip_sappdata s) (length bs) (uip_buf (put_chunk bs s)) = Some bs"
  by (simp add: slice_def room_def patch_def)

lemma uip_send_ptr_Data:
  assumes "unat n \<le> length ds" "room (unat n) s"
  shows "uip_send_ptr (Data ds) n s = Some (if n = 0 then s else put_chunk (take (unat n) ds) s)"
proof (cases "n = 0")
  case False
  then have "0 < uint n" by (simp add: word_neq_0_conv word_less_def)
  moreover have "slice 0 (unat n) ds = Some (take (unat n) ds)" using assms(1) by (simp add: slice_def)
  moreover have "blit (uip_sappdata s) (take (unat n) ds) (uip_buf s) =
      Some (patch (uip_buf s) (uip_sappdata s) (take (unat n) ds))"
    using assms by (intro blit_patch) (simp add: room_def)
  ultimately show ?thesis using False assms(1) by (simp add: uip_send_ptr_def uip_send_def put_chunk_def)
qed (simp add: uip_send_ptr_def uip_send_def)

lemma uip_send_ptr_Packet:
  "uip_send_ptr (Packet (uip_sappdata s)) n s = Some (if n = 0 then s else s\<lparr>uip_slen := n\<rparr>)"
proof (cases "n = 0")
  case False
  then have "0 < uint n" by (simp add: word_neq_0_conv word_less_def)
  then show ?thesis using False by (simp add: uip_send_ptr_def uip_send_def)
qed (simp add: uip_send_ptr_def uip_send_def)

lemma acked_and_sent_first:
  assumes "psstate p = STATE_NONE" "uip_mss s = Some m" "sendlen p \<le> m" "sendptr p = Data buf"
    and "unat (sendlen p) \<le> length buf" "sendlen p \<noteq> 0" "room (unat (sendlen p)) s"
  shows "acked_and_sent p s = Some (False, p\<lparr>psstate := STATE_DATA_SENT\<rparr>, put_chunk (take (unat (sendlen p)) buf) s)"
  using assms uip_send_ptr_Data [of "sendlen p" buf s]
  by (auto simp: acked_and_sent_def data_acked_def send_data_def)

lemma acked_and_sent_again:
  assumes "psstate p = STATE_DATA_SENT" "\<not> uip_acked s" "uip_mss s = Some m" "sendlen p \<le> m" "sendptr p = Data buf"
    and "unat (sendlen p) \<le> length buf" "sendlen p \<noteq> 0" "room (unat (sendlen p)) s"
  shows "acked_and_sent p s = Some (False, p, if uip_rexmit s then put_chunk (take (unat (sendlen p)) buf) s else s)"
  using assms uip_send_ptr_Data [of "sendlen p" buf s]
  by (auto simp: acked_and_sent_def data_acked_def send_data_def)

lemma acked_and_sent_last:
  assumes "psstate p = STATE_DATA_SENT" "uip_acked s" "uip_mss s = Some m" "sendlen p \<le> m"
  shows "\<exists>d. acked_and_sent p s =
    Some (True, p\<lparr>sendptr := advance (sendptr p) (sendlen p), sendlen := 0, psstate := STATE_DATA_SENT\<rparr>, s)"
  using assms
  by (cases "sendptr p")
    (auto simp: acked_and_sent_def data_acked_def send_data_def Let_def uip_send_ptr_def uip_send_def advance_def)

text \<open>The events after one another; the states of the stack after the calls are collected.\<close>

fun psock_send_events ::
    "u8 list \<Rightarrow> u32 \<Rightarrow> psock \<Rightarrow> 'a uip list \<Rightarrow> (pt_result \<times> psock \<times> 'a uip list) option" where
  "psock_send_events buf len p [] = Some (PT_WAITING, p, [])"
| "psock_send_events buf len p (s # ss) = do {
     (res, p, s') \<leftarrow> psock_send buf len p s;
     if res = PT_WAITING then do {
       (res, p, os) \<leftarrow> psock_send_events buf len p ss;
       Some (res, p, s' # os) }
     else Some (res, p, [s']) }"

text \<open>The first \<open>n\<close> bytes of \<open>buf\<close> fit a segment of the event's connection.\<close>

definition fits :: "nat \<Rightarrow> 'a uip \<Rightarrow> bool" where
  "fits n s \<longleftrightarrow> room n s \<and> (\<exists>m. uip_mss s = Some m \<and> n \<le> unat m)"

lemma fits_small: "fits n s \<Longrightarrow> n < 65536"
  using order_le_less_trans [OF _ unat_u16_bound] by (auto simp: fits_def)

lemma unat_fits: "fits n s \<Longrightarrow> unat (of_nat n :: u16) = n"
  by (intro unat_small fits_small)

lemma of_nat_nonzero:
  assumes "0 < n" "n < 65536"
  shows "(of_nat n :: u16) \<noteq> 0" "(of_nat n :: u32) \<noteq> 0"
proof -
  have "unat (of_nat n :: u16) \<noteq> 0" "unat (of_nat n :: u32) \<noteq> 0" using assms by (simp_all add: unat_of_nat)
  then show "(of_nat n :: u16) \<noteq> 0" "(of_nat n :: u32) \<noteq> 0" by auto
qed

text \<open>The protosocket while \<open>n\<close> bytes of \<open>buf\<close> are on their way.\<close>

definition sending :: "u8 list \<Rightarrow> nat \<Rightarrow> psock \<Rightarrow> psock" where
  "sending buf n p = p\<lparr>sendptr := Data buf, sendlen := of_nat n, psstate := STATE_DATA_SENT, psockpt := 207\<rparr>"

lemma psock_send_starts:
  assumes "psockpt p = 0" "0 < n" "n \<le> length buf" "fits n s"
  shows "psock_send buf (of_nat n) p s = Some (PT_WAITING, sending buf n p, put_chunk (take n buf) s)"
proof -
  obtain m where m: "uip_mss s = Some m" "n \<le> unat m" "room n s" using assms(4) by (auto simp: fits_def)
  note u = unat_fits [OF assms(4)] and l = fits_small [OF assms(4)]
  note z = of_nat_nonzero [OF assms(2) l]
  have le: "(of_nat n :: u16) \<le> m" using u m(2) by (simp add: word_le_nat_alt)
  let ?p = "p\<lparr>sendptr := Data buf, sendlen := of_nat n, psstate := STATE_NONE, psockpt := 207\<rparr>"
  have "acked_and_sent ?p s = Some (False, ?p\<lparr>psstate := STATE_DATA_SENT\<rparr>, put_chunk (take n buf) s)"
    using acked_and_sent_first [of ?p s m buf] m le u z assms(3) by simp
  then show ?thesis
    using assms(1) z l by (simp add: psock_send_def ucast_small psock_send_wait.simps word_neq_0_conv sending_def)
qed

lemma sending_same: "sending buf n p\<lparr>psockpt := 207\<rparr> = sending buf n p"
  by (simp add: sending_def)

lemma psock_send_waits:
  assumes "0 < n" "n \<le> length buf" "fits n s" "\<not> uip_acked s"
  shows "psock_send buf' len (sending buf n p) s =
    Some (PT_WAITING, sending buf n p, if uip_rexmit s then put_chunk (take n buf) s else s)"
proof -
  obtain m where m: "uip_mss s = Some m" "n \<le> unat m" "room n s" using assms(3) by (auto simp: fits_def)
  note u = unat_fits [OF assms(3)] and z = of_nat_nonzero [OF assms(1) fits_small [OF assms(3)]]
  have le: "of_nat n \<le> m" using u m(2) by (simp add: word_le_nat_alt)
  have "acked_and_sent (sending buf n p) s = Some (False, sending buf n p, if uip_rexmit s then put_chunk (take n buf) s else s)"
    using acked_and_sent_again [of "sending buf n p" s m buf] m le u z assms(2,4) by (simp add: sending_def)
  then show ?thesis
    by (simp add: psock_send_def psock_send_wait.simps sending_same) (simp add: sending_def)
qed

lemma psock_send_ends:
  assumes "fits n s" "uip_acked s"
  shows "psock_send buf' len (sending buf n p) s = Some (PT_ENDED,
    p\<lparr>sendptr := Data (drop n buf), sendlen := 0, psstate := STATE_NONE, psockpt := 0\<rparr>, s)"
proof -
  obtain m where m: "uip_mss s = Some m" "n \<le> unat m" using assms(1) by (auto simp: fits_def)
  note u = unat_fits [OF assms(1)]
  have "of_nat n \<le> m" using u m(2) by (simp add: word_le_nat_alt)
  then have "acked_and_sent (sending buf n p) s =
      Some (True, (sending buf n p)\<lparr>sendptr := Data (drop n buf), sendlen := 0, psstate := STATE_DATA_SENT\<rparr>, s)"
    using acked_and_sent_last [of "sending buf n p" s m] m(1) assms(2) u by (simp add: sending_def advance_def)
  then show ?thesis
    by (simp add: psock_send_def psock_send_wait.simps sending_same) (simp add: sending_def)
qed

text \<open>C21: \<^verbatim>\<open>PSOCK_SEND\<close> of data that fit a segment delivers them: the first event puts exactly the
  data in the packet buffer, every event without an acknowledgement leaves the protosocket
  waiting and puts the same data there again when the stack asks for a retransmission, and the
  acknowledgement ends it, with the protosocket free for the next operation.\<close>

theorem psock_send_delivers:
  assumes "psockpt p = 0" "0 < n" "n \<le> length buf" "fits n s0" "\<forall>s \<in> set ss. fits n s \<and> \<not> uip_acked s"
    and "fits n s1" "uip_acked s1"
  shows "psock_send_events buf (of_nat n) p (s0 # ss @ [s1]) = Some (PT_ENDED,
    p\<lparr>sendptr := Data (drop n buf), sendlen := 0, psstate := STATE_NONE, psockpt := 0\<rparr>,
    put_chunk (take n buf) s0 # map (\<lambda>s. if uip_rexmit s then put_chunk (take n buf) s else s) ss @ [s1]) \<and>
    slice (uip_sappdata s0) n (uip_buf (put_chunk (take n buf) s0)) = Some (take n buf)"
proof -
  have "psock_send_events buf (of_nat n) (sending buf n p) (ss @ [s1]) = Some (PT_ENDED,
      p\<lparr>sendptr := Data (drop n buf), sendlen := 0, psstate := STATE_NONE, psockpt := 0\<rparr>,
      map (\<lambda>s. if uip_rexmit s then put_chunk (take n buf) s else s) ss @ [s1])"
    using assms(5)
  proof (induction ss)
    case Nil
    then show ?case using psock_send_ends [OF assms(6,7)] by simp
  next
    case (Cons s ss)
    then show ?case using psock_send_waits [OF assms(2,3), of s] by simp
  qed
  moreover have l: "length (take n buf) = n" using assms(3) by simp
  have "room (length (take n buf)) s0" using assms(4) unfolding l by (simp add: fits_def)
  from put_chunk_read [OF this] have "slice (uip_sappdata s0) n (uip_buf (put_chunk (take n buf) s0)) = Some (take n buf)"
    unfolding l .
  ultimately show ?thesis using psock_send_starts [OF assms(1-4)] by simp
qed

text \<open>Data longer than a segment: as long as the event is an acknowledgement, the loop takes what it
  has just sent for acknowledged and goes on to the next segment, whose bytes replace it.\<close>

lemma advance_Data [simp]: "advance (Data ds) n = Data (drop (unat n) ds)"
  by (simp add: advance_def)

lemma acked_and_sent_next:
  assumes "psstate p = STATE_DATA_SENT" "uip_acked s" "uip_mss s = Some m" "sendptr p = Data ds"
    and "unat (sendlen p) = length ds" "unat m < length ds" "0 < m" "room (unat m) s"
  shows "acked_and_sent p s = (let ds' = drop (unat m) ds; n = sendlen p - m in
     Some (True, p\<lparr>sendlen := n, sendptr := Data ds', psstate := STATE_DATA_SENT\<rparr>,
       put_chunk (take (unat m) ds') s)) \<and> unat (sendlen p - m) = length (drop (unat m) ds)"
proof -
  have g: "m < sendlen p" using assms(5,6) by (simp add: word_less_nat_alt)
  then have n: "unat (sendlen p - m) = length ds - unat m" using assms(5) unat_sub [of m "sendlen p"] by simp
  then have nz: "sendlen p - m \<noteq> 0" using assms(6) by auto
  let ?ds = "drop (unat m) ds"
  have "uip_send_ptr (Data ?ds) (if sendlen p - m > m then m else sendlen p - m) s = Some (put_chunk (take (unat m) ?ds) s)"
  proof (cases "sendlen p - m > m")
    case True
    then have "unat m \<le> length ?ds" using n by (simp add: word_less_nat_alt)
    then show ?thesis using uip_send_ptr_Data [of m ?ds s] True assms(7,8) by auto
  next
    case False
    then have l: "length ?ds \<le> unat m" using n by (simp add: word_less_nat_alt)
    have "room (unat (sendlen p - m)) s" using assms(8) l n by (auto intro: room_mono)
    then show ?thesis using uip_send_ptr_Data [of "sendlen p - m" ?ds s] False nz n l by simp
  qed
  then show ?thesis
    using assms(1-4) g n
    by (simp add: acked_and_sent_def data_acked_def send_data_def Let_def split: if_splits)
qed

lemma psock_send_wait_acked:
  assumes "psstate p = STATE_DATA_SENT" "uip_acked s" "uip_mss s = Some m" "0 < m" "room (unat m) s"
    and "sendptr p = Data ds" "unat (sendlen p) = length ds" "ds \<noteq> []"
  shows "\<exists>s'. psock_send_wait p s = Some (PT_ENDED,
      p\<lparr>sendptr := Data [], sendlen := 0, psstate := STATE_NONE, psockpt := 0\<rparr>, s') \<and>
    (unat m < length ds \<longrightarrow> (let final = drop (unat m * ((length ds - 1) div unat m)) ds in
      uip_slen s' = of_nat (length final) \<and> slice (uip_sappdata s) (length final) (uip_buf s') = Some final)) \<and>
    (length ds \<le> unat m \<longrightarrow> s' = s)"
  using assms
proof (induction "length ds" arbitrary: p s ds rule: less_induct)
  case less
  let ?p = "p\<lparr>psockpt := 207\<rparr>"
  show ?case
  proof (cases "length ds \<le> unat m")
    case True
    then have "sendlen ?p \<le> m" using less.prems(7) by (simp add: word_le_nat_alt)
    from acked_and_sent_last [of ?p s m, OF _ less.prems(2,3) this]
    have "acked_and_sent ?p s = Some (True, ?p\<lparr>sendptr := Data [], sendlen := 0, psstate := STATE_DATA_SENT\<rparr>, s)"
      using less.prems(1,6,7) by simp
    then show ?thesis using True by (simp add: psock_send_wait.simps)
  next
    case False
    then have m: "unat m < length ds" by simp
    define ds' where "ds' = drop (unat m) ds"
    define p1 where "p1 = ?p\<lparr>sendlen := sendlen p - m, sendptr := Data ds', psstate := STATE_DATA_SENT\<rparr>"
    define s1 where "s1 = put_chunk (take (unat m) ds') s"
    have a: "acked_and_sent ?p s = Some (True, p1, s1)" and n: "unat (sendlen p1) = length ds'"
      using acked_and_sent_next [of ?p s m ds] less.prems m by (simp_all add: p1_def s1_def ds'_def Let_def)
    have l: "length ds' < length ds" using m less.prems(4) by (simp add: ds'_def word_less_nat_alt)
    have ne: "ds' \<noteq> []" using m by (simp add: ds'_def)
    have rc: "room (length (take (unat m) ds')) s" using less.prems(5) by (auto intro: room_mono)
    have r: "room (unat m) s1" using room_put_chunk [OF rc] less.prems(5) by (simp add: s1_def)
    have "psstate p1 = STATE_DATA_SENT" "sendptr p1 = Data ds'" "uip_acked s1" "uip_mss s1 = Some m"
      using less.prems(2,3) by (simp_all add: p1_def s1_def)
    from less.hyps [OF l this(1) this(3,4) less.prems(4) r this(2) n ne]
    obtain s' where s': "psock_send_wait p1 s1 = Some (PT_ENDED,
        p1\<lparr>sendptr := Data [], sendlen := 0, psstate := STATE_NONE, psockpt := 0\<rparr>, s')"
      "unat m < length ds' \<longrightarrow> (let final = drop (unat m * ((length ds' - 1) div unat m)) ds' in
        uip_slen s' = of_nat (length final) \<and> slice (uip_sappdata s1) (length final) (uip_buf s') = Some final)"
      "length ds' \<le> unat m \<longrightarrow> s' = s1" by blast
    have "0 < unat (sendlen p1)" using n ne by simp
    then have w: "psock_send_wait p s = psock_send_wait p1 s1"
      by (subst psock_send_wait.simps) (simp add: a word_less_nat_alt)
    have m0: "0 < unat m" using less.prems(4) by (simp add: word_less_nat_alt)
    have "(length ds - 1) div unat m = Suc ((length ds' - 1) div unat m)"
    proof -
      have "length ds - 1 = unat m + (length ds' - 1)" using m ne by (simp add: ds'_def)
      then show ?thesis using m0 using div_add_self1 [of "unat m" "length ds' - 1"] by simp
    qed
    then have f: "drop (unat m * ((length ds - 1) div unat m)) ds = drop (unat m * ((length ds' - 1) div unat m)) ds'"
      by (simp add: ds'_def add.commute)
    have "let final = drop (unat m * ((length ds - 1) div unat m)) ds in
        uip_slen s' = of_nat (length final) \<and> slice (uip_sappdata s) (length final) (uip_buf s') = Some final"
    proof (cases "unat m < length ds'")
      case True
      then show ?thesis using s'(2) f by (simp add: s1_def)
    next
      case False
      then have l: "length ds' \<le> unat m" by simp
      then have "(length ds' - 1) div unat m = 0" using m0 ne by (cases ds') simp_all
      moreover have "s' = put_chunk ds' s" using s'(3) l by (simp add: s1_def)
      moreover have "room (length ds') s" using l less.prems(5) by (rule room_mono [rotated])
      ultimately show ?thesis using f put_chunk_read [of ds' s] by (simp add: Let_def)
    qed
    then show ?thesis using s'(1) w m by (simp add: p1_def)
  qed
qed

text \<open>\<^verbatim>\<open>PSOCK_SEND\<close> of data longer than two segments loses bytes. The first event sends the
  first segment; the event that brings its acknowledgement ends the protosocket, with all data
  counted as sent and acknowledged, and leaves only the last segment, the bytes from
  \<open>mss * ((len - 1) div mss)\<close> on, to be sent.\<close>

theorem psock_send_skips:
  assumes "psockpt p = 0" "2 * unat m < length ds" "length ds < 65536" "0 < m"
    and "uip_mss s0 = Some m" "room (unat m) s0" "uip_mss s1 = Some m" "room (unat m) s1" "uip_acked s1"
  shows "\<exists>p' s'. psock_send_events ds (of_nat (length ds)) p [s0, s1] =
      Some (PT_ENDED, p', [put_chunk (take (unat m) ds) s0, s']) \<and> sendlen p' = 0 \<and>
    (let first = unat m * ((length ds - 1) div unat m) in 2 * unat m \<le> first \<and>
      uip_slen s' = of_nat (length ds - first) \<and>
      slice (uip_sappdata s1) (length ds - first) (uip_buf s') = Some (drop first ds))"
proof -
  have m0: "0 < unat m" using assms(4) by (simp add: word_less_nat_alt)
  have u: "unat (of_nat (length ds) :: u16) = length ds" using assms(3) by (rule unat_small)
  then have z: "(of_nat (length ds) :: u16) \<noteq> 0" "(of_nat (length ds) :: u32) \<noteq> 0"
  proof -
    show "(of_nat (length ds) :: u16) \<noteq> 0" using u assms(2) by auto
    have "unat (of_nat (length ds) :: u32) = length ds" using assms(3) by (simp add: unat_of_nat)
    then show "(of_nat (length ds) :: u32) \<noteq> 0" using assms(2) by auto
  qed
  define p1 where "p1 = p\<lparr>sendptr := Data ds, sendlen := of_nat (length ds), psstate := STATE_DATA_SENT, psockpt := 207\<rparr>"
  have "m < of_nat (length ds)" using u assms(2) by (simp add: word_less_nat_alt)
  then have "psock_send ds (of_nat (length ds)) p s0 = Some (PT_WAITING, p1, put_chunk (take (unat m) ds) s0)"
    using assms(1,2,4,5) z uip_send_ptr_Data [of m ds s0] assms(6)
    by (auto simp: psock_send_def psock_send_wait.simps ucast_small [OF assms(3)] acked_and_sent_def
        data_acked_def send_data_def p1_def word_neq_0_conv)
  moreover have "psstate p1 = STATE_DATA_SENT" "sendptr p1 = Data ds" "unat (sendlen p1) = length ds" "ds \<noteq> []"
    "psockpt p1 = 207" using u assms(2) by (auto simp: p1_def)
  moreover from psock_send_wait_acked [OF this(1) assms(9,7,4,8) this(2-4)] obtain s' where
    "psock_send_wait p1 s1 = Some (PT_ENDED, p1\<lparr>sendptr := Data [], sendlen := 0, psstate := STATE_NONE, psockpt := 0\<rparr>, s')"
    "let final = drop (unat m * ((length ds - 1) div unat m)) ds in
      uip_slen s' = of_nat (length final) \<and> slice (uip_sappdata s1) (length final) (uip_buf s') = Some final"
    using assms(2) by auto
  moreover have "2 * unat m \<le> unat m * ((length ds - 1) div unat m)"
  proof -
    have "2 \<le> (length ds - 1) div unat m" using assms(2) m0 by (simp add: less_eq_div_iff_mult_less_eq)
    then show ?thesis by (metis mult.commute mult_le_mono2)
  qed
  ultimately show ?thesis by (simp add: psock_send_def Let_def)
qed

subsection \<open>Sending generated data\<close>

lemma acked_and_sent_packet:
  assumes "psstate p = STATE_NONE" "uip_mss s = Some m" "sendlen p \<le> m" "sendptr p = Packet (uip_sappdata s)"
  shows "acked_and_sent p s = Some (False, p\<lparr>psstate := STATE_DATA_SENT\<rparr>,
    if sendlen p = 0 then s else s\<lparr>uip_slen := sendlen p\<rparr>)"
  using assms uip_send_ptr_Packet [of s "sendlen p"]
  by (auto simp: acked_and_sent_def data_acked_def send_data_def)

lemma acked_and_sent_packet_again:
  assumes "psstate p = STATE_DATA_SENT" "\<not> uip_acked s" "uip_mss s = Some m" "sendlen p \<le> m"
    and "sendptr p = Packet (uip_sappdata s)"
  shows "acked_and_sent p s = Some (False, p,
    if uip_rexmit s \<and> sendlen p \<noteq> 0 then s\<lparr>uip_slen := sendlen p\<rparr> else s)"
  using assms uip_send_ptr_Packet [of s "sendlen p"]
  by (auto simp: acked_and_sent_def data_acked_def send_data_def)

text \<open>The protosocket while generated data of \<open>n\<close> bytes are on their way.\<close>

definition generated :: "u16 \<Rightarrow> nat \<Rightarrow> psock \<Rightarrow> psock" where
  "generated n o' p = p\<lparr>sendlen := n, sendptr := Packet o', psstate := STATE_DATA_SENT, psockpt := 238\<rparr>"

lemma generator_send_starts:
  assumes "psockpt p = 0" "generate c s = Some (n, c', s')" "\<not> uip_rexmit s'"
    and "uip_mss s' = Some m" "n \<le> m" "0 < n" "uip_appdata s' = uip_sappdata s'"
  shows "psock_generator_send (Some generate) p c s =
    Some (PT_WAITING, generated n (uip_sappdata s') p, c', s'\<lparr>uip_slen := n\<rparr>)"
proof -
  let ?p = "p\<lparr>sendlen := n, sendptr := Packet (uip_sappdata s'), psstate := STATE_NONE, psockpt := 238\<rparr>"
  have "acked_and_sent ?p s' = Some (False, ?p\<lparr>psstate := STATE_DATA_SENT\<rparr>, s'\<lparr>uip_slen := n\<rparr>)"
    using acked_and_sent_packet [of ?p s' m] assms(4-6) by simp
  then show ?thesis
    using assms(1-3,7) by (simp add: psock_generator_send_def generator_send_loop.simps generated_def)
qed

lemma generated_same: "generated n o' p\<lparr>psockpt := 238\<rparr> = generated n o' p"
  by (simp add: generated_def)

lemma generator_send_waits:
  assumes "uip_mss s = Some m" "n \<le> m" "0 < n" "\<not> uip_acked s" "o' = uip_sappdata s"
  shows "psock_generator_send (Some generate) (generated n o' p) c s =
    Some (PT_WAITING, generated n o' p, c, if uip_rexmit s then s\<lparr>uip_slen := n\<rparr> else s)"
proof -
  have "acked_and_sent (generated n o' p) s = Some (False, generated n o' p, if uip_rexmit s then s\<lparr>uip_slen := n\<rparr> else s)"
    using acked_and_sent_packet_again [of "generated n o' p" s m] assms by (simp add: generated_def)
  then show ?thesis
    by (simp add: psock_generator_send_def generator_send_loop.simps generated_same)
      (simp add: generated_def)
qed

lemma generator_send_ends:
  assumes "uip_mss s = Some m" "n \<le> m" "uip_acked s"
  shows "psock_generator_send (Some generate) (generated n o' p) c s = Some (PT_ENDED,
    p\<lparr>sendlen := 0, sendptr := Packet (o' + unat n), psstate := STATE_NONE, psockpt := 0\<rparr>, c, s)"
proof -
  have "acked_and_sent (generated n o' p) s =
      Some (True, (generated n o' p)\<lparr>sendptr := Packet (o' + unat n), sendlen := 0, psstate := STATE_DATA_SENT\<rparr>, s)"
    using acked_and_sent_last [of "generated n o' p" s m] assms by (simp add: generated_def advance_def)
  then show ?thesis
    by (simp add: psock_generator_send_def generator_send_loop.simps generated_same)
      (simp add: generated_def)
qed

text \<open>A retransmission of generated data sends whatever the packet buffer holds. After the first
  event has generated and sent \<open>n\<close> bytes, an event that asks for a retransmission sends
  \<open>n\<close> bytes again without a call of the generator: the stack's packet buffer, in which
  packets have been received and sent in between, is left as it is.\<close>

theorem generator_retransmits_stale:
  assumes "psockpt p = 0" "generate c s0 = Some (n, c', s0')" "\<not> uip_rexmit s0'"
    and "uip_mss s0' = Some m" "n \<le> m" "0 < n" "uip_appdata s0' = uip_sappdata s0'"
    and "uip_rexmit s1" "\<not> uip_acked s1" "uip_mss s1 = Some m" "uip_sappdata s1 = uip_sappdata s0'"
  shows "\<exists>p'. psock_generator_send (Some generate) p c s0 = Some (PT_WAITING, p', c', s0'\<lparr>uip_slen := n\<rparr>) \<and>
    (\<forall>g. psock_generator_send (Some g) p' c' s1 = Some (PT_WAITING, p', c', s1\<lparr>uip_slen := n\<rparr>))"
  using generator_send_starts [of p generate c s0 n c' s0' m, OF assms(1-7)] generator_send_waits [OF assms(10,5,6,9), of "uip_sappdata s0'" _ p c'] assms(8,11)
  by simp

end
