(* ===== verification/UipSend.thy ===== *)
theory UipSend
  imports UipProcess
begin

text \<open>
  What \<^verbatim>\<open>uip_process\<close> sends: the headers and checksums of the segments built by
  \<open>tcp_send\<close> are those a receiver accepts, and building one cannot fail.
\<close>

lemma send_label_sel [simp]:
  "uip_buf (send_label s) = uip_buf s"
  "uip_len (send_label s) = uip_len s"
  "uip_slen (send_label s) = uip_slen s"
  "uip_appdata (send_label s) = uip_appdata s"
  "uip_sappdata (send_label s) = uip_sappdata s"
  "uip_conn (send_label s) = uip_conn s"
  "uip_conns (send_label s) = uip_conns s"
  "uip_listenports (send_label s) = uip_listenports s"
  "uip_udp_conn (send_label s) = uip_udp_conn s"
  "uip_udp_conns (send_label s) = uip_udp_conns s"
  "uip_hostaddr (send_label s) = uip_hostaddr s"
  "uip_draddr (send_label s) = uip_draddr s"
  "uip_netmask (send_label s) = uip_netmask s"
  "uip_ethaddr (send_label s) = uip_ethaddr s"
  "ipid (send_label s) = ipid s"
  "iss (send_label s) = iss s"
  "lastport (send_label s) = lastport s"
  "reassbuf (send_label s) = reassbuf s"
  "reassbitmap (send_label s) = reassbitmap s"
  "reasslen (send_label s) = reasslen s"
  "reassflags (send_label s) = reassflags s"
  "reasstmr (send_label s) = reasstmr s"
  "uip_flags (send_label s) = 0"
  by (simp_all add: send_label_def)

text \<open>What a function that only builds the packet leaves unchanged.\<close>

definition same_but_packet :: "'a uip \<Rightarrow> 'a uip \<Rightarrow> bool" where
  "same_but_packet s s' \<longleftrightarrow> length (uip_buf s') = length (uip_buf s) \<and>
     s' = s\<lparr>uip_buf := uip_buf s', ipid := ipid s', uip_stat := uip_stat s', uip_flags := uip_flags s'\<rparr>"

lemma same_but_packet_sel:
  assumes "same_but_packet s s'"
  shows "uip_len s' = uip_len s"
    "uip_slen s' = uip_slen s"
    "uip_appdata s' = uip_appdata s"
    "uip_sappdata s' = uip_sappdata s"
    "uip_conn s' = uip_conn s"
    "uip_conns s' = uip_conns s"
    "uip_listenports s' = uip_listenports s"
    "uip_udp_conn s' = uip_udp_conn s"
    "uip_udp_conns s' = uip_udp_conns s"
    "uip_hostaddr s' = uip_hostaddr s"
    "uip_draddr s' = uip_draddr s"
    "uip_netmask s' = uip_netmask s"
    "uip_ethaddr s' = uip_ethaddr s"
    "iss s' = iss s"
    "lastport s' = lastport s"
    "reassbuf s' = reassbuf s"
    "reassbitmap s' = reassbitmap s"
    "reasslen s' = reasslen s"
    "reassflags s' = reassflags s"
    "reasstmr s' = reasstmr s"
    "length (uip_buf s') = length (uip_buf s)"
proof -
  have e: "s' = s\<lparr>uip_buf := uip_buf s', ipid := ipid s', uip_stat := uip_stat s',
      uip_flags := uip_flags s'\<rparr>"
    using assms unfolding same_but_packet_def by (rule conjunct2)
  show "uip_len s' = uip_len s"
    "uip_slen s' = uip_slen s"
    "uip_appdata s' = uip_appdata s"
    "uip_sappdata s' = uip_sappdata s"
    "uip_conn s' = uip_conn s"
    "uip_conns s' = uip_conns s"
    "uip_listenports s' = uip_listenports s"
    "uip_udp_conn s' = uip_udp_conn s"
    "uip_udp_conns s' = uip_udp_conns s"
    "uip_hostaddr s' = uip_hostaddr s"
    "uip_draddr s' = uip_draddr s"
    "uip_netmask s' = uip_netmask s"
    "uip_ethaddr s' = uip_ethaddr s"
    "iss s' = iss s"
    "lastport s' = lastport s"
    "reassbuf s' = reassbuf s"
    "reassbitmap s' = reassbitmap s"
    "reasslen s' = reasslen s"
    "reassflags s' = reassflags s"
    "reasstmr s' = reasstmr s"
    by (subst e, simp)+
  show "length (uip_buf s') = length (uip_buf s)" using assms by (simp add: same_but_packet_def)
qed

lemma ip_send_nolen_ok:
  assumes n: "34 \<le> length (uip_buf s)"
  obtains s' where "ip_send_nolen s = Some s'" "same_but_packet s s'" "uip_flags s' = 0"
    "uip_ipchksum s' = Some 0xffff" "\<And>p. upper_layer_chksum p s' = upper_layer_chksum p s"
    "get8 H_vhl 0 s' = 0x45" "get_be H_len s' = get_be H_len s"
    "get8 H_proto 0 s' = get8 H_proto 0 s" "get_be H_ipoffset s' = 0"
    "drop 26 (uip_buf s') = drop 26 (uip_buf s)"
proof -
  let ?s1 = "put8 H_vhl 0 0x45 s"
  let ?s2 = "put_be H_ipoffset 0 (put8 H_tos 0 0 ?s1)"
  let ?s3 = "?s2\<lparr>ipid := ipid ?s2 + 1\<rparr>"
  let ?s4 = "put16 H_ipchksum 0 (put_be H_ipid (ipid ?s3) ?s3)"
  have "34 \<le> length (uip_buf ?s4)" "get16 H_ipchksum ?s4 = 0" "get8 H_vhl 0 ?s4 \<noteq> 0"
    using n by (simp_all add: put_buf get16_def rd16_def rd8_def get8_def)
  then obtain c where c: "uip_ipchksum ?s4 = Some c"
    "uip_ipchksum (put16 H_ipchksum (NOT c) ?s4) = Some 0xffff"
    by (rule ipchksum_fill)
  let ?s5 = "put16 H_ipchksum (NOT c) ?s4"
  let ?s' = "send_label (bump Tcp_sent ?s5)"
  have buf: "uip_buf ?s' = uip_buf ?s5" by simp
  show ?thesis
  proof (rule that [of ?s'])
    show "ip_send_nolen s = Some ?s'" using c(1) by (simp add: ip_send_nolen_def Let_def)
    show "same_but_packet s ?s'"
      by (simp add: same_but_packet_def put_defs send_label_def bump_def)
    show "uip_flags ?s' = 0" by (simp add: send_label_def)
    show "uip_ipchksum ?s' = Some 0xffff"
      using c(2) unfolding uip_ipchksum_def buf .
    show "upper_layer_chksum p ?s' = upper_layer_chksum p s" for p
    proof -
      have "upper_layer_chksum p ?s' = upper_layer_chksum p (s\<lparr>uip_buf := uip_buf ?s'\<rparr>)"
        by (simp add: upper_layer_chksum_def get_be_def get8_def rd8_def)
      also have "\<dots> = upper_layer_chksum p s"
        unfolding buf by (rule upper_layer_cong) (simp_all add: put_defs drop_update_cancel)
      finally show ?thesis .
    qed
    show "get8 H_vhl 0 ?s' = 0x45" "get_be H_len ?s' = get_be H_len s"
      "get8 H_proto 0 ?s' = get8 H_proto 0 s"
      using n by (simp_all add: get_be_def get8_def rd8_def buf put_defs)
    show "get_be H_ipoffset ?s' = 0"
      using n by (simp add: get_be_def get8_def rd8_def buf put_defs)
    show "drop 26 (uip_buf ?s') = drop 26 (uip_buf s)"
      by (simp add: buf put_defs drop_update_cancel)
  qed
qed

text \<open>A segment that the input processing of a receiver accepts.\<close>

definition good_segment :: "'a uip \<Rightarrow> bool" where
  "good_segment s \<longleftrightarrow> get8 H_vhl 0 s = 0x45 \<and> get_be H_len s = uip_len s \<and>
     get_be H_ipoffset s = 0 \<and> uip_ipchksum s = Some 0xffff \<and> uip_tcpchksum s = Some 0xffff"

lemma tcp_send_noconn_ok:
  assumes b: "length (uip_buf s) = 422" and l: "40 \<le> unat (uip_len s)" "unat (uip_len s) \<le> 408"
  obtains s' where "tcp_send_noconn s = Some s'" "same_but_packet s s'" "uip_flags s' = 0"
    "good_segment s'" "get8 H_proto 0 s' = get8 H_proto 0 s"
    "\<And>i. 26 \<le> i \<Longrightarrow> i < 50 \<Longrightarrow> rd8 i s' = rd8 i s"
proof -
  let ?s1 = "put_be H_urgp 0 (put_be H_len (uip_len s) (put8 H_ttl 0 64 s))"
  let ?s2 = "put16 H_tcpchksum 0 ?s1"
  have n: "uip_buf ?s2 \<noteq> []" "get_be H_len ?s2 = uip_len s" "get16 H_tcpchksum ?s2 = 0"
    "14 + unat (uip_len s) \<le> length (uip_buf ?s2)"
    using b l by (auto simp: put_buf get_be_def get8_def get16_def rd16_def rd8_def)
  obtain c where c: "upper_layer_chksum 6 ?s2 = Some c"
    "upper_layer_chksum 6 (put16 H_tcpchksum (NOT c) ?s2) = Some 0xffff"
    by (rule upper_fill [OF n(1,2) _ n(4), of H_tcpchksum 8 6]) (use n(3) l in simp_all)
  let ?s3 = "put16 H_tcpchksum (NOT c) ?s2"
  have b3: "34 \<le> length (uip_buf ?s3)" using b by (simp add: put_buf)
  obtain s' where s': "ip_send_nolen ?s3 = Some s'" "same_but_packet ?s3 s'" "uip_flags s' = 0"
    "uip_ipchksum s' = Some 0xffff" "\<And>p. upper_layer_chksum p s' = upper_layer_chksum p ?s3"
    "get8 H_vhl 0 s' = 0x45" "get_be H_len s' = get_be H_len ?s3"
    "get8 H_proto 0 s' = get8 H_proto 0 ?s3" "get_be H_ipoffset s' = 0"
    "drop 26 (uip_buf s') = drop 26 (uip_buf ?s3)"
    using ip_send_nolen_ok [OF b3] by metis
  have len: "length (uip_buf s') = 422"
    using s'(2) b by (simp add: same_but_packet_def put_defs)
  show ?thesis
  proof (rule that [of s'])
    show "tcp_send_noconn s = Some s'"
      using c(1) s'(1) by (simp add: tcp_send_noconn_def Let_def uip_tcpchksum_def)
    show sp: "same_but_packet s s'"
      using s'(2) by (simp add: same_but_packet_def put_defs)
    show "uip_flags s' = 0" by (rule s'(3))
    have "uip_len s' = uip_len s" by (rule same_but_packet_sel [OF sp])
    moreover have "get_be H_len ?s3 = uip_len s"
      using b by (simp add: get_be_def get8_def rd8_def put_buf)
    ultimately show "good_segment s'"
      using s' c(2) by (simp add: good_segment_def uip_tcpchksum_def)
    show "get8 H_proto 0 s' = get8 H_proto 0 s"
      using s'(8) b by (simp add: get8_def rd8_def put_buf)
    show "rd8 i s' = rd8 i s" if "26 \<le> i" "i < 50" for i
    proof -
      have "rd8 i s' = drop 26 (uip_buf s') ! (i - 26)" using that len by (simp add: rd8_def)
      also have "\<dots> = rd8 i ?s3" using that b by (simp add: s'(10) rd8_def put_buf)
      also have "\<dots> = rd8 i s" using that by (simp add: rd8_def put_buf)
      finally show ?thesis .
    qed
  qed
qed

end
