(* ===== verification/UipSafe.thy ===== *)
theory UipSafe
  imports UipSend
begin

text \<open>
  Safety of \<^verbatim>\<open>uip_process\<close>: from a well-formed state it returns, stays inside the packet
  buffer and leaves a well-formed state, with every connection in a TCP state and no segment
  longer than the buffer, whatever the application does within its contract; timer events need
  no further assumption, received packets need a plausible IP length and an option list that
  ends. Without these two the code reads past the buffer or does not return, which is shown too.
\<close>

subsection \<open>The invariant\<close>

definition conn_ok :: "'a conn \<Rightarrow> bool" where
  "conn_ok c \<longleftrightarrow> tcpstateflags c AND UIP_TS_MASK \<le> UIP_LAST_ACK \<and> outlen c \<le> UIP_TCP_MSS \<and>
     mss c \<le> UIP_TCP_MSS \<and> initialmss c \<le> UIP_TCP_MSS"

definition uip_inv :: "'a uip \<Rightarrow> bool" where
  "uip_inv s \<longleftrightarrow> uip_wf s \<and> list_all conn_ok (uip_conns s)"

definition tcp_done :: "'a uip \<Rightarrow> bool" where
  "tcp_done s \<longleftrightarrow> uip_inv s \<and> uip_flags s = 0 \<and>
     (uip_len s = 0 \<or> good_segment s \<and> 40 \<le> unat (uip_len s) \<and> unat (uip_len s) \<le> 406)"

definition app_ok :: "'a appcall \<Rightarrow> bool" where
  "app_ok app \<longleftrightarrow> (\<forall>s. uip_inv s \<longrightarrow> returns (app s) (\<lambda>s'. uip_inv s' \<and> uip_conn s' = uip_conn s))"

lemma app_okD: "app_ok app \<Longrightarrow> uip_inv s \<Longrightarrow>
    (\<And>s'. uip_inv s' \<Longrightarrow> uip_conn s' = uip_conn s \<Longrightarrow> P s') \<Longrightarrow> returns (app s) P"
  unfolding app_ok_def by (blast intro: returns_mono)

lemma uip_inv_put [simp]:
  "uip_inv (put8 f k v s) = uip_inv s"
  "uip_inv (put16 f w s) = uip_inv s"
  "uip_inv (put_be f w s) = uip_inv s"
  "uip_inv (put_ip f a s) = uip_inv s"
  "uip_inv (put_seq f n s) = uip_inv s"
  "uip_inv (bump x s) = uip_inv s"
  by (simp_all add: uip_inv_def uip_wf_def)

lemma uip_inv_scalar [simp]:
  "uip_inv (s\<lparr>uip_len := n\<rparr>) = uip_inv s"
  "uip_inv (s\<lparr>uip_slen := n\<rparr>) = uip_inv s"
  "uip_inv (s\<lparr>uip_flags := f\<rparr>) = uip_inv s"
  "uip_inv (s\<lparr>uip_appdata := p\<rparr>) = uip_inv s"
  "uip_inv (s\<lparr>uip_sappdata := p\<rparr>) = uip_inv s"
  "uip_inv (s\<lparr>uip_conn := r\<rparr>) = uip_inv s"
  "uip_inv (s\<lparr>iss := i\<rparr>) = uip_inv s"
  "uip_inv (s\<lparr>reasstmr := m\<rparr>) = uip_inv s"
  by (simp_all add: uip_inv_def uip_wf_def)

lemma uip_inv_upd:
  assumes "uip_inv s" "\<And>c. conn_ok c \<Longrightarrow> conn_ok (g c)"
  shows "uip_inv (upd r g s)"
proof (cases "r < length (uip_conns s)")
  case True
  then show ?thesis using assms
    by (simp add: uip_inv_def uip_wf_def upd_def list_all_length nth_list_update)
next
  case False
  then show ?thesis using assms by (simp add: uip_inv_def uip_wf_def upd_def list_update_beyond)
qed

lemma conn_ok_upd [simp]:
  "conn_ok (c\<lparr>rcv_nxt := n\<rparr>) = conn_ok c" "conn_ok (c\<lparr>snd_nxt := n\<rparr>) = conn_ok c"
  "conn_ok (c\<lparr>nrtx := x\<rparr>) = conn_ok c" "conn_ok (c\<lparr>rtimer := x\<rparr>) = conn_ok c"
  "conn_ok (c\<lparr>sa := x\<rparr>) = conn_ok c" "conn_ok (c\<lparr>sv := x\<rparr>) = conn_ok c"
  "conn_ok (c\<lparr>rto := x\<rparr>) = conn_ok c" "conn_ok (c\<lparr>lport := w\<rparr>) = conn_ok c"
  "conn_ok (c\<lparr>rport := w\<rparr>) = conn_ok c" "conn_ok (c\<lparr>ripaddr := a\<rparr>) = conn_ok c"
  by (simp_all add: conn_ok_def)

lemma conn_ok_intro [simp]:
  "conn_ok c \<Longrightarrow> w \<le> 366 \<Longrightarrow> conn_ok (c\<lparr>outlen := w\<rparr>)"
  "conn_ok c \<Longrightarrow> w \<le> 366 \<Longrightarrow> conn_ok (c\<lparr>mss := w\<rparr>)"
  "conn_ok c \<Longrightarrow> w \<le> 366 \<Longrightarrow> conn_ok (c\<lparr>initialmss := w\<rparr>)"
  "conn_ok c \<Longrightarrow> f AND 15 \<le> 8 \<Longrightarrow> conn_ok (c\<lparr>tcpstateflags := f\<rparr>)"
  by (simp_all add: conn_ok_def)

lemma conn_ok_rtt [simp]: "conn_ok (rtt_update c) = conn_ok c"
  by (simp add: conn_ok_def rtt_update_def Let_def)

lemma cn_ok:
  assumes "uip_inv s" "r < 40"
  shows "conn_ok (cn r s)"
  using assms by (simp add: uip_inv_def uip_wf_def cn_def list_all_length)

lemma cn_upd [simp]: "uip_inv s \<Longrightarrow> r < 40 \<Longrightarrow> cn r (upd r g s) = g (cn r s)"
  by (simp add: cn_def upd_def uip_inv_def uip_wf_def)

lemma cn_put [simp]:
  "cn r (put8 f k v s) = cn r s" "cn r (put16 f w s) = cn r s" "cn r (put_be f w s) = cn r s"
  "cn r (put_ip f a s) = cn r s" "cn r (put_seq f n s) = cn r s" "cn r (bump x s) = cn r s"
  "cn r (s\<lparr>uip_len := w\<rparr>) = cn r s" "cn r (s\<lparr>uip_slen := w\<rparr>) = cn r s"
  "cn r (s\<lparr>uip_flags := v\<rparr>) = cn r s" "cn r (s\<lparr>uip_appdata := p\<rparr>) = cn r s"
  "cn r (s\<lparr>uip_conn := q\<rparr>) = cn r s"  "cn r (s\<lparr>iss := i\<rparr>) = cn r s"
  "cn r (s\<lparr>reasstmr := m\<rparr>) = cn r s"
  by (simp_all add: cn_def)

lemma uip_inv_drop: "uip_inv s \<Longrightarrow> tcp_done (uip_drop s)"
  by (simp add: tcp_done_def uip_drop_def)

lemma same_but_packet_inv: "same_but_packet s s' \<Longrightarrow> uip_inv s' = uip_inv s"
  by (simp add: uip_inv_def uip_wf_def same_but_packet_sel)

lemma noconn_done:
  assumes "uip_inv s" "40 \<le> unat (uip_len s)" "unat (uip_len s) \<le> 406"
  shows "returns (tcp_send_noconn s) tcp_done"
proof -
  have "length (uip_buf s) = 422" using assms(1) by (simp add: uip_inv_def uip_wf_def)
  then obtain s' where s': "tcp_send_noconn s = Some s'" "same_but_packet s s'" "uip_flags s' = 0"
    "good_segment s'"
    by (rule tcp_send_noconn_ok) (use assms in simp_all)
  then show ?thesis
    using assms same_but_packet_inv [OF s'(2)] same_but_packet_sel [OF s'(2)]
    by (simp add: tcp_done_def)
qed

lemma tcp_send_done:
  assumes "uip_inv s" "40 \<le> unat (uip_len s)" "unat (uip_len s) \<le> 406"
  shows "returns (tcp_send r s) tcp_done"
  unfolding tcp_send_def Let_def by (rule noconn_done) (use assms in simp_all)

lemma tcp_send_noopts_done:
  "uip_inv s \<Longrightarrow> 40 \<le> unat (uip_len s) \<Longrightarrow> unat (uip_len s) \<le> 406 \<Longrightarrow>
   returns (tcp_send_noopts r s) tcp_done"
  unfolding tcp_send_noopts_def by (rule tcp_send_done) simp_all

lemma send_short_done [simp]:
  assumes "uip_inv s"
  shows "returns (tcp_send_nodata r s) tcp_done" "returns (tcp_send_ack r s) tcp_done"
    "returns (tcp_send_finack r s) tcp_done" "returns (tcp_send_syn r s) tcp_done"
    "returns (tcp_send_synack r s) tcp_done"
  using assms
  by (simp_all add: tcp_send_nodata_def tcp_send_ack_def tcp_send_finack_def tcp_send_syn_def
      tcp_send_synack_def Let_def tcp_send_noopts_done tcp_send_done)

lemma reset_done: "uip_inv s \<Longrightarrow> returns (reset_label s) tcp_done"
  by (simp add: reset_label_def Let_def uip_inv_drop noconn_done)

lemma inv_length: "uip_inv s \<Longrightarrow> length (uip_conns s) = 40"
  by (simp add: uip_inv_def uip_wf_def)

lemma unat_366: "w \<le> 366 \<Longrightarrow> unat w \<le> 366" for w :: u16
  by (simp add: word_le_nat_alt)

lemma apprexmit_done:
  assumes "uip_inv s" "r < 40"
  shows "returns (apprexmit r s) tcp_done"
proof -
  have "unat (outlen (cn r s)) \<le> 366" using cn_ok [OF assms] by (simp add: conn_ok_def unat_366)
  then have "unat (outlen (cn r s) + 40) = unat (outlen (cn r s)) + 40" by (simp add: unat_u16_plus)
  then show ?thesis
    using assms \<open>unat (outlen (cn r s)) \<le> 366\<close>
    by (simp add: apprexmit_def Let_def uip_inv_drop tcp_send_noopts_done)
qed

lemmas uip_inv_upd_simps [simp] = uip_inv_upd

lemma appsend_done:
  assumes i: "uip_inv s" "r < 40"
  shows "returns (appsend r s) tcp_done"
proof -
  have m: "mss (cn r s) \<le> 366" using cn_ok [OF i] by (simp add: conn_ok_def)
  then have w: "\<not> mss (cn r s) < w \<Longrightarrow> w \<le> 366" for w by (meson not_less order_trans)
  show ?thesis
    using i m w by (auto simp: appsend_def Let_def intro!: apprexmit_done)
qed

lemma add_rcv_nxt_ok [simp]:
  assumes "uip_conn s = Some r" "uip_inv s" "r < 40"
  shows "uip_add_rcv_nxt n s = Some (upd r (\<lambda>c. c\<lparr>rcv_nxt := uip_add32 (rcv_nxt c) n\<rparr>) s)"
  using assms by (simp add: uip_add_rcv_nxt_def inv_length)

lemma poll_done:
  "uip_inv s \<Longrightarrow> r < 40 \<Longrightarrow> app_ok app \<Longrightarrow> returns (process_poll app r s) tcp_done"
  by (auto simp: process_poll_def uip_inv_drop intro!: app_okD [of app] appsend_done)

lemma rexmit_done:
  assumes "uip_inv s" "r < 40" "app_ok app"
  shows "returns (timer_rexmit app r s) tcp_done"
  using assms
  by (auto simp: timer_rexmit_def Let_def uip_inv_drop intro!: app_okD [OF assms(3)] apprexmit_done)

lemma timer_done:
  assumes "uip_inv s" "r < 40" "app_ok app"
  shows "returns (process_timer b app r s) tcp_done"
  using assms
  by (auto simp: process_timer_def Let_def intro!: uip_inv_drop app_okD [OF assms(3)] appsend_done rexmit_done)

text \<open>The segments of the TCP states.\<close>

lemma parse_mss_bound: "parse_mss n c buf = Some y \<Longrightarrow> \<forall>v. y = Some v \<longrightarrow> v \<le> 366"
proof (rule parse_mss.raw_induct [where P = "\<lambda>n c buf y. \<forall>v. y = Some v \<longrightarrow> v \<le> 366"])
  fix parse :: "nat \<Rightarrow> u8 \<Rightarrow> u8 list \<Rightarrow> u16 option option" and n :: nat and c :: u8 and buf :: "u8 list" and y
  assume "\<And>n c buf y. parse n c buf = Some y \<Longrightarrow> \<forall>v. y = Some v \<longrightarrow> v \<le> (366 :: u16)"
  then show "(if unat c < n
      then let p = 40 + 14 + unat c; opt = buf ! p in
        if opt = 0 then Some None
        else if opt = 1 then parse n (c + 1) buf
        else if opt = 2 \<and> buf ! (p + 1) = 4
        then let tmp16 = mk16 (buf ! (p + 2)) (buf ! (p + 3)) in
          Some (Some (if 366 < tmp16 then 366 else tmp16))
        else if buf ! (p + 1) = 0 then Some None
        else parse n (c + buf ! (p + 1)) buf
      else Some None) = Some y \<Longrightarrow> \<forall>v. y = Some v \<longrightarrow> v \<le> 366"
    by (auto simp: Let_def split: if_splits)
qed

text \<open>The option loop of the segment in the buffer ends.\<close>

definition options_end :: "'a uip \<Rightarrow> bool" where
  "options_end s \<longleftrightarrow>
     parse_mss ((unat (get8 H_tcpoffset 0 s) div 16 - 5) * 4) 0 (uip_buf s) \<noteq> None"

lemma options_done:
  assumes "uip_inv s" "options_end s"
    and P: "\<And>g. (\<And>c. conn_ok c \<Longrightarrow> conn_ok (g c)) \<Longrightarrow> P (upd r g s)"
  shows "returns (tcp_options r s) P"
proof -
  have id: "P s" using P [of id] by (simp add: upd_def)
  obtain y where "parse_mss ((unat (get8 H_tcpoffset 0 s) div 16 - 5) * 4) 0 (uip_buf s) = Some y"
    using assms(2) by (auto simp: options_end_def)
  with parse_mss_bound [OF this] id P show ?thesis
    by (cases y) (auto simp: tcp_options_def)
qed

lemma options_end_cong:
  "uip_buf t = uip_buf s \<Longrightarrow> options_end t = options_end s"
  by (simp add: options_end_def get8_def rd8_def)

lemma options_end_simps [simp]:
  "options_end (upd r g s) = options_end s"
  "options_end (s\<lparr>uip_conn := q\<rparr>) = options_end s"
  "options_end (s\<lparr>uip_flags := f\<rparr>) = options_end s"
  "options_end (s\<lparr>uip_len := n\<rparr>) = options_end s"
  "options_end (bump x s) = options_end s"
  by (rule options_end_cong; simp)+

lemma st_syn_rcvd_done:
  assumes app: "app_ok app" and "uip_inv s" "r < 40" "uip_conn s = Some r"
  shows "returns (st_syn_rcvd app r s) tcp_done"
  using assms by (auto simp: st_syn_rcvd_def Let_def uip_inv_drop intro!: app_okD [OF app] appsend_done)

lemma st_syn_sent_done:
  assumes app: "app_ok app" and "uip_inv s" "r < 40" "uip_conn s = Some r" "options_end s"
  shows "returns (st_syn_sent app r s) tcp_done"
  using assms
  by (auto simp: st_syn_sent_def inv_length intro!: app_okD [OF app] appsend_done options_done reset_done)

lemma est_fin_done:
  assumes app: "app_ok app" and "uip_inv s" "r < 40" "uip_conn s = Some r"
  shows "returns (est_fin app r s) tcp_done"
  using assms by (auto simp: est_fin_def Let_def uip_inv_drop intro!: app_okD [OF app])

lemma wnd_mss_inv [simp]: "uip_inv s \<Longrightarrow> uip_inv (wnd_mss r s)"
  by (auto simp: wnd_mss_def Let_def conn_ok_def intro!: uip_inv_upd)

lemma wnd_mss_sel [simp]: "uip_conn (wnd_mss r s) = uip_conn s" "uip_flags (wnd_mss r s) = uip_flags s"
  by (simp_all add: wnd_mss_def Let_def)

lemma st_established_done:
  assumes app: "app_ok app" and "uip_inv s" "r < 40" "uip_conn s = Some r"
  shows "returns (st_established app r s) tcp_done"
  using assms
  by (auto simp: st_established_def Let_def uip_inv_drop intro!: est_fin_done [OF app] app_okD [OF app] appsend_done)

lemma st_closing_states_done:
  assumes app: "app_ok app" and "uip_inv s" "r < 40" "uip_conn s = Some r"
  shows "returns (st_last_ack app r s) tcp_done" "returns (st_fin_wait_1 app r s) tcp_done"
    "returns (st_fin_wait_2 app r s) tcp_done" "returns (st_closing r s) tcp_done"
  using assms
  by (auto simp: st_last_ack_def st_fin_wait_1_def st_fin_wait_2_def st_closing_def
      intro!: uip_inv_drop app_okD [OF app])

lemma tcp_state_done:
  assumes app: "app_ok app" and "uip_inv s" "r < 40" "uip_conn s = Some r" "options_end s"
  shows "returns (tcp_state app r s) tcp_done"
  using assms
  by (simp add: tcp_state_def Let_def st_syn_rcvd_done st_syn_sent_done st_established_done
      st_closing_states_done uip_inv_drop)

lemma ack_update_ok:
  assumes "uip_inv s"
  shows "uip_inv (ack_update r s)" "uip_conn (ack_update r s) = uip_conn s"
    "uip_buf (ack_update r s) = uip_buf s"
  using assms by (simp_all add: ack_update_def Let_def)

lemma found_done:
  assumes app: "app_ok app" and i: "uip_inv s" "r < 40" "options_end s"
  shows "returns (found app r s) tcp_done"
proof (cases "get8 H_flags 0 (s\<lparr>uip_conn := Some r, uip_flags := 0\<rparr>) AND TCP_RST = 0")
  case True
  define t where "t n = s\<lparr>uip_conn := Some r, uip_flags := 0, uip_len := n\<rparr>" for n
  have t: "uip_inv (t n)" "uip_conn (t n) = Some r" "uip_buf (t n) = uip_buf s" for n
    using i by (simp_all add: t_def)
  have e: "options_end (ack_update r (t n))" for n
    by (rule options_end_cong [THEN iffD2, of _ s]) (use i t in \<open>simp_all add: ack_update_ok\<close>)
  have "returns (tcp_state app r (ack_update r (t n))) tcp_done" for n
    using i e t by (intro tcp_state_done [OF app]) (simp_all add: ack_update_ok)
  then show ?thesis using i True by (simp add: found_def Let_def t_def)
next
  case False
  then show ?thesis using i
    by (auto simp: found_def Let_def uip_inv_drop intro!: app_okD [OF app])
qed

lemma find_conn_bound:
  "find_conn cs i best = Some (j, t) \<Longrightarrow> \<forall>k t. best = Some (k, t) \<longrightarrow> k < i \<Longrightarrow> j < i + length cs"
  by (induction cs arbitrary: i best) (fastforce split: if_splits option.splits)+

lemma found_listen_done:
  assumes i: "uip_inv s" "options_end s"
  shows "returns (found_listen s) tcp_done"
proof (cases "find_conn (uip_conns s) 0 None")
  case None
  then show ?thesis using i by (simp add: found_listen_def uip_inv_drop)
next
  case (Some p)
  obtain r t where p: "p = (r, t)" by (cases p)
  have r: "r < 40" using find_conn_bound [OF Some [unfolded p]] i by (simp add: inv_length)
  have "returns (uip_add_rcv_nxt 1 t \<bind> (\<lambda>s. tcp_options r s \<bind> tcp_send_synack r)) tcp_done"
    if "uip_inv t" "uip_conn t = Some r" "options_end t" for t :: "'a uip"
    using that r by (auto intro!: options_done)
  then show ?thesis using i by (simp add: found_listen_def Let_def Some p)
qed

lemma demux_bound: "demux dport sport src cs i = Some j \<Longrightarrow> j < i + length cs"
  by (induction cs arbitrary: i) (fastforce split: if_splits)+

lemma demux_less: "uip_inv s \<Longrightarrow> demux dport sport src (uip_conns s) 0 = Some r \<Longrightarrow> r < 40"
  using demux_bound [of dport sport src "uip_conns s" 0 r] by (simp add: inv_length)

text \<open>The length of the segment under the checksum lies in the buffer.\<close>

lemma tcp_checksum_returns:
  assumes "length (uip_buf s) = 422" "20 \<le> unat (get_be H_len s)" "unat (get_be H_len s) \<le> 408"
  shows "uip_tcpchksum s \<noteq> None"
proof -
  have "unat (get_be H_len s - 20) = unat (get_be H_len s) - 20"
    using assms(2) by (simp add: unat_sub word_le_nat_alt)
  then show ?thesis using assms
    by (simp add: uip_tcpchksum_def upper_layer_chksum_def slice_def Let_def)
qed

lemma tcp_input_done:
  assumes app: "app_ok app" and i: "uip_inv s" "options_end s"
    and l: "20 \<le> unat (get_be H_len s)" "unat (get_be H_len s) \<le> 408"
  shows "returns (tcp_input app s) tcp_done"
proof -
  have b: "length (uip_buf s) = 422" using i by (simp add: uip_inv_def uip_wf_def)
  have "uip_tcpchksum (bump Tcp_recv s) \<noteq> None"
    by (rule tcp_checksum_returns) (use b l in \<open>simp_all add: get_be_def get8_def rd8_def\<close>)
  then obtain c where c: "uip_tcpchksum (bump Tcp_recv s) = Some c" by blast
  show ?thesis
    using i
    by (auto simp: tcp_input_def Let_def c uip_inv_drop reset_done found_listen_done
        intro!: found_done [OF app] dest: demux_less [OF i(1)] split: option.splits)
qed

lemma uip_process_timer_done:
  assumes "app_ok app" "uip_inv s" "r < 40" "uip_conn s = Some r"
  shows "returns (uip_process b app uapp UIP_TIMER s) tcp_done"
    "returns (uip_process b app uapp UIP_POLL_REQUEST s) tcp_done"
  using assms by (simp_all add: uip_process_def Let_def timer_done poll_done inv_length)

lemma uip_inv_send [simp]: "uip_inv (send_label s) = uip_inv s"
  by (simp add: uip_inv_def uip_wf_def)

lemma icmp_input_ok:
  "uip_inv s \<Longrightarrow> uip_inv (icmp_input s)" "uip_flags (icmp_input s) = 0"
  by (simp_all add: icmp_input_def Let_def uip_drop_def)

lemma get_bump [simp]:
  "get8 f k (bump x t) = get8 f k t" "get_be f (bump x t) = get_be f t"
  "get_ip f (bump x t) = get_ip f t" "uip_ipchksum (bump x t) = uip_ipchksum t"
  "get8 f k (t\<lparr>uip_len := n\<rparr>) = get8 f k t" "get_be f (t\<lparr>uip_len := n\<rparr>) = get_be f t"
  "get_ip f (t\<lparr>uip_len := n\<rparr>) = get_ip f t" "uip_ipchksum (t\<lparr>uip_len := n\<rparr>) = uip_ipchksum t"
  by (simp_all add: get8_def get_be_def get_ip_def rd8_def rd16_def uip_ipchksum_def)

lemma ip_input_returns:
  assumes app: "app_ok app" and i: "uip_inv s"
    and tcp: "get8 H_proto 0 s = 6 \<Longrightarrow>
      20 \<le> unat (get_be H_len s) \<and> unat (get_be H_len s) \<le> 408 \<and> options_end s"
  shows "returns (ip_input fos_build app uapp s) (\<lambda>s'. uip_inv s' \<and> uip_flags s' = 0)"
proof -
  have b: "length (uip_buf s) = 422" using i by (simp add: uip_inv_def uip_wf_def)
  have d: "returns (tcp_input app ((bump Ip_recv s)\<lparr>uip_len := n\<rparr>)) (\<lambda>s'. uip_inv s' \<and> uip_flags s' = 0)"
    if "get8 H_proto 0 s = 6" for n
  proof -
    have "returns (tcp_input app ((bump Ip_recv s)\<lparr>uip_len := n\<rparr>)) tcp_done"
      using tcp [OF that] i
      by (intro tcp_input_done [OF app]) (simp_all add: get_be_def get8_def rd8_def)
    then show ?thesis by (rule returns_mono) (simp add: tcp_done_def)
  qed
  have c: "uip_ipchksum s \<noteq> None" using b by (simp add: uip_ipchksum_def slice_def Let_def)
  then obtain c where c: "uip_ipchksum s = Some c" by blast
  show ?thesis
    using i d
    by (simp add: ip_input_def Let_def ip_fragment_def fos_build_def c icmp_input_ok uip_drop_def)
qed

subsection \<open>Properties\<close>


lemma get_pointers [simp]:
  "get8 f k (s\<lparr>uip_appdata := p\<rparr>) = get8 f k s" "get8 f k (s\<lparr>uip_sappdata := p\<rparr>) = get8 f k s"
  "get_be f (s\<lparr>uip_appdata := p\<rparr>) = get_be f s" "get_be f (s\<lparr>uip_sappdata := p\<rparr>) = get_be f s"
  "get_ip f (s\<lparr>uip_appdata := p\<rparr>) = get_ip f s" "get_ip f (s\<lparr>uip_sappdata := p\<rparr>) = get_ip f s"
  "uip_ipchksum (s\<lparr>uip_appdata := p\<rparr>) = uip_ipchksum s"
  "uip_ipchksum (s\<lparr>uip_sappdata := p\<rparr>) = uip_ipchksum s"
  "options_end (s\<lparr>uip_appdata := p\<rparr>) = options_end s"
  "options_end (s\<lparr>uip_sappdata := p\<rparr>) = options_end s"
  by (simp_all add: get8_def get_be_def get_ip_def rd8_def rd16_def uip_ipchksum_def options_end_def)

lemma no_udp [simp]: "\<not> UIP_UDP fos_build" "\<not> UIP_REASSEMBLY fos_build"
  by (simp_all add: fos_build_def)


lemma tcp_overread:
  assumes "length (uip_buf s) = 422" "unat (get_be H_len s) < 20 \<or> 408 < unat (get_be H_len s)"
  shows "uip_tcpchksum s = None"
proof -
  have "388 < unat (get_be H_len s - 20)"
  proof (cases "unat (get_be H_len s) < 20")
    case True
    then have "unat (get_be H_len s - 20) = 65536 + unat (get_be H_len s) - 20"
      by (simp add: unat_sub_if_size word_size word_le_nat_alt)
    then show ?thesis by simp
  next
    case False
    then show ?thesis using assms(2) by (simp add: unat_sub word_le_nat_alt)
  qed
  then have "slice 34 (unat (get_be H_len s - 20)) (uip_buf s) = None"
    using assms(1) by (simp add: slice_def)
  then show ?thesis
    by (cases "slice 26 8 (uip_buf s)") (simp_all add: uip_tcpchksum_def upper_layer_chksum_def Let_def)
qed

text \<open>C35: The IP length is only compared with the length of the frame from above. A packet for this
  host with a correct header checksum and the protocol TCP, whose IP length is below 20 or above
  408 but not above the frame length, makes the checksum loop read past the packet buffer.\<close>

theorem short_packet_overread:
  assumes "length (uip_buf s) = 422" "get8 H_vhl 0 s = 0x45" "get_be H_len s \<le> uip_len s"
    and "get8 H_ipoffset 0 s AND 0x3f = 0" "get8 H_ipoffset 1 s = 0"
    and "uip_ipaddr_cmp (get_ip H_destipaddr s) (uip_hostaddr s)" "uip_ipchksum s = Some 0xffff"
    and "get8 H_proto 0 s = 6" "unat (get_be H_len s) < 20 \<or> 408 < unat (get_be H_len s)"
  shows "uip_input fos_build app uapp s = None"
proof -
  have "uip_tcpchksum t = None" if "uip_buf t = uip_buf s" for t :: "'a uip"
    by (rule tcp_overread) (use assms that in \<open>simp_all add: get_be_def get8_def rd8_def\<close>)
  then show ?thesis
    using assms
    by (simp add: uip_input_def uip_process_def Let_def ip_input_def ip_fragment_def
        tcp_input_def)
qed

lemma parse_mss_loop:
  "parse_mss n c buf = Some y \<Longrightarrow>
   \<not> (1 < n \<and> buf ! 54 = 1 \<and> buf ! 55 \<notin> {0, 1} \<and> buf ! 56 = 255 \<and> c \<in> {0, 1})"
proof (rule parse_mss.raw_induct [where P = "\<lambda>n c buf y. \<not> (1 < n \<and> buf ! 54 = 1 \<and>
    buf ! 55 \<notin> {0, 1} \<and> buf ! 56 = 255 \<and> c \<in> {0, 1})"])
  fix parse :: "nat \<Rightarrow> u8 \<Rightarrow> u8 list \<Rightarrow> u16 option option" and n :: nat and c :: u8
    and buf :: "u8 list" and y
  assume IH: "\<And>n c buf y. parse n c buf = Some y \<Longrightarrow>
    \<not> (1 < n \<and> buf ! 54 = 1 \<and> buf ! 55 \<notin> {0, 1} \<and> buf ! 56 = 255 \<and> c \<in> {0, 1})"
  show "(if unat c < n
      then let p = 40 + 14 + unat c; opt = buf ! p in
        if opt = 0 then Some None
        else if opt = 1 then parse n (c + 1) buf
        else if opt = 2 \<and> buf ! (p + 1) = 4
        then let tmp16 = mk16 (buf ! (p + 2)) (buf ! (p + 3)) in
          Some (Some (if 366 < tmp16 then 366 else tmp16))
        else if buf ! (p + 1) = 0 then Some None
        else parse n (c + buf ! (p + 1)) buf
      else Some None) = Some y \<Longrightarrow>
    \<not> (1 < n \<and> buf ! 54 = 1 \<and> buf ! 55 \<notin> {0, 1} \<and> buf ! 56 = 255 \<and> c \<in> {0, 1})"
    using IH [of n 1 buf y] IH [of n "1 + 255" buf y] by (auto simp: Let_def)
qed

lemma high_nibble:
  fixes x :: u8
  assumes "0x50 < x AND 0xf0"
  shows "96 \<le> unat x"
proof -
  have "list_all (\<lambda>n. 0x50 < (word_of_nat n :: u8) AND 0xf0 \<longrightarrow> 96 \<le> n) [0 ..< 256]"
    by code_simp
  then have "0x50 < (word_of_nat (unat x) :: u8) AND 0xf0 \<longrightarrow> 96 \<le> unat x"
    unfolding list_all_interval using unat_u8_bound by blast
  then show ?thesis using assms by simp
qed

text \<open>C36: The offset into the TCP options has 8 bits. A SYN for a listening port whose options start
  with a no-operation and an option of length 255 makes it run in a circle: the processing of the
  packet never ends.\<close>

theorem syn_options_loop:
  assumes "find_conn (uip_conns s) 0 None \<noteq> None" "uip_inv s"
    and "0x50 < get8 H_tcpoffset 0 s AND 0xf0"
    and "rd8 54 s = 1" "rd8 55 s \<notin> {0, 1}" "rd8 56 s = 255"
  shows "found_listen s = None"
proof -
  let ?n = "(unat (get8 H_tcpoffset 0 s) div 16 - 5) * 4"
  have "96 div 16 \<le> unat (get8 H_tcpoffset 0 s) div 16"
    using high_nibble [OF assms(3)] by (rule div_le_mono)
  then have "6 \<le> unat (get8 H_tcpoffset 0 s) div 16" by simp
  then have "1 < ?n" by linarith
  then have p: "parse_mss ?n 0 (uip_buf s) = None"
    using parse_mss_loop [of ?n 0 "uip_buf s"] assms(4-6) by (cases "parse_mss ?n 0 (uip_buf s)") (auto simp: rd8_def)
  have "tcp_options r t = None" if "uip_buf t = uip_buf s" for r and t :: "'a uip"
  proof -
    have "get8 H_tcpoffset 0 t = get8 H_tcpoffset 0 s" using that by (simp add: get8_def rd8_def)
    then show ?thesis using that p assms(3) by (simp add: tcp_options_def)
  qed
  moreover obtain r t where f: "find_conn (uip_conns s) 0 None = Some (r, t)" using assms(1) by auto
  moreover have "r < 40" using find_conn_bound [OF f] assms(2) by (simp add: inv_length)
  ultimately show ?thesis using assms(2) by (simp add: found_listen_def Let_def)
qed

end
