(* ===== verification/UipReliable.thy ===== *)
theory UipReliable
  imports UipSafe
begin

text \<open>
  What the TCP of \<^verbatim>\<open>src/middleware/uip/uip/uip.c\<close> promises: the segments that
  \<^verbatim>\<open>tcp_send\<close> builds pass the checks of \<^verbatim>\<open>uip_process\<close> at the host they are for, and a connection
  whose data is never acknowledged is retransmitted with exponential backoff and given up.
\<close>

subsection \<open>Segments that arrive\<close>

lemma rd16_put16 [simp]: "Suc (14 + ip_off f) < length (uip_buf s) \<Longrightarrow> get16 f (put16 f w s) = w"
  by (simp add: get16_def rd16_def rd8_def put_buf)

lemma mk16_eq_0 [simp]: "mk16 h l = 0 \<longleftrightarrow> h = 0 \<and> l = 0"
proof
  assume e: "mk16 h l = 0"
  have "hi8 (mk16 h l) = 0" "lo8 (mk16 h l) = 0" unfolding e by simp_all
  then show "h = 0 \<and> l = 0" by simp
qed simp

text \<open>The header of a segment for connection \<open>c\<close>.\<close>

definition segment_for :: "'a conn \<Rightarrow> ip4 \<Rightarrow> 'a uip \<Rightarrow> bool" where
  "segment_for c host s \<longleftrightarrow> get8 H_proto 0 s = UIP_PROTO_TCP \<and>
     get16 H_srcport s = lport c \<and> get16 H_destport s = rport c \<and>
     get_ip H_srcipaddr s = host \<and> get_ip H_destipaddr s = ripaddr c \<and>
     get_seq H_seqno s = snd_nxt c \<and> get_seq H_ackno s = rcv_nxt c"

lemma segment_for_cong:
  assumes "get8 H_proto 0 s' = get8 H_proto 0 s" "\<And>i. 26 \<le> i \<Longrightarrow> i < 50 \<Longrightarrow> rd8 i s' = rd8 i s"
  shows "segment_for c host s' = segment_for c host s"
  using assms by (simp add: segment_for_def get16_def rd16_def get_ip_def get_seq_def get8_def)

lemma tcp_send_segment:
  assumes i: "uip_inv s" and l: "40 \<le> unat (uip_len s)" "unat (uip_len s) \<le> 408"
  obtains s' where "tcp_send r s = Some s'" "same_but_packet s s'" "good_segment s'"
    "segment_for (cn r s) (uip_hostaddr s) s'"
proof -
  let ?c = "cn r s"
  define t where "t = (if tcpstateflags ?c AND UIP_STOPPED \<noteq> 0 then put_be H_wnd 0 else put_be H_wnd 366)
    (put_ip H_destipaddr (ripaddr ?c) (put_ip H_srcipaddr (uip_hostaddr s) (put16 H_destport (rport ?c)
    (put16 H_srcport (lport ?c) (put8 H_proto 0 6 (put_seq H_seqno (snd_nxt ?c)
    (put_seq H_ackno (rcv_nxt ?c) s)))))))"
  have b: "length (uip_buf s) = 422" using i by (simp add: uip_inv_def uip_wf_def)
  have tl: "length (uip_buf t) = 422" "uip_len t = uip_len s" using b by (simp_all add: t_def)
  obtain a0 a1 a2 a3 where a: "rcv_nxt ?c = (a0, a1, a2, a3)" by (cases "rcv_nxt ?c") auto
  obtain q0 q1 q2 q3 where q: "snd_nxt ?c = (q0, q1, q2, q3)" by (cases "snd_nxt ?c") auto
  have "segment_for ?c (uip_hostaddr s) t"
    using b by (cases "ripaddr ?c"; cases "uip_hostaddr s")
      (simp add: segment_for_def t_def put_seq_def a q get16_def rd16_def rd8_def get_ip_def get_seq_def get8_def put_defs)
  moreover obtain s' where s': "tcp_send_noconn t = Some s'" "same_but_packet t s'" "good_segment s'"
    "get8 H_proto 0 s' = get8 H_proto 0 t" "\<And>i. 26 \<le> i \<Longrightarrow> i < 50 \<Longrightarrow> rd8 i s' = rd8 i t"
    by (rule tcp_send_noconn_ok [of t]) (use tl l in simp_all)
  ultimately have "segment_for ?c (uip_hostaddr s) s'" using segment_for_cong [OF s'(4,5)] by blast
  moreover have "same_but_packet s s'"
    using s'(2) by (auto simp: same_but_packet_def t_def put_defs split: prod.splits)
  moreover have "tcp_send r s = Some s'"
    using s'(1) by (simp add: tcp_send_def Let_def t_def if_distrib [of "\<lambda>f. f x" for x] cong: if_cong)
  ultimately show ?thesis using s'(3) that by blast
qed


lemma good_segment_input:
  assumes g: "good_segment s'" "get8 H_proto 0 s' = 6"
    and t: "uip_buf t = uip_buf s'" "uip_len s' \<le> uip_len t" "get_ip H_destipaddr s' = uip_hostaddr t"
  shows "uip_input fos_build app uapp t = tcp_input app
    ((bump Ip_recv (t\<lparr>uip_sappdata := 54, uip_appdata := 54\<rparr>))\<lparr>uip_len := uip_len s'\<rparr>)"
    "uip_tcpchksum t = Some 0xffff"
proof -
  have e: "get8 f k t = get8 f k s'" "get_be f t = get_be f s'" "get_ip f t = get_ip f s'"
    "uip_ipchksum t = uip_ipchksum s'" "uip_tcpchksum t = uip_tcpchksum s'" for f k
    using t(1) by (simp_all add: get8_def get_be_def get_ip_def rd8_def rd16_def uip_ipchksum_def
        uip_tcpchksum_def upper_layer_chksum_def)
  have z: "get8 H_ipoffset 0 s' = 0" "get8 H_ipoffset (Suc 0) s' = 0"
    using g by (simp_all add: good_segment_def get_be_def)
  show "uip_tcpchksum t = Some 0xffff" using g by (simp add: e good_segment_def)
  show "uip_input fos_build app uapp t = tcp_input app
    ((bump Ip_recv (t\<lparr>uip_sappdata := 54, uip_appdata := 54\<rparr>))\<lparr>uip_len := uip_len s'\<rparr>)"
    using g t(3) leD [OF t(2)]
    by (simp add: uip_input_def uip_process_def ip_input_def ip_fragment_def good_segment_def Let_def
        e z uip_ipaddr_cmp_def)
qed

text \<open>C4: What \<^verbatim>\<open>tcp_send\<close> sends is what the other side's stack takes in: the segment carries the
  connection's addresses, ports and sequence numbers, and a host with the destination address
  that finds it in its buffer passes all checks of the IP and TCP headers and goes on to look for
  the connection, with the length the sender meant.\<close>

theorem tcp_send_accepted:
  assumes "uip_inv s" "40 \<le> unat (uip_len s)" "unat (uip_len s) \<le> 408"
  shows "\<exists>s'. tcp_send r s = Some s' \<and> segment_for (cn r s) (uip_hostaddr s) s' \<and>
    (\<forall>t. uip_buf t = uip_buf s' \<and> uip_len s \<le> uip_len t \<and> uip_hostaddr t = ripaddr (cn r s) \<longrightarrow>
       uip_tcpchksum t = Some 0xffff \<and>
       uip_input fos_build app uapp t = tcp_input app
         ((bump Ip_recv (t\<lparr>uip_sappdata := 54, uip_appdata := 54\<rparr>))\<lparr>uip_len := uip_len s\<rparr>))"
proof -
  obtain s' where s': "tcp_send r s = Some s'" "same_but_packet s s'" "good_segment s'"
    "segment_for (cn r s) (uip_hostaddr s) s'"
    using tcp_send_segment [OF assms] by blast
  have "uip_len s' = uip_len s" by (rule same_but_packet_sel [OF s'(2)])
  with s' have "uip_tcpchksum t = Some 0xffff \<and> uip_input fos_build app uapp t = tcp_input app
      ((bump Ip_recv (t\<lparr>uip_sappdata := 54, uip_appdata := 54\<rparr>))\<lparr>uip_len := uip_len s\<rparr>)"
    if "uip_buf t = uip_buf s' \<and> uip_len s \<le> uip_len t \<and> uip_hostaddr t = ripaddr (cn r s)" for t
    using that good_segment_input(1) [OF s'(3), of t app uapp] good_segment_input(2) [OF s'(3), of t] by (simp add: segment_for_def)
  then show ?thesis using s' by blast
qed

subsection \<open>Giving up\<close>

text \<open>The number of timer events until a connection with \<open>k\<close> retransmissions done and the timer
  at \<open>t\<close> is given up.\<close>

fun remaining :: "nat \<Rightarrow> nat \<Rightarrow> nat" where
  "remaining 0 t = t + 1"
| "remaining (Suc j) t = t + 1 + remaining j (3 * 2 ^ min (7 - j) 4)"

text \<open>A run of \<open>n\<close> timer events of a connection, with no segment coming in.\<close>

fun timer_run :: "build \<Rightarrow> ('a uip \<Rightarrow> 'a uip option) \<Rightarrow> ('a uip \<Rightarrow> 'a uip option) \<Rightarrow> nat \<Rightarrow> nat \<Rightarrow> 'a uip \<Rightarrow> 'a uip option" where
  "timer_run b app uapp r 0 s = Some s"
| "timer_run b app uapp r (Suc n) s = do {s \<leftarrow> uip_periodic b app uapp r s; timer_run b app uapp r n s}"

definition events_left :: "'a conn \<Rightarrow> nat" where
  "events_left c = remaining (8 - unat (nrtx c)) (unat (rtimer c))"

lemma remaining_pos [simp]: "remaining k t \<noteq> 0"
  by (cases k) simp_all

lemma remaining_dec: "remaining k (Suc t) = Suc (remaining k t)"
  by (cases k) simp_all

lemma apprexmit_conns:
  assumes "uip_inv s" "r < 40" "apprexmit r s = Some s'"
  shows "uip_conns s' = uip_conns s"
proof -
  have frame: "uip_conns t' = uip_conns s"
    if h: "tcp_send_noopts r t = Some t'" "uip_inv t" "40 \<le> unat (uip_len t)" "unat (uip_len t) \<le> 408"
      "uip_conns t = uip_conns s" for t t'
  proof -
    obtain u where "tcp_send r (put8 H_tcpoffset 0 (push_bit 4 5) t) = Some u"
      "same_but_packet (put8 H_tcpoffset 0 (push_bit 4 5) t) u"
      by (rule tcp_send_segment [of "put8 H_tcpoffset 0 (push_bit 4 5) t" r]) (use h in simp_all)
    then show ?thesis
      using h same_but_packet_sel(6) [of "put8 H_tcpoffset 0 (push_bit 4 5) t" u]
      by (simp add: tcp_send_noopts_def)
  qed
  have u: "unat (outlen (cn r s)) \<le> 366" using cn_ok [OF assms(1,2)] by (simp add: conn_ok_def unat_366)
  then have "unat (outlen (cn r s) + 40) = unat (outlen (cn r s)) + 40" by (simp add: unat_u16_plus)
  then show ?thesis
    using assms u
    by (auto simp: apprexmit_def Let_def uip_drop_def split: if_splits dest!: frame)
qed

lemma noopts_conns:
  assumes "uip_inv t" "40 \<le> unat (uip_len t)" "unat (uip_len t) \<le> 408"
    "tcp_send_noopts r t = Some t'"
  shows "uip_conns t' = uip_conns t"
proof -
  obtain u where "tcp_send r (put8 H_tcpoffset 0 (push_bit 4 5) t) = Some u"
    "same_but_packet (put8 H_tcpoffset 0 (push_bit 4 5) t) u"
    by (rule tcp_send_segment [of "put8 H_tcpoffset 0 (push_bit 4 5) t" r]) (use assms in simp_all)
  then show ?thesis
    using assms(4) same_but_packet_sel(6) [of "put8 H_tcpoffset 0 (push_bit 4 5) t" u]
    by (simp add: tcp_send_noopts_def)
qed

lemma cn_pointers [simp]: "cn r (s\<lparr>uip_sappdata := p\<rparr>) = cn r s" "cn r (s\<lparr>uip_conn := q\<rparr>) = cn r s"
  by (simp_all add: cn_def)

lemma timer_event_state:
  assumes "uip_inv s" "r < 40" and c: "cn r s = c" "tcpstateflags c = UIP_ESTABLISHED" "outlen c \<noteq> 0"
  obtains s2 where "uip_inv s2" "cn r s2 = c\<lparr>rtimer := rtimer c - 1\<rparr>"
    "uip_periodic b app uapp r s =
      (if rtimer c = 0 then timer_rexmit app r s2 else Some (uip_drop s2))"
proof (rule that)
  let ?s1 = "s\<lparr>uip_conn := Some r, uip_sappdata := 54, uip_appdata := 54,
    reasstmr := (if UIP_REASSEMBLY b \<and> reasstmr s \<noteq> 0 then reasstmr s - 1 else reasstmr s),
    iss := inc32 (iss s), uip_len := 0, uip_slen := 0\<rparr>"
  let ?s2 = "upd r (\<lambda>c. c\<lparr>rtimer := rtimer c - 1\<rparr>) ?s1"
  have i: "uip_inv ?s1" using assms(1) by simp
  have cn: "cn r ?s1 = c" using c(1) by (simp add: cn_def)
  show "uip_inv ?s2" using i by simp
  show "cn r ?s2 = c\<lparr>rtimer := rtimer c - 1\<rparr>" using cn_upd [OF i assms(2)] cn by simp
  show "uip_periodic b app uapp r s = (if rtimer c = 0 then timer_rexmit app r ?s2 else Some (uip_drop ?s2))"
    using assms c by (simp add: uip_periodic_def uip_process_def process_timer_def Let_def inv_length
        uip_outstanding_def)
qed

lemma backoff: "k < 8 \<Longrightarrow> unat (push_bit (if 4 < k then 4 else k) (3 :: u8)) = 3 * 2 ^ min k 4"
proof -
  assume "k < 8"
  moreover have "list_all (\<lambda>k. unat (push_bit (if 4 < k then 4 else k) (3 :: u8)) = 3 * 2 ^ min k 4) [0 ..< 8]"
    by code_simp
  ultimately show ?thesis by (simp only: list_all_interval)
qed

lemma timer_event:
  assumes i: "uip_inv s" "r < 40" and app: "app_ok app"
    and fr: "\<And>s s'. app s = Some s' \<Longrightarrow> uip_conns s' = uip_conns s"
    and c: "cn r s = c" "tcpstateflags c = UIP_ESTABLISHED" "outlen c \<noteq> 0" "nrtx c \<le> 8"
  obtains s' where "uip_periodic b app uapp r s = Some s'" "uip_inv s'"
    "events_left c = 1 \<Longrightarrow> tcpstateflags (cn r s') = UIP_CLOSED"
    "events_left c \<noteq> 1 \<Longrightarrow> tcpstateflags (cn r s') = UIP_ESTABLISHED \<and> outlen (cn r s') \<noteq> 0 \<and>
       nrtx (cn r s') \<le> 8 \<and> events_left (cn r s') + 1 = events_left c"
proof -
  obtain s2 where s2: "uip_inv s2" "cn r s2 = c\<lparr>rtimer := rtimer c - 1\<rparr>" "uip_periodic b app uapp r s =
      (if rtimer c = 0 then timer_rexmit app r s2 else Some (uip_drop s2))"
    by (rule timer_event_state [OF i c(1-3)])
  have app': "\<exists>s'. app t = Some s' \<and> uip_inv s' \<and> uip_conns s' = uip_conns t" if "uip_inv t" for t
    using app that fr unfolding app_ok_def returns_def by blast
  consider (wait) "rtimer c \<noteq> 0" | (close) "rtimer c = 0" "nrtx c = 8" | (send) "rtimer c = 0" "nrtx c < 8"
    using c(4) by fastforce
  then show ?thesis
  proof cases
    case wait
    have u: "unat (rtimer c) = Suc (unat (rtimer c - 1))"
      using wait by (simp add: unat_minus_one unat_gt_0)
    then have "events_left c = Suc (events_left (cn r (uip_drop s2)))"
      using s2(2) by (simp add: events_left_def uip_drop_def remaining_dec)
    moreover have "events_left (cn r (uip_drop s2)) \<noteq> 0"
      by (simp add: events_left_def)
    ultimately show ?thesis
      using wait s2 c by (intro that [of "uip_drop s2"]) (simp_all add: uip_drop_def)
  next
    case close
    let ?s3 = "upd r (\<lambda>c. c\<lparr>tcpstateflags := UIP_CLOSED\<rparr>) s2"
    obtain s4 where s4: "app (?s3\<lparr>uip_flags := UIP_TIMEDOUT\<rparr>) = Some s4" "uip_inv s4"
      "uip_conns s4 = uip_conns ?s3"
      using app' [of "?s3\<lparr>uip_flags := UIP_TIMEDOUT\<rparr>"] s2(1) by auto
    have "returns (tcp_send_nodata r (put8 H_flags 0 (TCP_RST OR TCP_ACK) s4)) tcp_done"
      using s4(2) by simp
    then obtain s' where s': "tcp_send_nodata r (put8 H_flags 0 (TCP_RST OR TCP_ACK) s4) = Some s'" "tcp_done s'"
      by (rule returns_obtain)
    have "uip_conns s' = uip_conns s4"
      using s'(1) noopts_conns [of "(put8 H_flags 0 (TCP_RST OR TCP_ACK) s4)\<lparr>uip_len := 40\<rparr>" r s'] s4(2)
      by (simp add: tcp_send_nodata_def)
    then have "cn r s' = (cn r s2)\<lparr>tcpstateflags := UIP_CLOSED\<rparr>"
      using cn_upd [OF s2(1) i(2)] s4(3) by (simp add: cn_def)
    moreover have "uip_periodic b app uapp r s = Some s'"
      using close s2 s4(1) s'(1) by (simp add: timer_rexmit_def)
    moreover have "events_left c = 1" using close by (simp add: events_left_def)
    ultimately show ?thesis using s'(2) by (intro that [of s']) (simp_all add: tcp_done_def)
  next
    case send
    define k where "k = unat (nrtx c)"
    have k: "k < 8" using send(2) by (simp add: k_def word_less_nat_alt)
    let ?s3 = "bump Tcp_rexmit (upd r (\<lambda>c. c\<lparr>nrtx := nrtx c + 1\<rparr>)
      (upd r (\<lambda>c. c\<lparr>rtimer := push_bit (if nrtx c > 4 then 4 else unat (nrtx c)) UIP_RTO\<rparr>) s2))"
    let ?c = "c\<lparr>rtimer := push_bit (if nrtx c > 4 then 4 else unat (nrtx c)) UIP_RTO, nrtx := nrtx c + 1\<rparr>"
    have n8: "nrtx c \<noteq> 8" using send(2) by (metis order_less_irrefl)
    have i3: "uip_inv ?s3" using s2(1) by simp
    have c3: "cn r ?s3 = ?c" using cn_upd i(2) s2 by simp
    obtain s4 where s4: "app (?s3\<lparr>uip_flags := UIP_REXMIT\<rparr>) = Some s4" "uip_inv s4"
      "uip_conns s4 = uip_conns ?s3"
      using app' [of "?s3\<lparr>uip_flags := UIP_REXMIT\<rparr>"] i3 by auto
    obtain s' where s': "apprexmit r s4 = Some s'" "tcp_done s'"
      using apprexmit_done [OF s4(2) i(2)] by (rule returns_obtain)
    have "cn r s' = ?c"
      using apprexmit_conns [OF s4(2) i(2) s'(1)] s4(3) c3 by (simp add: cn_def)
    moreover have "uip_periodic b app uapp r s = Some s'"
      using send s2 s4(1) s'(1) c3 c(2) n8 by (simp add: timer_rexmit_def Let_def)
    moreover have "unat (nrtx c + 1) = k + 1" using k by (simp add: k_def unat_u8_plus)
    moreover have "unat (rtimer ?c) = 3 * 2 ^ min k 4"
    proof -
      have "(if nrtx c > 4 then 4 else unat (nrtx c)) = (if 4 < k then 4 else k)"
        by (simp add: k_def word_less_nat_alt)
      then show ?thesis using backoff [OF k] by simp
    qed
    moreover have "8 - k = Suc (7 - k)" using k by simp
    ultimately show ?thesis
      using s'(2) c k send
      by (intro that [of s']) (simp_all add: tcp_done_def events_left_def k_def [symmetric] word_le_nat_alt min_def)
  qed
qed

lemma timer_events:
  assumes app: "app_ok app" and fr: "\<And>s s'. app s = Some s' \<Longrightarrow> uip_conns s' = uip_conns s"
    and "uip_inv s" "r < 40" "tcpstateflags (cn r s) = UIP_ESTABLISHED" "outlen (cn r s) \<noteq> 0"
    "nrtx (cn r s) \<le> 8" "events_left (cn r s) = Suc n"
  shows "\<exists>s'. timer_run b app uapp r (Suc n) s = Some s' \<and> uip_inv s' \<and>
    tcpstateflags (cn r s') = UIP_CLOSED \<and>
    (\<forall>k \<le> n. \<exists>t. timer_run b app uapp r k s = Some t \<and> tcpstateflags (cn r t) = UIP_ESTABLISHED)"
  using assms(3-)
proof (induction n arbitrary: s)
  case 0
  obtain s' where "uip_periodic b app uapp r s = Some s'" "uip_inv s'" "tcpstateflags (cn r s') = UIP_CLOSED"
    by (rule timer_event [OF 0(1,2) app fr refl 0(3-5)]) (use 0(6) in auto)
  with 0 show ?case by simp
next
  case (Suc n)
  obtain s1 where s1: "uip_periodic b app uapp r s = Some s1" "uip_inv s1"
    "tcpstateflags (cn r s1) = UIP_ESTABLISHED" "outlen (cn r s1) \<noteq> 0" "nrtx (cn r s1) \<le> 8"
    "events_left (cn r s1) = Suc n"
    by (rule timer_event [OF Suc.prems(1,2) app fr refl Suc.prems(3-5)]) (use Suc.prems(6) in auto)
  have "\<exists>t. timer_run b app uapp r k s = Some t \<and> tcpstateflags (cn r t) = UIP_ESTABLISHED"
    if "k \<le> Suc n" for k
    using that Suc.IH [OF s1(2) Suc.prems(2) s1(3-6)] s1(1) Suc.prems(3) by (cases k) auto
  with Suc.IH [OF s1(2) Suc.prems(2) s1(3-6)] s1(1) show ?case by auto
qed


end
