(* ===== verification/UipOpen.thy ===== *)
theory UipOpen
  imports UipSafe
begin

text \<open>
  Opening connections (\<^verbatim>\<open>uip_connect\<close>, \<^verbatim>\<open>uip_udp_new\<close>): the search for a local port ends, since
  there are fewer connections than ports, and the port it returns belongs to no other connection.
\<close>

subsection \<open>The search for a port\<close>

lemma next_port_nat: "unat p < 32000 \<Longrightarrow>
    unat (next_port p) = (if unat p + 1 = 32000 then 4096 else unat p + 1)"
proof -
  assume p: "unat p < 32000"
  then have "unat (p + 1) = unat p + 1" by (simp add: unat_u16_plus)
  then show ?thesis using p by (simp add: next_port_def Let_def word_le_nat_alt)
qed

text \<open>The distance to a free port falls with every round.\<close>

lemma search_port_returns:
  assumes "4096 \<le> unat q" "unat q < 32000" "\<not> used q"
  shows "unat p < 32000 \<Longrightarrow>
    \<exists>r. search_port used p = Some r \<and> \<not> used r \<and> 0 < unat r \<and> unat r < 32000"
proof (induction "if unat p < unat q then unat q - unat p else 32000 - unat p + unat q"
    arbitrary: p rule: less_induct)
  case less
  let ?n = "next_port p"
  have n: "unat ?n = (if unat p + 1 = 32000 then 4096 else unat p + 1)"
    using next_port_nat less.prems .
  show ?case
  proof (cases "used ?n")
    case False
    then show ?thesis using n less.prems
      by (intro exI [of _ ?n]) (auto simp: search_port.simps [of used p])
  next
    case True
    then have "?n \<noteq> q" using assms(3) by blast
    then have "unat ?n \<noteq> unat q" by (simp add: word_unat_eq_iff)
    moreover have "unat ?n < 32000" using n less.prems by auto
    moreover from calculation have "(if unat ?n < unat q then unat q - unat ?n else 32000 - unat ?n + unat q)
        < (if unat p < unat q then unat q - unat p else 32000 - unat p + unat q)"
      using n assms(1,2) less.prems by (cases "unat p + 1 = 32000"; cases "unat p < unat q"; simp)
    ultimately show ?thesis
      using less.hyps [of ?n] True by (simp add: search_port.simps [of used p])
  qed
qed

lemma htons_inj: "htons x = htons y \<longleftrightarrow> x = y"
  by (metis HTONS_HTONS htons_def)

lemma few_ports_used:
  assumes "\<And>p. used p \<Longrightarrow> htons p \<in> U" "finite U" "card U < 27904"
  obtains q where "4096 \<le> unat q" "unat q < 32000" "\<not> used q"
proof -
  let ?P = "(\<lambda>n. htons (word_of_nat n)) ` {4096 ..< 32000}"
  have "inj_on (\<lambda>n. htons (word_of_nat n)) {4096 ..< 32000 :: nat}"
    by (rule inj_onI) (auto simp: htons_inj word_of_nat_eq_iff take_bit_eq_mod [where 'a = nat])
  then have "card ?P = 27904" by (simp add: card_image)
  then have "\<not> ?P \<subseteq> U" using card_mono [OF assms(2), of ?P] assms(3) by linarith
  then obtain n where n: "n \<in> {4096 ..< 32000}" "htons (word_of_nat n) \<notin> U" by blast
  then have "unat (word_of_nat n :: u16) = n" by (simp add: unat_of_nat)
  then show ?thesis using that [of "word_of_nat n"] n assms(1) by auto
qed

lemma search_port_tcp:
  assumes "length (uip_conns s) < 27904" "unat (lastport s) < 32000"
  obtains p where "search_port (tcp_port_used s) (lastport s) = Some p" "\<not> tcp_port_used s p"
    "0 < unat p" "unat p < 32000"
proof -
  have "card (set (map lport (uip_conns s))) < 27904"
    using card_length [of "map lport (uip_conns s)"] assms(1) by simp
  then obtain q where "4096 \<le> unat q" "unat q < 32000" "\<not> tcp_port_used s q"
    by (rule few_ports_used [of "tcp_port_used s" "set (map lport (uip_conns s))", rotated 2])
      (auto simp: tcp_port_used_def list_ex_iff intro: rev_image_eqI)
  from search_port_returns [where used = "tcp_port_used s", OF this assms(2)] that show ?thesis by blast
qed

lemma search_port_udp:
  assumes "length (uip_udp_conns s) < 27904" "unat (lastport s) < 32000"
  obtains p where "search_port (udp_port_used s) (lastport s) = Some p" "\<not> udp_port_used s p"
    "0 < unat p" "unat p < 32000"
proof -
  have "card (set (map u_lport (uip_udp_conns s))) < 27904"
    using card_length [of "map u_lport (uip_udp_conns s)"] assms(1) by simp
  then obtain q where "4096 \<le> unat q" "unat q < 32000" "\<not> udp_port_used s q"
    by (rule few_ports_used [of "udp_port_used s" "set (map u_lport (uip_udp_conns s))", rotated 2])
      (auto simp: udp_port_used_def list_ex_iff intro: rev_image_eqI)
  from search_port_returns [where used = "udp_port_used s", OF this assms(2)] that show ?thesis by blast
qed

subsection \<open>The choice of a connection\<close>

text \<open>A closed connection is taken before one in TIME\_WAIT, of which the one with the greatest timer
  is taken.\<close>

definition reusable :: "'a conn \<Rightarrow> bool" where
  "reusable c \<longleftrightarrow> tcpstateflags c = UIP_CLOSED \<or> tcpstateflags c = UIP_TIME_WAIT"

lemma find_conn_Some:
  assumes "find_conn cs i best = Some (r, t)" "best = None \<or> (\<exists>j t. best = Some (j, t) \<and> j < i)"
  shows "best = Some (r, t) \<or> (i \<le> r \<and> r < i + length cs \<and> reusable (cs ! (r - i)) \<and> t = rtimer (cs ! (r - i)))"
  using assms
proof (induction cs arbitrary: i best)
  case (Cons c cs)
  let ?best = "case best of None \<Rightarrow> Some (i, rtimer c)
    | Some (j, t) \<Rightarrow> if rtimer c > t then Some (i, rtimer c) else best"
  consider (closed) "tcpstateflags c = UIP_CLOSED" | (wait) "tcpstateflags c = UIP_TIME_WAIT"
    | (other) "tcpstateflags c \<noteq> UIP_CLOSED" "tcpstateflags c \<noteq> UIP_TIME_WAIT" by blast
  then show ?case
  proof cases
    case closed
    then show ?thesis using Cons.prems by (auto simp: reusable_def)
  next
    case wait
    have "?best = Some (r, t) \<or> (Suc i \<le> r \<and> r < Suc i + length cs \<and> reusable (cs ! (r - Suc i)) \<and>
        t = rtimer (cs ! (r - Suc i)))"
      by (rule Cons.IH) (use Cons.prems wait in \<open>auto split: option.splits if_splits\<close>)
    then show ?thesis
      using wait by (auto simp: reusable_def nth_Cons' split: option.splits if_splits)
  next
    case other
    have "best = Some (r, t) \<or> (Suc i \<le> r \<and> r < Suc i + length cs \<and> reusable (cs ! (r - Suc i)) \<and>
        t = rtimer (cs ! (r - Suc i)))"
      by (rule Cons.IH) (use Cons.prems other in \<open>auto\<close>)
    then show ?thesis by (auto simp: nth_Cons')
  qed
qed simp

lemma find_conn_None: "find_conn cs i best = None \<longleftrightarrow> best = None \<and> list_all (\<lambda>c. \<not> reusable c) cs"
  by (induction cs arbitrary: i best) (auto simp: reusable_def split: option.splits)

lemma find_conn_closed: "(\<exists>c \<in> set cs. tcpstateflags c = UIP_CLOSED) \<Longrightarrow>
   \<exists>j < length cs. find_conn cs i best = Some (i + j, rtimer (cs ! j)) \<and> tcpstateflags (cs ! j) = UIP_CLOSED"
proof (induction cs arbitrary: i best)
  case (Cons c cs)
  show ?case
  proof (cases "tcpstateflags c = UIP_CLOSED")
    case False
    then have "\<exists>c \<in> set cs. tcpstateflags c = UIP_CLOSED" using Cons.prems by auto
    from Cons.IH [OF this] have "\<exists>j < length cs. find_conn cs (Suc i) b = Some (Suc i + j, rtimer (cs ! j)) \<and>
        tcpstateflags (cs ! j) = UIP_CLOSED" for b .
    then show ?thesis using False by (force simp: nth_Cons')
  qed auto
qed simp


text \<open>C18: \<^verbatim>\<open>uip_connect\<close> always returns, because the search for a local port ends: it
  returns 0 exactly when no connection is closed or in TIME\_WAIT; otherwise the connection it takes
  is one of those, it becomes SYN\_SENT with the peer's address and port, the other
  connections stay as they were, and no other connection that is not closed has its local port.\<close>

theorem uip_connect_opens:
  assumes "uip_inv s" "unat (lastport s) < 32000"
  shows "\<exists>s' res. uip_connect addr port s = Some (s', res) \<and> unat (lastport s') < 32000 \<and>
    (case res of
       None \<Rightarrow> uip_conns s' = uip_conns s \<and> list_all (\<lambda>c. \<not> reusable c) (uip_conns s)
     | Some r \<Rightarrow> r < 40 \<and> reusable (cn r s) \<and> tcpstateflags (cn r s') = UIP_SYN_SENT \<and>
         ripaddr (cn r s') = addr \<and> rport (cn r s') = port \<and> lport (cn r s') = htons (lastport s') \<and>
         outlen (cn r s') = 1 \<and> snd_nxt (cn r s') = iss s \<and>
         ((\<exists>c \<in> set (uip_conns s). tcpstateflags c = UIP_CLOSED) \<longrightarrow>
            tcpstateflags (cn r s) = UIP_CLOSED) \<and>
         (\<forall>j. j < 40 \<longrightarrow> j \<noteq> r \<longrightarrow> cn j s' = cn j s \<and>
            (tcpstateflags (cn j s') \<noteq> UIP_CLOSED \<longrightarrow> lport (cn j s') \<noteq> lport (cn r s'))))"
proof -
  have l: "length (uip_conns s) = 40" using assms(1) by (rule inv_length)
  obtain p where p: "search_port (tcp_port_used s) (lastport s) = Some p" "\<not> tcp_port_used s p"
    "unat p < 32000"
    by (rule search_port_tcp [of s]) (use assms l in auto)
  show ?thesis
  proof (cases "find_conn (uip_conns s) 0 None")
    case None
    then have "list_all (\<lambda>c. \<not> reusable c) (uip_conns s)" by (simp add: find_conn_None)
    with None p show ?thesis by (simp add: uip_connect_def Let_def)
  next
    case (Some rt)
    then obtain r t where rt: "find_conn (uip_conns s) 0 None = Some (r, t)" by (cases rt) auto
    have r: "r < 40" "reusable (cn r s)"
      using find_conn_Some [OF rt] l by (simp_all add: cn_def)
    have "tcpstateflags (cn r s) = UIP_CLOSED" if "\<exists>c \<in> set (uip_conns s). tcpstateflags c = UIP_CLOSED"
      using find_conn_closed [OF that, of 0 None] rt by (auto simp: cn_def)
    moreover have "tcpstateflags (cn j s) \<noteq> UIP_CLOSED \<longrightarrow> lport (cn j s) \<noteq> htons p" if "j < 40" for j
      using p(2) that l by (auto simp: tcp_port_used_def list_ex_iff cn_def)
    ultimately show ?thesis
      using p rt r l by (simp add: uip_connect_def Let_def upd_def cn_def)
  qed
qed

end
