(* ===== verification/UipArp.thy ===== *)
theory UipArp
  imports UipState
begin

text \<open>
  The Address Resolution Protocol (\<^verbatim>\<open>uip_arp.c\<close>): the table of Ethernet addresses with
  its aging, the handling of ARP packets and the Ethernet header of outgoing IP packets. The
  receive hook \<^verbatim>\<open>uip_arp_ipin\<close> is disabled in the source and is a macro without a body.
\<close>

subsection \<open>Data\<close>

record arp_entry =
  ae_ipaddr :: ip4
  ae_ethaddr :: "u8 list"
  ae_time :: u8

record arp =
  arp_table :: "arp_entry list"
  arptime :: u8

abbreviation (input) "UIP_ARPTAB_SIZE \<equiv> (8 :: nat)"
abbreviation (input) "UIP_ARP_MAXAGE \<equiv> (120 :: int)"
abbreviation (input) "ARP_REQUEST \<equiv> (1 :: u16)"
abbreviation (input) "ARP_REPLY \<equiv> (2 :: u16)"
abbreviation (input) "ARP_HWTYPE_ETH \<equiv> (1 :: u16)"
abbreviation (input) "UIP_ETHTYPE_ARP \<equiv> (0x0806 :: u16)"
abbreviation (input) "UIP_ETHTYPE_IP \<equiv> (0x0800 :: u16)"

text \<open>The fields of \<^verbatim>\<open>struct arp_hdr\<close> and \<^verbatim>\<open>struct ethip_hdr\<close>, from the start of the
  buffer.\<close>

datatype arp_fld =
    E_dest | E_src | E_type
  | A_hwtype | A_protocol | A_hwlen | A_protolen | A_opcode
  | A_shwaddr | A_sipaddr | A_dhwaddr | A_dipaddr

fun arp_off :: "arp_fld \<Rightarrow> nat" where
  "arp_off E_dest = 0"
| "arp_off E_src = 6"
| "arp_off E_type = 12"
| "arp_off A_hwtype = 14"
| "arp_off A_protocol = 16"
| "arp_off A_hwlen = 18"
| "arp_off A_protolen = 19"
| "arp_off A_opcode = 20"
| "arp_off A_shwaddr = 22"
| "arp_off A_sipaddr = 28"
| "arp_off A_dhwaddr = 32"
| "arp_off A_dipaddr = 38"

abbreviation (input) "arp_hdr_size \<equiv> (42 :: nat)"

definition aget16 :: "arp_fld \<Rightarrow> 'a uip \<Rightarrow> u16" where
  "aget16 f s = rd16 (arp_off f) s"

definition aput16 :: "arp_fld \<Rightarrow> u16 \<Rightarrow> 'a uip \<Rightarrow> 'a uip" where
  "aput16 f v s = wr16 (arp_off f) v s"

definition aget_ip :: "arp_fld \<Rightarrow> 'a uip \<Rightarrow> ip4" where
  "aget_ip f s = (rd16 (arp_off f) s, rd16 (arp_off f + 2) s)"

definition aput_ip :: "arp_fld \<Rightarrow> ip4 \<Rightarrow> 'a uip \<Rightarrow> 'a uip" where
  "aput_ip f a s = wr16 (arp_off f + 2) (snd a) (wr16 (arp_off f) (fst a) s)"

definition aget_eth :: "arp_fld \<Rightarrow> 'a uip \<Rightarrow> u8 list" where
  "aget_eth f s = take 6 (drop (arp_off f) (uip_buf s))"

definition aput_eth :: "arp_fld \<Rightarrow> u8 list \<Rightarrow> 'a uip \<Rightarrow> 'a uip" where
  "aput_eth f bs s = s\<lparr>uip_buf := take (arp_off f) (uip_buf s) @ take 6 bs @
     drop (arp_off f + length (take 6 bs)) (uip_buf s)\<rparr>"

subsection \<open>The table\<close>

definition uip_arp_init :: "arp \<Rightarrow> arp" where
  "uip_arp_init a = a\<lparr>arp_table := map (\<lambda>e. e\<lparr>ae_ipaddr := (0, 0)\<rparr>) (arp_table a)\<rparr>"

text \<open>The age of an entry is computed in \<^verbatim>\<open>int\<close>: it is negative once \<open>arptime\<close> has wrapped
  around.\<close>

definition arp_age :: "u8 \<Rightarrow> arp_entry \<Rightarrow> int" where
  "arp_age now e = uint now - uint (ae_time e)"

definition uip_arp_timer :: "arp \<Rightarrow> arp" where
  "uip_arp_timer a = (let a = a\<lparr>arptime := arptime a + 1\<rparr> in
     a\<lparr>arp_table := map (\<lambda>e.
         if fst (ae_ipaddr e) OR snd (ae_ipaddr e) \<noteq> 0 \<and> arp_age (arptime a) e \<ge> UIP_ARP_MAXAGE
         then e\<lparr>ae_ipaddr := (0, 0)\<rparr> else e) (arp_table a)\<rparr>)"

text \<open>The first entry that satisfies \<open>P\<close>.\<close>

fun find_idx :: "('b \<Rightarrow> bool) \<Rightarrow> 'b list \<Rightarrow> nat \<Rightarrow> nat option" where
  "find_idx P [] i = None"
| "find_idx P (x # xs) i = (if P x then Some i else find_idx P xs (i + 1))"

text \<open>The search for the oldest entry: \<open>tmpage\<close> is an 8-bit number, the age an \<^verbatim>\<open>int\<close>.\<close>

fun oldest :: "u8 \<Rightarrow> arp_entry list \<Rightarrow> nat \<Rightarrow> u8 \<Rightarrow> nat \<Rightarrow> nat" where
  "oldest now [] i tmpage c = c"
| "oldest now (e # es) i tmpage c =
     (if arp_age now e > uint tmpage
      then oldest now es (i + 1) (now - ae_time e) i
      else oldest now es (i + 1) tmpage c)"

definition uip_arp_update :: "ip4 \<Rightarrow> u8 list \<Rightarrow> arp \<Rightarrow> arp" where
  "uip_arp_update addr eth a =
     (case find_idx (\<lambda>e. fst (ae_ipaddr e) \<noteq> 0 \<and> snd (ae_ipaddr e) \<noteq> 0 \<and>
               fst addr = fst (ae_ipaddr e) \<and> snd addr = snd (ae_ipaddr e)) (arp_table a) 0 of
        Some i \<Rightarrow> a\<lparr>arp_table := (arp_table a)[i :=
                    (arp_table a ! i)\<lparr>ae_ethaddr := eth, ae_time := arptime a\<rparr>]\<rparr>
      | None \<Rightarrow> (let
          i = (case find_idx (\<lambda>e. fst (ae_ipaddr e) = 0 \<and> snd (ae_ipaddr e) = 0) (arp_table a) 0 of
                 Some i \<Rightarrow> i
               | None \<Rightarrow> oldest (arptime a) (arp_table a) 0 0 0)
        in a\<lparr>arp_table := (arp_table a)[i :=
               \<lparr>ae_ipaddr = addr, ae_ethaddr = eth, ae_time = arptime a\<rparr>]\<rparr>))"

subsection \<open>ARP packets\<close>

definition uip_arp_arpin :: "arp \<Rightarrow> 'a uip \<Rightarrow> arp \<times> 'a uip" where
  "uip_arp_arpin a s =
     (if unat (uip_len s) < arp_hdr_size then (a, s\<lparr>uip_len := 0\<rparr>)
      else (let s = s\<lparr>uip_len := 0\<rparr> in
        if aget16 A_opcode s = HTONS ARP_REQUEST then
          (if uip_ipaddr_cmp (aget_ip A_dipaddr s) (uip_hostaddr s) then (let
             a = uip_arp_update (aget_ip A_sipaddr s) (aget_eth A_shwaddr s) a;
             s = aput16 A_opcode (HTONS 2) s;
             s = aput_eth A_dhwaddr (aget_eth A_shwaddr s) s;
             s = aput_eth A_shwaddr (uip_ethaddr s) s;
             s = aput_eth E_src (uip_ethaddr s) s;
             s = aput_eth E_dest (aget_eth A_dhwaddr s) s;
             s = aput_ip A_dipaddr (aget_ip A_sipaddr s) s;
             s = aput_ip A_sipaddr (uip_hostaddr s) s;
             s = aput16 E_type (HTONS UIP_ETHTYPE_ARP) s
           in (a, s\<lparr>uip_len := word_of_nat arp_hdr_size\<rparr>))
           else (a, s))
        else if aget16 A_opcode s = HTONS ARP_REPLY then
          (if uip_ipaddr_cmp (aget_ip A_dipaddr s) (uip_hostaddr s)
           then (uip_arp_update (aget_ip A_sipaddr s) (aget_eth A_shwaddr s) a, s)
           else (a, s))
        else (a, s)))"

text \<open>The ARP request that replaces a packet whose destination is not in the table.\<close>

definition arp_request :: "ip4 \<Rightarrow> 'a uip \<Rightarrow> 'a uip" where
  "arp_request addr s = (let
     s = aput_eth E_dest (replicate 6 0xff) s;
     s = aput_eth A_dhwaddr (replicate 6 0x00) s;
     s = aput_eth E_src (uip_ethaddr s) s;
     s = aput_eth A_shwaddr (uip_ethaddr s) s;
     s = aput_ip A_dipaddr addr s;
     s = aput_ip A_sipaddr (uip_hostaddr s) s;
     s = aput16 A_opcode (HTONS ARP_REQUEST) s;
     s = aput16 A_hwtype (HTONS ARP_HWTYPE_ETH) s;
     s = aput16 A_protocol (HTONS UIP_ETHTYPE_IP) s;
     s = wr8 (arp_off A_hwlen) 6 s;
     s = wr8 (arp_off A_protolen) 4 s;
     s = aput16 E_type (HTONS UIP_ETHTYPE_ARP) s
   in s\<lparr>uip_appdata := UIP_TCPIP_HLEN + UIP_LLH_LEN, uip_len := word_of_nat arp_hdr_size\<rparr>)"

text \<open>The destination on the local link: the address itself or the default router.\<close>

definition arp_next_hop :: "'a uip \<Rightarrow> ip4" where
  "arp_next_hop s =
     (if \<not> uip_ipaddr_maskcmp (get_ip H_destipaddr s) (uip_hostaddr s) (uip_netmask s)
      then uip_draddr s else get_ip H_destipaddr s)"

definition arp_lookup :: "ip4 \<Rightarrow> arp \<Rightarrow> nat option" where
  "arp_lookup addr a = find_idx (\<lambda>e. uip_ipaddr_cmp addr (ae_ipaddr e)) (arp_table a) 0"

definition eth_finish :: "'a uip \<Rightarrow> 'a uip" where
  "eth_finish s = (let
     s = aput_eth E_src (uip_ethaddr s) s;
     s = aput16 E_type (HTONS UIP_ETHTYPE_IP) s
   in s\<lparr>uip_len := uip_len s + 14\<rparr>)"

definition uip_arp_out :: "arp \<Rightarrow> 'a uip \<Rightarrow> 'a uip" where
  "uip_arp_out a s =
     (if uip_ipaddr_cmp (get_ip H_destipaddr s) (0xffff, 0xffff)
      then eth_finish (aput_eth E_dest (replicate 6 0xff) s)
      else (case arp_lookup (arp_next_hop s) a of
          None \<Rightarrow> arp_request (arp_next_hop s) s
        | Some i \<Rightarrow> eth_finish (aput_eth E_dest (ae_ethaddr (arp_table a ! i)) s)))"

subsection \<open>The table: what is stored is found\<close>

lemma find_idx_Some:
  "find_idx P xs i = Some k \<Longrightarrow> i \<le> k \<and> k < i + length xs \<and> P (xs ! (k - i)) \<and> (\<forall>j < k - i. \<not> P (xs ! j))"
proof (induction xs arbitrary: i)
  case (Cons x xs)
  show ?case
  proof (cases "P x")
    case False
    then have f: "find_idx P xs (Suc i) = Some k" using Cons.prems by simp
    note IH = Cons.IH [OF f]
    have "\<not> P ((x # xs) ! j)" if "j < k - i" for j
      using that IH False by (cases j) auto
    then show ?thesis using IH by (auto simp: nth_Cons')
  qed (use Cons.prems in auto)
qed simp

lemma find_idx_None: "find_idx P xs i = None \<longleftrightarrow> (\<forall>x \<in> set xs. \<not> P x)"
  by (induction xs arbitrary: i) auto

lemma find_idx_I:
  assumes "k < length xs" "P (xs ! k)" "\<And>j. j < k \<Longrightarrow> \<not> P (xs ! j)"
  shows "find_idx P xs 0 = Some k"
proof (cases "find_idx P xs 0")
  case None
  then show ?thesis using assms(1,2) by (auto simp: find_idx_None)
next
  case (Some j)
  from find_idx_Some [OF this] have "P (xs ! j)" "\<forall>i < j. \<not> P (xs ! i)" by auto
  then have "j = k" using assms(2,3) by (metis linorder_neqE_nat)
  then show ?thesis using Some by simp
qed

lemma oldest_bound: "c < i + length es \<Longrightarrow> oldest now es i t c < i + length es"
proof (induction es arbitrary: i t c)
  case (Cons e es)
  show ?case using Cons.IH [of i "Suc i" "now - ae_time e"] Cons.IH [of c "Suc i" t] Cons.prems by auto
qed simp

definition whole_addr :: "ip4 \<Rightarrow> bool" where
  "whole_addr a \<longleftrightarrow> fst a \<noteq> 0 \<and> snd a \<noteq> 0"

text \<open>An address with a zero half is never recognised by \<^verbatim>\<open>uip_arp_update\<close>; for any other one the
  stored entry is the one a lookup finds.\<close>

lemma lookup_update:
  assumes "length (arp_table a) = 8" "whole_addr addr"
  obtains i where "arp_lookup addr (uip_arp_update addr eth a) = Some i" "i < 8"
    "ae_ethaddr (arp_table (uip_arp_update addr eth a) ! i) = eth"
    "\<And>j. j < 8 \<Longrightarrow> j \<noteq> i \<Longrightarrow> arp_table (uip_arp_update addr eth a) ! j = arp_table a ! j"
proof -
  let ?m = "\<lambda>e. fst (ae_ipaddr e) \<noteq> 0 \<and> snd (ae_ipaddr e) \<noteq> 0 \<and>
               fst addr = fst (ae_ipaddr e) \<and> snd addr = snd (ae_ipaddr e)"
  have m: "?m e \<longleftrightarrow> ae_ipaddr e = addr" for e using assms(2) by (auto simp: whole_addr_def prod_eq_iff)
  have c: "uip_ipaddr_cmp addr x \<longleftrightarrow> x = addr" for x by (auto simp: uip_ipaddr_cmp_def prod_eq_iff)
  show ?thesis
  proof (cases "find_idx ?m (arp_table a) 0")
    case (Some i)
    with find_idx_Some [OF Some] assms(1) show ?thesis unfolding m
      by (intro that [of i])
        (auto simp: arp_lookup_def uip_arp_update_def m c nth_list_update intro!: find_idx_I)
  next
    case None
    define i where "i = (case find_idx (\<lambda>e. fst (ae_ipaddr e) = 0 \<and> snd (ae_ipaddr e) = 0) (arp_table a) 0 of
                 Some i \<Rightarrow> i | None \<Rightarrow> oldest (arptime a) (arp_table a) 0 0 0)"
    have i: "i < 8" using find_idx_Some [of _ "arp_table a" 0] oldest_bound [of 0 0 "arp_table a"] assms(1)
      by (auto simp: i_def split: option.splits)
    have u: "arp_table (uip_arp_update addr eth a) =
        (arp_table a)[i := \<lparr>ae_ipaddr = addr, ae_ethaddr = eth, ae_time = arptime a\<rparr>]"
      using None by (simp add: uip_arp_update_def i_def Let_def)
    have "ae_ipaddr (arp_table a ! j) \<noteq> addr" if "j < 8" for j
      using None that assms(1) unfolding find_idx_None m by (auto simp: all_set_conv_all_nth)
    then show ?thesis using i assms(1)
      by (intro that [of i]) (auto simp: arp_lookup_def u c intro!: find_idx_I)
  qed
qed

subsection \<open>Fields of the frame\<close>

lemma rd8_put [simp]:
  "rd8 i (aput_eth f bs s) = (if arp_off f \<le> i \<and> i < arp_off f + 6 then bs ! (i - arp_off f) else rd8 i s)"
  if "length bs = 6" "arp_off f + 6 \<le> length (uip_buf s)"
  using that by (auto simp: rd8_def aput_eth_def nth_append)

lemma aput_eth_length [simp]:
  "length bs = 6 \<Longrightarrow> arp_off f + 6 \<le> length (uip_buf s) \<Longrightarrow> length (uip_buf (aput_eth f bs s)) = length (uip_buf s)"
  by (simp add: aput_eth_def)

lemma eth_bytes: "arp_off f + 6 \<le> length (uip_buf s) \<Longrightarrow>
    aget_eth f s = map (\<lambda>i. rd8 (arp_off f + i) s) [0, 1, 2, 3, 4, 5]"
  by (rule nth_equalityI) (auto simp: aget_eth_def rd8_def less_Suc_eq numeral_nat)

lemma eth_length: "arp_off f + 6 \<le> length (uip_buf s) \<Longrightarrow> length (aget_eth f s) = 6"
  by (simp add: aget_eth_def)

lemma arp_off_bound [simp]: "arp_off f + 4 \<le> 42" "arp_off f + 6 \<le> 44"
  by (cases f; simp)+

subsection \<open>Aging\<close>

definition expires :: "u8 \<Rightarrow> arp_entry \<Rightarrow> bool" where
  "expires now e \<longleftrightarrow> fst (ae_ipaddr e) OR snd (ae_ipaddr e) \<noteq> 0 \<and> arp_age now e \<ge> UIP_ARP_MAXAGE"

lemma arp_timer_sel:
  "arptime (uip_arp_timer a) = arptime a + 1"
  "length (arp_table (uip_arp_timer a)) = length (arp_table a)"
  "i < length (arp_table a) \<Longrightarrow> arp_table (uip_arp_timer a) ! i =
     (let e = arp_table a ! i in if expires (arptime a + 1) e then e\<lparr>ae_ipaddr := (0, 0)\<rparr> else e)"
  by (simp_all add: uip_arp_timer_def Let_def expires_def)

lemma arp_timers_sel:
  "arptime ((uip_arp_timer ^^ n) a) = arptime a + of_nat n"
  "length (arp_table ((uip_arp_timer ^^ n) a)) = length (arp_table a)"
  by (induction n) (simp_all add: arp_timer_sel)

lemma expires_later:
  assumes "whole_addr (ae_ipaddr e)" "ae_time e = t"
  shows "expires (t + of_nat k) e \<longleftrightarrow> 120 + unat t \<le> (unat t + k) mod 256"
proof -
  have "fst (ae_ipaddr e) OR snd (ae_ipaddr e) \<noteq> 0"
    using assms(1) by (auto simp: whole_addr_def bit_eq_iff bit_simps)
  moreover have "arp_age (t + of_nat k) e = int ((unat t + k) mod 256) - int (unat t)"
    by (simp only: arp_age_def assms(2) uint_nat unat_word_ariths unat_of_nat) (simp add: mod_simps)
  ultimately show ?thesis unfolding expires_def by linarith
qed

text \<open>An entry that was stored at the time \<open>arptime\<close> lives for 120 timer events when that time
  is at most 135 and is cleared by the 120th; an entry stored at a later time is never cleared,
  because the difference of the times is negative once \<^verbatim>\<open>arptime\<close> has wrapped around.\<close>

theorem arp_entry_lifetime:
  assumes "i < length (arp_table a)" "ae_time (arp_table a ! i) = arptime a" "whole_addr (ae_ipaddr (arp_table a ! i))"
  shows "arp_table ((uip_arp_timer ^^ n) a) ! i =
    (if unat (arptime a) \<le> 135 \<and> 120 \<le> n then (arp_table a ! i)\<lparr>ae_ipaddr := (0, 0)\<rparr> else arp_table a ! i)"
proof (induction n)
  case (Suc n)
  let ?e = "arp_table a ! i" and ?t = "unat (arptime a)"
  have t: "?t < 256" by (rule unat_u8_bound)
  have "expires (arptime a + of_nat n + 1) ?e \<longleftrightarrow> 120 + ?t \<le> (?t + Suc n) mod 256"
    using expires_later [OF assms(3,2), of "Suc n"] by (simp add: ac_simps)
  moreover have "(?t + Suc n) mod 256 = ?t + Suc n" if "?t \<le> 135" "n < 120" using that by simp
  moreover have "\<not> 120 + ?t \<le> m mod 256" if "135 < ?t" for m
    using that mod_less_divisor [of 256 m] by linarith
  moreover have "\<not> expires x (?e\<lparr>ae_ipaddr := (0, 0)\<rparr>)" for x by (simp add: expires_def)
  ultimately show ?case
    using assms(1) Suc.IH by (auto simp: arp_timer_sel arp_timers_sel Let_def not_le)
qed simp


lemma aput_sel [simp]:
  "uip_len (aput_eth f bs s) = uip_len s" "uip_hostaddr (aput_eth f bs s) = uip_hostaddr s"
  "uip_ethaddr (aput_eth f bs s) = uip_ethaddr s"
  "uip_len (aput16 f v s) = uip_len s" "uip_hostaddr (aput16 f v s) = uip_hostaddr s"
  "uip_ethaddr (aput16 f v s) = uip_ethaddr s"
  "uip_len (aput_ip f b s) = uip_len s" "uip_hostaddr (aput_ip f b s) = uip_hostaddr s"
  "uip_ethaddr (aput_ip f b s) = uip_ethaddr s"
  "length (uip_buf (aput16 f v s)) = length (uip_buf s)"
  "length (uip_buf (aput_ip f b s)) = length (uip_buf s)"
  by (simp_all add: aput_eth_def aput16_def aput_ip_def wr16_def wr8_def)

lemma rd8_aput [simp]:
  "arp_off f + 2 \<le> length (uip_buf s) \<Longrightarrow> rd8 i (aput16 f v s) =
     (if i = arp_off f then lo8 v else if i = arp_off f + 1 then hi8 v else rd8 i s)"
  "arp_off f + 4 \<le> length (uip_buf s) \<Longrightarrow> rd8 i (aput_ip f b s) =
     (if i = arp_off f then lo8 (fst b) else if i = arp_off f + 1 then hi8 (fst b) else
      if i = arp_off f + 2 then lo8 (snd b) else if i = arp_off f + 3 then hi8 (snd b) else rd8 i s)"
  by (auto simp: rd8_def aput16_def aput_ip_def wr16_def wr8_def nth_list_update)

lemma rd8_len [simp]: "rd8 i (s\<lparr>uip_len := n\<rparr>) = rd8 i s"
  by (simp add: rd8_def)

lemmas aget_bytes = aget16_def aget_ip_def rd16_def

lemma aget_len [simp]: "aget16 f (s\<lparr>uip_len := n\<rparr>) = aget16 f s" "aget_ip f (s\<lparr>uip_len := n\<rparr>) = aget_ip f s"
  "aget_eth f (s\<lparr>uip_len := n\<rparr>) = aget_eth f s"
  by (simp_all add: aget_bytes aget_eth_def)

text \<open>Reading a field back, and reading behind a write to another field.\<close>

lemma aget_same [simp]:
  "length bs = 6 \<Longrightarrow> arp_off f + 6 \<le> length (uip_buf s) \<Longrightarrow> aget_eth f (aput_eth f bs s) = bs"
  "arp_off f + 2 \<le> length (uip_buf s) \<Longrightarrow> aget16 f (aput16 f v s) = v"
  "arp_off f + 4 \<le> length (uip_buf s) \<Longrightarrow> aget_ip f (aput_ip f b s) = b"
  by (simp add: aget_eth_def aput_eth_def, simp_all add: aget_bytes)

lemma aget_eth_cong:
  "(\<And>i. arp_off f \<le> i \<Longrightarrow> i < arp_off f + 6 \<Longrightarrow> rd8 i s' = rd8 i s) \<Longrightarrow>
   arp_off f + 6 \<le> length (uip_buf s) \<Longrightarrow> length (uip_buf s') = length (uip_buf s) \<Longrightarrow>
   aget_eth f s' = aget_eth f s"
  by (simp add: eth_bytes)

lemma aget_eth_other [simp]:
  assumes "arp_off f + 6 \<le> length (uip_buf s)"
  shows "length bs = 6 \<Longrightarrow> arp_off g + 6 \<le> length (uip_buf s) \<Longrightarrow>
      arp_off f + 6 \<le> arp_off g \<or> arp_off g + 6 \<le> arp_off f \<Longrightarrow> aget_eth f (aput_eth g bs s) = aget_eth f s"
    "arp_off g + 2 \<le> length (uip_buf s) \<Longrightarrow>
      arp_off f + 6 \<le> arp_off g \<or> arp_off g + 2 \<le> arp_off f \<Longrightarrow> aget_eth f (aput16 g v s) = aget_eth f s"
    "arp_off g + 4 \<le> length (uip_buf s) \<Longrightarrow>
      arp_off f + 6 \<le> arp_off g \<or> arp_off g + 4 \<le> arp_off f \<Longrightarrow> aget_eth f (aput_ip g b s) = aget_eth f s"
  using assms by (auto intro!: aget_eth_cong)

lemma aget16_other [simp]:
  "length bs = 6 \<Longrightarrow> arp_off g + 6 \<le> length (uip_buf s) \<Longrightarrow>
      arp_off f + 2 \<le> arp_off g \<or> arp_off g + 6 \<le> arp_off f \<Longrightarrow> aget16 f (aput_eth g bs s) = aget16 f s"
  "arp_off g + 2 \<le> length (uip_buf s) \<Longrightarrow>
      arp_off f + 2 \<le> arp_off g \<or> arp_off g + 2 \<le> arp_off f \<Longrightarrow> aget16 f (aput16 g v s) = aget16 f s"
  "arp_off g + 4 \<le> length (uip_buf s) \<Longrightarrow>
      arp_off f + 2 \<le> arp_off g \<or> arp_off g + 4 \<le> arp_off f \<Longrightarrow> aget16 f (aput_ip g b s) = aget16 f s"
  by (auto simp: aget_bytes)

lemma aget_ip_other [simp]:
  "length bs = 6 \<Longrightarrow> arp_off g + 6 \<le> length (uip_buf s) \<Longrightarrow>
      arp_off f + 4 \<le> arp_off g \<or> arp_off g + 6 \<le> arp_off f \<Longrightarrow> aget_ip f (aput_eth g bs s) = aget_ip f s"
  "arp_off g + 2 \<le> length (uip_buf s) \<Longrightarrow>
      arp_off f + 4 \<le> arp_off g \<or> arp_off g + 2 \<le> arp_off f \<Longrightarrow> aget_ip f (aput16 g v s) = aget_ip f s"
  "arp_off g + 4 \<le> length (uip_buf s) \<Longrightarrow>
      arp_off f + 4 \<le> arp_off g \<or> arp_off g + 4 \<le> arp_off f \<Longrightarrow> aget_ip f (aput_ip g b s) = aget_ip f s"
  by (auto simp: aget_bytes)

subsection \<open>Requests are answered and senders remembered\<close>

lemma arp_answer:
  assumes "length (uip_buf s) = 422" "length (uip_ethaddr s) = 6" "42 \<le> unat (uip_len s)"
    "aget16 A_opcode s = HTONS ARP_REQUEST" "aget_ip A_dipaddr s = uip_hostaddr s"
    "uip_arp_arpin a s = (a', s')"
  shows "uip_len s' = 42" "aget16 A_opcode s' = HTONS ARP_REPLY" "aget16 E_type s' = HTONS UIP_ETHTYPE_ARP"
    "aget_ip A_sipaddr s' = uip_hostaddr s" "aget_ip A_dipaddr s' = aget_ip A_sipaddr s"
    "aget_eth A_shwaddr s' = uip_ethaddr s" "aget_eth E_src s' = uip_ethaddr s"
    "aget_eth A_dhwaddr s' = aget_eth A_shwaddr s" "aget_eth E_dest s' = aget_eth A_shwaddr s"
    "a' = uip_arp_update (aget_ip A_sipaddr s) (aget_eth A_shwaddr s) a"
  using assms by (auto simp: uip_arp_arpin_def Let_def uip_ipaddr_cmp_def eth_length)

lemma eth_finish_sel [simp]:
  assumes "length (uip_buf s) = 422" "length (uip_ethaddr s) = 6"
  shows "aget_eth E_dest (eth_finish s) = aget_eth E_dest s" "aget16 E_type (eth_finish s) = HTONS UIP_ETHTYPE_IP"
    "aget_eth E_src (eth_finish s) = uip_ethaddr s" "uip_len (eth_finish s) = uip_len s + 14"
  using assms by (simp_all add: eth_finish_def Let_def)

lemma arp_out_known:
  assumes "length (uip_buf t) = 422" "length (uip_ethaddr t) = 6"
    "get_ip H_destipaddr t \<noteq> (0xffff, 0xffff)" "arp_lookup (arp_next_hop t) a = Some i"
    "length (ae_ethaddr (arp_table a ! i)) = 6"
  shows "aget_eth E_dest (uip_arp_out a t) = ae_ethaddr (arp_table a ! i)"
    "aget_eth E_src (uip_arp_out a t) = uip_ethaddr t"
    "aget16 E_type (uip_arp_out a t) = HTONS UIP_ETHTYPE_IP" "uip_len (uip_arp_out a t) = uip_len t + 14"
  using assms by (auto simp: uip_arp_out_def uip_ipaddr_cmp_def prod_eq_iff)


end
