(* ===== verification/UipNeighbor.thy ===== *)
theory UipNeighbor
  imports UipState
begin

text \<open>
  The small supporting modules of uIP: the neighbour table (\<^verbatim>\<open>uip-neighbor.c\<close>), the timers
  (\<^verbatim>\<open>timer.c\<close>), the block allocator (\<^verbatim>\<open>lib/memb.c\<close>) and the parser of dotted addresses
  (\<^verbatim>\<open>uiplib.c\<close>).
\<close>

subsection \<open>The neighbour table\<close>

text \<open>An address is a list of bytes in memory order; \<^verbatim>\<open>uip_ipaddr_cmp\<close> compares the first
  four bytes behind two pointers, whatever they point to.\<close>

record neighbor_entry =
  n_ipaddr :: "u8 list"
  n_addr :: "u8 list"
  n_time :: u8

abbreviation (input) "MAX_TIME \<equiv> (128 :: u8)"
abbreviation (input) "ENTRIES \<equiv> (8 :: nat)"

definition same_addr :: "u8 list \<Rightarrow> u8 list \<Rightarrow> bool" where
  "same_addr p q \<longleftrightarrow> take 4 p = take 4 q"

definition uip_neighbor_init :: "neighbor_entry list \<Rightarrow> neighbor_entry list" where
  "uip_neighbor_init es = map (\<lambda>e. e\<lparr>n_time := MAX_TIME\<rparr>) es"

definition uip_neighbor_periodic :: "neighbor_entry list \<Rightarrow> neighbor_entry list" where
  "uip_neighbor_periodic es =
     map (\<lambda>e. if n_time e < MAX_TIME then e\<lparr>n_time := n_time e + 1\<rparr> else e) es"

text \<open>The entry to use. The source compares the stored addresses with \<^verbatim>\<open>addr\<close>, the link
  address, and not with \<^verbatim>\<open>ipaddr\<close>.\<close>

fun neighbor_slot :: "u8 list \<Rightarrow> neighbor_entry list \<Rightarrow> nat \<Rightarrow> u8 \<Rightarrow> nat \<Rightarrow> nat" where
  "neighbor_slot addr [] i oldest_time oldest = oldest"
| "neighbor_slot addr (e # es) i oldest_time oldest =
     (if n_time e = MAX_TIME then i
      else if same_addr (n_ipaddr e) addr then i
      else if n_time e > oldest_time then neighbor_slot addr es (i + 1) (n_time e) i
      else neighbor_slot addr es (i + 1) oldest_time oldest)"

definition uip_neighbor_add ::
    "u8 list \<Rightarrow> u8 list \<Rightarrow> neighbor_entry list \<Rightarrow> neighbor_entry list" where
  "uip_neighbor_add ipaddr addr es =
     es[neighbor_slot addr es 0 0 0 := \<lparr>n_ipaddr = ipaddr, n_addr = addr, n_time = 0\<rparr>]"

fun find_entry :: "u8 list \<Rightarrow> neighbor_entry list \<Rightarrow> nat \<Rightarrow> nat option" where
  "find_entry ipaddr [] i = None"
| "find_entry ipaddr (e # es) i =
     (if same_addr (n_ipaddr e) ipaddr then Some i else find_entry ipaddr es (i + 1))"

definition uip_neighbor_update :: "u8 list \<Rightarrow> neighbor_entry list \<Rightarrow> neighbor_entry list" where
  "uip_neighbor_update ipaddr es = (case find_entry ipaddr es 0 of
     None \<Rightarrow> es | Some i \<Rightarrow> es[i := (es ! i)\<lparr>n_time := 0\<rparr>])"

definition uip_neighbor_lookup :: "u8 list \<Rightarrow> neighbor_entry list \<Rightarrow> u8 list option" where
  "uip_neighbor_lookup ipaddr es =
     (case find_entry ipaddr es 0 of None \<Rightarrow> None | Some i \<Rightarrow> Some (n_addr (es ! i)))"

subsection \<open>Timers\<close>

text \<open>\<^verbatim>\<open>clock_time_t\<close> is a 32-bit \<^verbatim>\<open>int\<close>; \<open>now\<close> is the value of \<^verbatim>\<open>clock_time()\<close>.
  The signed differences wrap around, as the compiler's two's complement arithmetic does.\<close>

record uip_timer =
  t_start :: "32 word"
  t_interval :: "32 word"

definition timer_set :: "32 word \<Rightarrow> 32 word \<Rightarrow> uip_timer" where
  "timer_set now interval = \<lparr>t_start = now, t_interval = interval\<rparr>"

definition timer_reset :: "uip_timer \<Rightarrow> uip_timer" where
  "timer_reset t = t\<lparr>t_start := t_start t + t_interval t\<rparr>"

definition timer_restart :: "32 word \<Rightarrow> uip_timer \<Rightarrow> uip_timer" where
  "timer_restart now t = t\<lparr>t_start := now\<rparr>"

definition timer_expired :: "32 word \<Rightarrow> uip_timer \<Rightarrow> bool" where
  "timer_expired now t \<longleftrightarrow> sint (now - t_start t) \<ge> sint (t_interval t)"

subsection \<open>Block allocation\<close>

text \<open>\<^verbatim>\<open>struct memb_blocks\<close>: the reference counts (\<^verbatim>\<open>char\<close>, one per block), the block size
  and the memory, whose bytes are addressed from 0.\<close>

record memb_blocks =
  mb_size :: nat
  mb_count :: "u8 list"
  mb_mem :: "u8 list"

definition memb_init :: "memb_blocks \<Rightarrow> memb_blocks" where
  "memb_init m = m\<lparr>mb_count := map (\<lambda>_. 0) (mb_count m), mb_mem := map (\<lambda>_. 0) (mb_mem m)\<rparr>"

fun first_free :: "u8 list \<Rightarrow> nat \<Rightarrow> nat option" where
  "first_free [] i = None"
| "first_free (c # cs) i = (if c = 0 then Some i else first_free cs (i + 1))"

text \<open>\<^verbatim>\<open>memb_alloc\<close> returns the address of the block in the memory, or NULL.\<close>

definition memb_alloc :: "memb_blocks \<Rightarrow> memb_blocks \<times> nat option" where
  "memb_alloc m = (case first_free (mb_count m) 0 of
     None \<Rightarrow> (m, None)
   | Some i \<Rightarrow> (m\<lparr>mb_count := (mb_count m)[i := mb_count m ! i + 1]\<rparr>, Some (i * mb_size m)))"

text \<open>\<^verbatim>\<open>memb_free\<close>: the walk over the blocks, \<^verbatim>\<open>ptr2\<close> being the address of block \<open>i\<close>. The
  counts are \<^verbatim>\<open>char\<close>, so \<^verbatim>\<open>count[i] > 0\<close> is a signed test.\<close>

fun memb_find :: "nat \<Rightarrow> nat \<Rightarrow> nat \<Rightarrow> nat \<Rightarrow> nat \<Rightarrow> nat option" where
  "memb_find sz 0 i ptr2 ptr = None"
| "memb_find sz (Suc k) i ptr2 ptr =
     (if ptr2 = ptr then Some i else memb_find sz k (i + 1) (ptr2 + sz) ptr)"

definition memb_free :: "nat \<Rightarrow> memb_blocks \<Rightarrow> memb_blocks \<times> u8" where
  "memb_free ptr m = (case memb_find (mb_size m) (length (mb_count m)) 0 0 ptr of
     None \<Rightarrow> (m, - 1)
   | Some i \<Rightarrow> (let
       m = (if sint (mb_count m ! i) > 0
            then m\<lparr>mb_count := (mb_count m)[i := mb_count m ! i - 1]\<rparr> else m)
     in (m, mb_count m ! i)))"

subsection \<open>Dotted addresses\<close>

text \<open>\<^verbatim>\<open>uiplib_ipaddrconv\<close>. The inner loop reads one number: \<open>j\<close> counts its characters,
  \<open>tmp\<close> is its value in 8 bits. The string is its list of characters without the terminating
  zero; a read behind that zero is a fault.\<close>

fun conv_num :: "nat \<Rightarrow> u8 \<Rightarrow> u8 list \<Rightarrow> (u8 \<times> u8 list) option option" where
  "conv_num j tmp [] = None"
| "conv_num j tmp (c # cs) =
     (let j = j + 1 in
      if j > 4 then Some None
      else if c = 0x2e \<or> c = 0 then Some (Some (tmp, cs))
      else if 0x30 \<le> c \<and> c \<le> 0x39 then conv_num j (tmp * 10 + (c - 0x30)) cs
      else Some None)"

text \<open>The outer loop over the four numbers; the result is the return value and the bytes that were
  stored through \<^verbatim>\<open>ipaddr\<close>.\<close>

fun conv_loop :: "nat \<Rightarrow> u8 list \<Rightarrow> u8 list \<Rightarrow> (bool \<times> u8 list) option" where
  "conv_loop 0 cs out = Some (True, out)"
| "conv_loop (Suc n) cs out = (case conv_num 0 0 cs of
     None \<Rightarrow> None
   | Some None \<Rightarrow> Some (False, out)
   | Some (Some (tmp, cs)) \<Rightarrow> conv_loop n cs (out @ [tmp]))"

definition uiplib_ipaddrconv :: "u8 list \<Rightarrow> (bool \<times> u8 list) option" where
  "uiplib_ipaddrconv addrstr = conv_loop 4 (addrstr @ [0]) []"

subsection \<open>Lookups in the neighbour table\<close>

text \<open>The search keeps its candidate only when no entry is older.\<close>

lemma neighbor_slot_moves:
  "c < i \<Longrightarrow> i \<le> neighbor_slot addr es i t c \<or>
     neighbor_slot addr es i t c = c \<and> (\<forall>e \<in> set es. n_time e \<le> t)"
proof (induction es arbitrary: i t c)
  case (Cons e es)
  show ?case
    using Cons.IH [of i "Suc i" "n_time e"] Cons.IH [of c "Suc i" t] Cons.prems by auto
qed simp

text \<open>The neighbour table compares the link address with the stored IP addresses: when the first
  entry is for an address whose link address has changed, and another entry is older, adding the new
  link address fills another entry, and the lookup goes on returning the old one.\<close>

theorem neighbor_add_keeps_stale:
  assumes "same_addr (n_ipaddr e) ipaddr" "\<not> same_addr (n_ipaddr e) addr" "n_time e \<noteq> MAX_TIME"
    "\<exists>e' \<in> set es. n_time e < n_time e'"
  shows "uip_neighbor_lookup ipaddr (uip_neighbor_add ipaddr addr (e # es)) = Some (n_addr e)"
proof -
  have "1 \<le> neighbor_slot addr (e # es) 0 0 0"
    using neighbor_slot_moves [of 0 1 addr es "n_time e"] neighbor_slot_moves [of 0 1 addr es 0] assms(2-4)
    by (auto simp: not_less)
  then show ?thesis
    using assms(1) by (cases "neighbor_slot addr (e # es) 0 0 0") (auto simp: uip_neighbor_add_def uip_neighbor_lookup_def)
qed

subsection \<open>Blocks\<close>

lemma first_free_Some:
  "first_free cs i = Some k \<Longrightarrow> i \<le> k \<and> k < i + length cs \<and> cs ! (k - i) = 0 \<and> (\<forall>j < k - i. cs ! j \<noteq> 0)"
proof (induction cs arbitrary: i)
  case (Cons c cs)
  show ?case
  proof (cases "c = 0")
    case False
    then have f: "first_free cs (Suc i) = Some k" using Cons.prems by simp
    note IH = Cons.IH [OF f]
    have "(c # cs) ! j \<noteq> 0" if "j < k - i" for j using that IH False by (cases j) auto
    then show ?thesis using IH by (auto simp: nth_Cons')
  qed (use Cons.prems in auto)
qed simp

lemma first_free_None: "first_free cs i = None \<longleftrightarrow> 0 \<notin> set cs"
  by (induction cs arbitrary: i) auto

lemma memb_find_block:
  "0 < sz \<Longrightarrow> k < n \<Longrightarrow> memb_find sz n i (i * sz) ((i + k) * sz) = Some (i + k)"
proof (induction n arbitrary: i k)
  case (Suc n)
  show ?case
  proof (cases k)
    case (Suc j)
    have "memb_find sz n (Suc i) (Suc i * sz) ((Suc i + j) * sz) = Some (Suc i + j)"
      by (rule Suc.IH) (use Suc Suc.prems in auto)
    moreover have "i * sz \<noteq> (i + k) * sz" using Suc Suc.prems by (metis add_cancel_right_right mult_cancel2 nat.distinct(1) less_nat_zero_code)
    moreover have "i * sz + sz = Suc i * sz" by simp
    ultimately show ?thesis using Suc by (simp del: mult_Suc)
  qed simp
qed simp

text \<open>\<^verbatim>\<open>memb_alloc\<close> hands out a block that was free and lies in the pool, and NULL only when every
  block is taken; \<^verbatim>\<open>memb_free\<close> of that block answers 0 and restores the pool.\<close>

theorem memb_alloc_free:
  assumes "0 < mb_size m" "memb_alloc m = (m', r)"
  shows "case r of None \<Rightarrow> m' = m \<and> 0 \<notin> set (mb_count m)
    | Some p \<Rightarrow> (\<exists>i < length (mb_count m). p = i * mb_size m \<and> mb_count m ! i = 0 \<and>
        m' = m\<lparr>mb_count := (mb_count m)[i := 1]\<rparr>) \<and> memb_free p m' = (m, 0)"
proof (cases "first_free (mb_count m) 0")
  case None
  then have "0 \<notin> set (mb_count m)" by (simp add: first_free_None)
  with None show ?thesis using assms(2) by (auto simp: memb_alloc_def)
next
  case (Some i)
  from first_free_Some [OF this] have i: "i < length (mb_count m)" "mb_count m ! i = 0" by auto
  have "memb_find (mb_size m) (length (mb_count m)) 0 0 (i * mb_size m) = Some i"
    using memb_find_block [OF assms(1) i(1), of 0] by simp
  moreover have "r = Some (i * mb_size m)" "m' = m\<lparr>mb_count := (mb_count m)[i := 1]\<rparr>"
    using assms(2) Some i by (auto simp: memb_alloc_def)
  moreover have "(mb_count m)[i := 0] = mb_count m" using i by (metis list_update_id)
  ultimately show ?thesis using i by (auto simp: memb_free_def Let_def)
qed

subsection \<open>Dotted addresses are read back\<close>

definition decimal :: "u8 \<Rightarrow> u8 list" where
  "decimal n = (if n < 10 then [0x30 + n]
     else if n < 100 then [0x30 + n div 10, 0x30 + n mod 10]
     else [0x30 + n div 100, 0x30 + n div 10 mod 10, 0x30 + n mod 10])"

lemma conv_digit: "d \<le> 9 \<Longrightarrow> j < 4 \<Longrightarrow> conv_num j t ((0x30 + d) # cs) = conv_num (Suc j) (t * 10 + d) cs"
proof -
  assume d: "d \<le> 9" and j: "j < 4"
  have "list_all (\<lambda>k. let c = 0x30 + word_of_nat k :: u8 in
      c \<noteq> 0x2e \<and> c \<noteq> 0 \<and> 0x30 \<le> c \<and> c \<le> 0x39) [0 ..< 10]" by code_simp
  moreover have "unat d < 10" using d by (simp add: word_le_nat_alt)
  ultimately have "0x30 + d \<noteq> 0x2e" "0x30 + d \<noteq> 0" "0x30 \<le> 0x30 + d" "0x30 + d \<le> 0x39"
    by (auto simp: list_all_iff Let_def dest!: bspec [of _ _ "unat d"])
  then show ?thesis using j by (simp add: Let_def)
qed

lemma conv_sep: "sep = 0x2e \<or> sep = 0 \<Longrightarrow> j < 4 \<Longrightarrow> conv_num j t (sep # cs) = Some (Some (t, cs))"
  by auto

lemma conv_num_decimal [simp]:
  assumes "sep = 0x2e \<or> sep = 0"
  shows "conv_num 0 0 (decimal n @ sep # rest) = Some (Some (n, rest))"
proof -
  have d: "unat (n div 100) = unat n div 10 div 10" "unat (n div 10) = unat n div 10" "unat (n mod 10) = unat n mod 10"
      "unat (n div 10 mod 10) = unat n div 10 mod 10"
    by (simp_all add: unat_div unat_mod div_mult2_eq [symmetric])
  have le: "n div 100 \<le> 9" "n mod 10 \<le> 9" "n div 10 mod 10 \<le> 9"
  proof -
    have "unat n div 10 div 10 \<le> 9" using unat_u8_bound [of n] by linarith
    then show "n div 100 \<le> 9" "n mod 10 \<le> 9" "n div 10 mod 10 \<le> 9" by (simp_all add: word_le_nat_alt d)
  qed
  have q: "n div 10 * 10 + n mod 10 = n" "n div 100 * 10 + n div 10 mod 10 = n div 10"
  proof -
    show "n div 10 * 10 + n mod 10 = n" by (rule div_mult_mod_eq)
    have "n div 100 = n div 10 div 10" by (rule unsigned_word_eqI [where 'a = nat]) (simp add: d unat_div)
    then show "n div 100 * 10 + n div 10 mod 10 = n div 10" by (simp only: div_mult_mod_eq)
  qed
  consider "n < 10" | "\<not> n < 10" "n < 100" | "\<not> n < 10" "\<not> n < 100" by blast
  then show ?thesis
  proof cases
    case 1
    then have "n \<le> 9" by (simp add: word_less_nat_alt word_le_nat_alt)
    then show ?thesis using 1 assms by (auto simp: decimal_def conv_digit conv_sep simp del: conv_num.simps)
  next
    case 2
    then have "n div 10 \<le> 9" by (simp add: word_less_nat_alt word_le_nat_alt d)
    then show ?thesis using 2 assms le q(1) by (auto simp: decimal_def conv_digit conv_sep simp del: conv_num.simps)
  next
    case 3
    then show ?thesis using assms le q by (auto simp: decimal_def conv_digit conv_sep simp del: conv_num.simps)
  qed
qed

text \<open>A dotted address in decimal is read back as its four bytes.\<close>

theorem ipaddrconv_roundtrip:
  "uiplib_ipaddrconv (decimal a @ 0x2e # decimal b @ 0x2e # decimal c @ 0x2e # decimal d) =
    Some (True, [a, b, c, d])"
  by (simp add: uiplib_ipaddrconv_def numeral_eq_Suc)

end
