(* ===== verification/UipSamples.thy ===== *)
theory UipSamples
  imports UipReliable UipOpen UipArp UipNeighbor
begin

text \<open>
  The theorems on the network stack at work, on small concrete frames, connections and tables.
\<close>

subsection \<open>A state of the stack\<close>

definition closed_conn :: "unit conn" where
  "closed_conn = \<lparr>ripaddr = (0, 0), lport = 0, rport = 0, rcv_nxt = (0, 0, 0, 0), snd_nxt = (0, 0, 0, 0),
     outlen = 0, mss = 0, initialmss = 0, sa = 0, sv = 0, rto = 0, tcpstateflags = UIP_CLOSED,
     rtimer = 0, nrtx = 0, appstate = ()\<rparr>"

definition bss_uip :: "unit uip" where
  "bss_uip = \<lparr>uip_buf = replicate 422 0, uip_len = 0, uip_slen = 0, uip_flags = 0, uip_appdata = 0,
     uip_sappdata = 0, uip_conn = None, uip_conns = replicate 40 closed_conn,
     uip_listenports = replicate 40 0, uip_udp_conn = None,
     uip_udp_conns = replicate 10 \<lparr>u_ripaddr = (0, 0), u_lport = 0, u_rport = 0, u_ttl = 0\<rparr>,
     uip_hostaddr = (0, 0), uip_draddr = (0, 0), uip_netmask = (0, 0), uip_ethaddr = replicate 6 2,
     ipid = 0, iss = (0, 0, 0, 0), lastport = 1024, uip_stat = (\<lambda>_. 0), reassbuf = replicate 406 0,
     reassbitmap = replicate 6 0, reasslen = 0, reassflags = 0, reasstmr = 0\<rparr>"

text \<open>A frame with the given bytes.\<close>

definition with_bytes :: "(nat \<times> u8) list \<Rightarrow> 'a uip \<Rightarrow> 'a uip" where
  "with_bytes ps s = fold (\<lambda>(i, v). wr8 i v) ps s"

lemma wr8_inv [simp]: "uip_inv (wr8 i v s) = uip_inv s"
  by (simp add: wr8_def uip_inv_def uip_wf_def)

lemma with_bytes_inv [simp]: "uip_inv (with_bytes ps s) = uip_inv s"
  unfolding with_bytes_def by (induction ps arbitrary: s) (simp_all add: split_beta)

lemma bss_inv [simp]: "uip_inv bss_uip"
  by (simp add: uip_inv_def uip_wf_def bss_uip_def conn_ok_def closed_conn_def list_all_iff)

lemma app_idle [simp]: "app_ok Some"
  by (simp add: app_ok_def)


definition syn_frame :: "unit uip" where
  "syn_frame = with_bytes [(14, 0x45), (17, 40), (23, 6), (46, 0x50), (47, 2)] bss_uip"

definition short_frame :: "unit uip" where
  "short_frame = with_bytes [(14, 0x45), (22, 64), (23, 6), (24, 0x7A), (25, 0xF9)] (bss_uip\<lparr>uip_len := 60\<rparr>)"

definition loop_frame :: "unit uip" where
  "loop_frame = with_bytes [(46, 0x60), (54, 1), (55, 3), (56, 255)] bss_uip"


theorem short_packet_overread_witness: "uip_input fos_build Some Some short_frame = None"
proof (rule short_packet_overread)
  show "length (uip_buf short_frame) = 422" by code_simp
  show "get8 H_vhl 0 short_frame = 0x45" by code_simp
  show "get_be H_len short_frame \<le> uip_len short_frame" by code_simp
  show "get8 H_ipoffset 0 short_frame AND 0x3f = 0" by code_simp
  show "get8 H_ipoffset 1 short_frame = 0" by code_simp
  show "uip_ipaddr_cmp (get_ip H_destipaddr short_frame) (uip_hostaddr short_frame)" by code_simp
  show "uip_ipchksum short_frame = Some 0xffff" by code_simp
  show "get8 H_proto 0 short_frame = 6" by code_simp
  show "unat (get_be H_len short_frame) < 20 \<or> 408 < unat (get_be H_len short_frame)" by code_simp
qed

theorem syn_options_loop_witness: "found_listen loop_frame = None"
proof (rule syn_options_loop)
  show "find_conn (uip_conns loop_frame) 0 None \<noteq> None" by code_simp
  show "uip_inv loop_frame" by (simp add: loop_frame_def)
  show "0x50 < get8 H_tcpoffset 0 loop_frame AND 0xf0" by code_simp
  show "rd8 54 loop_frame = 1" by code_simp
  show "rd8 55 loop_frame \<notin> {0, 1}" by code_simp
  show "rd8 56 loop_frame = 255" by code_simp
qed


subsection \<open>Sending and giving up\<close>

definition open_conn :: "unit conn" where
  "open_conn = closed_conn\<lparr>ripaddr := (0xA8C0, 0x0900), lport := 0x5000, rport := 0x0104, outlen := 4,
     mss := 366, initialmss := 366, tcpstateflags := UIP_ESTABLISHED, rtimer := 1, nrtx := 7\<rparr>"

definition open_uip :: "unit uip" where
  "open_uip = bss_uip\<lparr>uip_conns := (replicate 40 closed_conn)[2 := open_conn], uip_len := 44\<rparr>"

lemma open_inv [simp]: "uip_inv open_uip"
proof -
  have "list_all conn_ok ((replicate 40 closed_conn)[2 := open_conn])" by code_simp
  then show ?thesis by (simp add: uip_inv_def uip_wf_def open_uip_def bss_uip_def)
qed

lemma cn_open: "cn 2 open_uip = open_conn"
  by (simp add: cn_def open_uip_def)

theorem tcp_send_accepted_witness:
  "\<exists>s'. tcp_send 2 open_uip = Some s' \<and> segment_for open_conn (0, 0) s'"
proof -
  have h: "uip_len open_uip = 44" "uip_hostaddr open_uip = (0, 0)" by (simp_all add: open_uip_def bss_uip_def)
  show ?thesis using tcp_send_accepted [OF open_inv, of 2 Some Some] by (auto simp: h cn_open)
qed


theorem uip_connect_opens_witness:
  "\<exists>s' r. uip_connect (1, 2) 80 open_uip = Some (s', Some r) \<and> r < 40"
proof -
  have c: "closed_conn \<in> set (uip_conns open_uip)" "tcpstateflags closed_conn = UIP_CLOSED"
    by (simp_all add: open_uip_def bss_uip_def closed_conn_def set_conv_nth exI [of _ 0])
  then have "\<not> list_all (\<lambda>c. \<not> reusable c) (uip_conns open_uip)"
    by (auto simp: list_all_iff reusable_def)
  moreover have "unat (lastport open_uip) < 32000" by (simp add: open_uip_def bss_uip_def)
  ultimately show ?thesis
    using uip_connect_opens [OF open_inv, of "(1, 2)" 80] by (auto split: option.splits)
qed

subsection \<open>Addresses\<close>

definition arp_frame :: "unit uip" where
  "arp_frame = with_bytes [(21, 2), (22, 9), (28, 10), (31, 5), (38, 10), (41, 7)]
     (bss_uip\<lparr>uip_len := 60, uip_hostaddr := uip_ipaddr 10 0 0 7, uip_netmask := (0xffff, 0xffff)\<rparr>)"

definition empty_arp :: arp where
  "empty_arp = \<lparr>arp_table = replicate 8 \<lparr>ae_ipaddr = (0, 0), ae_ethaddr = replicate 6 0, ae_time = 0\<rparr>, arptime = 3\<rparr>"


theorem arp_entry_lifetime_witness:
  "let a = empty_arp\<lparr>arp_table := [\<lparr>ae_ipaddr = (1, 2), ae_ethaddr = [], ae_time = 200\<rparr>], arptime := 200\<rparr>
   in arp_table ((uip_arp_timer ^^ 5000) a) ! 0 = \<lparr>ae_ipaddr = (1, 2), ae_ethaddr = [], ae_time = 200\<rparr>"
proof -
  let ?a = "empty_arp\<lparr>arp_table := [\<lparr>ae_ipaddr = (1, 2), ae_ethaddr = [], ae_time = 200\<rparr>], arptime := 200\<rparr>"
  show ?thesis using arp_entry_lifetime [of 0 ?a 5000] by (simp add: whole_addr_def)
qed

theorem neighbor_add_keeps_stale_witness:
  "uip_neighbor_lookup [10, 0, 0, 5] (uip_neighbor_add [10, 0, 0, 5] [7, 7, 7, 7]
     [\<lparr>n_ipaddr = [10, 0, 0, 5], n_addr = [1, 1, 1, 1], n_time = 3\<rparr>,
      \<lparr>n_ipaddr = [0, 0, 0, 0], n_addr = [0, 0, 0, 0], n_time = MAX_TIME\<rparr>]) = Some [1, 1, 1, 1]"
proof -
  let ?e = "\<lparr>n_ipaddr = [10, 0, 0, 5], n_addr = [1, 1, 1, 1], n_time = 3 :: u8\<rparr>"
  let ?f = "\<lparr>n_ipaddr = [0, 0, 0, 0], n_addr = [0, 0, 0, 0], n_time = MAX_TIME\<rparr>"
  have "uip_neighbor_lookup [10, 0, 0, 5] (uip_neighbor_add [10, 0, 0, 5] [7, 7, 7, 7] [?e, ?f]) = Some (n_addr ?e)"
    by (rule neighbor_add_keeps_stale) (simp_all add: same_addr_def)
  then show ?thesis by simp
qed

theorem memb_alloc_free_witness:
  "let m = \<lparr>mb_size = 10, mb_count = [1, 0], mb_mem = replicate 20 0\<rparr>;
       (m', r) = memb_alloc m in r = Some 10 \<and> memb_free 10 m' = (m, 0)"
proof -
  let ?m = "\<lparr>mb_size = 10, mb_count = [1, 0 :: u8], mb_mem = replicate 20 0\<rparr>"
  obtain m' where m: "memb_alloc ?m = (m', Some 10)" by (simp add: memb_alloc_def)
  have "memb_free 10 m' = (?m, 0)" using memb_alloc_free [OF _ m] by auto
  then show ?thesis by (simp add: m)
qed

end
