(* ===== verification/UipWebSamples.thy ===== *)
theory UipWebSamples
  imports UipPsock UipSamples
begin

text \<open>
  The theorems on protosockets and on the web server at work, on small concrete events.
\<close>

subsection \<open>Protosockets\<close>

text \<open>An event of connection 0, whose segments hold \<open>m\<close> bytes.\<close>

definition event_state :: "u16 \<Rightarrow> u8 \<Rightarrow> unit uip" where
  "event_state m f = bss_uip\<lparr>uip_conn := Some 0, uip_flags := f, uip_appdata := 54, uip_sappdata := 54,
     uip_conns := (uip_conns bss_uip)[0 := closed_conn\<lparr>mss := m\<rparr>]\<rparr>"

definition data_event :: "u8 list \<Rightarrow> unit uip" where
  "data_event xs = (event_state 366 UIP_NEWDATA)\<lparr>uip_len := of_nat (length xs),
     uip_buf := patch (uip_buf bss_uip) 54 xs\<rparr>"

definition fresh_psock :: psock where
  "fresh_psock = psock_init 0 4 \<lparr>pt = 0, psockpt = 0, sendptr = Data [], readptr = 0, bufptr = 0,
     sendlen = 0, readlen = 0, psbuf = buf_setup 0 0, bufsize = 0, psstate = STATE_NONE\<rparr>"

lemma event_mss [simp]: "uip_mss (event_state m f) = Some m"
  by (simp add: uip_mss_def event_state_def cn_def bss_uip_def)

lemma event_room [simp]: "n \<le> 368 \<Longrightarrow> room n (event_state m f)"
  by (simp add: room_def event_state_def bss_uip_def)

lemma event_flags [simp]: "uip_flags (event_state m f) = f"
  by (simp add: event_state_def)

lemma brings_data_event:
  assumes "length xs \<le> 366"
  shows "brings (data_event xs) xs"
proof -
  have "unat (of_nat (length xs) :: u16) = length xs" using assms by (intro unat_small) simp
  then show ?thesis using assms
    by (simp add: brings_def data_event_def uip_newdata_def event_state_def slice_def patch_def bss_uip_def)
qed

theorem psock_readto_stream_witness:
  "\<exists>ib' p'. readto_events 32 [0, 0, 0, 0, 0] fresh_psock [data_event [71], data_event [69, 84, 32, 47]] =
      Some (PT_ENDED, ib', p') \<and> slice 0 (unat (psock_datalen p')) ib' = Some [71, 69, 84, 32] \<and>
    slice (readptr p') (unat (readlen p')) (uip_buf (data_event [69, 84, 32, 47])) = Some [47]"
proof -
  have b: "list_all2 brings [data_event [71]] [[71]]" "brings (data_event [69, 84, 32, 47]) ([69, 84] @ 32 # [47])"
    using brings_data_event [of "[71]"] brings_data_event [of "[69, 84, 32, 47]"] by simp_all
  have p: "psockpt fresh_psock = 0" "readlen fresh_psock = 0" "psstate fresh_psock \<noteq> STATE_READ"
    "bufsize fresh_psock = of_nat 4" "bufptr fresh_psock + 4 \<le> length [0, 0, 0, 0, 0 :: u8]"
    "bufptr fresh_psock = 0"
    by (simp_all add: fresh_psock_def psock_init_def)
  show ?thesis
    using psock_readto_stream [OF p(1-4) _ _ p(5) b(1) _ b(2)] p(6) by auto
qed

theorem psock_send_delivers_witness:
  "\<exists>p'. psock_send_events [1, 2, 3] 3 fresh_psock
      [event_state 9 UIP_POLL, event_state 9 UIP_REXMIT, event_state 9 UIP_ACKDATA] =
    Some (PT_ENDED, p', [put_chunk [1, 2, 3] (event_state 9 UIP_POLL),
      put_chunk [1, 2, 3] (event_state 9 UIP_REXMIT), event_state 9 UIP_ACKDATA])"
  using psock_send_delivers [of fresh_psock 3 "[1, 2, 3]" "event_state 9 UIP_POLL" "[event_state 9 UIP_REXMIT]"
      "event_state 9 UIP_ACKDATA"]
  by (simp add: fits_def uip_acked_def uip_rexmit_def fresh_psock_def psock_init_def)

theorem psock_send_skips_witness:
  "\<exists>p' s'. psock_send_events [1, 2, 3, 4, 5] 5 fresh_psock [event_state 2 UIP_POLL, event_state 2 UIP_ACKDATA] =
      Some (PT_ENDED, p', [put_chunk [1, 2] (event_state 2 UIP_POLL), s']) \<and> sendlen p' = 0 \<and> uip_slen s' = 1 \<and>
    slice 54 1 (uip_buf s') = Some [5]"
proof -
  have p: "psockpt fresh_psock = 0" by (simp add: fresh_psock_def psock_init_def)
  have "uip_sappdata (event_state 2 UIP_ACKDATA) = 54" by (simp add: event_state_def)
  then show ?thesis
    using psock_send_skips [OF p, of 2 "[1, 2, 3, 4, 5]" "event_state 2 UIP_POLL" "event_state 2 UIP_ACKDATA"]
    by (auto simp: uip_acked_def Let_def)
qed

theorem generator_retransmits_stale_witness:
  "\<exists>p'. psock_generator_send (Some (\<lambda>c s. Some (7, c, s))) fresh_psock () (event_state 9 UIP_POLL) =
      Some (PT_WAITING, p', (), (event_state 9 UIP_POLL)\<lparr>uip_slen := 7\<rparr>) \<and>
    psock_generator_send (Some (\<lambda>c s. Some (8, c, s))) p' () (event_state 9 UIP_REXMIT) =
      Some (PT_WAITING, p', (), (event_state 9 UIP_REXMIT)\<lparr>uip_slen := 7\<rparr>)"
proof -
  have "psockpt fresh_psock = 0" by (simp add: fresh_psock_def psock_init_def)
  moreover have "uip_appdata (event_state 9 f) = 54" "uip_sappdata (event_state 9 f) = 54" for f
    by (simp_all add: event_state_def)
  ultimately show ?thesis
    using generator_retransmits_stale [of fresh_psock "\<lambda>c s. Some (7, c, s)" "()" "event_state 9 UIP_POLL" 7 "()"
        "event_state 9 UIP_POLL" 9 "event_state 9 UIP_REXMIT"]
    by (auto simp: uip_acked_def uip_rexmit_def)
qed

end
