(* ===== verification/UipStrings.thy ===== *)
theory UipStrings
  imports FosPrelude
begin

text \<open>
  The functions of \<^verbatim>\<open>string.h\<close> that the applications of the stack use. A pointer to characters
  is the list of the bytes from there to the end of its array; reading on behind the end is a
  fault.
\<close>

text \<open>\<open>None\<close> as inner result is the NULL pointer.\<close>

fun strchr :: "u8 \<Rightarrow> u8 list \<Rightarrow> u8 list option option" where
  "strchr c [] = None"
| "strchr c (x # xs) = (if x = c then Some (Some (x # xs)) else if x = 0 then Some None else strchr c xs)"

fun strrchr_from :: "u8 \<Rightarrow> u8 list option \<Rightarrow> u8 list \<Rightarrow> u8 list option option" where
  "strrchr_from c r [] = None"
| "strrchr_from c r (x # xs) = (let r = (if x = c then Some (x # xs) else r) in
     if x = 0 then Some r else strrchr_from c r xs)"

definition strrchr :: "u8 \<Rightarrow> u8 list \<Rightarrow> u8 list option option" where
  "strrchr c xs = strrchr_from c None xs"

text \<open>\<^verbatim>\<open>strncmp(a, b, n) == 0\<close>.\<close>

fun strncmp_eq :: "nat \<Rightarrow> u8 list \<Rightarrow> u8 list \<Rightarrow> bool option" where
  "strncmp_eq 0 a b = Some True"
| "strncmp_eq (Suc n) (x # a) (y # b) =
     (if x \<noteq> y then Some False else if x = 0 then Some True else strncmp_eq n a b)"
| "strncmp_eq (Suc n) a b = None"

fun strlen :: "u8 list \<Rightarrow> nat option" where
  "strlen [] = None"
| "strlen (x # xs) = (if x = 0 then Some 0 else map_option Suc (strlen xs))"

text \<open>The \<open>n\<close> bytes that \<^verbatim>\<open>strncpy\<close> stores; without a zero among the first \<open>n\<close> bytes of the
  source there is none in the result.\<close>

fun strncpy :: "nat \<Rightarrow> u8 list \<Rightarrow> u8 list option" where
  "strncpy 0 src = Some []"
| "strncpy (Suc n) [] = None"
| "strncpy (Suc n) (x # xs) = (if x = 0 then Some (replicate (Suc n) 0) else map_option ((#) x) (strncpy n xs))"

definition cstring :: "string \<Rightarrow> u8 list" where
  "cstring s = map of_char s @ [0]"

text \<open>\<^verbatim>\<open>strcmp(a, b) == 0\<close>.\<close>

fun strcmp_eq :: "u8 list \<Rightarrow> u8 list \<Rightarrow> bool option" where
  "strcmp_eq (x # a) (y # b) =
     (if x \<noteq> y then Some False else if x = 0 then Some True else strcmp_eq a b)"
| "strcmp_eq a b = None"

text \<open>\<^verbatim>\<open>strcpy(dest, src)\<close>, with the whole array \<open>dest\<close>.\<close>

definition strcpy :: "u8 list \<Rightarrow> u8 list \<Rightarrow> u8 list option" where
  "strcpy dest src = do {
     n \<leftarrow> strlen src;
     guard (n < length dest);
     Some (take (n + 1) src @ drop (n + 1) dest) }"

text \<open>What \<^verbatim>\<open>strncpy(dest, src, sizeof(dest))\<close> and the others do with a string and its zero.\<close>

lemma strlen_string: "0 \<notin> set us \<Longrightarrow> strlen (us @ 0 # ys) = Some (length us)"
  by (induction us) auto

lemma strcmp_eq_string:
  "0 \<notin> set us \<Longrightarrow> 0 \<notin> set vs \<Longrightarrow> strcmp_eq (us @ 0 # xs) (vs @ 0 # ys) = Some (us = vs)"
  by (induction us arbitrary: vs; case_tac vs) auto

lemma strcpy_string:
  "0 \<notin> set us \<Longrightarrow> length us < length dest \<Longrightarrow>
   strcpy dest (us @ 0 # ys) = Some (us @ 0 # drop (length us + 1) dest)"
  by (simp add: strcpy_def strlen_string)

lemma strncpy_spec: "0 \<notin> set xs \<Longrightarrow> strncpy n (xs @ 0 # ys) = Some (take n (xs @ replicate n 0))"
proof (induction n arbitrary: xs)
  case (Suc n)
  show ?case
  proof (cases xs)
    case (Cons x xs')
    then have "strncpy (Suc n) (xs @ 0 # ys) = Some (x # take n (xs' @ replicate n 0))" using Suc by simp
    also have "take n (xs' @ replicate n 0) = take n (xs' @ replicate (Suc n) 0)"
      by (simp add: take_replicate del: replicate_Suc)
    finally show ?thesis using Cons by simp
  qed simp
qed simp

lemma strncpy_long: "0 \<notin> set xs \<Longrightarrow> n \<le> length xs \<Longrightarrow> strncpy n (xs @ ys) = Some (take n xs)"
proof (induction n arbitrary: xs)
  case (Suc n)
  then show ?case by (cases xs) auto
qed simp

lemma strncpy_fits:
  "0 \<notin> set us \<Longrightarrow> length us < n \<Longrightarrow> strncpy n (us @ 0 # ys) = Some (us @ 0 # replicate (n - length us - 1) 0)"
  using strncpy_spec [of us n ys] by (cases "n - length us") auto

lemma strncpy_short: "0 \<notin> set xs \<Longrightarrow> length xs < n \<Longrightarrow> strncpy n xs = None"
  by (induction n xs rule: strncpy.induct) auto

lemma strncmp_eq_numeral:
  "strncmp_eq (numeral k) (x # a) (y # b) =
     (if x \<noteq> y then Some False else if x = 0 then Some True else strncmp_eq (pred_numeral k) a b)"
  by (simp add: numeral_eq_Suc)

end
