(* ===== verification/UipHttpd.thy ===== *)
theory UipHttpd
  imports UipPsock UipHttpFs
begin

text \<open>
  The web server (\<^verbatim>\<open>apps/webserver/httpd.c\<close>), the scripts of its pages
  (\<^verbatim>\<open>httpd-cgi.c\<close>) and its constant strings (\<^verbatim>\<open>http-strings.c\<close>). Every connection
  has a \<^verbatim>\<open>struct httpd_state\<close> as its application state; the access counts of the files are
  global. Its functions are protothreads: a continuation is the line of the statement at
  which the function waits, and a function resumes there with the fields of the state
  alone, its local variables being dead.
\<close>

subsection \<open>Data\<close>

datatype httpd_phase = STATE_WAITING | STATE_OUTPUT

record httpd_state =
  htimer :: u8
  sin :: psock
  sout :: psock
  outputpt :: lc
  scriptpt :: lc
  inputbuf :: "u8 list"
  filename :: "u8 list"
  hphase :: httpd_phase
  hfile :: httpd_fs_file
  hlen :: int
  scriptptr :: "u8 list"
  scriptlen :: int
  hcount :: u16

text \<open>The state of a connection while it is handled, together with the global counts.\<close>

record httpd_env = httpd_state +
  fs_counts :: "u16 list"

abbreviation (input) "ISO_nl \<equiv> (0x0a :: u8)"
abbreviation (input) "ISO_space \<equiv> (0x20 :: u8)"
abbreviation (input) "ISO_bang \<equiv> (0x21 :: u8)"
abbreviation (input) "ISO_percent \<equiv> (0x25 :: u8)"
abbreviation (input) "ISO_period \<equiv> (0x2e :: u8)"
abbreviation (input) "ISO_slash \<equiv> (0x2f :: u8)"
abbreviation (input) "ISO_colon \<equiv> (0x3a :: u8)"

subsection \<open>Strings\<close>

definition http_get :: "u8 list" where
  "http_get = cstring ''GET ''"

definition http_index_html :: "u8 list" where
  "http_index_html = cstring ''/index.html''"

definition http_404_html :: "u8 list" where
  "http_404_html = cstring ''/404.html''"

definition http_referer :: "u8 list" where
  "http_referer = cstring ''Referer:''"

definition crlf :: "u8 list" where
  "crlf = [0x0d, 0x0a]"

definition http_header_200 :: "u8 list" where
  "http_header_200 = map of_char ''HTTP/1.0 200 OK'' @ crlf @
     map of_char ''Server: uIP/1.0 http://www.sics.se/~adam/uip/'' @ crlf @
     map of_char ''Connection: close'' @ crlf @ [0]"

definition http_header_404 :: "u8 list" where
  "http_header_404 = map of_char ''HTTP/1.0 404 Not found'' @ crlf @
     map of_char ''Server: uIP/1.0 http://www.sics.se/~adam/uip/'' @ crlf @
     map of_char ''Connection: close'' @ crlf @ [0]"

definition http_content_type_plain :: "u8 list" where
  "http_content_type_plain = map of_char ''Content-type: text/plain'' @ crlf @ crlf @ [0]"

definition http_content_type_html :: "u8 list" where
  "http_content_type_html = map of_char ''Content-type: text/html'' @ crlf @ crlf @ [0]"

definition http_content_type_css :: "u8 list" where
  "http_content_type_css = map of_char ''Content-type: text/css'' @ crlf @ crlf @ [0]"

definition http_content_type_png :: "u8 list" where
  "http_content_type_png = map of_char ''Content-type: image/png'' @ crlf @ crlf @ [0]"

definition http_content_type_gif :: "u8 list" where
  "http_content_type_gif = map of_char ''Content-type: image/gif'' @ crlf @ crlf @ [0]"

definition http_content_type_jpg :: "u8 list" where
  "http_content_type_jpg = map of_char ''Content-type: image/jpeg'' @ crlf @ crlf @ [0]"

definition http_content_type_binary :: "u8 list" where
  "http_content_type_binary = map of_char ''Content-type: application/octet-stream'' @ crlf @ crlf @ [0]"

definition http_html :: "u8 list" where
  "http_html = cstring ''.html''"

definition http_shtml :: "u8 list" where
  "http_shtml = cstring ''.shtml''"

definition http_css :: "u8 list" where
  "http_css = cstring ''.css''"

definition http_png :: "u8 list" where
  "http_png = cstring ''.png''"

definition http_gif :: "u8 list" where
  "http_gif = cstring ''.gif''"

definition http_jpg :: "u8 list" where
  "http_jpg = cstring ''.jpg''"

subsection \<open>The protosocket macros\<close>

text \<open>A thread's result, the connection and the stack.\<close>

type_synonym 'a thread_result = "(pt_result \<times> httpd_env \<times> 'a uip) option"
type_synonym 'a handler = "httpd_env \<Rightarrow> 'a uip \<Rightarrow> 'a thread_result"

definition set_sout_pt :: "lc \<Rightarrow> httpd_env \<Rightarrow> httpd_env" where
  "set_sout_pt l h = h\<lparr>sout := (sout h)\<lparr>pt := l\<rparr>\<rparr>"

text \<open>\<^verbatim>\<open>PSOCK_SEND\<close> and \<^verbatim>\<open>PSOCK_GENERATOR_SEND\<close> in line \<open>l\<close>, once: the caller goes on
  unless the result is \<open>PT_WAITING\<close>.\<close>

definition PSOCK_SEND :: "lc \<Rightarrow> u8 list \<Rightarrow> u32 \<Rightarrow> httpd_env \<Rightarrow> 'a uip \<Rightarrow> 'a thread_result" where
  "PSOCK_SEND l buf len h s = (let h = set_sout_pt l h in do {
     (r, p, s) \<leftarrow> psock_send buf len (sout h) s;
     Some (r, h\<lparr>sout := p\<rparr>, s) })"

definition PSOCK_SEND_STR :: "lc \<Rightarrow> u8 list \<Rightarrow> httpd_env \<Rightarrow> 'a uip \<Rightarrow> 'a thread_result" where
  "PSOCK_SEND_STR l str h s = do {
     n \<leftarrow> strlen str;
     PSOCK_SEND l str (of_nat n) h s }"

definition PSOCK_GENERATOR_SEND ::
    "lc \<Rightarrow> (httpd_env, 'a) generator \<Rightarrow> httpd_env \<Rightarrow> 'a uip \<Rightarrow> 'a thread_result" where
  "PSOCK_GENERATOR_SEND l generate h s = (let h = set_sout_pt l h in do {
     (r, p, h, s) \<leftarrow> psock_generator_send (Some generate) (sout h) h s;
     Some (r, h\<lparr>sout := p\<rparr>, s) })"

definition PSOCK_END :: "httpd_env \<Rightarrow> 'a uip \<Rightarrow> 'a thread_result" where
  "PSOCK_END h s = Some (PT_ENDED, set_sout_pt 0 h, s)"

subsection \<open>Sending files\<close>

definition generate_part_of_file :: "(httpd_env, 'a) generator" where
  "generate_part_of_file h s = do {
     m \<leftarrow> uip_mss s;
     let h = (if fl_len (hfile h) > uint m then h\<lparr>hlen := uint m\<rparr> else h\<lparr>hlen := fl_len (hfile h)\<rparr>);
     guard (hlen h \<ge> 0);
     part \<leftarrow> slice 0 (nat (hlen h)) (fl_data (hfile h));
     b \<leftarrow> blit (uip_appdata s) part (uip_buf s);
     Some (word_of_int (hlen h), h, s\<lparr>uip_buf := b\<rparr>) }"

text \<open>The file's rest behind the bytes that have been sent.\<close>

definition file_advance :: "httpd_env \<Rightarrow> httpd_env option" where
  "file_advance h = do {
     guard (0 \<le> hlen h \<and> nat (hlen h) \<le> length (fl_data (hfile h)));
     Some (h\<lparr>hfile := \<lparr>fl_data = drop (nat (hlen h)) (fl_data (hfile h)), fl_len = fl_len (hfile h) - hlen h\<rparr>\<rparr>) }"

partial_function (option) send_file_loop :: "httpd_env \<Rightarrow> 'a uip \<Rightarrow> 'a thread_result" where
  "send_file_loop h s = do {
     (r, h, s) \<leftarrow> PSOCK_GENERATOR_SEND 100 generate_part_of_file h s;
     if r = PT_WAITING then Some (PT_WAITING, h, s)
     else do {
       h \<leftarrow> file_advance h;
       if fl_len (hfile h) > 0 then send_file_loop h s else PSOCK_END h s } }"

definition send_file :: "httpd_env \<Rightarrow> 'a uip \<Rightarrow> 'a thread_result" where
  "send_file h s =
     (if pt (sout h) = 0 \<or> pt (sout h) = 100 then send_file_loop h s else PSOCK_END h s)"

definition send_part_of_file :: "httpd_env \<Rightarrow> 'a uip \<Rightarrow> 'a thread_result" where
  "send_part_of_file h s =
     (if pt (sout h) = 0 \<or> pt (sout h) = 113 then do {
        (r, h, s) \<leftarrow> PSOCK_SEND 113 (fl_data (hfile h)) (word_of_int (hlen h)) h s;
        if r = PT_WAITING then Some (PT_WAITING, h, s) else PSOCK_END h s }
      else PSOCK_END h s)"

text \<open>Without a newline in the script the NULL pointer is advanced.\<close>

definition next_scriptstate :: "httpd_env \<Rightarrow> httpd_env option" where
  "next_scriptstate h = do {
     r \<leftarrow> strchr ISO_nl (scriptptr h);
     q \<leftarrow> r;
     let p = tl q;
     let n = length (scriptptr h) - length p;
     Some (h\<lparr>scriptlen := scriptlen h - int n mod 65536, scriptptr := p\<rparr>) }"

subsection \<open>The scripts' functions\<close>

datatype httpd_cgifunction = File_stats | Tcp_stats | Net_stats | Nullfunction

definition httpd_cgi_calls :: "(u8 list \<times> httpd_cgifunction) list" where
  "httpd_cgi_calls = [(cstring ''file-stats'', File_stats), (cstring ''tcp-connections'', Tcp_stats),
     (cstring ''net-stats'', Net_stats)]"

fun cgi_search :: "u8 list \<Rightarrow> (u8 list \<times> httpd_cgifunction) list \<Rightarrow> httpd_cgifunction option" where
  "cgi_search name [] = Some Nullfunction"
| "cgi_search name ((fn, f) # fs) = do {
     n \<leftarrow> strlen fn;
     eq \<leftarrow> strncmp_eq n fn name;
     if eq then Some f else cgi_search name fs }"

definition httpd_cgi :: "u8 list \<Rightarrow> httpd_cgifunction option" where
  "httpd_cgi name = cgi_search name httpd_cgi_calls"

text \<open>\<^verbatim>\<open>snprintf\<close> into the packet buffer: at most \<^verbatim>\<open>UIP_APPDATA_SIZE\<close> bytes with the zero;
  the length of the whole text is returned.\<close>

abbreviation (input) "UIP_APPDATA_SIZE \<equiv> (366 :: nat)"

definition snprintf_appdata :: "u8 list \<Rightarrow> 'a uip \<Rightarrow> (u16 \<times> 'a uip) option" where
  "snprintf_appdata txt s = do {
     b \<leftarrow> blit (uip_appdata s) (take (UIP_APPDATA_SIZE - 1) txt @ [0]) (uip_buf s);
     Some (of_nat (length txt), s\<lparr>uip_buf := b\<rparr>) }"

fun decimal :: "nat \<Rightarrow> u8 list" where
  "decimal n = (if n < 10 then [0x30 + of_nat n] else decimal (n div 10) @ [0x30 + of_nat (n mod 10)])"

declare decimal.simps [simp del]

definition pad :: "nat \<Rightarrow> u8 list \<Rightarrow> u8 list" where
  "pad w txt = replicate (w - length txt) 0x20 @ txt"

definition generate_file_stats :: "u8 list \<Rightarrow> (httpd_env, 'a) generator" where
  "generate_file_stats f h s = do {
     c \<leftarrow> httpd_fs_count f (fs_counts h);
     (n, s) \<leftarrow> snprintf_appdata (pad 5 (decimal (unat c))) s;
     Some (n, h, s) }"

text \<open>A missing space in the script's line advances the NULL pointer.\<close>

definition file_stats :: "u8 list \<Rightarrow> httpd_env \<Rightarrow> 'a uip \<Rightarrow> 'a thread_result" where
  "file_stats ptr h s =
     (if pt (sout h) = 0 \<or> pt (sout h) = 97 then do {
        r \<leftarrow> strchr ISO_space ptr;
        q \<leftarrow> r;
        (r, h, s) \<leftarrow> PSOCK_GENERATOR_SEND 97 (generate_file_stats (tl q)) h s;
        if r = PT_WAITING then Some (PT_WAITING, h, s) else PSOCK_END h s }
      else PSOCK_END h s)"

definition states :: "string list" where
  "states = [''CLOSED'', ''SYN-RCVD'', ''SYN-SENT'', ''ESTABLISHED'', ''FIN-WAIT-1'', ''FIN-WAIT-2'',
     ''CLOSING'', ''TIME-WAIT'', ''LAST-ACK'']"

definition chars :: "string \<Rightarrow> u8 list" where
  "chars = map of_char"

definition generate_tcp_stats :: "(httpd_env, 'a) generator" where
  "generate_tcp_stats h s = do {
     guard (unat (hcount h) < length (uip_conns s));
     let c = cn (unat (hcount h)) s;
     let st = tcpstateflags c AND UIP_TS_MASK;
     guard (unat st < length states);
     (n, s) \<leftarrow> snprintf_appdata (chars ''<tr><td>'' @ decimal (unat (htons (lport c))) @ chars ''</td><td>'' @
        decimal (unat (htons (fst (ripaddr c))) div 256) @ chars ''.'' @
        decimal (unat (htons (fst (ripaddr c))) mod 256) @ chars ''.'' @
        decimal (unat (htons (snd (ripaddr c))) div 256) @ chars ''.'' @
        decimal (unat (htons (snd (ripaddr c))) mod 256) @ chars '':'' @
        decimal (unat (htons (rport c))) @ chars ''</td><td>'' @
        chars (states ! unat st) @ chars ''</td><td>'' @
        decimal (unat (nrtx c)) @ chars ''</td><td>'' @
        decimal (unat (rtimer c)) @ chars ''</td><td>'' @
        chars (if outlen c \<noteq> 0 then ''*'' else '' '') @ chars '' '' @
        chars (if tcpstateflags c AND UIP_STOPPED \<noteq> 0 then ''!'' else '' '') @ chars ''</td></tr>'' @ crlf) s;
     Some (n, h, s) }"

text \<open>The loop over the connections, from the wait in line 171 when \<open>resumed\<close>, from the loop's
  test otherwise.\<close>

partial_function (option) tcp_stats_loop :: "bool \<Rightarrow> httpd_env \<Rightarrow> 'a uip \<Rightarrow> 'a thread_result" where
  "tcp_stats_loop resumed h s =
     (if \<not> resumed \<and> \<not> unat (hcount h) < UIP_CONNS then PSOCK_END h s
      else if resumed \<or> tcpstateflags (cn (unat (hcount h)) s) AND UIP_TS_MASK \<noteq> UIP_CLOSED then do {
        (r, h, s) \<leftarrow> PSOCK_GENERATOR_SEND 171 generate_tcp_stats h s;
        if r = PT_WAITING then Some (PT_WAITING, h, s)
        else tcp_stats_loop False (h\<lparr>hcount := hcount h + 1\<rparr>) s }
      else tcp_stats_loop False (h\<lparr>hcount := hcount h + 1\<rparr>) s)"

definition tcp_stats :: "httpd_env \<Rightarrow> 'a uip \<Rightarrow> 'a thread_result" where
  "tcp_stats h s =
     (if pt (sout h) = 0 then tcp_stats_loop False (h\<lparr>hcount := 0\<rparr>) s
      else if pt (sout h) = 171 then tcp_stats_loop True h s
      else PSOCK_END h s)"

text \<open>The statistics as an array of 16-bit numbers, in the order of the structure's fields without UDP.\<close>

definition stat_fields :: "uip_stats list" where
  "stat_fields = [Ip_drop, Ip_recv, Ip_sent, Ip_vhlerr, Ip_hblenerr, Ip_lblenerr, Ip_fragerr, Ip_chkerr,
     Ip_protoerr, Icmp_drop, Icmp_recv, Icmp_sent, Icmp_typeerr, Tcp_drop, Tcp_recv, Tcp_sent, Tcp_chkerr,
     Tcp_ackerr, Tcp_rst, Tcp_rexmit, Tcp_syndrop, Tcp_synrst]"

definition generate_net_stats :: "(httpd_env, 'a) generator" where
  "generate_net_stats h s = do {
     guard (unat (hcount h) < length stat_fields);
     (n, s) \<leftarrow> snprintf_appdata (pad 5 (decimal (unat (uip_stat s (stat_fields ! unat (hcount h))))) @ [ISO_nl]) s;
     Some (n, h, s) }"

partial_function (option) net_stats_loop :: "bool \<Rightarrow> httpd_env \<Rightarrow> 'a uip \<Rightarrow> 'a thread_result" where
  "net_stats_loop resumed h s =
     (if \<not> resumed \<and> \<not> unat (hcount h) < length stat_fields then PSOCK_END h s
      else do {
        (r, h, s) \<leftarrow> PSOCK_GENERATOR_SEND 195 generate_net_stats h s;
        if r = PT_WAITING then Some (PT_WAITING, h, s)
        else net_stats_loop False (h\<lparr>hcount := hcount h + 1\<rparr>) s })"

definition net_stats :: "httpd_env \<Rightarrow> 'a uip \<Rightarrow> 'a thread_result" where
  "net_stats h s =
     (if pt (sout h) = 0 then net_stats_loop False (h\<lparr>hcount := 0\<rparr>) s
      else if pt (sout h) = 195 then net_stats_loop True h s
      else PSOCK_END h s)"

definition run_cgi :: "httpd_cgifunction \<Rightarrow> u8 list \<Rightarrow> httpd_env \<Rightarrow> 'a uip \<Rightarrow> 'a thread_result" where
  "run_cgi f ptr h s = (case f of
     File_stats \<Rightarrow> file_stats ptr h s
   | Tcp_stats \<Rightarrow> tcp_stats h s
   | Net_stats \<Rightarrow> net_stats h s
   | Nullfunction \<Rightarrow> PSOCK_END h s)"

subsection \<open>Pages with scripts\<close>

text \<open>The part of the file up to the next percent sign, at most a segment.\<close>

definition part_length :: "httpd_env \<Rightarrow> 'a uip \<Rightarrow> int option" where
  "part_length h s = do {
     m \<leftarrow> uip_mss s;
     let d = fl_data (hfile h);
     let l = (if fl_len (hfile h) > uint m then uint m else fl_len (hfile h));
     guard (d \<noteq> []);
     ptr \<leftarrow> (if d ! 0 = ISO_percent then strchr ISO_percent (drop 1 d) else strchr ISO_percent d);
     Some (case ptr of
         None \<Rightarrow> l
       | Some q \<Rightarrow> if length q = length d then l
           else let l = int (length d - length q) in if l \<ge> uint m then uint m else l) }"

text \<open>\<^verbatim>\<open>handle_script\<close> from the loop's test (\<open>l = 0\<close>) or from the wait in line \<open>l\<close>.\<close>

partial_function (option) handle_script_loop :: "lc \<Rightarrow> httpd_env \<Rightarrow> 'a uip \<Rightarrow> 'a thread_result" where
  "handle_script_loop l h s =
     (if l = 0 then
        if \<not> fl_len (hfile h) > 0 then Some (PT_ENDED, h\<lparr>scriptpt := 0\<rparr>, s)
        else do {
          let d = fl_data (hfile h);
          guard (d \<noteq> []);
          script \<leftarrow> (if d ! 0 = ISO_percent then do { guard (1 < length d); Some (d ! 1 = ISO_bang) } else Some False);
          if script then do {
            guard (3 \<le> length d);
            let h = h\<lparr>scriptptr := drop 3 d, scriptlen := fl_len (hfile h) - 3\<rparr>;
            if d ! 2 = ISO_colon then do {
              guard (scriptptr h \<noteq> []);
              (_, f, c) \<leftarrow> httpd_fs_open (tl (scriptptr h)) (hfile h) (fs_counts h);
              handle_script_loop 144 (h\<lparr>hfile := f, fs_counts := c\<rparr>) s }
            else handle_script_loop 146 h s }
          else do {
            n \<leftarrow> part_length h s;
            handle_script_loop 177 (h\<lparr>hlen := n\<rparr>) s } }
      else if l = 177 then do {
        (r, h, s) \<leftarrow> send_part_of_file (h\<lparr>scriptpt := 177\<rparr>) s;
        if r = PT_WAITING then Some (PT_WAITING, h, s)
        else do {
          h \<leftarrow> file_advance h;
          handle_script_loop 0 h s } }
      else do {
        (r, h, s) \<leftarrow> (if l = 144 then send_file (h\<lparr>scriptpt := 144\<rparr>) s
          else do {
            f \<leftarrow> httpd_cgi (scriptptr h);
            run_cgi f (scriptptr h) (h\<lparr>scriptpt := 146\<rparr>) s });
        if r = PT_WAITING then Some (PT_WAITING, h, s)
        else do {
          h \<leftarrow> next_scriptstate h;
          handle_script_loop 0 (h\<lparr>hfile := \<lparr>fl_data = scriptptr h, fl_len = scriptlen h\<rparr>\<rparr>) s } })"

definition handle_script :: "httpd_env \<Rightarrow> 'a uip \<Rightarrow> 'a thread_result" where
  "handle_script h s =
     (if scriptpt h \<in> {0, 144, 146, 177} then handle_script_loop (scriptpt h) h s
      else Some (PT_ENDED, h\<lparr>scriptpt := 0\<rparr>, s))"

subsection \<open>Headers\<close>

text \<open>The \<^verbatim>\<open>PSOCK_SEND_STR\<close> that is chosen by the extension, with its line.\<close>

definition content_type :: "u8 list \<Rightarrow> (lc \<times> u8 list) option" where
  "content_type name = do {
     ptr \<leftarrow> strrchr ISO_period name;
     case ptr of
       None \<Rightarrow> Some (198, http_content_type_binary)
     | Some q \<Rightarrow> do {
         html \<leftarrow> strncmp_eq 5 http_html q;
         shtml \<leftarrow> (if html then Some True else strncmp_eq 6 http_shtml q);
         if shtml then Some (201, http_content_type_html)
         else do {
           css \<leftarrow> strncmp_eq 4 http_css q;
           if css then Some (203, http_content_type_css)
           else do {
             png \<leftarrow> strncmp_eq 4 http_png q;
             if png then Some (205, http_content_type_png)
             else do {
               gif \<leftarrow> strncmp_eq 4 http_gif q;
               if gif then Some (207, http_content_type_gif)
               else do {
                 jpg \<leftarrow> strncmp_eq 4 http_jpg q;
                 Some (if jpg then (209, http_content_type_jpg) else (211, http_content_type_plain)) } } } } } }"

definition content_type_lines :: "(lc \<times> u8 list) list" where
  "content_type_lines = [(198, http_content_type_binary), (201, http_content_type_html), (203, http_content_type_css),
     (205, http_content_type_png), (207, http_content_type_gif), (209, http_content_type_jpg),
     (211, http_content_type_plain)]"

definition send_content_type :: "lc \<Rightarrow> u8 list \<Rightarrow> httpd_env \<Rightarrow> 'a uip \<Rightarrow> 'a thread_result" where
  "send_content_type l str h s = do {
     (r, h, s) \<leftarrow> PSOCK_SEND_STR l str h s;
     if r = PT_WAITING then Some (PT_WAITING, h, s) else PSOCK_END h s }"

definition send_headers :: "u8 list \<Rightarrow> httpd_env \<Rightarrow> 'a uip \<Rightarrow> 'a thread_result" where
  "send_headers statushdr h s =
     (if pt (sout h) = 0 \<or> pt (sout h) = 194 then do {
        (r, h, s) \<leftarrow> PSOCK_SEND_STR 194 statushdr h s;
        if r = PT_WAITING then Some (PT_WAITING, h, s)
        else do {
          (l, str) \<leftarrow> content_type (filename h);
          send_content_type l str h s } }
      else case map_of content_type_lines (pt (sout h)) of
          Some str \<Rightarrow> send_content_type (pt (sout h)) str h s
        | None \<Rightarrow> PSOCK_END h s)"

subsection \<open>The answer\<close>

definition output_close :: "httpd_env \<Rightarrow> 'a uip \<Rightarrow> 'a thread_result" where
  "output_close h s = Some (PT_ENDED, h\<lparr>outputpt := 0\<rparr>, uip_close s)"

text \<open>A thread of which nothing but the closing is left when it has ended, waited for in line \<open>l\<close>.\<close>

definition output_last ::
    "lc \<Rightarrow> (httpd_env \<Rightarrow> 'a uip \<Rightarrow> 'a thread_result) \<Rightarrow> httpd_env \<Rightarrow> 'a uip \<Rightarrow> 'a thread_result" where
  "output_last l thread h s = do {
     (r, h, s) \<leftarrow> thread (h\<lparr>outputpt := l\<rparr>) s;
     if r = PT_WAITING then Some (PT_WAITING, h, s) else output_close h s }"

definition output_headers_404 :: "httpd_env \<Rightarrow> 'a uip \<Rightarrow> 'a thread_result" where
  "output_headers_404 h s = do {
     (r, h, s) \<leftarrow> send_headers http_header_404 (h\<lparr>outputpt := 226\<rparr>) s;
     if r = PT_WAITING then Some (PT_WAITING, h, s) else output_last 229 send_file h s }"

text \<open>The test for a page with scripts, by the first period in the name.\<close>

definition is_shtml :: "u8 list \<Rightarrow> bool option" where
  "is_shtml name = do {
     ptr \<leftarrow> strchr ISO_period name;
     case ptr of None \<Rightarrow> Some False | Some q \<Rightarrow> strncmp_eq 6 q http_shtml }"

definition output_headers_200 :: "httpd_env \<Rightarrow> 'a uip \<Rightarrow> 'a thread_result" where
  "output_headers_200 h s = do {
     (r, h, s) \<leftarrow> send_headers http_header_200 (h\<lparr>outputpt := 232\<rparr>) s;
     if r = PT_WAITING then Some (PT_WAITING, h, s)
     else do {
       shtml \<leftarrow> is_shtml (filename h);
       if shtml then output_last 238 handle_script (h\<lparr>scriptpt := 0\<rparr>) s
       else output_last 240 send_file h s } }"

definition handle_output :: "httpd_env \<Rightarrow> 'a uip \<Rightarrow> 'a thread_result" where
  "handle_output h s =
     (if outputpt h = 0 then do {
        (found, f, c) \<leftarrow> httpd_fs_open (filename h) (hfile h) (fs_counts h);
        let h = h\<lparr>hfile := f, fs_counts := c\<rparr>;
        if \<not> found then do {
          (_, f, c) \<leftarrow> httpd_fs_open http_404_html (hfile h) (fs_counts h);
          fn \<leftarrow> blit 0 http_404_html (filename h);
          output_headers_404 (h\<lparr>hfile := f, fs_counts := c, filename := fn\<rparr>) s }
        else output_headers_200 h s }
      else if outputpt h = 226 then output_headers_404 h s
      else if outputpt h = 229 then output_last 229 send_file h s
      else if outputpt h = 232 then output_headers_200 h s
      else if outputpt h = 238 then output_last 238 handle_script h s
      else if outputpt h = 240 then output_last 240 send_file h s
      else Some (PT_ENDED, h\<lparr>outputpt := 0\<rparr>, s))"

subsection \<open>The request\<close>

definition set_sin_pt :: "lc \<Rightarrow> httpd_env \<Rightarrow> httpd_env" where
  "set_sin_pt l h = h\<lparr>sin := (sin h)\<lparr>pt := l\<rparr>\<rparr>"

definition PSOCK_READTO :: "lc \<Rightarrow> u8 \<Rightarrow> httpd_env \<Rightarrow> 'a uip \<Rightarrow> (pt_result \<times> httpd_env) option" where
  "PSOCK_READTO l c h s = (let h = set_sin_pt l h in do {
     (r, ib, p) \<leftarrow> psock_readto c (inputbuf h) (sin h) s;
     Some (r, h\<lparr>inputbuf := ib, sin := p\<rparr>) })"

definition PSOCK_CLOSE_EXIT :: "httpd_env \<Rightarrow> 'a uip \<Rightarrow> 'a thread_result" where
  "PSOCK_CLOSE_EXIT h s = Some (PT_EXITED, set_sin_pt 0 h, uip_close s)"

text \<open>A zero at \<open>PSOCK_DATALEN - k\<close>.\<close>

definition terminate_line :: "nat \<Rightarrow> httpd_env \<Rightarrow> httpd_env option" where
  "terminate_line k h = (let n = unat (psock_datalen (sin h)) in do {
     guard (k \<le> n \<and> n - k < length (inputbuf h));
     Some (h\<lparr>inputbuf := (inputbuf h)[n - k := 0]\<rparr>) })"

partial_function (option) input_headers :: "httpd_env \<Rightarrow> 'a uip \<Rightarrow> 'a thread_result" where
  "input_headers h s = do {
     (r, h) \<leftarrow> PSOCK_READTO 277 ISO_nl h s;
     if r = PT_WAITING then Some (PT_WAITING, h, s)
     else do {
       referer \<leftarrow> strncmp_eq 8 (inputbuf h) http_referer;
       h \<leftarrow> (if referer then terminate_line 2 h else Some h);
       input_headers h s } }"

definition input_name :: "httpd_env \<Rightarrow> 'a uip \<Rightarrow> 'a thread_result" where
  "input_name h s = do {
     (r, h) \<leftarrow> PSOCK_READTO 259 ISO_space h s;
     if r = PT_WAITING then Some (PT_WAITING, h, s)
     else do {
       guard (1 < length (inputbuf h));
       if inputbuf h ! 0 \<noteq> ISO_slash then PSOCK_CLOSE_EXIT h s
       else do {
         h \<leftarrow> (if inputbuf h ! 1 = ISO_space then do {
             fn \<leftarrow> strncpy 20 http_index_html;
             Some (h\<lparr>filename := fn\<rparr>) }
           else do {
             h \<leftarrow> terminate_line 1 h;
             fn \<leftarrow> strncpy 20 (inputbuf h);
             Some (h\<lparr>filename := fn\<rparr>) });
         input_headers (h\<lparr>hphase := STATE_OUTPUT\<rparr>) s } } }"

definition input_method :: "httpd_env \<Rightarrow> 'a uip \<Rightarrow> 'a thread_result" where
  "input_method h s = do {
     (r, h) \<leftarrow> PSOCK_READTO 253 ISO_space h s;
     if r = PT_WAITING then Some (PT_WAITING, h, s)
     else do {
       get \<leftarrow> strncmp_eq 4 (inputbuf h) http_get;
       if \<not> get then PSOCK_CLOSE_EXIT h s else input_name h s } }"

definition handle_input :: "httpd_env \<Rightarrow> 'a uip \<Rightarrow> 'a thread_result" where
  "handle_input h s =
     (if pt (sin h) = 0 \<or> pt (sin h) = 253 then input_method h s
      else if pt (sin h) = 259 then input_name h s
      else if pt (sin h) = 277 then input_headers h s
      else Some (PT_ENDED, set_sin_pt 0 h, s))"

subsection \<open>Connections\<close>

definition handle_connection :: "httpd_env \<Rightarrow> 'a uip \<Rightarrow> (httpd_env \<times> 'a uip) option" where
  "handle_connection h s = do {
     (_, h, s) \<leftarrow> handle_input h s;
     if hphase h = STATE_OUTPUT then do {
       (_, h, s) \<leftarrow> handle_output h s;
       Some (h, s) }
     else Some (h, s) }"

definition httpd_event :: "httpd_env \<Rightarrow> 'a uip \<Rightarrow> (httpd_env \<times> 'a uip) option" where
  "httpd_event h s = (let f = uip_flags s in
     if f AND UIP_CLOSE \<noteq> 0 \<or> f AND UIP_ABORT \<noteq> 0 \<or> f AND UIP_TIMEDOUT \<noteq> 0 then Some (h, s)
     else if f AND UIP_CONNECTED \<noteq> 0 then
       handle_connection (h\<lparr>sin := psock_init 0 49 (sin h), sout := psock_init 0 49 (sout h),
         outputpt := 0, hphase := STATE_WAITING, htimer := 0\<rparr>) s
     else if f AND UIP_POLL \<noteq> 0 then (let h = h\<lparr>htimer := htimer h + 1\<rparr> in
       handle_connection h (if htimer h \<ge> 20 then uip_abort s else s))
     else handle_connection (h\<lparr>htimer := 0\<rparr>) s)"

text \<open>The application function, on the connection that the stack points at; \<open>counts\<close> are the global
  counts.\<close>

definition httpd_appcall :: "u16 list \<Rightarrow> httpd_state uip \<Rightarrow> (u16 list \<times> httpd_state uip) option" where
  "httpd_appcall counts s = do {
     r \<leftarrow> uip_conn s;
     (h, s) \<leftarrow> httpd_event (httpd_state.extend (appstate (cn r s)) (httpd_env.fields counts)) s;
     Some (fs_counts h, upd r (\<lambda>c. c\<lparr>appstate := httpd_state.truncate h\<rparr>) s) }"

end
