(* ===== verification/UipHttpRequest.thy ===== *)
theory UipHttpRequest
  imports UipHttpd
begin

text \<open>
  How the web server reads a request: the name in \<^verbatim>\<open>GET /name ...\<close> is stored whatever
  segments the bytes come in, and the rest of the request is skipped line by line.
\<close>

subsection \<open>One read\<close>

text \<open>The connection waits for the next event, having met \<open>line\<close> in the current read.\<close>

definition awaits :: "lc \<Rightarrow> u8 list \<Rightarrow> httpd_env \<Rightarrow> bool" where
  "awaits l line h \<longleftrightarrow> pt (sin h) = l \<and> readlen (sin h) = 0 \<and> psstate (sin h) \<noteq> STATE_READ \<and>
     bufptr (sin h) = 0 \<and> length (inputbuf h) = 50 \<and> (\<exists>ib0. reader 49 ib0 line (inputbuf h) (sin h))"

text \<open>The connection is in an event of which the bytes \<open>xs\<close> are left, at the start of a read.\<close>

definition has_read :: "'a uip \<Rightarrow> u8 list \<Rightarrow> httpd_env \<Rightarrow> bool" where
  "has_read s xs h \<longleftrightarrow> psockpt (sin h) = 0 \<and> psstate (sin h) = STATE_READ \<and> available (sin h) s = Some xs \<and>
     bufptr (sin h) = 0 \<and> bufsize (sin h) = 49 \<and> length (inputbuf h) = 50"

lemma has_read_reader: "has_read s xs h \<Longrightarrow> reader 49 (inputbuf h) [] (inputbuf h) (sin h)"
  by (simp add: has_read_def reader_def)

lemma awaits_available: "awaits l line h \<Longrightarrow> brings s xs \<Longrightarrow> available (sin h) s = Some xs"
  by (simp add: awaits_def available_def brings_def)

lemma reader_pt: "reader n ib0 line ib (p\<lparr>pt := l\<rparr>) = reader n ib0 line ib p"
  by (simp add: reader_def reading_def)

lemma PSOCK_READTO_spec:
  assumes "reader 49 ib0 line (inputbuf h) (sin h)" "bufptr (sin h) = 0" "length (inputbuf h) = 50"
    and "available (sin h) s = Some xs"
  shows "\<exists>p ib. PSOCK_READTO l c h s = Some (if c \<in> set xs then PT_ENDED else PT_WAITING, h\<lparr>inputbuf := ib, sin := p\<rparr>) \<and>
    reading 49 ib0 (line @ upto_marker c xs) ib p \<and> bufptr p = 0 \<and> length ib = 50 \<and> pt p = l \<and>
    (c \<in> set xs \<longrightarrow> has_read s (drop (length (upto_marker c xs)) xs) (h\<lparr>inputbuf := ib, sin := p\<rparr>)) \<and>
    (c \<notin> set xs \<longrightarrow> awaits l (line @ xs) (h\<lparr>inputbuf := ib, sin := p\<rparr>))"
proof -
  let ?p = "(sin h)\<lparr>pt := l\<rparr>"
  have "available ?p s = available (sin h) s" by (simp add: available_def)
  then have a: "available ?p s = Some xs" using assms(4) by simp
  have r: "reader 49 ib0 line (inputbuf h) ?p" using assms(1) by (simp add: reader_pt)
  obtain res ib p where res: "psock_readto c (inputbuf h) ?p s = Some (res, ib, p)"
    "readto_result c 49 ib0 line xs ?p s (res, ib, p)"
    using psock_readto_spec [OF r _ a, of c] by auto
  have rd: "reading 49 ib0 (line @ upto_marker c xs) ib p" and f: "bufptr p = 0" "pt p = l" "bufsize p = bufsize (sin h)"
    using res(2) assms(2) by (simp_all add: readto_result_def)
  have bs: "bufsize p = 49" using rd by (simp add: reading_def)
  have l: "length ib = 50"
  proof -
    have "length (inputbuf h) = length ib0"
      using assms(1) by (auto simp: reader_def dest: reading_length split: if_splits)
    then show ?thesis using reading_length [OF rd] assms(3) by simp
  qed
  have e: "PSOCK_READTO l c h s = Some (res, h\<lparr>inputbuf := ib, sin := p\<rparr>)"
    using res(1) by (simp add: PSOCK_READTO_def set_sin_pt_def Let_def)
  show ?thesis
  proof (cases "c \<in> set xs")
    case True
    then have t: "res = PT_ENDED" "psockpt p = 0" "psstate p = STATE_READ"
      "slice (readptr p) (unat (readlen p)) (uip_buf s) = Some (drop (length (upto_marker c xs)) xs)"
      using res(2) by (simp_all add: readto_result_def)
    have "available p s = Some (drop (length (upto_marker c xs)) xs)"
    proof (cases "readlen p = 0")
      case z: True
      then have "drop (length (upto_marker c xs)) xs = []" using slice_length [OF t(4)] by simp
      then show ?thesis using z t(3) by (simp add: available_def)
    next
      case False
      then show ?thesis using t(4) by (simp add: available_def word_neq_0_conv)
    qed
    then show ?thesis using e rd f bs l t True by (auto simp: has_read_def)
  next
    case False
    then show ?thesis
      using e rd f l readto_result_waiting [OF res(2) False] by (auto simp: awaits_def)
  qed
qed

subsection \<open>The header lines\<close>

lemma strncmp_eq_Some: "n \<le> length a \<Longrightarrow> n \<le> length b \<Longrightarrow> \<exists>r. strncmp_eq n a b = Some r"
  by (induction n a b rule: strncmp_eq.induct) auto

lemma strncmp_eq_True:
  "strncmp_eq n a b = Some True \<Longrightarrow> 0 \<notin> set (take n b) \<Longrightarrow> n \<le> length b \<Longrightarrow> take n a = take n b"
  by (induction n a b rule: strncmp_eq.induct) (auto split: if_splits)

lemma referer_line:
  assumes "reading 49 ib0 line ib p" "bufptr p = 0" "ISO_nl \<in> set line" "strncmp_eq 8 ib http_referer = Some True"
  shows "8 < length line"
proof (rule ccontr)
  assume "\<not> 8 < length line"
  then have s: "length line \<le> 8" by simp
  have "take 8 ib = take 8 http_referer"
    by (rule strncmp_eq_True [OF assms(4)]) (simp_all add: http_referer_def cstring_def)
  moreover have "ib = line @ drop (length line) ib0" using assms(1,2) s by (simp add: reading_def patch_def)
  ultimately have "set line \<subseteq> set (take 8 http_referer)"
    using s by (metis Un_upper1 append_eq_append_conv_if append_take_drop_id set_append take_append take_all)
  then have "ISO_nl \<in> set (take 8 http_referer)" using assms(3) by blast
  then show False by (simp add: http_referer_def cstring_def)
qed

lemma input_headers_returns:
  assumes "reader 49 ib0 line (inputbuf h) (sin h)" "bufptr (sin h) = 0" "length (inputbuf h) = 50"
    and "available (sin h) s = Some xs" "ISO_nl \<notin> set line"
  shows "\<exists>p ib line. input_headers h s = Some (PT_WAITING, h\<lparr>inputbuf := ib, sin := p\<rparr>, s) \<and>
    awaits 277 line (h\<lparr>inputbuf := ib, sin := p\<rparr>) \<and> ISO_nl \<notin> set line"
  using assms
proof (induction "length xs" arbitrary: ib0 line h xs rule: less_induct)
  case less
  obtain p ib where r: "PSOCK_READTO 277 ISO_nl h s = Some (if ISO_nl \<in> set xs then PT_ENDED else PT_WAITING, h\<lparr>inputbuf := ib, sin := p\<rparr>)"
    "reading 49 ib0 (line @ upto_marker ISO_nl xs) ib p" "bufptr p = 0" "length ib = 50"
    "ISO_nl \<in> set xs \<Longrightarrow> has_read s (drop (length (upto_marker ISO_nl xs)) xs) (h\<lparr>inputbuf := ib, sin := p\<rparr>)"
    "ISO_nl \<notin> set xs \<Longrightarrow> awaits 277 (line @ xs) (h\<lparr>inputbuf := ib, sin := p\<rparr>)"
    using PSOCK_READTO_spec [OF less.prems(1-4), of 277 ISO_nl] by blast
  show ?case
  proof (cases "ISO_nl \<in> set xs")
    case False
    then have "input_headers h s = Some (PT_WAITING, h\<lparr>inputbuf := ib, sin := p\<rparr>, s)"
      using r(1) by (subst input_headers.simps) simp
    then show ?thesis using r(6) [OF False] False less.prems(5) by (intro exI [of _ p] exI [of _ ib] exI [of _ "line @ xs"]) simp
  next
    case True
    let ?h = "h\<lparr>inputbuf := ib, sin := p\<rparr>"
    have "http_referer \<noteq> [] \<and> length http_referer = 9" by (simp add: http_referer_def cstring_def)
    then obtain ref where ref: "strncmp_eq 8 ib http_referer = Some ref" using strncmp_eq_Some [of 8 ib http_referer] r(4) by auto
    have m: "ISO_nl \<in> set (line @ upto_marker ISO_nl xs)" using True by (simp add: upto_marker_def)
    have "\<exists>ib1. (if ref then terminate_line 2 ?h else Some ?h) = Some (h\<lparr>inputbuf := ib1, sin := p\<rparr>) \<and> length ib1 = 50"
    proof (cases ref)
      case rt: True
      have "8 < length (line @ upto_marker ISO_nl xs)" by (rule referer_line [OF r(2,3) m]) (use ref rt in simp)
      then have "2 \<le> unat (psock_datalen p)" "unat (psock_datalen p) - 2 < 50" using reading_datalen [OF r(2)] by simp_all
      then show ?thesis using rt r(4)
        by (intro exI [of _ "ib[unat (psock_datalen p) - 2 := 0]"]) (simp add: terminate_line_def Let_def)
    next
      case False
      then show ?thesis using r(4) by (intro exI [of _ ib]) simp
    qed
    then obtain ib1 where ib1: "(if ref then terminate_line 2 ?h else Some ?h) = Some (h\<lparr>inputbuf := ib1, sin := p\<rparr>)" "length ib1 = 50"
      by blast
    let ?h1 = "h\<lparr>inputbuf := ib1, sin := p\<rparr>" and ?xs = "drop (length (upto_marker ISO_nl xs)) xs"
    have e: "input_headers h s = input_headers ?h1 s"
      using r(1) True ref ib1(1) by (subst input_headers.simps) simp
    have "has_read s ?xs ?h1" using r(5) [OF True] ib1(2) by (simp add: has_read_def)
    note hr = this has_read_reader [OF this]
    have "length ?xs < length xs" using upto_marker_eq [OF True] True by (cases xs) (auto simp: less_Suc_eq_le)
    from less.hyps [OF this hr(2)] hr(1)
    obtain p2 ib2 line2 where "input_headers ?h1 s = Some (PT_WAITING, ?h1\<lparr>inputbuf := ib2, sin := p2\<rparr>, s)"
      "awaits 277 line2 (?h1\<lparr>inputbuf := ib2, sin := p2\<rparr>)" "ISO_nl \<notin> set line2"
      by (auto simp: has_read_def)
    then show ?thesis unfolding e by (intro exI [of _ p2] exI [of _ ib2] exI [of _ line2]) simp
  qed
qed

subsection \<open>The name\<close>

text \<open>What is stored in \<^verbatim>\<open>filename\<close> for the requested name.\<close>

definition stored_name :: "u8 list \<Rightarrow> u8 list" where
  "stored_name name = take 20 ((if name = [ISO_slash] then map of_char ''/index.html'' else name) @ replicate 20 0)"

lemma input_name_step:
  assumes "reader 49 ib0 line (inputbuf h) (sin h)" "bufptr (sin h) = 0" "length (inputbuf h) = 50"
    and "available (sin h) s = Some xs" "ISO_space \<notin> set line"
  shows "(ISO_space \<notin> set xs \<longrightarrow> (\<exists>p ib. input_name h s = Some (PT_WAITING, h\<lparr>inputbuf := ib, sin := p\<rparr>, s) \<and>
      awaits 259 (line @ xs) (h\<lparr>inputbuf := ib, sin := p\<rparr>))) \<and>
    (\<forall>name more. line @ xs = name @ ISO_space # more \<and> ISO_space \<notin> set name \<and> 0 \<notin> set name \<and> name ! 0 = ISO_slash \<and> name \<noteq> [] \<longrightarrow>
      (\<exists>p ib l. input_name h s = Some (PT_WAITING, h\<lparr>inputbuf := ib, sin := p, filename := stored_name name, hphase := STATE_OUTPUT\<rparr>, s) \<and>
        awaits 277 l (h\<lparr>inputbuf := ib, sin := p\<rparr>) \<and> ISO_nl \<notin> set l))"
proof (intro conjI allI impI)
  obtain p ib where r: "PSOCK_READTO 259 ISO_space h s = Some (if ISO_space \<in> set xs then PT_ENDED else PT_WAITING, h\<lparr>inputbuf := ib, sin := p\<rparr>)"
    "reading 49 ib0 (line @ upto_marker ISO_space xs) ib p" "bufptr p = 0" "length ib = 50"
    "ISO_space \<in> set xs \<Longrightarrow> has_read s (drop (length (upto_marker ISO_space xs)) xs) (h\<lparr>inputbuf := ib, sin := p\<rparr>)"
    "ISO_space \<notin> set xs \<Longrightarrow> awaits 259 (line @ xs) (h\<lparr>inputbuf := ib, sin := p\<rparr>)"
    using PSOCK_READTO_spec [OF assms(1-4), of 259 ISO_space] by blast
  show "\<exists>p ib. input_name h s = Some (PT_WAITING, h\<lparr>inputbuf := ib, sin := p\<rparr>, s) \<and>
      awaits 259 (line @ xs) (h\<lparr>inputbuf := ib, sin := p\<rparr>)" if "ISO_space \<notin> set xs"
    using r(1,6) that by (auto simp: input_name_def)
  fix name more
  assume "line @ xs = name @ ISO_space # more \<and> ISO_space \<notin> set name \<and> 0 \<notin> set name \<and> name ! 0 = ISO_slash \<and> name \<noteq> []"
  then have n: "line @ xs = name @ ISO_space # more" "ISO_space \<notin> set name" "0 \<notin> set name" "name ! 0 = ISO_slash" "name \<noteq> []"
    by simp_all
  have sp: "ISO_space \<in> set xs" using n(1) assms(5) by (metis Un_iff in_set_conv_decomp set_append)
  have us: "line @ upto_marker ISO_space xs = name @ [ISO_space]"
    using upto_marker_append [of ISO_space line xs] upto_marker_append [of ISO_space name "ISO_space # more"] n(1,2) assms(5)
    by (simp add: upto_marker_none)
  have rd: "reading 49 ib0 (name @ [ISO_space]) ib p" using r(2) us by simp
  have dl: "unat (psock_datalen p) = min 49 (length name + 1)" using reading_datalen [OF rd] by simp
  define ln where "ln = name @ [ISO_space]"
  have "ib = take 49 ln @ drop (min 49 (length ln)) ib0"
    using rd r(3) by (simp add: reading_def patch_def min.commute flip: ln_def)
  then have ib: "ib = take 49 (name @ [ISO_space]) @ drop (min 49 (length name + 1)) ib0"
    unfolding ln_def by (simp only: length_append length_Cons list.size One_nat_def)
  have i0: "ib ! 0 = ISO_slash" using n(4,5) ib by (cases name) simp_all
  have i1: "ib ! 1 = ISO_space \<longleftrightarrow> name = [ISO_slash]"
    using n(2,4,5) ib by (cases name; cases "tl name") auto
  define ib1 where "ib1 = (if name = [ISO_slash] then ib else ib[min 49 (length name + 1) - 1 := 0])"
  have l1: "length ib1 = 50" using r(4) by (simp add: ib1_def)
  have fn: "(if name = [ISO_slash] then strncpy 20 http_index_html else strncpy 20 ib1) = Some (stored_name name)"
  proof (cases "name = [ISO_slash]")
    case True
    have "0 \<notin> set (map of_char ''/index.html'' :: u8 list)" by simp
    from strncpy_spec [OF this, of 20 "[]"] True show ?thesis
      by (simp add: stored_name_def http_index_html_def cstring_def)
  next
    case False
    let ?k = "min 49 (length name + 1)"
    have "ib1 = take (?k - 1) name @ 0 # drop ?k ib0"
    proof (cases "length name \<le> 48")
      case True
      then have "ib = name @ ISO_space # drop (length name + 1) ib0" using ib by simp
      then show ?thesis using False True by (simp add: ib1_def)
    next
      case l: False
      then have t: "ib = take 49 name @ drop 49 ib0" using ib by (simp add: min_def)
      have "take 49 name = take 48 name @ [name ! 48]" using l by (simp flip: take_Suc_conv_app_nth)
      then have "ib = take 48 name @ name ! 48 # drop 49 ib0" using t by simp
      moreover have "length (take 48 name) = 48" using l by simp
      ultimately have "ib[48 := 0] = take 48 name @ 0 # drop 49 ib0" by (metis list_update_length)
      then show ?thesis using False l by (simp add: ib1_def min_def)
    qed
    moreover have "0 \<notin> set (take (?k - 1) name)" using n(3) by (auto dest: in_set_takeD)
    ultimately have "strncpy 20 ib1 = Some (take 20 (take (?k - 1) name @ replicate 20 0))" by (simp add: strncpy_spec)
    then show ?thesis using False by (simp add: stored_name_def min_def)
  qed
  let ?h1 = "h\<lparr>inputbuf := ib1, sin := p, filename := stored_name name, hphase := STATE_OUTPUT\<rparr>"
  have e: "input_name h s = input_headers ?h1 s"
  proof -
    have "unat (psock_datalen p) - 1 < 50" "1 \<le> unat (psock_datalen p)" using dl by simp_all
    note k = this
    show ?thesis
    proof (cases "name = [ISO_slash]")
      case True
      then show ?thesis using r(1,4) sp i0 i1 fn by (simp add: input_name_def ib1_def)
    next
      case False
      then have "input_name h s = input_headers (h\<lparr>sin := p, inputbuf := ib1, filename := stored_name name, hphase := STATE_OUTPUT\<rparr>) s"
        using r(1,4) sp i0 i1 fn dl k by (simp add: input_name_def terminate_line_def Let_def ib1_def)
      also have "\<dots> = input_headers ?h1 s" by (rule arg_cong [where f = "\<lambda>x. input_headers x s"]) simp
      finally show ?thesis .
    qed
  qed
  have "has_read s (drop (length (upto_marker ISO_space xs)) xs) ?h1" using r(5) [OF sp] l1 by (simp add: has_read_def)
  note hr = this has_read_reader [OF this]
  obtain p2 ib2 l2 where "input_headers ?h1 s = Some (PT_WAITING, ?h1\<lparr>inputbuf := ib2, sin := p2\<rparr>, s)"
    "awaits 277 l2 (?h1\<lparr>inputbuf := ib2, sin := p2\<rparr>)" "ISO_nl \<notin> set l2"
    using input_headers_returns [OF hr(2), of s "drop (length (upto_marker ISO_space xs)) xs"] hr(1)
    by (auto simp: has_read_def)
  then show "\<exists>p ib l. input_name h s = Some (PT_WAITING, h\<lparr>inputbuf := ib, sin := p, filename := stored_name name, hphase := STATE_OUTPUT\<rparr>, s) \<and>
      awaits 277 l (h\<lparr>inputbuf := ib, sin := p\<rparr>) \<and> ISO_nl \<notin> set l"
    unfolding e by (intro exI [of _ p2] exI [of _ ib2] exI [of _ l2]) (simp add: awaits_def)
qed

subsection \<open>The whole request\<close>

text \<open>The request's bytes so far are \<open>acc\<close>: the method, then the name, then the header lines are
  being read.\<close>

definition parsed :: "u8 list \<Rightarrow> u8 list \<Rightarrow> httpd_env \<Rightarrow> bool" where
  "parsed name acc h \<longleftrightarrow>
     (if length acc < 4 then (pt (sin h) = 0 \<or> pt (sin h) = 253) \<and> awaits (pt (sin h)) acc h \<and> hphase h = STATE_WAITING
      else if length acc < 5 + length name then awaits 259 (drop 4 acc) h \<and> hphase h = STATE_WAITING
      else hphase h = STATE_OUTPUT \<and> filename h = stored_name name \<and> (\<exists>l. awaits 277 l h \<and> ISO_nl \<notin> set l))"

lemma awaits_readerE:
  assumes "awaits l line h"
  obtains ib0 where "reader 49 ib0 line (inputbuf h) (sin h)" "bufptr (sin h) = 0" "length (inputbuf h) = 50"
  using assms by (auto simp: awaits_def)

lemma prefix_cases:
  "us @ vs = name @ c # zs \<Longrightarrow> length us \<le> length name \<and> set us \<subseteq> set name \<or> (\<exists>ms. us = name @ c # ms \<and> ms @ vs = zs)"
proof (induction name arbitrary: us)
  case Nil
  then show ?case by (cases us) auto
next
  case (Cons n name)
  show ?case
  proof (cases us)
    case c: (Cons u us')
    then have "us' @ vs = name @ c # zs" "u = n" using Cons.prems by simp_all
    from Cons.IH [OF this(1)] show ?thesis using c \<open>u = n\<close> by auto
  qed simp
qed

lemma input_name_parsed:
  assumes "reader 49 ib0 line (inputbuf h) (sin h)" "bufptr (sin h) = 0" "length (inputbuf h) = 50"
    and "available (sin h) s = Some xs" "line @ xs @ rest = name @ ISO_space # zs" "length line \<le> length name"
    and "ISO_space \<notin> set name" "0 \<notin> set name" "name \<noteq> []" "name ! 0 = ISO_slash"
    and "hphase h = STATE_WAITING" "length acc = 4 + length line" "drop 4 acc = line"
  shows "\<exists>h'. input_name h s = Some (PT_WAITING, h', s) \<and> parsed name (acc @ xs) h'"
proof -
  have line: "ISO_space \<notin> set line"
    using prefix_cases [OF assms(5)] assms(6,7) by auto
  note step = input_name_step [OF assms(1-4) line]
  have "(line @ xs) @ rest = name @ ISO_space # zs" using assms(5) by simp
  from prefix_cases [OF this] show ?thesis
  proof
    assume l: "length (line @ xs) \<le> length name \<and> set (line @ xs) \<subseteq> set name"
    then have "ISO_space \<notin> set xs" using assms(7) by auto
    with step obtain p ib where "input_name h s = Some (PT_WAITING, h\<lparr>inputbuf := ib, sin := p\<rparr>, s)"
      "awaits 259 (line @ xs) (h\<lparr>inputbuf := ib, sin := p\<rparr>)" by blast
    then show ?thesis using l assms(11-13)
      by (intro exI [of _ "h\<lparr>inputbuf := ib, sin := p\<rparr>"]) (simp add: parsed_def)
  next
    assume "\<exists>ms. line @ xs = name @ ISO_space # ms \<and> ms @ rest = zs"
    then obtain ms where ms: "line @ xs = name @ ISO_space # ms" by blast
    with step assms(7-10) obtain p ib l where
      "input_name h s = Some (PT_WAITING, h\<lparr>inputbuf := ib, sin := p, filename := stored_name name, hphase := STATE_OUTPUT\<rparr>, s)"
      "awaits 277 l (h\<lparr>inputbuf := ib, sin := p\<rparr>)" "ISO_nl \<notin> set l" by blast
    moreover have "\<not> length (acc @ xs) < 5 + length name"
      using arg_cong [OF ms, of length] assms(12) by simp
    ultimately show ?thesis
      by (intro exI [of _ "h\<lparr>inputbuf := ib, sin := p, filename := stored_name name, hphase := STATE_OUTPUT\<rparr>"])
        (auto simp: parsed_def awaits_def)
  qed
qed

lemma get_matches: "strncmp_eq 4 (0x47 # 0x45 # 0x54 # ISO_space # xs) http_get = Some True"
proof -
  have n: "4 = Suc (Suc (Suc (Suc 0)))" by simp
  show ?thesis unfolding n by (simp add: http_get_def cstring_def)
qed

lemma handle_input_step:
  assumes "parsed name acc h" "brings s xs" "acc @ xs @ rest = map of_char ''GET '' @ name @ ISO_space # zs"
    and "ISO_space \<notin> set name" "0 \<notin> set name" "name \<noteq> []" "name ! 0 = ISO_slash"
  shows "\<exists>h'. handle_input h s = Some (PT_WAITING, h', s) \<and> parsed name (acc @ xs) h'"
proof -
  define g :: "u8 list" where "g = [0x47, 0x45, 0x54]"
  have get: "acc @ xs @ rest = g @ ISO_space # name @ ISO_space # zs" using assms(3) by (simp add: g_def)
  have g: "length g = 3" "ISO_space \<notin> set g" by (simp_all add: g_def)
  consider "length acc < 4" | "4 \<le> length acc" "length acc < 5 + length name" | "5 + length name \<le> length acc"
    by linarith
  then show ?thesis
  proof cases
    case 3
    then have p: "hphase h = STATE_OUTPUT" "filename h = stored_name name" and "\<exists>l. awaits 277 l h \<and> ISO_nl \<notin> set l"
      using assms(1) by (auto simp: parsed_def)
    then obtain l where l: "awaits 277 l h" "ISO_nl \<notin> set l" by blast
    obtain ib0 where ib0: "reader 49 ib0 l (inputbuf h) (sin h)" "bufptr (sin h) = 0" "length (inputbuf h) = 50"
      by (rule awaits_readerE [OF l(1)])
    from input_headers_returns [OF ib0 awaits_available [OF l(1) assms(2)] l(2)]
    obtain q ib l' where "input_headers h s = Some (PT_WAITING, h\<lparr>inputbuf := ib, sin := q\<rparr>, s)"
      "awaits 277 l' (h\<lparr>inputbuf := ib, sin := q\<rparr>)" "ISO_nl \<notin> set l'" by blast
    then show ?thesis using l(1) p 3
      by (intro exI [of _ "h\<lparr>inputbuf := ib, sin := q\<rparr>"] conjI)
        (simp_all add: handle_input_def awaits_def [of 277 l] parsed_def, blast)
  next
    case 2
    then have p: "awaits 259 (drop 4 acc) h" "hphase h = STATE_WAITING" using assms(1) by (simp_all add: parsed_def)
    have "drop 4 (acc @ xs @ rest) = drop 4 acc @ xs @ rest" using 2(1) by simp
    then have dr: "drop 4 acc @ xs @ rest = name @ ISO_space # zs" unfolding get by (simp add: g_def)
    obtain ib0 where ib0: "reader 49 ib0 (drop 4 acc) (inputbuf h) (sin h)" "bufptr (sin h) = 0" "length (inputbuf h) = 50"
      by (rule awaits_readerE [OF p(1)])
    have e: "handle_input h s = input_name h s" using p(1) by (simp add: handle_input_def awaits_def)
    have l: "length (drop 4 acc) \<le> length name" "length acc = 4 + length (drop 4 acc)" using 2 by simp_all
    show ?thesis unfolding e
      by (rule input_name_parsed [OF ib0 awaits_available [OF p(1) assms(2)] dr l(1) assms(4-7) p(2) l(2) refl])
  next
    case 1
    then have p: "pt (sin h) = 0 \<or> pt (sin h) = 253" "awaits (pt (sin h)) acc h" "hphase h = STATE_WAITING"
      using assms(1) by (simp_all add: parsed_def)
    obtain ib0 where ib0: "reader 49 ib0 acc (inputbuf h) (sin h)" "bufptr (sin h) = 0" "length (inputbuf h) = 50"
      by (rule awaits_readerE [OF p(2)])
    have hi: "handle_input h s = input_method h s" using p(1) by (auto simp: handle_input_def)
    have acc: "ISO_space \<notin> set acc" using prefix_cases [OF get] 1 g by auto
    obtain q ib where r: "PSOCK_READTO 253 ISO_space h s = Some (if ISO_space \<in> set xs then PT_ENDED else PT_WAITING, h\<lparr>inputbuf := ib, sin := q\<rparr>)"
      "reading 49 ib0 (acc @ upto_marker ISO_space xs) ib q" "bufptr q = 0" "length ib = 50"
      "ISO_space \<in> set xs \<Longrightarrow> has_read s (drop (length (upto_marker ISO_space xs)) xs) (h\<lparr>inputbuf := ib, sin := q\<rparr>)"
      "ISO_space \<notin> set xs \<Longrightarrow> awaits 253 (acc @ xs) (h\<lparr>inputbuf := ib, sin := q\<rparr>)"
      using PSOCK_READTO_spec [OF ib0 awaits_available [OF p(2) assms(2)], of 253 ISO_space] by blast
    have "(acc @ xs) @ rest = g @ ISO_space # name @ ISO_space # zs" using get by simp
    from prefix_cases [OF this] show ?thesis
    proof
      assume l: "length (acc @ xs) \<le> length g \<and> set (acc @ xs) \<subseteq> set g"
      then have ns: "ISO_space \<notin> set xs" using g(2) by auto
      have "pt q = 253" using r(6) [OF ns] by (simp add: awaits_def)
      then show ?thesis using r(1) r(6) [OF ns] ns l g(1) p(3) hi
        by (intro exI [of _ "h\<lparr>inputbuf := ib, sin := q\<rparr>"]) (simp add: input_method_def parsed_def)
    next
      assume "\<exists>ms. acc @ xs = g @ ISO_space # ms \<and> ms @ rest = name @ ISO_space # zs"
      then obtain ms where ms: "acc @ xs = g @ ISO_space # ms" "ms @ rest = name @ ISO_space # zs" by blast
      have "ISO_space \<in> set (acc @ xs)" unfolding ms(1) by simp
      then have sp: "ISO_space \<in> set xs" using acc by simp
      have us: "acc @ upto_marker ISO_space xs = g @ [ISO_space]"
        using upto_marker_append [of ISO_space acc xs] upto_marker_append [of ISO_space g "ISO_space # ms"] ms(1) acc g(2)
        by (simp add: upto_marker_none)
      define u where "u = upto_marker ISO_space xs"
      have "(acc @ u) @ ms = acc @ xs" unfolding u_def us using ms(1) by simp
      then have "xs = u @ ms" by simp
      then have dr: "drop (length (upto_marker ISO_space xs)) xs = ms" unfolding u_def [symmetric] by simp
      have "take 49 (g @ [ISO_space]) = g @ [ISO_space]" by (simp add: g_def)
      then have "ib = (g @ [ISO_space]) @ drop (length (g @ [ISO_space])) ib0"
        using r(2,3) us by (simp only: reading_def patch_def append_Nil take_0 add_0)
      then have "strncmp_eq 4 ib http_get = Some True"
        using get_matches by (simp only: g_def append_Cons append_Nil)
      then have e: "handle_input h s = input_name (h\<lparr>inputbuf := ib, sin := q\<rparr>) s"
        using r(1) sp hi by (simp add: input_method_def)
      have hr: "has_read s ms (h\<lparr>inputbuf := ib, sin := q\<rparr>)" using r(5) [OF sp] dr by simp
      let ?h = "h\<lparr>inputbuf := ib, sin := q\<rparr>"
      have "bufptr (sin ?h) = 0" "length (inputbuf ?h) = 50" "available (sin ?h) s = Some ms" "hphase ?h = STATE_WAITING"
        using hr p(3) by (simp_all add: has_read_def)
      moreover have "[] @ ms @ rest = name @ ISO_space # zs" "length [] \<le> length name"
        "length (g @ [ISO_space]) = 4 + length ([] :: u8 list)" "drop 4 (g @ [ISO_space]) = []"
        using ms(2) by (simp_all add: g_def)
      moreover have "acc @ xs = (g @ [ISO_space]) @ ms" using ms(1) by simp
      ultimately show ?thesis unfolding e
        using input_name_parsed [OF has_read_reader [OF hr]] assms(4-7) by metis
    qed
  qed
qed

text \<open>The events after one another.\<close>

fun input_events :: "httpd_env \<Rightarrow> 'a uip list \<Rightarrow> httpd_env option" where
  "input_events h [] = Some h"
| "input_events h (s # ss) = do { (_, h, s) \<leftarrow> handle_input h s; input_events h ss }"

lemma input_events_parsed:
  assumes "list_all2 brings ss xss" "parsed name acc h"
    and "acc @ concat xss @ rest = map of_char ''GET '' @ name @ ISO_space # zs"
    and "ISO_space \<notin> set name" "0 \<notin> set name" "name \<noteq> []" "name ! 0 = ISO_slash"
  shows "\<exists>h'. input_events h ss = Some h' \<and> parsed name (acc @ concat xss) h'"
  using assms(1-3)
proof (induction ss xss arbitrary: acc h rule: list_all2_induct)
  case (Cons s ss xs xss)
  have "acc @ xs @ (concat xss @ rest) = map of_char ''GET '' @ name @ ISO_space # zs" using Cons.prems(2) by simp
  from handle_input_step [OF Cons.prems(1) Cons.hyps(1) this assms(4-7)]
  obtain h1 where h1: "handle_input h s = Some (PT_WAITING, h1, s)" "parsed name (acc @ xs) h1" by blast
  have "(acc @ xs) @ concat xss @ rest = map of_char ''GET '' @ name @ ISO_space # zs" using Cons.prems(2) by simp
  from Cons.IH [OF h1(2) this] show ?case using h1(1) by simp
qed simp

text \<open>C23: A request is understood however its bytes are cut into segments: from a fresh
  connection, the events that bring \<open>GET name ...\<close> leave it in the output phase with the first
  twenty bytes of the name stored, that of the index page for the name \<open>/\<close>, and every event before
  the end of the name leaves it waiting.\<close>

theorem httpd_parses_request:
  assumes "sin h = psock_init 0 49 p" "hphase h = STATE_WAITING" "length (inputbuf h) = 50"
    and "list_all2 brings ss xss" "concat xss = map of_char ''GET '' @ name @ ISO_space # zs"
    and "ISO_space \<notin> set name" "0 \<notin> set name" "name \<noteq> []" "name ! 0 = ISO_slash"
  shows "\<exists>h'. input_events h ss = Some h' \<and> hphase h' = STATE_OUTPUT \<and> filename h' = stored_name name"
proof -
  have "parsed name [] h" using assms(1-3)
    by (simp add: parsed_def awaits_def psock_init_def reader_def)
  from input_events_parsed [OF assms(4) this _ assms(6-9), of "[]" zs] assms(5)
  obtain h' where "input_events h ss = Some h'" "parsed name (concat xss) h'" by auto
  then show ?thesis using assms(5) by (simp add: parsed_def)
qed

end
