(* ===== verification/UipHttpAnswer.thy ===== *)
theory UipHttpAnswer
  imports UipHttpd
begin

text \<open>
  What the web server sends. A small logic of protothreads: \<open>gives\<close> says which blocks of bytes
  a thread sends, one per event, each once the one before has been acknowledged. Threads are
  composed with \<open>gives_seq\<close>, and the answer to a request is the status line and headers, the
  content type and the file.
\<close>

subsection \<open>What a thread sends\<close>

text \<open>Events of a connection with segments of \<open>m\<close> bytes, without retransmissions.\<close>

definition event_ok :: "u16 \<Rightarrow> 'a uip \<Rightarrow> bool" where
  "event_ok m s \<longleftrightarrow> uip_mss s = Some m \<and> \<not> uip_rexmit s \<and> uip_appdata s = 54 \<and> uip_sappdata s = 54 \<and>
     length (uip_buf s) = 422"

definition idles :: "'a handler \<Rightarrow> u16 \<Rightarrow> httpd_env \<Rightarrow> bool" where
  "idles T m h \<longleftrightarrow> (\<forall>s. event_ok m s \<and> \<not> uip_acked s \<longrightarrow> T h s = Some (PT_WAITING, h, s))"

text \<open>In an event with \<open>P\<close> the thread sends the first block and waits, idle without an
  acknowledgement, and with it sends the next; after the last block it ends with \<open>fin\<close> done to the
  stack. \<open>I\<close> holds while it waits, \<open>Q\<close> at its end.\<close>

primrec gives :: "'a handler \<Rightarrow> (httpd_env \<Rightarrow> bool) \<Rightarrow> ('a uip \<Rightarrow> 'a uip) \<Rightarrow> (httpd_env \<Rightarrow> bool) \<Rightarrow> u16 \<Rightarrow>
    u8 list list \<Rightarrow> ('a uip \<Rightarrow> bool) \<Rightarrow> httpd_env \<Rightarrow> bool" where
  "gives T I fin Q m [] P h \<longleftrightarrow>
     (\<forall>s. event_ok m s \<and> P s \<longrightarrow> (\<exists>r h'. T h s = Some (r, h', fin s) \<and> r \<noteq> PT_WAITING \<and> Q h'))"
| "gives T I fin Q m (b # bs) P h \<longleftrightarrow>
     (\<forall>s. event_ok m s \<and> P s \<longrightarrow> (\<exists>h'. T h s = Some (PT_WAITING, h', put_chunk b s) \<and> I h' \<and> idles T m h' \<and>
        gives T I fin Q m bs uip_acked h'))"

definition seqt :: "'a handler \<Rightarrow> 'a handler \<Rightarrow> 'a handler" where
  "seqt T V h s = do {
     (r, h, s) \<leftarrow> T h s;
     if r = PT_WAITING then Some (PT_WAITING, h, s) else V h s }"

lemma gives_transfer:
  assumes "gives V K fin R m bs P h" "\<And>s. U h0 s = V h s" "\<And>h s. K h \<Longrightarrow> U h s = V h s" "\<And>h. K h \<Longrightarrow> K' h"
  shows "gives U K' fin R m bs P h0"
  using assms(1,2)
proof (induction bs arbitrary: h h0 P)
  case (Cons b bs)
  show ?case unfolding gives.simps
  proof (intro allI impI)
    fix s :: "'a uip" assume s: "event_ok m s \<and> P s"
    then obtain h' where h': "V h s = Some (PT_WAITING, h', put_chunk b s)" "K h'" "idles V m h'"
      "gives V K fin R m bs uip_acked h'" using Cons.prems(1) by auto
    have "gives U K' fin R m bs uip_acked h'" using Cons.IH [OF h'(4)] assms(3) h'(2) by blast
    moreover have "idles U m h'" using h'(3) assms(3) [OF h'(2)] by (simp add: idles_def)
    ultimately show "\<exists>h'. U h0 s = Some (PT_WAITING, h', put_chunk b s) \<and> K' h' \<and> idles U m h' \<and>
        gives U K' fin R m bs uip_acked h'"
      using h'(1,2) Cons.prems(2) assms(4) by auto
  qed
qed simp

lemma gives_seq:
  assumes "gives T I (\<lambda>s. s) Q m bs P h" "\<And>s. U h0 s = seqt T V h s" "\<And>h s. I h \<Longrightarrow> U h s = seqt T V h s"
    and "\<And>h. Q h \<Longrightarrow> gives V K fin R m cs (\<lambda>_. True) h" "\<And>h s. K h \<Longrightarrow> U h s = V h s"
  shows "gives U (\<lambda>h. I h \<or> K h) fin R m (bs @ cs) P h0"
  using assms(1,2)
proof (induction bs arbitrary: h h0 P)
  case Nil
  have start: "\<exists>h'. Q h' \<and> U h0 s = V h' s" if st: "event_ok m s \<and> P s" for s
  proof -
    obtain r h' where "T h s = Some (r, h', s)" "r \<noteq> PT_WAITING" "Q h'"
      using Nil.prems(1) st unfolding gives.simps by blast
    then show ?thesis using Nil.prems(2) by (intro exI [of _ h']) (simp add: seqt_def)
  qed
  show ?case
  proof (cases cs)
    case c: Nil
    show ?thesis unfolding c append_Nil gives.simps
    proof (intro allI impI)
      fix s :: "'a uip" assume s: "event_ok m s \<and> P s"
      then obtain h' where "Q h'" "U h0 s = V h' s" using start by blast
      then show "\<exists>r h'. U h0 s = Some (r, h', fin s) \<and> r \<noteq> PT_WAITING \<and> R h'"
        using assms(4) [of h'] s by (simp add: c)
    qed
  next
    case c: (Cons b cs')
    show ?thesis unfolding c append_Nil gives.simps
    proof (intro allI impI)
      fix s :: "'a uip" assume s: "event_ok m s \<and> P s"
      then obtain h1 where h1: "Q h1" "U h0 s = V h1 s" using start by blast
      then obtain h' where h': "V h1 s = Some (PT_WAITING, h', put_chunk b s)" "K h'" "idles V m h'"
        "gives V K fin R m cs' uip_acked h'" using assms(4) [OF h1(1)] s by (auto simp: c)
      have "gives U (\<lambda>h. I h \<or> K h) fin R m cs' uip_acked h'"
        by (rule gives_transfer [OF h'(4)]) (use assms(5) h'(2) in auto)
      moreover have "idles U m h'" using h'(3) assms(5) [OF h'(2)] by (simp add: idles_def)
      ultimately show "\<exists>h'. U h0 s = Some (PT_WAITING, h', put_chunk b s) \<and> (I h' \<or> K h') \<and> idles U m h' \<and>
          gives U (\<lambda>h. I h \<or> K h) fin R m cs' uip_acked h'"
        using h1(2) h'(1,2) by auto
    qed
  qed
next
  case (Cons b bs)
  show ?case unfolding append_Cons gives.simps
  proof (intro allI impI)
    fix s :: "'a uip" assume s: "event_ok m s \<and> P s"
    then obtain h' where h': "T h s = Some (PT_WAITING, h', put_chunk b s)" "I h'" "idles T m h'"
      "gives T I (\<lambda>s. s) Q m bs uip_acked h'" using Cons.prems(1) by auto
    have "gives U (\<lambda>h. I h \<or> K h) fin R m (bs @ cs) uip_acked h'"
      using Cons.IH [OF h'(4)] assms(3) h'(2) by blast
    moreover have "idles U m h'" using h'(3) assms(3) [OF h'(2)] by (simp add: idles_def seqt_def)
    moreover have "U h0 s = Some (PT_WAITING, h', put_chunk b s)" using Cons.prems(2) h'(1) by (simp add: seqt_def)
    ultimately show "\<exists>h'. U h0 s = Some (PT_WAITING, h', put_chunk b s) \<and> (I h' \<or> K h') \<and> idles U m h' \<and>
        gives U (\<lambda>h. I h \<or> K h) fin R m (bs @ cs) uip_acked h'"
      using h'(2) by blast
  qed
qed

lemma gives_mono:
  assumes "gives T I fin Q m bs P h" "\<And>h. I h \<Longrightarrow> I' h" "\<And>h. Q h \<Longrightarrow> Q' h"
  shows "gives T I' fin Q' m bs P h"
  using assms(1)
proof (induction bs arbitrary: h P)
  case Nil
  then show ?case using assms(3) unfolding gives.simps by blast
next
  case (Cons b bs)
  then show ?case using assms(2) unfolding gives.simps by blast
qed

subsection \<open>One message\<close>

lemma event_ok_fits: "event_ok m s \<Longrightarrow> unat m \<le> 366 \<Longrightarrow> n \<le> unat m \<Longrightarrow> fits n s"
  by (simp add: event_ok_def fits_def room_def)

definition out_free :: "httpd_env \<Rightarrow> bool" where
  "out_free h \<longleftrightarrow> pt (sout h) = 0 \<and> psockpt (sout h) = 0"

text \<open>Only the protosocket for sending differs.\<close>

definition out_of :: "httpd_env \<Rightarrow> httpd_env \<Rightarrow> bool" where
  "out_of h h' \<longleftrightarrow> (\<exists>p. h' = h\<lparr>sout := p\<rparr>)"

lemma out_of_refl [simp]: "out_of h h"
  unfolding out_of_def by (intro exI [of _ "sout h"]) simp

lemma out_of_sout [simp]: "out_of h (h\<lparr>sout := p\<rparr>)"
  by (auto simp: out_of_def)

lemma out_of_trans: "out_of h h' \<Longrightarrow> out_of h' h'' \<Longrightarrow> out_of h h''"
  by (auto simp: out_of_def)

lemma out_of_sel:
  assumes "out_of h h'"
  shows "filename h' = filename h" "hfile h' = hfile h" "outputpt h' = outputpt h" "fs_counts h' = fs_counts h"
  using assms by (auto simp: out_of_def)

lemma PSOCK_SEND_gives:
  assumes "psockpt (sout h) = 0" "0 < n" "n \<le> length buf" "n \<le> unat m" "unat m \<le> 366"
  shows "gives (PSOCK_SEND l buf (of_nat n)) (\<lambda>h'. out_of h h' \<and> pt (sout h') = l) (\<lambda>s. s)
    (\<lambda>h'. out_of h h' \<and> psockpt (sout h') = 0) m [take n buf] (\<lambda>_. True) h"
proof -
  define p where "p = (sout h)\<lparr>pt := l\<rparr>"
  let ?h = "h\<lparr>sout := sending buf n p\<rparr>"
  have p: "psockpt p = 0" using assms(1) by (simp add: p_def)
  have same: "(sout ?h)\<lparr>pt := l\<rparr> = sending buf n p" by (simp add: sending_def p_def)
  have 1: "PSOCK_SEND l buf (of_nat n) h s = Some (PT_WAITING, ?h, put_chunk (take n buf) s)" if "event_ok m s" for s :: "'a uip"
    using psock_send_starts [OF p assms(2,3) event_ok_fits [OF that assms(5,4)]]
    by (simp add: PSOCK_SEND_def set_sout_pt_def Let_def p_def)
  have 2: "PSOCK_SEND l buf (of_nat n) ?h s = Some (PT_WAITING, ?h, s)" if "event_ok m s" "\<not> uip_acked s" for s :: "'a uip"
    using psock_send_waits [OF assms(2,3) event_ok_fits [OF that(1) assms(5,4)] that(2), of buf "of_nat n" p] that(1)
    unfolding PSOCK_SEND_def set_sout_pt_def Let_def same by (simp add: event_ok_def)
  have 3: "\<exists>h'. PSOCK_SEND l buf (of_nat n) ?h s = Some (PT_ENDED, h', s) \<and> out_of h h' \<and> psockpt (sout h') = 0"
    if "event_ok m s" "uip_acked s" for s :: "'a uip"
    using psock_send_ends [OF event_ok_fits [OF that(1) assms(5,4)] that(2), of buf "of_nat n" buf p]
    unfolding PSOCK_SEND_def set_sout_pt_def Let_def same by simp
  have "pt (sout ?h) = l" by (simp add: sending_def p_def)
  then show ?thesis
    unfolding gives.simps using 1 2 3 by (fastforce simp: idles_def)
qed

definition message :: "u8 list \<Rightarrow> u8 list \<Rightarrow> bool" where
  "message str ds \<longleftrightarrow> str = ds @ [0] \<and> 0 \<notin> set ds \<and> ds \<noteq> [] \<and> length ds \<le> 100"

lemma strlen_append: "0 \<notin> set ds \<Longrightarrow> strlen (ds @ 0 # xs) = Some (length ds)"
  by (induction ds) auto

lemma PSOCK_SEND_STR_gives:
  assumes "psockpt (sout h) = 0" "message str ds" "100 \<le> unat m" "unat m \<le> 366"
  shows "gives (PSOCK_SEND_STR l str) (\<lambda>h'. out_of h h' \<and> pt (sout h') = l) (\<lambda>s. s)
    (\<lambda>h'. out_of h h' \<and> psockpt (sout h') = 0) m [ds] (\<lambda>_. True) h"
proof -
  have d: "str = ds @ [0]" "0 < length ds" "length ds \<le> unat m" "strlen str = Some (length ds)"
    using assms(2,3) strlen_append [of ds "[]"] by (auto simp: message_def)
  then have "PSOCK_SEND_STR l str = (PSOCK_SEND l str (of_nat (length ds)) :: 'a handler)"
    by (intro ext) (simp add: PSOCK_SEND_STR_def)
  then show ?thesis using PSOCK_SEND_gives [OF assms(1) d(2) _ d(3) assms(4), of str l] d(1) by simp
qed

subsection \<open>The headers\<close>

definition same_conn :: "httpd_env \<Rightarrow> httpd_env \<Rightarrow> bool" where
  "same_conn h h' \<longleftrightarrow> out_of h h' \<and> out_free h'"

lemma PSOCK_END_gives:
  assumes "psockpt (sout h) = 0"
  shows "gives PSOCK_END K (\<lambda>s. s) (same_conn h) m [] P h"
  using assms by (auto simp: PSOCK_END_def same_conn_def out_free_def set_sout_pt_def)

lemma send_content_type_gives:
  assumes "psockpt (sout h) = 0" "message str ds" "100 \<le> unat m" "unat m \<le> 366"
  shows "gives (send_content_type l str :: 'a handler) (\<lambda>h'. out_of h h' \<and> pt (sout h') = l) (\<lambda>s. s) (same_conn h) m [ds] (\<lambda>_. True) h"
proof -
  have e: "send_content_type l str h s = seqt (PSOCK_SEND_STR l str) PSOCK_END h s" for h and s :: "'a uip"
    by (simp add: send_content_type_def seqt_def)
  have "gives (send_content_type l str :: 'a handler) (\<lambda>h'. (out_of h h' \<and> pt (sout h') = l) \<or> False) (\<lambda>s. s) (same_conn h) m ([ds] @ [])
      (\<lambda>_. True) h"
  proof (rule gives_seq [where V = PSOCK_END, OF PSOCK_SEND_STR_gives [OF assms(1-4), of l]])
    fix h' assume "out_of h h' \<and> psockpt (sout h') = 0"
    then show "gives PSOCK_END (\<lambda>_. False) (\<lambda>s. s) (same_conn h) m [] (\<lambda>_. True) h'"
      by (intro gives_mono [OF PSOCK_END_gives]) (auto intro: out_of_trans simp: same_conn_def)
  qed (simp_all add: e)
  then show ?thesis by simp
qed

lemma content_type_messages:
  "map_of content_type_lines l = Some str \<Longrightarrow> l \<noteq> 0 \<and> l \<noteq> 194 \<and> (\<exists>ds. message str ds)"
  by (auto simp: content_type_lines_def message_def crlf_def http_content_type_plain_def http_content_type_html_def
      http_content_type_css_def http_content_type_png_def http_content_type_gif_def http_content_type_jpg_def
      http_content_type_binary_def split: if_splits)

lemma send_headers_gives:
  assumes "out_free h" "message hdr ds" "100 \<le> unat m" "unat m \<le> 366"
    and "content_type (filename h) = Some (l, str)" "map_of content_type_lines l = Some str" "message str cs"
  shows "gives (send_headers hdr :: 'a handler) (out_of h) (\<lambda>s. s) (same_conn h) m [ds, cs] (\<lambda>_. True) h"
proof -
  define V :: "'a handler" where
    "V = (\<lambda>h s. do { (l, str) \<leftarrow> content_type (filename h); send_content_type l str h s })"
  have l: "l \<noteq> 0" "l \<noteq> 194" using content_type_messages [OF assms(6)] by auto
  have e: "send_headers hdr h' s = seqt (PSOCK_SEND_STR 194 hdr) V h' s" if "pt (sout h') = 0 \<or> pt (sout h') = 194" for h' s
    using that by (simp add: send_headers_def seqt_def V_def)
  have "gives (send_headers hdr :: 'a handler) (\<lambda>h'. (out_of h h' \<and> pt (sout h') = 194) \<or> (out_of h h' \<and> pt (sout h') = l)) (\<lambda>s. s)
      (same_conn h) m ([ds] @ [cs]) (\<lambda>_. True) h"
  proof (rule gives_seq [where V = V, OF PSOCK_SEND_STR_gives [OF _ assms(2-4), of h 194]])
    show "psockpt (sout h) = 0" using assms(1) by (simp add: out_free_def)
    show "send_headers hdr h s = seqt (PSOCK_SEND_STR 194 hdr) V h s" for s
      by (rule e) (use assms(1) in \<open>simp add: out_free_def\<close>)
    show "send_headers hdr h' s = seqt (PSOCK_SEND_STR 194 hdr) V h' s" if "out_of h h' \<and> pt (sout h') = 194" for h' s
      by (rule e) (use that in simp)
    fix h' assume h': "out_of h h' \<and> psockpt (sout h') = 0"
    have ct: "content_type (filename h'') = Some (l, str)" if "out_of h' h''" for h''
      using out_of_sel(1) [OF that] out_of_sel(1) [of h h'] h' assms(5) by simp
    have "gives V (\<lambda>h''. out_of h' h'' \<and> pt (sout h'') = l) (\<lambda>s. s) (same_conn h') m [cs] (\<lambda>_. True) h'"
      by (rule gives_transfer [OF send_content_type_gives [of h' str cs m l]]) (use h' assms ct in \<open>auto simp: V_def\<close>)
    then show "gives V (\<lambda>h'. out_of h h' \<and> pt (sout h') = l) (\<lambda>s. s) (same_conn h) m [cs] (\<lambda>_. True) h'"
      by (rule gives_mono) (use h' in \<open>auto intro: out_of_trans simp: same_conn_def\<close>)
  next
    fix h' s assume h': "out_of h h' \<and> pt (sout h') = l"
    then have "content_type (filename h') = Some (l, str)" using out_of_sel(1) [of h h'] assms(5) by simp
    then show "send_headers hdr h' s = V h' s" using h' l assms(6) by (simp add: send_headers_def V_def)
  qed
  note g = this [unfolded append_Cons append_Nil]
  show ?thesis by (rule gives_mono [OF g]) auto
qed

subsection \<open>Files\<close>

function chunks :: "nat \<Rightarrow> 'b list \<Rightarrow> 'b list list" where
  "chunks k xs = (if k = 0 \<or> length xs \<le> k then [xs] else take k xs # chunks k (drop k xs))"
  by pat_completeness auto
termination by (relation "measure (length \<circ> snd)") auto

declare chunks.simps [simp del]

lemma concat_chunks [simp]: "concat (chunks k xs) = xs"
  by (induction k xs rule: chunks.induct) (subst chunks.simps, auto)

lemma chunks_length: "0 < k \<Longrightarrow> b \<in> set (chunks k xs) \<Longrightarrow> length b \<le> k"
proof (induction k xs rule: chunks.induct)
  case (1 k xs)
  from 1(3) show ?case
    by (subst (asm) chunks.simps) (use 1(1,2) in \<open>auto split: if_splits\<close>)
qed

text \<open>The file's data that are still to be sent.\<close>

definition file_holds :: "u8 list \<Rightarrow> httpd_env \<Rightarrow> bool" where
  "file_holds xs h \<longleftrightarrow> fl_data (hfile h) = xs \<and> fl_len (hfile h) = int (length xs)"

definition file_of :: "httpd_env \<Rightarrow> httpd_env \<Rightarrow> bool" where
  "file_of h h' \<longleftrightarrow> (\<exists>p f n. h' = h\<lparr>sout := p, hfile := f, hlen := n\<rparr>)"

lemma file_of_refl: "file_of h h"
  unfolding file_of_def by (intro exI [of _ "sout h"] exI [of _ "hfile h"] exI [of _ "hlen h"]) simp

lemma file_of_trans:
  assumes "file_of h h'" "file_of h' h''"
  shows "file_of h h''"
proof -
  obtain p f n q g k where "h' = h\<lparr>sout := p, hfile := f, hlen := n\<rparr>" "h'' = h'\<lparr>sout := q, hfile := g, hlen := k\<rparr>"
    using assms by (auto simp: file_of_def)
  then have "h'' = h\<lparr>sout := q, hfile := g, hlen := k\<rparr>" by simp
  then show ?thesis unfolding file_of_def by blast
qed

lemma file_of_outputpt: "file_of h h' \<Longrightarrow> outputpt h' = outputpt h \<and> filename h' = filename h"
  by (auto simp: file_of_def)

text \<open>The connection while the first \<open>n\<close> bytes of its file are on their way.\<close>

definition sending_file :: "nat \<Rightarrow> httpd_env \<Rightarrow> httpd_env" where
  "sending_file n h = h\<lparr>hlen := int n, sout := generated (of_nat n) 54 ((sout h)\<lparr>pt := 100\<rparr>)\<rparr>"

lemma generate_part_spec:
  assumes "file_holds xs h" "event_ok m s" "n = min (unat m) (length xs)" "unat m \<le> 366"
  shows "generate_part_of_file h s =
    Some (of_nat n, h\<lparr>hlen := int n\<rparr>, s\<lparr>uip_buf := patch (uip_buf s) 54 (take n xs)\<rparr>)"
proof -
  have u: "int n = min (uint m) (int (length xs))" using assms(3) by (simp add: of_nat_min)
  have h: "(if fl_len (hfile h) > uint m then h\<lparr>hlen := uint m\<rparr> else h\<lparr>hlen := fl_len (hfile h)\<rparr>) = h\<lparr>hlen := int n\<rparr>"
    unfolding u using assms(1) by (cases "uint m < int (length xs)") (simp_all add: file_holds_def)
  have "slice 0 n xs = Some (take n xs)" using assms(3) by (simp add: slice_def)
  moreover have "blit 54 (take n xs) (uip_buf s) = Some (patch (uip_buf s) 54 (take n xs))"
    by (rule blit_patch) (use assms(2-4) in \<open>simp add: event_ok_def\<close>)
  ultimately show ?thesis
    using assms(1,2) h by (simp add: generate_part_of_file_def event_ok_def file_holds_def Let_def)
qed

lemma send_file_starts:
  assumes "file_holds xs h" "event_ok m s" "n = min (unat m) (length xs)" "unat m \<le> 366" "0 < n" "psockpt (sout h) = 0"
  shows "send_file_loop h s = Some (PT_WAITING, sending_file n h, put_chunk (take n xs) s)"
proof -
  let ?h = "set_sout_pt 100 h" and ?s = "s\<lparr>uip_buf := patch (uip_buf s) 54 (take n xs)\<rparr>"
  have g: "generate_part_of_file ?h s = Some (of_nat n, ?h\<lparr>hlen := int n\<rparr>, ?s)"
    by (rule generate_part_spec) (use assms in \<open>simp_all add: file_holds_def set_sout_pt_def\<close>)
  have "n < 65536" using assms(3,4) by simp
  then have n: "(of_nat n :: u16) \<le> m" "(0 :: u16) < of_nat n"
    using assms(3,5) unat_small [of n] by (simp_all add: word_le_nat_alt word_less_nat_alt)
  have "psock_generator_send (Some generate_part_of_file) (sout ?h) ?h s =
      Some (PT_WAITING, generated (of_nat n) 54 (sout ?h), ?h\<lparr>hlen := int n\<rparr>, ?s\<lparr>uip_slen := of_nat n\<rparr>)"
    using generator_send_starts [of "sout ?h" generate_part_of_file ?h s "of_nat n" "?h\<lparr>hlen := int n\<rparr>" ?s m] g n assms(2,6)
    by (simp add: set_sout_pt_def event_ok_def uip_rexmit_def uip_mss_def cn_def)
  moreover have "?s\<lparr>uip_slen := of_nat n\<rparr> = put_chunk (take n xs) s"
    using assms(2,3) by (simp add: put_chunk_def event_ok_def)
  ultimately show ?thesis
    by (subst send_file_loop.simps) (simp add: PSOCK_GENERATOR_SEND_def Let_def sending_file_def set_sout_pt_def)
qed

lemma sending_file_again: "set_sout_pt 100 (sending_file n h) = sending_file n h"
  by (simp add: sending_file_def set_sout_pt_def generated_def)

lemma sending_file_sout: "sout (sending_file n h) = generated (of_nat n) 54 ((sout h)\<lparr>pt := 100\<rparr>)"
  by (simp add: sending_file_def)

definition file_sent :: "httpd_env \<Rightarrow> httpd_env \<Rightarrow> bool" where
  "file_sent h h' \<longleftrightarrow> file_of h h' \<and> out_free h'"

lemma sending_file_of: "file_of h (sending_file n h)"
  unfolding file_of_def sending_file_def
  by (intro exI [of _ "generated (of_nat n) 54 ((sout h)\<lparr>pt := 100\<rparr>)"] exI [of _ "hfile h"] exI [of _ "int n"]) simp

lemma sending_file_idles:
  assumes "n \<le> unat m" "unat m \<le> 366" "0 < n"
  shows "idles send_file m (sending_file n h)"
  unfolding idles_def
proof (intro allI impI)
  fix s :: "'a uip" assume s: "event_ok m s \<and> \<not> uip_acked s"
  have "n < 65536" using assms(1,2) by simp
  then have n: "(of_nat n :: u16) \<le> m" "(0 :: u16) < of_nat n"
    using assms(1,3) unat_small [of n] by (simp_all add: word_le_nat_alt word_less_nat_alt)
  have "psock_generator_send (Some generate_part_of_file) (sout (sending_file n h)) (sending_file n h) s =
      Some (PT_WAITING, sout (sending_file n h), sending_file n h, s)"
    unfolding sending_file_sout using generator_send_waits [of s m "of_nat n" 54] s n by (simp add: event_ok_def)
  then have "send_file_loop (sending_file n h) s = Some (PT_WAITING, sending_file n h, s)"
    by (subst send_file_loop.simps) (simp add: PSOCK_GENERATOR_SEND_def sending_file_again)
  moreover have "pt (sout (sending_file n h)) = 100" by (simp add: sending_file_def generated_def)
  ultimately show "send_file (sending_file n h) s = Some (PT_WAITING, sending_file n h, s)" by (simp add: send_file_def)
qed

lemma send_file_acked:
  assumes "file_holds xs h" "event_ok m s" "uip_acked s" "n = min (unat m) (length xs)" "unat m \<le> 366"
  shows "\<exists>h'. send_file (sending_file n h) s = (if drop n xs = [] then PSOCK_END h' s else send_file_loop h' s) \<and>
    file_holds (drop n xs) h' \<and> file_of h h' \<and> psockpt (sout h') = 0"
proof -
  have "n < 65536" using assms(4,5) by simp
  then have n: "(of_nat n :: u16) \<le> m" using assms(4) unat_small [of n] by (simp add: word_le_nat_alt)
  define q where "q = ((sout h)\<lparr>pt := 100\<rparr>)\<lparr>sendlen := 0, sendptr := Packet (54 + unat (of_nat n :: u16)), psstate := STATE_NONE, psockpt := 0\<rparr>"
  define h' where "h' = h\<lparr>sout := q, hfile := \<lparr>fl_data = drop n xs, fl_len = int (length xs) - int n\<rparr>, hlen := int n\<rparr>"
  have "psock_generator_send (Some generate_part_of_file) (sout (sending_file n h)) (sending_file n h) s =
      Some (PT_ENDED, q, sending_file n h, s)"
    unfolding sending_file_sout q_def
    using generator_send_ends [of s m "of_nat n" generate_part_of_file 54 "(sout h)\<lparr>pt := 100\<rparr>"] assms(2,3) n
    by (simp add: event_ok_def)
  moreover have "file_advance ((sending_file n h)\<lparr>sout := q\<rparr>) = Some h'"
    using assms(1,4) by (simp add: file_advance_def file_holds_def sending_file_def h'_def)
  moreover have "fl_len (hfile h') > 0 \<longleftrightarrow> drop n xs \<noteq> []" using assms(4) by (simp add: h'_def) linarith
  moreover have "pt (sout (sending_file n h)) = 100" by (simp add: sending_file_def generated_def)
  ultimately have "send_file (sending_file n h) s = (if drop n xs = [] then PSOCK_END h' s else send_file_loop h' s)"
    unfolding send_file_def
    by (subst send_file_loop.simps) (simp add: PSOCK_GENERATOR_SEND_def sending_file_again)
  moreover have "file_holds (drop n xs) h'" using assms(4) by (simp add: file_holds_def h'_def of_nat_diff)
  moreover have "file_of h h'" unfolding file_of_def h'_def by blast
  ultimately show ?thesis by (auto simp: h'_def q_def)
qed

lemma sending_file_gives:
  assumes "file_holds xs h" "n = min (unat m) (length xs)" "0 < unat m" "unat m \<le> 366" "xs \<noteq> []"
  shows "gives (send_file :: 'a handler) (\<lambda>h'. file_of h h' \<and> pt (sout h') = 100) (\<lambda>s. s) (file_sent h) m
    (if drop n xs = [] then [] else chunks (unat m) (drop n xs)) uip_acked (sending_file n h)"
  using assms(1,2,5)
proof (induction "length xs" arbitrary: xs h n rule: less_induct)
  case less
  show ?case
  proof (cases "drop n xs = []")
    case True
    show ?thesis unfolding if_P [OF True] gives.simps
    proof (intro allI impI)
      fix s :: "'a uip" assume s: "event_ok m s \<and> uip_acked s"
      obtain h' where h0: "send_file (sending_file n h) s = (if drop n xs = [] then PSOCK_END h' s else send_file_loop h' s)"
        and h': "file_of h h'" "psockpt (sout h') = 0"
        using send_file_acked [OF less.prems(1) conjunct1 [OF s] conjunct2 [OF s] less.prems(2) assms(4)] by blast
      note h0 = h0 [unfolded if_P [OF True]]
      have "file_of h' (set_sout_pt 0 h')"
        unfolding file_of_def set_sout_pt_def
        by (intro exI [of _ "(sout h')\<lparr>pt := 0\<rparr>"] exI [of _ "hfile h'"] exI [of _ "hlen h'"]) simp
      then have "file_sent h (set_sout_pt 0 h')"
        using h'(2) file_of_trans [OF h'(1)] by (simp add: file_sent_def out_free_def set_sout_pt_def)
      then show "\<exists>r h'. send_file (sending_file n h) s = Some (r, h', s) \<and> r \<noteq> PT_WAITING \<and> file_sent h h'"
        unfolding h0 PSOCK_END_def by blast
    qed
  next
    case False
    let ?ys = "drop n xs"
    define k where "k = min (unat m) (length ?ys)"
    have n: "n = unat m" using False less.prems(2) by (simp add: min_def split: if_splits)
    have c: "chunks (unat m) ?ys = take k ?ys # (if drop k ?ys = [] then [] else chunks (unat m) (drop k ?ys))"
      using assms(3) by (subst chunks.simps) (auto simp: k_def min_def)
    show ?thesis unfolding if_not_P [OF False] c gives.simps
    proof (intro allI impI)
      fix s :: "'a uip" assume s: "event_ok m s \<and> uip_acked s"
      obtain h' where h0: "send_file (sending_file n h) s = (if drop n xs = [] then PSOCK_END h' s else send_file_loop h' s)"
        and h': "file_holds ?ys h'" "file_of h h'" "psockpt (sout h') = 0"
        using send_file_acked [OF less.prems(1) conjunct1 [OF s] conjunct2 [OF s] less.prems(2) assms(4)] by blast
      note h0 = h0 [unfolded if_not_P [OF False]]
      have k0: "0 < k" "k \<le> unat m" using False assms(3) by (simp_all add: k_def)
      have l: "length ?ys < length xs" using n assms(3) False less.prems(3) by simp
      have "send_file (sending_file n h) s = Some (PT_WAITING, sending_file k h', put_chunk (take k ?ys) s)"
        unfolding h0 by (rule send_file_starts [OF h'(1) conjunct1 [OF s] k_def assms(4) k0(1) h'(3)])
      moreover have "file_of h (sending_file k h')" using file_of_trans [OF h'(2) sending_file_of] .
      moreover have "pt (sout (sending_file k h')) = 100" by (simp add: sending_file_def generated_def)
      moreover have "idles (send_file :: 'a handler) m (sending_file k h')" by (rule sending_file_idles [OF k0(2) assms(4) k0(1)])
      moreover have "gives (send_file :: 'a handler) (\<lambda>h'. file_of h h' \<and> pt (sout h') = 100) (\<lambda>s. s) (file_sent h) m
          (if drop k ?ys = [] then [] else chunks (unat m) (drop k ?ys)) (uip_acked :: 'a uip \<Rightarrow> bool) (sending_file k h')"
        by (rule gives_mono [OF less.hyps [OF l h'(1) k_def False]])
          (use file_of_trans [OF h'(2)] in \<open>simp_all add: file_sent_def\<close>)
      ultimately show "\<exists>h'. send_file (sending_file n h) s = Some (PT_WAITING, h', put_chunk (take k ?ys) s) \<and>
          (file_of h h' \<and> pt (sout h') = 100) \<and> idles (send_file :: 'a handler) m h' \<and>
          gives (send_file :: 'a handler) (\<lambda>h'. file_of h h' \<and> pt (sout h') = 100) (\<lambda>s. s) (file_sent h) m
            (if drop k ?ys = [] then [] else chunks (unat m) (drop k ?ys)) uip_acked h'"
        by (intro exI [of _ "sending_file k h'"] conjI)
    qed
  qed
qed

lemma send_file_gives:
  assumes "file_holds xs h" "xs \<noteq> []" "0 < unat m" "unat m \<le> 366" "out_free h"
  shows "gives (send_file :: 'a handler) (\<lambda>h'. file_of h h' \<and> pt (sout h') = 100) (\<lambda>s. s) (file_sent h) m (chunks (unat m) xs) (\<lambda>_. True) h"
proof -
  define n where "n = min (unat m) (length xs)"
  have n0: "0 < n" "n \<le> unat m" using assms(2,3) by (simp_all add: n_def)
  have c: "chunks (unat m) xs = take n xs # (if drop n xs = [] then [] else chunks (unat m) (drop n xs))"
    using assms(3) by (subst chunks.simps) (auto simp: n_def min_def)
  show ?thesis unfolding c gives.simps
  proof (intro allI impI)
    fix s :: "'a uip" assume s: "event_ok m s \<and> True"
    have "send_file h s = Some (PT_WAITING, sending_file n h, put_chunk (take n xs) s)"
      using send_file_starts [OF assms(1) _ n_def assms(4) n0(1), of s] s assms(5) by (simp add: send_file_def out_free_def)
    moreover have "pt (sout (sending_file n h)) = 100" by (simp add: sending_file_def generated_def)
    ultimately show "\<exists>h'. send_file h s = Some (PT_WAITING, h', put_chunk (take n xs) s) \<and>
        (file_of h h' \<and> pt (sout h') = 100) \<and> idles (send_file :: 'a handler) m h' \<and>
        gives (send_file :: 'a handler) (\<lambda>h'. file_of h h' \<and> pt (sout h') = 100) (\<lambda>s. s) (file_sent h) m
          (if drop n xs = [] then [] else chunks (unat m) (drop n xs)) uip_acked h'"
      using sending_file_of sending_file_idles [OF n0(2) assms(4) n0(1)]
        sending_file_gives [OF assms(1) n_def assms(3,4,2)] by blast
  qed
qed

subsection \<open>The whole answer\<close>

lemma gives_labelled:
  assumes "gives T I fin Q m bs P (h\<lparr>outputpt := l\<rparr>)" "\<And>h'. I h' \<Longrightarrow> outputpt h' = l"
  shows "gives (\<lambda>h. T (h\<lparr>outputpt := l\<rparr>)) I fin Q m bs P h"
proof (rule gives_transfer [OF assms(1)])
  show "T (h'\<lparr>outputpt := l\<rparr>) s = T h' s" if "I h'" for h' s
  proof -
    have "h'\<lparr>outputpt := l\<rparr> = h'" using assms(2) [OF that] by simp
    then show ?thesis by simp
  qed
qed simp_all

lemma output_last_gives:
  assumes "gives T I (\<lambda>s. s) Q m bs (\<lambda>_. True) (h\<lparr>outputpt := l\<rparr>)" "\<And>h'. I h' \<Longrightarrow> outputpt h' = l"
  shows "gives (output_last l T) I uip_close (\<lambda>h'. outputpt h' = 0) m bs (\<lambda>_. True) h"
proof -
  have e: "output_last l T h s = seqt (\<lambda>h. T (h\<lparr>outputpt := l\<rparr>)) output_close h s" for h s
    by (simp add: output_last_def seqt_def)
  have "gives (output_last l T) (\<lambda>h. I h \<or> False) uip_close (\<lambda>h'. outputpt h' = 0) m (bs @ []) (\<lambda>_. True) h"
    by (rule gives_seq [where V = output_close, OF gives_labelled [OF assms]]) (simp_all add: e output_close_def)
  then show ?thesis by simp
qed

lemma output_200_gives:
  assumes "file_holds xs h" "xs \<noteq> []" "out_free h" "100 \<le> unat m" "unat m \<le> 366" "is_shtml (filename h) = Some False"
    and "content_type (filename h) = Some (l, str)" "map_of content_type_lines l = Some str"
    and "message http_header_200 ds" "message str cs" "\<And>s :: 'a uip. handle_output h0 s = output_headers_200 h s"
  shows "gives (handle_output :: 'a handler) (\<lambda>_. True) uip_close (\<lambda>h'. outputpt h' = 0) m
    (ds # cs # chunks (unat m) xs) (\<lambda>_. True) h0"
proof -
  define V :: "'a handler" where "V = (\<lambda>h s. do { shtml \<leftarrow> is_shtml (filename h);
    if shtml then output_last 238 handle_script (h\<lparr>scriptpt := 0\<rparr>) s else output_last 240 send_file h s })"
  let ?T = "\<lambda>h. send_headers http_header_200 (h\<lparr>outputpt := 232\<rparr>)"
  let ?h = "h\<lparr>outputpt := 232\<rparr>"
  have e: "output_headers_200 h s = seqt ?T V h s" for h and s :: "'a uip"
    by (simp add: output_headers_200_def seqt_def V_def)
  have T: "gives (?T :: 'a handler) (out_of ?h) (\<lambda>s. s) (same_conn ?h) m [ds, cs] (\<lambda>_. True) h"
    by (rule gives_labelled [OF send_headers_gives [OF _ assms(9,4,5) _ assms(8,10)]])
      (use assms(3,7) out_of_sel(3) in \<open>auto simp: out_free_def\<close>)
  have "gives (handle_output :: 'a handler) (\<lambda>h'. out_of ?h h' \<or> (outputpt h' = 240 \<and> filename h' = filename h)) uip_close
      (\<lambda>h'. outputpt h' = 0) m ([ds, cs] @ chunks (unat m) xs) (\<lambda>_. True) h0"
  proof (rule gives_seq [where V = V, OF T])
    show "handle_output h0 s = seqt ?T V h s" for s :: "'a uip" by (simp add: assms(11) e)
    show "handle_output h' s = seqt ?T V h' s" if "out_of ?h h'" for h' and s :: "'a uip"
      using out_of_sel(3) [OF that] by (simp add: handle_output_def e)
    show "handle_output h' s = V h' s" if "outputpt h' = 240 \<and> filename h' = filename h" for h' and s :: "'a uip"
      using that assms(6) by (simp add: handle_output_def V_def)
    fix h1 assume "same_conn ?h h1"
    then have h1: "out_of ?h h1" "out_free h1" by (simp_all add: same_conn_def)
    have f: "file_holds xs (h1\<lparr>outputpt := 240\<rparr>)" "filename h1 = filename h" "out_free (h1\<lparr>outputpt := 240\<rparr>)"
      using h1 assms(1) out_of_sel [OF h1(1)] by (simp_all add: file_holds_def out_free_def)
    have "gives (output_last 240 send_file :: 'a handler)
        (\<lambda>h'. file_of (h1\<lparr>outputpt := 240\<rparr>) h' \<and> pt (sout h') = 100) uip_close (\<lambda>h'. outputpt h' = 0) m
        (chunks (unat m) xs) (\<lambda>_. True) h1"
      by (rule output_last_gives [OF send_file_gives [OF f(1) assms(2) _ assms(5) f(3)]])
        (use assms(4) file_of_outputpt in auto)
    then show "gives V (\<lambda>h'. outputpt h' = 240 \<and> filename h' = filename h) uip_close (\<lambda>h'. outputpt h' = 0) m
        (chunks (unat m) xs) (\<lambda>_. True) h1"
    proof (rule gives_transfer)
      show "V h1 s = output_last 240 send_file h1 s" for s :: "'a uip" using f(2) assms(6) by (simp add: V_def)
      show "outputpt h' = 240 \<and> filename h' = filename h" if "file_of (h1\<lparr>outputpt := 240\<rparr>) h' \<and> pt (sout h') = 100" for h'
        using file_of_outputpt [OF conjunct1 [OF that]] f(2) by simp
      show "V h' s = output_last 240 send_file h' s" if "file_of (h1\<lparr>outputpt := 240\<rparr>) h' \<and> pt (sout h') = 100"
        for h' and s :: "'a uip"
        using file_of_outputpt [OF conjunct1 [OF that]] f(2) assms(6) by (simp add: V_def)
    qed
  qed
  note g = this [unfolded append_Cons append_Nil]
  show ?thesis by (rule gives_mono [OF g]) auto
qed

lemma output_404_gives:
  assumes "file_holds xs h" "xs \<noteq> []" "out_free h" "100 \<le> unat m" "unat m \<le> 366"
    and "content_type (filename h) = Some (l, str)" "map_of content_type_lines l = Some str"
    and "message http_header_404 ds" "message str cs" "\<And>s :: 'a uip. handle_output h0 s = output_headers_404 h s"
  shows "gives (handle_output :: 'a handler) (\<lambda>_. True) uip_close (\<lambda>h'. outputpt h' = 0) m
    (ds # cs # chunks (unat m) xs) (\<lambda>_. True) h0"
proof -
  let ?T = "\<lambda>h. send_headers http_header_404 (h\<lparr>outputpt := 226\<rparr>)"
  let ?h = "h\<lparr>outputpt := 226\<rparr>"
  have e: "output_headers_404 h s = seqt ?T (output_last 229 send_file) h s" for h and s :: "'a uip"
    by (simp add: output_headers_404_def seqt_def)
  have T: "gives (?T :: 'a handler) (out_of ?h) (\<lambda>s. s) (same_conn ?h) m [ds, cs] (\<lambda>_. True) h"
    by (rule gives_labelled [OF send_headers_gives [OF _ assms(8,4,5) _ assms(7,9)]])
      (use assms(3,6) out_of_sel(3) in \<open>auto simp: out_free_def\<close>)
  have "gives (handle_output :: 'a handler) (\<lambda>h'. out_of ?h h' \<or> outputpt h' = 229) uip_close
      (\<lambda>h'. outputpt h' = 0) m ([ds, cs] @ chunks (unat m) xs) (\<lambda>_. True) h0"
  proof (rule gives_seq [where V = "output_last 229 send_file", OF T])
    show "handle_output h0 s = seqt ?T (output_last 229 send_file) h s" for s :: "'a uip" by (simp add: assms(10) e)
    show "handle_output h' s = seqt ?T (output_last 229 send_file) h' s" if "out_of ?h h'" for h' and s :: "'a uip"
      using out_of_sel(3) [OF that] by (simp add: handle_output_def e)
    show "handle_output h' s = output_last 229 send_file h' s" if "outputpt h' = 229" for h' and s :: "'a uip"
      using that by (simp add: handle_output_def)
    fix h1 assume "same_conn ?h h1"
    then have h1: "out_of ?h h1" "out_free h1" by (simp_all add: same_conn_def)
    have f: "file_holds xs (h1\<lparr>outputpt := 229\<rparr>)" "out_free (h1\<lparr>outputpt := 229\<rparr>)"
      using h1 assms(1) out_of_sel [OF h1(1)] by (simp_all add: file_holds_def out_free_def)
    have "gives (output_last 229 send_file :: 'a handler)
        (\<lambda>h'. file_of (h1\<lparr>outputpt := 229\<rparr>) h' \<and> pt (sout h') = 100) uip_close (\<lambda>h'. outputpt h' = 0) m
        (chunks (unat m) xs) (\<lambda>_. True) h1"
      by (rule output_last_gives [OF send_file_gives [OF f(1) assms(2) _ assms(5) f(2)]])
        (use assms(4) file_of_outputpt in auto)
    then show "gives (output_last 229 send_file :: 'a handler) (\<lambda>h'. outputpt h' = 229) uip_close (\<lambda>h'. outputpt h' = 0) m
        (chunks (unat m) xs) (\<lambda>_. True) h1"
      by (rule gives_mono) (use file_of_outputpt in auto)
  qed
  note g = this [unfolded append_Cons append_Nil]
  show ?thesis by (rule gives_mono [OF g]) auto
qed

text \<open>The events after one another, until the thread has ended.\<close>

fun run_thread :: "'a handler \<Rightarrow> httpd_env \<Rightarrow> 'a uip list \<Rightarrow> ('a uip list \<times> httpd_env) option" where
  "run_thread T h [] = Some ([], h)"
| "run_thread T h (s # ss) = do {
     (r, h, s) \<leftarrow> T h s;
     if r = PT_WAITING then do { (os, h) \<leftarrow> run_thread T h ss; Some (s # os, h) } else Some ([s], h) }"

text \<open>What the stack is to send after the event.\<close>

definition to_send :: "'a uip \<Rightarrow> u8 list" where
  "to_send s = take (unat (uip_slen s)) (drop (uip_sappdata s) (uip_buf s))"

lemma to_send_chunk:
  assumes "event_ok m s" "length b \<le> 366"
  shows "to_send (put_chunk b s) = b"
proof -
  have "unat (of_nat (length b) :: u16) = length b" using assms(2) by (intro unat_small) simp
  then show ?thesis using assms by (simp add: to_send_def event_ok_def patch_def)
qed

lemma to_send_nothing: "uip_slen s = 0 \<Longrightarrow> to_send s = [] \<and> to_send (uip_close s) = []"
  by (simp add: to_send_def uip_close_def)

lemma gives_run:
  assumes "gives T I uip_close Q m bs uip_acked h" "idles T m h" "\<forall>b \<in> set bs. length b \<le> 366"
    and "\<forall>s \<in> set es. event_ok m s \<and> uip_slen s = 0"
    and "es \<noteq> []" "uip_acked (last es)" "length (filter uip_acked es) = Suc (length bs)"
  shows "\<exists>os h'. run_thread T h es = Some (os, h') \<and> concat (map to_send os) = concat bs \<and> length os = length es \<and>
    last os = uip_close (last es) \<and> Q h'"
  using assms
proof (induction es arbitrary: bs h)
  case (Cons s es)
  have s: "event_ok m s" "to_send s = []" "to_send (uip_close s) = []" using Cons.prems(4) to_send_nothing by auto
  show ?case
  proof (cases "uip_acked s")
    case False
    then have ne: "es \<noteq> []" using Cons.prems(6) by auto
    then have "uip_acked (last es)" "length (filter uip_acked es) = Suc (length bs)" "\<forall>s \<in> set es. event_ok m s \<and> uip_slen s = 0"
      using Cons.prems(4,6,7) False by simp_all
    from Cons.IH [OF Cons.prems(1-3) this(3) ne this(1,2)]
    obtain os h' where r: "run_thread T h es = Some (os, h')" "concat (map to_send os) = concat bs" "length os = length es"
      "last os = uip_close (last es)" "Q h'" by blast
    have "T h s = Some (PT_WAITING, h, s)" using Cons.prems(2) s(1) False by (simp add: idles_def)
    moreover have "os \<noteq> []" using r(3) ne by auto
    ultimately show ?thesis using r s(2) ne by simp
  next
    case True
    show ?thesis
    proof (cases bs)
      case Nil
      then have "es = []" using Cons.prems(6,7) True by (cases es rule: rev_cases) simp_all
      moreover obtain r h' where "T h s = Some (r, h', uip_close s)" "r \<noteq> PT_WAITING" "Q h'"
        using Cons.prems(1) s(1) True unfolding Nil gives.simps by blast
      ultimately show ?thesis using Nil s(3) by simp
    next
      case b: (Cons b bs')
      obtain h1 where h1: "T h s = Some (PT_WAITING, h1, put_chunk b s)" "idles T m h1" "gives T I uip_close Q m bs' uip_acked h1"
        using Cons.prems(1) s(1) True unfolding b gives.simps by blast
      have ne: "es \<noteq> []" using Cons.prems(7) True b by auto
      then have "uip_acked (last es)" "length (filter uip_acked es) = Suc (length bs')"
        "\<forall>s \<in> set es. event_ok m s \<and> uip_slen s = 0" "\<forall>b \<in> set bs'. length b \<le> 366"
        using Cons.prems(3,4,6,7) True b by simp_all
      from Cons.IH [OF h1(3,2) this(4,3) ne this(1,2)]
      obtain os h' where r: "run_thread T h1 es = Some (os, h')" "concat (map to_send os) = concat bs'" "length os = length es"
        "last os = uip_close (last es)" "Q h'" by blast
      moreover have "os \<noteq> []" using r(3) ne by auto
      ultimately show ?thesis using h1(1) to_send_chunk [OF s(1), of b] Cons.prems(3) b ne by simp
    qed
  qed
qed simp

subsection \<open>Names and their files\<close>

lemma strrchr_from_total:
  "\<forall>q. r = Some q \<longrightarrow> 0 \<in> set q \<Longrightarrow> 0 \<in> set xs \<Longrightarrow> \<exists>r'. strrchr_from c r xs = Some r' \<and> (\<forall>q. r' = Some q \<longrightarrow> 0 \<in> set q)"
  by (induction c r xs rule: strrchr_from.induct) (auto simp: Let_def)

lemma strncmp_eq_total: "0 \<in> set a \<Longrightarrow> 0 \<in> set b \<Longrightarrow> \<exists>r. strncmp_eq n a b = Some r"
  by (induction n a b rule: strncmp_eq.induct) auto

lemma content_type_total:
  assumes "0 \<in> set name"
  shows "\<exists>l str. content_type name = Some (l, str) \<and> map_of content_type_lines l = Some str"
proof -
  obtain r where r: "strrchr ISO_period name = Some r" "\<And>q. r = Some q \<Longrightarrow> 0 \<in> set q"
    using strrchr_from_total [of None name ISO_period] assms by (auto simp: strrchr_def)
  show ?thesis
  proof (cases r)
    case None
    then show ?thesis using r(1) by (simp add: content_type_def content_type_lines_def)
  next
    case (Some q)
    have z: "0 \<in> set http_html" "0 \<in> set http_shtml" "0 \<in> set http_css" "0 \<in> set http_png" "0 \<in> set http_gif" "0 \<in> set http_jpg"
      by (simp_all add: http_html_def http_shtml_def http_css_def http_png_def http_gif_def http_jpg_def cstring_def)
    note t = strncmp_eq_total [OF _ r(2) [OF Some]]
    obtain a b c d e f where "strncmp_eq 5 http_html q = Some a" "strncmp_eq 6 http_shtml q = Some b"
      "strncmp_eq 4 http_css q = Some c" "strncmp_eq 4 http_png q = Some d" "strncmp_eq 4 http_gif q = Some e"
      "strncmp_eq 4 http_jpg q = Some f" using t [OF z(1)] t [OF z(2)] t [OF z(3)] t [OF z(4)] t [OF z(5)] t [OF z(6)] by metis
    then show ?thesis using r(1) Some by (simp add: content_type_def content_type_lines_def)
  qed
qed

lemma content_type_404: "content_type (http_404_html @ xs) = Some (201, http_content_type_html)"
proof -
  have n: "(5 :: nat) = Suc (Suc (Suc (Suc (Suc 0))))" by simp
  show ?thesis unfolding content_type_def n
    by (simp add: http_404_html_def cstring_def strrchr_def http_html_def Let_def)
qed

lemma message_butlast: "message str ds \<Longrightarrow> butlast str = ds"
  by (auto simp: message_def)

lemma header_messages: "message http_header_200 (butlast http_header_200)" "message http_header_404 (butlast http_header_404)"
  "message http_content_type_html (butlast http_content_type_html)"
  by (simp_all add: message_def http_header_200_def http_header_404_def http_content_type_html_def crlf_def)

lemma root_files:
  "f \<in> set HTTPD_FS_ROOT \<Longrightarrow> f_len f = int (length (f_data f)) \<and> f_data f \<noteq> []"
proof -
  assume f: "f \<in> set HTTPD_FS_ROOT"
  have "17 < length data_stats_shtml" "17 < length data_fade_png" "17 < length data_tcp_shtml" "17 < length data_style_css"
    "17 < length data_index_html" "17 < length data_header_html" "17 < length data_files_shtml" "17 < length data_404_html"
    "17 < length data_processes_shtml" "13 < length data_footer_html"
    by (simp_all add: data_stats_shtml_def data_fade_png_def data_tcp_shtml_def data_style_css_def data_index_html_def
        data_header_html_def data_files_shtml_def data_404_html_def data_processes_shtml_def data_footer_html_def)
  then show ?thesis using f
    by (auto simp: HTTPD_FS_ROOT_def file_stats_shtml_def file_fade_png_def file_tcp_shtml_def file_style_css_def
        file_index_html_def file_header_html_def file_footer_html_def file_files_shtml_def file_404_html_def
        file_processes_shtml_def of_nat_diff)
qed

subsection \<open>The answer to a request\<close>

text \<open>The bytes of the answer to a request for \<open>name\<close>, stored in the array \<open>fn\<close>: status line and
  headers, the content type by the extension and the file.\<close>

definition answer_body :: "u8 list \<Rightarrow> u8 list" where
  "answer_body name = (case requested_file name of
     None \<Rightarrow> f_data file_404_html
   | Some i \<Rightarrow> f_data (HTTPD_FS_ROOT ! i))"

definition answer :: "u8 list \<Rightarrow> u8 list \<Rightarrow> u8 list" where
  "answer fn name = (case requested_file name of
     None \<Rightarrow> butlast http_header_404 @ butlast http_content_type_html
   | Some i \<Rightarrow> butlast http_header_200 @ (case content_type fn of
       Some (l, str) \<Rightarrow> butlast str | None \<Rightarrow> [])) @ answer_body name"

lemma handle_output_gives:
  assumes "outputpt h = 0" "out_free h" "filename h = us @ 0 # us'" "0 \<notin> set us" "length (filename h) = 20"
    and "length (fs_counts h) = HTTPD_FS_NUMFILES" "is_shtml (filename h) = Some False" "100 \<le> unat m" "unat m \<le> 366"
  shows "\<exists>ds cs. gives (handle_output :: 'a handler) (\<lambda>_. True) uip_close (\<lambda>h'. outputpt h' = 0) m
      (ds # cs # chunks (unat m) (answer_body us)) (\<lambda>_. True) h \<and>
    length ds \<le> 100 \<and> length cs \<le> 100 \<and>
    (case requested_file us of
      None \<Rightarrow> ds = butlast http_header_404 \<and> cs = butlast http_content_type_html
    | Some i \<Rightarrow> ds = butlast http_header_200 \<and> (\<exists>l str. content_type (filename h) = Some (l, str) \<and> cs = butlast str))"
proof (cases "requested_file us")
  case None
  have o1: "httpd_fs_open (filename h) (hfile h) (fs_counts h) = Some (False, hfile h, fs_counts h)"
    using httpd_fs_open_spec [OF assms(6), of "filename h" us] None by (simp add: assms(3) c_name_def)
  have r8: "requested_file (map of_char ''/404.html'') = Some 8"
    by (simp add: requested_file_def file_names_def upt_rec)
  have n404: "http_404_html = map of_char ''/404.html'' @ 0 # []" by (simp add: http_404_html_def cstring_def)
  obtain c where o2: "httpd_fs_open http_404_html (hfile h) (fs_counts h) =
      Some (True, \<lparr>fl_data = f_data file_404_html, fl_len = f_len file_404_html\<rparr>, c)"
    using httpd_fs_open_spec [OF assms(6), of http_404_html "map of_char ''/404.html''"] r8
    unfolding n404 by (simp add: c_name_def HTTPD_FS_ROOT_def)
  have "length http_404_html = 10" by (simp add: http_404_html_def cstring_def)
  then have b: "blit 0 http_404_html (filename h) = Some (http_404_html @ drop 10 (filename h))"
    using assms(5) by (simp add: blit_def)
  define h1 where "h1 = h\<lparr>hfile := \<lparr>fl_data = f_data file_404_html, fl_len = f_len file_404_html\<rparr>, fs_counts := c,
    filename := http_404_html @ drop 10 (filename h)\<rparr>"
  have e: "handle_output h s = output_headers_404 h1 s" for s :: "'a uip"
    using assms(1) o1 o2 b by (simp add: handle_output_def h1_def)
  have f: "f_len file_404_html = int (length (f_data file_404_html))" "f_data file_404_html \<noteq> []"
    using root_files [of file_404_html] by (simp_all add: HTTPD_FS_ROOT_def)
  have "gives (handle_output :: 'a handler) (\<lambda>_. True) uip_close (\<lambda>h'. outputpt h' = 0) m
      (butlast http_header_404 # butlast http_content_type_html # chunks (unat m) (f_data file_404_html)) (\<lambda>_. True) h"
    by (rule output_404_gives [of _ h1 m 201 http_content_type_html])
      (use f assms(2,8,9) header_messages content_type_404 e in
        \<open>auto simp: file_holds_def out_free_def h1_def content_type_lines_def\<close>)
  moreover have "length (butlast http_header_404) \<le> 100" "length (butlast http_content_type_html) \<le> 100"
    using header_messages by (simp_all add: message_def)
  ultimately show ?thesis using None by (auto simp: answer_body_def)
next
  case (Some i)
  then have i: "i < 10" by (rule requested_file_less)
  let ?f = "HTTPD_FS_ROOT ! i"
  obtain c where o1: "httpd_fs_open (filename h) (hfile h) (fs_counts h) =
      Some (True, \<lparr>fl_data = f_data ?f, fl_len = f_len ?f\<rparr>, c)"
    using httpd_fs_open_spec [OF assms(6), of "filename h" us] Some by (simp add: assms(3) c_name_def)
  define h1 where "h1 = h\<lparr>hfile := \<lparr>fl_data = f_data ?f, fl_len = f_len ?f\<rparr>, fs_counts := c\<rparr>"
  have e: "handle_output h s = output_headers_200 h1 s" for s :: "'a uip"
    using assms(1) o1 by (simp add: handle_output_def h1_def)
  have "?f \<in> set HTTPD_FS_ROOT" using i by (simp add: HTTPD_FS_ROOT_def del: list.set)
  then have f: "f_len ?f = int (length (f_data ?f))" "f_data ?f \<noteq> []" using root_files by blast+
  obtain l str where ct: "content_type (filename h) = Some (l, str)" "map_of content_type_lines l = Some str"
    using content_type_total [of "filename h"] by (auto simp: assms(3))
  then obtain cs where cs: "message str cs" using content_type_messages by blast
  have "gives (handle_output :: 'a handler) (\<lambda>_. True) uip_close (\<lambda>h'. outputpt h' = 0) m
      (butlast http_header_200 # cs # chunks (unat m) (f_data ?f)) (\<lambda>_. True) h"
    by (rule output_200_gives [of _ h1 m l str])
      (use f assms(2,7-9) header_messages ct cs e in \<open>auto simp: file_holds_def out_free_def h1_def\<close>)
  moreover have "length (butlast http_header_200) \<le> 100" "length cs \<le> 100"
    using header_messages cs by (simp_all add: message_def)
  ultimately show ?thesis using Some ct(1) message_butlast [OF cs] by (auto simp: answer_body_def)
qed


lemma strrchr_overread: "0 \<notin> set xs \<Longrightarrow> strrchr_from c r xs = None"
  by (induction xs arbitrary: r) (auto simp: Let_def)

text \<open>A name of twenty or more characters that starts with a file's name is stored without a
  terminating zero. The status line is still sent; with its acknowledgement, the search for the
  extension reads past the array.\<close>

theorem httpd_long_name_overread:
  assumes "outputpt h = 0" "out_free h" "length (filename h) = 20" "0 \<notin> set (filename h)"
    and "requested_file (filename h) = Some i" "length (fs_counts h) = HTTPD_FS_NUMFILES" "100 \<le> unat m" "unat m \<le> 366"
    and "event_ok m (s0 :: 'a uip)" "event_ok m (s1 :: 'a uip)" "uip_acked s1"
  shows "\<exists>h'. handle_output h s0 = Some (PT_WAITING, h', put_chunk (butlast http_header_200) s0) \<and>
    handle_output h' s1 = None"
proof -
  obtain f c where "httpd_fs_open (filename h) (hfile h) (fs_counts h) = Some (True, f, c)"
    using httpd_fs_open_spec [OF assms(6), of "filename h" "filename h"] assms(3,5) by (simp add: c_name_def)
  then obtain h1 where h1: "handle_output h s = output_headers_200 h1 s" "filename h1 = filename h" "sout h1 = sout h" for s :: "'a uip"
    using assms(1) that [of "h\<lparr>hfile := f, fs_counts := c\<rparr>"] by (simp add: handle_output_def)
  let ?T = "PSOCK_SEND_STR 194 http_header_200"
  let ?h = "h1\<lparr>outputpt := 232\<rparr>"
  have "psockpt (sout ?h) = 0" using assms(2) h1(3) by (simp add: out_free_def)
  from PSOCK_SEND_STR_gives [OF this header_messages(1) assms(7,8), of 194, unfolded gives.simps]
  obtain h2 where h2: "?T ?h s0 = Some (PT_WAITING, h2, put_chunk (butlast http_header_200) s0)"
    "out_of ?h h2" "pt (sout h2) = 194" "\<exists>r h'. ?T h2 s1 = Some (r, h', s1) \<and> r \<noteq> PT_WAITING \<and> out_of ?h h' \<and> psockpt (sout h') = 0"
    using assms(9-11) by blast
  have "pt (sout ?h) = 0" using assms(2) h1(3) by (simp add: out_free_def)
  then have "handle_output h s0 = Some (PT_WAITING, h2, put_chunk (butlast http_header_200) s0)"
    using h1(1) h2(1) by (simp add: output_headers_200_def send_headers_def)
  moreover obtain r h3 where h3: "?T h2 s1 = Some (r, h3, s1)" "r \<noteq> PT_WAITING" "out_of ?h h3"
    using h2(4) by blast
  have c: "content_type (filename h3) = None"
    using strrchr_overread [OF assms(4)] out_of_sel(1) [OF h3(3)] h1(2)
    by (simp add: content_type_def strrchr_def)
  have o: "outputpt h2 = 232" using out_of_sel(3) [OF h2(2)] by simp
  have e: "h2\<lparr>outputpt := 232\<rparr> = h2" by (cases h2) (use o in simp)
  have "output_headers_200 h2 s1 = None"
    using h3(1,2) h2(3) c by (simp add: output_headers_200_def send_headers_def e)
  then have "handle_output h2 s1 = None" by (simp add: handle_output_def o)
  ultimately show ?thesis by blast
qed

end
