(* ===== verification/UipHttpSamples.thy ===== *)
theory UipHttpSamples
  imports UipWebSamples UipHttpRequest UipHttpAnswer
begin

text \<open>
  The theorems on the web server at work, on small requests and files.
\<close>

text \<open>A connection that waits for a request, and one in the output phase with the name \<open>fn\<close>.\<close>

definition fresh_httpd :: httpd_env where
  "fresh_httpd = \<lparr>htimer = 0, sin = psock_init 0 49 fresh_psock, sout = psock_init 0 49 fresh_psock,
     outputpt = 0, scriptpt = 0, inputbuf = replicate 50 0, filename = replicate 20 0, hphase = STATE_WAITING,
     hfile = \<lparr>fl_data = [], fl_len = 0\<rparr>, hlen = 0, scriptptr = [], scriptlen = 0, hcount = 0,
     fs_counts = replicate 10 0\<rparr>"

definition asked_httpd :: "u8 list \<Rightarrow> httpd_env" where
  "asked_httpd fn = fresh_httpd\<lparr>filename := fn, hphase := STATE_OUTPUT\<rparr>"

theorem httpd_fs_open_finds_witness:
  "httpd_fs_open (cstring ''/footer.html?x'') \<lparr>fl_data = [], fl_len = 0\<rparr> (replicate 10 0) =
    Some (True, \<lparr>fl_data = f_data file_footer_html, fl_len = f_len file_footer_html\<rparr>, (replicate 10 0)[6 := 1]) \<and>
   httpd_fs_open (cstring ''/foot'') \<lparr>fl_data = [], fl_len = 0\<rparr> (replicate 10 7) =
    Some (False, \<lparr>fl_data = [], fl_len = 0\<rparr>, replicate 10 7)"
proof -
  have n: "[0 ..< 10] = [0, 1, 2, 3, 4, 5, 6, 7, 8, 9 :: nat]" by (simp add: upt_rec)
  show ?thesis
    using httpd_fs_open_finds [of "replicate 10 0" "map of_char ''/footer.html?x''" "[]" "\<lparr>fl_data = [], fl_len = 0\<rparr>"]
      httpd_fs_open_finds [of "replicate 10 7" "map of_char ''/foot''" "[]" "\<lparr>fl_data = [], fl_len = 0\<rparr>"]
    by (simp add: n file_names_def cstring_def HTTPD_FS_ROOT_def)
qed

theorem httpd_parses_request_witness:
  "\<exists>h'. input_events fresh_httpd [data_event (map of_char ''GET /fo''), data_event (map of_char ''oter.html H'')] = Some h' \<and>
    hphase h' = STATE_OUTPUT \<and> filename h' = map of_char ''/footer.html'' @ replicate 8 0"
proof -
  let ?x = "map of_char ''GET /fo'' :: u8 list" and ?y = "map of_char ''oter.html H'' :: u8 list"
  have b: "list_all2 brings [data_event ?x, data_event ?y] [?x, ?y]"
    using brings_data_event [of ?x] brings_data_event [of ?y] by simp
  have "stored_name (map of_char ''/footer.html'') = map of_char ''/footer.html'' @ replicate 8 0"
    by (simp add: stored_name_def)
  moreover have "sin fresh_httpd = psock_init 0 49 fresh_psock" "hphase fresh_httpd = STATE_WAITING"
    "length (inputbuf fresh_httpd) = 50" by (simp_all add: fresh_httpd_def)
  ultimately show ?thesis
    using httpd_parses_request [OF _ _ _ b, of fresh_httpd fresh_psock "map of_char ''/footer.html''" "map of_char ''H''"]
    by simp
qed

lemma event_ok_event_state: "f AND UIP_REXMIT = 0 \<Longrightarrow> event_ok m (event_state m f)"
  by (simp add: event_ok_def uip_rexmit_def) (simp add: event_state_def bss_uip_def)

lemma acked_event_state: "uip_acked (event_state m f) \<longleftrightarrow> f AND UIP_ACKDATA \<noteq> 0"
  by (simp add: uip_acked_def)

lemma slen_event_state: "uip_slen (event_state m f) = 0"
  by (simp add: event_state_def bss_uip_def)

lemma upto_10: "[0 ..< 10] = [0, 1, 2, 3, 4, 5, 6, 7, 8, 9 :: nat]"
  by (simp add: upt_rec)

declare strncmp_eq_numeral [simp]

lemma zeros_8: "replicate 8 0 = [0, 0, 0, 0, 0, 0, 0, 0 :: u8]"
  by (simp add: numeral_eq_Suc)

lemma zeros_7: "replicate 7 0 = [0, 0, 0, 0, 0, 0, 0 :: u8]"
  by (simp add: numeral_eq_Suc)


theorem httpd_long_name_overread_witness:
  "\<exists>h'. handle_output (asked_httpd (map of_char ''/index.html?session1'')) (event_state 366 UIP_NEWDATA) =
      Some (PT_WAITING, h', put_chunk (butlast http_header_200) (event_state 366 UIP_NEWDATA)) \<and>
    handle_output h' (event_state 366 UIP_ACKDATA) = None"
proof -
  let ?n = "map of_char ''/index.html?session1'' :: u8 list"
  have f: "requested_file ?n = Some 4" by (simp add: requested_file_def upto_10 file_names_def)
  show ?thesis
    using httpd_long_name_overread [of "asked_httpd ?n" 4 366 "event_state 366 UIP_NEWDATA" "event_state 366 UIP_ACKDATA"] f
    by (simp add: asked_httpd_def fresh_httpd_def out_free_def psock_init_def event_ok_event_state acked_event_state)
qed

end
