(* ===== verification/UipResolv.thy ===== *)
theory UipResolv
  imports UipPsock UipStrings
begin

text \<open>
  The DNS resolver (\<^verbatim>\<open>apps/resolv/resolv.c\<close>): the table of names, the questions sent in the
  timer events of its UDP connection and the reading of the answers. Positions in the packet are
  offsets into the packet buffer; the answers are read without regard to the length of the packet.
\<close>

subsection \<open>Data\<close>

abbreviation (input) "MAX_RETRIES \<equiv> (8 :: u8)"
abbreviation (input) "RESOLV_ENTRIES \<equiv> (4 :: nat)"
abbreviation (input) "DNS_FLAG1_RD \<equiv> (1 :: u8)"
abbreviation (input) "DNS_FLAG2_ERR_MASK \<equiv> (0x0f :: u8)"

datatype namemap_state = STATE_UNUSED | STATE_NEW | STATE_ASKING | STATE_DONE | STATE_ERROR

record namemap =
  nm_state :: namemap_state
  nm_tmr :: u8
  nm_retries :: u8
  nm_seqno :: u8
  nm_err :: u8
  nm_name :: "u8 list"
  nm_ipaddr :: ip4

record resolv =
  nm_names :: "namemap list"
  nm_next :: u8
  resolv_conn :: "nat option"

text \<open>The callback \<^verbatim>\<open>resolv_found\<close> belongs to the user of the resolver; it gets the name and the
  address or NULL and may call the resolver again. The record can be extended by the user's own
  state.\<close>

type_synonym ('r, 'a) on_found =
  "u8 list \<Rightarrow> ip4 option \<Rightarrow> 'r resolv_scheme \<Rightarrow> 'a uip \<Rightarrow> ('r resolv_scheme \<times> 'a uip) option"

definition upd_name :: "nat \<Rightarrow> namemap \<Rightarrow> 'r resolv_scheme \<Rightarrow> 'r resolv_scheme" where
  "upd_name i e r = r\<lparr>nm_names := (nm_names r)[i := e]\<rparr>"

subsection \<open>Questions\<close>

definition le16 :: "u16 \<Rightarrow> u8 list" where
  "le16 x = [lo8 x, hi8 x]"

text \<open>The fields of \<^verbatim>\<open>struct dns_hdr\<close> in the order of their addresses.\<close>

definition dns_question_hdr :: "nat \<Rightarrow> u8 list" where
  "dns_question_hdr i = le16 (htons (of_nat i)) @ [DNS_FLAG1_RD, 0] @ le16 (HTONS 1) @ replicate 6 0"

text \<open>The inner loop: a part of the name up to a period or the end is copied; the number of its
  characters is counted in eight bits.\<close>

fun copy_label :: "u8 list \<Rightarrow> nat \<Rightarrow> u8 \<Rightarrow> u8 list \<Rightarrow> (u8 list \<times> nat \<times> u8 \<times> u8 list) option" where
  "copy_label [] query n b = None"
| "copy_label (c # cs) query n b =
     (if c = 0x2e \<or> c = 0 then Some (c # cs, query, n, b)
      else do {
        guard (query < length b);
        copy_label cs (query + 1) (n + 1) (b[query := c]) })"

partial_function (option) encode_name :: "u8 list \<Rightarrow> nat \<Rightarrow> u8 list \<Rightarrow> (nat \<times> u8 list) option" where
  "encode_name nameptr query b = do {
     (nameptr, q, n, b) \<leftarrow> copy_label nameptr (query + 1) 0 b;
     guard (query < length b);
     let b = b[query := n];
     if hd nameptr \<noteq> 0 then encode_name (tl nameptr) q b else Some (q, b) }"

definition uip_udp_send :: "nat \<Rightarrow> 'a uip \<Rightarrow> 'a uip option" where
  "uip_udp_send n s = uip_send_ptr (Packet (uip_appdata s)) (of_nat n) s"

definition send_question :: "nat \<Rightarrow> namemap \<Rightarrow> 'a uip \<Rightarrow> 'a uip option" where
  "send_question i e s = do {
     b \<leftarrow> blit (uip_appdata s) (dns_question_hdr i) (uip_buf s);
     (query, b) \<leftarrow> encode_name (nm_name e) (uip_appdata s + 12) b;
     b \<leftarrow> blit query [0, 0, 1, 0, 1] b;
     uip_udp_send ((query + 5 - uip_appdata s) mod 256) (s\<lparr>uip_buf := b\<rparr>) }"

text \<open>\<^verbatim>\<open>check_entries\<close> from entry \<open>i\<close> on; a question ends the loop.\<close>

partial_function (option) check_entries_from ::
    "('r, 'a) on_found \<Rightarrow> nat \<Rightarrow> 'r resolv_scheme \<Rightarrow> 'a uip \<Rightarrow> ('r resolv_scheme \<times> 'a uip) option" where
  "check_entries_from resolv_found i r s =
     (if i < RESOLV_ENTRIES then do {
        guard (i < length (nm_names r));
        let e = nm_names r ! i;
        if nm_state e = STATE_ASKING then
          (let e = e\<lparr>nm_tmr := nm_tmr e - 1\<rparr> in
           if nm_tmr e = 0 then
             (let e = e\<lparr>nm_retries := nm_retries e + 1\<rparr> in
              if nm_retries e = MAX_RETRIES then
                (let e = e\<lparr>nm_state := STATE_ERROR\<rparr> in do {
                   (r, s) \<leftarrow> resolv_found (nm_name e) None (upd_name i e r) s;
                   check_entries_from resolv_found (i + 1) r s })
              else
                (let e = e\<lparr>nm_tmr := nm_retries e\<rparr> in do {
                   s \<leftarrow> send_question i e s;
                   Some (upd_name i e r, s) }))
           else check_entries_from resolv_found (i + 1) (upd_name i e r) s)
        else if nm_state e = STATE_NEW then
          (let e = e\<lparr>nm_state := STATE_ASKING, nm_tmr := 1, nm_retries := 0\<rparr> in do {
             s \<leftarrow> send_question i e s;
             Some (upd_name i e r, s) })
        else check_entries_from resolv_found (i + 1) r s }
      else Some (r, s))"

definition check_entries ::
    "('r, 'a) on_found \<Rightarrow> 'r resolv_scheme \<Rightarrow> 'a uip \<Rightarrow> ('r resolv_scheme \<times> 'a uip) option" where
  "check_entries resolv_found r s = check_entries_from resolv_found 0 r s"

subsection \<open>Answers\<close>

definition rd16_at :: "nat \<Rightarrow> 'a uip \<Rightarrow> u16 option" where
  "rd16_at i s = (if i + 1 < length (uip_buf s) then Some (rd16 i s) else None)"

partial_function (option) parse_name :: "nat \<Rightarrow> 'a uip \<Rightarrow> nat option" where
  "parse_name query s = do {
     n \<leftarrow> rd8_at query s;
     let query = query + 1 + unat n;
     c \<leftarrow> rd8_at query s;
     if c \<noteq> 0 then parse_name query s else Some (query + 1) }"

text \<open>The loop over the answers that are left, for the entry \<open>i\<close>.\<close>

fun scan_answers :: "('r, 'a) on_found \<Rightarrow> nat \<Rightarrow> nat \<Rightarrow> nat \<Rightarrow> 'r resolv_scheme \<Rightarrow> 'a uip \<Rightarrow>
    ('r resolv_scheme \<times> 'a uip) option" where
  "scan_answers resolv_found i 0 nameptr r s = Some (r, s)"
| "scan_answers resolv_found i (Suc nanswers) nameptr r s = do {
     c \<leftarrow> rd8_at nameptr s;
     ans \<leftarrow> (if c AND 0xc0 \<noteq> 0 then Some (nameptr + 2) else parse_name nameptr s);
     ty \<leftarrow> rd16_at ans s;
     cl \<leftarrow> (if ty = HTONS 1 then rd16_at (ans + 2) s else Some 0);
     len \<leftarrow> rd16_at (ans + 8) s;
     if ty = HTONS 1 \<and> cl = HTONS 1 \<and> len = HTONS 4 then do {
       a0 \<leftarrow> rd16_at (ans + 10) s;
       a1 \<leftarrow> rd16_at (ans + 12) s;
       let e = (nm_names r ! i)\<lparr>nm_ipaddr := (a0, a1)\<rparr>;
       resolv_found (nm_name e) (Some (nm_ipaddr e)) (upd_name i e r) s }
     else scan_answers resolv_found i nanswers (ans + 10 + unat (htons len)) r s }"

definition resolv_newdata ::
    "('r, 'a) on_found \<Rightarrow> 'r resolv_scheme \<Rightarrow> 'a uip \<Rightarrow> ('r resolv_scheme \<times> 'a uip) option" where
  "resolv_newdata resolv_found r s = (let hdr = uip_appdata s in do {
     hid \<leftarrow> rd16_at hdr s;
     let i = unat (ucast (htons hid) :: u8);
     if i < RESOLV_ENTRIES then do {
       guard (i < length (nm_names r));
       if nm_state (nm_names r ! i) = STATE_ASKING then do {
         flags2 \<leftarrow> rd8_at (hdr + 3) s;
         let e = (nm_names r ! i)\<lparr>nm_state := STATE_DONE, nm_err := flags2 AND DNS_FLAG2_ERR_MASK\<rparr>;
         if nm_err e \<noteq> 0 then (let e = e\<lparr>nm_state := STATE_ERROR\<rparr> in
           resolv_found (nm_name e) None (upd_name i e r) s)
         else do {
           nan \<leftarrow> rd16_at (hdr + 6) s;
           let nanswers = (ucast (htons nan) :: u8);
           nameptr \<leftarrow> parse_name (hdr + 12) s;
           scan_answers resolv_found i (unat nanswers) (nameptr + 4) (upd_name i e r) s } }
       else Some (r, s) }
     else Some (r, s) })"

definition resolv_appcall ::
    "('r, 'a) on_found \<Rightarrow> 'r resolv_scheme \<Rightarrow> 'a uip \<Rightarrow> ('r resolv_scheme \<times> 'a uip) option" where
  "resolv_appcall resolv_found r s = do {
     q \<leftarrow> uip_udp_conn s;
     guard (q < length (uip_udp_conns s));
     if u_rport (uip_udp_conns s ! q) = HTONS 53 then do {
       (r, s) \<leftarrow> (if uip_flags s AND UIP_POLL \<noteq> 0 then check_entries resolv_found r s else Some (r, s));
       if uip_newdata s then resolv_newdata resolv_found r s else Some (r, s) }
     else Some (r, s) }"

subsection \<open>Requests of the user\<close>

text \<open>The first unused entry, or the one with the greatest difference of the sequence numbers,
  which are compared as integers; \<open>lseqi\<close> and \<open>lseq\<close> are the best one so far.\<close>

fun query_slot :: "u8 \<Rightarrow> namemap list \<Rightarrow> nat \<Rightarrow> u8 \<Rightarrow> nat \<Rightarrow> nat" where
  "query_slot seqno [] i lseq lseqi = lseqi"
| "query_slot seqno (e # es) i lseq lseqi =
     (if nm_state e = STATE_UNUSED then i
      else if uint seqno - uint (nm_seqno e) > uint lseq
        then query_slot seqno es (i + 1) (seqno - nm_seqno e) i
      else query_slot seqno es (i + 1) lseq lseqi)"

definition resolv_query :: "u8 list \<Rightarrow> 'r resolv_scheme \<Rightarrow> 'r resolv_scheme option" where
  "resolv_query name r = (let i = query_slot (nm_next r) (nm_names r) 0 0 0 in do {
     guard (i < length (nm_names r));
     let e = nm_names r ! i;
     nm \<leftarrow> strcpy (nm_name e) name;
     let r = upd_name i (e\<lparr>nm_name := nm, nm_state := STATE_NEW, nm_seqno := nm_next r\<rparr>) r;
     Some (r\<lparr>nm_next := nm_next r + 1\<rparr>) })"

text \<open>The address that the returned pointer points to.\<close>

fun lookup_from :: "u8 list \<Rightarrow> namemap list \<Rightarrow> ip4 option option" where
  "lookup_from name [] = Some None"
| "lookup_from name (e # es) =
     (if nm_state e = STATE_DONE then do {
        eq \<leftarrow> strcmp_eq name (nm_name e);
        if eq then Some (Some (nm_ipaddr e)) else lookup_from name es }
      else lookup_from name es)"

definition resolv_lookup :: "u8 list \<Rightarrow> 'r resolv_scheme \<Rightarrow> ip4 option option" where
  "resolv_lookup name r = lookup_from name (nm_names r)"

definition resolv_getserver :: "'r resolv_scheme \<Rightarrow> 'a uip \<Rightarrow> ip4 option option" where
  "resolv_getserver r s = (case resolv_conn r of
     None \<Rightarrow> Some None
   | Some q \<Rightarrow> do {
       guard (q < length (uip_udp_conns s));
       Some (Some (u_ripaddr (uip_udp_conns s ! q))) })"

definition uip_udp_remove :: "nat \<Rightarrow> 'a uip \<Rightarrow> 'a uip option" where
  "uip_udp_remove q s = do {
     guard (q < length (uip_udp_conns s));
     Some (s\<lparr>uip_udp_conns := (uip_udp_conns s)[q := (uip_udp_conns s ! q)\<lparr>u_lport := 0\<rparr>]\<rparr>) }"

definition resolv_conf :: "ip4 option \<Rightarrow> 'r resolv_scheme \<Rightarrow> 'a uip \<Rightarrow> ('r resolv_scheme \<times> 'a uip) option" where
  "resolv_conf dnsserver r s = do {
     s \<leftarrow> (case resolv_conn r of None \<Rightarrow> Some s | Some q \<Rightarrow> uip_udp_remove q s);
     (s, c) \<leftarrow> uip_udp_new dnsserver (HTONS 53) s;
     Some (r\<lparr>resolv_conn := c\<rparr>, s) }"

definition resolv_init :: "'r resolv_scheme \<Rightarrow> 'r resolv_scheme option" where
  "resolv_init r = do {
     guard (RESOLV_ENTRIES \<le> length (nm_names r));
     Some (r\<lparr>nm_names := map (nm_state_update (\<lambda>_. STATE_DONE)) (take RESOLV_ENTRIES (nm_names r)) @
       drop RESOLV_ENTRIES (nm_names r)\<rparr>) }"

end
