(* ===== verification/UipDns.thy ===== *)
theory UipDns
  imports UipResolv
begin

text \<open>
  The messages of the resolver against the format of DNS messages: the question holds the name as a
  sequence of labels, and an answer that is written in the format is understood.
\<close>

subsection \<open>Names\<close>

text \<open>The parts of a name between the periods, and their encoding.\<close>

function labels :: "u8 list \<Rightarrow> u8 list list" where
  "labels us = takeWhile (\<lambda>c. c \<noteq> 0x2e) us #
     (if 0x2e \<in> set us then labels (tl (dropWhile (\<lambda>c. c \<noteq> 0x2e) us)) else [])"
  by pat_completeness auto
termination
proof (relation "measure length", simp)
  fix us :: "u8 list" assume "0x2e \<in> set us"
  then have "dropWhile (\<lambda>c. c \<noteq> 0x2e) us \<noteq> []" by (auto simp: dropWhile_eq_Nil_conv)
  then show "(tl (dropWhile (\<lambda>c. c \<noteq> 0x2e) us), us) \<in> measure length"
    using length_dropWhile_le [of "\<lambda>c. c \<noteq> 0x2e" us] by (cases "dropWhile (\<lambda>c. c \<noteq> 0x2e) us") auto
qed

declare labels.simps [simp del]

definition enc_labels :: "u8 list list \<Rightarrow> u8 list" where
  "enc_labels ls = concat (map (\<lambda>l. of_nat (length l) # l) ls)"

lemma enc_labels_simps [simp]:
  "enc_labels [] = []" "enc_labels (l # ls) = of_nat (length l) # l @ enc_labels ls"
  by (simp_all add: enc_labels_def)

lemma split_period:
  assumes "(x :: 'b) \<in> set us"
  shows "us = takeWhile (\<lambda>c. c \<noteq> x) us @ x # tl (dropWhile (\<lambda>c. c \<noteq> x) us)"
proof -
  have d: "dropWhile (\<lambda>c. c \<noteq> x) us \<noteq> []" using assms by (auto simp: dropWhile_eq_Nil_conv)
  then have "hd (dropWhile (\<lambda>c. c \<noteq> x) us) = x" using hd_dropWhile [OF d] by simp
  then have "dropWhile (\<lambda>c. c \<noteq> x) us = x # tl (dropWhile (\<lambda>c. c \<noteq> x) us)" using d by (cases "dropWhile (\<lambda>c. c \<noteq> x) us") auto
  then show ?thesis by (metis takeWhile_dropWhile_id)
qed

lemma takeWhile_notin: "(x :: 'b) \<notin> set us \<Longrightarrow> takeWhile (\<lambda>c. c \<noteq> x) us = us"
  by (induction us) auto

lemma length_enc_labels: "length (enc_labels (labels us)) = length us + 1"
proof (induction us rule: labels.induct)
  case (1 us)
  show ?case
  proof (cases "0x2e \<in> set us")
    case True
    have "length us = length (takeWhile (\<lambda>c. c \<noteq> 0x2e) us) + 1 + length (tl (dropWhile (\<lambda>c. c \<noteq> 0x2e) us))"
      by (subst split_period [OF True]) (simp del: length_tl)
    then show ?thesis using 1 [OF True] True by (subst labels.simps) (simp del: length_tl)
  next
    case False
    then show ?thesis by (subst labels.simps) (simp add: takeWhile_notin)
  qed
qed

lemma patch_before:
  assumes "q + 1 + length l \<le> length b"
  shows "(patch b (q + 1) l)[q := x] = patch b q (x # l)"
  using assms by (simp add: patch_def list_update_append take_Suc_conv_app_nth min_def)

lemma copy_label_spec:
  assumes "\<forall>c \<in> set l. c \<noteq> 0x2e \<and> c \<noteq> 0" "x = 0x2e \<or> x = 0" "q + length l \<le> length b"
  shows "copy_label (l @ x # rest) q n b = Some (x # rest, q + length l, n + of_nat (length l), patch b q l)"
  using assms
proof (induction l arbitrary: q n b)
  case (Cons c l)
  have "patch (b[q := c]) (q + 1) l = patch b q (c # l)" by (rule patch_Cons) (use Cons.prems(3) in simp)
  then show ?case using Cons.IH [of "q + 1" "b[q := c]" "n + 1"] Cons.prems by (simp add: add.assoc)
qed simp

lemma encode_name_spec:
  assumes "0 \<notin> set us" "q + length us + 1 \<le> length b"
  shows "encode_name (us @ 0 # rest) q b = Some (q + length us + 1, patch b q (enc_labels (labels us)))"
  using assms
proof (induction us arbitrary: q b rule: labels.induct)
  case (1 us)
  let ?l = "takeWhile (\<lambda>c. c \<noteq> 0x2e) us"
  have l: "\<forall>c \<in> set ?l. c \<noteq> 0x2e \<and> c \<noteq> 0" using 1(2) by (auto dest: set_takeWhileD)
  show ?case
  proof (cases "0x2e \<in> set us")
    case True
    let ?r = "tl (dropWhile (\<lambda>c. c \<noteq> 0x2e) us)"
    have us: "us = ?l @ 0x2e # ?r" using split_period [OF True] .
    have n: "length us = length ?l + 1 + length ?r" by (subst us) simp
    have c: "copy_label (us @ 0 # rest) (q + 1) 0 b =
        Some (0x2e # ?r @ 0 # rest, q + 1 + length ?l, of_nat (length ?l), patch b (q + 1) ?l)"
      by (subst us) (use copy_label_spec [OF l, of "0x2e" "q + 1" b "?r @ 0 # rest" 0] 1(3) n in simp)
    let ?b = "patch b q (of_nat (length ?l) # ?l)"
    have b: "(patch b (q + 1) ?l)[q := of_nat (length ?l)] = ?b" by (rule patch_before) (use 1(3) n in simp)
    have lb: "length ?b = length b" by (rule length_patch) (use 1(3) n in simp)
    have z: "0 \<notin> set ?r" using 1(2) by (subst (asm) us) (simp del: set_takeWhileD)
    have "encode_name (?r @ 0 # rest) (q + 1 + length ?l) ?b =
        Some (q + 1 + length ?l + length ?r + 1, patch ?b (q + 1 + length ?l) (enc_labels (labels ?r)))"
      by (rule 1(1) [OF True z]) (use lb 1(3) n in simp)
    moreover have "patch ?b (q + length (of_nat (length ?l) # ?l)) (enc_labels (labels ?r)) =
        patch b q ((of_nat (length ?l) # ?l) @ enc_labels (labels ?r))"
      by (rule patch_patch) (use 1(3) n length_enc_labels [of ?r] in simp)
    moreover have "enc_labels (labels us) = (of_nat (length ?l) # ?l) @ enc_labels (labels ?r)"
      by (subst labels.simps) (simp add: True)
    moreover have "q < length (patch b (q + 1) ?l)" using 1(3) n by (subst length_patch) simp_all
    moreover from this have "encode_name (us @ 0 # rest) q b = encode_name (?r @ 0 # rest) (q + 1 + length ?l) ?b"
      unfolding encode_name.simps [of "us @ 0 # rest"] c using b by simp
    ultimately show ?thesis using n by (simp del: length_tl)
  next
    case False
    then have e: "?l = us" by (rule takeWhile_notin)
    have c: "copy_label (us @ 0 # rest) (q + 1) 0 b =
        Some (0 # rest, q + 1 + length us, of_nat (length us), patch b (q + 1) us)"
      using copy_label_spec [of us 0 "q + 1" b rest 0] l 1(3) e by simp
    have "(patch b (q + 1) us)[q := of_nat (length us)] = patch b q (of_nat (length us) # us)"
      by (rule patch_before) (use 1(3) in simp)
    moreover have "enc_labels (labels us) = of_nat (length us) # us"
      by (subst labels.simps) (simp add: False takeWhile_notin)
    moreover have "q < length (patch b (q + 1) us)" using 1(3) by (subst length_patch) simp_all
    ultimately show ?thesis unfolding encode_name.simps [of "us @ 0 # rest"] c by simp
  qed
qed

text \<open>An encoded name and its zero are skipped.\<close>

definition labels_ok :: "u8 list list \<Rightarrow> bool" where
  "labels_ok ls \<longleftrightarrow> ls \<noteq> [] \<and> (\<forall>l \<in> set ls. l \<noteq> [] \<and> length l < 64)"

lemma rd8_at_append: "uip_buf s = pre @ c # post \<Longrightarrow> rd8_at (length pre) s = Some c"
  by (simp add: rd8_at_def rd8_def)

lemma unat_length: "length l < 64 \<Longrightarrow> unat (of_nat (length l) :: u8) = length l"
  by (simp add: unsigned_of_nat take_bit_nat_eq_self)

lemma parse_name_spec:
  assumes "labels_ok ls" "uip_buf s = pre @ enc_labels ls @ 0 # post"
  shows "parse_name (length pre) s = Some (length pre + length (enc_labels ls) + 1)"
  using assms
proof (induction ls arbitrary: pre)
  case Nil
  then show ?case by (simp add: labels_ok_def)
next
  case (Cons l ls)
  have n: "unat (of_nat (length l) :: u8) = length l" by (rule unat_length) (use Cons.prems(1) in \<open>simp add: labels_ok_def\<close>)
  have r: "rd8_at (length pre) s = Some (of_nat (length l))"
    by (rule rd8_at_append) (use Cons.prems(2) in simp)
  let ?pre = "pre @ of_nat (length l) # l"
  have b: "uip_buf s = ?pre @ enc_labels ls @ 0 # post" using Cons.prems(2) by simp
  show ?case
  proof (cases ls)
    case Nil
    have "rd8_at (length ?pre) s = Some 0" by (rule rd8_at_append) (use b Nil in simp)
    then show ?thesis using Nil by (subst parse_name.simps) (simp add: r n)
  next
    case (Cons k ks)
    have ok: "labels_ok ls" using Cons.prems(1) Cons by (simp add: labels_ok_def)
    have "rd8_at (length ?pre) s = Some (of_nat (length k))" by (rule rd8_at_append) (use b Cons in simp)
    moreover have "unat (of_nat (length k) :: u8) = length k" by (rule unat_length) (use ok Cons in \<open>simp add: labels_ok_def\<close>)
    then have "(of_nat (length k) :: u8) \<noteq> 0" using ok Cons by (auto simp: labels_ok_def)
    ultimately show ?thesis using Cons.IH [OF ok b] by (subst parse_name.simps) (simp add: r n)
  qed
qed

subsection \<open>Answers\<close>

datatype rr_name = Pointer u8 u8 | Labels "u8 list list"

text \<open>A resource record as it is written in an answer.\<close>

record rr =
  rr_name :: rr_name
  rr_type :: u16
  rr_class :: u16
  rr_ttl :: "u8 list"
  rr_data :: "u8 list"

definition be16 :: "u16 \<Rightarrow> u8 list" where
  "be16 x = [hi8 x, lo8 x]"

fun enc_rr_name :: "rr_name \<Rightarrow> u8 list" where
  "enc_rr_name (Pointer h l) = [h, l]"
| "enc_rr_name (Labels ls) = enc_labels ls @ [0]"

definition enc_rr :: "rr \<Rightarrow> u8 list" where
  "enc_rr x = enc_rr_name (rr_name x) @ be16 (rr_type x) @ be16 (rr_class x) @ rr_ttl x @
     be16 (of_nat (length (rr_data x))) @ rr_data x"

fun rr_name_ok :: "rr_name \<Rightarrow> bool" where
  "rr_name_ok (Pointer h l) \<longleftrightarrow> h AND 0xc0 \<noteq> 0"
| "rr_name_ok (Labels ls) \<longleftrightarrow> labels_ok ls"

definition rr_ok :: "rr \<Rightarrow> bool" where
  "rr_ok x \<longleftrightarrow> rr_name_ok (rr_name x) \<and> length (rr_ttl x) = 4 \<and> length (rr_data x) < 65536"

text \<open>The first record with an Internet address.\<close>

fun first_address :: "rr list \<Rightarrow> ip4 option" where
  "first_address [] = None"
| "first_address (x # xs) =
     (if rr_type x = 1 \<and> rr_class x = 1 \<and> length (rr_data x) = 4
      then Some (mk16 (rr_data x ! 1) (rr_data x ! 0), mk16 (rr_data x ! 3) (rr_data x ! 2))
      else first_address xs)"

lemma rd16_at_append: "uip_buf s = pre @ a # b # post \<Longrightarrow> rd16_at (length pre) s = Some (mk16 b a)"
  by (simp add: rd16_at_def rd16_def rd8_def nth_append)

lemma rd16_at_be16: "uip_buf s = pre @ be16 x @ post \<Longrightarrow> rd16_at (length pre) s = Some (HTONS x)"
  using rd16_at_append [of s pre "hi8 x" "lo8 x" post] by (simp add: be16_def HTONS_mk16)

lemma HTONS_eq [simp]: "HTONS x = HTONS y \<longleftrightarrow> x = y"
  by (metis HTONS_HTONS)

lemma label_not_pointer: "n < 64 \<Longrightarrow> (of_nat n :: u8) AND 0xc0 = 0"
proof -
  assume "n < 64"
  moreover have "\<forall>n \<in> set [0 ..< 64]. (of_nat n :: u8) AND 0xc0 = 0" by code_simp
  ultimately show ?thesis by simp
qed

lemma skip_rr_name:
  assumes "rr_name_ok x" "uip_buf s = pre @ enc_rr_name x @ post"
  shows "\<exists>c. rd8_at (length pre) s = Some c \<and>
    (if c AND 0xc0 \<noteq> 0 then Some (length pre + 2) else parse_name (length pre) s) = Some (length pre + length (enc_rr_name x))"
proof (cases x)
  case (Pointer h l)
  then show ?thesis using assms rd8_at_append [of s pre h "l # post"] by simp
next
  case (Labels ls)
  then obtain k ks where ls: "ls = k # ks" using assms(1) by (cases ls) (auto simp: labels_ok_def)
  have "rd8_at (length pre) s = Some (of_nat (length k))"
    by (rule rd8_at_append) (use assms(2) Labels ls in simp)
  moreover have "(of_nat (length k) :: u8) AND 0xc0 = 0"
    by (rule label_not_pointer) (use assms(1) Labels ls in \<open>simp add: labels_ok_def\<close>)
  moreover have "parse_name (length pre) s = Some (length pre + length (enc_labels ls) + 1)"
    by (rule parse_name_spec) (use assms Labels in auto)
  ultimately show ?thesis using Labels by simp
qed

lemma scan_answers_spec:
  assumes "\<forall>x \<in> set rrs. rr_ok x" "uip_buf s = pre @ concat (map enc_rr rrs) @ post" "n = length rrs"
  shows "scan_answers cb i n (length pre) r s = (case first_address rrs of
     None \<Rightarrow> Some (r, s)
   | Some a \<Rightarrow> cb (nm_name (nm_names r ! i)) (Some a) (upd_name i ((nm_names r ! i)\<lparr>nm_ipaddr := a\<rparr>) r) s)"
  using assms
proof (induction rrs arbitrary: pre n)
  case (Cons x rrs)
  let ?nm = "enc_rr_name (rr_name x)" and ?d = "rr_data x"
  have ok: "rr_name_ok (rr_name x)" "length (rr_ttl x) = 4" "length ?d < 65536"
    using Cons.prems(1) by (simp_all add: rr_ok_def)
  let ?post = "concat (map enc_rr rrs) @ post"
  have b: "uip_buf s = pre @ ?nm @ be16 (rr_type x) @ be16 (rr_class x) @ rr_ttl x @ be16 (of_nat (length ?d)) @ ?d @ ?post"
    using Cons.prems(2) by (simp add: enc_rr_def [of x])
  obtain c where c: "rd8_at (length pre) s = Some c"
    "(if c AND 0xc0 \<noteq> 0 then Some (length pre + 2) else parse_name (length pre) s) = Some (length (pre @ ?nm))"
    using skip_rr_name [OF ok(1) b] by auto
  have ty: "rd16_at (length (pre @ ?nm)) s = Some (HTONS (rr_type x))"
    by (rule rd16_at_be16) (use b in simp)
  have "rd16_at (length (pre @ ?nm @ be16 (rr_type x))) s = Some (HTONS (rr_class x))"
    by (rule rd16_at_be16) (use b in simp)
  then have cl: "rd16_at (length (pre @ ?nm) + 2) s = Some (HTONS (rr_class x))" by (simp add: be16_def)
  have "rd16_at (length (pre @ ?nm @ be16 (rr_type x) @ be16 (rr_class x) @ rr_ttl x)) s = Some (HTONS (of_nat (length ?d)))"
    by (rule rd16_at_be16) (use b in simp)
  then have ln: "rd16_at (length (pre @ ?nm) + 8) s = Some (HTONS (of_nat (length ?d)))"
    by (simp add: be16_def ok(2) ac_simps)
  have u: "unat (of_nat (length ?d) :: u16) = length ?d" by (rule unat_small) (use ok(3) in simp)
  have four: "(of_nat (length ?d) :: u16) = 4 \<longleftrightarrow> length ?d = 4"
  proof
    assume "(of_nat (length ?d) :: u16) = 4"
    then show "length ?d = 4" using u by simp
  qed simp
  let ?pre = "pre @ enc_rr x"
  have lp: "length ?pre = length (pre @ ?nm) + 10 + length ?d"
    by (simp add: enc_rr_def be16_def ok(2))
  show ?case
  proof (cases "rr_type x = 1 \<and> rr_class x = 1 \<and> length ?d = 4")
    case True
    then obtain d0 d1 d2 d3 where d: "?d = [d0, d1, d2, d3]" by (auto simp: length_Suc_conv numeral_eq_Suc)
    have "rd16_at (length (pre @ ?nm @ be16 (rr_type x) @ be16 (rr_class x) @ rr_ttl x @ be16 (of_nat (length ?d)))) s = Some (mk16 d1 d0)"
      by (rule rd16_at_append) (use b d in simp)
    moreover have "rd16_at (length (pre @ ?nm @ be16 (rr_type x) @ be16 (rr_class x) @ rr_ttl x @ be16 (of_nat (length ?d)) @ [d0, d1])) s = Some (mk16 d3 d2)"
      by (rule rd16_at_append) (use b d in simp)
    ultimately have "rd16_at (length (pre @ ?nm) + 10) s = Some (mk16 d1 d0)"
      "rd16_at (length (pre @ ?nm) + 12) s = Some (mk16 d3 d2)"
      by (simp_all add: be16_def ok(2) ac_simps)
    then show ?thesis using True c ty cl ln four d by (simp add: Cons.prems(3))
  next
    case False
    have "scan_answers cb i (length rrs) (length ?pre) r s = (case first_address rrs of
       None \<Rightarrow> Some (r, s)
     | Some a \<Rightarrow> cb (nm_name (nm_names r ! i)) (Some a) (upd_name i ((nm_names r ! i)\<lparr>nm_ipaddr := a\<rparr>) r) s)"
      by (rule Cons.IH) (use Cons.prems in auto)
    moreover have "scan_answers cb i n (length pre) r s = scan_answers cb i (length rrs) (length (pre @ ?nm) + 10 + length ?d) r s"
      using False c ty cl ln four u by (auto simp: Cons.prems(3) htons_def simp del: length_append)
    ultimately show ?thesis using False unfolding lp by auto
  qed
qed simp

end
