(* ===== verification/UipResolves.thy ===== *)
theory UipResolves
  imports UipDns
begin

text \<open>
  The resolver at work: a queued name is asked for, the first address of the answer is stored and
  handed to the user, and a name that nobody answers is given up.
\<close>

subsection \<open>Reading an answer\<close>

text \<open>The answer to the question with number \<open>i\<close>, to the names \<open>ls\<close>.\<close>

definition dns_answer :: "nat \<Rightarrow> u8 \<Rightarrow> u8 \<Rightarrow> u8 list \<Rightarrow> u8 list list \<Rightarrow> u8 list \<Rightarrow> rr list \<Rightarrow> u8 list" where
  "dns_answer i f1 f2 nrr ls qt rrs = be16 (of_nat i) @ [f1, f2] @ be16 1 @ be16 (of_nat (length rrs)) @ nrr @
     enc_labels ls @ [0] @ qt @ concat (map enc_rr rrs)"

definition udp_event :: "u8 \<Rightarrow> 'a uip \<Rightarrow> bool" where
  "udp_event f s \<longleftrightarrow> uip_flags s = f \<and>
     (\<exists>q. uip_udp_conn s = Some q \<and> q < length (uip_udp_conns s) \<and> u_rport (uip_udp_conns s ! q) = HTONS 53)"

lemma appcall_newdata: "udp_event UIP_NEWDATA s \<Longrightarrow> resolv_appcall cb r s = resolv_newdata cb r s"
  by (auto simp: udp_event_def resolv_appcall_def uip_newdata_def)

lemma appcall_poll:
  assumes "udp_event UIP_POLL s" "check_entries cb r s = Some (r', s')" "\<not> uip_newdata s'"
  shows "resolv_appcall cb r s = Some (r', s')"
proof -
  obtain q where "uip_udp_conn s = Some q" "q < length (uip_udp_conns s)" "u_rport (uip_udp_conns s ! q) = HTONS 53"
    "uip_flags s = UIP_POLL" using assms(1) unfolding udp_event_def by blast
  then show ?thesis using assms(2,3) by (simp add: resolv_appcall_def)
qed

lemma entry_number: "i < 4 \<Longrightarrow> unat (ucast (of_nat i :: u16) :: u8) = i"
  by (simp add: unsigned_ucast_eq unsigned_of_nat take_bit_nat_eq_self)

lemma newdata_answer:
  assumes "i < 4" "length (nm_names r) = 4" "nm_state (nm_names r ! i) = STATE_ASKING"
    and "uip_buf s = pre @ dns_answer i f1 f2 nrr ls qt rrs @ post" "uip_appdata s = length pre"
    and "f2 AND DNS_FLAG2_ERR_MASK = 0" "length nrr = 4" "length qt = 4" "labels_ok ls" "\<forall>x \<in> set rrs. rr_ok x" "length rrs < 256"
  shows "resolv_newdata cb r s = (let e = (nm_names r ! i)\<lparr>nm_state := STATE_DONE, nm_err := 0\<rparr> in
    case first_address rrs of
      None \<Rightarrow> Some (upd_name i e r, s)
    | Some a \<Rightarrow> cb (nm_name e) (Some a) (upd_name i (e\<lparr>nm_ipaddr := a\<rparr>) r) s)"
proof -
  let ?rs = "concat (map enc_rr rrs)" and ?n = "of_nat (length rrs) :: u16"
  let ?pre = "pre @ be16 (of_nat i) @ [f1, f2] @ be16 1 @ be16 ?n @ nrr @ enc_labels ls @ [0] @ qt"
  let ?r = "upd_name i ((nm_names r ! i)\<lparr>nm_state := STATE_DONE, nm_err := 0\<rparr>) r"
  have b: "uip_buf s = pre @ be16 (of_nat i) @ [f1, f2] @ be16 1 @ be16 ?n @ nrr @ enc_labels ls @ [0] @ qt @ ?rs @ post"
    using assms(4) by (simp add: dns_answer_def)
  have a: "rd16_at (length pre) s = Some (HTONS (of_nat i))" by (rule rd16_at_be16) (use b in simp)
  have "rd8_at (length (pre @ be16 (of_nat i) @ [f1])) s = Some f2" by (rule rd8_at_append) (use b in simp)
  then have f: "rd8_at (length pre + 3) s = Some f2" by (simp add: be16_def numeral_eq_Suc)
  have "length (pre @ be16 (of_nat i) @ [f1, f2] @ be16 1) = length pre + 6" by (simp add: be16_def)
  moreover have "rd16_at (length (pre @ be16 (of_nat i) @ [f1, f2] @ be16 1)) s = Some (HTONS ?n)"
    by (rule rd16_at_be16) (use b in simp)
  ultimately have n: "rd16_at (length pre + 6) s = Some (HTONS ?n)" by metis
  have u: "unat (ucast ?n :: u8) = length rrs"
    using assms(11) by (simp add: unsigned_ucast_eq unsigned_of_nat take_bit_nat_eq_self)
  have "parse_name (length (pre @ be16 (of_nat i) @ [f1, f2] @ be16 1 @ be16 ?n @ nrr)) s =
      Some (length (pre @ be16 (of_nat i) @ [f1, f2] @ be16 1 @ be16 ?n @ nrr) + length (enc_labels ls) + 1)"
    by (rule parse_name_spec [OF assms(9)]) (use b in simp)
  then have nm: "parse_name (length pre + 12) s = Some (length pre + length (enc_labels ls) + 13)"
    by (simp add: be16_def assms(7) ac_simps)
  have "scan_answers cb i (length rrs) (length ?pre) ?r s = (case first_address rrs of
     None \<Rightarrow> Some (?r, s)
   | Some a \<Rightarrow> cb (nm_name (nm_names ?r ! i)) (Some a) (upd_name i ((nm_names ?r ! i)\<lparr>nm_ipaddr := a\<rparr>) ?r) s)"
    by (rule scan_answers_spec [OF assms(10)]) (use b in simp_all)
  moreover have "length ?pre = 17 + (length pre + length (enc_labels ls))"
    by (simp add: be16_def assms(7,8))
  ultimately have scan: "scan_answers cb i (length rrs) (17 + (length pre + length (enc_labels ls))) ?r s =
   (case first_address rrs of
     None \<Rightarrow> Some (?r, s)
   | Some a \<Rightarrow> cb (nm_name (nm_names ?r ! i)) (Some a) (upd_name i ((nm_names ?r ! i)\<lparr>nm_ipaddr := a\<rparr>) ?r) s)"
    by metis
  have r: "nm_names ?r ! i = (nm_names r ! i)\<lparr>nm_state := STATE_DONE, nm_err := 0\<rparr>"
    "upd_name i e ?r = upd_name i e r" for e
    using assms(1,2) by (simp_all add: upd_name_def)
  show ?thesis
    unfolding resolv_newdata_def assms(5) Let_def htons_def a bind.bind_lunit HTONS_HTONS entry_number [OF assms(1)]
    using assms(1-3,6) by (simp add: f n nm u scan [unfolded r] r)
qed

lemma lookup_from_skip:
  assumes "i < length es" "\<forall>j < i. nm_state (es ! j) = STATE_DONE \<longrightarrow> strcmp_eq name (nm_name (es ! j)) = Some False"
    and "nm_state (es ! i) = STATE_DONE" "strcmp_eq name (nm_name (es ! i)) = Some True"
  shows "lookup_from name es = Some (Some (nm_ipaddr (es ! i)))"
  using assms
proof (induction es arbitrary: i)
  case (Cons e es)
  show ?case
  proof (cases i)
    case (Suc k)
    have "nm_state (es ! j) = STATE_DONE \<longrightarrow> strcmp_eq name (nm_name (es ! j)) = Some False" if "j < k" for j
      using Cons.prems(2) that Suc by (metis Suc_less_eq nth_Cons_Suc)
    then have "lookup_from name es = Some (Some (nm_ipaddr (es ! k)))"
      using Cons.IH [of k] Cons.prems(1,3,4) Suc by simp
    moreover have "nm_state e = STATE_DONE \<longrightarrow> strcmp_eq name (nm_name e) = Some False"
      using Cons.prems(2) Suc by fastforce
    ultimately show ?thesis using Suc by simp
  qed (use Cons.prems in simp)
qed simp

text \<open>The entry \<open>i\<close> waits for the answer to the name \<open>us\<close>, and no earlier entry has that name.\<close>

definition asking :: "nat \<Rightarrow> u8 list \<Rightarrow> 'r resolv_scheme \<Rightarrow> bool" where
  "asking i us r \<longleftrightarrow> i < 4 \<and> length (nm_names r) = 4 \<and> nm_state (nm_names r ! i) = STATE_ASKING \<and>
     0 \<notin> set us \<and> (\<exists>rest. nm_name (nm_names r ! i) = us @ 0 # rest) \<and>
     (\<forall>j < i. nm_state (nm_names r ! j) = STATE_DONE \<longrightarrow>
        (\<exists>vs rest. nm_name (nm_names r ! j) = vs @ 0 # rest \<and> 0 \<notin> set vs \<and> vs \<noteq> us))"

text \<open>The event brings the answer \<open>rrs\<close> to question \<open>i\<close>, without an error code.\<close>

definition brings_answer :: "nat \<Rightarrow> rr list \<Rightarrow> 'a uip \<Rightarrow> bool" where
  "brings_answer i rrs s \<longleftrightarrow> udp_event UIP_NEWDATA s \<and> (\<forall>x \<in> set rrs. rr_ok x) \<and> length rrs < 256 \<and>
     (\<exists>pre f1 f2 nrr ls qt post. uip_buf s = pre @ dns_answer i f1 f2 nrr ls qt rrs @ post \<and>
        uip_appdata s = length pre \<and> f2 AND 0x0f = 0 \<and> length nrr = 4 \<and> length qt = 4 \<and> labels_ok ls)"

lemma appcall_answer:
  assumes "asking i us r" "brings_answer i rrs s"
  shows "resolv_appcall cb r s = (let e = (nm_names r ! i)\<lparr>nm_state := STATE_DONE, nm_err := 0\<rparr> in
    case first_address rrs of
      None \<Rightarrow> Some (upd_name i e r, s)
    | Some a \<Rightarrow> cb (nm_name e) (Some a) (upd_name i (e\<lparr>nm_ipaddr := a\<rparr>) r) s)"
proof -
  obtain pre f1 f2 nrr ls qt post where b: "uip_buf s = pre @ dns_answer i f1 f2 nrr ls qt rrs @ post"
    "uip_appdata s = length pre" "f2 AND 0x0f = 0" "length nrr = 4" "length qt = 4" "labels_ok ls"
    and e: "udp_event UIP_NEWDATA s" "\<forall>x \<in> set rrs. rr_ok x" "length rrs < 256"
    using assms(2) unfolding brings_answer_def by blast
  show ?thesis unfolding appcall_newdata [OF e(1)]
    by (rule newdata_answer [OF _ _ _ b e(2,3)]) (use assms(1) in \<open>simp_all add: asking_def\<close>)
qed

lemma lookup_answered:
  assumes "asking i us r"
  shows "resolv_lookup (us @ 0 # ys) (upd_name i ((nm_names r ! i)\<lparr>nm_state := STATE_DONE, nm_err := 0, nm_ipaddr := a\<rparr>) r) = Some (Some a)"
proof -
  let ?e = "(nm_names r ! i)\<lparr>nm_state := STATE_DONE, nm_err := 0, nm_ipaddr := a\<rparr>"
  let ?es = "(nm_names r)[i := ?e]"
  have l: "i < length (nm_names r)" using assms by (simp add: asking_def)
  obtain rest where n: "nm_name (nm_names r ! i) = us @ 0 # rest" "0 \<notin> set us" using assms by (auto simp: asking_def)
  have "nm_state (?es ! j) = STATE_DONE \<longrightarrow> strcmp_eq (us @ 0 # ys) (nm_name (?es ! j)) = Some False" if "j < i" for j
  proof
    assume "nm_state (?es ! j) = STATE_DONE"
    then obtain vs rest where "nm_name (nm_names r ! j) = vs @ 0 # rest" "0 \<notin> set vs" "vs \<noteq> us"
      using assms \<open>j < i\<close> by (auto simp: asking_def)
    then show "strcmp_eq (us @ 0 # ys) (nm_name (?es ! j)) = Some False"
      using \<open>j < i\<close> n(2) strcmp_eq_string [of us vs ys rest] by simp
  qed
  moreover have "strcmp_eq (us @ 0 # ys) (nm_name (?es ! i)) = Some True"
    using l n strcmp_eq_string [of us us ys rest] by simp
  ultimately have "lookup_from (us @ 0 # ys) ?es = Some (Some (nm_ipaddr (?es ! i)))"
    using l by (intro lookup_from_skip) simp_all
  then show ?thesis using l by (simp add: resolv_lookup_def upd_name_def)
qed

text \<open>An answer without an Internet address makes the name known all the same: the user is not
  told, and looking the name up finds the address that the entry had before.\<close>

theorem resolv_stale_address:
  assumes "asking i us r" "brings_answer i rrs s" "first_address rrs = None"
  shows "\<exists>r'. resolv_appcall resolv_found r s = Some (r', s) \<and>
    resolv_lookup (us @ 0 # ys) r' = Some (Some (nm_ipaddr (nm_names r ! i)))"
proof -
  let ?e = "(nm_names r ! i)\<lparr>nm_state := STATE_DONE, nm_err := 0, nm_ipaddr := nm_ipaddr (nm_names r ! i)\<rparr>"
  have "resolv_appcall resolv_found r s = Some (upd_name i ?e r, s)"
    using appcall_answer [OF assms(1,2), of resolv_found] assms(3) by (simp add: Let_def)
  then show ?thesis using lookup_answered [OF assms(1), of ys "nm_ipaddr (nm_names r ! i)"] by blast
qed

subsection \<open>Asking\<close>

definition question :: "nat \<Rightarrow> u8 list \<Rightarrow> u8 list" where
  "question i us = be16 (of_nat i) @ [1, 0] @ be16 1 @ replicate 6 0 @ enc_labels (labels us) @ [0] @ be16 1 @ be16 1"

lemma le16_HTONS: "le16 (HTONS x) = be16 x"
  by (simp add: le16_def be16_def HTONS_mk16)

lemma question_eq: "question i us = dns_question_hdr i @ enc_labels (labels us) @ [0, 0, 1, 0, 1]"
proof -
  have "be16 1 = [0, 1]" by code_simp
  then show ?thesis by (simp add: question_def dns_question_hdr_def htons_def le16_HTONS)
qed

lemma length_dns_question_hdr: "length (dns_question_hdr i) = 12"
  by (simp add: dns_question_hdr_def le16_def)

lemma length_question: "length (question i us) = 18 + length us"
  by (simp add: question_eq length_dns_question_hdr length_enc_labels)

lemma send_question_spec:
  assumes "nm_name e = us @ 0 # rest" "0 \<notin> set us" "length us < 32" "uip_sappdata s = uip_appdata s"
    and "room (18 + length us) s"
  shows "send_question i e s = Some (put_chunk (question i us) s)"
proof -
  let ?q = "uip_appdata s" and ?h = "dns_question_hdr i" and ?n = "enc_labels (labels us)" and ?b = "uip_buf s"
  have r: "?q + 18 + length us \<le> length ?b" using assms(4,5) by (simp add: room_def)
  have h: "blit ?q ?h ?b = Some (patch ?b ?q ?h)" by (rule blit_patch) (use r in \<open>simp add: length_dns_question_hdr\<close>)
  have lh: "length (patch ?b ?q ?h) = length ?b" by (rule length_patch) (use r in \<open>simp add: length_dns_question_hdr\<close>)
  have "encode_name (nm_name e) (?q + 12) (patch ?b ?q ?h) = Some (?q + 12 + length us + 1, patch (patch ?b ?q ?h) (?q + 12) ?n)"
    unfolding assms(1) by (rule encode_name_spec [OF assms(2)]) (use r lh in simp)
  moreover have "patch (patch ?b ?q ?h) (?q + length ?h) ?n = patch ?b ?q (?h @ ?n)"
    by (rule patch_patch) (use r in \<open>simp add: length_dns_question_hdr length_enc_labels\<close>)
  ultimately have n: "encode_name (nm_name e) (?q + 12) (patch ?b ?q ?h) = Some (?q + 12 + length us + 1, patch ?b ?q (?h @ ?n))"
    by (simp add: length_dns_question_hdr)
  have "length (patch ?b ?q (?h @ ?n)) = length ?b"
    by (rule length_patch) (use r in \<open>simp add: length_dns_question_hdr length_enc_labels\<close>)
  then have w: "blit (?q + length (?h @ ?n)) [0, 0, 1, 0, 1] (patch ?b ?q (?h @ ?n)) =
      Some (patch (patch ?b ?q (?h @ ?n)) (?q + length (?h @ ?n)) [0, 0, 1, 0, 1])"
    by (intro blit_patch) (use r in \<open>simp add: length_dns_question_hdr length_enc_labels\<close>)
  have p: "patch (patch ?b ?q (?h @ ?n)) (?q + length (?h @ ?n)) [0, 0, 1, 0, 1] = patch ?b ?q ((?h @ ?n) @ [0, 0, 1, 0, 1])"
    by (rule patch_patch) (use r in \<open>simp add: length_dns_question_hdr length_enc_labels\<close>)
  have lq: "?q + 12 + length us + 1 = ?q + length (?h @ ?n)"
    by (simp add: length_dns_question_hdr length_enc_labels)
  have t: "blit (?q + 12 + length us + 1) [0, 0, 1, 0, 1] (patch ?b ?q (?h @ ?n)) = Some (patch ?b ?q (question i us))"
    unfolding lq w p by (simp add: question_eq)
  have k: "(?q + 12 + length us + 1 + 5 - ?q) mod 256 = 18 + length us" using assms(3) by simp
  have "unat (of_nat (18 + length us) :: u16) = 18 + length us" by (rule unat_small) (use assms(3) in simp)
  then have "(of_nat (18 + length us) :: u16) \<noteq> 0" by (metis unat_0 add_is_0 zero_neq_numeral)
  then have s: "uip_udp_send (18 + length us) (s\<lparr>uip_buf := b\<rparr>) = Some (s\<lparr>uip_buf := b, uip_slen := of_nat (18 + length us)\<rparr>)" for b
    using uip_send_ptr_Packet [of "s\<lparr>uip_buf := b\<rparr>" "of_nat (18 + length us)"]
    by (simp add: uip_udp_send_def assms(4) del: of_nat_add)
  have "send_question i e s = uip_udp_send (18 + length us) (s\<lparr>uip_buf := patch ?b ?q (question i us)\<rparr>)"
    by (simp only: send_question_def h n t k bind.bind_lunit prod.case)
  then show ?thesis unfolding s by (simp add: put_chunk_def length_question assms(4) del: of_nat_add)
qed

definition idle_entry :: "namemap \<Rightarrow> bool" where
  "idle_entry e \<longleftrightarrow> nm_state e \<noteq> STATE_NEW \<and> nm_state e \<noteq> STATE_ASKING"

text \<open>Entry \<open>i\<close> holds the name \<open>us\<close> and is the only one that is not yet finished.\<close>

definition only_entry :: "nat \<Rightarrow> u8 list \<Rightarrow> 'r resolv_scheme \<Rightarrow> bool" where
  "only_entry i us r \<longleftrightarrow> i < 4 \<and> length (nm_names r) = 4 \<and> 0 \<notin> set us \<and> length us < 32 \<and>
     (\<exists>rest. nm_name (nm_names r ! i) = us @ 0 # rest) \<and> (\<forall>j < 4. j \<noteq> i \<longrightarrow> idle_entry (nm_names r ! j))"

definition poll_event :: "'a uip \<Rightarrow> bool" where
  "poll_event s \<longleftrightarrow> udp_event UIP_POLL s \<and> uip_sappdata s = uip_appdata s \<and> room 50 s"

lemma check_entries_idle:
  assumes "i \<le> n" "n \<le> 4" "length (nm_names r) = 4" "\<forall>j. i \<le> j \<longrightarrow> j < n \<longrightarrow> idle_entry (nm_names r ! j)"
  shows "check_entries_from cb i r s = check_entries_from cb n r s"
  using assms
proof (induction "n - i" arbitrary: i)
  case (Suc k)
  have "idle_entry (nm_names r ! i)" "i < 4" using Suc.prems Suc.hyps(2) by simp_all
  then have "check_entries_from cb i r s = check_entries_from cb (i + 1) r s"
    using Suc.prems Suc.hyps(2) by (subst check_entries_from.simps) (simp add: idle_entry_def Let_def)
  also have "\<dots> = check_entries_from cb n r s" by (rule Suc.hyps(1)) (use Suc.prems Suc.hyps(2) in auto)
  finally show ?case .
qed simp

lemma check_entries_end: "check_entries_from cb 4 r s = Some (r, s)"
  by (subst check_entries_from.simps) simp

lemma check_entries_at:
  assumes "only_entry i us r"
  shows "check_entries cb r s = check_entries_from cb i r s"
  unfolding check_entries_def using assms by (intro check_entries_idle) (auto simp: only_entry_def)

lemma check_entries_rest:
  assumes "i < 4" "length (nm_names r) = 4" "\<forall>j < 4. j \<noteq> i \<longrightarrow> idle_entry (nm_names r ! j)"
  shows "check_entries_from cb (i + 1) r s = Some (r, s)"
  using check_entries_idle [of "i + 1" 4 r cb s] assms check_entries_end [of cb r s] by auto

lemma poll_not_newdata: "poll_event s \<Longrightarrow> \<not> uip_newdata s"
  by (auto simp: poll_event_def udp_event_def uip_newdata_def)

lemma upd_only_entry:
  assumes "only_entry i us r" "nm_name e = nm_name (nm_names r ! i)"
  shows "only_entry i us (upd_name i e r)" "nm_names (upd_name i e r) ! i = e"
  using assms by (auto simp: only_entry_def upd_name_def)

lemma send_question_entry:
  assumes "only_entry i us r" "poll_event s" "nm_name e = nm_name (nm_names r ! i)"
  shows "send_question i e s = Some (put_chunk (question i us) s)"
proof -
  obtain rest where "nm_name (nm_names r ! i) = us @ 0 # rest" "0 \<notin> set us" "length us < 32"
    using assms(1) by (auto simp: only_entry_def)
  then show ?thesis
    using assms(2,3) by (intro send_question_spec [of _ us rest]) (auto simp: poll_event_def room_def)
qed

lemma question_not_newdata: "poll_event s \<Longrightarrow> \<not> uip_newdata (put_chunk bs s)"
  by (simp add: poll_not_newdata)

lemma poll_new:
  assumes "only_entry i us r" "poll_event s" "nm_state (nm_names r ! i) = STATE_NEW"
  shows "resolv_appcall cb r s = Some (upd_name i ((nm_names r ! i)\<lparr>nm_state := STATE_ASKING, nm_tmr := 1, nm_retries := 0\<rparr>) r,
    put_chunk (question i us) s)"
proof (rule appcall_poll)
  show "udp_event UIP_POLL s" using assms(2) by (simp add: poll_event_def)
  show "check_entries cb r s = Some (upd_name i ((nm_names r ! i)\<lparr>nm_state := STATE_ASKING, nm_tmr := 1, nm_retries := 0\<rparr>) r,
      put_chunk (question i us) s)"
    unfolding check_entries_at [OF assms(1)]
    using assms send_question_entry [OF assms(1,2)] by (subst check_entries_from.simps) (simp add: only_entry_def)
qed (rule question_not_newdata [OF assms(2)])

lemma poll_asking:
  assumes "only_entry i us r" "poll_event s" "nm_state (nm_names r ! i) = STATE_ASKING"
    and "nm_tmr (nm_names r ! i) = t" "nm_retries (nm_names r ! i) = n" "t = 1 \<longrightarrow> n + 1 \<noteq> 8"
  shows "resolv_appcall cb r s = (if t = 1
    then Some (upd_name i ((nm_names r ! i)\<lparr>nm_retries := n + 1, nm_tmr := n + 1\<rparr>) r, put_chunk (question i us) s)
    else Some (upd_name i ((nm_names r ! i)\<lparr>nm_tmr := t - 1\<rparr>) r, s))"
proof -
  let ?e = "nm_names r ! i"
  have p: "udp_event UIP_POLL s" using assms(2) by (simp add: poll_event_def)
  have l: "i < 4" "length (nm_names r) = 4" using assms(1) by (simp_all add: only_entry_def)
  show ?thesis
  proof (cases "t = 1")
    case True
    have "check_entries cb r s = Some (upd_name i (?e\<lparr>nm_retries := n + 1, nm_tmr := n + 1\<rparr>) r, put_chunk (question i us) s)"
      unfolding check_entries_at [OF assms(1)]
      using assms(3-6) True l send_question_entry [OF assms(1,2)]
      by (subst check_entries_from.simps) (simp add: Let_def)
    then show ?thesis using True appcall_poll [OF p _ question_not_newdata [OF assms(2)]] by simp
  next
    case False
    then have t: "t - 1 \<noteq> 0" by simp
    let ?r = "upd_name i (?e\<lparr>nm_tmr := t - 1\<rparr>) r"
    have "check_entries_from cb (i + 1) ?r s = Some (?r, s)"
      by (rule check_entries_rest) (use upd_only_entry(1) [OF assms(1), of "?e\<lparr>nm_tmr := t - 1\<rparr>"] in \<open>simp_all add: only_entry_def\<close>)
    then have "check_entries cb r s = Some (?r, s)"
      unfolding check_entries_at [OF assms(1)]
      using assms(3,4) t l by (subst check_entries_from.simps) (simp add: Let_def)
    then show ?thesis using False appcall_poll [OF p _ poll_not_newdata [OF assms(2)]] by simp
  qed
qed

lemma poll_last:
  assumes "only_entry i us r" "poll_event s" "nm_state (nm_names r ! i) = STATE_ASKING"
    and "nm_tmr (nm_names r ! i) = 1" "nm_retries (nm_names r ! i) = 7"
    and "\<forall>q. \<exists>r'. cb (nm_name (nm_names r ! i)) None q s = Some (r', s) \<and> nm_names r' = nm_names q"
  shows "\<exists>r1 r'. cb (nm_name (nm_names r ! i)) None r1 s = Some (r', s) \<and> resolv_appcall cb r s = Some (r', s) \<and>
    nm_state (nm_names r' ! i) = STATE_ERROR"
proof -
  let ?e = "(nm_names r ! i)\<lparr>nm_tmr := 0, nm_retries := 8, nm_state := STATE_ERROR\<rparr>"
  let ?r = "upd_name i ?e r"
  have l: "i < 4" "length (nm_names r) = 4" using assms(1) by (simp_all add: only_entry_def)
  have n: "nm_names ?r ! i = ?e" using l by (simp add: upd_name_def)
  obtain r' where r': "cb (nm_name (nm_names r ! i)) None ?r s = Some (r', s)" "nm_names r' = nm_names ?r"
    using spec [OF assms(6), of ?r] by blast
  have "check_entries_from cb (i + 1) r' s = Some (r', s)"
    by (rule check_entries_rest) (use r'(2) upd_only_entry(1) [OF assms(1), of ?e] in \<open>simp_all add: only_entry_def\<close>)
  then have "check_entries cb r s = Some (r', s)"
    unfolding check_entries_at [OF assms(1)]
    using assms(3-5) l r'(1) by (subst check_entries_from.simps) (simp add: Let_def)
  then have "resolv_appcall cb r s = Some (r', s)"
    using assms(2) poll_not_newdata [OF assms(2)] by (intro appcall_poll) (simp_all add: poll_event_def)
  then show ?thesis using r' n by auto
qed

text \<open>Poll events after one another; the result holds the stack after each.\<close>

fun poll_run :: "('r, 'a) on_found \<Rightarrow> 'r resolv_scheme \<Rightarrow> 'a uip list \<Rightarrow> ('a uip list \<times> 'r resolv_scheme) option" where
  "poll_run cb r [] = Some ([], r)"
| "poll_run cb r (s # ss) = do {
     (r, s) \<leftarrow> resolv_appcall cb r s;
     (os, r) \<leftarrow> poll_run cb r ss;
     Some (s # os, r) }"

text \<open>In which of the next \<open>k\<close> events an entry with timer \<open>t\<close> and \<open>n\<close> retries sends its question.\<close>

fun retry_plan :: "nat \<Rightarrow> u8 \<Rightarrow> u8 \<Rightarrow> (bool list \<times> u8 \<times> u8) option" where
  "retry_plan 0 t n = Some ([], t, n)"
| "retry_plan (Suc k) t n =
     (if t = 1 then (if n + 1 = 8 then None
        else map_option (\<lambda>(bs, r). (True # bs, r)) (retry_plan k (n + 1) (n + 1)))
      else map_option (\<lambda>(bs, r). (False # bs, r)) (retry_plan k (t - 1) n))"

definition asked :: "nat \<Rightarrow> u8 list \<Rightarrow> bool \<Rightarrow> 'a uip \<Rightarrow> 'a uip" where
  "asked i us b s = (if b then put_chunk (question i us) s else s)"

lemma poll_run_plan:
  assumes "only_entry i us r" "nm_state (nm_names r ! i) = STATE_ASKING" "\<forall>s \<in> set ss. poll_event s"
    and "retry_plan (length ss) (nm_tmr (nm_names r ! i)) (nm_retries (nm_names r ! i)) = Some (bs, t, n)"
  shows "\<exists>r'. poll_run cb r ss = Some (map2 (asked i us) bs ss, r') \<and> only_entry i us r' \<and>
    nm_state (nm_names r' ! i) = STATE_ASKING \<and> nm_tmr (nm_names r' ! i) = t \<and> nm_retries (nm_names r' ! i) = n \<and>
    nm_name (nm_names r' ! i) = nm_name (nm_names r ! i)"
  using assms
proof (induction ss arbitrary: r bs)
  case (Cons s ss)
  let ?e = "nm_names r ! i"
  have p: "poll_event s" using Cons.prems(3) by simp
  define e where "e = (if nm_tmr ?e = 1 then ?e\<lparr>nm_retries := nm_retries ?e + 1, nm_tmr := nm_retries ?e + 1\<rparr>
    else ?e\<lparr>nm_tmr := nm_tmr ?e - 1\<rparr>)"
  have "nm_tmr ?e = 1 \<longrightarrow> nm_retries ?e + 1 \<noteq> 8" using Cons.prems(4) by (auto split: if_splits)
  then have a: "resolv_appcall cb r s = Some (upd_name i e r, asked i us (nm_tmr ?e = 1) s)"
    using poll_asking [OF Cons.prems(1) p Cons.prems(2) refl refl] by (simp add: e_def asked_def)
  have e: "nm_name e = nm_name ?e" "nm_state e = STATE_ASKING" using Cons.prems(2) by (simp_all add: e_def)
  note u = upd_only_entry [OF Cons.prems(1) e(1)]
  obtain bs' where bs': "retry_plan (length ss) (nm_tmr e) (nm_retries e) = Some (bs', t, n)" "bs = (nm_tmr ?e = 1) # bs'"
    using Cons.prems(4) by (auto simp: e_def split: if_splits)
  have "\<exists>r'. poll_run cb (upd_name i e r) ss = Some (map2 (asked i us) bs' ss, r') \<and> only_entry i us r' \<and>
    nm_state (nm_names r' ! i) = STATE_ASKING \<and> nm_tmr (nm_names r' ! i) = t \<and> nm_retries (nm_names r' ! i) = n \<and>
    nm_name (nm_names r' ! i) = nm_name (nm_names (upd_name i e r) ! i)"
    by (rule Cons.IH) (use u e(2) bs'(1) Cons.prems(3) in simp_all)
  then show ?case using a bs'(2) u(2) e(1) by auto
qed simp

text \<open>The events, counted from 0, in which a new name is asked for.\<close>

definition asking_events :: "bool list" where
  "asking_events = map (\<lambda>k. k \<in> {0, 1, 2, 4, 7, 11, 16, 22}) [0 ..< 29]"

lemma retry_plan_28: "retry_plan 28 1 0 = Some (tl asking_events, 1, 7)"
  by code_simp

text \<open>C31: A name that nobody answers is given up. The only new name of the table is asked for in the
  first, second, third, fifth, eighth, twelfth, seventeenth and twenty-third timer event, in no
  other, and in the thirtieth event the entry becomes an error and the user is told so.\<close>

theorem resolv_gives_up:
  assumes "only_entry i us r" "nm_state (nm_names r ! i) = STATE_NEW" "\<forall>s \<in> set (ss @ [s']). poll_event s" "length ss = 29"
    and "\<forall>q. \<exists>r'. resolv_found (nm_name (nm_names r ! i)) None q s' = Some (r', s') \<and> nm_names r' = nm_names q"
  shows "\<exists>r1 r2 r'. poll_run resolv_found r ss = Some (map2 (asked i us) asking_events ss, r1) \<and>
    resolv_found (nm_name (nm_names r ! i)) None r2 s' = Some (r', s') \<and>
    resolv_appcall resolv_found r1 s' = Some (r', s') \<and> nm_state (nm_names r' ! i) = STATE_ERROR"
proof -
  obtain s0 ss' where ss: "ss = s0 # ss'" "length ss' = 28" using assms(4) by (cases ss) auto
  let ?e = "(nm_names r ! i)\<lparr>nm_state := STATE_ASKING, nm_tmr := 1, nm_retries := 0\<rparr>"
  have p: "poll_event s0" "\<forall>s \<in> set ss'. poll_event s" "poll_event s'" using assms(3) ss(1) by simp_all
  have a: "resolv_appcall resolv_found r s0 = Some (upd_name i ?e r, put_chunk (question i us) s0)"
    by (rule poll_new [OF assms(1) p(1) assms(2)])
  have n: "nm_name ?e = nm_name (nm_names r ! i)" by simp
  note u = upd_only_entry [OF assms(1) n]
  have e: "nm_state ?e = STATE_ASKING" "nm_tmr ?e = 1" "nm_retries ?e = 0" by simp_all
  have "retry_plan (length ss') (nm_tmr ?e) (nm_retries ?e) = Some (tl asking_events, 1, 7)"
    unfolding e ss(2) by (rule retry_plan_28)
  then obtain r1 where r1: "poll_run resolv_found (upd_name i ?e r) ss' = Some (map2 (asked i us) (tl asking_events) ss', r1)"
    "only_entry i us r1" "nm_state (nm_names r1 ! i) = STATE_ASKING" "nm_tmr (nm_names r1 ! i) = 1"
    "nm_retries (nm_names r1 ! i) = 7" "nm_name (nm_names r1 ! i) = nm_name (nm_names r ! i)"
    using poll_run_plan [OF u(1) _ p(2), unfolded u(2) n, OF e(1)] by blast
  have "asking_events = True # tl asking_events" by code_simp
  then obtain bs where bs: "asking_events = True # bs" "tl asking_events = bs" by simp
  have "map2 (asked i us) asking_events ss = put_chunk (question i us) s0 # map2 (asked i us) (tl asking_events) ss'"
    unfolding ss(1) bs by (simp add: asked_def)
  then have "poll_run resolv_found r ss = Some (map2 (asked i us) asking_events ss, r1)"
    using a r1(1) by (simp add: ss(1))
  moreover have "\<forall>q. \<exists>r'. resolv_found (nm_name (nm_names r1 ! i)) None q s' = Some (r', s') \<and> nm_names r' = nm_names q"
    unfolding r1(6) by (rule assms(5))
  ultimately show ?thesis
    using poll_last [OF r1(2) p(3) r1(3-5)] unfolding r1(6) by blast
qed

lemma query_slot_less: "lseqi < i + length es \<Longrightarrow> query_slot seqno es i lseq lseqi < i + length es"
proof (induction es arbitrary: i lseq lseqi)
  case (Cons e es)
  have "i < i + 1 + length es" by simp
  then show ?case
    using Cons.IH [of lseqi "i + 1" lseq] Cons.IH [of i "i + 1" "seqno - nm_seqno e"] Cons.prems by simp
qed simp

lemma resolv_query_spec:
  assumes "length (nm_names r) = 4" "\<forall>e \<in> set (nm_names r). length (nm_name e) = 32"
    and "i = query_slot (nm_next r) (nm_names r) 0 0 0" "\<forall>j < 4. j \<noteq> i \<longrightarrow> idle_entry (nm_names r ! j)"
    and "0 \<notin> set us" "length us < 32"
  shows "\<exists>e r1. resolv_query (us @ 0 # ys) r = Some r1 \<and> only_entry i us r1 \<and> nm_names r1 = (nm_names r)[i := e] \<and>
    nm_state e = STATE_NEW"
proof -
  have i: "i < 4" using query_slot_less [of 0 0 "nm_names r" "nm_next r" 0] assms(1,3) by simp
  let ?nm = "us @ 0 # drop (length us + 1) (nm_name (nm_names r ! i))"
  have "length (nm_name (nm_names r ! i)) = 32" using assms(1,2) i by simp
  then have c: "strcpy (nm_name (nm_names r ! i)) (us @ 0 # ys) = Some ?nm"
    using assms(5,6) by (intro strcpy_string) simp_all
  let ?e = "(nm_names r ! i)\<lparr>nm_name := ?nm, nm_state := STATE_NEW, nm_seqno := nm_next r\<rparr>"
  let ?r = "(upd_name i ?e r)\<lparr>nm_next := nm_next r + 1\<rparr>"
  have "resolv_query (us @ 0 # ys) r = Some ?r"
    using i assms(1) c by (simp add: resolv_query_def upd_name_def Let_def flip: assms(3))
  moreover have "only_entry i us ?r" using assms(1,4-6) i by (auto simp: only_entry_def upd_name_def)
  moreover have "nm_names ?r = (nm_names r)[i := ?e]" by (simp add: upd_name_def)
  moreover have "nm_state ?e = STATE_NEW" by simp
  ultimately show ?thesis by blast
qed

text \<open>C28: A name is resolved. A name that is queued while nothing else is being asked is asked for in
  the next timer event, by a datagram that holds exactly the question in the DNS format; when
  the answer comes, the user's callback gets the name and the first address of the answer, and
  looking the name up finds that address.\<close>

theorem resolv_resolves_name:
  assumes "length (nm_names r) = 4" "\<forall>e \<in> set (nm_names r). length (nm_name e) = 32"
    and "i = query_slot (nm_next r) (nm_names r) 0 0 0" "\<forall>j < 4. j \<noteq> i \<longrightarrow> idle_entry (nm_names r ! j)"
    and "0 \<notin> set us" "length us < 32"
    and "\<forall>j < i. nm_state (nm_names r ! j) = STATE_DONE \<longrightarrow>
      (\<exists>vs rest. nm_name (nm_names r ! j) = vs @ 0 # rest \<and> 0 \<notin> set vs \<and> vs \<noteq> us)"
    and "poll_event s" "brings_answer i rrs s'" "first_address rrs = Some a"
  shows "\<exists>r1 r2 r3 rest. resolv_query (us @ 0 # ys) r = Some r1 \<and>
    resolv_appcall resolv_found r1 s = Some (r2, put_chunk (question i us) s) \<and>
    resolv_appcall resolv_found r2 s' = resolv_found (us @ 0 # rest) (Some a) r3 s' \<and>
    resolv_lookup (us @ 0 # ys) r3 = Some (Some a)"
proof -
  obtain e r1 where r1: "resolv_query (us @ 0 # ys) r = Some r1" "only_entry i us r1" "nm_names r1 = (nm_names r)[i := e]"
    "nm_state e = STATE_NEW" using resolv_query_spec [OF assms(1-6), of ys] by blast
  have i: "i < 4" using r1(2) by (simp add: only_entry_def)
  have n: "nm_state (nm_names r1 ! i) = STATE_NEW" using r1(3,4) i assms(1) by simp
  let ?e = "(nm_names r1 ! i)\<lparr>nm_state := STATE_ASKING, nm_tmr := 1, nm_retries := 0\<rparr>"
  have a: "resolv_appcall resolv_found r1 s = Some (upd_name i ?e r1, put_chunk (question i us) s)"
    by (rule poll_new [OF r1(2) assms(8) n])
  have k: "nm_name ?e = nm_name (nm_names r1 ! i)" by simp
  note u = upd_only_entry [OF r1(2) k]
  have o: "nm_names (upd_name i ?e r1) ! j = nm_names r ! j" if "j < i" for j
    using that r1(3) by (simp add: upd_name_def)
  have ask: "asking i us (upd_name i ?e r1)"
    unfolding asking_def u(2) using u(1) assms(7) o u(2) by (simp add: only_entry_def)
  obtain rest where rest: "nm_name (nm_names (upd_name i ?e r1) ! i) = us @ 0 # rest" using ask by (auto simp: asking_def)
  let ?a = "(nm_names (upd_name i ?e r1) ! i)\<lparr>nm_state := STATE_DONE, nm_err := 0, nm_ipaddr := a\<rparr>"
  have "resolv_appcall resolv_found (upd_name i ?e r1) s' = resolv_found (us @ 0 # rest) (Some a) (upd_name i ?a (upd_name i ?e r1)) s'"
    using appcall_answer [OF ask assms(9), of resolv_found] assms(10) rest by (simp add: Let_def)
  then show ?thesis using r1(1) a lookup_answered [OF ask, of ys a] by blast
qed

end
