(* ===== verification/UipDhcpc.thy ===== *)
theory UipDhcpc
  imports UipResolv UipNeighbor
begin

text \<open>
  The DHCP client (\<^verbatim>\<open>apps/dhcpc/dhcpc.c\<close>): the messages, their options and the protothread that
  asks for an address. Addresses are kept as the four bytes in memory. The clock is read once for
  an event, as \<open>now\<close>; a second has 1000 ticks.
\<close>

subsection \<open>Data\<close>

datatype dhcpc_phase = STATE_INITIAL | STATE_SENDING | STATE_OFFER_RECEIVED | STATE_CONFIG_RECEIVED

record dhcpc_state =
  dhcpt :: lc
  dphase :: dhcpc_phase
  dconn :: "nat option"
  dtimer :: uip_timer
  dticks :: u16
  mac_addr :: "u8 list"
  mac_len :: int
  serverid :: "u8 list"
  lease_time :: "u8 list"
  dipaddr :: "u8 list"
  dnetmask :: "u8 list"
  dnsaddr :: "u8 list"
  default_router :: "u8 list"

abbreviation (input) "CLOCK_SECOND \<equiv> (1000 :: int)"
abbreviation (input) "BOOTP_BROADCAST \<equiv> (0x8000 :: u16)"
abbreviation (input) "DHCP_REQUEST \<equiv> (1 :: u8)"
abbreviation (input) "DHCP_REPLY \<equiv> (2 :: u8)"
abbreviation (input) "DHCP_HTYPE_ETHERNET \<equiv> (1 :: u8)"
abbreviation (input) "DHCPC_SERVER_PORT \<equiv> (67 :: u16)"
abbreviation (input) "DHCPC_CLIENT_PORT \<equiv> (68 :: u16)"
abbreviation (input) "DHCPDISCOVER \<equiv> (1 :: u8)"
abbreviation (input) "DHCPOFFER \<equiv> (2 :: u8)"
abbreviation (input) "DHCPREQUEST \<equiv> (3 :: u8)"
abbreviation (input) "DHCPACK \<equiv> (5 :: u8)"
abbreviation (input) "DHCP_OPTION_SUBNET_MASK \<equiv> (1 :: u8)"
abbreviation (input) "DHCP_OPTION_ROUTER \<equiv> (3 :: u8)"
abbreviation (input) "DHCP_OPTION_DNS_SERVER \<equiv> (6 :: u8)"
abbreviation (input) "DHCP_OPTION_REQ_IPADDR \<equiv> (50 :: u8)"
abbreviation (input) "DHCP_OPTION_LEASE_TIME \<equiv> (51 :: u8)"
abbreviation (input) "DHCP_OPTION_MSG_TYPE \<equiv> (53 :: u8)"
abbreviation (input) "DHCP_OPTION_SERVER_ID \<equiv> (54 :: u8)"
abbreviation (input) "DHCP_OPTION_REQ_LIST \<equiv> (55 :: u8)"
abbreviation (input) "DHCP_OPTION_END \<equiv> (255 :: u8)"

definition xid :: "u8 list" where
  "xid = [0xad, 0xde, 0x12, 0x23]"

definition magic_cookie :: "u8 list" where
  "magic_cookie = [99, 130, 83, 99]"

subsection \<open>Messages\<close>

text \<open>The functions take the place of the next option and the packet buffer.\<close>

definition add_msg_type :: "u8 \<Rightarrow> nat \<Rightarrow> u8 list \<Rightarrow> (nat \<times> u8 list) option" where
  "add_msg_type ty optptr b = do {
     b \<leftarrow> blit optptr [DHCP_OPTION_MSG_TYPE, 1, ty] b;
     Some (optptr + 3, b) }"

definition add_server_id :: "dhcpc_state \<Rightarrow> nat \<Rightarrow> u8 list \<Rightarrow> (nat \<times> u8 list) option" where
  "add_server_id d optptr b = do {
     v \<leftarrow> slice 0 4 (serverid d);
     b \<leftarrow> blit optptr ([DHCP_OPTION_SERVER_ID, 4] @ v) b;
     Some (optptr + 6, b) }"

definition add_req_ipaddr :: "dhcpc_state \<Rightarrow> nat \<Rightarrow> u8 list \<Rightarrow> (nat \<times> u8 list) option" where
  "add_req_ipaddr d optptr b = do {
     v \<leftarrow> slice 0 4 (dipaddr d);
     b \<leftarrow> blit optptr ([DHCP_OPTION_REQ_IPADDR, 4] @ v) b;
     Some (optptr + 6, b) }"

definition add_req_options :: "nat \<Rightarrow> u8 list \<Rightarrow> (nat \<times> u8 list) option" where
  "add_req_options optptr b = do {
     b \<leftarrow> blit optptr [DHCP_OPTION_REQ_LIST, 3, DHCP_OPTION_SUBNET_MASK, DHCP_OPTION_ROUTER,
       DHCP_OPTION_DNS_SERVER] b;
     Some (optptr + 5, b) }"

definition add_end :: "nat \<Rightarrow> u8 list \<Rightarrow> (nat \<times> u8 list) option" where
  "add_end optptr b = do {
     b \<leftarrow> blit optptr [DHCP_OPTION_END] b;
     Some (optptr + 1, b) }"

text \<open>The fields of \<^verbatim>\<open>struct dhcp_msg\<close> up to the options, and the cookie.\<close>

definition dhcp_hdr :: "dhcpc_state \<Rightarrow> 'a uip \<Rightarrow> u8 list option" where
  "dhcp_hdr d s = do {
     guard (0 \<le> mac_len d \<and> mac_len d \<le> 16);
     mac \<leftarrow> slice 0 (nat (mac_len d)) (mac_addr d);
     Some ([DHCP_REQUEST, DHCP_HTYPE_ETHERNET, word_of_int (mac_len d), 0] @ xid @ le16 0 @
       le16 (HTONS BOOTP_BROADCAST) @ le16 (fst (uip_hostaddr s)) @ le16 (snd (uip_hostaddr s)) @
       replicate 4 0 @ replicate 4 0 @ replicate 4 0 @ mac @ replicate (16 - nat (mac_len d)) 0 @
       replicate 64 0 @ replicate 128 0 @ magic_cookie) }"

definition create_msg :: "dhcpc_state \<Rightarrow> 'a uip \<Rightarrow> u8 list option" where
  "create_msg d s = do {
     h \<leftarrow> dhcp_hdr d s;
     blit (uip_appdata s) h (uip_buf s) }"

definition send_discover :: "dhcpc_state \<Rightarrow> 'a uip \<Rightarrow> 'a uip option" where
  "send_discover d s = do {
     b \<leftarrow> create_msg d s;
     (p, b) \<leftarrow> add_msg_type DHCPDISCOVER (uip_appdata s + 240) b;
     (p, b) \<leftarrow> add_req_options p b;
     (p, b) \<leftarrow> add_end p b;
     uip_send_ptr (Packet (uip_appdata s)) (of_nat (p - uip_appdata s)) (s\<lparr>uip_buf := b\<rparr>) }"

definition send_request :: "dhcpc_state \<Rightarrow> 'a uip \<Rightarrow> 'a uip option" where
  "send_request d s = do {
     b \<leftarrow> create_msg d s;
     (p, b) \<leftarrow> add_msg_type DHCPREQUEST (uip_appdata s + 240) b;
     (p, b) \<leftarrow> add_server_id d p b;
     (p, b) \<leftarrow> add_req_ipaddr d p b;
     (p, b) \<leftarrow> add_end p b;
     uip_send_ptr (Packet (uip_appdata s)) (of_nat (p - uip_appdata s)) (s\<lparr>uip_buf := b\<rparr>) }"

text \<open>The switch on an option's code: the values are copied at their full length, whatever the option's own.\<close>

definition read_option :: "nat \<Rightarrow> u8 \<Rightarrow> u8 \<Rightarrow> dhcpc_state \<Rightarrow> u8 list \<Rightarrow> (u8 \<times> dhcpc_state) option" where
  "read_option optptr c ty d b =
     (if c = DHCP_OPTION_SUBNET_MASK then do { v \<leftarrow> slice (optptr + 2) 4 b; Some (ty, d\<lparr>dnetmask := v\<rparr>) }
      else if c = DHCP_OPTION_ROUTER then do { v \<leftarrow> slice (optptr + 2) 4 b; Some (ty, d\<lparr>default_router := v\<rparr>) }
      else if c = DHCP_OPTION_DNS_SERVER then do { v \<leftarrow> slice (optptr + 2) 4 b; Some (ty, d\<lparr>dnsaddr := v\<rparr>) }
      else if c = DHCP_OPTION_MSG_TYPE then do { guard (optptr + 2 < length b); Some (b ! (optptr + 2), d) }
      else if c = DHCP_OPTION_SERVER_ID then do { v \<leftarrow> slice (optptr + 2) 4 b; Some (ty, d\<lparr>serverid := v\<rparr>) }
      else if c = DHCP_OPTION_LEASE_TIME then do { v \<leftarrow> slice (optptr + 2) 4 b; Some (ty, d\<lparr>lease_time := v\<rparr>) }
      else Some (ty, d))"

text \<open>The options from \<open>optptr\<close> to \<open>stop\<close>; their lengths are not compared with the end.\<close>

partial_function (option) parse_options_from ::
    "nat \<Rightarrow> nat \<Rightarrow> u8 \<Rightarrow> dhcpc_state \<Rightarrow> u8 list \<Rightarrow> (u8 \<times> dhcpc_state) option" where
  "parse_options_from optptr stop ty d b =
     (if optptr < stop then do {
        guard (optptr < length b);
        if b ! optptr = DHCP_OPTION_END then Some (ty, d)
        else do {
          (ty, d) \<leftarrow> read_option optptr (b ! optptr) ty d b;
          guard (optptr + 1 < length b);
          parse_options_from (optptr + unat (b ! (optptr + 1)) + 2) stop ty d b } }
      else Some (ty, d))"

definition parse_options :: "nat \<Rightarrow> nat \<Rightarrow> dhcpc_state \<Rightarrow> u8 list \<Rightarrow> (u8 \<times> dhcpc_state) option" where
  "parse_options optptr len d b = parse_options_from optptr (optptr + len) 0 d b"

text \<open>The tests of the condition are made one after the other.\<close>

definition parse_msg :: "dhcpc_state \<Rightarrow> 'a uip \<Rightarrow> (u8 \<times> dhcpc_state) option" where
  "parse_msg d s = do {
     op \<leftarrow> rd8_at (uip_appdata s) s;
     if op = DHCP_REPLY then do {
       x \<leftarrow> slice (uip_appdata s + 4) 4 (uip_buf s);
       if x = xid then do {
         guard (0 \<le> mac_len d);
         ch \<leftarrow> slice (uip_appdata s + 28) (nat (mac_len d)) (uip_buf s);
         mac \<leftarrow> slice 0 (nat (mac_len d)) (mac_addr d);
         if ch = mac then do {
           v \<leftarrow> slice (uip_appdata s + 16) 4 (uip_buf s);
           parse_options (uip_appdata s + 240) (unat (uip_len s)) (d\<lparr>dipaddr := v\<rparr>) (uip_buf s) }
         else Some (0, d) }
       else Some (0, d) }
     else Some (0, d) }"

subsection \<open>The protothread\<close>

type_synonym 'a dhcp_result = "pt_result \<times> dhcpc_state \<times> 'a uip"

text \<open>\<^verbatim>\<open>uip_newdata() && parse_msg() == ty\<close>.\<close>

definition got_msg :: "u8 \<Rightarrow> dhcpc_state \<Rightarrow> 'a uip \<Rightarrow> (bool \<times> dhcpc_state) option" where
  "got_msg ty d s =
     (if uip_newdata s then do {
        (t, d) \<leftarrow> parse_msg d s;
        Some (t = ty, d) }
      else Some (False, d))"

text \<open>From the configuration on, the thread only yields; the user's callback gets the state.\<close>

definition dhcp_configured ::
    "(dhcpc_state \<Rightarrow> 'a uip \<Rightarrow> 'a uip option) \<Rightarrow> dhcpc_state \<Rightarrow> 'a uip \<Rightarrow> 'a dhcp_result option" where
  "dhcp_configured dhcpc_configured d s = do {
     s \<leftarrow> dhcpc_configured d s;
     Some (PT_YIELDED, d\<lparr>dhcpt := 316\<rparr>, s) }"

text \<open>One round of each loop from its wait to its next wait: the thread's result (\<open>Inl\<close>) or the state at
  the next wait (\<open>Inr\<close>), which control reaches without leaving the event.\<close>

definition start_request :: "32 word \<Rightarrow> dhcpc_state \<Rightarrow> 'a uip \<Rightarrow> (dhcpc_state \<times> 'a uip) option" where
  "start_request now d s = do {
     s \<leftarrow> send_request d s;
     Some (d\<lparr>dtimer := timer_set now (ucast (dticks d)), dhcpt := 276\<rparr>, s) }"

definition request_round :: "(dhcpc_state \<Rightarrow> 'a uip \<Rightarrow> 'a uip option) \<Rightarrow> 32 word \<Rightarrow> dhcpc_state \<Rightarrow> 'a uip \<Rightarrow>
    ('a dhcp_result + dhcpc_state \<times> 'a uip) option" where
  "request_round dhcpc_configured now d s =
     (if \<not> (uip_newdata s \<or> timer_expired now (dtimer d)) then Some (Inl (PT_WAITING, d, s))
      else do {
        (ack, d) \<leftarrow> got_msg DHCPACK d s;
        if ack then map_option Inl (dhcp_configured dhcpc_configured (d\<lparr>dphase := STATE_CONFIG_RECEIVED\<rparr>) s)
        else if uint (dticks d) \<le> CLOCK_SECOND * 10 then
          (let d = d\<lparr>dticks := dticks d + word_of_int CLOCK_SECOND\<rparr> in
           if dphase d \<noteq> STATE_CONFIG_RECEIVED then map_option Inr (start_request now d s)
           else map_option Inl (dhcp_configured dhcpc_configured d s))
        else Some (Inl (PT_WAITING, d\<lparr>dhcpt := 0\<rparr>, s)) })"

partial_function (option) request_loop :: "(dhcpc_state \<Rightarrow> 'a uip \<Rightarrow> 'a uip option) \<Rightarrow> 32 word \<Rightarrow>
    dhcpc_state \<Rightarrow> 'a uip \<Rightarrow> 'a dhcp_result option" where
  "request_loop dhcpc_configured now d s = do {
     r \<leftarrow> request_round dhcpc_configured now d s;
     case r of Inl x \<Rightarrow> Some x | Inr (d, s) \<Rightarrow> request_loop dhcpc_configured now d s }"

text \<open>The statements between the loops.\<close>

definition request_phase :: "(dhcpc_state \<Rightarrow> 'a uip \<Rightarrow> 'a uip option) \<Rightarrow> 32 word \<Rightarrow>
    dhcpc_state \<Rightarrow> 'a uip \<Rightarrow> 'a dhcp_result option" where
  "request_phase dhcpc_configured now d s = do {
     (d, s) \<leftarrow> start_request now (d\<lparr>dticks := word_of_int CLOCK_SECOND\<rparr>) s;
     request_loop dhcpc_configured now d s }"

definition start_discover :: "32 word \<Rightarrow> dhcpc_state \<Rightarrow> 'a uip \<Rightarrow> (dhcpc_state \<times> 'a uip) option" where
  "start_discover now d s = do {
     s \<leftarrow> send_discover d s;
     Some (d\<lparr>dtimer := timer_set now (ucast (dticks d)), dhcpt := 259\<rparr>, s) }"

definition discover_round :: "(dhcpc_state \<Rightarrow> 'a uip \<Rightarrow> 'a uip option) \<Rightarrow> 32 word \<Rightarrow> dhcpc_state \<Rightarrow> 'a uip \<Rightarrow>
    ('a dhcp_result + dhcpc_state \<times> 'a uip) option" where
  "discover_round dhcpc_configured now d s =
     (if \<not> (uip_newdata s \<or> timer_expired now (dtimer d)) then Some (Inl (PT_WAITING, d, s))
      else do {
        (offer, d) \<leftarrow> got_msg DHCPOFFER d s;
        if offer then map_option Inl (request_phase dhcpc_configured now (d\<lparr>dphase := STATE_OFFER_RECEIVED\<rparr>) s)
        else
          (let d = (if uint (dticks d) < CLOCK_SECOND * 60 then d\<lparr>dticks := dticks d * 2\<rparr> else d) in
           if dphase d \<noteq> STATE_OFFER_RECEIVED then map_option Inr (start_discover now d s)
           else map_option Inl (request_phase dhcpc_configured now d s)) })"

partial_function (option) discover_loop :: "(dhcpc_state \<Rightarrow> 'a uip \<Rightarrow> 'a uip option) \<Rightarrow> 32 word \<Rightarrow>
    dhcpc_state \<Rightarrow> 'a uip \<Rightarrow> 'a dhcp_result option" where
  "discover_loop dhcpc_configured now d s = do {
     r \<leftarrow> discover_round dhcpc_configured now d s;
     case r of Inl x \<Rightarrow> Some x | Inr (d, s) \<Rightarrow> discover_loop dhcpc_configured now d s }"

definition handle_dhcp :: "(dhcpc_state \<Rightarrow> 'a uip \<Rightarrow> 'a uip option) \<Rightarrow> 32 word \<Rightarrow>
    dhcpc_state \<Rightarrow> 'a uip \<Rightarrow> 'a dhcp_result option" where
  "handle_dhcp dhcpc_configured now d s =
     (if dhcpt d = 0 then do {
        (d, s) \<leftarrow> start_discover now (d\<lparr>dphase := STATE_SENDING, dticks := word_of_int CLOCK_SECOND\<rparr>) s;
        discover_loop dhcpc_configured now d s }
      else if dhcpt d = 259 then discover_loop dhcpc_configured now d s
      else if dhcpt d = 276 then request_loop dhcpc_configured now d s
      else if dhcpt d = 316 then Some (PT_YIELDED, d, s)
      else Some (PT_ENDED, d\<lparr>dhcpt := 0\<rparr>, s))"

subsection \<open>Interface\<close>

definition dhcpc_appcall :: "(dhcpc_state \<Rightarrow> 'a uip \<Rightarrow> 'a uip option) \<Rightarrow> 32 word \<Rightarrow>
    dhcpc_state \<Rightarrow> 'a uip \<Rightarrow> (dhcpc_state \<times> 'a uip) option" where
  "dhcpc_appcall dhcpc_configured now d s = do {
     (_, d, s) \<leftarrow> handle_dhcp dhcpc_configured now d s;
     Some (d, s) }"

definition uip_udp_bind :: "nat \<Rightarrow> u16 \<Rightarrow> 'a uip \<Rightarrow> 'a uip option" where
  "uip_udp_bind q port s = do {
     guard (q < length (uip_udp_conns s));
     Some (s\<lparr>uip_udp_conns := (uip_udp_conns s)[q := (uip_udp_conns s ! q)\<lparr>u_lport := port\<rparr>]\<rparr>) }"

definition dhcpc_init :: "u8 list \<Rightarrow> int \<Rightarrow> dhcpc_state \<Rightarrow> 'a uip \<Rightarrow> (dhcpc_state \<times> 'a uip) option" where
  "dhcpc_init mac len d s = do {
     let d = d\<lparr>mac_addr := mac, mac_len := len, dphase := STATE_INITIAL\<rparr>;
     (s, c) \<leftarrow> uip_udp_new (Some (uip_ipaddr 255 255 255 255)) (HTONS DHCPC_SERVER_PORT) s;
     s \<leftarrow> (case c of None \<Rightarrow> Some s | Some q \<Rightarrow> uip_udp_bind q (HTONS DHCPC_CLIENT_PORT) s);
     Some (d\<lparr>dconn := c, dhcpt := 0\<rparr>, s) }"

definition dhcpc_request :: "dhcpc_state \<Rightarrow> 'a uip \<Rightarrow> 'a uip" where
  "dhcpc_request d s =
     (if dphase d = STATE_INITIAL then s\<lparr>uip_hostaddr := uip_ipaddr 0 0 0 0\<rparr> else s)"

end
