(* ===== verification/UipDhcpThread.thy ===== *)
theory UipDhcpThread
  imports UipDhcpc UipDns
begin

text \<open>
  The DHCP client at work: the messages it sends, the options it reads, and what its protothread
  does with an answer. Its waits test the event that is being handled, so that a wait that is
  reached in an event with data does not wait: an offer is lost and the client never gets an
  address.
\<close>

subsection \<open>Messages\<close>

definition dhcp_ok :: "dhcpc_state \<Rightarrow> 'a uip \<Rightarrow> bool" where
  "dhcp_ok d s \<longleftrightarrow> 0 \<le> mac_len d \<and> mac_len d \<le> 16 \<and> nat (mac_len d) \<le> length (mac_addr d) \<and>
     length (serverid d) = 4 \<and> length (dipaddr d) = 4 \<and> uip_sappdata s = uip_appdata s \<and> room 256 s"

definition dhcp_bytes :: "dhcpc_state \<Rightarrow> 'a uip \<Rightarrow> u8 list" where
  "dhcp_bytes d s = the (dhcp_hdr d s)"

lemma dhcp_hdr_ok:
  assumes "dhcp_ok d s"
  shows "dhcp_hdr d s = Some (dhcp_bytes d s)" "length (dhcp_bytes d s) = 240" "dhcp_bytes d s ! 0 = DHCP_REQUEST"
proof -
  have "slice 0 (nat (mac_len d)) (mac_addr d) = Some (take (nat (mac_len d)) (mac_addr d))"
    using assms by (simp add: dhcp_ok_def slice_def)
  then obtain ys where ys: "dhcp_hdr d s = Some (DHCP_REQUEST # ys)" "length ys = 239"
    using assms by (simp add: dhcp_hdr_def dhcp_ok_def xid_def le16_def magic_cookie_def nat_le_iff)
  then show "dhcp_hdr d s = Some (dhcp_bytes d s)" "length (dhcp_bytes d s) = 240" "dhcp_bytes d s ! 0 = DHCP_REQUEST"
    by (simp_all add: dhcp_bytes_def)
qed

lemma blit_next:
  assumes "p + length (xs @ ys) \<le> length b" "q = p + length xs"
  shows "blit q ys (patch b p xs) = Some (patch b p (xs @ ys))"
proof -
  have "length (patch b p xs) = length b" using assms by (intro length_patch) simp
  then have "blit q ys (patch b p xs) = Some (patch (patch b p xs) q ys)"
    using assms by (intro blit_patch) simp
  then show ?thesis using patch_patch [of p xs ys b] assms by simp
qed

definition discover_msg :: "dhcpc_state \<Rightarrow> 'a uip \<Rightarrow> u8 list" where
  "discover_msg d s = dhcp_bytes d s @ [53, 1, DHCPDISCOVER] @ [55, 3, 1, 3, 6] @ [255]"

definition request_msg :: "dhcpc_state \<Rightarrow> 'a uip \<Rightarrow> u8 list" where
  "request_msg d s = dhcp_bytes d s @ [53, 1, DHCPREQUEST] @ ([54, 4] @ serverid d) @ ([50, 4] @ dipaddr d) @ [255]"

lemma send_own_packet:
  assumes "uip_sappdata s = uip_appdata s" "0 < n" "n < 65536" "length xs = n"
  shows "uip_send_ptr (Packet (uip_appdata s)) (of_nat n) (s\<lparr>uip_buf := patch (uip_buf s) (uip_appdata s) xs\<rparr>) =
    Some (put_chunk xs s)"
proof -
  have "(of_nat n :: u16) \<noteq> 0" using unat_small [OF assms(3)] assms(2) by (metis less_irrefl unat_0)
  then show ?thesis
    using uip_send_ptr_Packet [of "s\<lparr>uip_buf := patch (uip_buf s) (uip_appdata s) xs\<rparr>" "of_nat n"] assms
    by (simp add: put_chunk_def)
qed

lemma create_msg_ok:
  "dhcp_ok d s \<Longrightarrow> create_msg d s = Some (patch (uip_buf s) (uip_appdata s) (dhcp_bytes d s))"
  using dhcp_hdr_ok [of d s] by (simp add: create_msg_def) (rule blit_patch, simp add: dhcp_ok_def room_def)

lemma send_discover_ok:
  assumes "dhcp_ok d s"
  shows "send_discover d s = Some (put_chunk (discover_msg d s) s)"
proof -
  let ?p = "uip_appdata s" and ?b = "uip_buf s" and ?h = "dhcp_bytes d s"
  have r: "?p + 256 \<le> length ?b" "uip_sappdata s = ?p" using assms by (simp_all add: dhcp_ok_def room_def)
  note l = dhcp_hdr_ok(2) [OF assms]
  have 1: "blit (?p + 240) [53, 1, DHCPDISCOVER] (patch ?b ?p ?h) = Some (patch ?b ?p (?h @ [53, 1, DHCPDISCOVER]))"
    by (rule blit_next) (use r l in simp_all)
  have 2: "blit (?p + 240 + 3) [55, 3, 1, 3, 6] (patch ?b ?p (?h @ [53, 1, DHCPDISCOVER])) =
      Some (patch ?b ?p ((?h @ [53, 1, DHCPDISCOVER]) @ [55, 3, 1, 3, 6]))"
    by (rule blit_next) (use r l in simp_all)
  have 3: "blit (?p + 240 + 3 + 5) [255] (patch ?b ?p ((?h @ [53, 1, DHCPDISCOVER]) @ [55, 3, 1, 3, 6])) =
      Some (patch ?b ?p (((?h @ [53, 1, DHCPDISCOVER]) @ [55, 3, 1, 3, 6]) @ [255]))"
    by (rule blit_next) (use r l in simp_all)
  have m: "((?h @ [53, 1, DHCPDISCOVER]) @ [55, 3, 1, 3, 6]) @ [255] = discover_msg d s" by (simp add: discover_msg_def)
  have n: "?p + 240 + 3 + 5 + 1 - ?p = 249" "length (discover_msg d s) = 249" using l by (simp_all add: discover_msg_def)
  show ?thesis
    unfolding send_discover_def create_msg_ok [OF assms] bind.bind_lunit add_msg_type_def add_req_options_def add_end_def
      1 2 3 prod.case m n(1)
    by (rule send_own_packet) (use r(2) n(2) in simp_all)
qed

lemma send_request_ok:
  assumes "dhcp_ok d s"
  shows "send_request d s = Some (put_chunk (request_msg d s) s)"
proof -
  let ?p = "uip_appdata s" and ?b = "uip_buf s" and ?h = "dhcp_bytes d s"
  have r: "?p + 256 \<le> length ?b" "uip_sappdata s = ?p" "length (serverid d) = 4" "length (dipaddr d) = 4"
    using assms by (simp_all add: dhcp_ok_def room_def)
  note l = dhcp_hdr_ok(2) [OF assms]
  have v: "slice 0 4 (serverid d) = Some (serverid d)" "slice 0 4 (dipaddr d) = Some (dipaddr d)"
    using r by (simp_all add: slice_def)
  let ?h1 = "?h @ [53, 1, DHCPREQUEST]"
  let ?h2 = "?h1 @ [54, 4] @ serverid d"
  let ?h3 = "?h2 @ [50, 4] @ dipaddr d"
  have 1: "blit (?p + 240) [53, 1, DHCPREQUEST] (patch ?b ?p ?h) = Some (patch ?b ?p ?h1)"
    by (rule blit_next) (use r l in simp_all)
  have 2: "blit (?p + 240 + 3) ([54, 4] @ serverid d) (patch ?b ?p ?h1) = Some (patch ?b ?p ?h2)"
    by (rule blit_next) (use r l in simp_all)
  have 3: "blit (?p + 240 + 3 + 6) ([50, 4] @ dipaddr d) (patch ?b ?p ?h2) = Some (patch ?b ?p ?h3)"
    by (rule blit_next) (use r l in simp_all)
  have 4: "blit (?p + 240 + 3 + 6 + 6) [255] (patch ?b ?p ?h3) = Some (patch ?b ?p (?h3 @ [255]))"
    by (rule blit_next) (use r l in simp_all)
  have m: "?h3 @ [255] = request_msg d s" by (simp add: request_msg_def)
  have n: "?p + 240 + 3 + 6 + 6 + 1 - ?p = 256" "length (request_msg d s) = 256" using l r by (simp_all add: request_msg_def)
  show ?thesis
    unfolding send_request_def create_msg_ok [OF assms] bind.bind_lunit add_msg_type_def add_server_id_def
      add_req_ipaddr_def add_end_def v 1 2 3 4 prod.case m n(1)
    by (rule send_own_packet) (use r(2) n(2) in simp_all)
qed

text \<open>A message of the client itself is in the packet buffer: its first byte is that of a request.\<close>

definition own_msg :: "'a uip \<Rightarrow> bool" where
  "own_msg s \<longleftrightarrow> rd8_at (uip_appdata s) s = Some DHCP_REQUEST"

lemma parse_own_msg: "own_msg s \<Longrightarrow> parse_msg d s = Some (0, d)"
  by (simp add: own_msg_def parse_msg_def)

lemma blit_keeps: "blit i xs b = Some b' \<Longrightarrow> length b' = length b \<and> (\<forall>k < i. b' ! k = b ! k)"
  by (auto simp: blit_def nth_append split: if_splits)

lemma create_msg_first:
  assumes "create_msg d s = Some b"
  shows "b ! uip_appdata s = DHCP_REQUEST \<and> uip_appdata s < length b \<and> length b = length (uip_buf s)"
proof -
  obtain h where h: "dhcp_hdr d s = Some h" "blit (uip_appdata s) h (uip_buf s) = Some b"
    using assms unfolding create_msg_def by (elim bind_SomeE)
  then obtain ys where "h = DHCP_REQUEST # ys"
    unfolding dhcp_hdr_def by (elim bind_SomeE) (auto simp: xid_def)
  then show ?thesis using h(2) by (auto simp: blit_def nth_append split: if_splits)
qed

lemma send_own_first:
  assumes "uip_send_ptr (Packet (uip_appdata s)) n (s\<lparr>uip_buf := b\<rparr>) = Some s'" "uip_sappdata s = uip_appdata s"
    and "b ! uip_appdata s = DHCP_REQUEST" "uip_appdata s < length b"
  shows "own_msg s' \<and> uip_flags s' = uip_flags s \<and> uip_appdata s' = uip_appdata s \<and> uip_sappdata s' = uip_sappdata s"
  using assms uip_send_ptr_Packet [of "s\<lparr>uip_buf := b\<rparr>" n]
  by (auto simp: own_msg_def rd8_at_def rd8_def split: if_splits)

lemma send_discover_own:
  assumes "send_discover d s = Some s'" "uip_sappdata s = uip_appdata s"
  shows "own_msg s' \<and> uip_flags s' = uip_flags s \<and> uip_appdata s' = uip_appdata s \<and> uip_sappdata s' = uip_sappdata s"
proof -
  obtain b b1 b2 b3 n where b: "create_msg d s = Some b" "blit (uip_appdata s + 240) [53, 1, DHCPDISCOVER] b = Some b1"
    "blit (uip_appdata s + 240 + 3) [55, 3, 1, 3, 6] b1 = Some b2" "blit (uip_appdata s + 240 + 3 + 5) [255] b2 = Some b3"
    and u: "uip_send_ptr (Packet (uip_appdata s)) n (s\<lparr>uip_buf := b3\<rparr>) = Some s'"
    using assms(1) unfolding send_discover_def add_msg_type_def add_req_options_def add_end_def
    by (auto elim!: bind_SomeE)
  note k = blit_keeps [OF b(2)] blit_keeps [OF b(3)] blit_keeps [OF b(4)] create_msg_first [OF b(1)]
  show ?thesis by (rule send_own_first [OF u assms(2)]) (use k in simp_all)
qed

lemma send_request_own:
  assumes "send_request d s = Some s'" "uip_sappdata s = uip_appdata s"
  shows "own_msg s' \<and> uip_flags s' = uip_flags s \<and> uip_appdata s' = uip_appdata s \<and> uip_sappdata s' = uip_sappdata s"
proof -
  obtain b b1 b2 b3 b4 xs ys n where b: "create_msg d s = Some b" "blit (uip_appdata s + 240) [53, 1, DHCPREQUEST] b = Some b1"
    "blit (uip_appdata s + 240 + 3) xs b1 = Some b2" "blit (uip_appdata s + 240 + 3 + 6) ys b2 = Some b3"
    "blit (uip_appdata s + 240 + 3 + 6 + 6) [255] b3 = Some b4"
    and u: "uip_send_ptr (Packet (uip_appdata s)) n (s\<lparr>uip_buf := b4\<rparr>) = Some s'"
    using assms(1) unfolding send_request_def add_msg_type_def add_server_id_def add_req_ipaddr_def add_end_def
    by (auto elim!: bind_SomeE)
  note k = blit_keeps [OF b(2)] blit_keeps [OF b(3)] blit_keeps [OF b(4)] blit_keeps [OF b(5)] create_msg_first [OF b(1)]
  show ?thesis by (rule send_own_first [OF u assms(2)]) (use k in simp_all)
qed

text \<open>Reading a message changes only the configuration.\<close>

definition same_thread :: "dhcpc_state \<Rightarrow> dhcpc_state \<Rightarrow> bool" where
  "same_thread d d' \<longleftrightarrow> dhcpt d' = dhcpt d \<and> dphase d' = dphase d \<and> dticks d' = dticks d \<and> dtimer d' = dtimer d \<and>
     mac_addr d' = mac_addr d \<and> mac_len d' = mac_len d \<and> (length (serverid d) = 4 \<longrightarrow> length (serverid d') = 4) \<and>
     (length (dipaddr d) = 4 \<longrightarrow> length (dipaddr d') = 4)"

lemma read_option_thread: "read_option p c ty d b = Some (ty', d') \<Longrightarrow> same_thread d d'"
  by (auto simp: read_option_def same_thread_def slice_length elim!: bind_SomeE split: if_splits)

lemma same_thread_trans: "same_thread d d' \<Longrightarrow> same_thread d' d'' \<Longrightarrow> same_thread d d''"
  by (simp add: same_thread_def)

lemma parse_options_thread: "parse_options_from p stop ty d b = Some (ty', d') \<Longrightarrow> same_thread d d'"
proof (induction "stop - p" arbitrary: p ty d rule: less_induct)
  case less
  have IH: "parse_options_from (Suc (Suc (p + n))) stop ty1 d1 b = Some (ty', d') \<Longrightarrow> p < stop \<Longrightarrow> same_thread d1 d'" for n ty1 d1
    by (rule less.hyps) auto
  show ?case
    using less.prems by (subst (asm) parse_options_from.simps)
      (auto elim!: bind_SomeE split: if_splits dest!: IH read_option_thread intro: same_thread_trans simp: same_thread_def [of d' d'])
qed

lemma parse_msg_thread: "parse_msg d s = Some (t, d') \<Longrightarrow> same_thread d d'"
  unfolding parse_msg_def parse_options_def
  by (auto elim!: bind_SomeE split: if_splits dest!: parse_options_thread simp: same_thread_def slice_length)

lemma got_msg_thread: "got_msg ty d s = Some (b, d') \<Longrightarrow> same_thread d d' \<and> (b \<longrightarrow> uip_newdata s)"
  by (auto simp: got_msg_def same_thread_def elim!: bind_SomeE split: if_splits dest: parse_msg_thread [unfolded same_thread_def])

lemma got_own_msg: "own_msg s \<Longrightarrow> ty \<noteq> 0 \<Longrightarrow> got_msg ty d s = Some (False, d)"
  by (simp add: got_msg_def parse_own_msg)

subsection \<open>The thread\<close>

text \<open>The stack at a wait of an event with data that the thread has overwritten by its own message.\<close>

definition answered :: "'a uip \<Rightarrow> bool" where
  "answered s \<longleftrightarrow> uip_newdata s \<and> own_msg s \<and> uip_sappdata s = uip_appdata s"

lemma start_request_answered:
  assumes "start_request now d s = Some (d', s')" "uip_newdata s" "uip_sappdata s = uip_appdata s"
  shows "answered s' \<and> dphase d' = dphase d \<and> dticks d' = dticks d \<and> dhcpt d' = 276"
  using assms send_request_own [of d s]
  by (auto simp: start_request_def answered_def uip_newdata_def elim!: bind_SomeE)

lemma start_discover_event:
  assumes "start_discover now d s = Some (d', s')" "uip_sappdata s = uip_appdata s"
  shows "own_msg s' \<and> uip_flags s' = uip_flags s \<and> uip_sappdata s' = uip_appdata s' \<and>
    dphase d' = dphase d \<and> dticks d' = dticks d \<and> dhcpt d' = 259"
  using assms send_discover_own [of d s] by (auto simp: start_discover_def elim!: bind_SomeE)

lemma add_second:
  assumes "uint (t :: u16) \<le> 10000"
  shows "uint (t + 1000) = uint t + 1000"
  using assms by (simp add: uint_word_ariths mod_less)

text \<open>Waiting for the acknowledgement in the event of the offer ends with a restart, and the user's
  callback plays no part.\<close>

lemma request_loop_restarts:
  assumes "answered s" "dphase d = STATE_OFFER_RECEIVED"
  shows "\<exists>res. (\<forall>cb. request_loop cb now d s = res) \<and>
    (\<forall>r d' s'. res = Some (r, d', s') \<longrightarrow> r = PT_WAITING \<and> dhcpt d' = 0 \<and> dphase d' = STATE_OFFER_RECEIVED)"
  using assms
proof (induction "nat (11000 - uint (dticks d))" arbitrary: d s rule: less_induct)
  case less
  have g: "got_msg DHCPACK d s = Some (False, d)" by (rule got_own_msg) (use less.prems(1) in \<open>simp_all add: answered_def\<close>)
  have n: "uip_newdata s" "uip_sappdata s = uip_appdata s" using less.prems(1) by (simp_all add: answered_def)
  show ?case
  proof (cases "uint (dticks d) \<le> 10000")
    case False
    then have "request_loop cb now d s = Some (PT_WAITING, d\<lparr>dhcpt := 0\<rparr>, s)" for cb
      by (subst request_loop.simps) (simp add: request_round_def g n)
    then show ?thesis using less.prems(2) by auto
  next
    case True
    let ?d = "d\<lparr>dticks := dticks d + 1000\<rparr>"
    have r: "request_round cb now d s = map_option Inr (start_request now ?d s)" for cb :: "dhcpc_state \<Rightarrow> 'a uip \<Rightarrow> 'a uip option"
      using True less.prems(2) by (simp add: request_round_def g n)
    show ?thesis
    proof (cases "start_request now ?d s")
      case None
      then have "request_loop cb now d s = None" for cb by (subst request_loop.simps) (simp add: r)
      then show ?thesis by auto
    next
      case (Some q)
      obtain d1 s1 where q: "q = (d1, s1)" by (cases q)
      have a: "answered s1" "dphase d1 = STATE_OFFER_RECEIVED" "dticks d1 = dticks d + 1000"
        using start_request_answered [of now ?d s d1 s1] Some q n less.prems(2) by auto
      have "request_loop cb now d s = request_loop cb now d1 s1" for cb
        by (subst request_loop.simps) (simp add: r Some q)
      moreover have "nat (11000 - uint (dticks d1)) < nat (11000 - uint (dticks d))"
        using add_second [OF True] True a(3) by simp
      ultimately show ?thesis using less.hyps [of d1 s1] a(1,2) by simp
    qed
  qed
qed

text \<open>The states in which the thread rests.\<close>

definition resting :: "dhcpc_state \<Rightarrow> bool" where
  "resting d \<longleftrightarrow> dphase d \<noteq> STATE_CONFIG_RECEIVED \<and> (dhcpt d = 0 \<or> dhcpt d = 259 \<and> dphase d = STATE_SENDING)"

lemma discover_round_rests:
  assumes "discover_round cb now d s = Some x" "uip_sappdata s = uip_appdata s" "dhcpt d = 259" "dphase d = STATE_SENDING"
  shows "(\<forall>cb'. discover_round cb' now d s = Some x) \<and>
    (case x of Inl (r, d', s') \<Rightarrow> resting d'
     | Inr (d', s') \<Rightarrow> uip_sappdata s' = uip_appdata s' \<and> dhcpt d' = 259 \<and> dphase d' = STATE_SENDING)"
proof (cases "uip_newdata s \<or> timer_expired now (dtimer d)")
  case False
  then show ?thesis using assms by (auto simp: discover_round_def resting_def)
next
  case True
  then obtain b d1 where g: "got_msg DHCPOFFER d s = Some (b, d1)"
    using assms(1) by (auto simp: discover_round_def elim!: bind_SomeE)
  have t: "dhcpt d1 = 259" "dphase d1 = STATE_SENDING" "b \<longrightarrow> uip_newdata s"
    using got_msg_thread [OF g] assms(3,4) by (simp_all add: same_thread_def)
  show ?thesis
  proof (cases b)
    case False
    let ?d = "if uint (dticks d1) < 60000 then d1\<lparr>dticks := dticks d1 * 2\<rparr> else d1"
    have p: "dphase ?d = STATE_SENDING" using t(2) by simp
    have r: "discover_round cb' now d s = map_option Inr (start_discover now ?d s)" for cb' :: "dhcpc_state \<Rightarrow> 'a uip \<Rightarrow> 'a uip option"
      using True False g p by (simp add: discover_round_def Let_def)
    obtain d2 s2 where q: "start_discover now ?d s = Some (d2, s2)" "x = Inr (d2, s2)"
      using assms(1) unfolding r by auto
    show ?thesis using r q start_discover_event [OF q(1) assms(2)] p by simp
  next
    case b: True
    let ?d = "d1\<lparr>dphase := STATE_OFFER_RECEIVED, dticks := 1000\<rparr>"
    have r: "discover_round cb' now d s = map_option Inl (do { (d, s) \<leftarrow> start_request now ?d s; request_loop cb' now d s })"
      for cb' :: "dhcpc_state \<Rightarrow> 'a uip \<Rightarrow> 'a uip option"
      using True b g by (simp add: discover_round_def request_phase_def)
    obtain d2 s2 where q: "start_request now ?d s = Some (d2, s2)"
      using assms(1) unfolding r by (auto elim!: bind_SomeE)
    have a: "answered s2" "dphase d2 = STATE_OFFER_RECEIVED"
      using start_request_answered [OF q] t(3) b assms(2) by simp_all
    obtain res where res: "\<forall>cb'. request_loop cb' now d2 s2 = res"
      "\<forall>r d' s'. res = Some (r, d', s') \<longrightarrow> r = PT_WAITING \<and> dhcpt d' = 0 \<and> dphase d' = STATE_OFFER_RECEIVED"
      using request_loop_restarts [OF a] by blast
    have r': "discover_round cb' now d s = map_option Inl res" for cb' :: "dhcpc_state \<Rightarrow> 'a uip \<Rightarrow> 'a uip option"
      using res(1) by (simp add: r q)
    show ?thesis using assms(1) res(2) unfolding r' by (auto simp: resting_def)
  qed
qed

lemma discover_loop_rests:
  assumes "discover_loop cb now d s = Some y" "uip_sappdata s = uip_appdata s" "dhcpt d = 259" "dphase d = STATE_SENDING"
  shows "(\<forall>cb'. discover_loop cb' now d s = Some y) \<and> resting (fst (snd y))"
proof -
  have "uip_sappdata s = uip_appdata s \<longrightarrow> dhcpt d = 259 \<longrightarrow> dphase d = STATE_SENDING \<longrightarrow>
      (\<forall>cb'. discover_loop cb' now d s = Some y) \<and> resting (fst (snd y))"
  proof (rule discover_loop.raw_induct [where P = "\<lambda>cb now d s y. uip_sappdata s = uip_appdata s \<longrightarrow> dhcpt d = 259 \<longrightarrow>
      dphase d = STATE_SENDING \<longrightarrow> (\<forall>cb'. discover_loop cb' now d s = Some y) \<and> resting (fst (snd y))", OF _ assms(1)], intro impI, goal_cases)
    case (1 f cb now d s y)
    obtain x where x: "discover_round cb now d s = Some x"
      "(case x of Inl z \<Rightarrow> Some z | Inr (d, s) \<Rightarrow> f cb now d s) = Some y" using 1(2) by (elim bind_SomeE)
    note r = discover_round_rests [OF x(1) 1(3-5)]
    show ?case
    proof (cases x)
      case (Inl z)
      then have "z = y" using x(2) by simp
      moreover have "discover_loop cb' now d s = Some z" for cb'
        using r Inl by (subst discover_loop.simps) simp
      ultimately show ?thesis using r Inl by (auto split: prod.splits)
    next
      case (Inr q)
      obtain d' s' where q: "q = (d', s')" by (cases q)
      have "f cb now d' s' = Some y" using x(2) Inr q by simp
      moreover have "uip_sappdata s' = uip_appdata s'" "dhcpt d' = 259" "dphase d' = STATE_SENDING" using r Inr q by simp_all
      ultimately have "(\<forall>cb'. discover_loop cb' now d' s' = Some y) \<and> resting (fst (snd y))" using 1(1) by blast
      moreover have "discover_loop cb' now d s = discover_loop cb' now d' s'" for cb'
        using r Inr q by (subst discover_loop.simps) simp
      ultimately show ?thesis by simp
    qed
  qed
  then show ?thesis using assms(2-4) by blast
qed

lemma handle_dhcp_rests:
  assumes "handle_dhcp cb now d s = Some (r, d', s')" "uip_sappdata s = uip_appdata s" "resting d"
  shows "(\<forall>cb'. handle_dhcp cb' now d s = Some (r, d', s')) \<and> resting d'"
proof (cases "dhcpt d = 0")
  case True
  let ?d = "d\<lparr>dphase := STATE_SENDING, dticks := 1000\<rparr>"
  have h: "handle_dhcp cb' now d s = do { (d, s) \<leftarrow> start_discover now ?d s; discover_loop cb' now d s }" for cb'
    using True by (simp add: handle_dhcp_def)
  obtain d1 s1 where q: "start_discover now ?d s = Some (d1, s1)" "discover_loop cb now d1 s1 = Some (r, d', s')"
    using assms(1) unfolding h by (auto elim!: bind_SomeE)
  show ?thesis
    using discover_loop_rests [OF q(2)] start_discover_event [OF q(1) assms(2)] by (simp add: h q(1))
next
  case False
  then have d: "dhcpt d = 259" "dphase d = STATE_SENDING" using assms(3) by (auto simp: resting_def)
  then have h: "handle_dhcp cb' now d s = discover_loop cb' now d s" for cb' by (simp add: handle_dhcp_def)
  show ?thesis using discover_loop_rests [OF assms(1) [unfolded h] assms(2) d] by (simp add: h)
qed

text \<open>Events after one another, with the time and the stack of each.\<close>

fun dhcp_run :: "(dhcpc_state \<Rightarrow> 'a uip \<Rightarrow> 'a uip option) \<Rightarrow> dhcpc_state \<Rightarrow> (32 word \<times> 'a uip) list \<Rightarrow> dhcpc_state option" where
  "dhcp_run cb d [] = Some d"
| "dhcp_run cb d ((now, s) # es) = do {
     (d, s) \<leftarrow> dhcpc_appcall cb now d s;
     dhcp_run cb d es }"

text \<open>C29: The client is never configured. Whatever events the client gets after its start, whether
  they bring offers, acknowledgements or nothing, as long as it returns from them at all it rests
  only at the start of the thread or at the wait for an offer, its state is never that of a
  received configuration, and the user's callback is never called: with another callback it does the same.\<close>

theorem dhcpc_never_configures:
  assumes "dhcpt d = 0" "dphase d = STATE_INITIAL" "\<forall>(now, s) \<in> set es. uip_sappdata s = uip_appdata s"
  shows "dhcp_run dhcpc_configured d es = dhcp_run other d es \<and>
    (\<forall>d'. dhcp_run dhcpc_configured d es = Some d' \<longrightarrow> dhcpt d' \<in> {0, 259} \<and> dphase d' \<noteq> STATE_CONFIG_RECEIVED)"
proof -
  have "resting d" using assms(1,2) by (simp add: resting_def)
  then have "dhcp_run dhcpc_configured d es = dhcp_run other d es \<and>
      (\<forall>d'. dhcp_run dhcpc_configured d es = Some d' \<longrightarrow> resting d')"
    using assms(3)
  proof (induction es arbitrary: d)
    case (Cons e es)
    obtain now s where e: "e = (now, s)" by (cases e)
    have s: "uip_sappdata s = uip_appdata s" using Cons.prems(2) e by simp
    show ?case
    proof (cases "handle_dhcp dhcpc_configured now d s")
      case None
      then have "handle_dhcp other now d s = None"
        using handle_dhcp_rests [OF _ s Cons.prems(1), of other now] by (cases "handle_dhcp other now d s") auto
      then show ?thesis using None e by (simp add: dhcpc_appcall_def)
    next
      case (Some q)
      obtain r d1 s1 where q: "q = (r, d1, s1)" by (cases q)
      note h = handle_dhcp_rests [OF Some [unfolded q] s Cons.prems(1)]
      have "dhcpc_appcall cb now d s = Some (d1, s1)" for cb using h by (simp add: dhcpc_appcall_def)
      then show ?thesis using Cons.IH [of d1] h Cons.prems(2) e by simp
    qed
  qed simp
  then show ?thesis by (auto simp: resting_def)
qed

subsection \<open>Answers that are no offer\<close>

text \<open>The first \<open>n\<close> rounds of the loop, all of which end at its wait again.\<close>

fun discover_rounds :: "(dhcpc_state \<Rightarrow> 'a uip \<Rightarrow> 'a uip option) \<Rightarrow> 32 word \<Rightarrow> nat \<Rightarrow> dhcpc_state \<Rightarrow> 'a uip \<Rightarrow>
    (dhcpc_state \<times> 'a uip) option" where
  "discover_rounds cb now 0 d s = Some (d, s)"
| "discover_rounds cb now (Suc n) d s = do {
     r \<leftarrow> discover_round cb now d s;
     case r of Inl x \<Rightarrow> None | Inr (d, s) \<Rightarrow> discover_rounds cb now n d s }"

definition spinning :: "dhcpc_state \<Rightarrow> 'a uip \<Rightarrow> bool" where
  "spinning d s \<longleftrightarrow> dhcp_ok d s \<and> answered s \<and> dphase d = STATE_SENDING"

lemma dhcp_ok_chunk:
  assumes "dhcp_ok d s" "length bs \<le> 256"
  shows "dhcp_ok d (put_chunk bs s)"
  using assms by (auto simp: dhcp_ok_def room_def put_chunk_def length_patch)

lemma start_discover_spins:
  assumes "dhcp_ok d s" "uip_newdata s" "dphase d = STATE_SENDING"
  shows "\<exists>d' s'. start_discover now d s = Some (d', s') \<and> spinning d' s'"
proof -
  let ?d = "d\<lparr>dtimer := timer_set now (ucast (dticks d)), dhcpt := 259\<rparr>" and ?s = "put_chunk (discover_msg d s) s"
  have e: "start_discover now d s = Some (?d, ?s)" by (simp add: start_discover_def send_discover_ok [OF assms(1)])
  have "uip_sappdata s = uip_appdata s" using assms(1) by (simp add: dhcp_ok_def)
  from start_discover_event [OF e this] have a: "answered ?s"
    using assms(2) by (simp add: answered_def)
  have "length (discover_msg d s) \<le> 256" using dhcp_hdr_ok(2) [OF assms(1)] by (simp add: discover_msg_def)
  from dhcp_ok_chunk [OF assms(1) this] have "dhcp_ok ?d ?s" by (simp add: dhcp_ok_def)
  then show ?thesis using e a assms(3) by (auto simp: spinning_def)
qed

lemma discover_round_spins:
  assumes "dhcp_ok d s" "uip_newdata s" "dphase d = STATE_SENDING" "parse_msg d s = Some (t, d1)" "t \<noteq> DHCPOFFER"
  shows "\<exists>d' s'. discover_round cb now d s = Some (Inr (d', s')) \<and> spinning d' s'"
proof -
  let ?d = "if uint (dticks d1) < 60000 then d1\<lparr>dticks := dticks d1 * 2\<rparr> else d1"
  have t: "same_thread d d1" by (rule parse_msg_thread [OF assms(4)])
  have "dhcp_ok ?d s" "dphase ?d = STATE_SENDING" using t assms(1,3) by (auto simp: same_thread_def dhcp_ok_def)
  moreover from this have "discover_round cb now d s = map_option Inr (start_discover now ?d s)"
    using assms(2,4,5) by (simp add: discover_round_def got_msg_def Let_def)
  ultimately show ?thesis using start_discover_spins [of ?d s now] assms(2) by auto
qed

lemma spinning_round: "spinning d s \<Longrightarrow> \<exists>d' s'. discover_round cb now d s = Some (Inr (d', s')) \<and> spinning d' s'"
  by (rule discover_round_spins [where t = 0 and ?d1.0 = d]) (auto simp: spinning_def answered_def parse_own_msg)

lemma spinning_rounds: "spinning d s \<Longrightarrow> discover_rounds cb now n d s \<noteq> None"
proof (induction n arbitrary: d s)
  case (Suc n)
  then show ?case using spinning_round [OF Suc.prems, of cb now] by auto
qed simp

lemma spinning_loop: "spinning d s \<Longrightarrow> discover_loop cb now d s = None"
proof (rule ccontr)
  assume sp: "spinning d s" and "discover_loop cb now d s \<noteq> None"
  then obtain y where y: "discover_loop cb now d s = Some y" by auto
  have "\<not> spinning d s"
  proof (rule discover_loop.raw_induct [where P = "\<lambda>cb now d s y. \<not> spinning d s", OF _ y], goal_cases)
    case (1 f cb now d s y)
    show ?case
    proof
      assume "spinning d s"
      then obtain d' s' where "discover_round cb now d s = Some (Inr (d', s'))" "spinning d' s'"
        using spinning_round by blast
      then show False using 1 by auto
    qed
  qed
  then show False using sp by simp
qed

text \<open>An answer hangs the client. In an event with data in which the thread is at its start, as it
  is after every offer, or waits for an offer and the data are none, the thread never returns: however
  many rounds of its loop are made, each one sends a message and reaches the wait again in
  the same event, and the call has no result.\<close>

theorem dhcpc_reply_hangs:
  assumes "dhcp_ok d s" "uip_newdata s"
    and "dhcpt d = 0 \<or> dhcpt d = 259 \<and> dphase d = STATE_SENDING \<and> parse_msg d s = Some (t, d1) \<and> t \<noteq> DHCPOFFER"
  shows "handle_dhcp dhcpc_configured now d s = None \<and>
    (\<exists>d2 s2. (if dhcpt d = 0 then start_discover now (d\<lparr>dphase := STATE_SENDING, dticks := 1000\<rparr>) s = Some (d2, s2)
       else (d2, s2) = (d, s)) \<and> (\<forall>n. discover_rounds dhcpc_configured now n d2 s2 \<noteq> None))"
proof (cases "dhcpt d = 0")
  case True
  let ?d = "d\<lparr>dphase := STATE_SENDING, dticks := 1000\<rparr>"
  have "dhcp_ok ?d s" using assms(1) by (simp add: dhcp_ok_def)
  then obtain d2 s2 where d2: "start_discover now ?d s = Some (d2, s2)" "spinning d2 s2"
    using start_discover_spins [of ?d s now] assms(2) by auto
  then have "handle_dhcp dhcpc_configured now d s = None"
    using True spinning_loop [OF d2(2)] by (simp add: handle_dhcp_def)
  then show ?thesis using True d2(1) spinning_rounds [OF d2(2)] by auto
next
  case False
  then have d: "dhcpt d = 259" "dphase d = STATE_SENDING" "parse_msg d s = Some (t, d1)" "t \<noteq> DHCPOFFER" using assms(3) by auto
  obtain d2 s2 where r: "discover_round dhcpc_configured now d s = Some (Inr (d2, s2))" "spinning d2 s2"
    using discover_round_spins [OF assms(1,2) d(2-4)] by blast
  have "discover_loop dhcpc_configured now d s = None"
    using spinning_loop [OF r(2)] r(1) by (subst discover_loop.simps) simp
  then have "handle_dhcp dhcpc_configured now d s = None" using d(1) by (simp add: handle_dhcp_def)
  moreover have "discover_rounds dhcpc_configured now n d s \<noteq> None" for n
    using r(1) spinning_rounds [OF r(2)] by (cases n) simp_all
  ultimately show ?thesis using False by simp
qed

subsection \<open>Timer events\<close>

lemma timer_not_expired: "0 < t \<Longrightarrow> \<not> timer_expired now (timer_set now (ucast (t :: u16)))"
proof -
  assume "0 < t"
  then have "0 < uint t" by (simp add: word_less_def)
  moreover have "sint (ucast t :: 32 word) = uint t"
  proof -
    have "uint t < 65536" by (rule order_less_le_trans [OF uint_lt2p]) simp
    then show ?thesis
      using order_trans [OF _ uint_ge_0 [of t], of "- 2147483648"]
      by (simp add: sint_uint uint_up_ucast is_up) (rule signed_take_bit_int_eq_self, simp_all)
  qed
  ultimately show ?thesis by (simp add: timer_expired_def timer_set_def)
qed

lemma discover_waits:
  assumes "dhcp_ok d s" "\<not> uip_newdata s" "0 < dticks d"
  shows "do { (d, s) \<leftarrow> start_discover now d s; discover_loop cb now d s } =
    Some (PT_WAITING, d\<lparr>dtimer := timer_set now (ucast (dticks d)), dhcpt := 259\<rparr>, put_chunk (discover_msg d s) s)"
  using assms timer_not_expired [OF assms(3), of now]
  by (subst discover_loop.simps) (simp add: start_discover_def send_discover_ok discover_round_def)

text \<open>C32: Without answers the client asks again and again. In the first event it sends a
  well-formed request for an offer; in a later one it sends it again when the time since
  the last has run out, and nothing otherwise. The time is 1, 2, 4, 8, 16, 32 and then always 64 seconds.\<close>

theorem dhcpc_discovers:
  assumes "dhcp_ok d s" "\<not> uip_newdata s"
    and "dhcpt d = 0 \<or> dhcpt d = 259 \<and> dphase d = STATE_SENDING \<and> dticks d = 1000 * 2 ^ k \<and> k \<le> 6"
  shows "handle_dhcp dhcpc_configured now d s =
    (if dhcpt d = 0 \<or> timer_expired now (dtimer d)
     then (let t = (if dhcpt d = 0 then 1000 else 1000 * 2 ^ min (k + 1) 6) in
       Some (PT_WAITING, d\<lparr>dphase := STATE_SENDING, dticks := t, dtimer := timer_set now (ucast t), dhcpt := 259\<rparr>,
         put_chunk (discover_msg d s) s))
     else Some (PT_WAITING, d, s))"
proof (cases "dhcpt d = 0")
  case True
  let ?d = "d\<lparr>dphase := STATE_SENDING, dticks := 1000\<rparr>"
  have o: "dhcp_ok ?d s" "discover_msg ?d s = discover_msg d s"
    using assms(1) by (simp_all add: dhcp_ok_def discover_msg_def dhcp_bytes_def dhcp_hdr_def)
  show ?thesis
    using discover_waits [OF o(1) assms(2), of now dhcpc_configured] True o(2) by (simp add: handle_dhcp_def)
next
  case False
  then have d: "dhcpt d = 259" "dphase d = STATE_SENDING" "dticks d = 1000 * 2 ^ k" "k \<le> 6" using assms(3) by auto
  show ?thesis
  proof (cases "timer_expired now (dtimer d)")
    case False
    then show ?thesis using d assms(2)
      by (simp add: handle_dhcp_def) (subst discover_loop.simps, simp add: discover_round_def)
  next
    case True
    define t where "t = (1000 * 2 ^ min (k + 1) 6 :: u16)"
    let ?d = "d\<lparr>dticks := t\<rparr>"
    have "k \<in> {0, 1, 2, 3, 4, 5, 6}" using d(4) by auto
    then have t: "(if uint (dticks d) < 60000 then d\<lparr>dticks := dticks d * 2\<rparr> else d) = ?d" "0 < t"
      using d(3) by (auto simp: t_def)
    have o: "dhcp_ok ?d s" "discover_msg ?d s = discover_msg d s"
      using assms(1) by (simp_all add: dhcp_ok_def discover_msg_def dhcp_bytes_def dhcp_hdr_def)
    have r: "discover_round dhcpc_configured now d s = map_option Inr (start_discover now ?d s)"
      using True assms(2) d(2) t(1) by (simp add: discover_round_def got_msg_def Let_def)
    have "discover_loop dhcpc_configured now d s = do { (d, s) \<leftarrow> start_discover now ?d s; discover_loop dhcpc_configured now d s }"
      by (subst discover_loop.simps) (simp add: r, cases "start_discover now ?d s", auto)
    also have "\<dots> = Some (PT_WAITING, ?d\<lparr>dtimer := timer_set now (ucast t), dhcpt := 259\<rparr>, put_chunk (discover_msg d s) s)"
      using discover_waits [OF o(1) assms(2), of now dhcpc_configured] t(2) o(2) by simp
    finally have "handle_dhcp dhcpc_configured now d s = Some (PT_WAITING, ?d\<lparr>dtimer := timer_set now (ucast t), dhcpt := 259\<rparr>,
        put_chunk (discover_msg d s) s)" using d(1) by (simp add: handle_dhcp_def)
    moreover have "?d\<lparr>dtimer := timer_set now (ucast t), dhcpt := 259\<rparr> =
        d\<lparr>dphase := STATE_SENDING, dticks := t, dtimer := timer_set now (ucast t), dhcpt := 259\<rparr>"
      by (cases d) (use d(2) in simp)
    ultimately show ?thesis using True d(1) unfolding t_def Let_def by simp
  qed
qed

subsection \<open>Reading a message\<close>

definition enc_option :: "u8 \<times> u8 list \<Rightarrow> u8 list" where
  "enc_option o' = [fst o', of_nat (length (snd o'))] @ snd o'"

definition option_ok :: "u8 \<times> u8 list \<Rightarrow> bool" where
  "option_ok o' \<longleftrightarrow> fst o' \<noteq> DHCP_OPTION_END \<and> length (snd o') < 256 \<and>
     (fst o' \<in> {DHCP_OPTION_SUBNET_MASK, DHCP_OPTION_ROUTER, DHCP_OPTION_DNS_SERVER, DHCP_OPTION_SERVER_ID,
        DHCP_OPTION_LEASE_TIME} \<longrightarrow> 4 \<le> length (snd o')) \<and> (fst o' = DHCP_OPTION_MSG_TYPE \<longrightarrow> snd o' \<noteq> [])"

text \<open>What an option means to the client: the message's type and the configuration.\<close>

definition apply_option :: "u8 \<times> u8 list \<Rightarrow> u8 \<times> dhcpc_state \<Rightarrow> u8 \<times> dhcpc_state" where
  "apply_option o' r = (case (o', r) of ((c, v), (ty, d)) \<Rightarrow>
     if c = DHCP_OPTION_SUBNET_MASK then (ty, d\<lparr>dnetmask := take 4 v\<rparr>)
     else if c = DHCP_OPTION_ROUTER then (ty, d\<lparr>default_router := take 4 v\<rparr>)
     else if c = DHCP_OPTION_DNS_SERVER then (ty, d\<lparr>dnsaddr := take 4 v\<rparr>)
     else if c = DHCP_OPTION_MSG_TYPE then (hd v, d)
     else if c = DHCP_OPTION_SERVER_ID then (ty, d\<lparr>serverid := take 4 v\<rparr>)
     else if c = DHCP_OPTION_LEASE_TIME then (ty, d\<lparr>lease_time := take 4 v\<rparr>)
     else (ty, d))"

lemma parse_options_spec:
  assumes "\<forall>o' \<in> set os. option_ok o'" "b = pre @ concat (map enc_option os) @ DHCP_OPTION_END # post"
    and "length pre + length (concat (map enc_option os)) < stop"
  shows "parse_options_from (length pre) stop ty d b = Some (fold apply_option os (ty, d))"
  using assms
proof (induction os arbitrary: pre ty d)
  case Nil
  then show ?case by (subst parse_options_from.simps) simp
next
  case (Cons q os)
  obtain c v where q: "q = (c, v)" by (cases q)
  have ok: "option_ok (c, v)" using Cons.prems(1) q by simp
  obtain ty' d' where a: "apply_option (c, v) (ty, d) = (ty', d')" by (cases "apply_option (c, v) (ty, d)")
  let ?post = "concat (map enc_option os) @ DHCP_OPTION_END # post" and ?pre = "pre @ enc_option (c, v)"
  have b: "b = pre @ c # of_nat (length v) # v @ ?post" using Cons.prems(2) q by (simp add: enc_option_def [of "(c, v)"])
  have n: "unat (of_nat (length v) :: u8) = length v" using ok
    by (simp add: option_ok_def unsigned_of_nat take_bit_nat_eq_self)
  have r: "b ! length pre = c" "b ! (length pre + 1) = of_nat (length v)" "length pre + 1 < length b" "length pre < stop"
    using b Cons.prems(3) q by (simp_all add: nth_append enc_option_def)
  have s4: "4 \<le> length v \<Longrightarrow> slice (length pre + 2) 4 b = Some (take 4 v)" unfolding b by (simp add: slice_def)
  have t: "v \<noteq> [] \<Longrightarrow> length pre + 2 < length b \<and> b ! (length pre + 2) = hd v" unfolding b by (cases v) (simp_all add: nth_append)
  have "parse_options_from (length ?pre) stop ty' d' b = Some (fold apply_option os (ty', d'))"
    by (rule Cons.IH) (use Cons.prems q in auto)
  moreover have "length ?pre = length pre + length v + 2" by (simp add: enc_option_def)
  moreover have "parse_options_from (length pre) stop ty d b = parse_options_from (length pre + length v + 2) stop ty' d' b"
  proof -
    have e: "read_option (length pre) c ty d b = Some (ty', d')"
    proof (cases "c = DHCP_OPTION_MSG_TYPE")
      case True
      with ok t have "length pre + 2 < length b" "b ! (length pre + 2) = hd v" by (simp_all add: option_ok_def)
      with a True show ?thesis by (simp add: read_option_def apply_option_def)
    next
      case False
      then show ?thesis using ok s4 a by (auto simp: read_option_def apply_option_def option_ok_def split: if_splits)
    qed
    have "c \<noteq> DHCP_OPTION_END" using ok by (simp add: option_ok_def)
    moreover have "length pre < length b" "b ! Suc (length pre) = of_nat (length v)" "Suc (length pre) < length b"
      using r by simp_all
    ultimately show ?thesis by (subst parse_options_from.simps) (simp add: r(1,4) n e)
  qed
  ultimately show ?case using a q by simp
qed

lemma slice_within: "b = xs @ ys @ zs \<Longrightarrow> p = length xs \<Longrightarrow> n = length ys \<Longrightarrow> slice p n b = Some ys"
  by (simp add: slice_def)

text \<open>C30: Messages are read as they are written. A reply to the client with any sequence of well-formed
  options in front of the end mark gives the type of its last type option, the offered address and,
  for every option the client knows, the value of its last occurrence.\<close>

theorem dhcp_parses_message:
  assumes "uip_buf s = pre @ [DHCP_REPLY, h1, h2, h3] @ xid @ t8 @ yiaddr @ a8 @ take (nat (mac_len d)) (mac_addr d) @ rest @
      concat (map enc_option os) @ DHCP_OPTION_END # post" "uip_appdata s = length pre"
    and "length t8 = 8" "length yiaddr = 4" "length a8 = 8" "nat (mac_len d) \<le> length (mac_addr d)" "0 \<le> mac_len d"
    and "length rest + nat (mac_len d) = 212" "\<forall>o' \<in> set os. option_ok o'" "length (concat (map enc_option os)) < unat (uip_len s)"
  shows "parse_msg d s = Some (fold apply_option os (0, d\<lparr>dipaddr := yiaddr\<rparr>))"
proof -
  let ?mac = "take (nat (mac_len d)) (mac_addr d)" and ?opts = "concat (map enc_option os) @ DHCP_OPTION_END # post"
  have l: "length xid = 4" "length ?mac = nat (mac_len d)" using assms(6) by (simp_all add: xid_def)
  have op: "rd8_at (length pre) s = Some DHCP_REPLY" by (rule rd8_at_append) (simp add: assms(1))
  have x: "slice (length pre + 4) 4 (uip_buf s) = Some xid"
    by (rule slice_within [where xs = "pre @ [DHCP_REPLY, h1, h2, h3]" and zs = "t8 @ yiaddr @ a8 @ ?mac @ rest @ ?opts"])
      (simp_all only: assms(1) append_assoc, simp_all add: l)
  have y: "slice (length pre + 16) 4 (uip_buf s) = Some yiaddr"
    by (rule slice_within [where xs = "pre @ [DHCP_REPLY, h1, h2, h3] @ xid @ t8" and zs = "a8 @ ?mac @ rest @ ?opts"])
      (simp_all only: assms(1) append_assoc, simp_all add: l assms(3,4))
  have m: "slice (length pre + 28) (nat (mac_len d)) (uip_buf s) = Some ?mac"
    by (rule slice_within [where xs = "pre @ [DHCP_REPLY, h1, h2, h3] @ xid @ t8 @ yiaddr @ a8" and zs = "rest @ ?opts"])
      (simp_all only: assms(1) append_assoc l(2), simp_all add: l assms(3-5))
  have m': "slice 0 (nat (mac_len d)) (mac_addr d) = Some ?mac" using assms(6) by (simp add: slice_def)
  let ?pre = "pre @ [DHCP_REPLY, h1, h2, h3] @ xid @ t8 @ yiaddr @ a8 @ ?mac @ rest"
  have p: "length ?pre = length pre + 240" using assms(8) by (simp add: assms(3-5) l(1) min_absorb2 [OF assms(6)])
  have b: "uip_buf s = ?pre @ concat (map enc_option os) @ DHCP_OPTION_END # post" by (simp only: assms(1) append_assoc)
  have "parse_options_from (length ?pre) (length ?pre + unat (uip_len s)) 0 (d\<lparr>dipaddr := yiaddr\<rparr>) (uip_buf s) =
      Some (fold apply_option os (0, d\<lparr>dipaddr := yiaddr\<rparr>))"
    by (rule parse_options_spec [OF assms(9) b]) (simp only: add_less_cancel_left assms(10))
  then have "parse_options (length pre + 240) (unat (uip_len s)) (d\<lparr>dipaddr := yiaddr\<rparr>) (uip_buf s) =
      Some (fold apply_option os (0, d\<lparr>dipaddr := yiaddr\<rparr>))"
    unfolding p parse_options_def .
  then show ?thesis by (simp add: parse_msg_def assms(2,7) op x y m m')
qed

end
