(* ===== verification/UipWebclient.thy ===== *)
theory UipWebclient
  imports UipResolv UipNeighbor
begin

text \<open>
  The web client (\<^verbatim>\<open>apps/webclient/webclient.c\<close>): the request, the parser of the answer's
  header and the event handler. The client's state extends the resolver's, which it uses. The
  functions that the program using the client has to define are one parameter \<open>cb\<close>, which gets
  the call; for the data it is the address in the packet buffer, or NULL, and their number.
\<close>

subsection \<open>Data\<close>

datatype wc_phase = WEBCLIENT_STATE_STATUSLINE | WEBCLIENT_STATE_HEADERS | WEBCLIENT_STATE_DATA | WEBCLIENT_STATE_CLOSE

datatype httpflag = HTTPFLAG_NONE | HTTPFLAG_OK | HTTPFLAG_MOVED | HTTPFLAG_ERROR

record webclient = resolv +
  wc_timer :: u8
  wc_state :: wc_phase
  wc_flag :: httpflag
  wc_port :: u16
  wc_host :: "u8 list"
  wc_file :: "u8 list"
  getrequestptr :: u16
  getrequestleft :: u16
  httpheaderline :: "u8 list"
  httpheaderlineptr :: u16
  wc_mimetype :: "u8 list"

abbreviation (input) "WEBCLIENT_TIMEOUT \<equiv> (100 :: u8)"
abbreviation (input) "HEADERLINE_SIZE \<equiv> (200 :: nat)"
abbreviation (input) "MAX_URLLEN \<equiv> (100 :: nat)"
abbreviation (input) "ISO_nl \<equiv> (0x0a :: u8)"
abbreviation (input) "ISO_cr \<equiv> (0x0d :: u8)"
abbreviation (input) "ISO_space \<equiv> (0x20 :: u8)"

datatype wc_call =
    Webclient_datahandler "nat option" u16
  | Webclient_connected
  | Webclient_timedout
  | Webclient_aborted
  | Webclient_closed

type_synonym ('w, 'a) wc_user =
  "wc_call \<Rightarrow> 'w webclient_scheme \<Rightarrow> 'a uip \<Rightarrow> ('w webclient_scheme \<times> 'a uip) option"

subsection \<open>Strings\<close>

definition wc_http_http :: "u8 list" where
  "wc_http_http = cstring ''http://''"

definition wc_http_200 :: "u8 list" where
  "wc_http_200 = cstring ''200 ''"

definition wc_http_301 :: "u8 list" where
  "wc_http_301 = cstring ''301 ''"

definition wc_http_302 :: "u8 list" where
  "wc_http_302 = cstring ''302 ''"

definition wc_http_get :: "u8 list" where
  "wc_http_get = cstring ''GET ''"

definition wc_http_10 :: "u8 list" where
  "wc_http_10 = cstring ''HTTP/1.0''"

definition wc_http_11 :: "u8 list" where
  "wc_http_11 = cstring ''HTTP/1.1''"

definition wc_http_content_type :: "u8 list" where
  "wc_http_content_type = cstring ''content-type: ''"

definition wc_http_location :: "u8 list" where
  "wc_http_location = cstring ''location: ''"

definition wc_http_host :: "u8 list" where
  "wc_http_host = cstring ''host: ''"

definition wc_http_crnl :: "u8 list" where
  "wc_http_crnl = [ISO_cr, ISO_nl, 0]"

definition wc_http_user_agent_fields :: "u8 list" where
  "wc_http_user_agent_fields =
     map of_char ''Connection: close'' @ [ISO_cr, ISO_nl] @
     map of_char ''User-Agent: uIP/1.0 (; http://www.sics.se/~adam/uip/)'' @ [ISO_cr, ISO_nl, ISO_cr, ISO_nl, 0]"

text \<open>\<^verbatim>\<open>sizeof(a) - 1\<close>.\<close>

definition size1 :: "u8 list \<Rightarrow> nat" where
  "size1 a = length a - 1"

subsection \<open>Requests\<close>

definition init_connection :: "'w webclient_scheme \<Rightarrow> 'w webclient_scheme option" where
  "init_connection w = do {
     ua \<leftarrow> strlen wc_http_user_agent_fields;
     fl \<leftarrow> strlen (wc_file w);
     h \<leftarrow> strlen (wc_host w);
     Some (w\<lparr>wc_state := WEBCLIENT_STATE_STATUSLINE,
       getrequestleft := of_nat (size1 wc_http_get + 1 + size1 wc_http_10 + size1 wc_http_crnl +
         size1 wc_http_host + size1 wc_http_crnl + ua + fl + h),
       getrequestptr := 0, httpheaderlineptr := 0\<rparr>) }"

definition webclient_close :: "'w webclient_scheme \<Rightarrow> 'w webclient_scheme" where
  "webclient_close w = w\<lparr>wc_state := WEBCLIENT_STATE_CLOSE\<rparr>"

text \<open>The host's address: the bytes that the parser of dotted numbers stored, or the resolver's answer.\<close>

definition wc_address :: "u8 list \<Rightarrow> 'w webclient_scheme \<Rightarrow> ip4 option option" where
  "wc_address host w = do {
     (ok, addr) \<leftarrow> conv_loop 4 host [];
     if \<not> ok then resolv_lookup host w
     else Some (Some (mk16 (addr ! 1) (addr ! 0), mk16 (addr ! 3) (addr ! 2))) }"

definition webclient_get :: "u8 list \<Rightarrow> u16 \<Rightarrow> u8 list \<Rightarrow> 'w webclient_scheme \<Rightarrow> 'a uip \<Rightarrow>
    (u8 \<times> 'w webclient_scheme \<times> 'a uip) option" where
  "webclient_get host port name w s = do {
     ipaddr \<leftarrow> wc_address host w;
     case ipaddr of
       None \<Rightarrow> Some (0, w, s)
     | Some a \<Rightarrow> do {
         (s, conn) \<leftarrow> uip_connect a (htons port) s;
         case conn of
           None \<Rightarrow> Some (0, w, s)
         | Some _ \<Rightarrow> do {
             fl \<leftarrow> strncpy (length (wc_file w)) name;
             h \<leftarrow> strncpy (length (wc_host w)) host;
             w \<leftarrow> init_connection (w\<lparr>wc_port := port, wc_file := fl, wc_host := h\<rparr>);
             Some (1, w, s) } } }"

text \<open>The destination and the packet buffer; the new destination is returned.\<close>

definition copy_string :: "nat \<Rightarrow> u8 list \<Rightarrow> u8 \<Rightarrow> u8 list \<Rightarrow> (nat \<times> u8 list) option" where
  "copy_string dest src len b = do {
     v \<leftarrow> strncpy (unat len) src;
     b \<leftarrow> blit dest v b;
     Some (dest + unat len, b) }"

definition wc_senddata :: "'w webclient_scheme \<Rightarrow> 'a uip \<Rightarrow> 'a uip option" where
  "wc_senddata w s =
     (if getrequestleft w > 0 then do {
        let getrequest = uip_appdata s;
        (cptr, b) \<leftarrow> copy_string getrequest wc_http_get (of_nat (size1 wc_http_get)) (uip_buf s);
        n \<leftarrow> strlen (wc_file w);
        (cptr, b) \<leftarrow> copy_string cptr (wc_file w) (of_nat n) b;
        b \<leftarrow> blit cptr [ISO_space] b;
        (cptr, b) \<leftarrow> copy_string (cptr + 1) wc_http_10 (of_nat (size1 wc_http_10)) b;
        (cptr, b) \<leftarrow> copy_string cptr wc_http_crnl (of_nat (size1 wc_http_crnl)) b;
        (cptr, b) \<leftarrow> copy_string cptr wc_http_host (of_nat (size1 wc_http_host)) b;
        n \<leftarrow> strlen (wc_host w);
        (cptr, b) \<leftarrow> copy_string cptr (wc_host w) (of_nat n) b;
        (cptr, b) \<leftarrow> copy_string cptr wc_http_crnl (of_nat (size1 wc_http_crnl)) b;
        n \<leftarrow> strlen wc_http_user_agent_fields;
        (cptr, b) \<leftarrow> copy_string cptr wc_http_user_agent_fields (of_nat n) b;
        m \<leftarrow> uip_mss s;
        let len = (if getrequestleft w > m then m else getrequestleft w);
        uip_send_ptr (Packet (getrequest + unat (getrequestptr w))) len (s\<lparr>uip_buf := b\<rparr>) }
      else Some s)"

definition wc_acked :: "'w webclient_scheme \<Rightarrow> 'a uip \<Rightarrow> 'w webclient_scheme option" where
  "wc_acked w s =
     (if getrequestleft w > 0 then do {
        m \<leftarrow> uip_mss s;
        let len = (if getrequestleft w > m then m else getrequestleft w);
        Some (w\<lparr>getrequestleft := getrequestleft w - len, getrequestptr := getrequestptr w + len\<rparr>) }
      else Some w)"

subsection \<open>Answers\<close>

text \<open>The next byte of the packet is stored in the line.\<close>

definition store_byte :: "'w webclient_scheme \<Rightarrow> 'a uip \<Rightarrow> (u8 \<times> 'w webclient_scheme \<times> 'a uip) option" where
  "store_byte w s = do {
     c \<leftarrow> rd8_at (uip_appdata s) s;
     guard (unat (httpheaderlineptr w) < length (httpheaderline w));
     Some (c, w\<lparr>httpheaderline := (httpheaderline w)[unat (httpheaderlineptr w) := c]\<rparr>,
       s\<lparr>uip_appdata := uip_appdata s + 1\<rparr>) }"

text \<open>\<^verbatim>\<open>httpheaderline[httpheaderlineptr - 1] = 0\<close>.\<close>

definition end_line :: "'w webclient_scheme \<Rightarrow> 'w webclient_scheme option" where
  "end_line w = do {
     guard (0 < httpheaderlineptr w \<and> unat (httpheaderlineptr w) - 1 < length (httpheaderline w));
     Some (w\<lparr>httpheaderline := (httpheaderline w)[unat (httpheaderlineptr w) - 1 := 0]\<rparr>) }"

text \<open>A whole status line; \<open>None\<close> as inner result stands for a line that is no status line.\<close>

definition status_line :: "'w webclient_scheme \<Rightarrow> 'w webclient_scheme option option" where
  "status_line w = do {
     h10 \<leftarrow> strncmp_eq (size1 wc_http_10) (httpheaderline w) wc_http_10;
     ok \<leftarrow> (if h10 then Some True else strncmp_eq (size1 wc_http_11) (httpheaderline w) wc_http_11);
     if ok then do {
       let cptr = drop 9 (httpheaderline w);
       let w = w\<lparr>wc_flag := HTTPFLAG_NONE\<rparr>;
       r200 \<leftarrow> strncmp_eq (size1 wc_http_200) cptr wc_http_200;
       w \<leftarrow> (if r200 then Some (w\<lparr>wc_flag := HTTPFLAG_OK\<rparr>)
         else do {
           r301 \<leftarrow> strncmp_eq (size1 wc_http_301) cptr wc_http_301;
           moved \<leftarrow> (if r301 then Some True else strncmp_eq (size1 wc_http_302) cptr wc_http_302);
           if moved then Some (w\<lparr>wc_flag := HTTPFLAG_MOVED\<rparr>) else end_line w });
       Some (Some (w\<lparr>httpheaderlineptr := 0, wc_state := WEBCLIENT_STATE_HEADERS\<rparr>)) }
     else Some None }"

text \<open>The loop over the \<open>len\<close> bytes that are left; the number of those behind the line is returned.\<close>

fun parse_statusline :: "('w, 'a) wc_user \<Rightarrow> nat \<Rightarrow> 'w webclient_scheme \<Rightarrow> 'a uip \<Rightarrow>
    (nat \<times> 'w webclient_scheme \<times> 'a uip) option" where
  "parse_statusline cb 0 w s = Some (0, w, s)"
| "parse_statusline cb (Suc len) w s =
     (if unat (httpheaderlineptr w) < HEADERLINE_SIZE then do {
        (c, w, s) \<leftarrow> store_byte w s;
        if c = ISO_nl then do {
          r \<leftarrow> status_line w;
          case r of
            None \<Rightarrow> do {
              (w, s) \<leftarrow> cb Webclient_aborted w (uip_abort s);
              Some (0, w, s) }
          | Some w \<Rightarrow> Some (len, w, s) }
        else parse_statusline cb len (w\<lparr>httpheaderlineptr := httpheaderlineptr w + 1\<rparr>) s }
      else Some (Suc len, w, s))"

text \<open>\<^verbatim>\<open>casecmp(str1, str2, len) == 0\<close>.\<close>

fun casecmp :: "nat \<Rightarrow> u8 list \<Rightarrow> u8 list \<Rightarrow> bool option" where
  "casecmp 0 str1 str2 = Some True"
| "casecmp (Suc len) (x # str1) (y # str2) =
     (let c = (if x AND 0x40 \<noteq> 0 then x OR 0x20 else x) in
      if y \<noteq> c then Some False else casecmp len str1 str2)"
| "casecmp (Suc len) str1 str2 = None"

text \<open>The host's name in the line from \<open>cptr\<close> on, for at most \<open>n\<close> more characters.\<close>

fun copy_host :: "nat \<Rightarrow> u8 list \<Rightarrow> nat \<Rightarrow> nat \<Rightarrow> u8 list \<Rightarrow> (nat \<times> u8 list) option" where
  "copy_host 0 line cptr i host = Some (cptr, host)"
| "copy_host (Suc n) line cptr i host = do {
     guard (cptr < length line \<and> i < length host);
     let c = line ! cptr;
     if c = 0 \<or> c = 0x2f \<or> c = ISO_space \<or> c = 0x3a then Some (cptr, host[i := 0])
     else copy_host n line (cptr + 1) (i + 1) (host[i := c]) }"

text \<open>A whole line that is not the empty one.\<close>

definition header_line :: "'w webclient_scheme \<Rightarrow> 'w webclient_scheme option" where
  "header_line w = do {
     w \<leftarrow> end_line w;
     let line = httpheaderline w;
     ct \<leftarrow> casecmp (size1 wc_http_content_type) line wc_http_content_type;
     if ct then do {
       q \<leftarrow> strchr 0x3b line;
       let line = (case q of None \<Rightarrow> line | Some r \<Rightarrow> line[length line - length r := 0]);
       v \<leftarrow> strncpy (length (wc_mimetype w)) (drop (size1 wc_http_content_type) line);
       Some (w\<lparr>httpheaderline := line, wc_mimetype := v\<rparr>) }
     else do {
       loc \<leftarrow> casecmp (size1 wc_http_location) line wc_http_location;
       if loc then do {
         let cptr = size1 wc_http_location;
         h \<leftarrow> strncmp_eq 7 (drop cptr line) wc_http_http;
         (cptr, host) \<leftarrow> (if h then copy_host (unat (httpheaderlineptr w) - 7) line (cptr + 7) 0 (wc_host w)
           else Some (cptr, wc_host w));
         v \<leftarrow> strncpy (length (wc_file w)) (drop cptr line);
         Some (w\<lparr>wc_host := host, wc_file := v\<rparr>) }
       else Some w } }"

fun parse_headers :: "nat \<Rightarrow> 'w webclient_scheme \<Rightarrow> 'a uip \<Rightarrow> (nat \<times> 'w webclient_scheme \<times> 'a uip) option" where
  "parse_headers 0 w s = Some (0, w, s)"
| "parse_headers (Suc len) w s =
     (if unat (httpheaderlineptr w) < HEADERLINE_SIZE then do {
        (c, w, s) \<leftarrow> store_byte w s;
        if c = ISO_nl then
          (if httpheaderline w ! 0 = ISO_cr then Some (len, w\<lparr>wc_state := WEBCLIENT_STATE_DATA\<rparr>, s)
           else do {
             w \<leftarrow> header_line w;
             parse_headers len (w\<lparr>httpheaderlineptr := 0\<rparr>) s })
        else parse_headers len (w\<lparr>httpheaderlineptr := httpheaderlineptr w + 1\<rparr>) s }
      else Some (Suc len, w, s))"

definition wc_newdata :: "('w, 'a) wc_user \<Rightarrow> 'w webclient_scheme \<Rightarrow> 'a uip \<Rightarrow> ('w webclient_scheme \<times> 'a uip) option" where
  "wc_newdata cb w s = do {
     let len = unat (uip_len s);
     (len, w, s) \<leftarrow> (if wc_state w = WEBCLIENT_STATE_STATUSLINE then parse_statusline cb len w s else Some (len, w, s));
     (len, w, s) \<leftarrow> (if wc_state w = WEBCLIENT_STATE_HEADERS \<and> len > 0 then parse_headers len w s else Some (len, w, s));
     if len > 0 \<and> wc_state w = WEBCLIENT_STATE_DATA \<and> wc_flag w \<noteq> HTTPFLAG_MOVED
     then cb (Webclient_datahandler (Some (uip_appdata s)) (of_nat len)) w s
     else Some (w, s) }"

subsection \<open>Events\<close>

definition wc_connected :: "('w, 'a) wc_user \<Rightarrow> 'w webclient_scheme \<Rightarrow> 'a uip \<Rightarrow> ('w webclient_scheme \<times> 'a uip) option" where
  "wc_connected cb w s = do {
     let w = w\<lparr>wc_timer := 0, wc_state := WEBCLIENT_STATE_STATUSLINE\<rparr>;
     s \<leftarrow> wc_senddata w s;
     cb Webclient_connected w s }"

text \<open>The end of the event: when the connection has been closed, the user is told, or a moved document is fetched.\<close>

definition wc_closed :: "('w, 'a) wc_user \<Rightarrow> 'w webclient_scheme \<Rightarrow> 'a uip \<Rightarrow> ('w webclient_scheme \<times> 'a uip) option" where
  "wc_closed cb w s =
     (if uip_flags s AND UIP_CLOSE \<noteq> 0 then
        (if wc_flag w \<noteq> HTTPFLAG_MOVED then cb (Webclient_datahandler None 0) w s
         else do {
           a \<leftarrow> resolv_lookup (wc_host w) w;
           w \<leftarrow> (if a = None then resolv_query (wc_host w) w else Some w);
           (_, w, s) \<leftarrow> webclient_get (wc_host w) (wc_port w) (wc_file w) w s;
           Some (w, s) })
      else Some (w, s))"

definition webclient_appcall :: "('w, 'a) wc_user \<Rightarrow> 'w webclient_scheme \<Rightarrow> 'a uip \<Rightarrow>
    ('w webclient_scheme \<times> 'a uip) option" where
  "webclient_appcall cb w s =
     (if uip_flags s AND UIP_CONNECTED \<noteq> 0 then wc_connected cb w s
      else if wc_state w = WEBCLIENT_STATE_CLOSE then do {
        (w, s) \<leftarrow> cb Webclient_closed w s;
        Some (w, uip_abort s) }
      else do {
        (w, s) \<leftarrow> (if uip_flags s AND UIP_ABORT \<noteq> 0 then cb Webclient_aborted w s else Some (w, s));
        (w, s) \<leftarrow> (if uip_flags s AND UIP_TIMEDOUT \<noteq> 0 then cb Webclient_timedout w s else Some (w, s));
        w \<leftarrow> (if uip_acked s then wc_acked (w\<lparr>wc_timer := 0\<rparr>) s else Some w);
        (w, s) \<leftarrow> (if uip_newdata s then wc_newdata cb (w\<lparr>wc_timer := 0\<rparr>) s else Some (w, s));
        if uip_rexmit s \<or> uip_newdata s \<or> uip_acked s then do {
          s \<leftarrow> wc_senddata w s;
          wc_closed cb w s }
        else if uip_flags s AND UIP_POLL \<noteq> 0 then
          (let w = w\<lparr>wc_timer := wc_timer w + 1\<rparr> in
           if wc_timer w = WEBCLIENT_TIMEOUT then do {
             (w, s) \<leftarrow> cb Webclient_timedout w s;
             Some (w, uip_abort s) }
           else wc_closed cb w s)
        else wc_closed cb w s })"

end
