(* ===== verification/UipWebRun.thy ===== *)
theory UipWebRun
  imports UipWebclient UipDns
begin

text \<open>
  The web client at work: the request over acknowledgements and retransmissions, and the answer
  over any segments.
\<close>

subsection \<open>The request\<close>

lemma strncpy_string: "0 \<notin> set us \<Longrightarrow> strncpy (length us) (us @ ys) = Some us"
  by (induction us) auto

definition request_text :: "u8 list \<Rightarrow> u8 list \<Rightarrow> u8 list" where
  "request_text fl h = map of_char ''GET '' @ fl @ [ISO_space] @ map of_char ''HTTP/1.0'' @ [ISO_cr, ISO_nl] @
     map of_char ''host: '' @ h @ [ISO_cr, ISO_nl] @ butlast wc_http_user_agent_fields"

lemma blit_after: "g + length pre + length v \<le> length b \<Longrightarrow>
    blit (g + length pre) v (patch b g pre) = Some (patch b g (pre @ v))"
  by (subst blit_patch) (simp_all add: length_patch patch_patch)

lemma copy_string_spec:
  assumes "src = v @ r" "0 \<notin> set v" "length v < 256" "g + length pre + length v \<le> length b"
  shows "copy_string (g + length pre) src (of_nat (length v)) (patch b g pre) =
    Some (g + length (pre @ v), patch b g (pre @ v))"
proof -
  have n: "unat (of_nat (length v) :: u8) = length v" using assms(3) by (simp add: unsigned_of_nat take_bit_nat_eq_self)
  show ?thesis
    using assms by (simp add: copy_string_def n strncpy_string blit_after)
qed

text \<open>The client's request with \<open>k\<close> segments acknowledged.\<close>

definition requesting :: "u8 list \<Rightarrow> u8 list \<Rightarrow> nat \<Rightarrow> nat \<Rightarrow> 'w webclient_scheme \<Rightarrow> bool" where
  "requesting fl h m k w \<longleftrightarrow> (\<exists>r r'. wc_file w = fl @ 0 # r \<and> wc_host w = h @ 0 # r') \<and>
     0 \<notin> set fl \<and> 0 \<notin> set h \<and> length fl < 100 \<and> length h < 40 \<and>
     getrequestptr w = of_nat (min (k * m) (length (request_text fl h))) \<and>
     getrequestleft w = of_nat (length (request_text fl h) - k * m)"

definition request_event :: "u16 \<Rightarrow> 'a uip \<Rightarrow> bool" where
  "request_event m s \<longleftrightarrow> uip_mss s = Some m \<and> uip_appdata s = uip_sappdata s \<and> room 300 s \<and> uip_slen s = 0"

definition segment :: "'a uip \<Rightarrow> u8 list" where
  "segment s = take (unat (uip_slen s)) (drop (uip_sappdata s) (uip_buf s))"

lemma length_fields: "length wc_http_user_agent_fields = 77"
  by (simp add: wc_http_user_agent_fields_def)

lemma fields_string: "wc_http_user_agent_fields = butlast wc_http_user_agent_fields @ [0]" "0 \<notin> set (butlast wc_http_user_agent_fields)"
  by (simp_all add: wc_http_user_agent_fields_def)

lemma length_request: "length (request_text fl h) = 99 + length fl + length h"
  by (simp add: request_text_def length_fields)

lemma wc_senddata_text:
  assumes "wc_file w = fl @ 0 # r" "wc_host w = h @ 0 # r'" "0 \<notin> set fl" "0 \<notin> set h" "length fl < 256" "length h < 256"
    and "uip_appdata s + length (request_text fl h) \<le> length (uip_buf s)" "uip_mss s = Some m" "0 < getrequestleft w"
  shows "wc_senddata w s = uip_send_ptr (Packet (uip_appdata s + unat (getrequestptr w)))
    (if getrequestleft w > m then m else getrequestleft w)
    (s\<lparr>uip_buf := patch (uip_buf s) (uip_appdata s) (request_text fl h)\<rparr>)"
proof -
  let ?g = "uip_appdata s" and ?b = "uip_buf s"
  define P0 where "P0 = ([] :: u8 list)"
  define P1 where "P1 = P0 @ map of_char ''GET ''"
  define P2 where "P2 = P1 @ fl"
  define P3 where "P3 = P2 @ [ISO_space]"
  define P4 where "P4 = P3 @ map of_char ''HTTP/1.0''"
  define P5 where "P5 = P4 @ [ISO_cr, ISO_nl]"
  define P6 where "P6 = P5 @ map of_char ''host: ''"
  define P7 where "P7 = P6 @ h"
  define P8 where "P8 = P7 @ [ISO_cr, ISO_nl]"
  define P9 where "P9 = P8 @ butlast wc_http_user_agent_fields"
  note P = P0_def P1_def P2_def P3_def P4_def P5_def P6_def P7_def P8_def P9_def
  have t: "request_text fl h = P9" by (simp add: request_text_def P)
  have sz: "?g + length P9 \<le> length ?b" using assms(7) t by simp
  have c: "copy_string (?g + length pre) src (of_nat n) (patch ?b ?g pre) = Some (?g + length pre', patch ?b ?g pre')"
    if "pre' = pre @ v" "src = v @ q" "0 \<notin> set v" "n = length v" "length v < 256" "length pre' \<le> length P9" for pre pre' v src q n
    using copy_string_spec [OF that(2,3,5)] that sz by simp
  have 1: "copy_string (?g + length P0) wc_http_get (of_nat (size1 wc_http_get)) (patch ?b ?g P0) = Some (?g + length P1, patch ?b ?g P1)"
    by (rule c [where v = "map of_char ''GET ''" and q = "[0]"]) (simp_all add: wc_http_get_def cstring_def size1_def P)
  have 2: "copy_string (?g + length P1) (wc_file w) (of_nat (length fl)) (patch ?b ?g P1) = Some (?g + length P2, patch ?b ?g P2)"
    by (rule c, rule P2_def, rule assms(1), rule assms(3), rule refl, rule assms(5), simp add: P)
  have 3: "blit (?g + length P2) [ISO_space] (patch ?b ?g P2) = Some (patch ?b ?g P3)"
    unfolding P3_def by (rule blit_after) (use sz in \<open>simp add: P\<close>)
  have 4: "copy_string (?g + length P3) wc_http_10 (of_nat (size1 wc_http_10)) (patch ?b ?g P3) = Some (?g + length P4, patch ?b ?g P4)"
    by (rule c [where v = "map of_char ''HTTP/1.0''" and q = "[0]"]) (simp_all add: wc_http_10_def cstring_def size1_def P)
  have 5: "copy_string (?g + length P4) wc_http_crnl (of_nat (size1 wc_http_crnl)) (patch ?b ?g P4) = Some (?g + length P5, patch ?b ?g P5)"
    by (rule c [where v = "[ISO_cr, ISO_nl]" and q = "[0]"]) (simp_all add: wc_http_crnl_def size1_def P)
  have 6: "copy_string (?g + length P5) wc_http_host (of_nat (size1 wc_http_host)) (patch ?b ?g P5) = Some (?g + length P6, patch ?b ?g P6)"
    by (rule c [where v = "map of_char ''host: ''" and q = "[0]"]) (simp_all add: wc_http_host_def cstring_def size1_def P)
  have 7: "copy_string (?g + length P6) (wc_host w) (of_nat (length h)) (patch ?b ?g P6) = Some (?g + length P7, patch ?b ?g P7)"
    by (rule c, rule P7_def, rule assms(2), rule assms(4), rule refl, rule assms(6), simp add: P)
  have 8: "copy_string (?g + length P7) wc_http_crnl (of_nat (size1 wc_http_crnl)) (patch ?b ?g P7) = Some (?g + length P8, patch ?b ?g P8)"
    by (rule c [where v = "[ISO_cr, ISO_nl]" and q = "[0]"]) (simp_all add: wc_http_crnl_def size1_def P)
  have 9: "copy_string (?g + length P8) wc_http_user_agent_fields (of_nat (length (butlast wc_http_user_agent_fields))) (patch ?b ?g P8) =
      Some (?g + length P9, patch ?b ?g P9)"
    by (rule c, rule P9_def, rule fields_string(1), rule fields_string(2), simp_all add: length_fields)
  have n: "strlen (wc_file w) = Some (length fl)" "strlen (wc_host w) = Some (length h)"
    using assms(3,4) by (simp_all add: assms(1,2) strlen_string)
  have ua: "strlen wc_http_user_agent_fields = Some (length (butlast wc_http_user_agent_fields))"
    by (subst fields_string(1)) (rule strlen_string [OF fields_string(2)])
  have 1: "copy_string ?g wc_http_get (of_nat (size1 wc_http_get)) ?b = Some (?g + length P1, patch ?b ?g P1)"
    using 1 by (simp only: P0_def list.size add_0_right patch_Nil)
  have e: "?g + length P2 + 1 = ?g + length P3" by (simp add: P)
  show ?thesis
    unfolding wc_senddata_def Let_def t
    by (simp only: if_P [OF assms(9)] 1 2 3 4 5 6 7 8 9 n ua assms(8) e bind.bind_lunit prod.case)
qed

lemma wc_senddata_spec:
  assumes "requesting fl h (unat m) k w" "request_event m s" "0 < m"
  shows "\<exists>s'. wc_senddata w s = Some s' \<and> uip_flags s' = uip_flags s \<and>
    segment s' = take (unat m) (drop (k * unat m) (request_text fl h))"
proof (cases "k * unat m < length (request_text fl h)")
  case False
  then have "getrequestleft w = 0" using assms(1) by (simp add: requesting_def)
  then show ?thesis using assms(2) False by (simp add: wc_senddata_def segment_def request_event_def)
next
  case True
  let ?t = "request_text fl h" and ?g = "uip_appdata s" and ?b = "uip_buf s"
  obtain r r' where f: "wc_file w = fl @ 0 # r" "wc_host w = h @ 0 # r'" "0 \<notin> set fl" "0 \<notin> set h" "length fl < 100" "length h < 40"
    using assms(1) by (auto simp: requesting_def)
  have L: "length ?t \<le> 237" using f by (simp add: length_request)
  have sz: "?g + 300 \<le> length ?b" using assms(2) by (simp add: request_event_def room_def)
  let ?x = "if getrequestleft w > m then m else getrequestleft w"
  have left: "unat (getrequestleft w) = length ?t - k * unat m" "unat (getrequestptr w) = k * unat m"
  proof -
    have "getrequestleft w = of_nat (length ?t - k * unat m)" "getrequestptr w = of_nat (k * unat m)"
      using assms(1) True unfolding requesting_def by (metis, metis min.absorb1 less_imp_le_nat)
    then show "unat (getrequestleft w) = length ?t - k * unat m" "unat (getrequestptr w) = k * unat m"
      using True L by (simp_all only:) (subst unat_small; simp)+
  qed
  have x: "unat ?x = min (unat m) (length ?t - k * unat m)" "0 < ?x"
    using left(1) True assms(3) by (auto simp: word_less_nat_alt)
  have m: "uip_mss s = Some m" using assms(2) by (simp add: request_event_def)
  have g: "?g + length ?t \<le> length ?b" using sz L by simp
  have h: "length fl < 256" "length h < 256" "0 < getrequestleft w"
    using f left(1) True by (simp_all add: word_less_nat_alt)
  have s: "wc_senddata w s = uip_send_ptr (Packet (?g + k * unat m)) ?x (s\<lparr>uip_buf := patch ?b ?g ?t\<rparr>)"
    using wc_senddata_text [OF f(1-4) h(1,2) g m h(3)] by (simp only: left(2))
  let ?S = "s\<lparr>uip_buf := patch ?b ?g ?t\<rparr>" and ?p = "take (unat ?x) (drop (k * unat m) ?t)"
  have d: "drop (?g + k * unat m) (patch ?b ?g ?t) = drop (k * unat m) ?t @ drop (?g + length ?t) ?b"
    using g True by (simp add: patch_def)
  have p: "?p = take (unat m) (drop (k * unat m) ?t)" "length ?p = unat ?x"
    unfolding x(1) using True by (simp_all add: min_def)
  have l: "length (patch ?b ?g ?t) = length ?b" using g by (rule length_patch)
  have sa: "uip_sappdata s = ?g" using assms(2) by (simp add: request_event_def)
  show ?thesis
  proof (cases "k * unat m = 0")
    case z: True
    have "wc_senddata w s = Some (?S\<lparr>uip_slen := ?x\<rparr>)"
      using s z uip_send_ptr_Packet [of ?S ?x] sa x(2) by (simp add: word_neq_0_conv)
    moreover have "segment (?S\<lparr>uip_slen := ?x\<rparr>) = ?p"
      using d p(2) unfolding z drop_0 add_0_right by (simp add: segment_def sa)
    ultimately show ?thesis using p(1) by simp
  next
    case False
    have sl: "slice 0 (unat ?x) (drop (?g + k * unat m) (patch ?b ?g ?t)) = Some ?p"
      unfolding d using p(2) by (simp add: slice_def)
    have bl: "blit ?g ?p (patch ?b ?g ?t) = Some (patch (patch ?b ?g ?t) ?g ?p)"
      by (rule blit_patch) (use g p(2) l x(1) in simp)
    have "0 < uint ?x" using x(2) by (simp add: word_less_def)
    then have "wc_senddata w s = Some (?S\<lparr>uip_slen := ?x, uip_buf := patch (patch ?b ?g ?t) ?g ?p\<rparr>)"
      using s False sa sl bl by (simp add: uip_send_ptr_def uip_send_def)
    moreover have "segment (?S\<lparr>uip_slen := ?x, uip_buf := patch (patch ?b ?g ?t) ?g ?p\<rparr>) = ?p"
      using p(2) g l by (simp add: segment_def sa patch_def [of _ ?g ?p])
    ultimately show ?thesis using p(1) by simp
  qed
qed

lemma wc_acked_spec:
  assumes "requesting fl h (unat m) k w" "uip_mss s = Some m"
  shows "\<exists>p l. wc_acked w s = Some (w\<lparr>getrequestleft := l, getrequestptr := p\<rparr>) \<and>
    requesting fl h (unat m) (k + 1) (w\<lparr>getrequestleft := l, getrequestptr := p\<rparr>)"
proof -
  let ?L = "length (request_text fl h)" and ?m = "unat m"
  have L: "?L < 65536" using assms(1) by (simp add: requesting_def length_request)
  have lp: "getrequestleft w = of_nat (?L - k * ?m)" "getrequestptr w = of_nat (min (k * ?m) ?L)"
    using assms(1) by (simp_all only: requesting_def)
  then have u: "unat (getrequestleft w) = ?L - k * ?m" using L by (simp only:) (subst unat_small; simp)
  show ?thesis
  proof (cases "k * ?m < ?L")
    case False
    then have "getrequestleft w = 0" "min (k * ?m) ?L = min ((k + 1) * ?m) ?L" "?L - k * ?m = ?L - (k + 1) * ?m"
      using lp(1) by simp_all
    then show ?thesis using assms(1) unfolding wc_acked_def requesting_def
      by (intro exI [of _ "getrequestptr w"] exI [of _ "getrequestleft w"]) simp
  next
    case True
    define x where "x = (if getrequestleft w > m then m else getrequestleft w)"
    have x: "unat x = min ?m (?L - k * ?m)" using u by (simp add: x_def word_less_nat_alt)
    then have xn: "x = of_nat (min ?m (?L - k * ?m))" by (simp only: x [symmetric]) simp
    have "getrequestleft w - x = of_nat (?L - k * ?m - min ?m (?L - k * ?m))"
      unfolding lp(1) xn by (rule of_nat_diff [symmetric]) simp
    also have "?L - k * ?m - min ?m (?L - k * ?m) = ?L - (k + 1) * ?m" by (simp add: min_def add.commute)
    finally have l: "getrequestleft w - x = of_nat (?L - (k + 1) * ?m)" .
    have "getrequestptr w + x = of_nat (min (k * ?m) ?L + min ?m (?L - k * ?m))"
      unfolding lp(2) xn by (rule of_nat_add [symmetric])
    also have "min (k * ?m) ?L + min ?m (?L - k * ?m) = min ((k + 1) * ?m) ?L" using True by (auto simp: min_def)
    finally have p: "getrequestptr w + x = of_nat (min ((k + 1) * ?m) ?L)" .
    have "0 < getrequestleft w" using u True by (simp add: word_less_nat_alt)
    then have "wc_acked w s = Some (w\<lparr>getrequestleft := getrequestleft w - x, getrequestptr := getrequestptr w + x\<rparr>)"
      by (simp add: wc_acked_def assms(2) x_def)
    moreover have "requesting fl h ?m (k + 1) (w\<lparr>getrequestleft := getrequestleft w - x, getrequestptr := getrequestptr w + x\<rparr>)"
      unfolding l p using assms(1) by (simp add: requesting_def del: of_nat_mult of_nat_add of_nat_diff)
    ultimately show ?thesis by blast
  qed
qed

text \<open>Events after one another, with the stack after each.\<close>

fun wc_run :: "('w, 'a) wc_user \<Rightarrow> 'w webclient_scheme \<Rightarrow> 'a uip list \<Rightarrow> ('w webclient_scheme \<times> 'a uip list) option" where
  "wc_run cb w [] = Some (w, [])"
| "wc_run cb w (s # ss) = do {
     (w, s) \<leftarrow> webclient_appcall cb w s;
     (w, os) \<leftarrow> wc_run cb w ss;
     Some (w, s # os) }"

text \<open>The numbers of acknowledgements up to each event.\<close>

fun acks :: "nat \<Rightarrow> 'a uip list \<Rightarrow> nat list" where
  "acks k [] = []"
| "acks k (s # ss) = (let k = (if uip_acked s then k + 1 else k) in k # acks k ss)"

lemma requesting_event:
  assumes "requesting fl h (unat m) k w" "request_event m s" "0 < m" "uip_flags s \<in> {UIP_ACKDATA, UIP_REXMIT}"
    and "wc_state w = WEBCLIENT_STATE_STATUSLINE"
  shows "\<exists>w' s'. webclient_appcall cb w s = Some (w', s') \<and> wc_state w' = WEBCLIENT_STATE_STATUSLINE \<and>
    requesting fl h (unat m) (hd (acks k [s])) w' \<and>
    segment s' = take (unat m) (drop (hd (acks k [s]) * unat m) (request_text fl h))"
proof (cases "uip_acked s")
  case True
  then have f: "uip_flags s = UIP_ACKDATA" using assms(4) by (auto simp: uip_acked_def)
  have m: "uip_mss s = Some m" using assms(2) by (simp add: request_event_def)
  have "requesting fl h (unat m) k (w\<lparr>wc_timer := 0\<rparr>)" using assms(1) by (simp add: requesting_def)
  from wc_acked_spec [OF this m] obtain w' where
    w': "wc_acked (w\<lparr>wc_timer := 0\<rparr>) s = Some w'" "requesting fl h (unat m) (k + 1) w'" "wc_state w' = wc_state w" by auto
  obtain s' where s': "wc_senddata w' s = Some s'" "uip_flags s' = uip_flags s"
    "segment s' = take (unat m) (drop ((k + 1) * unat m) (request_text fl h))"
    using wc_senddata_spec [OF w'(2) assms(2,3)] by blast
  have "webclient_appcall cb w s = Some (w', s')"
    using w'(1) s'(1,2) f assms(5) True
    by (simp add: webclient_appcall_def uip_rexmit_def uip_newdata_def wc_closed_def)
  then show ?thesis using w' s'(3) assms(5) True by simp
next
  case False
  then have f: "uip_flags s = UIP_REXMIT" using assms(4) by (auto simp: uip_acked_def)
  obtain s' where s': "wc_senddata w s = Some s'" "uip_flags s' = uip_flags s"
    "segment s' = take (unat m) (drop (k * unat m) (request_text fl h))"
    using wc_senddata_spec [OF assms(1-3)] by blast
  have "webclient_appcall cb w s = Some (w, s')"
    using s'(1,2) f assms(5) False
    by (simp add: webclient_appcall_def uip_rexmit_def uip_newdata_def wc_closed_def)
  then show ?thesis using s'(3) assms(1,5) False by simp
qed

lemma requesting_run:
  assumes "requesting fl h (unat m) k w" "\<forall>s \<in> set es. request_event m s \<and> uip_flags s \<in> {UIP_ACKDATA, UIP_REXMIT}"
    and "0 < m" "wc_state w = WEBCLIENT_STATE_STATUSLINE"
  shows "\<exists>w' os. wc_run cb w es = Some (w', os) \<and>
    map segment os = map (\<lambda>k. take (unat m) (drop (k * unat m) (request_text fl h))) (acks k es) \<and>
    requesting fl h (unat m) (k + length (filter uip_acked es)) w'"
  using assms
proof (induction es arbitrary: k w)
  case (Cons s es)
  obtain w1 s1 where 1: "webclient_appcall cb w s = Some (w1, s1)" "wc_state w1 = WEBCLIENT_STATE_STATUSLINE"
    "requesting fl h (unat m) (hd (acks k [s])) w1"
    "segment s1 = take (unat m) (drop (hd (acks k [s]) * unat m) (request_text fl h))"
    using requesting_event [OF Cons.prems(1) _ Cons.prems(3) _ Cons.prems(4), of s cb] Cons.prems(2) by auto
  from Cons.IH [OF 1(3) _ Cons.prems(3) 1(2)] Cons.prems(2) obtain w' os where
    "wc_run cb w1 es = Some (w', os)"
    "map segment os = map (\<lambda>k. take (unat m) (drop (k * unat m) (request_text fl h))) (acks (hd (acks k [s])) es)"
    "requesting fl h (unat m) (hd (acks k [s]) + length (filter uip_acked es)) w'" by auto
  then show ?case using 1(1,4) by (cases "uip_acked s") (simp_all add: Let_def)
qed simp

lemma webclient_get_requesting:
  assumes "webclient_get (h @ 0 # hr) port (fl @ 0 # fr) w0 s0 = Some (1, w, s1)"
    and "length (wc_file w0) = MAX_URLLEN" "length (wc_host w0) = 40" "0 \<notin> set fl" "0 \<notin> set h" "length fl < 100" "length h < 40"
  shows "requesting fl h m 0 w"
proof -
  let ?f = "fl @ 0 # replicate (100 - length fl - 1) 0" and ?h = "h @ 0 # replicate (40 - length h - 1) 0"
  let ?w = "w0\<lparr>wc_port := port, wc_file := ?f, wc_host := ?h\<rparr>"
  have c: "strncpy (length (wc_file w0)) (fl @ 0 # fr) = Some ?f" "strncpy (length (wc_host w0)) (h @ 0 # hr) = Some ?h"
    using assms(2-7) by (simp_all add: strncpy_fits)
  have i: "init_connection ?w = Some w"
    using assms(1) c by (auto simp: webclient_get_def elim!: bind_SomeE split: option.splits prod.splits)
  have ua: "strlen wc_http_user_agent_fields = Some 76"
    using strlen_string [OF fields_string(2), of "[]"] fields_string(1) length_fields by simp
  have "strlen ?f = Some (length fl)" "strlen ?h = Some (length h)"
    by (rule strlen_string [OF assms(4)], rule strlen_string [OF assms(5)])
  then show ?thesis
    using i assms(4-7) ua
    by (auto simp: init_connection_def requesting_def length_request size1_def wc_http_get_def wc_http_10_def wc_http_crnl_def
        wc_http_host_def cstring_def)
qed


end
