(* ===== verification/UipWebReply.thy ===== *)
theory UipWebReply
  imports UipWebRun
begin

text \<open>
  The answer to the web client's request: it is read line by line, whatever segments it comes in.
\<close>

subsection \<open>Comparisons\<close>

lemma strncmp_eq_take:
  "n \<le> length a \<Longrightarrow> n \<le> length b \<Longrightarrow> 0 \<notin> set (take n b) \<Longrightarrow> strncmp_eq n a b = Some (take n a = take n b)"
  by (induction n a b rule: strncmp_eq.induct) auto

definition lower :: "u8 \<Rightarrow> u8" where
  "lower x = (if x AND 0x40 \<noteq> 0 then x OR 0x20 else x)"

lemma casecmp_take: "n \<le> length a \<Longrightarrow> n \<le> length b \<Longrightarrow> casecmp n a b = Some (map lower (take n a) = take n b)"
  by (induction n a b rule: casecmp.induct) (auto simp: lower_def Let_def)

lemma take_terminated:
  assumes "0 \<notin> set p" "length p = n"
  shows "map lower (take n (l @ 0 # z)) = p \<longleftrightarrow> map lower (take n l) = p"
proof (cases "n \<le> length l")
  case False
  then have "0 \<in> set (take n (l @ 0 # z))" by (auto simp: take_Cons')
  then have "0 \<in> set (map lower (take n (l @ 0 # z)))" by (force simp: lower_def)
  then have "map lower (take n (l @ 0 # z)) \<noteq> p" using assms(1) by metis
  moreover have "map lower (take n l) \<noteq> p" using False assms(2) by auto
  ultimately show ?thesis by simp
qed simp

lemma strchr_string: "0 \<notin> set us \<Longrightarrow> c \<noteq> 0 \<Longrightarrow> strchr c (us @ 0 # ys) =
    Some (if c \<in> set us then Some (dropWhile (\<lambda>x. x \<noteq> c) us @ 0 # ys) else None)"
  by (induction us) auto

subsection \<open>A line\<close>

definition status_ok :: "u8 list \<Rightarrow> bool" where
  "status_ok t \<longleftrightarrow> 13 \<le> length t \<and> take 8 t \<in> {map of_char ''HTTP/1.0'', map of_char ''HTTP/1.1''} \<and>
     take 4 (drop 9 t) = map of_char ''200 ''"

lemma status_line_ok:
  assumes "status_ok t" "httpheaderline w = t @ z"
  shows "status_line w = Some (Some (w\<lparr>wc_flag := HTTPFLAG_OK, httpheaderlineptr := 0, wc_state := WEBCLIENT_STATE_HEADERS\<rparr>))"
proof -
  have s: "size1 wc_http_10 = 8" "size1 wc_http_11 = 8" "size1 wc_http_200 = 4"
    by (simp_all add: size1_def wc_http_10_def wc_http_11_def wc_http_200_def cstring_def)
  have t: "13 \<le> length t" using assms(1) by (simp add: status_ok_def)
  have "strncmp_eq 8 (t @ z) wc_http_10 = Some (take 8 t = map of_char ''HTTP/1.0'')"
    "strncmp_eq 8 (t @ z) wc_http_11 = Some (take 8 t = map of_char ''HTTP/1.1'')"
    "strncmp_eq 4 (drop 9 (t @ z)) wc_http_200 = Some (take 4 (drop 9 t) = map of_char ''200 '')"
    using t by (subst strncmp_eq_take; simp add: wc_http_10_def wc_http_11_def wc_http_200_def cstring_def)+
  then show ?thesis using assms by (auto simp: status_line_def s status_ok_def Let_def)
qed

definition is_location :: "u8 list \<Rightarrow> bool" where
  "is_location l \<longleftrightarrow> map lower (take 10 l) = map of_char ''location: ''"

definition mime_of :: "u8 list \<Rightarrow> u8 list \<Rightarrow> u8 list" where
  "mime_of l m = (if map lower (take 14 l) = map of_char ''content-type: ''
     then take 32 (takeWhile (\<lambda>x. x \<noteq> 0x3b) (drop 14 l) @ replicate 32 0) else m)"

lemma end_line_spec:
  assumes "httpheaderline w = l @ x # z" "httpheaderlineptr w = of_nat (length l + 1)" "length l < 199"
  shows "end_line w = Some (w\<lparr>httpheaderline := l @ 0 # z\<rparr>)"
proof -
  have "unat (httpheaderlineptr w) = length l + 1" using assms(2,3) by (simp only:) (subst unat_small; simp)
  then show ?thesis using assms(1) by (simp add: end_line_def word_less_nat_alt)
qed

lemma header_line_spec:
  assumes "httpheaderline w = l @ x # z" "httpheaderlineptr w = of_nat (length l + 1)" "length (httpheaderline w) = 200"
    and "length l < 199" "0 \<notin> set l" "\<not> is_location l" "length (wc_mimetype w) = 32"
  shows "\<exists>z'. header_line w = Some (w\<lparr>httpheaderline := z', wc_mimetype := mime_of l (wc_mimetype w)\<rparr>) \<and> length z' = 200"
proof -
  have s: "size1 wc_http_content_type = 14" "size1 wc_http_location = 10"
    by (simp_all add: size1_def wc_http_content_type_def wc_http_location_def cstring_def)
  have z: "length l + length z = 199" using assms(1,3) by simp
  let ?l = "l @ 0 # z"
  have c: "casecmp 14 ?l wc_http_content_type = Some (map lower (take 14 l) = map of_char ''content-type: '')"
    "casecmp 10 ?l wc_http_location = Some (is_location l)"
    using z take_terminated [of "map of_char ''content-type: ''" 14 l z] take_terminated [of "map of_char ''location: ''" 10 l z]
    by (subst casecmp_take; simp add: is_location_def wc_http_content_type_def wc_http_location_def cstring_def del: take_append)+
  note e = end_line_spec [OF assms(1,2,4)]
  show ?thesis
  proof (cases "map lower (take 14 l) = map of_char ''content-type: ''")
    case False
    then show ?thesis using z assms(6) c
      by (intro exI [of _ ?l]) (simp add: header_line_def e s Let_def mime_of_def)
  next
    case True
    have n: "0x3b \<notin> set (take 14 l)"
    proof
      assume "0x3b \<in> set (take 14 l)"
      then have "lower 0x3b \<in> set (map lower (take 14 l))" by (simp del: take_append)
      then show False unfolding True by (simp add: lower_def)
    qed
    have l: "14 \<le> length l"
    proof -
      have "length (map lower (take 14 l)) = 14" unfolding True by simp
      then show ?thesis by simp
    qed
    let ?t = "takeWhile (\<lambda>x. x \<noteq> 0x3b) l"
    have t: "?t = take 14 l @ takeWhile (\<lambda>x. x \<noteq> 0x3b) (drop 14 l)"
      by (subst append_take_drop_id [of 14 l, symmetric], subst takeWhile_append2) (use n in auto)
    have td: "drop 14 ?t = takeWhile (\<lambda>x. x \<noteq> 0x3b) (drop 14 l)" unfolding t using l by simp
    have z0: "0 \<notin> set (drop 14 ?t)" using assms(5) by (metis in_set_dropD set_takeWhileD)
    have tl: "14 \<le> length ?t" unfolding t using l by simp
    define r where "r = (if 0x3b \<in> set l then Some (dropWhile (\<lambda>x. x \<noteq> 0x3b) l @ 0 # z) else None)"
    obtain z' where q: "(case r of None \<Rightarrow> ?l | Some r \<Rightarrow> ?l[length ?l - length r := 0]) = ?t @ 0 # z'"
    proof (cases "0x3b \<in> set l")
      case False
      then have "?t = l" by (auto simp: takeWhile_eq_all_conv)
      then show ?thesis by (intro that [of z]) (simp only: r_def False if_False option.case)
    next
      case s: True
      define d where "d = dropWhile (\<lambda>x. x \<noteq> 0x3b) l"
      have d: "l = ?t @ d" "d \<noteq> []" using s by (simp_all add: d_def)
      have "length ?l - length (d @ 0 # z) = length ?t" using arg_cong [OF d(1), of length] by simp
      moreover have "?l[length ?t := 0] = ?t @ 0 # tl d @ 0 # z" by (subst (1) d(1)) (use d(2) in \<open>cases d; simp\<close>)
      ultimately show ?thesis using that [of "tl d @ 0 # z"] s by (simp add: d_def r_def)
    qed
    have len: "length ?t + length z' = 199"
      using arg_cong [OF q, of length] z by (auto simp: r_def split: if_splits)
    have "strncpy 32 (drop 14 (?t @ 0 # z')) = strncpy 32 (drop 14 ?t @ 0 # z')" using tl by simp
    also have "\<dots> = Some (take 32 (drop 14 ?t @ replicate 32 0))" by (rule strncpy_spec [OF z0])
    finally have v: "strncpy 32 (drop 14 (?t @ 0 # z')) = Some (mime_of l (wc_mimetype w))" using True td by (simp add: mime_of_def)
    have st: "strchr 0x3b ?l = Some r"
      unfolding r_def by (rule strchr_string [OF assms(5)]) simp
    have "header_line w = Some (w\<lparr>httpheaderline := ?t @ 0 # z', wc_mimetype := mime_of l (wc_mimetype w)\<rparr>)"
      using True c(1) v q st by (simp add: header_line_def e s Let_def assms(7) del: drop_append take_append cong: option.case_cong)
    then show ?thesis using len by (intro exI [of _ "?t @ 0 # z'"]) simp
  qed
qed

subsection \<open>The bytes of an answer\<close>

text \<open>What the client knows of an answer: the phase, the type of the document and the bytes of the
  line that is being read.\<close>

type_synonym reply = "wc_phase \<times> u8 list \<times> u8 list"

definition reply_byte :: "reply \<Rightarrow> u8 \<Rightarrow> reply option" where
  "reply_byte p c = (case p of (ph, m, t) \<Rightarrow>
     if c = ISO_nl then
       (if ph = WEBCLIENT_STATE_STATUSLINE
        then if status_ok t then Some (WEBCLIENT_STATE_HEADERS, m, []) else None
        else if t = [ISO_cr] then Some (WEBCLIENT_STATE_DATA, m, [])
        else if t \<noteq> [] \<and> hd t \<noteq> ISO_cr \<and> 0 \<notin> set (butlast t) \<and> \<not> is_location (butlast t)
        then Some (ph, mime_of (butlast t) m, []) else None)
     else if length t < 199 then Some (ph, m, t @ [c]) else None)"

fun feed :: "u8 list \<Rightarrow> reply \<Rightarrow> (u8 list \<times> reply) option" where
  "feed [] p = Some ([], p)"
| "feed (c # cs) p = (if fst p = WEBCLIENT_STATE_DATA then Some (c # cs, p) else do {
     p \<leftarrow> reply_byte p c;
     feed cs p })"

lemma feed_append: "feed (xs @ ys) p = do { (r, p) \<leftarrow> feed xs p; feed (r @ ys) p }"
proof (induction xs arbitrary: p)
  case (Cons x xs)
  show ?case
  proof (cases "fst p = WEBCLIENT_STATE_DATA")
    case False
    then show ?thesis using Cons.IH by (cases "reply_byte p x") auto
  qed simp
qed simp

lemma feed_data: "fst p = WEBCLIENT_STATE_DATA \<Longrightarrow> feed xs p = Some (xs, p)"
  by (cases xs) simp_all

lemma feed_suffix: "feed xs p = Some (r, p') \<Longrightarrow> length r \<le> length xs \<and> r = drop (length xs - length r) xs"
proof (induction xs arbitrary: p)
  case (Cons x xs)
  show ?case
  proof (cases "fst p = WEBCLIENT_STATE_DATA")
    case False
    then obtain q where "feed xs q = Some (r, p')" using Cons.prems by (auto elim!: bind_SomeE)
    from Cons.IH [OF this] show ?thesis by (simp add: Suc_diff_le)
  qed (use Cons.prems in auto)
qed simp

lemma feed_rest: "feed xs p = Some (r, p') \<Longrightarrow> r = [] \<or> fst p' = WEBCLIENT_STATE_DATA"
  by (induction xs arbitrary: p) (auto split: if_splits elim!: bind_SomeE)

text \<open>The client in such a phase, with the whole request acknowledged.\<close>

definition at_phase :: "reply \<Rightarrow> 'w webclient_scheme \<Rightarrow> bool" where
  "at_phase p w \<longleftrightarrow> (case p of (ph, m, t) \<Rightarrow> wc_state w = ph \<and> wc_mimetype w = m \<and> length m = 32 \<and>
     length (httpheaderline w) = 200 \<and> ph \<noteq> WEBCLIENT_STATE_CLOSE \<and> getrequestleft w = 0 \<and>
     (ph \<noteq> WEBCLIENT_STATE_STATUSLINE \<longrightarrow> wc_flag w = HTTPFLAG_OK) \<and>
     (ph \<noteq> WEBCLIENT_STATE_DATA \<longrightarrow> length t < 200 \<and> httpheaderlineptr w = of_nat (length t) \<and>
       take (length t) (httpheaderline w) = t))"

text \<open>The client's state but for the fields that the parser changes.\<close>

definition same_client :: "'w webclient_scheme \<Rightarrow> 'w webclient_scheme \<Rightarrow> bool" where
  "same_client w w' \<longleftrightarrow> (\<exists>ph f l n m. w' = w\<lparr>wc_state := ph, wc_flag := f, httpheaderline := l, httpheaderlineptr := n, wc_mimetype := m\<rparr>)"

lemma same_client_refl: "same_client w w"
  unfolding same_client_def
  by (rule exI [of _ "wc_state w"], rule exI [of _ "wc_flag w"], rule exI [of _ "httpheaderline w"],
    rule exI [of _ "httpheaderlineptr w"], rule exI [of _ "wc_mimetype w"]) simp

lemma same_client_trans: "same_client w w' \<Longrightarrow> same_client w' w'' \<Longrightarrow> same_client w w''"
  unfolding same_client_def by (elim exE) (hypsubst, simp, blast)

definition data_at :: "u8 list \<Rightarrow> 'a uip \<Rightarrow> bool" where
  "data_at xs s \<longleftrightarrow> slice (uip_appdata s) (length xs) (uip_buf s) = Some xs"

lemma data_at_Cons:
  assumes "data_at (x # xs) s"
  shows "rd8_at (uip_appdata s) s = Some x" "data_at xs (s\<lparr>uip_appdata := Suc (uip_appdata s)\<rparr>)"
proof -
  have s: "uip_appdata s + Suc (length xs) \<le> length (uip_buf s)" "take (Suc (length xs)) (drop (uip_appdata s) (uip_buf s)) = x # xs"
    using assms by (auto simp: data_at_def slice_def split: if_splits)
  then have d: "drop (uip_appdata s) (uip_buf s) = uip_buf s ! uip_appdata s # drop (Suc (uip_appdata s)) (uip_buf s)"
    by (simp add: Cons_nth_drop_Suc)
  then show "rd8_at (uip_appdata s) s = Some x" "data_at xs (s\<lparr>uip_appdata := Suc (uip_appdata s)\<rparr>)"
    using s by (simp_all add: rd8_at_def rd8_def data_at_def slice_def)
qed

text \<open>The line holds \<open>t\<close>.\<close>

definition in_line :: "u8 list \<Rightarrow> 'w webclient_scheme \<Rightarrow> bool" where
  "in_line t w \<longleftrightarrow> length (httpheaderline w) = HEADERLINE_SIZE \<and> length t < 200 \<and>
     httpheaderlineptr w = of_nat (length t) \<and> take (length t) (httpheaderline w) = t"

lemma store_byte_line:
  assumes "in_line t w" "data_at (c # cs) s"
  shows "\<exists>z. store_byte w s = Some (c, w\<lparr>httpheaderline := t @ c # z\<rparr>, s\<lparr>uip_appdata := Suc (uip_appdata s)\<rparr>) \<and>
    length t + length z = 199 \<and> unat (httpheaderlineptr w) = length t"
proof -
  have a: "length (httpheaderline w) = 200" "length t < 200" "httpheaderlineptr w = of_nat (length t)"
    "take (length t) (httpheaderline w) = t" using assms(1) by (simp_all add: in_line_def)
  have n: "unat (httpheaderlineptr w) = length t" using a(2,3) by (simp only:) (subst unat_small; simp)
  have "(httpheaderline w)[length t := c] = t @ c # drop (Suc (length t)) (httpheaderline w)"
    using a(1,2,4) by (simp add: upd_conv_take_nth_drop)
  then show ?thesis using n a(1,2) data_at_Cons(1) [OF assms(2)]
    by (intro exI [of _ "drop (Suc (length t)) (httpheaderline w)"]) (simp add: store_byte_def)
qed

lemma store_byte_spec:
  assumes "at_phase (ph, m, t) w" "ph \<noteq> WEBCLIENT_STATE_DATA" "data_at (c # cs) s"
  shows "\<exists>z. store_byte w s = Some (c, w\<lparr>httpheaderline := t @ c # z\<rparr>, s\<lparr>uip_appdata := Suc (uip_appdata s)\<rparr>) \<and>
    length t + length z = 199 \<and> unat (httpheaderlineptr w) = length t"
  by (rule store_byte_line [OF _ assms(3)]) (use assms(1,2) in \<open>simp add: at_phase_def in_line_def\<close>)

lemma mime_length: "length m = 32 \<Longrightarrow> length (mime_of l m) = 32"
  by (simp add: mime_of_def min_def)

lemma parse_headers_feed:
  assumes "at_phase p w" "fst p = WEBCLIENT_STATE_HEADERS" "data_at xs s" "feed xs p = Some (r, p')"
  shows "\<exists>w'. parse_headers (length xs) w s = Some (length r, w', s\<lparr>uip_appdata := uip_appdata s + (length xs - length r)\<rparr>) \<and>
    at_phase p' w' \<and> same_client w w' \<and> length r \<le> length xs"
  using assms
proof (induction xs arbitrary: p w s)
  case Nil
  then show ?case by (auto simp: same_client_refl)
next
  case (Cons c cs)
  obtain m t where p: "p = (WEBCLIENT_STATE_HEADERS, m, t)" using Cons.prems(2) by (cases p) auto
  let ?s = "s\<lparr>uip_appdata := Suc (uip_appdata s)\<rparr>"
  obtain z where sb: "store_byte w s = Some (c, w\<lparr>httpheaderline := t @ c # z\<rparr>, ?s)" "length t + length z = 199"
    "unat (httpheaderlineptr w) = length t"
    using store_byte_spec [OF Cons.prems(1) [unfolded p] _ Cons.prems(3)] by auto
  have ap: "wc_mimetype w = m" "length m = 32" "getrequestleft w = 0" "wc_flag w = HTTPFLAG_OK" "httpheaderlineptr w = of_nat (length t)"
    "wc_state w = WEBCLIENT_STATE_HEADERS" "length t < 200"
    using Cons.prems(1) by (simp_all add: p at_phase_def)
  have d: "data_at cs ?s" by (rule data_at_Cons(2) [OF Cons.prems(3)])
  let ?w = "w\<lparr>httpheaderline := t @ c # z\<rparr>"
  obtain p1 where p1: "reply_byte p c = Some p1" "feed cs p1 = Some (r, p')"
    using Cons.prems(4) p by (auto elim!: bind_SomeE)
  have step: ?case if "parse_headers (length (c # cs)) w s = parse_headers (length cs) w1 ?s" "at_phase p1 w1"
    "fst p1 = WEBCLIENT_STATE_HEADERS" "same_client w w1" for w1
    using Cons.IH [OF that(2,3) d p1(2)] that(1,4) same_client_trans by (auto simp: Suc_diff_le)
  show ?case
  proof (cases "c = ISO_nl")
    case False
    let ?w1 = "?w\<lparr>httpheaderlineptr := httpheaderlineptr w + 1\<rparr>"
    have p1': "p1 = (WEBCLIENT_STATE_HEADERS, m, t @ [c])" "length t < 199"
      using p1(1) False p by (auto simp: reply_byte_def split: if_splits)
    show ?thesis
    proof (rule step [of ?w1])
      show "parse_headers (length (c # cs)) w s = parse_headers (length cs) ?w1 ?s" using sb False ap(7) by simp
      show "at_phase p1 ?w1" using p1' ap sb(2) by (simp add: at_phase_def)
      show "same_client w ?w1" unfolding same_client_def
        by (rule exI [of _ "wc_state w"], rule exI [of _ "wc_flag w"], rule exI [of _ "t @ c # z"],
          rule exI [of _ "httpheaderlineptr w + 1"], rule exI [of _ m]) (simp add: ap(1) [symmetric])
    qed (simp add: p1')
  next
    case nl: True
    show ?thesis
    proof (cases "t = [ISO_cr]")
      case True
      then have p1': "p1 = (WEBCLIENT_STATE_DATA, m, [])" using p1(1) nl p by (auto simp: reply_byte_def)
      let ?w1 = "?w\<lparr>wc_state := WEBCLIENT_STATE_DATA\<rparr>"
      have r: "r = cs" "p' = p1" using p1(2) feed_data [of p1 cs] p1' by auto
      have "parse_headers (length (c # cs)) w s = Some (length cs, ?w1, ?s)" using sb nl True by simp
      moreover have "at_phase p1 ?w1" using p1' ap sb(2) by (simp add: at_phase_def)
      moreover have "same_client w ?w1" unfolding same_client_def
        by (rule exI [of _ WEBCLIENT_STATE_DATA], rule exI [of _ "wc_flag w"], rule exI [of _ "t @ c # z"],
          rule exI [of _ "httpheaderlineptr w"], rule exI [of _ m]) (simp add: ap(1) [symmetric])
      ultimately show ?thesis using r by simp
    next
      case False
      then have t: "t \<noteq> []" "hd t \<noteq> ISO_cr" "0 \<notin> set (butlast t)" "\<not> is_location (butlast t)"
        and p1': "p1 = (WEBCLIENT_STATE_HEADERS, mime_of (butlast t) m, [])"
        using p1(1) nl p by (auto simp: reply_byte_def split: if_splits)
      have h: "httpheaderline ?w = butlast t @ last t # c # z" using t(1) by simp
      have lt: "length (butlast t) < 199" using ap(7) t(1) by (cases t rule: rev_cases) simp_all
      obtain l where l: "header_line ?w = Some (?w\<lparr>httpheaderline := l, wc_mimetype := mime_of (butlast t) m\<rparr>)" "length l = 200"
        using header_line_spec [OF h _ _ lt t(3,4)] ap(1,2,5,7) sb(2) t(1) by auto
      let ?w1 = "w\<lparr>httpheaderline := l, wc_mimetype := mime_of (butlast t) m, httpheaderlineptr := 0\<rparr>"
      show ?thesis
      proof (rule step [of ?w1])
        have "t ! 0 \<noteq> ISO_cr" using t(1,2) by (simp add: hd_conv_nth)
        then show "parse_headers (length (c # cs)) w s = parse_headers (length cs) ?w1 ?s"
          using sb nl l(1) ap(7) t(1) by (simp add: nth_append)
        show "at_phase p1 ?w1" using p1' ap(2-6) l(2) by (simp add: at_phase_def mime_length)
        show "same_client w ?w1" unfolding same_client_def
          by (rule exI [of _ "wc_state w"], rule exI [of _ "wc_flag w"], rule exI [of _ l], rule exI [of _ 0],
            rule exI [of _ "mime_of (butlast t) m"]) simp
      qed (simp add: p1')
    qed
  qed
qed

lemma parse_statusline_feed:
  assumes "at_phase p w" "fst p = WEBCLIENT_STATE_STATUSLINE" "data_at xs s" "feed xs p = Some (r, p')"
  shows "\<exists>w1 p1 k. parse_statusline cb (length xs) w s = Some (length xs - k, w1, s\<lparr>uip_appdata := uip_appdata s + k\<rparr>) \<and>
    k \<le> length xs \<and> data_at (drop k xs) (s\<lparr>uip_appdata := uip_appdata s + k\<rparr>) \<and> at_phase p1 w1 \<and> same_client w w1 \<and>
    feed (drop k xs) p1 = Some (r, p') \<and> (k = length xs \<or> fst p1 = WEBCLIENT_STATE_HEADERS)"
  using assms
proof (induction xs arbitrary: p w s)
  case Nil
  then show ?case by (intro exI [of _ w] exI [of _ p] exI [of _ 0]) (simp add: same_client_refl)
next
  case (Cons c cs)
  obtain m t where p: "p = (WEBCLIENT_STATE_STATUSLINE, m, t)" using Cons.prems(2) by (cases p) auto
  let ?s = "s\<lparr>uip_appdata := Suc (uip_appdata s)\<rparr>" and ?len = "length (c # cs)"
  obtain z where sb: "store_byte w s = Some (c, w\<lparr>httpheaderline := t @ c # z\<rparr>, ?s)" "length t + length z = 199"
    "unat (httpheaderlineptr w) = length t"
    using store_byte_spec [OF Cons.prems(1) [unfolded p] _ Cons.prems(3)] by auto
  have ap: "wc_mimetype w = m" "length m = 32" "getrequestleft w = 0" "httpheaderlineptr w = of_nat (length t)"
    "wc_state w = WEBCLIENT_STATE_STATUSLINE" "length t < 200"
    using Cons.prems(1) by (simp_all add: p at_phase_def)
  have d: "data_at cs ?s" by (rule data_at_Cons(2) [OF Cons.prems(3)])
  let ?w = "w\<lparr>httpheaderline := t @ c # z\<rparr>"
  obtain p1 where p1: "reply_byte p c = Some p1" "feed cs p1 = Some (r, p')"
    using Cons.prems(4) p by (auto elim!: bind_SomeE)
  show ?case
  proof (cases "c = ISO_nl")
    case False
    let ?w1 = "?w\<lparr>httpheaderlineptr := httpheaderlineptr w + 1\<rparr>"
    have p1': "p1 = (WEBCLIENT_STATE_STATUSLINE, m, t @ [c])" "length t < 199"
      using p1(1) False p by (auto simp: reply_byte_def split: if_splits)
    have a: "at_phase p1 ?w1" using p1' ap sb(2) by (simp add: at_phase_def)
    have c: "same_client w ?w1" unfolding same_client_def
      by (rule exI [of _ "wc_state w"], rule exI [of _ "wc_flag w"], rule exI [of _ "t @ c # z"],
        rule exI [of _ "httpheaderlineptr w + 1"], rule exI [of _ m]) (simp add: ap(1) [symmetric])
    have e: "parse_statusline cb ?len w s = parse_statusline cb (length cs) ?w1 ?s" using sb False ap(6) by simp
    obtain w2 p2 k where "parse_statusline cb (length cs) ?w1 ?s = Some (length cs - k, w2, ?s\<lparr>uip_appdata := uip_appdata ?s + k\<rparr>)"
      "k \<le> length cs" "data_at (drop k cs) (?s\<lparr>uip_appdata := uip_appdata ?s + k\<rparr>)" "at_phase p2 w2" "same_client ?w1 w2"
      "feed (drop k cs) p2 = Some (r, p')" "k = length cs \<or> fst p2 = WEBCLIENT_STATE_HEADERS"
      using Cons.IH [OF a _ d p1(2)] p1' by auto
    then show ?thesis using e same_client_trans [OF c]
      by (intro exI [of _ w2] exI [of _ p2] exI [of _ "Suc k"]) simp
  next
    case True
    have ok: "status_ok t" and p1': "p1 = (WEBCLIENT_STATE_HEADERS, m, [])"
      using p1(1) True p by (auto simp: reply_byte_def split: if_splits)
    let ?w1 = "?w\<lparr>wc_flag := HTTPFLAG_OK, httpheaderlineptr := 0, wc_state := WEBCLIENT_STATE_HEADERS\<rparr>"
    have "status_line ?w = Some (Some ?w1)" by (rule status_line_ok [OF ok, of _ "c # z"]) simp
    then have e: "parse_statusline cb ?len w s = Some (length cs, ?w1, ?s)" using sb True ap(6) by simp
    have a: "at_phase p1 ?w1" using p1' ap sb(2) by (simp add: at_phase_def)
    have c: "same_client w ?w1" unfolding same_client_def
      by (rule exI [of _ WEBCLIENT_STATE_HEADERS], rule exI [of _ HTTPFLAG_OK], rule exI [of _ "t @ c # z"], rule exI [of _ 0],
        rule exI [of _ m]) (simp add: ap(1) [symmetric])
    show ?thesis using e a c d p1(2) p1'
      by (intro exI [of _ ?w1] exI [of _ p1] exI [of _ "Suc 0"]) simp
  qed
qed

text \<open>The data of an event.\<close>

lemma wc_newdata_feed:
  assumes "at_phase p w" "data_at xs s" "uip_len s = of_nat (length xs)" "length xs < 65536" "feed xs p = Some (r, p')"
  shows "\<exists>w'. at_phase p' w' \<and> same_client w w' \<and> (let s' = s\<lparr>uip_appdata := uip_appdata s + (length xs - length r)\<rparr> in
    data_at r s' \<and> wc_newdata cb w s =
      (if r \<noteq> [] then cb (Webclient_datahandler (Some (uip_appdata s')) (of_nat (length r))) w' s' else Some (w', s')))"
proof -
  have st: "wc_state w = fst p" "wc_state w \<noteq> WEBCLIENT_STATE_CLOSE" using assms(1) by (cases p, simp add: at_phase_def)+
  have len: "unat (uip_len s) = length xs" using assms(3,4) by (simp add: unat_small)
  have fin: "r \<noteq> [] \<longrightarrow> wc_state w' = WEBCLIENT_STATE_DATA \<and> wc_flag w' = HTTPFLAG_OK" if "at_phase p' w'" for w'
    using that feed_rest [OF assms(5)] by (cases p') (auto simp: at_phase_def)
  have dr: "data_at (drop k xs) (s\<lparr>uip_appdata := uip_appdata s + k\<rparr>)" if "k \<le> length xs" for k
  proof -
    have a: "uip_appdata s + length xs \<le> length (uip_buf s)" "xs = take (length xs) (drop (uip_appdata s) (uip_buf s))"
      using assms(2) by (auto simp: data_at_def slice_def split: if_splits)
    have "drop k xs = take (length xs - k) (drop (uip_appdata s + k) (uip_buf s))"
      by (subst a(2)) (simp add: drop_take add.commute)
    then show ?thesis using that a(1) by (simp add: data_at_def slice_def)
  qed
  have r: "length r \<le> length xs" "data_at r (s\<lparr>uip_appdata := uip_appdata s + (length xs - length r)\<rparr>)"
    using feed_suffix [OF assms(5)] dr [of "length xs - length r"] by simp_all
  let ?s = "s\<lparr>uip_appdata := uip_appdata s + (length xs - length r)\<rparr>"
  show ?thesis
  proof (cases "wc_state w")
    case WEBCLIENT_STATE_DATA
    then have "r = xs" "p' = p" using feed_data [of p xs] st(1) assms(5) by auto
    moreover have "wc_flag w = HTTPFLAG_OK" using assms(1) WEBCLIENT_STATE_DATA by (cases p) (simp add: at_phase_def)
    ultimately show ?thesis using assms(1,2) WEBCLIENT_STATE_DATA len
      by (intro exI [of _ w]) (simp add: same_client_refl wc_newdata_def)
  next
    case WEBCLIENT_STATE_HEADERS
    obtain w' where h: "parse_headers (length xs) w s = Some (length r, w', ?s)" "at_phase p' w'" "same_client w w'"
      using parse_headers_feed [OF assms(1) _ assms(2,5)] WEBCLIENT_STATE_HEADERS st(1) by auto
    have "(if wc_state w = wc_phase.WEBCLIENT_STATE_HEADERS \<and> length xs > 0 then parse_headers (length xs) w s else Some (length xs, w, s)) =
        Some (length r, w', ?s)" using WEBCLIENT_STATE_HEADERS h(1) by (cases xs) auto
    then show ?thesis using WEBCLIENT_STATE_HEADERS h(2,3) r(2) fin [OF h(2)] len
      by (intro exI [of _ w']) (cases "r = []"; simp add: wc_newdata_def Let_def)
  next
    case WEBCLIENT_STATE_STATUSLINE
    obtain w1 p1 k where k: "parse_statusline cb (length xs) w s = Some (length xs - k, w1, s\<lparr>uip_appdata := uip_appdata s + k\<rparr>)"
      "k \<le> length xs" "data_at (drop k xs) (s\<lparr>uip_appdata := uip_appdata s + k\<rparr>)" "at_phase p1 w1" "same_client w w1"
      "feed (drop k xs) p1 = Some (r, p')" "k = length xs \<or> fst p1 = wc_phase.WEBCLIENT_STATE_HEADERS"
      using parse_statusline_feed [OF assms(1) _ assms(2,5), of cb] WEBCLIENT_STATE_STATUSLINE st(1) by auto
    show ?thesis
    proof (cases "k = length xs")
      case True
      then have "r = []" "p' = p1" using k(6) by auto
      then show ?thesis using k True r(2) len WEBCLIENT_STATE_STATUSLINE
        by (intro exI [of _ w1]) (simp add: wc_newdata_def)
    next
      case False
      then have ph: "fst p1 = wc_phase.WEBCLIENT_STATE_HEADERS" "wc_state w1 = wc_phase.WEBCLIENT_STATE_HEADERS" "0 < length xs - k"
        using k(2,4,7) by (auto, cases p1) (simp add: at_phase_def)
      obtain w' where h: "parse_headers (length xs - k) w1 (s\<lparr>uip_appdata := uip_appdata s + k\<rparr>) =
          Some (length r, w', s\<lparr>uip_appdata := uip_appdata s + k + (length xs - k - length r)\<rparr>)"
        "at_phase p' w'" "same_client w1 w'" "length r \<le> length xs - k"
        using parse_headers_feed [OF k(4) ph(1) k(3,6)] by auto
      have e: "uip_appdata s + k + (length xs - k - length r) = uip_appdata s + (length xs - length r)" using h(4) k(2) by simp
      show ?thesis using WEBCLIENT_STATE_STATUSLINE h(1) [unfolded e] h(2) same_client_trans [OF k(5) h(3)] r(2) fin [OF h(2)] len k(1) ph
        by (intro exI [of _ w']) (cases "r = []"; simp add: wc_newdata_def Let_def)
    qed
  qed (use st(2) in simp)
qed

subsection \<open>A document\<close>

text \<open>A user of the client that collects the data it is given.\<close>

record collector = webclient +
  wc_got :: "u8 list"

definition collect :: "(unit collector_ext, 'a) wc_user" where
  "collect call w s = (case call of
     Webclient_datahandler (Some p) n \<Rightarrow> do {
       d \<leftarrow> slice p (unat n) (uip_buf s);
       Some (w\<lparr>wc_got := wc_got w @ d\<rparr>, s) }
   | _ \<Rightarrow> Some (w, s))"

text \<open>An event that brings \<open>xs\<close>, and the bytes of an answer.\<close>

definition carries :: "u8 list \<Rightarrow> 'a uip \<Rightarrow> bool" where
  "carries xs s \<longleftrightarrow> uip_flags s = UIP_NEWDATA \<and> uip_len s = of_nat (length xs) \<and> length xs < 65536 \<and> data_at xs s"

definition answer_bytes :: "u8 list \<Rightarrow> u8 list list \<Rightarrow> u8 list \<Rightarrow> u8 list" where
  "answer_bytes st ls body = st @ [ISO_cr, ISO_nl] @ concat (map (\<lambda>l. l @ [ISO_cr, ISO_nl]) ls) @ [ISO_cr, ISO_nl] @ body"

definition hdr_ok :: "u8 list \<Rightarrow> bool" where
  "hdr_ok l \<longleftrightarrow> l \<noteq> [] \<and> hd l \<noteq> ISO_cr \<and> ISO_nl \<notin> set l \<and> 0 \<notin> set l \<and> length l \<le> 198 \<and> \<not> is_location l"

lemma feed_line:
  "ISO_nl \<notin> set bs \<Longrightarrow> length (t @ bs) \<le> 199 \<Longrightarrow> ph \<noteq> WEBCLIENT_STATE_DATA \<Longrightarrow>
   feed (bs @ ys) (ph, m, t) = feed ys (ph, m, t @ bs)"
proof (induction bs arbitrary: t)
  case (Cons b bs)
  then have "feed (bs @ ys) (ph, m, t @ [b]) = feed ys (ph, m, (t @ [b]) @ bs)" by (intro Cons.IH) auto
  then show ?case using Cons.prems by (simp add: reply_byte_def)
qed simp

lemma feed_headers:
  assumes "\<forall>l \<in> set ls. hdr_ok l"
  shows "feed (concat (map (\<lambda>l. l @ [ISO_cr, ISO_nl]) ls) @ [ISO_cr, ISO_nl] @ body) (WEBCLIENT_STATE_HEADERS, m, []) =
    Some (body, (WEBCLIENT_STATE_DATA, fold mime_of ls m, []))"
  using assms
proof (induction ls arbitrary: m)
  case Nil
  then show ?case by (simp add: reply_byte_def feed_data)
next
  case (Cons l ls)
  let ?ys = "concat (map (\<lambda>l. l @ [ISO_cr, ISO_nl]) ls) @ [ISO_cr, ISO_nl] @ body"
  have l: "hdr_ok l" using Cons.prems by simp
  have "feed ((l @ [ISO_cr]) @ ISO_nl # ?ys) (WEBCLIENT_STATE_HEADERS, m, []) =
      feed (ISO_nl # ?ys) (WEBCLIENT_STATE_HEADERS, m, [] @ l @ [ISO_cr])"
    by (rule feed_line) (use l in \<open>auto simp: hdr_ok_def\<close>)
  also have "\<dots> = feed ?ys (WEBCLIENT_STATE_HEADERS, mime_of l m, [])"
    using l by (simp add: reply_byte_def hdr_ok_def)
  also have "\<dots> = Some (body, (WEBCLIENT_STATE_DATA, fold mime_of ls (mime_of l m), []))"
    using Cons.IH Cons.prems by simp
  finally show ?case by simp
qed

lemma feed_answer:
  assumes "status_ok st" "ISO_nl \<notin> set st" "length st \<le> 198" "\<forall>l \<in> set ls. hdr_ok l"
  shows "feed (answer_bytes st ls body) (WEBCLIENT_STATE_STATUSLINE, m, []) =
    Some (body, (WEBCLIENT_STATE_DATA, fold mime_of ls m, []))"
proof -
  let ?ys = "concat (map (\<lambda>l. l @ [ISO_cr, ISO_nl]) ls) @ [ISO_cr, ISO_nl] @ body"
  have "feed ((st @ [ISO_cr]) @ ISO_nl # ?ys) (WEBCLIENT_STATE_STATUSLINE, m, []) =
      feed (ISO_nl # ?ys) (WEBCLIENT_STATE_STATUSLINE, m, [] @ st @ [ISO_cr])"
    by (rule feed_line) (use assms in auto)
  moreover have "status_ok (st @ [ISO_cr])" using assms(1) by (simp add: status_ok_def)
  ultimately show ?thesis
    using feed_headers [OF assms(4)] by (simp add: answer_bytes_def reply_byte_def)
qed

lemma at_phase_timer: "at_phase p w \<Longrightarrow> at_phase p (w\<lparr>wc_timer := t\<rparr>)"
  by (cases p) (simp add: at_phase_def)

lemma same_client_got: "same_client w w' \<Longrightarrow> wc_got w' = wc_got w"
  by (auto simp: same_client_def)

lemma collect_event:
  assumes "at_phase p w" "carries xs s" "feed xs p = Some (r, p')"
  shows "\<exists>w' s'. webclient_appcall collect w s = Some (w', s') \<and> at_phase p' w' \<and> wc_got w' = wc_got w @ r"
proof -
  have c: "uip_flags s = UIP_NEWDATA" "uip_len s = of_nat (length xs)" "length xs < 65536" "data_at xs s"
    using assms(2) by (simp_all add: carries_def)
  let ?w = "w\<lparr>wc_timer := 0\<rparr>" and ?s = "s\<lparr>uip_appdata := uip_appdata s + (length xs - length r)\<rparr>"
  obtain w1 where w1: "at_phase p' w1" "same_client ?w w1" "data_at r ?s" "wc_newdata collect ?w s =
      (if r \<noteq> [] then collect (Webclient_datahandler (Some (uip_appdata ?s)) (of_nat (length r))) w1 ?s else Some (w1, ?s))"
    using wc_newdata_feed [OF at_phase_timer [OF assms(1)] c(4,2,3) assms(3), of 0 collect] by (auto simp: Let_def)
  have g: "wc_got w1 = wc_got w" using same_client_got [OF w1(2)] by simp
  have l: "unat (of_nat (length r) :: u16) = length r"
    using feed_suffix [OF assms(3)] c(3) by (intro unat_small) simp
  have "slice (uip_appdata ?s) (unat (of_nat (length r) :: u16)) (uip_buf ?s) = Some r"
    using w1(3) l by (simp add: data_at_def)
  then have n: "wc_newdata collect ?w s = Some (w1\<lparr>wc_got := wc_got w @ r\<rparr>, ?s)"
    using w1(4) g by (cases "r = []") (simp_all add: collect_def)
  let ?w' = "w1\<lparr>wc_got := wc_got w @ r\<rparr>"
  have a: "at_phase p' ?w'" using w1(1) by (cases p') (simp add: at_phase_def)
  have "getrequestleft ?w' = 0" using a by (cases p') (simp add: at_phase_def)
  then have "wc_senddata ?w' ?s = Some ?s" by (simp add: wc_senddata_def)
  moreover have "wc_state w \<noteq> WEBCLIENT_STATE_CLOSE" using assms(1) by (cases p) (auto simp: at_phase_def)
  ultimately have "webclient_appcall collect w s = Some (?w', ?s)"
    using n c(1) by (simp add: webclient_appcall_def uip_acked_def uip_newdata_def wc_closed_def)
  then show ?thesis using a by auto
qed

lemma collect_run:
  assumes "at_phase p w" "list_all2 carries xss es" "feed (concat xss) p = Some (r, p')"
  shows "\<exists>w' os. wc_run collect w es = Some (w', os) \<and> at_phase p' w' \<and> wc_got w' = wc_got w @ r"
  using assms(2,1,3)
proof (induction xss es arbitrary: p w r rule: list_all2_induct)
  case Nil
  then show ?case by auto
next
  case (Cons xs xss s es)
  obtain r1 p1 where 1: "feed xs p = Some (r1, p1)" "feed (r1 @ concat xss) p1 = Some (r, p')"
    using Cons.prems(2) feed_append [of xs "concat xss" p] by (auto elim!: bind_SomeE)
  obtain r2 where 2: "feed (concat xss) p1 = Some (r2, p')" "r = r1 @ r2"
  proof (cases "r1 = []")
    case True
    then show ?thesis using 1(2) that [of r] by simp
  next
    case False
    then have d: "fst p1 = WEBCLIENT_STATE_DATA" using feed_rest [OF 1(1)] by simp
    then have "r = r1 @ concat xss" "p' = p1" using 1(2) feed_data [OF d, of "r1 @ concat xss"] by simp_all
    then show ?thesis using that [of "concat xss"] feed_data [OF d, of "concat xss"] by simp
  qed
  obtain w1 s1 where w1: "webclient_appcall collect w s = Some (w1, s1)" "at_phase p1 w1" "wc_got w1 = wc_got w @ r1"
    using collect_event [OF Cons.prems(1) Cons.hyps(1) 1(1)] by auto
  obtain w' os where "wc_run collect w1 es = Some (w', os)" "at_phase p' w'" "wc_got w' = wc_got w1 @ r2"
    using Cons.IH [OF w1(2) 2(1)] by blast
  then show ?case using w1 2(2) by simp
qed

text \<open>C24: A document is fetched. When the answer with status 200 to a request that is sent and acknowledged
  comes, in whatever segments, the user of the client is given the bytes of the document and no
  others, in order, and the document's type is the value of the last \<^verbatim>\<open>Content-Type\<close> line,
  up to a semicolon and cut to 32 characters.\<close>

theorem webclient_gets_document:
  assumes "wc_state w = WEBCLIENT_STATE_STATUSLINE" "httpheaderlineptr w = 0" "getrequestleft w = 0"
    and "length (httpheaderline w) = HEADERLINE_SIZE" "length (wc_mimetype w) = 32"
    and "list_all2 carries xss es" "concat xss = answer_bytes st ls body"
    and "status_ok st" "ISO_nl \<notin> set st" "length st \<le> 198" "\<forall>l \<in> set ls. hdr_ok l"
  shows "\<exists>w' os. wc_run collect w es = Some (w', os) \<and> wc_got w' = wc_got w @ body \<and>
    wc_mimetype w' = fold mime_of ls (wc_mimetype w) \<and> wc_state w' = WEBCLIENT_STATE_DATA \<and> wc_flag w' = HTTPFLAG_OK"
proof -
  have a: "at_phase (WEBCLIENT_STATE_STATUSLINE, wc_mimetype w, []) w" using assms(1-5) by (simp add: at_phase_def)
  have f: "feed (concat xss) (WEBCLIENT_STATE_STATUSLINE, wc_mimetype w, []) =
      Some (body, (WEBCLIENT_STATE_DATA, fold mime_of ls (wc_mimetype w), []))"
    unfolding assms(7) by (rule feed_answer [OF assms(8-11)])
  show ?thesis using collect_run [OF a assms(6) f] by (auto simp: at_phase_def)
qed

subsection \<open>Lines that do not fit\<close>

lemma copy_host_long:
  assumes "length host - i < n" "cptr + (length host - i) \<le> length line" "i \<le> length host"
    and "\<forall>j < length host - i. line ! (cptr + j) \<notin> {0, 0x2f, ISO_space, 0x3a}"
  shows "copy_host n line cptr i host = None"
  using assms
proof (induction n arbitrary: cptr i host)
  case (Suc n)
  show ?case
  proof (cases "cptr < length line \<and> i < length host")
    case True
    let ?host = "host[i := line ! cptr]"
    have e: "length host - i = Suc (length host - Suc i)" using True by arith
    have "copy_host n line (Suc cptr) (Suc i) ?host = None"
    proof (rule Suc.IH)
      show "\<forall>j < length ?host - Suc i. line ! (Suc cptr + j) \<notin> {0, 0x2f, ISO_space, 0x3a}"
        using Suc.prems(4) by (metis add_Suc_shift e length_list_update not_less_eq)
    qed (use Suc.prems e True in auto)
    moreover have "line ! cptr \<notin> {0, 0x2f, ISO_space, 0x3a}" using Suc.prems(4) e by (metis add_0_right zero_less_Suc)
    ultimately show ?thesis by simp
  qed auto
qed simp

lemma parse_headers_scan:
  assumes "in_line t w" "ISO_nl \<notin> set bs" "length (t @ bs) \<le> 199" "data_at (bs @ ys) s"
  shows "\<exists>l n s'. parse_headers (length (bs @ ys)) w s = parse_headers (length ys) (w\<lparr>httpheaderline := l, httpheaderlineptr := n\<rparr>) s' \<and>
    in_line (t @ bs) (w\<lparr>httpheaderline := l, httpheaderlineptr := n\<rparr>) \<and> data_at ys s'"
  using assms
proof (induction bs arbitrary: t w s)
  case Nil
  then show ?case by (intro exI [of _ "httpheaderline w"] exI [of _ "httpheaderlineptr w"] exI [of _ s]) simp
next
  case (Cons b bs)
  let ?s = "s\<lparr>uip_appdata := Suc (uip_appdata s)\<rparr>"
  obtain z where sb: "store_byte w s = Some (b, w\<lparr>httpheaderline := t @ b # z\<rparr>, ?s)" "length t + length z = 199"
    "unat (httpheaderlineptr w) = length t"
    using store_byte_line [OF Cons.prems(1), of b "bs @ ys" s] Cons.prems(4) by auto
  let ?w = "w\<lparr>httpheaderline := t @ b # z, httpheaderlineptr := httpheaderlineptr w + 1\<rparr>"
  have e: "parse_headers (length ((b # bs) @ ys)) w s = parse_headers (length (bs @ ys)) ?w ?s"
    using sb Cons.prems(2,3) by simp
  have "in_line (t @ [b]) ?w" using Cons.prems(1,3) sb(2) by (simp add: in_line_def)
  moreover have "data_at (bs @ ys) ?s" using data_at_Cons(2) Cons.prems(4) by simp
  ultimately obtain l n s' where "parse_headers (length (bs @ ys)) ?w ?s =
      parse_headers (length ys) (?w\<lparr>httpheaderline := l, httpheaderlineptr := n\<rparr>) s'"
    "in_line ((t @ [b]) @ bs) (?w\<lparr>httpheaderline := l, httpheaderlineptr := n\<rparr>)" "data_at ys s'"
    using Cons.IH [of "t @ [b]" ?w ?s] Cons.prems(2,3) by auto
  then show ?case using e by (intro exI [of _ l] exI [of _ n] exI [of _ s']) simp
qed

lemma header_line_long_host:
  assumes "httpheaderline w = t @ z" "httpheaderlineptr w = of_nat (length t)" "length (httpheaderline w) = 200" "length t < 200"
    and "t = map of_char ''Location: http://'' @ host @ tail @ [x]" "length host = 40" "length (wc_host w) = 40"
    and "{0, 0x2f, ISO_space, 0x3a} \<inter> set host = {}"
  shows "header_line w = None"
proof -
  let ?t = "map of_char ''Location: http://'' @ host @ tail"
  let ?l = "?t @ 0 # z"
  have e: "end_line w = Some (w\<lparr>httpheaderline := ?l\<rparr>)"
    by (rule end_line_spec [where x = x]) (use assms(1-5) in simp_all)
  have len: "length ?l = 200" using assms(1,3,5) by simp
  have s: "size1 wc_http_content_type = 14" "size1 wc_http_location = 10"
    by (simp_all add: size1_def wc_http_content_type_def wc_http_location_def cstring_def)
  have c: "casecmp 14 ?l wc_http_content_type = Some False" "casecmp 10 ?l wc_http_location = Some True"
    using len by (subst casecmp_take; simp add: wc_http_content_type_def wc_http_location_def cstring_def lower_def)+
  have h: "strncmp_eq 7 (drop 10 ?l) wc_http_http = Some True"
    using len by (subst strncmp_eq_take; simp add: wc_http_http_def cstring_def)
  have "unat (httpheaderlineptr w) = length t" using assms(2,4) by (simp only:) (subst unat_small; simp)
  moreover have "?l ! (17 + j) = host ! j" if "j < 40" for j
    using that assms(6) by (simp add: nth_append)
  moreover have "host ! j \<notin> {0, 0x2f, ISO_space, 0x3a}" if "j < 40" for j
    using that assms(6,8) nth_mem [of j host] by (metis disjoint_iff)
  ultimately have "copy_host (unat (httpheaderlineptr w) - 7) ?l 17 0 (wc_host w) = None"
    by (intro copy_host_long) (use assms(5-7) len in simp_all)
  then show ?thesis using c h by (simp add: header_line_def e s Let_def)
qed

text \<open>C40: Two kinds of header lines make the client write outside its arrays: an empty line that is
  ended by a newline alone, which sets the byte in front of the line's array, and a redirection to a host
  with a name of forty characters or more, which is copied past the array of the host's name.\<close>

theorem webclient_header_overflow:
  assumes "wc_state w = WEBCLIENT_STATE_HEADERS" "httpheaderlineptr w = 0" "length (httpheaderline w) = HEADERLINE_SIZE"
    and "length (wc_host w) = 40" "data_at xs s" "uip_len s = of_nat (length xs)" "length xs \<le> 199"
    and "xs = [ISO_nl] @ rest \<or> xs = map of_char ''Location: http://'' @ host @ tail @ [ISO_cr, ISO_nl] @ rest \<and>
      length host = 40 \<and> ISO_nl \<notin> set (host @ tail) \<and> {0, 0x2f, ISO_space, 0x3a} \<inter> set host = {}"
  shows "wc_newdata cb w s = None"
proof -
  have len: "unat (uip_len s) = length xs" using assms(6,7) by (simp add: unat_small)
  have i: "in_line [] w" using assms(2,3) by (simp add: in_line_def)
  have "xs \<noteq> []" using assms(8) by auto
  moreover have "parse_headers (length xs) w s = None"
  proof (cases "hd xs = ISO_nl")
    case True
    then obtain rest where xs: "xs = ISO_nl # rest" using assms(8) by auto
    obtain z where "store_byte w s = Some (ISO_nl, w\<lparr>httpheaderline := ISO_nl # z\<rparr>, s\<lparr>uip_appdata := Suc (uip_appdata s)\<rparr>)"
      using store_byte_line [OF i, of ISO_nl rest s] assms(5) xs by auto
    then show ?thesis using xs assms(2) by (simp add: header_line_def end_line_def)
  next
    case False
    let ?t = "map of_char ''Location: http://'' @ host @ tail @ [ISO_cr]"
    have x: "xs = ?t @ ISO_nl # rest" "length host = 40" "ISO_nl \<notin> set ?t" "{0, 0x2f, ISO_space, 0x3a} \<inter> set host = {}"
      using assms(8) False by auto
    obtain l n s' where p: "parse_headers (length xs) w s = parse_headers (length (ISO_nl # rest)) (w\<lparr>httpheaderline := l, httpheaderlineptr := n\<rparr>) s'"
      "in_line ?t (w\<lparr>httpheaderline := l, httpheaderlineptr := n\<rparr>)" "data_at (ISO_nl # rest) s'"
      using parse_headers_scan [OF i x(3), of "ISO_nl # rest" s] assms(5,7) x(1) by auto
    let ?w = "w\<lparr>httpheaderline := l, httpheaderlineptr := n\<rparr>"
    obtain z where sb: "store_byte ?w s' = Some (ISO_nl, ?w\<lparr>httpheaderline := ?t @ ISO_nl # z\<rparr>, s'\<lparr>uip_appdata := Suc (uip_appdata s')\<rparr>)"
      "length ?t + length z = 199" "unat (httpheaderlineptr ?w) = length ?t"
      using store_byte_line [OF p(2,3)] by auto
    have lt: "length ?t < 200" using sb(2) by linarith
    have "header_line (?w\<lparr>httpheaderline := ?t @ ISO_nl # z\<rparr>) = None"
      by (rule header_line_long_host [OF _ _ _ lt _ x(2) _ x(4)]) (use p(2) sb(2) assms(4) in \<open>simp_all add: in_line_def\<close>)
    then show ?thesis using p(1,2) sb by (simp add: in_line_def)
  qed
  ultimately show ?thesis using assms(1) len by (simp add: wc_newdata_def)
qed

end
