(* ===== verification/UipAppSamples.thy ===== *)
theory UipAppSamples
  imports UipResolves UipDhcpThread UipWebReply UipSamples
begin

text \<open>
  The theorems on the other applications of the stack at work, on small concrete states and events.
\<close>

subsection \<open>Resolver\<close>

text \<open>An event of the resolver's UDP connection.\<close>

definition dns_event :: "u8 \<Rightarrow> u8 list \<Rightarrow> unit uip" where
  "dns_event f msg = bss_uip\<lparr>uip_udp_conn := Some 0, uip_flags := f, uip_appdata := 42, uip_sappdata := 42,
     uip_udp_conns := (uip_udp_conns bss_uip)[0 := \<lparr>u_ripaddr = (0, 0), u_lport = 1, u_rport = HTONS 53, u_ttl = 64\<rparr>],
     uip_buf := replicate 42 0 @ msg @ replicate (380 - length msg) 0\<rparr>"

definition bss_resolv :: resolv where
  "bss_resolv = \<lparr>nm_names = replicate 4 \<lparr>nm_state = STATE_UNUSED, nm_tmr = 0, nm_retries = 0, nm_seqno = 0, nm_err = 0,
     nm_name = replicate 32 0, nm_ipaddr = (0, 0)\<rparr>, nm_next = 0, resolv_conn = Some 0\<rparr>"

text \<open>A resolver's user that only goes on.\<close>

definition deaf_user :: "(unit, unit) on_found" where
  "deaf_user nm a r s = Some (r, s)"

definition demo_name :: "u8 list" where
  "demo_name = map of_char ''a.bc''"

text \<open>An alias and the address 10.0.0.7.\<close>

definition demo_answer :: "rr list" where
  "demo_answer = [\<lparr>rr_name = Labels [[0x61], [0x62, 0x63]], rr_type = 5, rr_class = 1, rr_ttl = [0, 0, 1, 0], rr_data = [1, 0x64, 0]\<rparr>,
     \<lparr>rr_name = Pointer 0xc0 41, rr_type = 1, rr_class = 1, rr_ttl = [0, 0, 1, 0], rr_data = [10, 0, 0, 7]\<rparr>]"

lemma replicate_4: "replicate 4 x = [x, x, x, x]"
  by (simp add: numeral_eq_Suc)

lemma less_4: "j < 4 \<longleftrightarrow> j \<in> {0, 1, 2, 3 :: nat}"
  by auto

lemma dns_event_ok: "udp_event f (dns_event f msg)"
  by (simp add: udp_event_def dns_event_def bss_uip_def)

lemma dns_poll_event: "length msg \<le> 380 \<Longrightarrow> poll_event (dns_event UIP_POLL msg)"
  using dns_event_ok [of UIP_POLL msg] by (simp add: poll_event_def room_def) (simp add: dns_event_def)

lemma brings_answer_event:
  assumes "\<forall>x \<in> set rrs. rr_ok x" "length rrs < 256" "labels_ok ls"
  shows "brings_answer i rrs (dns_event UIP_NEWDATA (dns_answer i 0x81 0x80 [0, 0, 0, 0] ls [0, 1, 0, 1] rrs))"
proof -
  let ?m = "dns_answer i 0x81 0x80 [0, 0, 0, 0] ls [0, 1, 0, 1] rrs"
  have "uip_buf (dns_event UIP_NEWDATA ?m) = replicate 42 0 @ ?m @ replicate (380 - length ?m) 0"
    "uip_appdata (dns_event UIP_NEWDATA ?m) = length (replicate 42 (0 :: u8))" by (simp_all add: dns_event_def)
  moreover have "(0x80 :: u8) AND 0x0f = 0" "length [0, 0, 0, 0 :: u8] = 4" "length [0, 1, 0, 1 :: u8] = 4" by simp_all
  ultimately show ?thesis
    using assms dns_event_ok [of UIP_NEWDATA ?m] unfolding brings_answer_def by blast
qed

lemma demo_answer_ok: "\<forall>x \<in> set demo_answer. rr_ok x" "length demo_answer < 256" "labels_ok [[0x61], [0x62, 0x63]]"
  by (simp_all add: demo_answer_def rr_ok_def labels_ok_def)

lemma demo_address: "first_address demo_answer = Some (10, 0x700)"
  by (simp add: demo_answer_def) (simp add: mk16_def)

theorem resolv_resolves_name_witness:
  "\<exists>r1 r2 r3 rest. resolv_query (demo_name @ [0]) bss_resolv = Some r1 \<and>
    resolv_appcall deaf_user r1 (dns_event UIP_POLL []) = Some (r2, put_chunk (question 0 demo_name) (dns_event UIP_POLL [])) \<and>
    resolv_appcall deaf_user r2 (dns_event UIP_NEWDATA (dns_answer 0 0x81 0x80 [0, 0, 0, 0] [[0x61], [0x62, 0x63]] [0, 1, 0, 1] demo_answer)) =
      deaf_user (demo_name @ 0 # rest) (Some (10, 0x700)) r3
        (dns_event UIP_NEWDATA (dns_answer 0 0x81 0x80 [0, 0, 0, 0] [[0x61], [0x62, 0x63]] [0, 1, 0, 1] demo_answer)) \<and>
    resolv_lookup (demo_name @ [0]) r3 = Some (Some (10, 0x700))"
proof -
  let ?s = "dns_event UIP_NEWDATA (dns_answer 0 0x81 0x80 [0, 0, 0, 0] [[0x61], [0x62, 0x63]] [0, 1, 0, 1] demo_answer)"
  have r: "length (nm_names bss_resolv) = 4" "\<forall>e \<in> set (nm_names bss_resolv). length (nm_name e) = 32"
    "0 = query_slot (nm_next bss_resolv) (nm_names bss_resolv) 0 0 0" "\<forall>j < 4. j \<noteq> 0 \<longrightarrow> idle_entry (nm_names bss_resolv ! j)"
    by (simp_all add: bss_resolv_def idle_entry_def replicate_4 less_4)
  have n: "0 \<notin> set demo_name" "length demo_name < 32" by (simp_all add: demo_name_def)
  have p: "poll_event (dns_event UIP_POLL [])" by (rule dns_poll_event) simp
  have b: "brings_answer 0 demo_answer ?s" by (rule brings_answer_event [OF demo_answer_ok])
  show ?thesis
    by (rule resolv_resolves_name [OF r n _ p b demo_address]) simp
qed

theorem resolv_stale_address_witness:
  "\<exists>r' r1. asking 0 demo_name r1 \<and>
    resolv_appcall deaf_user r1 (dns_event UIP_NEWDATA (dns_answer 0 0x81 0x80 [0, 0, 0, 0] [[0x61]] [0, 1, 0, 1] [])) =
      Some (r', dns_event UIP_NEWDATA (dns_answer 0 0x81 0x80 [0, 0, 0, 0] [[0x61]] [0, 1, 0, 1] [])) \<and>
    resolv_lookup (demo_name @ [0]) r' = Some (Some (10, 0x900))"
proof -
  define e where "e = \<lparr>nm_state = STATE_ASKING, nm_tmr = 1, nm_retries = 0, nm_seqno = 0, nm_err = 0,
     nm_name = demo_name @ 0 # replicate 27 0, nm_ipaddr = (10, 0x900)\<rparr>"
  define r1 where "r1 = upd_name 0 e bss_resolv"
  have e: "nm_names r1 ! 0 = e" by (simp add: r1_def upd_name_def bss_resolv_def)
  have a: "asking 0 demo_name r1"
    unfolding asking_def e by (simp add: r1_def upd_name_def bss_resolv_def e_def demo_name_def)
  have b: "brings_answer 0 [] (dns_event UIP_NEWDATA (dns_answer 0 0x81 0x80 [0, 0, 0, 0] [[0x61]] [0, 1, 0, 1] []))"
    by (rule brings_answer_event) (simp_all add: labels_ok_def)
  show ?thesis
    using resolv_stale_address [OF a b, of deaf_user "[]"] a unfolding e by (auto simp: e_def)
qed

theorem resolv_gives_up_witness:
  "\<exists>r0 r1 r'. nm_state (nm_names r0 ! 0) = STATE_NEW \<and>
    poll_run deaf_user r0 (replicate 29 (dns_event UIP_POLL [])) =
      Some (map2 (asked 0 demo_name) asking_events (replicate 29 (dns_event UIP_POLL [])), r1) \<and>
    resolv_appcall deaf_user r1 (dns_event UIP_POLL []) = Some (r', dns_event UIP_POLL []) \<and>
    nm_state (nm_names r' ! 0) = STATE_ERROR"
proof -
  define e where "e = \<lparr>nm_state = STATE_NEW, nm_tmr = 0, nm_retries = 0, nm_seqno = 0, nm_err = 0,
     nm_name = demo_name @ 0 # replicate 27 0, nm_ipaddr = (0, 0)\<rparr>"
  define r0 where "r0 = upd_name 0 e bss_resolv"
  have e: "nm_names r0 ! 0 = e" by (simp add: r0_def upd_name_def bss_resolv_def)
  have o: "only_entry 0 demo_name r0"
    unfolding only_entry_def e
    by (simp add: r0_def upd_name_def bss_resolv_def e_def demo_name_def idle_entry_def replicate_4 less_4)
  have n: "nm_state (nm_names r0 ! 0) = STATE_NEW" unfolding e by (simp add: e_def)
  have p: "poll_event (dns_event UIP_POLL [])" by (rule dns_poll_event) simp
  show ?thesis
    using resolv_gives_up [OF o n, of "replicate 29 (dns_event UIP_POLL [])" "dns_event UIP_POLL []" deaf_user] p n
    by (auto simp: deaf_user_def)
qed

subsection \<open>DHCP client\<close>

definition bss_dhcpc :: dhcpc_state where
  "bss_dhcpc = \<lparr>dhcpt = 0, dphase = STATE_INITIAL, dconn = Some 0, dtimer = \<lparr>t_start = 0, t_interval = 0\<rparr>, dticks = 0,
     mac_addr = [2, 0, 0, 0, 0, 1], mac_len = 6, serverid = replicate 4 0, lease_time = replicate 4 0,
     dipaddr = replicate 4 0, dnetmask = replicate 4 0, dnsaddr = replicate 4 0, default_router = replicate 4 0\<rparr>"

text \<open>An offer of 10.0.0.7 with a mask and a router.\<close>

definition demo_options :: "(u8 \<times> u8 list) list" where
  "demo_options = [(53, [2]), (1, [255, 0, 0, 0]), (3, [10, 0, 0, 1]), (99, [])]"

definition offer_event :: "unit uip" where
  "offer_event = bss_uip\<lparr>uip_appdata := 42, uip_len := 260, uip_buf := replicate 42 0 @ [2, 1, 6, 0] @ xid @ replicate 8 0 @
     [10, 0, 0, 7] @ replicate 8 0 @ take (nat (mac_len bss_dhcpc)) (mac_addr bss_dhcpc) @ replicate 206 0 @
     concat (map enc_option demo_options) @ 255 # replicate 20 0\<rparr>"

lemma dhcp_event_ok: "length msg \<le> 380 \<Longrightarrow> dhcp_ok bss_dhcpc (dns_event f msg)"
  by (simp add: dhcp_ok_def bss_dhcpc_def room_def) (simp add: dns_event_def)

theorem dhcpc_never_configures_witness:
  "dhcp_run (\<lambda>d s. None) bss_dhcpc [(5, dns_event UIP_POLL []), (2000, dns_event UIP_NEWDATA [2])] =
    dhcp_run (\<lambda>d s. Some s) bss_dhcpc [(5, dns_event UIP_POLL []), (2000, dns_event UIP_NEWDATA [2])] \<and>
   pred_option (\<lambda>d'. dhcpt d' \<in> {0, 259} \<and> dphase d' \<noteq> STATE_CONFIG_RECEIVED)
     (dhcp_run (\<lambda>d s. None) bss_dhcpc [(5, dns_event UIP_POLL []), (2000, dns_event UIP_NEWDATA [2])])"
proof -
  have p: "pred_option P x \<longleftrightarrow> (\<forall>y. x = Some y \<longrightarrow> P y)" for P and x :: "dhcpc_state option" by (cases x) auto
  show ?thesis
    unfolding p by (rule dhcpc_never_configures) (simp_all add: bss_dhcpc_def dns_event_def)
qed

theorem dhcpc_reply_hangs_witness:
  "uip_newdata (dns_event UIP_NEWDATA [2]) \<and> handle_dhcp (\<lambda>d s. Some s) 7 bss_dhcpc (dns_event UIP_NEWDATA [2]) = None"
proof -
  have n: "uip_newdata (dns_event UIP_NEWDATA [2])" by (simp add: uip_newdata_def dns_event_def)
  have "dhcpt bss_dhcpc = 0" by (simp add: bss_dhcpc_def)
  with dhcpc_reply_hangs [OF dhcp_event_ok n, of undefined undefined "\<lambda>d s. Some s" 7] n show ?thesis by simp
qed

theorem dhcpc_discovers_witness:
  "handle_dhcp (\<lambda>d s. Some s) 7 bss_dhcpc (dns_event UIP_POLL []) =
    Some (PT_WAITING, bss_dhcpc\<lparr>dphase := STATE_SENDING, dticks := 1000, dtimer := timer_set 7 1000, dhcpt := 259\<rparr>,
      put_chunk (discover_msg bss_dhcpc (dns_event UIP_POLL [])) (dns_event UIP_POLL []))"
proof -
  have n: "\<not> uip_newdata (dns_event UIP_POLL [])" by (simp add: uip_newdata_def dns_event_def)
  have "dhcpt bss_dhcpc = 0" by (simp add: bss_dhcpc_def)
  with dhcpc_discovers [OF dhcp_event_ok n, of 0 "\<lambda>d s. Some s" 7] show ?thesis by simp
qed

theorem dhcp_parses_message_witness:
  "parse_msg bss_dhcpc offer_event =
    Some (2, bss_dhcpc\<lparr>dipaddr := [10, 0, 0, 7], dnetmask := [255, 0, 0, 0], default_router := [10, 0, 0, 1]\<rparr>)"
proof -
  have o: "fold apply_option demo_options (0, bss_dhcpc\<lparr>dipaddr := [10, 0, 0, 7]\<rparr>) =
      (2, bss_dhcpc\<lparr>dipaddr := [10, 0, 0, 7], dnetmask := [255, 0, 0, 0], default_router := [10, 0, 0, 1]\<rparr>)"
    by (simp add: demo_options_def apply_option_def)
  have b: "uip_buf offer_event = replicate 42 0 @ [DHCP_REPLY, 1, 6, 0] @ xid @ replicate 8 0 @ [10, 0, 0, 7] @ replicate 8 0 @
      take (nat (mac_len bss_dhcpc)) (mac_addr bss_dhcpc) @ replicate 206 0 @ concat (map enc_option demo_options) @
      DHCP_OPTION_END # replicate 20 0" by (simp add: offer_event_def)
  have "parse_msg bss_dhcpc offer_event = Some (fold apply_option demo_options (0, bss_dhcpc\<lparr>dipaddr := [10, 0, 0, 7]\<rparr>))"
  proof (rule dhcp_parses_message [OF b])
    show "\<forall>o' \<in> set demo_options. option_ok o'" by (simp add: demo_options_def option_ok_def)
    show "length (concat (map enc_option demo_options)) < unat (uip_len offer_event)"
      by (simp add: demo_options_def enc_option_def offer_event_def)
  qed (simp_all add: bss_dhcpc_def offer_event_def)
  with o show ?thesis by simp
qed

subsection \<open>Web client\<close>

definition bss_client :: "unit collector_ext webclient_scheme" where
  "bss_client = \<lparr>nm_names = nm_names bss_resolv, nm_next = 0, resolv_conn = Some 0, wc_timer = 0, wc_state = WEBCLIENT_STATE_STATUSLINE,
     wc_flag = HTTPFLAG_NONE, wc_port = 0, wc_host = replicate 40 0, wc_file = replicate 100 0, getrequestptr = 0, getrequestleft = 0,
     httpheaderline = replicate 200 0, httpheaderlineptr = 0, wc_mimetype = replicate 32 0, wc_got = []\<rparr>"

text \<open>An event of the client's connection, whose segments have at most 120 bytes.\<close>

definition client_event :: "u8 \<Rightarrow> u8 list \<Rightarrow> unit uip" where
  "client_event f msg = bss_uip\<lparr>uip_conn := Some 0, uip_flags := f, uip_appdata := 54, uip_sappdata := 54, uip_slen := 0,
     uip_len := of_nat (length msg), uip_conns := (uip_conns bss_uip)[0 := (uip_conns bss_uip ! 0)\<lparr>mss := 120\<rparr>],
     uip_buf := replicate 54 0 @ msg @ replicate (368 - length msg) 0\<rparr>"

lemma client_request_event: "length msg \<le> 368 \<Longrightarrow> request_event 120 (client_event f msg)"
  by (simp add: request_event_def room_def) (simp add: client_event_def uip_mss_def cn_def bss_uip_def)

lemma client_carries: "length msg \<le> 368 \<Longrightarrow> carries msg (client_event UIP_NEWDATA msg)"
  by (simp add: carries_def data_at_def client_event_def slice_def)

lemma client_get:
  "\<exists>w s1. webclient_get (cstring ''10.0.0.1'') 80 (cstring ''/a'') bss_client bss_uip = Some (1, w, s1)"
proof -
  have a: "wc_address (cstring ''10.0.0.1'') bss_client = Some (Some (10, 0x100))"
  proof -
    have four: "(4 :: nat) = Suc (Suc (Suc (Suc 0)))" by simp
    show ?thesis unfolding wc_address_def four by (simp add: cstring_def mk16_def)
  qed
  have p: "search_port (tcp_port_used bss_uip) (lastport bss_uip) = Some (next_port (lastport bss_uip))"
  proof -
    have "\<not> tcp_port_used bss_uip q" for q by (simp add: tcp_port_used_def list_ex_iff bss_uip_def closed_conn_def)
    then show ?thesis by (subst search_port.simps) (simp add: Let_def)
  qed
  have f: "\<exists>r. find_conn (uip_conns bss_uip) 0 None = Some r"
    using replicate_Suc [of 39 closed_conn] by (simp add: bss_uip_def closed_conn_def)
  have i: "\<exists>w'. init_connection (bss_client\<lparr>wc_port := 80, wc_file := map of_char ''/a'' @ replicate 98 0,
      wc_host := map of_char ''10.0.0.1'' @ replicate 32 0\<rparr>) = Some w'"
    using strlen_string [of "map of_char ''/a''" "replicate 97 0"] strlen_string [of "map of_char ''10.0.0.1''" "replicate 31 0"]
      strlen_string [OF fields_string(2), of "[]"] fields_string(1) replicate_Suc [of 97 "0 :: u8"] replicate_Suc [of 31 "0 :: u8"]
    by (simp add: init_connection_def)
  have n: "strncpy 100 (cstring ''/a'') = Some (map of_char ''/a'' @ replicate 98 0)"
    "strncpy 40 (cstring ''10.0.0.1'') = Some (map of_char ''10.0.0.1'' @ replicate 32 0)"
    using strncpy_fits [of "map of_char ''/a''" 100 "[]"] strncpy_fits [of "map of_char ''10.0.0.1''" 40 "[]"]
      replicate_Suc [of 97 "0 :: u8"] replicate_Suc [of 31 "0 :: u8"]
    by (simp_all add: cstring_def)
  have l: "length (wc_file bss_client) = 100" "length (wc_host bss_client) = 40" by (simp_all add: bss_client_def)
  show ?thesis
    using f i by (auto simp: webclient_get_def a uip_connect_def p Let_def n l)
qed


text \<open>An answer with three bytes.\<close>

definition demo_reply :: "u8 list" where
  "demo_reply = answer_bytes (map of_char ''HTTP/1.1 200 OK'')
     [map of_char ''Server: x'', map of_char ''Content-Type: text/html; charset=x''] [1, 2, 3]"

theorem webclient_gets_document_witness:
  "\<exists>w' os. wc_run collect bss_client [client_event UIP_NEWDATA (take 50 demo_reply), client_event UIP_NEWDATA (drop 50 demo_reply)] =
      Some (w', os) \<and> wc_got w' = [1, 2, 3] \<and> wc_mimetype w' = map of_char ''text/html'' @ replicate 23 0"
proof -
  have h: "hdr_ok (map of_char ''Server: x'')" "hdr_ok (map of_char ''Content-Type: text/html; charset=x'')"
    by (simp_all add: hdr_ok_def is_location_def lower_def)
  have st: "status_ok (map of_char ''HTTP/1.1 200 OK'')" by (simp add: status_ok_def)
  have len: "length demo_reply = 69" by (simp add: demo_reply_def answer_bytes_def)
  have c: "list_all2 carries [take 50 demo_reply, drop 50 demo_reply]
      [client_event UIP_NEWDATA (take 50 demo_reply), client_event UIP_NEWDATA (drop 50 demo_reply)]"
    using client_carries [of "take 50 demo_reply"] client_carries [of "drop 50 demo_reply"] len by simp
  have m: "fold mime_of [map of_char ''Server: x'', map of_char ''Content-Type: text/html; charset=x''] (wc_mimetype bss_client) =
      map of_char ''text/html'' @ replicate 23 0"
    by (simp add: mime_of_def lower_def bss_client_def)
  have b: "wc_state bss_client = WEBCLIENT_STATE_STATUSLINE" "httpheaderlineptr bss_client = 0" "getrequestleft bss_client = 0"
    "length (httpheaderline bss_client) = HEADERLINE_SIZE" "length (wc_mimetype bss_client) = 32" "wc_got bss_client = []"
    by (simp_all add: bss_client_def)
  show ?thesis
    using webclient_gets_document [OF b(1-5) c _ st, of "[map of_char ''Server: x'', map of_char ''Content-Type: text/html; charset=x'']" "[1, 2, 3]"]
      h m b(6) by (auto simp: demo_reply_def)
qed

theorem webclient_header_overflow_witness:
  "wc_newdata collect (bss_client\<lparr>wc_state := WEBCLIENT_STATE_HEADERS\<rparr>) (client_event UIP_NEWDATA [10]) = None \<and>
   wc_newdata collect (bss_client\<lparr>wc_state := WEBCLIENT_STATE_HEADERS\<rparr>)
     (client_event UIP_NEWDATA (map of_char ''Location: http://'' @ replicate 40 0x61 @ [13, 10])) = None"
proof -
  let ?w = "bss_client\<lparr>wc_state := WEBCLIENT_STATE_HEADERS\<rparr>" and ?l = "map of_char ''Location: http://'' @ replicate 40 0x61 @ [13, 10]"
  have w: "wc_state ?w = WEBCLIENT_STATE_HEADERS" "httpheaderlineptr ?w = 0" "length (httpheaderline ?w) = HEADERLINE_SIZE"
    "length (wc_host ?w) = 40" by (simp_all add: bss_client_def)
  have d: "data_at xs (client_event UIP_NEWDATA xs) \<and> uip_len (client_event UIP_NEWDATA xs) = of_nat (length xs)" if "length xs \<le> 199" for xs
    using that client_carries [of xs] by (simp add: carries_def)
  have "wc_newdata collect ?w (client_event UIP_NEWDATA [10]) = None"
    by (rule webclient_header_overflow [OF w, of "[10]"]) (use d [of "[10]"] in auto)
  moreover have "wc_newdata collect ?w (client_event UIP_NEWDATA ?l) = None"
    by (rule webclient_header_overflow [OF w, of ?l _ "[]" "replicate 40 0x61" "[]"]) (use d [of ?l] in auto)
  ultimately show ?thesis by simp
qed

end
