(* ===== verification/UipTelnetd.thy ===== *)
theory UipTelnetd
  imports UipPsock UipConn UipNeighbor UipStrings
begin

text \<open>
  The telnet server (\<^verbatim>\<open>apps/telnetd/telnetd.c\<close>) with its shell (\<^verbatim>\<open>apps/telnetd/shell.c\<close>):
  lines of output in a pool of blocks, the parser of the telnet commands, and the event handler.
  A line is the address of its block in the pool's memory.
\<close>

subsection \<open>Data\<close>

datatype telnet_state = STATE_NORMAL | STATE_IAC | STATE_WILL | STATE_WONT | STATE_DO | STATE_DONT | STATE_CLOSE

record telnetd =
  t_lines :: "nat option list"
  t_buf :: "u8 list"
  t_bufptr :: u8
  numsent :: u8
  t_state :: telnet_state
  linemem :: memb_blocks

abbreviation (input) "TELNETD_CONF_LINELEN \<equiv> (40 :: nat)"
abbreviation (input) "TELNETD_CONF_NUMLINES \<equiv> (16 :: nat)"
abbreviation (input) "ISO_nl \<equiv> (0x0a :: u8)"
abbreviation (input) "ISO_cr \<equiv> (0x0d :: u8)"
abbreviation (input) "TELNET_IAC \<equiv> (255 :: u8)"
abbreviation (input) "TELNET_WILL \<equiv> (251 :: u8)"
abbreviation (input) "TELNET_WONT \<equiv> (252 :: u8)"
abbreviation (input) "TELNET_DO \<equiv> (253 :: u8)"
abbreviation (input) "TELNET_DONT \<equiv> (254 :: u8)"

subsection \<open>Lines\<close>

definition alloc_line :: "telnetd \<Rightarrow> telnetd \<times> nat option" where
  "alloc_line t = (let (m, a) = memb_alloc (linemem t) in (t\<lparr>linemem := m\<rparr>, a))"

text \<open>\<^verbatim>\<open>memb_free\<close> of the NULL pointer finds no block.\<close>

definition dealloc_line :: "nat option \<Rightarrow> telnetd \<Rightarrow> telnetd" where
  "dealloc_line line t = (case line of None \<Rightarrow> t | Some a \<Rightarrow> t\<lparr>linemem := fst (memb_free a (linemem t))\<rparr>)"

definition shell_quit :: "telnetd \<Rightarrow> telnetd" where
  "shell_quit t = t\<lparr>t_state := STATE_CLOSE\<rparr>"

text \<open>The first free place of the table.\<close>

fun free_place :: "nat option list \<Rightarrow> nat \<Rightarrow> nat option" where
  "free_place [] i = None"
| "free_place (l # ls) i = (if l = None then Some i else free_place ls (i + 1))"

definition sendline :: "nat \<Rightarrow> telnetd \<Rightarrow> telnetd" where
  "sendline line t = (case free_place (t_lines t) 0 of
     Some i \<Rightarrow> t\<lparr>t_lines := (t_lines t)[i := Some line]\<rparr>
   | None \<Rightarrow> dealloc_line (Some line) t)"

definition write_line :: "nat \<Rightarrow> u8 list \<Rightarrow> telnetd \<Rightarrow> telnetd option" where
  "write_line a bs t = do {
     b \<leftarrow> blit a bs (mb_mem (linemem t));
     Some (t\<lparr>linemem := (linemem t)\<lparr>mb_mem := b\<rparr>\<rparr>) }"

definition shell_prompt :: "u8 list \<Rightarrow> telnetd \<Rightarrow> telnetd option" where
  "shell_prompt str t = (case alloc_line t of
     (t, None) \<Rightarrow> Some t
   | (t, Some line) \<Rightarrow> do {
       v \<leftarrow> strncpy TELNETD_CONF_LINELEN str;
       t \<leftarrow> write_line line v t;
       Some (sendline line t) })"

definition shell_output :: "u8 list \<Rightarrow> u8 list \<Rightarrow> telnetd \<Rightarrow> telnetd option" where
  "shell_output str1 str2 t = (case alloc_line t of
     (t, None) \<Rightarrow> Some t
   | (t, Some line) \<Rightarrow> do {
       len \<leftarrow> strlen str1;
       v \<leftarrow> strncpy TELNETD_CONF_LINELEN str1;
       t \<leftarrow> write_line line v t;
       t \<leftarrow> (if len < TELNETD_CONF_LINELEN then do {
               v \<leftarrow> strncpy (TELNETD_CONF_LINELEN - len) str2;
               write_line (line + len) v t }
            else Some t);
       len \<leftarrow> strlen (drop line (mb_mem (linemem t)));
       t \<leftarrow> (if len < TELNETD_CONF_LINELEN - 2 then write_line (line + len) [ISO_cr, ISO_nl, 0] t else Some t);
       Some (sendline line t) })"

subsection \<open>Shell\<close>

definition SHELL_PROMPT :: "u8 list" where
  "SHELL_PROMPT = cstring ''uIP 1.0> ''"

definition shell_help :: "telnetd \<Rightarrow> telnetd option" where
  "shell_help t = do {
     t \<leftarrow> shell_output (cstring ''Available commands:'') (cstring '''') t;
     t \<leftarrow> shell_output (cstring ''stats   - show network statistics'') (cstring '''') t;
     t \<leftarrow> shell_output (cstring ''conn    - show TCP connections'') (cstring '''') t;
     t \<leftarrow> shell_output (cstring ''help, ? - show help'') (cstring '''') t;
     shell_output (cstring ''exit    - exit shell'') (cstring '''') t }"

definition shell_unknown :: "u8 list \<Rightarrow> telnetd \<Rightarrow> telnetd option" where
  "shell_unknown str t = do {
     n \<leftarrow> strlen str;
     if n > 0 then shell_output (cstring ''Unknown command: '') str t else Some t }"

text \<open>The table of the commands: a name, or NULL for the default, and the function to call.\<close>

type_synonym ptentry = "u8 list option \<times> (u8 list \<Rightarrow> telnetd \<Rightarrow> telnetd option)"

definition parsetab :: "ptentry list" where
  "parsetab = [
     (Some (cstring ''stats''), \<lambda>str. shell_help),
     (Some (cstring ''conn''), \<lambda>str. shell_help),
     (Some (cstring ''help''), \<lambda>str. shell_help),
     (Some (cstring ''exit''), \<lambda>str t. Some (shell_quit t)),
     (Some (cstring ''?''), \<lambda>str. shell_help),
     (None, shell_unknown)]"

fun shell_parse :: "u8 list \<Rightarrow> ptentry list \<Rightarrow> telnetd \<Rightarrow> telnetd option" where
  "shell_parse str [] t = None"
| "shell_parse str ((None, f) # p) t = f str t"
| "shell_parse str ((Some cmd, f) # p) t = do {
     n \<leftarrow> strlen cmd;
     eq \<leftarrow> strncmp_eq n cmd str;
     if eq then f str t else shell_parse str p t }"

definition shell_start :: "telnetd \<Rightarrow> telnetd option" where
  "shell_start t = do {
     t \<leftarrow> shell_output (cstring ''uIP command shell'') (cstring '''') t;
     t \<leftarrow> shell_output (map of_char ''Type '' @ [0x27, 0x3f, 0x27] @ cstring '' and return for help'') (cstring '''') t;
     shell_prompt SHELL_PROMPT t }"

definition shell_input :: "u8 list \<Rightarrow> telnetd \<Rightarrow> telnetd option" where
  "shell_input cmd t = do {
     t \<leftarrow> shell_parse cmd parsetab t;
     shell_prompt SHELL_PROMPT t }"

subsection \<open>Sending\<close>

text \<open>One round of the loop of \<^verbatim>\<open>acked\<close>, and the loop.\<close>

definition drop_line :: "telnetd \<Rightarrow> telnetd option" where
  "drop_line t = (case t_lines t of
     [] \<Rightarrow> None
   | l # ls \<Rightarrow> let t = dealloc_line l t in Some (t\<lparr>t_lines := ls @ [None], numsent := numsent t - 1\<rparr>))"

fun acked_from :: "nat \<Rightarrow> telnetd \<Rightarrow> telnetd option" where
  "acked_from 0 t = Some t"
| "acked_from (Suc n) t = do {
     t \<leftarrow> drop_line t;
     acked_from n t }"

definition telnetd_acked :: "telnetd \<Rightarrow> telnetd option" where
  "telnetd_acked t = acked_from (unat (numsent t)) t"

text \<open>The lines from the table are copied behind each other while they fit: the number of lines, the
  place behind the last one and their length.\<close>

fun copy_lines :: "nat option list \<Rightarrow> u16 \<Rightarrow> telnetd \<Rightarrow> nat \<Rightarrow> nat \<Rightarrow> nat \<Rightarrow> u8 list \<Rightarrow> (nat \<times> nat \<times> u8 list) option" where
  "copy_lines (Some lineptr # ls) m t n p buflen b = do {
     linelen \<leftarrow> strlen (drop lineptr (mb_mem (linemem t)));
     let linelen = min linelen TELNETD_CONF_LINELEN;
     if buflen + linelen < unat m then do {
       bs \<leftarrow> slice lineptr linelen (mb_mem (linemem t));
       b \<leftarrow> blit p bs b;
       copy_lines ls m t (n + 1) (p + linelen) (buflen + linelen) b }
     else Some (n, buflen, b) }"
| "copy_lines ls m t n p buflen b = Some (n, buflen, b)"

definition telnetd_senddata :: "telnetd \<Rightarrow> 'a uip \<Rightarrow> (telnetd \<times> 'a uip) option" where
  "telnetd_senddata t s = do {
     m \<leftarrow> uip_mss s;
     (n, buflen, b) \<leftarrow> copy_lines (t_lines t) m t 0 (uip_appdata s) 0 (uip_buf s);
     s \<leftarrow> uip_send_ptr (Packet (uip_appdata s)) (of_nat buflen) (s\<lparr>uip_buf := b\<rparr>);
     Some (t\<lparr>numsent := of_nat n\<rparr>, s) }"

text \<open>The lines of the table are freed and stay in it.\<close>

definition telnetd_closed :: "telnetd \<Rightarrow> telnetd" where
  "telnetd_closed t = fold dealloc_line (t_lines t) t"

subsection \<open>Input\<close>

definition get_char :: "u8 \<Rightarrow> telnetd \<Rightarrow> telnetd option" where
  "get_char c t =
     (if c = ISO_cr then Some t
      else do {
        guard (unat (t_bufptr t) < length (t_buf t));
        let t = t\<lparr>t_buf := (t_buf t)[unat (t_bufptr t) := c]\<rparr>;
        if c = ISO_nl \<or> unat (t_bufptr t) = TELNETD_CONF_LINELEN - 1 then do {
          let t = (if t_bufptr t > 0 then t\<lparr>t_buf := (t_buf t)[unat (t_bufptr t) := 0]\<rparr> else t);
          t \<leftarrow> shell_input (t_buf t) t;
          Some (t\<lparr>t_bufptr := 0\<rparr>) }
        else Some (t\<lparr>t_bufptr := t_bufptr t + 1\<rparr>) })"

definition sendopt :: "u8 \<Rightarrow> u8 \<Rightarrow> telnetd \<Rightarrow> telnetd option" where
  "sendopt opt v t = (case alloc_line t of
     (t, None) \<Rightarrow> Some t
   | (t, Some line) \<Rightarrow> do {
       t \<leftarrow> write_line line [TELNET_IAC, opt, v, 0] t;
       Some (sendline line t) })"

definition input_byte :: "u8 \<Rightarrow> telnetd \<Rightarrow> telnetd option" where
  "input_byte c t = (case t_state t of
     STATE_IAC \<Rightarrow>
       if c = TELNET_IAC then do {
         t \<leftarrow> get_char c t;
         Some (t\<lparr>t_state := STATE_NORMAL\<rparr>) }
       else Some (t\<lparr>t_state :=
         if c = TELNET_WILL then STATE_WILL
         else if c = TELNET_WONT then STATE_WONT
         else if c = TELNET_DO then STATE_DO
         else if c = TELNET_DONT then STATE_DONT
         else STATE_NORMAL\<rparr>)
   | STATE_WILL \<Rightarrow> do { t \<leftarrow> sendopt TELNET_DONT c t; Some (t\<lparr>t_state := STATE_NORMAL\<rparr>) }
   | STATE_WONT \<Rightarrow> do { t \<leftarrow> sendopt TELNET_DONT c t; Some (t\<lparr>t_state := STATE_NORMAL\<rparr>) }
   | STATE_DO \<Rightarrow> do { t \<leftarrow> sendopt TELNET_WONT c t; Some (t\<lparr>t_state := STATE_NORMAL\<rparr>) }
   | STATE_DONT \<Rightarrow> do { t \<leftarrow> sendopt TELNET_WONT c t; Some (t\<lparr>t_state := STATE_NORMAL\<rparr>) }
   | STATE_NORMAL \<Rightarrow> if c = TELNET_IAC then Some (t\<lparr>t_state := STATE_IAC\<rparr>) else get_char c t
   | STATE_CLOSE \<Rightarrow> Some t)"

text \<open>The loop over the data, \<open>len\<close> bytes from \<open>dataptr\<close> on.\<close>

fun input_bytes :: "nat \<Rightarrow> nat \<Rightarrow> telnetd \<Rightarrow> 'a uip \<Rightarrow> telnetd option" where
  "input_bytes 0 dataptr t s = Some t"
| "input_bytes (Suc len) dataptr t s =
     (if unat (t_bufptr t) < TELNETD_CONF_LINELEN then do {
        c \<leftarrow> rd8_at dataptr s;
        t \<leftarrow> input_byte c t;
        input_bytes len (dataptr + 1) t s }
      else Some t)"

definition telnetd_newdata :: "telnetd \<Rightarrow> 'a uip \<Rightarrow> telnetd option" where
  "telnetd_newdata t s = input_bytes (unat (uip_len s)) (uip_appdata s) t s"

subsection \<open>Events\<close>

definition telnetd_init :: "telnetd \<Rightarrow> 'a uip \<Rightarrow> telnetd \<times> 'a uip" where
  "telnetd_init t s = (t\<lparr>linemem := memb_init (linemem t)\<rparr>, uip_listen (HTONS 23) s)"

definition telnetd_appcall :: "telnetd \<Rightarrow> 'a uip \<Rightarrow> (telnetd \<times> 'a uip) option" where
  "telnetd_appcall t s = do {
     t \<leftarrow> (if uip_flags s AND UIP_CONNECTED \<noteq> 0
          then shell_start (t\<lparr>t_lines := map (\<lambda>_. None) (t_lines t), t_bufptr := 0, t_state := STATE_NORMAL\<rparr>)
          else Some t);
     if t_state t = STATE_CLOSE then Some (t\<lparr>t_state := STATE_NORMAL\<rparr>, uip_close s)
     else do {
       let t = (if uip_flags s AND UIP_CLOSE \<noteq> 0 \<or> uip_flags s AND UIP_ABORT \<noteq> 0 \<or> uip_flags s AND UIP_TIMEDOUT \<noteq> 0
         then telnetd_closed t else t);
       t \<leftarrow> (if uip_acked s then telnetd_acked t else Some t);
       t \<leftarrow> (if uip_newdata s then telnetd_newdata t s else Some t);
       if uip_rexmit s \<or> uip_newdata s \<or> uip_acked s \<or> uip_flags s AND UIP_CONNECTED \<noteq> 0 \<or> uip_flags s AND UIP_POLL \<noteq> 0
       then telnetd_senddata t s
       else Some (t, s) } }"

end
