(* ===== verification/UipPool.thy ===== *)
theory UipPool
  imports UipNeighbor
begin

text \<open>
  The contract of a pool of blocks, which the block allocator of uIP (\<^verbatim>\<open>lib/memb.c\<close>) keeps and on which
  the telnet server relies: an allocation takes a block that is not taken or finds all of them
  taken, and freeing a taken block gives it back.
\<close>

locale block_pool =
  fixes alloc :: "'m \<Rightarrow> 'm \<times> nat option"
    and free :: "nat \<Rightarrow> 'm \<Rightarrow> 'm"
    and pool_ok :: "'m \<Rightarrow> bool"
    and taken :: "'m \<Rightarrow> nat set"
    and capacity :: nat
  assumes taken_bound: "pool_ok m \<Longrightarrow> finite (taken m) \<and> card (taken m) \<le> capacity"
    and alloc_law: "pool_ok m \<Longrightarrow> alloc m = (m', r) \<Longrightarrow> case r of
        None \<Rightarrow> m' = m \<and> card (taken m) = capacity
      | Some a \<Rightarrow> pool_ok m' \<and> a \<notin> taken m \<and> taken m' = insert a (taken m)"
    and free_law: "pool_ok m \<Longrightarrow> a \<in> taken m \<Longrightarrow> pool_ok (free a m) \<and> taken (free a m) = taken m - {a}"
begin

lemma alloc_succeeds:
  assumes "pool_ok m" "card (taken m) < capacity"
  shows "\<exists>m' a. alloc m = (m', Some a) \<and> pool_ok m' \<and> a \<notin> taken m \<and> taken m' = insert a (taken m)"
proof -
  obtain m' r where a: "alloc m = (m', r)" by (cases "alloc m")
  show ?thesis using alloc_law [OF assms(1) a] a assms(2) by (cases r) auto
qed

lemma alloc_then_free:
  assumes "pool_ok m" "alloc m = (m', Some a)"
  shows "pool_ok (free a m') \<and> taken (free a m') = taken m"
  using alloc_law [OF assms] free_law [of m' a] by auto

text \<open>From an empty pool exactly \<open>capacity\<close> allocations succeed.\<close>

fun allocs :: "nat \<Rightarrow> 'm \<Rightarrow> 'm \<times> nat list" where
  "allocs 0 m = (m, [])"
| "allocs (Suc n) m = (case alloc m of
     (m, None) \<Rightarrow> (m, [])
   | (m, Some a) \<Rightarrow> let (m, as) = allocs n m in (m, a # as))"

lemma allocs_until_full:
  assumes "pool_ok m" "allocs n m = (m', as)"
  shows "pool_ok m' \<and> distinct as \<and> set as \<inter> taken m = {} \<and> taken m' = set as \<union> taken m \<and>
    length as = min n (capacity - card (taken m))"
  using assms
proof (induction n arbitrary: m as)
  case (Suc n)
  obtain m1 r where a: "alloc m = (m1, r)" by (cases "alloc m")
  note l = alloc_law [OF Suc.prems(1) a]
  show ?case
  proof (cases r)
    case None
    then show ?thesis using l a Suc.prems by auto
  next
    case (Some b)
    then obtain bs where bs: "allocs n m1 = (m', bs)" "as = b # bs"
      using Suc.prems(2) a by (auto split: prod.splits)
    have m1: "pool_ok m1" "b \<notin> taken m" "taken m1 = insert b (taken m)" using l Some by simp_all
    have "card (taken m1) = Suc (card (taken m))" using m1 taken_bound [OF Suc.prems(1)] by simp
    moreover have "card (taken m1) \<le> capacity" using taken_bound [OF m1(1)] by simp
    ultimately show ?thesis using Suc.IH [OF m1(1) bs(1)] bs(2) m1 by auto
  qed
qed auto

end

subsection \<open>The block allocator\<close>

definition memb_ok :: "nat \<Rightarrow> memb_blocks \<Rightarrow> bool" where
  "memb_ok n m \<longleftrightarrow> 0 < mb_size m \<and> length (mb_count m) = n \<and> (\<forall>c \<in> set (mb_count m). c \<in> {0, 1})"

definition allocated :: "memb_blocks \<Rightarrow> nat set" where
  "allocated m = {i * mb_size m | i. i < length (mb_count m) \<and> mb_count m ! i \<noteq> 0}"

lemma allocated_subset: "allocated m \<subseteq> (\<lambda>i. i * mb_size m) ` {..< length (mb_count m)}"
  by (auto simp: allocated_def)

lemma memb_alloc_law:
  assumes "memb_ok n m" "memb_alloc m = (m', r)"
  shows "case r of None \<Rightarrow> m' = m \<and> card (allocated m) = n
    | Some a \<Rightarrow> memb_ok n m' \<and> a \<notin> allocated m \<and> allocated m' = insert a (allocated m)"
proof (cases "first_free (mb_count m) 0")
  case None
  then have "0 \<notin> set (mb_count m)" by (simp add: first_free_None)
  then have "mb_count m ! i \<noteq> 0" if "i < length (mb_count m)" for i using that by (metis nth_mem)
  then have "allocated m = (\<lambda>i. i * mb_size m) ` {..< n}" using assms(1) by (auto simp: allocated_def memb_ok_def)
  moreover have "inj_on (\<lambda>i. i * mb_size m) {..< n}" by (rule inj_onI) (use assms(1) in \<open>simp add: memb_ok_def\<close>)
  ultimately have "card (allocated m) = n" by (simp add: card_image)
  then show ?thesis using None assms(2) by (auto simp: memb_alloc_def)
next
  case (Some i)
  from first_free_Some [OF this] have i: "i < length (mb_count m)" "mb_count m ! i = 0" by auto
  have m': "m' = m\<lparr>mb_count := (mb_count m)[i := 1]\<rparr>" "r = Some (i * mb_size m)"
    using assms Some i by (auto simp: memb_alloc_def)
  have "memb_ok n m'" using assms(1) set_update_subset_insert [of "mb_count m" i 1] by (auto simp: m' memb_ok_def)
  moreover have "allocated m' = insert (i * mb_size m) (allocated m)" "i * mb_size m \<notin> allocated m"
    using i assms(1) by (auto simp: allocated_def m' memb_ok_def nth_list_update)
  ultimately show ?thesis using m' by simp
qed

lemma memb_free_law:
  assumes "memb_ok n m" "a \<in> allocated m"
  shows "memb_ok n (fst (memb_free a m)) \<and> allocated (fst (memb_free a m)) = allocated m - {a}"
proof -
  obtain i where i: "a = i * mb_size m" "i < length (mb_count m)" "mb_count m ! i \<noteq> 0" using assms(2) by (auto simp: allocated_def)
  have "mb_count m ! i \<in> set (mb_count m)" using i(2) by simp
  then have c: "mb_count m ! i = 1" using i(3) assms(1) by (auto simp: memb_ok_def)
  have "memb_find (mb_size m) (length (mb_count m)) 0 0 (i * mb_size m) = Some i"
    using memb_find_block [of "mb_size m" i "length (mb_count m)" 0] i(2) assms(1) by (simp add: memb_ok_def)
  then have f: "fst (memb_free a m) = m\<lparr>mb_count := (mb_count m)[i := 0]\<rparr>" by (simp add: memb_free_def i(1) c)
  have "memb_ok n (m\<lparr>mb_count := (mb_count m)[i := 0]\<rparr>)"
    using assms(1) set_update_subset_insert [of "mb_count m" i 0] by (auto simp: memb_ok_def)
  moreover have "allocated (m\<lparr>mb_count := (mb_count m)[i := 0]\<rparr>) = allocated m - {a}"
    using i assms(1) by (auto simp: allocated_def nth_list_update memb_ok_def)
  ultimately show ?thesis by (simp add: f)
qed

interpretation memb: block_pool memb_alloc "\<lambda>a m. fst (memb_free a m)" "memb_ok n" allocated n for n
proof unfold_locales
  fix m
  assume "memb_ok n m"
  then have s: "allocated m \<subseteq> (\<lambda>i. i * mb_size m) ` {..< n}" using allocated_subset [of m] by (simp add: memb_ok_def)
  then have "finite (allocated m)" by (rule finite_subset) simp
  moreover have "card (allocated m) \<le> n"
    using card_mono [OF _ s] card_image_le [of "{..< n}" "\<lambda>i. i * mb_size m"] by simp
  ultimately show "finite (allocated m) \<and> card (allocated m) \<le> n" by simp
qed (use memb_alloc_law memb_free_law in blast)+

lemma memb_alloc_frame:
  "mb_mem (fst (memb_alloc m)) = mb_mem m \<and> mb_size (fst (memb_alloc m)) = mb_size m"
  by (simp add: memb_alloc_def split: option.splits)

lemma memb_free_frame:
  "mb_mem (fst (memb_free a m)) = mb_mem m \<and> mb_size (fst (memb_free a m)) = mb_size m"
  by (simp add: memb_free_def Let_def split: option.splits)

end
