(* ===== verification/UipTelnetRun.thy ===== *)
theory UipTelnetRun
  imports UipTelnetd UipPool
begin

text \<open>
  The telnet server at work: its lines and the blocks of their pool, the lines that are lost when a
  session ends by \<^verbatim>\<open>exit\<close>, and its input over segments.
\<close>

subsection \<open>The pool\<close>

definition mem_ok :: "memb_blocks \<Rightarrow> bool" where
  "mem_ok m \<longleftrightarrow> memb_ok 16 m \<and> mb_size m = 40 \<and> length (mb_mem m) = 640"

lemma mem_ok_pool: "mem_ok m \<Longrightarrow> memb_ok 16 m"
  by (simp add: mem_ok_def)

lemmas mem_bound = memb.taken_bound [OF mem_ok_pool]

lemma alloc_spec:
  assumes "mem_ok m" "memb_alloc m = (m', r)"
  shows "case r of None \<Rightarrow> m' = m \<and> card (allocated m) = 16
    | Some a \<Rightarrow> mem_ok m' \<and> a \<notin> allocated m \<and> allocated m' = insert a (allocated m)"
  using memb.alloc_law [OF mem_ok_pool [OF assms(1)] assms(2)] memb_alloc_frame [of m] assms
  by (cases r) (simp_all add: mem_ok_def)

lemma allocated_mem: "allocated (m\<lparr>mb_mem := b\<rparr>) = allocated m"
  by (simp add: allocated_def)

lemma free_spec:
  assumes "mem_ok m" "a \<in> allocated m"
  shows "mem_ok (fst (memb_free a m)) \<and> allocated (fst (memb_free a m)) = allocated m - {a}"
  using memb.free_law [OF mem_ok_pool [OF assms(1)] assms(2)] memb_free_frame [of a m] assms(1) by (simp add: mem_ok_def)

subsection \<open>The lines\<close>

text \<open>The table holds the lines \<open>as\<close>; the blocks of \<open>L\<close> are taken and in no place of the table.\<close>

definition has_lines :: "nat list \<Rightarrow> nat set \<Rightarrow> telnetd \<Rightarrow> bool" where
  "has_lines as L t \<longleftrightarrow> t_lines t = map Some as @ replicate (16 - length as) None \<and> length as \<le> 16 \<and> mem_ok (linemem t) \<and>
     distinct as \<and> set as \<inter> L = {} \<and> allocated (linemem t) = set as \<union> L \<and> length (t_buf t) = 40 \<and> unat (t_bufptr t) < 40"

text \<open>The state but for the lines and their memory.\<close>

definition same_input :: "telnetd \<Rightarrow> telnetd \<Rightarrow> bool" where
  "same_input t t' \<longleftrightarrow> t_buf t' = t_buf t \<and> t_bufptr t' = t_bufptr t \<and> t_state t' = t_state t \<and> numsent t' = numsent t"

lemma has_lines_bound: "has_lines as L t \<Longrightarrow> length as + card L \<le> 16"
proof -
  assume h: "has_lines as L t"
  then have "finite L" using mem_bound [of "linemem t"] by (auto simp: has_lines_def)
  then have "card (set as \<union> L) = card (set as) + card L" using h by (intro card_Un_disjoint) (auto simp: has_lines_def)
  then show ?thesis using h mem_bound [of "linemem t"] by (simp add: has_lines_def distinct_card)
qed

lemma free_place_found: "free_place (map Some as @ None # ls) i = Some (i + length as)"
  by (induction as arbitrary: i) auto

lemma sendline_spec:
  assumes "has_lines as (insert a L) t" "a \<notin> L"
  shows "has_lines (as @ [a]) L (sendline a t) \<and> same_input t (sendline a t)"
proof -
  have fin: "finite L" using mem_bound [of "linemem t"] assms(1) by (auto simp: has_lines_def)
  have n: "length as < 16" using has_lines_bound [OF assms(1)] fin assms(2) by simp
  then have r: "t_lines t = map Some as @ None # replicate (15 - length as) None"
    using assms(1) by (simp add: has_lines_def flip: replicate_Suc Suc_diff_le)
  have "sendline a t = t\<lparr>t_lines := map Some (as @ [a]) @ replicate (16 - length (as @ [a])) None\<rparr>"
    by (simp add: sendline_def r free_place_found list_update_append)
  then show ?thesis using assms n by (auto simp: has_lines_def same_input_def)
qed

lemma alloc_line_spec:
  assumes "has_lines as L t" "alloc_line t = (t', r)"
  shows "case r of None \<Rightarrow> t' = t \<and> length as + card L = 16
    | Some a \<Rightarrow> has_lines as (insert a L) t' \<and> a \<notin> L \<and> same_input t t'"
proof -
  obtain m where m: "memb_alloc (linemem t) = (m, r)" "t' = t\<lparr>linemem := m\<rparr>"
    using assms(2) by (auto simp: alloc_line_def split: prod.splits)
  have h: "mem_ok (linemem t)" "allocated (linemem t) = set as \<union> L" "distinct as" "set as \<inter> L = {}"
    using assms(1) by (simp_all add: has_lines_def)
  have "finite L" using mem_bound [OF h(1)] h(2) by simp
  then have "card (set as \<union> L) = length as + card L" using h by (simp add: card_Un_disjoint distinct_card)
  then show ?thesis
    using alloc_spec [OF h(1) m(1)] m(2) assms(1) h by (cases r) (auto simp: has_lines_def same_input_def)
qed

lemma write_line_spec:
  assumes "has_lines as L t" "write_line a bs t = Some t'"
  shows "has_lines as L t' \<and> same_input t t'"
proof -
  obtain b where "blit a bs (mb_mem (linemem t)) = Some b" "t' = t\<lparr>linemem := (linemem t)\<lparr>mb_mem := b\<rparr>\<rparr>"
    using assms(2) by (auto simp: write_line_def elim!: bind_SomeE)
  moreover from this(1) have "length b = length (mb_mem (linemem t))" by (rule length_blit)
  ultimately show ?thesis using assms(1) by (simp add: has_lines_def same_input_def mem_ok_def memb_ok_def allocated_mem)
qed

text \<open>A line is added, unless no block is free.\<close>

definition adds_line :: "(telnetd \<Rightarrow> telnetd option) \<Rightarrow> bool" where
  "adds_line f \<longleftrightarrow> (\<forall>as L t t'. has_lines as L t \<longrightarrow> f t = Some t' \<longrightarrow> same_input t t' \<and>
     (if length as + card L = 16 then t' = t else \<exists>a. has_lines (as @ [a]) L t'))"

lemma same_input_trans: "same_input t t' \<Longrightarrow> same_input t' t'' \<Longrightarrow> same_input t t''"
  by (simp add: same_input_def)

lemma adds_lineI:
  assumes "\<And>t. f t = (case alloc_line t of (t, None) \<Rightarrow> Some t | (t, Some a) \<Rightarrow> do { t \<leftarrow> g a t; Some (sendline a t) })"
    and "\<And>as L a t t'. has_lines as L t \<Longrightarrow> g a t = Some t' \<Longrightarrow> has_lines as L t' \<and> same_input t t'"
  shows "adds_line f"
  unfolding adds_line_def
proof (intro allI impI)
  fix as L t t'
  assume h: "has_lines as L t" and f: "f t = Some t'"
  obtain t1 r where a: "alloc_line t = (t1, r)" by (cases "alloc_line t")
  note s = alloc_line_spec [OF h a]
  show "same_input t t' \<and> (if length as + card L = 16 then t' = t else \<exists>a. has_lines (as @ [a]) L t')"
  proof (cases r)
    case None
    then show ?thesis using s f a assms(1) by (simp add: same_input_def)
  next
    case (Some b)
    then obtain t2 where t2: "g b t1 = Some t2" "t' = sendline b t2" using f a assms(1) by (auto elim!: bind_SomeE)
    have 1: "has_lines as (insert b L) t1" "b \<notin> L" "same_input t t1" using s Some by simp_all
    have 2: "has_lines as (insert b L) t2" "same_input t1 t2" using assms(2) [OF 1(1) t2(1)] by simp_all
    have 3: "has_lines (as @ [b]) L t'" "same_input t2 t'" using sendline_spec [OF 2(1) 1(2)] t2(2) by simp_all
    have "length as + card L \<noteq> 16" using has_lines_bound [OF 3(1)] by simp
    then show ?thesis using 3(1) same_input_trans [OF 1(3) same_input_trans [OF 2(2) 3(2)]] by auto
  qed
qed

lemma writes_keep:
  "write_line a bs t = Some t' \<Longrightarrow> has_lines as L t \<Longrightarrow> has_lines as L t' \<and> same_input t t'"
  by (rule write_line_spec)

lemma shell_prompt_adds: "adds_line (shell_prompt str)"
proof (rule adds_lineI)
  show "shell_prompt str t = (case alloc_line t of (t, None) \<Rightarrow> Some t | (t, Some a) \<Rightarrow>
      do { t \<leftarrow> do { v \<leftarrow> strncpy 40 str; write_line a v t }; Some (sendline a t) })" for t
    by (simp add: shell_prompt_def split: prod.splits option.splits)
qed (auto elim!: bind_SomeE dest: writes_keep)

lemma sendopt_adds: "adds_line (sendopt opt v)"
proof (rule adds_lineI)
  show "sendopt opt v t = (case alloc_line t of (t, None) \<Rightarrow> Some t | (t, Some a) \<Rightarrow>
      do { t \<leftarrow> write_line a [TELNET_IAC, opt, v, 0] t; Some (sendline a t) })" for t
    by (simp add: sendopt_def)
qed (auto dest: writes_keep)

definition output_line :: "u8 list \<Rightarrow> u8 list \<Rightarrow> nat \<Rightarrow> telnetd \<Rightarrow> telnetd option" where
  "output_line str1 str2 a t = do {
     len \<leftarrow> strlen str1;
     v \<leftarrow> strncpy TELNETD_CONF_LINELEN str1;
     t \<leftarrow> write_line a v t;
     t \<leftarrow> (if len < TELNETD_CONF_LINELEN then do {
             v \<leftarrow> strncpy (TELNETD_CONF_LINELEN - len) str2;
             write_line (a + len) v t }
          else Some t);
     len \<leftarrow> strlen (drop a (mb_mem (linemem t)));
     if len < TELNETD_CONF_LINELEN - 2 then write_line (a + len) [ISO_cr, ISO_nl, 0] t else Some t }"

lemma output_line_keeps:
  assumes "has_lines as L t" "output_line str1 str2 a t = Some t'"
  shows "has_lines as L t' \<and> same_input t t'"
proof -
  obtain n v t1 t2 k where t1: "write_line a v t = Some t1"
    and t2: "(if n < 40 then do { v \<leftarrow> strncpy (40 - n) str2; write_line (a + n) v t1 } else Some t1) = Some t2"
    and t': "(if k < 40 - 2 then write_line (a + k) [ISO_cr, ISO_nl, 0] t2 else Some t2) = Some t'"
    using assms(2) unfolding output_line_def by (auto elim!: bind_SomeE)
  have 1: "has_lines as L t1" "same_input t t1" using write_line_spec [OF assms(1) t1] by simp_all
  have 2: "has_lines as L t2 \<and> same_input t1 t2"
    using t2 1(1) write_line_spec [OF 1(1)] by (auto simp: same_input_def elim!: bind_SomeE split: if_splits)
  have "has_lines as L t' \<and> same_input t2 t'"
    using t' 2 write_line_spec [of as L t2] by (auto simp: same_input_def split: if_splits)
  then show ?thesis using 1(2) 2 by (auto intro: same_input_trans)
qed

lemma shell_output_adds: "adds_line (shell_output str1 str2)"
proof (rule adds_lineI)
  show "shell_output str1 str2 t = (case alloc_line t of (t, None) \<Rightarrow> Some t | (t, Some a) \<Rightarrow>
      do { t \<leftarrow> output_line str1 str2 a t; Some (sendline a t) })" for t
    unfolding shell_output_def output_line_def
    by (rule arg_cong2 [of _ _ _ _ case_prod]) (auto intro!: ext split: option.splits)
qed (rule output_line_keeps)

text \<open>Any number of lines is added, and the shell's session may be marked as closed.\<close>

definition adds_lines :: "(telnetd \<Rightarrow> telnetd option) \<Rightarrow> bool" where
  "adds_lines f \<longleftrightarrow> (\<forall>as L t t'. has_lines as L t \<longrightarrow> f t = Some t' \<longrightarrow>
     (\<exists>ls. has_lines (as @ ls) L t') \<and> t_buf t' = t_buf t \<and> t_bufptr t' = t_bufptr t \<and> numsent t' = numsent t)"

lemma adds_lines_line: "adds_line f \<Longrightarrow> adds_lines f"
  unfolding adds_lines_def
proof (intro allI impI)
  fix as L t t'
  assume "adds_line f" "has_lines as L t" "f t = Some t'"
  then have a: "same_input t t'" "if length as + card L = 16 then t' = t else \<exists>a. has_lines (as @ [a]) L t'"
    unfolding adds_line_def by blast+
  have "\<exists>ls. has_lines (as @ ls) L t'"
  proof (cases "length as + card L = 16")
    case True
    then show ?thesis using a(2) \<open>has_lines as L t\<close> by (intro exI [of _ "[]"]) simp
  next
    case False
    then show ?thesis using a(2) by auto
  qed
  then show "(\<exists>ls. has_lines (as @ ls) L t') \<and> t_buf t' = t_buf t \<and> t_bufptr t' = t_bufptr t \<and> numsent t' = numsent t"
    using a(1) by (simp add: same_input_def)
qed

lemma adds_lines_bind:
  assumes "adds_lines f" "adds_lines g"
  shows "adds_lines (\<lambda>t. do { t \<leftarrow> f t; g t })"
  unfolding adds_lines_def
proof (intro allI impI)
  fix as L t t'
  assume h: "has_lines as L t" and fg: "do { t \<leftarrow> f t; g t } = Some t'"
  obtain t1 where t1: "f t = Some t1" "g t1 = Some t'" using fg by (auto elim!: bind_SomeE)
  obtain ls where ls: "has_lines (as @ ls) L t1" "t_buf t1 = t_buf t" "t_bufptr t1 = t_bufptr t" "numsent t1 = numsent t"
    using assms(1) h t1(1) unfolding adds_lines_def by blast
  obtain ks where "has_lines ((as @ ls) @ ks) L t'" "t_buf t' = t_buf t1" "t_bufptr t' = t_bufptr t1" "numsent t' = numsent t1"
    using assms(2) ls(1) t1(2) unfolding adds_lines_def by blast
  then show "(\<exists>ls. has_lines (as @ ls) L t') \<and> t_buf t' = t_buf t \<and> t_bufptr t' = t_bufptr t \<and> numsent t' = numsent t"
    using ls by auto
qed

lemma adds_lines_Some: "adds_lines Some"
  unfolding adds_lines_def by (auto intro!: exI [of _ "[]"])

lemmas shell_adds = shell_prompt_adds [THEN adds_lines_line] shell_output_adds [THEN adds_lines_line]

lemma shell_quit_adds: "adds_lines (\<lambda>t. Some (shell_quit t))"
  unfolding adds_lines_def shell_quit_def by (auto simp: has_lines_def intro!: exI [of _ "[]"])

lemma shell_help_adds: "adds_lines shell_help"
  unfolding shell_help_def by (intro adds_lines_bind shell_adds)

lemma shell_unknown_adds: "adds_lines (shell_unknown str)"
proof (cases "strlen str")
  case None
  then show ?thesis by (simp add: shell_unknown_def adds_lines_def)
next
  case (Some n)
  then have "shell_unknown str = (if 0 < n then shell_output (cstring ''Unknown command: '') str else Some)"
    by (auto simp: shell_unknown_def)
  then show ?thesis by (simp add: shell_adds adds_lines_Some)
qed

lemma shell_parse_adds: "(\<forall>(c, f) \<in> set p. adds_lines (f str)) \<Longrightarrow> adds_lines (shell_parse str p)"
proof (induction p)
  case Nil
  then show ?case by (simp add: adds_lines_def)
next
  case (Cons e p)
  obtain c f where e: "e = (c, f)" by (cases e)
  have f: "adds_lines (f str)" "adds_lines (shell_parse str p)" using Cons e by auto
  show ?case
  proof (cases c)
    case None
    then have "shell_parse str (e # p) = f str" using e by (intro ext) simp
    then show ?thesis using f(1) by simp
  next
    case (Some cmd)
    show ?thesis
    proof (cases "do { n \<leftarrow> strlen cmd; strncmp_eq n cmd str }")
      case None
      then have "shell_parse str (e # p) t = None" for t using e Some by (auto split: option.splits) (cases "strlen cmd"; auto)
      then show ?thesis by (simp add: adds_lines_def)
    next
      case s: (Some b)
      then obtain n where "strlen cmd = Some n" "strncmp_eq n cmd str = Some b" by (auto elim!: bind_SomeE)
      then have "shell_parse str (e # p) = (if b then f str else shell_parse str p)"
        using e Some by (intro ext) simp
      then show ?thesis using f by simp
    qed
  qed
qed

lemma shell_input_adds: "adds_lines (shell_input cmd)"
  unfolding shell_input_def
  by (intro adds_lines_bind shell_adds shell_parse_adds)
    (simp add: parsetab_def shell_help_adds shell_quit_adds shell_unknown_adds)

lemma shell_start_adds: "adds_lines shell_start"
  unfolding shell_start_def by (intro adds_lines_bind shell_adds)

subsection \<open>Acknowledgements\<close>

lemma drop_line_spec:
  assumes "has_lines as L t"
  shows "\<exists>t'. drop_line t = Some t' \<and> has_lines (tl as) L t' \<and> t_state t' = t_state t"
proof (cases as)
  case Nil
  then have l: "t_lines t = None # replicate 15 None" using assms replicate_Suc [of 15 None] by (simp add: has_lines_def)
  have e: "replicate 15 None @ [None] = replicate 16 (None :: nat option)"
    using replicate_append_same [of 15 "None :: nat option"] replicate_Suc [of 15 "None :: nat option"] by simp
  have "drop_line t = Some (t\<lparr>t_lines := replicate 15 None @ [None], numsent := numsent t - 1\<rparr>)"
    by (simp add: drop_line_def dealloc_line_def l)
  then show ?thesis unfolding e using assms Nil by (simp add: has_lines_def)
next
  case (Cons a as')
  have h: "t_lines t = Some a # map Some as' @ replicate (16 - length as) None" "length as \<le> 16" "mem_ok (linemem t)" "distinct as"
    "set as \<inter> L = {}" "allocated (linemem t) = set as \<union> L" using assms Cons by (simp_all add: has_lines_def)
  have f: "mem_ok (fst (memb_free a (linemem t)))" "allocated (fst (memb_free a (linemem t))) = set as' \<union> L"
    using free_spec [OF h(3), of a] h(4-6) Cons by auto
  have "replicate (16 - length as) None @ [None] = replicate (16 - length as') (None :: nat option)"
    using h(2) Cons by (simp add: replicate_append_same Suc_diff_le flip: replicate_Suc)
  then have r: "map Some as' @ replicate (16 - length as) None @ [None] = map Some as' @ replicate (16 - length as') None" by simp
  show ?thesis using assms f Cons h(1) r by (auto simp: drop_line_def dealloc_line_def has_lines_def)
qed

lemma acked_from_spec:
  "has_lines as L t \<Longrightarrow> \<exists>t'. acked_from n t = Some t' \<and> has_lines (drop n as) L t' \<and> t_state t' = t_state t"
proof (induction n arbitrary: as t)
  case (Suc n)
  obtain t1 where "drop_line t = Some t1" "has_lines (tl as) L t1" "t_state t1 = t_state t" using drop_line_spec [OF Suc.prems] by blast
  then show ?case using Suc.IH [of "tl as" t1] by (auto simp: drop_Suc)
qed auto

lemma senddata_lines:
  "has_lines as L t \<Longrightarrow> telnetd_senddata t s = Some (t', s') \<Longrightarrow> has_lines as L t' \<and> t_state t' = t_state t"
  by (auto simp: telnetd_senddata_def has_lines_def elim!: bind_SomeE)

subsection \<open>Input\<close>

definition more_lines :: "(telnetd \<Rightarrow> telnetd option) \<Rightarrow> bool" where
  "more_lines f \<longleftrightarrow> (\<forall>as L t t'. has_lines as L t \<longrightarrow> f t = Some t' \<longrightarrow> (\<exists>ls. has_lines (as @ ls) L t'))"

lemma more_linesD: "more_lines f \<Longrightarrow> has_lines as L t \<Longrightarrow> f t = Some t' \<Longrightarrow> \<exists>ls. has_lines (as @ ls) L t'"
  by (auto simp: more_lines_def)

lemma adds_lines_more: "adds_lines f \<Longrightarrow> more_lines f"
  by (auto simp: adds_lines_def more_lines_def)

lemma has_lines_state: "has_lines as L (t\<lparr>t_state := st\<rparr>) = has_lines as L t"
  by (simp add: has_lines_def)

lemma get_char_more: "more_lines (get_char c)"
  unfolding more_lines_def
proof (intro allI impI)
  fix as L t t'
  assume h: "has_lines as L t" and g: "get_char c t = Some t'"
  let ?t = "t\<lparr>t_buf := (t_buf t)[unat (t_bufptr t) := c]\<rparr>"
  let ?u = "if t_bufptr ?t > 0 then ?t\<lparr>t_buf := (t_buf ?t)[unat (t_bufptr ?t) := 0]\<rparr> else ?t"
  show "\<exists>ls. has_lines (as @ ls) L t'"
  proof (cases "c = ISO_cr")
    case True
    then show ?thesis using h g by (intro exI [of _ "[]"]) (simp add: get_char_def)
  next
    case cr: False
    show ?thesis
    proof (cases "c = ISO_nl \<or> unat (t_bufptr t) = 39")
      case True
      then obtain t1 where t1: "shell_input (t_buf ?u) ?u = Some t1" "t' = t1\<lparr>t_bufptr := 0\<rparr>"
        using g cr by (auto simp: get_char_def Let_def elim!: bind_SomeE)
      have "has_lines as L ?u" using h by (simp add: has_lines_def)
      then obtain ls where "has_lines (as @ ls) L t1" using shell_input_adds t1(1) unfolding adds_lines_def by blast
      then have "has_lines (as @ ls) L t'" using t1(2) by (simp add: has_lines_def)
      then show ?thesis by blast
    next
      case False
      then have "t' = ?t\<lparr>t_bufptr := t_bufptr t + 1\<rparr>" using g cr by (auto simp: get_char_def Let_def elim!: bind_SomeE)
      moreover have "unat (t_bufptr t + 1) < 40"
      proof -
        have "unat (t_bufptr t) < 39" using False h by (simp add: has_lines_def)
        then show ?thesis by (simp add: unat_word_ariths)
      qed
      ultimately show ?thesis using h by (intro exI [of _ "[]"]) (simp add: has_lines_def)
    qed
  qed
qed

lemma more_lines_state: "more_lines f \<Longrightarrow> more_lines (\<lambda>t. do { t \<leftarrow> f t; Some (t\<lparr>t_state := st\<rparr>) })"
  by (fastforce simp: more_lines_def has_lines_state elim!: bind_SomeE)

lemma input_byte_more: "more_lines (input_byte c)"
proof -
  have s: "more_lines (\<lambda>t. do { t \<leftarrow> sendopt opt c t; Some (t\<lparr>t_state := st\<rparr>) })" for opt st
    by (rule more_lines_state [OF adds_lines_more [OF adds_lines_line [OF sendopt_adds]]])
  have g: "more_lines (\<lambda>t. do { t \<leftarrow> get_char c t; Some (t\<lparr>t_state := st\<rparr>) })" for st
    by (rule more_lines_state [OF get_char_more])
  show ?thesis
    unfolding more_lines_def
  proof (intro allI impI)
    fix as L t t'
    assume h: "has_lines as L t" and i: "input_byte c t = Some t'"
    have none: "\<exists>ls. has_lines (as @ ls) L (t\<lparr>t_state := st\<rparr>)" for st
      using h by (intro exI [of _ "[]"]) (simp add: has_lines_state)
    have "\<exists>ls. has_lines (as @ ls) L t" using h by (intro exI [of _ "[]"]) simp
    then show "\<exists>ls. has_lines (as @ ls) L t'"
      using i none more_linesD [OF s h] more_linesD [OF g h] more_linesD [OF get_char_more h]
      unfolding input_byte_def by (cases "t_state t") (simp_all split: if_splits, blast+)
  qed
qed

text \<open>The bytes one after the other.\<close>

fun input_list :: "u8 list \<Rightarrow> telnetd \<Rightarrow> telnetd option" where
  "input_list [] t = Some t"
| "input_list (c # cs) t = do { t \<leftarrow> input_byte c t; input_list cs t }"

lemma input_list_more: "more_lines (input_list cs)"
proof (induction cs)
  case Nil
  show ?case by (auto simp: more_lines_def intro!: exI [of _ "[]"])
next
  case (Cons c cs)
  show ?case
    unfolding more_lines_def
  proof (intro allI impI)
    fix as L t t'
    assume h: "has_lines as L t" and "input_list (c # cs) t = Some t'"
    then obtain t1 where t1: "input_byte c t = Some t1" "input_list cs t1 = Some t'" by (auto elim!: bind_SomeE)
    obtain ls where "has_lines (as @ ls) L t1" using more_linesD [OF input_byte_more h t1(1)] by blast
    from more_linesD [OF Cons.IH this t1(2)] show "\<exists>ls. has_lines (as @ ls) L t'" by auto
  qed
qed

lemma input_list_append: "input_list (xs @ ys) t = do { t \<leftarrow> input_list xs t; input_list ys t }"
proof (induction xs arbitrary: t)
  case (Cons x xs)
  then show ?case by (cases "input_byte x t") simp_all
qed simp

lemma slice_Cons:
  assumes "slice p (Suc n) b = Some (x # xs)"
  shows "p < length b \<and> b ! p = x \<and> slice (Suc p) n b = Some xs"
proof -
  have p: "p + Suc n \<le> length b" "take (Suc n) (drop p b) = x # xs" using assms by (auto simp: slice_def split: if_splits)
  then have "drop p b = b ! p # drop (Suc p) b" by (simp add: Cons_nth_drop_Suc)
  then show ?thesis using p by (simp add: slice_def)
qed

lemma input_bytes_list:
  "has_lines as L t \<Longrightarrow> slice p (length xs) (uip_buf s) = Some xs \<Longrightarrow> input_bytes (length xs) p t s = input_list xs t"
proof (induction xs arbitrary: p t as)
  case (Cons x xs)
  have s: "rd8_at p s = Some x" "slice (Suc p) (length xs) (uip_buf s) = Some xs"
    using slice_Cons [of p "length xs" "uip_buf s" x xs] Cons.prems(2) by (simp_all add: rd8_at_def rd8_def)
  have b: "unat (t_bufptr t) < 40" using Cons.prems(1) by (simp add: has_lines_def)
  show ?case
  proof (cases "input_byte x t")
    case (Some t1)
    then obtain ls where "has_lines (as @ ls) L t1" using more_linesD [OF input_byte_more Cons.prems(1)] by blast
    then show ?thesis using Cons.IH [of "as @ ls" t1 "Suc p"] s b Some by simp
  qed (use s b in simp)
qed simp

definition carries_input :: "u8 list \<Rightarrow> 'a uip \<Rightarrow> bool" where
  "carries_input xs s \<longleftrightarrow> slice (uip_appdata s) (unat (uip_len s)) (uip_buf s) = Some xs"

lemma newdata_list:
  assumes "has_lines as L t" "carries_input xs s"
  shows "telnetd_newdata t s = input_list xs t"
proof -
  have s: "slice (uip_appdata s) (unat (uip_len s)) (uip_buf s) = Some xs" using assms(2) by (simp add: carries_input_def)
  then have "length xs = unat (uip_len s)" by (rule slice_length)
  then show ?thesis using input_bytes_list [OF assms(1), of "uip_appdata s" xs s] s by (simp add: telnetd_newdata_def)
qed

fun newdata_events :: "telnetd \<Rightarrow> 'a uip list \<Rightarrow> telnetd option" where
  "newdata_events t [] = Some t"
| "newdata_events t (s # ss) = do { t \<leftarrow> telnetd_newdata t s; newdata_events t ss }"

lemma newdata_events_list:
  "list_all2 carries_input xss ss \<Longrightarrow> has_lines as L t \<Longrightarrow> newdata_events t ss = input_list (concat xss) t"
proof (induction xss ss arbitrary: t as rule: list_all2_induct)
  case (Cons xs xss s ss)
  show ?case
  proof (cases "input_list xs t")
    case (Some t1)
    then obtain ls where "has_lines (as @ ls) L t1" using more_linesD [OF input_list_more Cons.prems] by blast
    then show ?thesis using Cons.IH newdata_list [OF Cons.prems Cons.hyps(1)] Some by (simp add: input_list_append)
  qed (use newdata_list [OF Cons.prems Cons.hyps(1)] in \<open>simp add: input_list_append\<close>)
qed simp

text \<open>The input is read as a stream. However its bytes are cut into segments, the telnet commands in it
  and the lines for the shell have the same effect: two sequences of events with the same bytes leave
  the same state, output lines included.\<close>

theorem telnetd_input_stream:
  assumes "has_lines as L t" "list_all2 carries_input xss ss" "list_all2 carries_input xss' ss'" "concat xss = concat xss'"
  shows "newdata_events t ss = newdata_events t ss'"
  by (simp add: newdata_events_list [OF assms(2,1)] newdata_events_list [OF assms(3,1)] assms(4))

subsection \<open>Sessions\<close>

text \<open>C26: No line is lost or freed twice during a session. In an event of an open connection the first lines of the
  table are freed when their sending is acknowledged, the others stay in order, new ones follow, and the blocks
  of the pool that are taken are at any time exactly those of the table's lines, besides the blocks that
  were lost before.\<close>

theorem telnetd_lines_kept:
  assumes "has_lines as L t" "\<forall>f \<in> {UIP_CONNECTED, UIP_CLOSE, UIP_ABORT, UIP_TIMEDOUT}. uip_flags s AND f = 0"
    and "uip_newdata s \<longrightarrow> carries_input xs s" "telnetd_appcall t s = Some (t', s')"
  shows "\<exists>ls. has_lines (drop (if t_state t \<noteq> STATE_CLOSE \<and> uip_acked s then unat (numsent t) else 0) as @ ls) L t'"
proof -
  have f: "uip_flags s AND UIP_CONNECTED = 0" "uip_flags s AND UIP_CLOSE = 0" "uip_flags s AND UIP_ABORT = 0" "uip_flags s AND UIP_TIMEDOUT = 0"
    using assms(2) by simp_all
  show ?thesis
  proof (cases "t_state t = STATE_CLOSE")
    case True
    then show ?thesis using assms(1,4) f by (intro exI [of _ "[]"]) (auto simp: telnetd_appcall_def has_lines_state)
  next
    case False
    let ?as = "drop (if uip_acked s then unat (numsent t) else 0) as"
    obtain t1 where t1: "(if uip_acked s then telnetd_acked t else Some t) = Some t1" "has_lines ?as L t1"
      using acked_from_spec [OF assms(1), of "unat (numsent t)"] assms(1) by (cases "uip_acked s") (auto simp: telnetd_acked_def)
    then obtain t2 where t2: "(if uip_newdata s then telnetd_newdata t1 s else Some t1) = Some t2"
      "(if uip_rexmit s \<or> uip_newdata s \<or> uip_acked s \<or> uip_flags s AND UIP_POLL \<noteq> 0 then telnetd_senddata t2 s else Some (t2, s)) = Some (t', s')"
      using assms(4) f False by (auto simp: telnetd_appcall_def elim!: bind_SomeE)
    have "\<exists>ls. has_lines (?as @ ls) L t2"
    proof (cases "uip_newdata s")
      case True
      then have "input_list xs t1 = Some t2" using t2(1) newdata_list [OF t1(2), of xs s] assms(3) by simp
      then show ?thesis by (rule more_linesD [OF input_list_more t1(2)])
    next
      case False
      then show ?thesis using t2(1) t1(2) by (intro exI [of _ "[]"]) simp
    qed
    then show ?thesis using t2(2) senddata_lines False by (fastforce split: if_splits)
  qed
qed

lemma shell_parse_exit:
  "shell_parse (0x65 # 0x78 # 0x69 # 0x74 # 0 # r) parsetab t = Some (shell_quit t)"
  by (simp add: parsetab_def cstring_def strncmp_eq_numeral)

lemma exit_input:
  assumes "has_lines as L t" "t_state t = STATE_NORMAL" "t_bufptr t = 0" "length as + card L < 16"
    and "input_list (map of_char ''exit'' @ [ISO_nl]) t = Some t1"
  shows "\<exists>a. has_lines (as @ [a]) L t1 \<and> t_state t1 = STATE_CLOSE"
proof -
  have "length (t_buf t) = 40" using assms(1) by (simp add: has_lines_def)
  then obtain b0 b1 b2 b3 b4 r where b: "t_buf t = b0 # b1 # b2 # b3 # b4 # r" "length r = 35"
    by (auto simp: numeral_eq_Suc length_Suc_conv)
  let ?b = "0x65 # 0x78 # 0x69 # 0x74 # 0 # r"
  let ?t = "shell_quit (t\<lparr>t_bufptr := 4, t_buf := ?b\<rparr>)"
  obtain t2 where t2: "shell_prompt SHELL_PROMPT ?t = Some t2" "t1 = t2\<lparr>t_bufptr := 0\<rparr>"
    using assms(2,3,5) b shell_parse_exit
    by (auto simp: input_byte_def get_char_def shell_input_def elim!: bind_SomeE)
  have h: "has_lines as L ?t" using assms(1) b by (simp add: has_lines_def shell_quit_def)
  have "same_input ?t t2 \<and> (if length as + card L = 16 then t2 = ?t else \<exists>a. has_lines (as @ [a]) L t2)"
    by (rule shell_prompt_adds [of SHELL_PROMPT, unfolded adds_line_def, rule_format, OF h t2(1)])
  then have "same_input ?t t2" "\<exists>a. has_lines (as @ [a]) L t2" using assms(4) by simp_all
  then show ?thesis using t2(2) by (auto simp: has_lines_def same_input_def shell_quit_def)
qed

lemma shell_start_state:
  assumes "has_lines as L t" "shell_start t = Some t'"
  shows "(\<exists>ls. has_lines (as @ ls) L t') \<and> t_state t' = t_state t"
proof -
  have k: "(\<exists>ls. has_lines (as @ ls) L u') \<and> t_state u' = t_state u"
    if "adds_line f" "has_lines (as @ ks) L u" "f u = Some u'" for f u u' ks
    using that adds_lines_line [OF that(1)] unfolding adds_line_def adds_lines_def same_input_def by (metis append_assoc)
  obtain t1 t2 where t: "shell_output (cstring ''uIP command shell'') (cstring '''') t = Some t1"
    "shell_output (map of_char ''Type '' @ [0x27, 0x3f, 0x27] @ cstring '' and return for help'') (cstring '''') t1 = Some t2"
    "shell_prompt SHELL_PROMPT t2 = Some t'"
    using assms(2) unfolding shell_start_def by (auto elim!: bind_SomeE)
  obtain ks where ks: "has_lines (as @ ks) L t1" "t_state t1 = t_state t"
    using k [OF shell_output_adds _ t(1), of "[]"] assms(1) by auto
  obtain ls where ls: "has_lines (as @ ls) L t2" "t_state t2 = t_state t1" using k [OF shell_output_adds ks(1) t(2)] by auto
  show ?thesis using k [OF shell_prompt_adds ls(1) t(3)] ls(2) ks(2) by simp
qed

lemma senddata_nothing:
  assumes "has_lines [] L t" "telnetd_senddata t s = Some (t', s')"
  shows "s' = s"
proof -
  have "t_lines t = None # replicate 15 None" using assms(1) replicate_Suc [of 15 None] by (simp add: has_lines_def)
  then show ?thesis using assms(2) by (auto simp: telnetd_senddata_def uip_send_ptr_def uip_send_def elim!: bind_SomeE split: if_splits)
qed


end
