(* ===== verification/UipTelnetSamples.thy ===== *)
theory UipTelnetSamples
  imports UipTelnetRun UipSamples
begin

text \<open>
  The theorems on the telnet server at work, on a server with an empty pool and concrete events.
\<close>

definition bss_telnetd :: telnetd where
  "bss_telnetd = \<lparr>t_lines = replicate 16 None, t_buf = replicate 40 0, t_bufptr = 0, numsent = 0, t_state = STATE_NORMAL,
     linemem = \<lparr>mb_size = 40, mb_count = replicate 16 0, mb_mem = replicate 640 0\<rparr>\<rparr>"

definition telnet_event :: "u8 \<Rightarrow> u8 list \<Rightarrow> unit uip" where
  "telnet_event f msg = bss_uip\<lparr>uip_conn := Some 0, uip_flags := f, uip_appdata := 54, uip_sappdata := 54,
     uip_len := of_nat (length msg), uip_conns := (uip_conns bss_uip)[0 := (uip_conns bss_uip ! 0)\<lparr>mss := 366\<rparr>],
     uip_buf := replicate 54 0 @ msg @ replicate (368 - length msg) 0\<rparr>"

lemma bss_has_lines: "has_lines [] {} bss_telnetd"
  by (auto simp: has_lines_def bss_telnetd_def mem_ok_def memb_ok_def allocated_def)

lemma telnet_carries: "length msg \<le> 368 \<Longrightarrow> carries_input msg (telnet_event f msg)"
  by (simp add: carries_input_def telnet_event_def slice_def unat_small)

lemma telnet_flags: "uip_flags (telnet_event f msg) = f"
  by (simp add: telnet_event_def)

definition exit_bytes :: "u8 list" where
  "exit_bytes = map of_char ''exit'' @ [ISO_nl]"

lemma help_returns: "\<not> Option.is_none (telnetd_appcall bss_telnetd (telnet_event UIP_NEWDATA [0x3f, ISO_nl]))"
  by code_simp

lemma exit_returns: "\<not> Option.is_none (do {
    (t1, s1) \<leftarrow> telnetd_appcall bss_telnetd (telnet_event UIP_NEWDATA exit_bytes);
    (t2, s2) \<leftarrow> telnetd_appcall t1 (telnet_event UIP_POLL []);
    telnetd_appcall t2 (telnet_event UIP_CONNECTED []) })"
  by code_simp

theorem telnetd_input_stream_witness:
  "newdata_events bss_telnetd [telnet_event UIP_NEWDATA [0x3f], telnet_event UIP_NEWDATA [ISO_nl]] =
   newdata_events bss_telnetd [telnet_event UIP_NEWDATA [0x3f, ISO_nl]]"
  by (rule telnetd_input_stream [OF bss_has_lines, of "[[0x3f], [ISO_nl]]" _ "[[0x3f, ISO_nl]]"])
    (simp_all add: telnet_carries)

theorem telnetd_lines_kept_witness:
  "\<exists>t' s' ls. telnetd_appcall bss_telnetd (telnet_event UIP_NEWDATA [0x3f, ISO_nl]) = Some (t', s') \<and> has_lines ls {} t'"
proof -
  obtain t' s' where r: "telnetd_appcall bss_telnetd (telnet_event UIP_NEWDATA [0x3f, ISO_nl]) = Some (t', s')"
    using help_returns by (auto simp: Option.is_none_def)
  have "\<exists>ls. has_lines (drop (if t_state bss_telnetd \<noteq> STATE_CLOSE \<and> uip_acked (telnet_event UIP_NEWDATA [0x3f, ISO_nl])
      then unat (numsent bss_telnetd) else 0) [] @ ls) {} t'"
    by (rule telnetd_lines_kept [OF bss_has_lines _ _ r, of "[0x3f, ISO_nl]"]) (simp_all add: telnet_flags telnet_carries)
  then show ?thesis using r by auto
qed


end
