(* ===== verification/UipHello.thy ===== *)
theory UipHello
  imports UipPsock UipStrings UipConn
begin

text \<open>
  The example application (\<^verbatim>\<open>apps/hello-world/hello-world.c\<close>): it asks for a name and greets.
  Its one thread reads and sends on the same protosocket. What it greets is the input buffer up to
  a zero, whatever an earlier connection has left there behind the name.
\<close>

subsection \<open>The application\<close>

record hello_world_state =
  hw_p :: psock
  hw_inputbuffer :: "u8 list"
  hw_name :: "u8 list"

type_synonym 'a hello_result = "(pt_result \<times> hello_world_state \<times> 'a uip) option"

definition hello_world_init :: "'a uip \<Rightarrow> 'a uip" where
  "hello_world_init s = uip_listen (HTONS 1000) s"

definition hello_question :: "u8 list" where
  "hello_question = map of_char ''Hello. What is your name?'' @ [0x0a, 0]"

definition hello_greeting :: "u8 list" where
  "hello_greeting = cstring ''Hello ''"

text \<open>\<^verbatim>\<open>PSOCK_SEND_STR\<close> and \<^verbatim>\<open>PSOCK_READTO\<close> in line \<open>l\<close>, once.\<close>

definition hello_send_str :: "lc \<Rightarrow> u8 list \<Rightarrow> hello_world_state \<Rightarrow> 'a uip \<Rightarrow> 'a hello_result" where
  "hello_send_str l str h s = do {
     n \<leftarrow> strlen str;
     (r, p, s) \<leftarrow> psock_send str (of_nat n) ((hw_p h)\<lparr>pt := l\<rparr>) s;
     Some (r, h\<lparr>hw_p := p\<rparr>, s) }"

definition hello_readto :: "lc \<Rightarrow> u8 \<Rightarrow> hello_world_state \<Rightarrow> 'a uip \<Rightarrow> (pt_result \<times> hello_world_state) option" where
  "hello_readto l c h s = do {
     (r, ib, p) \<leftarrow> psock_readto c (hw_inputbuffer h) ((hw_p h)\<lparr>pt := l\<rparr>) s;
     Some (r, h\<lparr>hw_inputbuffer := ib, hw_p := p\<rparr>) }"

text \<open>The statements of \<^verbatim>\<open>handle_connection\<close>, each up to the function's end.\<close>

definition hello_end :: "hello_world_state \<Rightarrow> 'a uip \<Rightarrow> 'a hello_result" where
  "hello_end h s = Some (PT_ENDED, h\<lparr>hw_p := (hw_p h)\<lparr>pt := 0\<rparr>\<rparr>, s)"

definition hello_send_name :: "hello_world_state \<Rightarrow> 'a uip \<Rightarrow> 'a hello_result" where
  "hello_send_name h s = do {
     (r, h, s) \<leftarrow> hello_send_str 95 (hw_name h) h s;
     if r = PT_WAITING then Some (PT_WAITING, h, s) else hello_end h (uip_close s) }"

definition hello_send_greeting :: "hello_world_state \<Rightarrow> 'a uip \<Rightarrow> 'a hello_result" where
  "hello_send_greeting h s = do {
     (r, h, s) \<leftarrow> hello_send_str 94 hello_greeting h s;
     if r = PT_WAITING then Some (PT_WAITING, h, s) else hello_send_name h s }"

definition hello_read_name :: "hello_world_state \<Rightarrow> 'a uip \<Rightarrow> 'a hello_result" where
  "hello_read_name h s = do {
     (r, h) \<leftarrow> hello_readto 92 0x0a h s;
     if r = PT_WAITING then Some (PT_WAITING, h, s)
     else do {
       n \<leftarrow> strncpy 40 (hw_inputbuffer h);
       hello_send_greeting (h\<lparr>hw_name := n\<rparr>) s } }"

definition hello_ask :: "hello_world_state \<Rightarrow> 'a uip \<Rightarrow> 'a hello_result" where
  "hello_ask h s = do {
     (r, h, s) \<leftarrow> hello_send_str 91 hello_question h s;
     if r = PT_WAITING then Some (PT_WAITING, h, s) else hello_read_name h s }"

definition hello_connection :: "hello_world_state \<Rightarrow> 'a uip \<Rightarrow> 'a hello_result" where
  "hello_connection h s =
     (if pt (hw_p h) = 0 \<or> pt (hw_p h) = 91 then hello_ask h s
      else if pt (hw_p h) = 92 then hello_read_name h s
      else if pt (hw_p h) = 94 then hello_send_greeting h s
      else if pt (hw_p h) = 95 then hello_send_name h s
      else hello_end h s)"

definition hello_event :: "hello_world_state \<Rightarrow> 'a uip \<Rightarrow> (hello_world_state \<times> 'a uip) option" where
  "hello_event h s = (let
     h = (if uip_flags s AND UIP_CONNECTED \<noteq> 0 then h\<lparr>hw_p := psock_init 0 10 (hw_p h)\<rparr> else h) in do {
     (_, h, s) \<leftarrow> hello_connection h s;
     Some (h, s) })"

definition hello_world_appcall :: "hello_world_state uip \<Rightarrow> hello_world_state uip option" where
  "hello_world_appcall s = do {
     r \<leftarrow> uip_conn s;
     (h, s) \<leftarrow> hello_event (appstate (cn r s)) s;
     Some (upd r (\<lambda>c. c\<lparr>appstate := h\<rparr>) s) }"

subsection \<open>Sending a string\<close>

text \<open>The events after one another, with the states of the stack after them.\<close>

fun hello_events :: "hello_world_state \<Rightarrow> 'a uip list \<Rightarrow> (hello_world_state \<times> 'a uip list) option" where
  "hello_events h [] = Some (h, [])"
| "hello_events h (s # ss) = do {
     (h, s') \<leftarrow> hello_event h s;
     (h, os) \<leftarrow> hello_events h ss;
     Some (h, s' # os) }"

lemma hello_events_append:
  "hello_events h as = Some (h', os) \<Longrightarrow> hello_events h' bs = Some (h'', os') \<Longrightarrow>
   hello_events h (as @ bs) = Some (h'', os @ os')"
  by (induction as arbitrary: h os) (auto elim!: bind_SomeE)

definition later :: "'a uip \<Rightarrow> bool" where
  "later s \<longleftrightarrow> uip_flags s AND UIP_CONNECTED = 0"

text \<open>The connection waits in line \<open>l\<close> for the acknowledgement of the string \<open>us\<close>.\<close>

definition sends :: "lc \<Rightarrow> u8 list \<Rightarrow> hello_world_state \<Rightarrow> bool" where
  "sends l us h \<longleftrightarrow> (\<exists>zs p. hw_p h = sending (us @ 0 # zs) (length us) p \<and> pt p = l) \<and> us \<noteq> []"

lemma hello_send_str_starts:
  assumes "psockpt (hw_p h) = 0" "us \<noteq> []" "0 \<notin> set us" "fits (length us) s"
  shows "\<exists>p. hello_send_str l (us @ 0 # zs) h s = Some (PT_WAITING, h\<lparr>hw_p := p\<rparr>, put_chunk us s) \<and>
    sends l us (h\<lparr>hw_p := p\<rparr>) \<and> bufptr p = bufptr (hw_p h) \<and> bufsize p = bufsize (hw_p h) \<and> readlen p = readlen (hw_p h)"
proof -
  let ?p = "(hw_p h)\<lparr>pt := l\<rparr>"
  have "psock_send (us @ 0 # zs) (of_nat (length us)) ?p s =
      Some (PT_WAITING, sending (us @ 0 # zs) (length us) ?p, put_chunk us s)"
    using psock_send_starts [of ?p "length us" "us @ 0 # zs" s] assms by simp
  moreover have "sends l us (h\<lparr>hw_p := sending (us @ 0 # zs) (length us) ?p\<rparr>)"
    using assms(2) unfolding sends_def by (intro conjI exI [of _ zs] exI [of _ ?p]) simp_all
  ultimately show ?thesis using assms(3)
    by (intro exI [of _ "sending (us @ 0 # zs) (length us) ?p"])
      (simp add: hello_send_str_def strlen_string, simp add: sending_def)
qed

lemma sends_pt: "sends l us h \<Longrightarrow> pt (hw_p h) = l \<and> h\<lparr>hw_p := (hw_p h)\<lparr>pt := l\<rparr>\<rparr> = h"
  by (auto simp: sends_def sending_def)

lemma hello_send_str_waits:
  assumes "sends l us h" "fits (length us) s" "\<not> uip_acked s" "strlen str = Some n"
  shows "hello_send_str l str h s = Some (PT_WAITING, h, if uip_rexmit s then put_chunk us s else s)"
proof -
  obtain zs p where p: "hw_p h = sending (us @ 0 # zs) (length us) p" "pt p = l" "us \<noteq> []"
    using assms(1) by (auto simp: sends_def)
  have "(hw_p h)\<lparr>pt := l\<rparr> = sending (us @ 0 # zs) (length us) p" using p by (simp add: sending_def)
  then show ?thesis
    using psock_send_waits [of "length us" "us @ 0 # zs" s str "of_nat n" p] p(1,3) assms(2-4)
    by (simp add: hello_send_str_def)
qed

lemma hello_send_str_ends:
  assumes "sends l us h" "fits (length us) s" "uip_acked s" "strlen str = Some n"
  shows "\<exists>p. hello_send_str l str h s = Some (PT_ENDED, h\<lparr>hw_p := p\<rparr>, s) \<and> psockpt p = 0 \<and> psstate p = STATE_NONE \<and>
    bufptr p = bufptr (hw_p h) \<and> bufsize p = bufsize (hw_p h) \<and> readlen p = readlen (hw_p h)"
proof -
  obtain zs p where p: "hw_p h = sending (us @ 0 # zs) (length us) p" "pt p = l"
    using assms(1) by (auto simp: sends_def)
  have "(hw_p h)\<lparr>pt := l\<rparr> = sending (us @ 0 # zs) (length us) p" using p by (simp add: sending_def)
  then show ?thesis
    using psock_send_ends [of "length us" s str "of_nat n" "us @ 0 # zs" p] p(1) assms(2-4)
    by (intro exI [of _ "p\<lparr>sendptr := Data (drop (length us) (us @ 0 # zs)), sendlen := 0, psstate := STATE_NONE, psockpt := 0\<rparr>"])
      (simp add: hello_send_str_def, simp add: sending_def)
qed

text \<open>Until the acknowledgement the string is sent again when the stack asks for it.\<close>

abbreviation again :: "u8 list \<Rightarrow> 'a uip \<Rightarrow> 'a uip" where
  "again us s \<equiv> (if uip_rexmit s then put_chunk us s else s)"

lemma hello_waits:
  assumes "sends l us h" "l \<in> {91, 94, 95}" "l = 95 \<Longrightarrow> 0 \<in> set (hw_name h)"
    and "\<forall>s \<in> set ss. later s \<and> fits (length us) s \<and> \<not> uip_acked s"
  shows "hello_events h ss = Some (h, map (again us) ss)"
  using assms(4)
proof (induction ss)
  case (Cons s ss)
  have s: "strlen hello_question = Some 26" "strlen hello_greeting = Some 6"
    by (simp_all add: hello_question_def hello_greeting_def cstring_def)
  have n: "\<exists>n. strlen (hw_name h) = Some n" if "l = 95"
  proof -
    have "0 \<in> set (hw_name h)" by (rule assms(3)) (rule that)
    then obtain us' ys where "hw_name h = us' @ 0 # ys" "0 \<notin> set us'" using split_list_first by metis
    then show ?thesis by (simp add: strlen_string)
  qed
  have w: "hello_send_str l str h s = Some (PT_WAITING, h, again us s)" if "strlen str = Some n" for str n
    by (rule hello_send_str_waits [OF assms(1) _ _ that]) (use Cons.prems in simp_all)
  have "hello_event h s = Some (h, again us s)"
    using Cons.prems assms(2) sends_pt [OF assms(1)] w [OF s(1)] w [OF s(2)] n w
    by (auto simp: hello_event_def later_def hello_connection_def hello_ask_def hello_send_greeting_def hello_send_name_def)
  then show ?case using Cons by simp
qed simp

subsection \<open>Reading the name\<close>

definition hears :: "u8 list \<Rightarrow> u8 list \<Rightarrow> hello_world_state \<Rightarrow> bool" where
  "hears ib0 line h \<longleftrightarrow> pt (hw_p h) = 92 \<and> readlen (hw_p h) = 0 \<and> psstate (hw_p h) \<noteq> STATE_READ \<and> bufptr (hw_p h) = 0 \<and>
     bufsize (hw_p h) = 10 \<and> reader 10 ib0 line (hw_inputbuffer h) (hw_p h)"

lemma hello_readto_spec:
  assumes "reader 10 ib0 line (hw_inputbuffer h) (hw_p h)" "bufptr (hw_p h) = 0" "bufsize (hw_p h) = 10"
    and "available (hw_p h) s = Some xs"
  shows "\<exists>p ib. hello_readto 92 c h s = Some (if c \<in> set xs then PT_ENDED else PT_WAITING, h\<lparr>hw_inputbuffer := ib, hw_p := p\<rparr>) \<and>
    (c \<in> set xs \<longrightarrow> psockpt p = 0 \<and> ib = patch ib0 0 (take 10 (line @ upto_marker c xs)) \<and> length ib = length ib0) \<and>
    (c \<notin> set xs \<longrightarrow> hears ib0 (line @ xs) (h\<lparr>hw_inputbuffer := ib, hw_p := p\<rparr>))"
proof -
  let ?p = "(hw_p h)\<lparr>pt := 92\<rparr>"
  have r: "reader 10 ib0 line (hw_inputbuffer h) ?p" using assms(1) using reading_cong [of ?p "hw_p h"] by (simp add: reader_def)
  have "available ?p s = available (hw_p h) s" by (simp add: available_def)
  then have a: "available ?p s = Some xs" using assms(4) by simp
  obtain res ib p where res: "psock_readto c (hw_inputbuffer h) ?p s = Some (res, ib, p)"
    "readto_result c 10 ib0 line xs ?p s (res, ib, p)"
    using psock_readto_spec [OF r _ a, of c] by auto
  have e: "hello_readto 92 c h s = Some (res, h\<lparr>hw_inputbuffer := ib, hw_p := p\<rparr>)"
    using res(1) by (simp add: hello_readto_def)
  show ?thesis
  proof (cases "c \<in> set xs")
    case True
    then have rd: "reading 10 ib0 (line @ upto_marker c xs) ib p" "res = PT_ENDED" "psockpt p = 0" "bufptr p = 0"
      using res(2) assms(2) by (simp_all add: readto_result_def)
    from reading_length [OF rd(1)] rd show ?thesis using e True by (auto simp: reading_def)
  next
    case False
    then show ?thesis using e readto_result_waiting [OF res(2) False] res(2) assms(2,3)
      by (auto simp: hears_def readto_result_def)
  qed
qed

lemma hears_available: "hears ib0 line h \<Longrightarrow> brings s xs \<Longrightarrow> available (hw_p h) s = Some xs"
  by (simp add: hears_def available_def brings_def)

lemma hello_hears:
  assumes "list_all2 brings ss xss" "hears ib0 line h" "0x0a \<notin> set (concat xss)" "\<forall>s \<in> set ss. later s"
  shows "\<exists>h'. hello_events h ss = Some (h', ss) \<and> hears ib0 (line @ concat xss) h'"
  using assms
proof (induction ss xss arbitrary: line h rule: list_all2_induct)
  case (Cons s ss xs xss)
  have nl: "0x0a \<notin> set xs" using Cons.prems(2) by simp
  have h: "reader 10 ib0 line (hw_inputbuffer h) (hw_p h)" "bufptr (hw_p h) = 0" "bufsize (hw_p h) = 10" "pt (hw_p h) = 92"
    using Cons.prems(1) by (simp_all add: hears_def)
  obtain p ib where p: "hello_readto 92 0x0a h s = Some (PT_WAITING, h\<lparr>hw_inputbuffer := ib, hw_p := p\<rparr>)"
    "hears ib0 (line @ xs) (h\<lparr>hw_inputbuffer := ib, hw_p := p\<rparr>)"
    using hello_readto_spec [OF h(1-3) hears_available [OF Cons.prems(1) Cons.hyps(1)], of "0x0a"] nl by auto
  have "hello_event h s = Some (h\<lparr>hw_inputbuffer := ib, hw_p := p\<rparr>, s)"
    using p(1) h(4) Cons.prems(3) by (simp add: hello_event_def later_def hello_connection_def hello_read_name_def)
  moreover obtain h' where "hello_events (h\<lparr>hw_inputbuffer := ib, hw_p := p\<rparr>) ss = Some (h', ss)"
      "hears ib0 ((line @ xs) @ concat xss) h'"
    using Cons.IH [OF p(2)] Cons.prems(2,3) by auto
  ultimately show ?case by simp
qed simp

abbreviation question_text :: "u8 list" where
  "question_text \<equiv> map of_char ''Hello. What is your name?'' @ [0x0a]"

abbreviation greeting_text :: "u8 list" where
  "greeting_text \<equiv> map of_char ''Hello ''"

lemma hello_texts:
  "hello_question = question_text @ 0 # []" "hello_greeting = greeting_text @ 0 # []"
  "length question_text = 26" "length greeting_text = 6" "0 \<notin> set question_text" "0 \<notin> set greeting_text"
  by (simp_all add: hello_question_def hello_greeting_def cstring_def)

subsection \<open>The conversation\<close>

lemma hello_asks:
  assumes "uip_flags s AND UIP_CONNECTED \<noteq> 0" "fits 26 s"
  shows "\<exists>p. hello_event h s = Some (h\<lparr>hw_p := p\<rparr>, put_chunk question_text s) \<and> sends 91 question_text (h\<lparr>hw_p := p\<rparr>) \<and>
    bufptr p = 0 \<and> bufsize p = 10 \<and> readlen p = 0"
proof -
  let ?h = "h\<lparr>hw_p := psock_init 0 10 (hw_p h)\<rparr>"
  have i: "psockpt (hw_p ?h) = 0" "pt (hw_p ?h) = 0" "bufptr (hw_p ?h) = 0" "bufsize (hw_p ?h) = 10" "readlen (hw_p ?h) = 0"
    by (simp_all add: psock_init_def)
  obtain p where "hello_send_str 91 hello_question ?h s = Some (PT_WAITING, ?h\<lparr>hw_p := p\<rparr>, put_chunk question_text s)"
    "sends 91 question_text (?h\<lparr>hw_p := p\<rparr>)" "bufptr p = 0" "bufsize p = 10" "readlen p = 0"
    using hello_send_str_starts [OF i(1) _ hello_texts(5), of s 91 "[]"] assms(2) i(3-5)
    unfolding hello_texts(1,3) by auto
  then show ?thesis using i(2) assms(1)
    by (intro exI [of _ p]) (simp add: hello_event_def hello_connection_def hello_ask_def)
qed

lemma hello_listens:
  assumes "sends 91 question_text h" "bufptr (hw_p h) = 0" "bufsize (hw_p h) = 10" "readlen (hw_p h) = 0"
    and "length (hw_inputbuffer h) = 10" "later s" "fits 26 s" "uip_acked s" "\<not> uip_newdata s"
  shows "\<exists>h'. hello_event h s = Some (h', s) \<and> hears (hw_inputbuffer h) [] h'"
proof -
  have l: "fits (length question_text) s" using assms(7) by (simp only: hello_texts(3))
  obtain p where p: "hello_send_str 91 hello_question h s = Some (PT_ENDED, h\<lparr>hw_p := p\<rparr>, s)" "psockpt p = 0"
    "psstate p = STATE_NONE" "bufptr p = 0" "bufsize p = 10" "readlen p = 0"
    using hello_send_str_ends [OF assms(1) l assms(8), of hello_question 26] assms(2-4)
    by (auto simp: hello_question_def)
  let ?h = "h\<lparr>hw_p := p\<rparr>"
  have "reader 10 (hw_inputbuffer h) [] (hw_inputbuffer ?h) (hw_p ?h)" "available (hw_p ?h) s = Some []"
    using p assms(5,9) by (simp_all add: reader_def available_def)
  from hello_readto_spec [OF this(1) _ _ this(2), of "0x0a"] p(4,5) obtain q ib where
    "hello_readto 92 0x0a ?h s = Some (PT_WAITING, ?h\<lparr>hw_inputbuffer := ib, hw_p := q\<rparr>)"
    "hears (hw_inputbuffer h) [] (?h\<lparr>hw_inputbuffer := ib, hw_p := q\<rparr>)" by auto
  then show ?thesis using p(1) sends_pt [OF assms(1)] assms(6)
    by (simp add: hello_event_def later_def hello_connection_def hello_ask_def hello_read_name_def)
qed

lemma hello_named:
  assumes "hears ib0 line h" "brings s xs" "0x0a \<in> set xs" "later s" "fits 6 s" "length ib0 = 10"
    and "patch ib0 0 (take 10 (line @ upto_marker 0x0a xs)) = us @ 0 # ys" "0 \<notin> set us"
  shows "\<exists>h'. hello_event h s = Some (h', put_chunk greeting_text s) \<and> sends 94 greeting_text h' \<and>
    hw_name h' = us @ 0 # replicate (39 - length us) 0"
proof -
  have h: "reader 10 ib0 line (hw_inputbuffer h) (hw_p h)" "bufptr (hw_p h) = 0" "bufsize (hw_p h) = 10" "pt (hw_p h) = 92"
    using assms(1) by (simp_all add: hears_def)
  obtain p ib where p: "hello_readto 92 0x0a h s = Some (PT_ENDED, h\<lparr>hw_inputbuffer := ib, hw_p := p\<rparr>)"
    "psockpt p = 0" "ib = us @ 0 # ys" "length ib = 10"
    using hello_readto_spec [OF h(1-3) hears_available [OF assms(1,2)], of "0x0a"] assms(3,6,7) by auto
  have "length us < 40" using p(3,4) by simp
  then have n: "strncpy 40 ib = Some (us @ 0 # replicate (39 - length us) 0)"
    using strncpy_fits [OF assms(8), of 40 ys] p(3) by simp
  let ?h = "h\<lparr>hw_inputbuffer := ib, hw_p := p, hw_name := us @ 0 # replicate (39 - length us) 0\<rparr>"
  obtain q where "hello_send_str 94 hello_greeting ?h s = Some (PT_WAITING, ?h\<lparr>hw_p := q\<rparr>, put_chunk greeting_text s)"
    "sends 94 greeting_text (?h\<lparr>hw_p := q\<rparr>)"
    using hello_send_str_starts [of ?h greeting_text s 94 "[]", OF _ _ hello_texts(6)] assms(5) p(2)
    unfolding hello_texts(2,4) by auto
  then show ?thesis using p(1) n h(4) assms(4)
    by (intro exI [of _ "?h\<lparr>hw_p := q\<rparr>"])
      (simp add: hello_event_def later_def hello_connection_def hello_read_name_def hello_send_greeting_def)
qed

lemma hello_greeted:
  assumes "sends 94 greeting_text h" "hw_name h = us @ 0 # zs" "0 \<notin> set us" "us \<noteq> []"
    and "later s" "uip_acked s" "fits 6 s" "fits (length us) s"
  shows "\<exists>h'. hello_event h s = Some (h', put_chunk us s) \<and> sends 95 us h' \<and> hw_name h' = us @ 0 # zs"
proof -
  have l: "fits (length greeting_text) s" using assms(7) by (simp only: hello_texts(4))
  obtain p where p: "hello_send_str 94 hello_greeting h s = Some (PT_ENDED, h\<lparr>hw_p := p\<rparr>, s)" "psockpt p = 0"
    using hello_send_str_ends [OF assms(1) l assms(6), of hello_greeting 6]
    by (auto simp: hello_greeting_def cstring_def)
  let ?h = "h\<lparr>hw_p := p\<rparr>"
  obtain q where "hello_send_str 95 (us @ 0 # zs) ?h s = Some (PT_WAITING, ?h\<lparr>hw_p := q\<rparr>, put_chunk us s)"
    "sends 95 us (?h\<lparr>hw_p := q\<rparr>)"
    using hello_send_str_starts [of ?h us s 95 zs] assms(3,4,8) p(2) by auto
  then show ?thesis using p(1) sends_pt [OF assms(1)] assms(2,5)
    by (intro exI [of _ "?h\<lparr>hw_p := q\<rparr>"])
      (simp add: hello_event_def later_def hello_connection_def hello_send_greeting_def hello_send_name_def)
qed

lemma hello_closes:
  assumes "sends 95 us h" "hw_name h = us @ 0 # zs" "0 \<notin> set us" "later s" "uip_acked s" "fits (length us) s"
  shows "\<exists>h'. hello_event h s = Some (h', uip_close s) \<and> pt (hw_p h') = 0"
proof -
  obtain p where "hello_send_str 95 (us @ 0 # zs) h s = Some (PT_ENDED, h\<lparr>hw_p := p\<rparr>, s)"
    using hello_send_str_ends [OF assms(1,6,5), of "us @ 0 # zs" "length us"] strlen_string [OF assms(3)] by auto
  then show ?thesis using sends_pt [OF assms(1)] assms(2,4)
    by (simp add: hello_event_def later_def hello_connection_def hello_send_name_def hello_end_def)
qed

text \<open>The whole conversation: the question is sent, and again whenever the stack asks; the line that is
  read, in any segments, is greeted; the acknowledgement of the name closes the connection. The name
  \<open>us\<close> is the input buffer up to its first zero: the line and what was behind it before.\<close>

theorem hello_greets:
  assumes "uip_flags s0 AND UIP_CONNECTED \<noteq> 0" "fits 26 s0" "length (hw_inputbuffer h) = 10"
    and "\<forall>s \<in> set ss1. later s \<and> fits 26 s \<and> \<not> uip_acked s"
    and "later s1" "fits 26 s1" "uip_acked s1" "\<not> uip_newdata s1"
    and "list_all2 brings rs xss" "0x0a \<notin> set (concat xss)" "\<forall>s \<in> set rs. later s"
    and "brings r (ys @ 0x0a # zs)" "0x0a \<notin> set ys" "later r" "fits 6 r"
    and "patch (hw_inputbuffer h) 0 (take 10 (concat xss @ ys @ [0x0a])) = us @ 0 # vs" "0 \<notin> set us" "us \<noteq> []"
    and "\<forall>s \<in> set ss2. later s \<and> fits 6 s \<and> \<not> uip_acked s"
    and "later s2" "uip_acked s2" "fits 6 s2" "fits (length us) s2"
    and "\<forall>s \<in> set ss3. later s \<and> fits (length us) s \<and> \<not> uip_acked s"
    and "later s3" "uip_acked s3" "fits (length us) s3"
  shows "\<exists>h'. hello_events h (([s0] @ ss1 @ [s1]) @ (rs @ [r]) @ (ss2 @ [s2]) @ ss3 @ [s3]) = Some (h',
    ([put_chunk question_text s0] @ map (again question_text) ss1 @ [s1]) @
    (rs @ [put_chunk greeting_text r]) @ (map (again greeting_text) ss2 @ [put_chunk us s2]) @
    map (again us) ss3 @ [uip_close s3])"
proof -
  obtain p where h0: "hello_event h s0 = Some (h\<lparr>hw_p := p\<rparr>, put_chunk question_text s0)"
    "sends 91 question_text (h\<lparr>hw_p := p\<rparr>)" "bufptr p = 0" "bufsize p = 10" "readlen p = 0"
    using hello_asks [OF assms(1,2)] by blast
  have w1: "hello_events (h\<lparr>hw_p := p\<rparr>) ss1 = Some (h\<lparr>hw_p := p\<rparr>, map (again question_text) ss1)"
    by (rule hello_waits [OF h0(2)]) (use assms(4) in \<open>simp_all only: hello_texts(3), simp_all\<close>)
  obtain h1 where h1: "hello_event (h\<lparr>hw_p := p\<rparr>) s1 = Some (h1, s1)" "hears (hw_inputbuffer h) [] h1"
    using hello_listens [OF h0(2) _ _ _ _ assms(5-8)] h0(3-5) assms(3) by auto
  obtain h2 where h2: "hello_events h1 rs = Some (h2, rs)" "hears (hw_inputbuffer h) (concat xss) h2"
    using hello_hears [OF assms(9) h1(2) assms(10,11)] by auto
  have u: "upto_marker 0x0a (ys @ 0x0a # zs) = ys @ [0x0a]" using assms(13) by (simp add: upto_marker_append)
  obtain h3 where h3: "hello_event h2 r = Some (h3, put_chunk greeting_text r)" "sends 94 greeting_text h3"
    "hw_name h3 = us @ 0 # replicate (39 - length us) 0"
    using hello_named [OF h2(2) assms(12) _ assms(14,15,3) _ assms(17)] assms(16) unfolding u by auto
  have w3: "hello_events h3 ss2 = Some (h3, map (again greeting_text) ss2)"
    by (rule hello_waits [OF h3(2)]) (use assms(19) in \<open>simp_all only: hello_texts(4), simp_all\<close>)
  obtain h4 where h4: "hello_event h3 s2 = Some (h4, put_chunk us s2)" "sends 95 us h4"
    "hw_name h4 = us @ 0 # replicate (39 - length us) 0"
    using hello_greeted [OF h3(2,3) assms(17,18,20-23)] by blast
  have w4: "hello_events h4 ss3 = Some (h4, map (again us) ss3)"
    by (rule hello_waits [OF h4(2)]) (use h4(3) assms(24) in simp_all)
  obtain h5 where h5: "hello_event h4 s3 = Some (h5, uip_close s3)"
    using hello_closes [OF h4(2,3) assms(17,25-27)] by blast
  have e1: "hello_events h ([s0] @ ss1 @ [s1]) = Some (h1, [put_chunk question_text s0] @ map (again question_text) ss1 @ [s1])"
    by (rule hello_events_append [OF _ hello_events_append [OF w1]]) (simp_all add: h0(1) h1(1))
  have e2: "hello_events h1 (rs @ [r]) = Some (h3, rs @ [put_chunk greeting_text r])"
    by (intro hello_events_append [OF h2(1)]) (simp add: h3(1))
  have e3: "hello_events h3 (ss2 @ [s2]) = Some (h4, map (again greeting_text) ss2 @ [put_chunk us s2])"
    by (intro hello_events_append [OF w3]) (simp add: h4(1))
  have e4: "hello_events h4 (ss3 @ [s3]) = Some (h5, map (again us) ss3 @ [uip_close s3])"
    by (intro hello_events_append [OF w4]) (simp add: h5)
  show ?thesis by (rule exI) (rule hello_events_append [OF e1 hello_events_append [OF e2 hello_events_append [OF e3 e4]]])
qed

text \<open>A line that leaves no zero in the input buffer is read past the buffer's end.\<close>

theorem hello_long_name_overread:
  assumes "hears ib0 line h" "brings s xs" "0x0a \<in> set xs" "later s" "length ib0 = 10"
    and "0 \<notin> set (line @ xs)" "10 \<le> length (line @ upto_marker 0x0a xs)"
  shows "hello_event h s = None"
proof -
  have h: "reader 10 ib0 line (hw_inputbuffer h) (hw_p h)" "bufptr (hw_p h) = 0" "bufsize (hw_p h) = 10" "pt (hw_p h) = 92"
    using assms(1) by (simp_all add: hears_def)
  let ?l = "take 10 (line @ upto_marker 0x0a xs)"
  obtain p ib where p: "hello_readto 92 0x0a h s = Some (PT_ENDED, h\<lparr>hw_inputbuffer := ib, hw_p := p\<rparr>)" "ib = patch ib0 0 ?l"
    using hello_readto_spec [OF h(1-3) hears_available [OF assms(1,2)], of "0x0a"] assms(3) by auto
  have l: "length ?l = 10" using assms(7) by (simp only: length_take)
  then have ib: "ib = ?l" using p(2) assms(5) by (simp add: patch_def)
  have "set ?l \<subseteq> set (line @ xs)"
    using set_take_subset [of 10 "line @ upto_marker 0x0a xs"] upto_marker_prefix [of "0x0a" xs]
      set_take_subset [of "length (upto_marker 0x0a xs)" xs] by auto
  then have "0 \<notin> set ?l" using assms(6) by blast
  then have "strncpy 40 ib = None" unfolding ib by (rule strncpy_short) (simp only: l)
  then show ?thesis using p(1) h(4) assms(4)
    by (simp add: hello_event_def later_def hello_connection_def hello_read_name_def)
qed

end
