(* ===== verification/UipHelloSamples.thy ===== *)
theory UipHelloSamples
  imports UipHello UipWebSamples
begin

text \<open>
  The example application at work: a visitor is greeted with the rest of an earlier visitor's name
  behind his own, and a long name is read past its array.
\<close>

text \<open>The application's state in a connection that was used before, by \<open>Alexande\<close>.\<close>

definition used_hello :: hello_world_state where
  "used_hello = \<lparr>hw_p = fresh_psock, hw_inputbuffer = map of_char ''Alexande'' @ [0x0a, 0], hw_name = replicate 40 0\<rparr>"

abbreviation bob :: "u8 list" where
  "bob \<equiv> map of_char ''Bob''"

lemma fits_event: "n \<le> 366 \<Longrightarrow> fits n (event_state 366 f)"
  by (simp add: fits_def)

lemma fits_data_event: "n \<le> 366 \<Longrightarrow> length xs \<le> 366 \<Longrightarrow> fits n (data_event xs)"
  by (simp add: fits_def data_event_def room_def uip_mss_def event_state_def cn_def bss_uip_def length_patch)

lemma data_event_later: "later (data_event xs)"
  by (simp add: later_def data_event_def event_state_def)

theorem hello_greets_witness:
  "\<exists>h'. hello_events used_hello [event_state 366 UIP_CONNECTED, event_state 366 UIP_ACKDATA, data_event (bob @ [0x0a]),
      event_state 366 UIP_ACKDATA, event_state 366 UIP_ACKDATA] = Some (h',
    [put_chunk question_text (event_state 366 UIP_CONNECTED), event_state 366 UIP_ACKDATA,
     put_chunk greeting_text (data_event (bob @ [0x0a])),
     put_chunk (bob @ [0x0a] @ map of_char ''ande'' @ [0x0a]) (event_state 366 UIP_ACKDATA),
     uip_close (event_state 366 UIP_ACKDATA)])"
proof -
  have p: "patch (hw_inputbuffer used_hello) 0 (take 10 (concat [] @ bob @ [0x0a])) =
      (bob @ [0x0a] @ map of_char ''ande'' @ [0x0a]) @ 0 # []"
    by (simp add: used_hello_def patch_def)
  have b: "brings (data_event (bob @ [0x0a])) (bob @ 0x0a # [])" using brings_data_event [of "bob @ [0x0a]"] by simp
  have a: "later (event_state 366 UIP_ACKDATA)" "uip_acked (event_state 366 UIP_ACKDATA)"
    "\<not> uip_newdata (event_state 366 UIP_ACKDATA)"
    by (simp_all add: later_def uip_acked_def uip_newdata_def)
  show ?thesis
    using hello_greets [of "event_state 366 UIP_CONNECTED" used_hello "[]" "event_state 366 UIP_ACKDATA" "[]" "[]",
        OF _ fits_event _ _ a(1) fits_event a(2,3) _ _ _ b _ data_event_later fits_data_event p _ _ _ a(1,2) fits_event fits_event _ a(1,2) fits_event,
        of "[]" "[]"]
    by (simp add: used_hello_def)
qed

definition waiting_hello :: hello_world_state where
  "waiting_hello = \<lparr>hw_p = (psock_init 0 10 fresh_psock)\<lparr>pt := 92\<rparr>, hw_inputbuffer = replicate 10 0, hw_name = replicate 40 0\<rparr>"

theorem hello_long_name_overread_witness:
  "hello_event waiting_hello (data_event (map of_char ''Alexander'' @ [0x0a])) = None"
proof -
  have h: "hears (replicate 10 0) [] waiting_hello"
    by (simp add: hears_def waiting_hello_def reader_def psock_init_def)
  show ?thesis
    by (rule hello_long_name_overread [OF h brings_data_event _ data_event_later]) (simp_all add: upto_marker_def)
qed

end
