(* ===== verification/UipLoop.thy ===== *)
theory UipLoop
  imports UipProcess UipArp UipNeighbor
begin

text \<open>
  The thread that drives the stack (\<^verbatim>\<open>fos/main.c\<close>): its initialisation and one round of its
  endless loop. The packet driver is the outside world: what \<^verbatim>\<open>tapdev_read\<close> returns is an
  argument and the frames given to \<^verbatim>\<open>tapdev_send\<close> are collected in \<open>sent\<close>, oldest first.
  \<open>now\<close> and \<open>now'\<close> are
  the values \<^verbatim>\<open>clock_time()\<close> returns for the two timers. The round ends
  with \<^verbatim>\<open>os_delay(5)\<close>, a kernel call that changes nothing here.
\<close>

record 'a thread =
  th_uip :: "'a uip"
  th_arp :: arp
  periodic_timer :: uip_timer
  arp_timer :: uip_timer
  sent :: "u8 list list"

text \<open>No frame within the time limit, a failing \<^verbatim>\<open>read\<close>, or the bytes of a frame, cut to the size
  of the buffer.\<close>

datatype tap_result = NoFrame | ReadError | Frame "u8 list"

definition tapdev_read :: "tap_result \<Rightarrow> 'a uip \<Rightarrow> 'a uip \<times> 32 word" where
  "tapdev_read inp s = (case inp of
     NoFrame \<Rightarrow> (s, 0)
   | ReadError \<Rightarrow> (s, - 1)
   | Frame bs \<Rightarrow> (let bs = take UIP_BUFSIZE bs in
       (s\<lparr>uip_buf := bs @ drop (length bs) (uip_buf s)\<rparr>, word_of_nat (length bs))))"

text \<open>A length behind the buffer makes \<^verbatim>\<open>write\<close> read past its end.\<close>

definition tapdev_send :: "'a thread \<Rightarrow> 'a thread option" where
  "tapdev_send t = do {
     bs \<leftarrow> slice 0 (unat (uip_len (th_uip t))) (uip_buf (th_uip t));
     Some (t\<lparr>sent := sent t @ [bs]\<rparr>) }"

definition httpd_init :: "'a uip \<Rightarrow> 'a uip" where
  "httpd_init s = uip_listen (HTONS 80) s"

definition uip_thread_start :: "build \<Rightarrow> 32 word \<Rightarrow> arp \<Rightarrow> 'a uip \<Rightarrow> 'a thread" where
  "uip_thread_start b now a s = (let
     pt = timer_set now 500;
     art = timer_set now 10000;
     s = uip_init b s;
     s = s\<lparr>uip_hostaddr := uip_ipaddr 192 168 0 2\<rparr>;
     s = s\<lparr>uip_draddr := uip_ipaddr 192 168 0 1\<rparr>;
     s = s\<lparr>uip_netmask := uip_ipaddr 255 255 255 0\<rparr>;
     s = httpd_init s
   in \<lparr>th_uip = s, th_arp = a, periodic_timer = pt, arp_timer = art, sent = []\<rparr>)"

text \<open>A packet that \<^verbatim>\<open>uip_process\<close> left behind is given its Ethernet header and sent.\<close>

definition send_ip :: "'a thread \<Rightarrow> 'a thread option" where
  "send_ip t =
     (if uip_len (th_uip t) > 0
      then tapdev_send (t\<lparr>th_uip := uip_arp_out (th_arp t) (th_uip t)\<rparr>)
      else Some t)"

definition thread_frame ::
    "build \<Rightarrow> 'a appcall \<Rightarrow> 'a appcall \<Rightarrow> 'a thread \<Rightarrow> 'a thread option" where
  "thread_frame b app uapp t = (let s = th_uip t in
     if aget16 E_type s = htons UIP_ETHTYPE_IP then do {
       s \<leftarrow> uip_input b app uapp s;
       send_ip (t\<lparr>th_uip := s\<rparr>) }
     else if aget16 E_type s = htons UIP_ETHTYPE_ARP then (let
       (a, s) = uip_arp_arpin (th_arp t) s;
       t = t\<lparr>th_arp := a, th_uip := s\<rparr>
     in if uip_len s > 0 then tapdev_send t else Some t)
     else Some t)"

text \<open>The loop over the connections \<open>rs\<close>.\<close>

fun thread_periodic ::
    "build \<Rightarrow> 'a appcall \<Rightarrow> 'a appcall \<Rightarrow> nat list \<Rightarrow> 'a thread \<Rightarrow> 'a thread option" where
  "thread_periodic b app uapp [] t = Some t"
| "thread_periodic b app uapp (r # rs) t = do {
     s \<leftarrow> uip_periodic b app uapp r (th_uip t);
     t \<leftarrow> send_ip (t\<lparr>th_uip := s\<rparr>);
     thread_periodic b app uapp rs t }"

fun thread_udp_periodic ::
    "build \<Rightarrow> 'a appcall \<Rightarrow> 'a appcall \<Rightarrow> nat list \<Rightarrow> 'a thread \<Rightarrow> 'a thread option" where
  "thread_udp_periodic b app uapp [] t = Some t"
| "thread_udp_periodic b app uapp (q # qs) t = do {
     s \<leftarrow> uip_udp_periodic b app uapp q (th_uip t);
     t \<leftarrow> send_ip (t\<lparr>th_uip := s\<rparr>);
     thread_udp_periodic b app uapp qs t }"

definition uip_thread_round ::
    "build \<Rightarrow> 'a appcall \<Rightarrow> 'a appcall \<Rightarrow> tap_result \<Rightarrow> 32 word \<Rightarrow> 32 word \<Rightarrow>
     'a thread \<Rightarrow> 'a thread option" where
  "uip_thread_round b app uapp inp now now' t = (let
     (s, n) = tapdev_read inp (th_uip t);
     t = t\<lparr>th_uip := s\<lparr>uip_len := ucast n\<rparr>\<rparr>
   in if uip_len (th_uip t) > 0 then thread_frame b app uapp t
      else if timer_expired now (periodic_timer t) then do {
        let t = t\<lparr>periodic_timer := timer_reset (periodic_timer t)\<rparr>;
        t \<leftarrow> thread_periodic b app uapp [0 ..< UIP_CONNS] t;
        t \<leftarrow> (if UIP_UDP b then thread_udp_periodic b app uapp [0 ..< UIP_UDP_CONNS] t else Some t);
        Some (if timer_expired now' (arp_timer t)
          then t\<lparr>arp_timer := timer_reset (arp_timer t), th_arp := uip_arp_timer (th_arp t)\<rparr>
          else t) }
      else Some t)"

end
