(* ===== verification/UipFw.thy ===== *)
theory UipFw
  imports UipChecksum
begin

text \<open>
  Packet forwarding over several network interfaces (\<^verbatim>\<open>uip-fw.c\<close>): the list of interfaces
  linked through their \<^verbatim>\<open>next\<close> pointers, the cache of the packets forwarded lately, and the
  forwarding of a packet with its time to live. The output function of an interface is a
  parameter; an interface is a number. A walk over the list is a loop that may run forever.
\<close>

subsection \<open>Data\<close>

record netif =
  nif_next :: "nat option"
  nif_ipaddr :: ip4
  nif_netmask :: ip4

record fwcache_entry =
  fc_timer :: u16
  fc_srcipaddr :: ip4
  fc_destipaddr :: ip4
  fc_ipid :: u16
  fc_proto :: u8

record fw =
  netifs :: "nat option"
  defaultnetif :: "nat option"
  nif :: "nat \<Rightarrow> netif"
  fwcache :: "fwcache_entry list"

type_synonym 'a fw_output = "nat \<Rightarrow> 'a uip \<Rightarrow> ('a uip \<times> u8) option"

abbreviation (input) "FWCACHE_SIZE \<equiv> (2 :: nat)"
abbreviation (input) "FW_TIME \<equiv> (20 :: u16)"
abbreviation (input) "ICMP_TE \<equiv> (11 :: u8)"
abbreviation (input) "UIP_FW_LOCAL \<equiv> (0 :: u8)"
abbreviation (input) "UIP_FW_OK \<equiv> (0 :: u8)"
abbreviation (input) "UIP_FW_FORWARDED \<equiv> (1 :: u8)"
abbreviation (input) "UIP_FW_ZEROLEN \<equiv> (2 :: u8)"
abbreviation (input) "UIP_FW_NOROUTE \<equiv> (4 :: u8)"

subsection \<open>Interfaces\<close>

partial_function (option) fw_unlink :: "fw \<Rightarrow> fw option" where
  "fw_unlink f = (case netifs f of
     None \<Rightarrow> Some f
   | Some t \<Rightarrow> fw_unlink (f\<lparr>netifs := nif_next (nif f t),
       nif := (nif f)(t := (nif f t)\<lparr>nif_next := None\<rparr>)\<rparr>))"

definition uip_fw_init :: "fw \<Rightarrow> fw option" where
  "uip_fw_init f = fw_unlink (f\<lparr>defaultnetif := None\<rparr>)"

definition ipaddr_maskcmp :: "ip4 \<Rightarrow> ip4 \<Rightarrow> ip4 \<Rightarrow> bool" where
  "ipaddr_maskcmp a n m \<longleftrightarrow> fst a AND fst m = fst n AND fst m \<and> snd a AND snd m = snd n AND snd m"

text \<open>The walk from interface \<open>p\<close> on.\<close>

partial_function (option) netif_walk :: "ip4 \<Rightarrow> fw \<Rightarrow> nat option \<Rightarrow> nat option option" where
  "netif_walk dest f p = (case p of
     None \<Rightarrow> Some (defaultnetif f)
   | Some n \<Rightarrow>
       if ipaddr_maskcmp dest (nif_ipaddr (nif f n)) (nif_netmask (nif f n))
       then Some (Some n) else netif_walk dest f (nif_next (nif f n)))"

definition find_netif :: "fw \<Rightarrow> 'a uip \<Rightarrow> nat option option" where
  "find_netif f s = netif_walk (get_ip H_destipaddr s) f (netifs f)"

definition uip_fw_register :: "nat \<Rightarrow> fw \<Rightarrow> fw" where
  "uip_fw_register n f = (let
     f = f\<lparr>nif := (nif f)(n := (nif f n)\<lparr>nif_next := netifs f\<rparr>)\<rparr>
   in f\<lparr>netifs := Some n\<rparr>)"

definition uip_fw_default :: "nat option \<Rightarrow> fw \<Rightarrow> fw" where
  "uip_fw_default n f = f\<lparr>defaultnetif := n\<rparr>"

subsection \<open>The cache\<close>

text \<open>The entry to replace: the first unused one, else the last of those with the smallest timer not
  above \<open>FW_TIME\<close>; NULL when there is none.\<close>

fun fwcache_slot :: "fwcache_entry list \<Rightarrow> nat \<Rightarrow> u16 \<Rightarrow> nat option \<Rightarrow> nat option" where
  "fwcache_slot [] i oldest fw = fw"
| "fwcache_slot (e # es) i oldest fw =
     (if fc_timer e = 0 then Some i
      else if fc_timer e \<le> oldest then fwcache_slot es (i + 1) (fc_timer e) (Some i)
      else fwcache_slot es (i + 1) oldest fw)"

definition fwcache_register :: "fw \<Rightarrow> 'a uip \<Rightarrow> fw option" where
  "fwcache_register f s = do {
     i \<leftarrow> fwcache_slot (fwcache f) 0 FW_TIME None;
     Some (f\<lparr>fwcache := (fwcache f)[i := \<lparr>fc_timer = FW_TIME,
       fc_srcipaddr = get_ip H_srcipaddr s, fc_destipaddr = get_ip H_destipaddr s,
       fc_ipid = get16 H_ipid s, fc_proto = get8 H_proto 0 s\<rparr>]\<rparr>) }"

definition fwcache_hit :: "'a uip \<Rightarrow> fwcache_entry \<Rightarrow> bool" where
  "fwcache_hit s e \<longleftrightarrow> fc_timer e \<noteq> 0 \<and> fc_ipid e = get16 H_ipid s \<and>
     fc_srcipaddr e = get_ip H_srcipaddr s \<and> fc_destipaddr e = get_ip H_destipaddr s \<and>
     fc_proto e = get8 H_proto 0 s"

definition uip_fw_periodic :: "fw \<Rightarrow> fw" where
  "uip_fw_periodic f = f\<lparr>fwcache :=
     map (\<lambda>e. if fc_timer e > 0 then e\<lparr>fc_timer := fc_timer e - 1\<rparr> else e) (fwcache f)\<rparr>"

subsection \<open>Output and forwarding\<close>

definition time_exceeded :: "'a uip \<Rightarrow> 'a uip option" where
  "time_exceeded s =
     (if get8 H_proto 0 s = UIP_PROTO_ICMP then Some (s\<lparr>uip_len := 0\<rparr>)
      else do {
        h \<leftarrow> slice UIP_LLH_LEN 28 (uip_buf s);
        b \<leftarrow> blit (UIP_LLH_LEN + 28) h (uip_buf s);
        let s = s\<lparr>uip_buf := b\<rparr>;
        let s = put8 H_icmptype 0 ICMP_TE s;
        let s = put8 H_icode 0 0 s;
        let s = put16 H_icmpchksum 0 s;
        c \<leftarrow> uip_chksum (UIP_LLH_LEN + ip_off H_icmptype) 36 s;
        let s = put16 H_icmpchksum (NOT c) s;
        let dst = get_ip H_destipaddr s;
        let s = put_ip H_destipaddr (get_ip H_srcipaddr s) s;
        let s = put_ip H_srcipaddr dst s;
        let s = put_ip H_srcipaddr (uip_hostaddr s) s;
        let s = s\<lparr>uip_len := 56\<rparr>;
        let s = put8 H_len 1 (lo8 (uip_len s)) (put8 H_len 0 0 s);
        let s = put8 H_vhl 0 0x45 s;
        let s = put8 H_tos 0 0 s;
        let s = put_be H_ipoffset 0 s;
        let s = put8 H_ttl 0 UIP_TTL s;
        let s = put8 H_proto 0 UIP_PROTO_ICMP s;
        let s = put16 H_ipchksum 0 s;
        c \<leftarrow> uip_ipchksum s;
        Some (put16 H_ipchksum (NOT c) s) })"

definition uip_fw_output ::
    "'a fw_output \<Rightarrow> fw \<Rightarrow> 'a uip \<Rightarrow> (fw \<times> 'a uip \<times> u8) option" where
  "uip_fw_output out f s =
     (if uip_len s = 0 then Some (f, s, UIP_FW_ZEROLEN)
      else do {
        f \<leftarrow> fwcache_register f s;
        n \<leftarrow> find_netif f s;
        case n of
          None \<Rightarrow> Some (f, s, UIP_FW_NOROUTE)
        | Some n \<Rightarrow> do { (s, r) \<leftarrow> out n s; Some (f, s, r) } })"

text \<open>The time to live is decremented and the header checksum adjusted.\<close>

definition fw_ttl :: "'a uip \<Rightarrow> 'a uip" where
  "fw_ttl s = (let
     s = put8 H_ttl 0 (get8 H_ttl 0 s - 1) s
   in if get16 H_ipchksum s \<ge> HTONS (0xffff - 0x0100)
      then put16 H_ipchksum (get16 H_ipchksum s + HTONS 0x0100 + 1) s
      else put16 H_ipchksum (get16 H_ipchksum s + HTONS 0x0100) s)"

definition uip_fw_forward ::
    "'a fw_output \<Rightarrow> fw \<Rightarrow> 'a uip \<Rightarrow> (fw \<times> 'a uip \<times> u8) option" where
  "uip_fw_forward out f s =
     (if get_ip H_destipaddr s = uip_hostaddr s then Some (f, s, UIP_FW_LOCAL)
      else if list_ex (fwcache_hit s) (fwcache f) then Some (f, s, UIP_FW_FORWARDED)
      else if get8 H_ttl 0 s \<le> 1 \<and> get_ip H_destipaddr s = (0xffff, 0xffff)
      then Some (f, s, UIP_FW_LOCAL)
      else do {
        s \<leftarrow> (if get8 H_ttl 0 s \<le> 1 then time_exceeded s else Some s);
        let s = fw_ttl s;
        if uip_len s > 0 then do {
          let s = s\<lparr>uip_appdata := UIP_LLH_LEN + UIP_TCPIP_HLEN\<rparr>;
          (f, s, _) \<leftarrow> uip_fw_output out f s;
          Some (f, s, UIP_FW_FORWARDED) }
        else Some (f, s, UIP_FW_FORWARDED) })"

end
