(* ===== verification/Spec2Isabelle.thy ===== *)
theory Spec2Isabelle
  imports FosSamples FosLibc FosFsm FosMemBlock FosShell UipHttpSamples UipAppSamples UipTelnetSamples UipHelloSamples UipLoop UipFw
begin

text \<open>
  A verification of FOS, a small preemptive real-time kernel, and of the uIP TCP/IP stack with its
  applications that run on it. Paths below are relative to \<^verbatim>\<open>src/\<close>; definitions keep the names of the C functions.

  \<^bold>\<open>The program.\<close> \<^verbatim>\<open>kernel/\<close> holds the kernel: tasks with 32 priorities and round robin among equals, counting
  semaphores, mutexes with a priority ceiling, message queues, software timers and delays, a device
  table, a pool allocator and a state machine library. All objects are threaded on the intrusive lists of
  \<^verbatim>\<open>kernel/list.c\<close>; a blocked task is on the list of the object it waits for, a ready one on one of the
  32 ready queues that \<^verbatim>\<open>kernel/prio_sched.c\<close> keeps with a two-level bitmap. Every call runs with interrupts
  off and ends with \<^verbatim>\<open>schedule\<close>; the timer interrupt wakes delayed tasks and schedules too.
  \<^verbatim>\<open>app/system_start.c\<close> starts five tasks: idle, the shell (\<^verbatim>\<open>middleware/shell_parser\<close>), the uIP thread
  (\<^verbatim>\<open>middleware/uip/fos/main.c\<close>) and two of the application. The uIP thread reads frames from a driver, passes them
  to ARP or to \<^verbatim>\<open>uip_process\<close>, polls the connections by a timer and sends what the stack puts
  in the one packet buffer. The stack calls the application for each event of a connection; the
  applications (web server, web client, telnet server, resolver, DHCP client) are protothreads or
  state machines that read their event from the stack's globals and answer in the same packet buffer.

  \<^bold>\<open>Modelling.\<close> Functions are HOL functions that pass the state explicitly: the record \<open>kst\<close> of the kernel's globals
  (\<open>FosState\<close>), the record \<open>uip\<close> of the stack's (\<open>UipState\<close>), and a record per application, which is the
  connection's application state. The option monad (\<open>FosPrelude\<close>) stands for C's undefined behaviour: \<open>None\<close> is an
  access outside an array, a NULL pointer, a failed \<^verbatim>\<open>OS_ASSERT\<close> or a loop that never ends.
  Integers have their C widths as words, so that they wrap as in C. Pointers to kernel objects are
  numbers of the objects and of the links in them, pointers into the packet buffer are offsets, pointers to
  strings are the list of the bytes up to the end of the array. A local continuation of a
  protothread is the line of the statement at which it waits. Loops that might not end are
  \<^theory_text>\<open>partial_function (option)\<close>, and where they end that is proved; there is no fuel. Code that the program does not
  contain is a parameter: the functions of software timers, drivers and commands, the application
  below the stack, callbacks of the applications' users, the clock and \<^verbatim>\<open>malloc\<close>.

  \<^bold>\<open>The kernel.\<close>
    \<^item> \<open>FosPrelude\<close>: integer types, the monad with its lemmas, lists and words.
    \<^item> \<open>FosLinks\<close> (\<^verbatim>\<open>kernel/list.c\<close>): the list operations on a store of links against sequences of nodes; the locale
      \<open>list_store\<close> states what the components need of them and is interpreted on the code's lists here and on
      the kernel's heads in \<open>FosState\<close>.
    \<^item> \<open>FosState\<close> (\<^verbatim>\<open>kernel/include/*.h\<close>, \<^verbatim>\<open>var_define.c\<close>): the data. \<open>FosReady\<close> (\<^verbatim>\<open>prio_sched.c\<close>, \<^verbatim>\<open>cpu/or1ksim/interrupt.c\<close>):
      bitmap, ready queues and scheduler; the table search is shown equal to the bit scan.
    \<^item> \<open>FosWait\<close>: the invariant of the kernel state and the locale \<open>wait_object\<close>, the contract of everything a task can
      wait for, interpreted for semaphores, mutexes and queues. It gives what blocking and waking do to the
      abstract ready queues, from which the refinements of \<open>FosSem\<close>, \<open>FosMutex\<close> and \<open>FosMsgq\<close> follow.
    \<^item> \<open>FosTask\<close> (\<^verbatim>\<open>task.c\<close>, \<^verbatim>\<open>cpu/or1ksim/stack_ready.c\<close>), \<open>FosTimer\<close> (\<^verbatim>\<open>timer.c\<close>), \<open>FosDevice\<close> (\<^verbatim>\<open>device.c\<close>), \<open>FosBoot\<close>
      (\<^verbatim>\<open>app/*.c\<close>): their operations keep the invariant; a delayed task is woken by exactly the right interrupt.
    \<^item> \<open>FosKernel\<close>: the step relation of system calls and timer interrupts after the boot. Every reachable state
      satisfies the invariant, and no allowed step faults.
    \<^item> \<open>FosLibc\<close> (\<^verbatim>\<open>libc/\<close>), \<open>FosFsm\<close> (\<^verbatim>\<open>fsm.c\<close>), \<open>FosMemBlock\<close> (\<^verbatim>\<open>mem_block.c\<close>), \<open>FosShell\<close>: the libraries and the shell.
    \<^item> \<open>FosSamples\<close>: the kernel's theorems at work on concrete states.

  \<^bold>\<open>The stack.\<close>
    \<^item> \<open>UipState\<close> (\<^verbatim>\<open>uip.h\<close>, \<^verbatim>\<open>fos/uip-conf.h\<close>): packet buffer, header fields by offset, connections. \<open>UipChecksum\<close>: the
      checksum is the sum in ones' complement. \<open>UipConn\<close>: tables, \<^verbatim>\<open>uip_connect\<close>, reassembly. \<open>UipProcess\<close>:
      \<^verbatim>\<open>uip_process\<close>, a definition per label of the C function, jumps being tail calls.
    \<^item> \<open>UipSend\<close>, \<open>UipSafe\<close>: the stack's invariant; timer events and received frames whose lengths are plausible and whose
      options end keep it, and what goes wrong without these two conditions. \<open>UipReliable\<close>: segments are
      accepted by a receiver, retransmission backs off and gives up. \<open>UipOpen\<close>: opening a connection.
    \<^item> \<open>UipArp\<close>, \<open>UipNeighbor\<close> (with \<^verbatim>\<open>timer.c\<close>, \<^verbatim>\<open>lib/memb.c\<close>, \<^verbatim>\<open>uiplib.c\<close>), \<open>UipFw\<close>, \<open>UipLoop\<close> (\<^verbatim>\<open>fos/main.c\<close>): the modules around it.
      \<open>UipPool\<close>: the locale \<open>block_pool\<close>, the contract of an allocator of blocks, interpreted on \<^verbatim>\<open>memb.c\<close>.
    \<^item> \<open>UipSamples\<close>: the theorems at work.

  \<^bold>\<open>The applications.\<close>
    \<^item> \<open>UipPsock\<close> (\<^verbatim>\<open>psock.c\<close>, \<^verbatim>\<open>pt.h\<close>): protosockets; reading a line does not depend on the segments, sending delivers. \<open>UipWebSamples\<close>.
    \<^item> Web server: \<open>UipStrings\<close> (the functions of \<^verbatim>\<open>string.h\<close>), \<open>UipHttpFs\<close> (\<^verbatim>\<open>httpd-fs.c\<close>), \<open>UipHttpd\<close> (\<^verbatim>\<open>httpd.c\<close>, \<^verbatim>\<open>httpd-cgi.c\<close>),
      \<open>UipHttpRequest\<close> (what is read), \<open>UipHttpAnswer\<close> (what is sent, with a small logic of threads), \<open>UipHttpSamples\<close>.
    \<^item> Resolver: \<open>UipResolv\<close> (\<^verbatim>\<open>resolv.c\<close>), \<open>UipDns\<close> (its messages against the DNS format), \<open>UipResolves\<close>.
    \<^item> DHCP client: \<open>UipDhcpc\<close> (\<^verbatim>\<open>dhcpc.c\<close>), \<open>UipDhcpThread\<close> (what it sends and reads, and that it is never configured).
    \<^item> Web client: \<open>UipWebclient\<close> (\<^verbatim>\<open>webclient.c\<close>), \<open>UipWebRun\<close> (the request), \<open>UipWebReply\<close> (the answer).
    \<^item> Telnet server: \<open>UipTelnetd\<close> (\<^verbatim>\<open>telnetd.c\<close>, \<^verbatim>\<open>shell.c\<close>), \<open>UipTelnetRun\<close> (its lines, sessions and input), \<open>UipTelnetSamples\<close>.
    \<^item> Example: \<open>UipHello\<close> (\<^verbatim>\<open>hello-world.c\<close> and a whole conversation with it), \<open>UipHelloSamples\<close>.
    \<^item> \<open>UipAppSamples\<close>: resolver, DHCP client and web client at work.

  \<^bold>\<open>Bounds.\<close> The configuration is that of the sources: 32 priorities, 40 connections, a packet buffer of 422 bytes,
  a segment of 366 bytes, eight ARP entries, four names of the resolver, sixteen telnet lines of 40 characters.
  Theorems hold for all states and events that satisfy their assumptions, not for a bounded number; the
  samples show that the assumptions can hold.

  \<^bold>\<open>What the proofs found.\<close> Several theorems state what the code does and surely does not mean to do: a mutex is held by two tasks
  after a contended release (\<open>FosMutex\<close>); a message that wakes a reader is not delivered to it (\<open>FosMsgq\<close>);
  priority 32 indexes past the ready queues (\<open>FosTask\<close>); the pool allocator leaves its pool (\<open>FosMemBlock\<close>); a short packet
  and a crafted option list break the stack (\<open>UipSafe\<close>); ARP entries stop expiring (\<open>UipArp\<close>); long data skip
  segments (\<open>UipPsock\<close>); long names are read past their array (\<open>UipHttpAnswer\<close>) or written past it (\<open>UipWebReply\<close>); an answer without
  an address makes an old one valid (\<open>UipResolves\<close>); the DHCP client never takes an offer and can hang
  (\<open>UipDhcpThread\<close>); every telnet session that ends by \<^verbatim>\<open>exit\<close> loses lines (\<open>UipTelnetRun\<close>); the example greets with
  the rest of an earlier name (\<open>UipHelloSamples\<close>).

  \<^bold>\<open>Not modelled.\<close> \<^verbatim>\<open>uip-split.c\<close> is disabled by \<^verbatim>\<open>#if 0\<close>; \<^verbatim>\<open>apps/smtp\<close> uses fields that its header does not declare and
  cannot be compiled; \<^verbatim>\<open>httpd-fsdata.c\<close> is an older copy of the files that the build leaves out. The IPv6 branches, urgent data, ping configuration and broadcast forwarding are
  disabled by the configuration. Hardware initialisation, register headers and drivers (\<^verbatim>\<open>cpu/\<close>, \<^verbatim>\<open>fos/tapdev.c\<close>) and the
  context switch itself are the machine's: the model has the running task's identity, not its registers. The
  bodies of the sample tasks are sequences of the modelled calls and prints, and printed messages are left out.
\<close>

end
